(* ===== verification/Rust_Prelude.thy ===== *)
theory Rust_Prelude
  imports Main "HOL-Library.Word" "HOL-Library.While_Combinator"
begin

text \<open>
  Shared vocabulary of the development: the machine types of the Rust sources, the outcome
  of a Rust function (a value, an error or a panic), checked and panicking arithmetic, and
  the generic lemmas on words and lists the component theories rely on.

  \<^item> \<open>U256\<close>, \<open>U512\<close>, \<open>u128\<close>, \<dots> are words of that width: the operators \<open>+\<close>, \<open>-\<close>, \<open>*\<close>
    of the big-integer types wrap silently, as the word operations do. \<open>I256\<close> is the same
    word read through \<^const>\<open>sint\<close>.
  \<^item> \<open>i16\<close>, \<open>i32\<close>, \<open>i128\<close> are \<^typ>\<open>int\<close> with the wrap-around of the release profile
    written out (\<open>wrap_i32\<close> and its siblings).
  \<^item> Division by zero panics in Rust: it is the value \<open>Panic\<close> of the outcome type.
\<close>

unbundle bit_operations_syntax

text \<open>
  Powers such as \<open>2 ^ 256\<close> stay symbolic in the component proofs; a proof that evaluates a
  closed term adds \<open>power_numeral\<close> again.
\<close>

declare power_numeral [simp del]

section \<open>Machine types\<close>

type_synonym u8 = "8 word"
type_synonym u16 = "16 word"
type_synonym u32 = "32 word"
type_synonym u64 = "64 word"
type_synonym u128 = "128 word"
type_synonym u160 = "160 word"
type_synonym u256 = "256 word"
type_synonym u512 = "512 word"
type_synonym i256 = "256 word"
type_synonym i16 = int
type_synonym i32 = int
type_synonym i128 = int

named_theorems outcome_simps
  \<open>how an outcome can be a success, an error or a panic\<close>

named_theorems unat_simps
  \<open>natural-number readings of checked word operations\<close>

named_theorems word_defs
  \<open>definitions of the machine-integer layer, for evaluation\<close>

section \<open>Outcomes\<close>

datatype ('a, 'e) outcome = Ok 'a | Err 'e | Panic

primrec obind :: "('a, 'e) outcome \<Rightarrow> ('a \<Rightarrow> ('b, 'e) outcome) \<Rightarrow> ('b, 'e) outcome" where
  "obind (Ok x) f = f x"
| "obind (Err e) f = Err e"
| "obind Panic f = Panic"

primrec map_err :: "('e \<Rightarrow> 'f) \<Rightarrow> ('a, 'e) outcome \<Rightarrow> ('a, 'f) outcome" where
  "map_err f (Ok x) = Ok x"
| "map_err f (Err e) = Err (f e)"
| "map_err f Panic = Panic"

definition ok_or :: "'a option \<Rightarrow> 'e \<Rightarrow> ('a, 'e) outcome" where
  "ok_or v e = (case v of None \<Rightarrow> Err e | Some x \<Rightarrow> Ok x)"

primrec is_ok :: "('a, 'e) outcome \<Rightarrow> bool" where
  "is_ok (Ok x) = True"
| "is_ok (Err e) = False"
| "is_ok Panic = False"

lemma obind_eq_Ok [outcome_simps]:
  "obind m f = Ok y \<longleftrightarrow> (\<exists>x. m = Ok x \<and> f x = Ok y)"
  by (cases m) auto

lemma obind_eq_Panic [outcome_simps]:
  "obind m f = Panic \<longleftrightarrow> m = Panic \<or> (\<exists>x. m = Ok x \<and> f x = Panic)"
  by (cases m) auto

lemma obind_eq_Err [outcome_simps]:
  "obind m f = Err e \<longleftrightarrow> m = Err e \<or> (\<exists>x. m = Ok x \<and> f x = Err e)"
  by (cases m) auto

lemma obind_assoc: "obind (obind m f) g = obind m (\<lambda>x. obind (f x) g)"
  by (cases m) auto

lemma obind_cong [fundef_cong]:
  "m = m' \<Longrightarrow> (\<And>x. m' = Ok x \<Longrightarrow> f x = f' x) \<Longrightarrow> obind m f = obind m' f'"
  by (cases m') auto

lemma map_err_eq_Ok [outcome_simps]: "map_err f m = Ok x \<longleftrightarrow> m = Ok x"
  by (cases m) auto

lemma map_err_eq_Panic [outcome_simps]: "map_err f m = Panic \<longleftrightarrow> m = Panic"
  by (cases m) auto

lemma ok_or_simps [simp]: "ok_or (Some x) e = Ok x" "ok_or None e = Err e"
  by (simp_all add: ok_or_def)

lemma ok_or_eq_Ok [outcome_simps]: "ok_or v e = Ok x \<longleftrightarrow> v = Some x"
  by (cases v) auto

lemma ok_or_neq_Panic [outcome_simps]: "ok_or v e \<noteq> Panic"
  by (cases v) auto

lemma is_ok_iff: "is_ok m \<longleftrightarrow> (\<exists>x. m = Ok x)"
  by (cases m) auto

section \<open>Word arithmetic of the sources\<close>

definition u_max :: "'a::len word" where
  "u_max = - 1"

definition checked_add :: "'a::len word \<Rightarrow> 'a word \<Rightarrow> 'a word option" where
  "checked_add a b = (if unat a + unat b < 2 ^ LENGTH('a) then Some (a + b) else None)"

definition checked_sub :: "'a::len word \<Rightarrow> 'a word \<Rightarrow> 'a word option" where
  "checked_sub a b = (if b \<le> a then Some (a - b) else None)"

definition checked_mul :: "'a::len word \<Rightarrow> 'a word \<Rightarrow> 'a word option" where
  "checked_mul a b = (if unat a * unat b < 2 ^ LENGTH('a) then Some (a * b) else None)"

definition u_div :: "'a::len word \<Rightarrow> 'a word \<Rightarrow> ('a word, 'e) outcome" where
  "u_div a b = (if b = 0 then Panic else Ok (a div b))"

definition u_rem :: "'a::len word \<Rightarrow> 'a word \<Rightarrow> ('a word, 'e) outcome" where
  "u_rem a b = (if b = 0 then Panic else Ok (a mod b))"

lemmas checked_defs [word_defs] =
  checked_add_def checked_sub_def checked_mul_def u_div_def u_rem_def u_max_def

lemma unat_bound: "unat (a :: 'a::len word) < 2 ^ LENGTH('a)"
  by (rule unsigned_less)

lemma unat_bound_256: "unat (a :: u256) < 2 ^ 256"
  using unat_bound [of a] by simp

lemma power_le_unat: "2 ^ k \<le> unat (x :: 'a::len word) \<Longrightarrow> k < LENGTH('a)"
  using le_less_trans [OF _ unat_bound [of x], of "2 ^ k"] by simp

lemma unat_u_max: "unat (u_max :: 'a::len word) = 2 ^ LENGTH('a) - 1"
  by (simp add: u_max_def unsigned_minus_1_eq_mask mask_eq_exp_minus_1)

lemma unat_plus_one:
  assumes "(r :: 'a::len word) \<noteq> u_max"
  shows "unat (r + 1) = unat r + 1"
proof -
  have "unat r \<noteq> unat (u_max :: 'a word)" using assms by (simp only: word_unat_eq_iff not_False_eq_True)
  with unat_bound [of r] have "unat r + 1 < 2 ^ LENGTH('a)" by (simp only: unat_u_max)
  then show ?thesis by (simp add: unat_word_ariths)
qed

lemma unat_word_of_nat:
  "n < 2 ^ LENGTH('a) \<Longrightarrow> unat (word_of_nat n :: 'a::len word) = n"
  by (simp add: unat_of_nat)

lemma word_of_nat_eqI: "unat (w :: 'a::len word) = n \<Longrightarrow> w = word_of_nat n"
  by auto

lemma checked_add_Some [unat_simps]:
  "checked_add a b = Some c \<longleftrightarrow> unat c = unat a + unat b"
  using unat_bound [of c]
  by (cases "unat a + unat b < 2 ^ LENGTH('a)")
    (auto simp: checked_add_def unat_word_ariths word_unat_eq_iff simp del: unsigned_less)

lemma checked_sub_Some [unat_simps]:
  "checked_sub a b = Some c \<longleftrightarrow> unat a = unat b + unat c"
  unfolding checked_sub_def
  by (auto simp: unat_sub word_unat_eq_iff word_le_nat_alt)

lemma checked_mul_Some [unat_simps]:
  "checked_mul a b = Some c \<longleftrightarrow> unat c = unat a * unat b"
  using unat_bound [of c]
  by (cases "unat a * unat b < 2 ^ LENGTH('a)")
    (auto simp: checked_mul_def unat_word_ariths word_unat_eq_iff simp del: unsigned_less)

lemma u_div_eq_Ok [outcome_simps]:
  "u_div a b = Ok q \<longleftrightarrow> b \<noteq> 0 \<and> q = a div b"
  by (auto simp: u_div_def)

lemma u_rem_eq_Ok [outcome_simps]:
  "u_rem a b = Ok q \<longleftrightarrow> b \<noteq> 0 \<and> q = a mod b"
  by (auto simp: u_rem_def)

lemma u_div_eq_Panic [outcome_simps]: "u_div a b = Panic \<longleftrightarrow> b = 0"
  by (auto simp: u_div_def)

lemma u_rem_eq_Panic [outcome_simps]: "u_rem a b = Panic \<longleftrightarrow> b = 0"
  by (auto simp: u_rem_def)

lemma unat_pos_iff: "0 < unat (a :: 'a::len word) \<longleftrightarrow> a \<noteq> 0"
  by (simp add: unat_gt_0)

section \<open>Widening and narrowing between U256 and U512\<close>

definition to_u512 :: "u256 \<Rightarrow> u512" where
  "to_u512 a = ucast a"

definition checked_narrow :: "u512 \<Rightarrow> u256 option" where
  "checked_narrow v = (if unat v < 2 ^ 256 then Some (ucast v) else None)"

lemma unat_to_u512 [simp]: "unat (to_u512 a) = unat a"
  using unat_bound [of a]
  by (simp add: to_u512_def unsigned_ucast_eq take_bit_nat_eq_self power_numeral)

lemma checked_narrow_Some [unat_simps]:
  "checked_narrow v = Some r \<longleftrightarrow> unat r = unat v"
proof -
  have "unat (ucast v :: u256) = unat v mod 2 ^ 256"
    by (simp add: unsigned_ucast_eq take_bit_eq_mod)
  then show ?thesis
    using unat_bound [of r] by (auto simp: checked_narrow_def word_unat_eq_iff)
qed

lemma unat_ucast_wider: "LENGTH('a) \<le> LENGTH('b) \<Longrightarrow> unat (ucast (v :: 'a::len word) :: 'b::len word) = unat v"
  using less_le_trans [OF unat_bound [of v] power_increasing [of "LENGTH('a)" "LENGTH('b)" "2 :: nat"]]
  by (simp add: unsigned_ucast_eq take_bit_nat_eq_self_iff)

section \<open>Signed 256-bit readings\<close>

lemma sint_nonneg_unat:
  fixes w :: u256
  assumes "0 \<le> sint w"
  shows "unat w < 2 ^ 255"
proof -
  have "0 \<le> sint w" "sint w < 2 ^ 255" using assms sint_lt [of w] by simp_all
  moreover have "(2 :: int) ^ 255 < 2 ^ 256" by (rule power_strict_increasing) simp_all
  ultimately have "take_bit 256 (sint w) = sint w" by (intro take_bit_int_eq_self) linarith+
  with \<open>sint w < 2 ^ 255\<close> have "uint w < 2 ^ 255" by (simp add: uint_sint)
  then have "int (unat w) < 2 ^ 255" by simp
  then show ?thesis by (metis of_nat_less_iff of_nat_numeral of_nat_power)
qed

lemma sint_small: "unat (w :: i256) < 2 ^ 255 \<Longrightarrow> sint w = int (unat w)"
proof -
  assume "unat w < 2 ^ 255"
  then have "uint w < 2 ^ 255" by (metis of_nat_less_iff of_nat_numeral of_nat_power uint_nat)
  moreover have "- (2 ^ 255) \<le> uint w" using uint_ge_0 [of w] by (simp add: order_trans [of _ 0])
  ultimately show ?thesis by (simp add: sint_uint signed_take_bit_int_eq_self)
qed

lemma sint_pos_unat: "0 \<le> sint (w :: i256) \<Longrightarrow> sint w = int (unat w)"
  by (rule sint_small [OF sint_nonneg_unat])

lemma sint_neg_small:
  assumes "unat (u :: u256) \<le> 2 ^ 255"
  shows "sint (- u) = - int (unat u)"
proof -
  have u: "int (unat u) \<le> 2 ^ 255" using assms by (metis of_nat_le_iff of_nat_numeral of_nat_power)
  have "- u = word_of_int (- int (unat u))" by simp
  then have "sint (- u) = signed_take_bit 255 (- int (unat u))" by (simp only: sint_sbintrunc') simp
  also have "\<dots> = - int (unat u)"
  proof (rule signed_take_bit_int_eq_self)
    show "- (2 ^ 255) \<le> - int (unat u)" using u by simp
    have "(0 :: int) < 2 ^ 255" by simp
    then show "- int (unat u) < 2 ^ 255" by linarith
  qed
  finally show ?thesis .
qed

section \<open>Signed integers with the wrap-around written out\<close>

definition wrap_i32 :: "int \<Rightarrow> i32" where
  "wrap_i32 x = (x + 2 ^ 31) mod 2 ^ 32 - 2 ^ 31"

definition wrap_i16 :: "int \<Rightarrow> i16" where
  "wrap_i16 x = (x + 2 ^ 15) mod 2 ^ 16 - 2 ^ 15"

definition wrap_i128 :: "int \<Rightarrow> i128" where
  "wrap_i128 x = (x + 2 ^ 127) mod 2 ^ 128 - 2 ^ 127"

definition is_i32 :: "int \<Rightarrow> bool" where
  "is_i32 x \<longleftrightarrow> - (2 ^ 31) \<le> x \<and> x < 2 ^ 31"

definition is_i128 :: "int \<Rightarrow> bool" where
  "is_i128 x \<longleftrightarrow> - (2 ^ 127) \<le> x \<and> x < 2 ^ 127"

lemmas wrap_defs [word_defs] = wrap_i32_def wrap_i16_def wrap_i128_def

lemma wrap_i32_id [simp]: "is_i32 x \<Longrightarrow> wrap_i32 x = x"
  by (simp add: wrap_i32_def is_i32_def power_numeral)

lemma wrap_i32_range: "is_i32 (wrap_i32 x)"
  by (simp add: wrap_i32_def is_i32_def power_numeral)

lemma wrap_i128_id [simp]: "is_i128 x \<Longrightarrow> wrap_i128 x = x"
  by (simp add: wrap_i128_def is_i128_def power_numeral)

definition quot_i :: "int \<Rightarrow> int \<Rightarrow> int" where
  \<comment> \<open>Rust's \<open>/\<close> on signed integers truncates towards zero\<close>
  "quot_i a b = sgn a * sgn b * (\<bar>a\<bar> div \<bar>b\<bar>)"

definition rem_i :: "int \<Rightarrow> int \<Rightarrow> int" where
  \<comment> \<open>Rust's \<open>%\<close> on signed integers has the sign of the dividend\<close>
  "rem_i a b = a - b * quot_i a b"

definition i_try_from :: "u256 \<Rightarrow> i256 option" where
  \<comment> \<open>\<open>I256::try_from\<close>: fails above the largest positive signed value\<close>
  "i_try_from a = (if unat a < 2 ^ 255 then Some a else None)"

definition i_checked_sub :: "i256 \<Rightarrow> i256 \<Rightarrow> i256 option" where
  "i_checked_sub a b =
     (let d = sint a - sint b
      in if - (2 ^ 255) \<le> d \<and> d < 2 ^ 255 then Some (a - b) else None)"

lemmas signed_defs [word_defs] = quot_i_def rem_i_def i_try_from_def i_checked_sub_def

end
