(* ===== verification/V3_Common.thy ===== *)
theory V3_Common
  imports Rust_Prelude
begin

text \<open>
  The leaves of \<open>src/rust/src/simulation/uniswap_v3_math/\<close>: the error enum of \<open>error.rs\<close>,
  \<open>bit_math.rs\<close>, \<open>unsafe_math.rs\<close>, the mid-price helper of \<open>mod.rs\<close>, and the report type
  that \<open>eyre\<close> errors and the enum are converted to by the question-mark operator.
\<close>

section \<open>Errors\<close>

datatype UniswapV3MathError =
    DenominatorIsZero
  | ResultIsU256MAX
  | SqrtPriceIsZero
  | SqrtPriceIsLteQuotient
  | ZeroValue
  | LiquidityIsZero
  | ProductDivAmount
  | DenominatorIsLteProdOne
  | LiquiditySub
  | LiquidityAdd
  | TickTooLarge \<comment> \<open>variant \<open>T\<close>\<close>
  | RatioOutOfRange \<comment> \<open>variant \<open>R\<close>\<close>
  | SafeCastToU160Overflow
  | TickSpacingError
  | MiddlewareError string
  | ParseError string

datatype report = Msg string | V3Math UniswapV3MathError

type_synonym 'a v3_result = "('a, UniswapV3MathError) outcome"
type_synonym 'a eyre_result = "('a, report) outcome"

section \<open>Bit math\<close>

fun bit_length :: "nat \<Rightarrow> nat" where
  "bit_length n = (if n = 0 then 0 else Suc (bit_length (n div 2)))"

declare bit_length.simps [simp del]

fun low_zeros :: "nat \<Rightarrow> nat" where
  "low_zeros n = (if n = 0 \<or> odd n then 0 else Suc (low_zeros (n div 2)))"

declare low_zeros.simps [simp del]

definition leading_zeros :: "'a::len word \<Rightarrow> nat" where
  "leading_zeros x = LENGTH('a) - bit_length (unat x)"

definition trailing_zeros :: "'a::len word \<Rightarrow> nat" where
  "trailing_zeros x = (if x = 0 then LENGTH('a) else low_zeros (unat x))"

definition most_significant_bit :: "u256 \<Rightarrow> u8 v3_result" where
  "most_significant_bit x =
     (if x = 0 then Err ZeroValue else Ok (255 - word_of_nat (leading_zeros x)))"

definition least_significant_bit :: "u256 \<Rightarrow> u8 v3_result" where
  "least_significant_bit x =
     (if x = 0 then Err ZeroValue else Ok (word_of_nat (trailing_zeros x)))"

lemma scaled_le: "(b :: nat) \<le> c \<Longrightarrow> a * b div c \<le> a"
  by (metis div_le_mono div_mult_self_is_m le_zero_eq linorder_neqE_nat mult_le_mono2 div_by_0 not_less_zero le0)

lemma bit_unat: "bit (unat (w :: u256)) n \<longleftrightarrow> bit w n"
  by (auto simp: bit_unsigned_iff dest: bit_imp_le_length)

lemma bit_length_bounds:
  "n \<noteq> 0 \<Longrightarrow> 2 ^ (bit_length n - 1) \<le> n \<and> n < 2 ^ bit_length n \<and> 0 < bit_length n"
proof (induction n rule: bit_length.induct)
  case (1 n)
  show ?case
  proof (cases "n div 2 = 0")
    case True
    with "1.prems" have "n = 1" by simp
    moreover have "bit_length 1 = 1"
      by (subst bit_length.simps) (simp add: bit_length.simps [of 0])
    ultimately show ?thesis by simp
  next
    case False
    with "1.IH" "1.prems" have ih: "2 ^ (bit_length (n div 2) - 1) \<le> n div 2"
      "n div 2 < 2 ^ bit_length (n div 2)" "0 < bit_length (n div 2)"
      by auto
    have bl: "bit_length n = Suc (bit_length (n div 2))"
      using "1.prems" by (simp add: bit_length.simps [of n])
    have "(2 :: nat) ^ bit_length (n div 2) = 2 * 2 ^ (bit_length (n div 2) - 1)"
      using ih(3) by (cases "bit_length (n div 2)") simp_all
    with ih(1) have "2 ^ bit_length (n div 2) \<le> n" by linarith
    moreover have "n < 2 * 2 ^ bit_length (n div 2)" using ih(2) by linarith
    ultimately show ?thesis by (simp add: bl)
  qed
qed

lemma bit_length_le: "n < 2 ^ k \<Longrightarrow> bit_length n \<le> k"
proof (cases "n = 0")
  case True
  then show ?thesis by (simp add: bit_length.simps [of 0])
next
  case False
  assume "n < 2 ^ k"
  with bit_length_bounds [OF False] have "2 ^ (bit_length n - 1) < (2 ^ k :: nat)" by linarith
  then have "bit_length n - 1 < k" by (simp add: power_strict_increasing_iff)
  then show ?thesis by linarith
qed

lemma low_zeros_factor: "n \<noteq> 0 \<Longrightarrow> \<exists>m. n = 2 ^ low_zeros n * m \<and> odd m"
proof (induction n rule: low_zeros.induct)
  case (1 n)
  show ?case
  proof (cases "odd n")
    case True
    then show ?thesis by (auto simp: low_zeros.simps [of n])
  next
    case False
    with "1.prems" have lz: "low_zeros n = Suc (low_zeros (n div 2))" and nz: "n div 2 \<noteq> 0"
      by (auto simp: low_zeros.simps [of n])
    from "1.IH" nz False "1.prems" obtain m where "n div 2 = 2 ^ low_zeros (n div 2) * m" "odd m"
      by auto
    with False have "n = 2 ^ low_zeros n * m"
      by (metis lz dvd_mult_div_cancel mult.assoc power_Suc)
    with \<open>odd m\<close> show ?thesis by blast
  qed
qed

lemma msb_of_nat:
  assumes "most_significant_bit x = Ok i"
  shows "2 ^ unat i \<le> unat x \<and> unat x < 2 ^ (unat i + 1)"
proof -
  from assms have nz: "x \<noteq> 0" and i: "i = 255 - word_of_nat (leading_zeros x)"
    by (auto simp: most_significant_bit_def split: if_splits)
  from nz have n: "unat x \<noteq> 0" by (simp add: unat_eq_zero)
  note b = bit_length_bounds [OF n]
  have le: "bit_length (unat x) \<le> 256"
    using unat_bound [of x] by (intro bit_length_le) simp
  have "leading_zeros x = 256 - bit_length (unat x)"
    by (simp add: leading_zeros_def)
  then have l: "leading_zeros x < 256" and lz: "255 - leading_zeros x = bit_length (unat x) - 1"
    using b le by auto
  have lzu: "unat (word_of_nat (leading_zeros x) :: u8) = leading_zeros x"
    using l by (simp add: unat_of_nat power_numeral)
  have "(word_of_nat (leading_zeros x) :: u8) \<le> 255"
    using l by (simp add: word_le_nat_alt lzu)
  then have "unat i = 255 - leading_zeros x"
    by (simp add: i unat_sub lzu)
  then have "unat i = bit_length (unat x) - 1" using lz by simp
  moreover from this b have "unat i + 1 = bit_length (unat x)" by auto
  ultimately show ?thesis using b by simp
qed

lemma lsb_of_nat:
  assumes "least_significant_bit x = Ok i"
  shows "\<exists>m. unat x = 2 ^ unat i * m \<and> odd m"
proof -
  from assms have nz: "x \<noteq> 0" and i: "i = word_of_nat (low_zeros (unat x))"
    by (auto simp: least_significant_bit_def trailing_zeros_def split: if_splits)
  from nz have "unat x \<noteq> 0" by (simp add: unat_eq_zero)
  from low_zeros_factor [OF this] obtain m where m: "unat x = 2 ^ low_zeros (unat x) * m" "odd m"
    by blast
  then have "2 ^ low_zeros (unat x) \<le> unat x" by (cases m) auto
  then have "low_zeros (unat x) < 256" using power_le_unat [of _ x] by simp
  then have "unat i = low_zeros (unat x)" by (simp add: i unat_of_nat power_numeral)
  with m show ?thesis by auto
qed

section \<open>Unsafe math\<close>

definition div_rounding_up :: "u256 \<Rightarrow> u256 \<Rightarrow> (u256, 'e) outcome" where
  "div_rounding_up a b =
     obind (u_div a b) (\<lambda>quotient.
     obind (u_rem a b) (\<lambda>remainder.
       Ok (if remainder = 0 then quotient else quotient + 1)))"

definition ceil_div :: "nat \<Rightarrow> nat \<Rightarrow> nat" where
  "ceil_div n d = n div d + (if n mod d = 0 then 0 else 1)"

lemma ceil_div_le: "0 < d \<Longrightarrow> ceil_div n d \<le> k \<longleftrightarrow> n \<le> k * d"
proof -
  assume d: "0 < d"
  have eq: "n = n div d * d + n mod d" by simp
  show ?thesis
  proof (cases "n mod d = 0")
    case True
    then have "n = n div d * d" using eq by simp
    then show ?thesis using d True by (simp add: ceil_div_def) (metis mult_le_cancel2)
  next
    case False
    have "n div d + 1 \<le> k \<longleftrightarrow> n div d < k" by linarith
    also have "\<dots> \<longleftrightarrow> n < k * d" using d by (simp add: div_less_iff_less_mult)
    also have "\<dots> \<longleftrightarrow> n \<le> k * d"
      using False by (metis le_neq_implies_less mod_mult_self2_is_0 less_imp_le)
    finally show ?thesis using False by (simp add: ceil_div_def)
  qed
qed

lemma ceil_div_upper: "0 < d \<Longrightarrow> n \<le> ceil_div n d * d"
  using ceil_div_le [of d n "ceil_div n d"] by simp

lemma ceil_div_ge_div: "n div d \<le> ceil_div n d"
  by (simp add: ceil_div_def)

lemma ceil_div_mono: "n \<le> n' \<Longrightarrow> 0 < d \<Longrightarrow> ceil_div n d \<le> ceil_div n' d"
  using ceil_div_le [of d n "ceil_div n' d"] ceil_div_upper [of d n'] by linarith

lemma ceil_div_le_self: "0 < d \<Longrightarrow> ceil_div n d \<le> n"
  by (simp add: ceil_div_le)

lemma unat_ceil_div:
  fixes n d :: "'a::len word"
  assumes "d \<noteq> 0"
  shows "unat (n div d + (if n mod d = 0 then 0 else 1)) = ceil_div (unat n) (unat d)"
proof -
  have "ceil_div (unat n) (unat d) \<le> unat n"
    using assms by (intro ceil_div_le_self) (simp add: unat_gt_0)
  then have fits: "ceil_div (unat n) (unat d) < 2 ^ LENGTH('a)"
    using unat_bound [of n] by linarith
  have z: "n mod d = 0 \<longleftrightarrow> unat n mod unat d = 0"
    by (simp only: unat_mod [symmetric] unat_eq_zero)
  show ?thesis
    using fits by (cases "n mod d = 0") (simp_all add: z ceil_div_def unat_word_ariths unat_div)
qed

lemma div_rounding_up_Ok [outcome_simps]:
  "div_rounding_up a b = Ok q \<longleftrightarrow> b \<noteq> 0 \<and> unat q = ceil_div (unat a) (unat b)"
  using unat_ceil_div [of b a]
  by (auto simp: div_rounding_up_def u_div_def u_rem_def word_unat_eq_iff)

lemma div_rounding_up_eq_Panic [outcome_simps]: "div_rounding_up a b = Panic \<longleftrightarrow> b = 0"
  by (auto simp: div_rounding_up_def u_div_def u_rem_def)

section \<open>Mid price\<close>

definition v3_mid_price_x96 :: "u256 \<Rightarrow> (u256, 'e) outcome" where
  \<comment> \<open>\<open>U256::from(p512)\<close> panics when the value does not fit\<close>
  "v3_mid_price_x96 sqrt_price_x96 =
     (if sqrt_price_x96 = 0 then Ok 0
      else
        let s512 = to_u512 sqrt_price_x96;
            p512 = drop_bit 96 (s512 * s512)
        in case checked_narrow p512 of None \<Rightarrow> Panic | Some p \<Rightarrow> Ok p)"

lemma square_fits_u512: "unat (to_u512 a * to_u512 b) = unat a * unat b"
proof -
  have "unat a * unat b < 2 ^ 256 * 2 ^ 256"
    using unat_bound [of a] unat_bound [of b] by (intro mult_strict_mono) auto
  then show ?thesis by (simp add: unat_word_ariths power_add [symmetric])
qed

end
