(* ===== verification/Tick_Math.thy ===== *)
theory Tick_Math
  imports V3_Common
begin

text \<open>
  \<open>uniswap_v3_math/tick_math.rs\<close>: the square-root price of a tick and the tick of a
  square-root price. The price routine multiplies fixed-point constants chosen by the bits of
  the tick; the theory turns it into a recursion over the list of constants and proves that the
  prices increase strictly with the tick over the whole range, with the stated end points.
\<close>

section \<open>The routines\<close>

unbundle bit_operations_syntax

definition from_limbs :: "nat \<Rightarrow> nat \<Rightarrow> nat \<Rightarrow> nat \<Rightarrow> u256" where
  "from_limbs a b c d = word_of_nat (a + b * 2 ^ 64 + c * 2 ^ 128 + d * 2 ^ 192)"

definition MIN_TICK :: i32 where
  "MIN_TICK = - 887272"

definition MAX_TICK :: i32 where
  "MAX_TICK = - MIN_TICK"

definition MIN_SQRT_RATIO :: u256 where
  "MIN_SQRT_RATIO = from_limbs 4295128739 0 0 0"

definition MAX_SQRT_RATIO :: u256 where
  "MAX_SQRT_RATIO = from_limbs 6743328256752651558 17280870778742802505 4294805859 0"

definition SQRT_10001 :: i256 where
  "SQRT_10001 = from_limbs 11745905768312294533 13863 0 0"

definition TICK_LOW :: i256 where
  "TICK_LOW = from_limbs 6552757943157144234 184476617836266586 0 0"

definition TICK_HIGH :: i256 where
  "TICK_HIGH = from_limbs 4998474450511881007 15793544031827761793 0 0"

definition ratio_step :: "u256 \<Rightarrow> u256 \<Rightarrow> u256 \<Rightarrow> u256 \<Rightarrow> u256" where
  \<comment> \<open>one \<open>if !(abs_tick & mask).is_zero() { ratio = (ratio * constant) >> 128 }\<close>\<close>
  "ratio_step abs_tick m c ratio =
     (if abs_tick AND m \<noteq> 0 then drop_bit 128 (ratio * c) else ratio)"

definition u256_from_i32 :: "i32 \<Rightarrow> (u256, 'e) outcome" where
  \<comment> \<open>\<open>U256::from\<close> panics on a negative value\<close>
  "u256_from_i32 x = (if x < 0 then Panic else Ok (word_of_int x))"

definition get_sqrt_ratio_at_tick :: "i32 \<Rightarrow> u256 v3_result" where
  "get_sqrt_ratio_at_tick tick =
     obind (if tick < 0 then u256_from_i32 (wrap_i32 (- tick)) else u256_from_i32 tick) (\<lambda>abs_tick.
     if from_limbs 887272 0 0 0 < abs_tick then Err TickTooLarge
     else
       let ratio = (if abs_tick AND 1 \<noteq> 0 then from_limbs 12262481743371124737 18445821805675392311 0 0
                    else from_limbs 0 0 1 0);
         ratio = ratio_step abs_tick 2 (from_limbs 6459403834229662010 18444899583751176498 0 0) ratio;
         ratio = ratio_step abs_tick 4 (from_limbs 17226890335427755468 18443055278223354162 0 0) ratio;
         ratio = ratio_step abs_tick 8 (from_limbs 2032852871939366096 18439367220385604838 0 0) ratio;
         ratio = ratio_step abs_tick 16 (from_limbs 14545316742740207172 18431993317065449817 0 0) ratio;
         ratio = ratio_step abs_tick 32 (from_limbs 5129152022828963008 18417254355718160513 0 0) ratio;
         ratio = ratio_step abs_tick 64 (from_limbs 4894419605888772193 18387811781193591352 0 0) ratio;
         ratio = ratio_step abs_tick 128 (from_limbs 1280255884321894483 18329067761203520168 0 0) ratio;
         ratio = ratio_step abs_tick 256 (from_limbs 15924666964335305636 18212142134806087854 0 0) ratio;
         ratio = ratio_step abs_tick 512 (from_limbs 8010504389359918676 17980523815641551639 0 0) ratio;
         ratio = ratio_step abs_tick 1024 (from_limbs 10668036004952895731 17526086738831147013 0 0) ratio;
         ratio = ratio_step abs_tick 2048 (from_limbs 4878133418470705625 16651378430235024244 0 0) ratio;
         ratio = ratio_step abs_tick 4096 (from_limbs 9537173718739605541 15030750278693429944 0 0) ratio;
         ratio = ratio_step abs_tick 8192 (from_limbs 9972618978014552549 12247334978882834399 0 0) ratio;
         ratio = ratio_step abs_tick 16384 (from_limbs 10428997489610666743 8131365268884726200 0 0) ratio;
         ratio = ratio_step abs_tick 32768 (from_limbs 9305304367709015974 3584323654723342297 0 0) ratio;
         ratio = ratio_step abs_tick 65536 (from_limbs 14301143598189091785 696457651847595233 0 0) ratio;
         ratio = ratio_step abs_tick 131072 (from_limbs 7393154844743099908 26294789957452057 0 0) ratio;
         ratio = ratio_step abs_tick 262144 (from_limbs 2209338891292245656 37481735321082 0 0) ratio;
         ratio = ratio_step abs_tick 524288 (from_limbs 10518117631919034274 76158723 0 0) ratio
       in
       obind (if 0 < tick then u_div u_max ratio else Ok ratio) (\<lambda>ratio.
         Ok (drop_bit 32 ratio + (if ratio mod push_bit 32 1 = 0 then 0 else 1))))"

definition msb_step :: "nat \<Rightarrow> u256 \<Rightarrow> u256 \<times> u256 \<Rightarrow> u256 \<times> u256" where
  \<comment> \<open>\<open>f = if r > bound { 1 << k } else { 0 }; msb |= f; r >>= f\<close>, on \<open>(msb, r)\<close>\<close>
  "msb_step k bound = (\<lambda>(msb, r).
     let f = (if bound < r then push_bit k 1 else 0)
     in (msb OR f, drop_bit (unat f) r))"

definition log_step :: "nat \<Rightarrow> u256 \<times> i256 \<Rightarrow> u256 \<times> i256" where
  \<comment> \<open>one iteration of the loop over \<open>i\<close>, on \<open>(r, log_2)\<close>\<close>
  "log_step i = (\<lambda>(r, log_2).
     let r = drop_bit 127 (r * r);
         f = drop_bit 128 r
     in (drop_bit (unat f) r, log_2 OR push_bit i f))"

definition low_i32 :: "i256 \<Rightarrow> i32" where
  "low_i32 w = wrap_i32 (uint w)"

definition get_tick_at_sqrt_ratio :: "u256 \<Rightarrow> i32 v3_result" where
  "get_tick_at_sqrt_ratio sqrt_price_x_96 =
     (if \<not> (MIN_SQRT_RATIO \<le> sqrt_price_x_96 \<and> sqrt_price_x_96 < MAX_SQRT_RATIO)
      then Err RatioOutOfRange
      else
        let ratio = push_bit 32 sqrt_price_x_96;
            (msb, r) = msb_step 7 (from_limbs 18446744073709551615 18446744073709551615 0 0) (0, ratio);
            (msb, r) = msb_step 6 (from_limbs 18446744073709551615 0 0 0) (msb, r);
            (msb, r) = msb_step 5 (from_limbs 4294967295 0 0 0) (msb, r);
            (msb, r) = msb_step 4 (from_limbs 65535 0 0 0) (msb, r);
            (msb, r) = msb_step 3 255 (msb, r);
            (msb, r) = msb_step 2 15 (msb, r);
            (msb, r) = msb_step 1 3 (msb, r);
            f = (if 1 < r then 1 else 0);
            msb = msb OR f;
            r = (if 128 \<le> msb then drop_bit (unat (msb - 127)) ratio
                 else push_bit (unat (127 - msb)) ratio);
            log_2 = push_bit 64 (msb - 128);
            (r, log_2) = fold log_step (rev [51..<64]) (r, log_2);
            r = drop_bit 127 (r * r);
            f = drop_bit 128 r;
            log_2 = log_2 OR push_bit 50 f;
            log_sqrt10001 = log_2 * SQRT_10001;
            tick_low = low_i32 (signed_drop_bit 128 (log_sqrt10001 - TICK_LOW));
            tick_high = low_i32 (signed_drop_bit 128 (log_sqrt10001 + TICK_HIGH))
        in
        if tick_low = tick_high then Ok tick_low
        else obind (get_sqrt_ratio_at_tick tick_high) (\<lambda>high.
          Ok (if high \<le> sqrt_price_x_96 then tick_high else tick_low)))"

section \<open>The product as a recursion over the bits\<close>

definition ratio_constants :: "nat list" where
  "ratio_constants = [
    340265354078544963557816517032075149313,
    340248342086729790484326174814286782778,
    340214320654664324051920982716015181260,
    340146287995602323631171512101879684304,
    340010263488231146823593991679159461444,
    339738377640345403697157401104375502016,
    339195258003219555707034227454543997025,
    338111622100601834656805679988414885971,
    335954724994790223023589805789778977700,
    331682121138379247127172139078559817300,
    323299236684853023288211250268160618739,
    307163716377032989948697243942600083929,
    277268403626896220162999269216087595045,
    225923453940442621947126027127485391333,
    149997214084966997727330242082538205943,
    66119101136024775622716233608466517926,
    12847376061809297530290974190478138313,
    485053260817066172746253684029974020,
    691415978906521570653435304214168,
    1404880482679654955896180642]"

fun bit_product :: "nat list \<Rightarrow> nat \<Rightarrow> nat \<Rightarrow> nat" where
  "bit_product [] n r = r"
| "bit_product (c # cs) n r = bit_product cs (n div 2) (if odd n then r * c div 2 ^ 128 else r)"

definition tick_ratio :: "nat \<Rightarrow> nat" where
  \<comment> \<open>the Q128.128 ratio of a tick magnitude\<close>
  "tick_ratio n = bit_product ratio_constants n (2 ^ 128)"

definition gap :: "nat \<Rightarrow> nat \<Rightarrow> nat \<Rightarrow> bool" where
  \<comment> \<open>\<open>y\<close> is below \<open>x\<close> by a relative \<open>2^-15\<close>, up to \<open>j\<close> truncations\<close>
  "gap j x y \<longleftrightarrow> y \<le> x \<and> (2 ^ 15 + 1) * y \<le> 2 ^ 15 * (x + j)"

lemma gap_mono: "gap j x y \<Longrightarrow> j \<le> k \<Longrightarrow> gap k x y"
  by (auto simp: gap_def power_numeral)

lemma gap_scale:
  fixes M :: nat
  assumes "gap j x y" "c \<le> M" "0 < M"
  shows "gap (Suc j) (x * c div M) (y * c div M)"
proof -
  have "(2 ^ 15 + 1) * (y * c div M) * M \<le> (2 ^ 15 + 1) * y * c"
    unfolding mult.assoc by (intro mult_le_mono2 div_times_less_eq_dividend)
  also have "\<dots> \<le> 2 ^ 15 * (x + j) * c"
    using assms(1) by (intro mult_le_mono1) (simp add: gap_def)
  also have "\<dots> = 2 ^ 15 * (x * c + j * c)" by (simp add: algebra_simps)
  also have "\<dots> \<le> 2 ^ 15 * ((x * c div M + 1) * M + j * M)"
  proof -
    have "x * c < (x * c div M + 1) * M" using assms(3) dividend_less_div_times [of M "x * c"] by simp
    moreover have "j * c \<le> j * M" using assms(2) by simp
    ultimately show ?thesis by (intro mult_le_mono2) linarith
  qed
  also have "\<dots> = 2 ^ 15 * (x * c div M + Suc j) * M" by (simp add: algebra_simps)
  finally have "(2 ^ 15 + 1) * (y * c div M) \<le> 2 ^ 15 * (x * c div M + Suc j)"
    using assms(3) by (simp only: mult_le_cancel2)
  moreover have "y * c div M \<le> x * c div M"
    using assms(1) by (intro div_le_mono mult_le_mono1) (simp add: gap_def)
  ultimately show ?thesis by (simp add: gap_def)
qed

lemma gap_product:
  "gap j x y \<Longrightarrow> list_all (\<lambda>c. c \<le> 2 ^ 128) cs \<Longrightarrow>
    gap (j + length cs) (bit_product cs n x) (bit_product cs n y)"
proof (induction cs arbitrary: j n x y)
  case (Cons c cs)
  have "gap (Suc j) (if odd n then x * c div 2 ^ 128 else x) (if odd n then y * c div 2 ^ 128 else y)"
    using Cons.prems gap_scale [of j x y c "2 ^ 128"] gap_mono [of j x y "Suc j"] by simp
  from Cons.IH [OF this] Cons.prems show ?case by simp
qed simp

text \<open>
  From \<open>n\<close> to \<open>n + 1\<close> the carry clears a run of ones and sets the next bit: the product of the
  constants of the run is traded for the next constant.
\<close>

fun carry_gap :: "nat \<Rightarrow> nat list \<Rightarrow> bool" where
  "carry_gap x [] \<longleftrightarrow> True"
| "carry_gap x (c # cs) \<longleftrightarrow> c \<le> 2 ^ 128 \<and> gap 0 x c \<and> carry_gap (x * c div 2 ^ 128) cs"

lemma carry_gap_bounded: "carry_gap x cs \<Longrightarrow> list_all (\<lambda>c. c \<le> 2 ^ 128) cs"
  by (induction cs arbitrary: x) auto

lemma successor_gap:
  "carry_gap x cs \<Longrightarrow> n + 1 < 2 ^ length cs \<Longrightarrow>
    gap (length cs) (bit_product cs n x) (bit_product cs (n + 1) (2 ^ 128))"
proof (induction cs arbitrary: n x)
  case (Cons c cs)
  note b = carry_gap_bounded [of "x * c div 2 ^ 128" cs]
  show ?case
  proof (cases "even n")
    case True
    then have "(n + 1) div 2 = n div 2" by simp
    moreover have "gap (length cs) (bit_product cs (n div 2) x) (bit_product cs (n div 2) c)"
      using gap_product [of 0 x c cs "n div 2"] Cons.prems b by simp
    ultimately show ?thesis using True by (auto intro: gap_mono)
  next
    case False
    then have "(n + 1) div 2 = n div 2 + 1" by simp
    moreover from this have "n div 2 + 1 < 2 ^ length cs" using Cons.prems(2) by simp
    ultimately show ?thesis
      using Cons.IH [of "x * c div 2 ^ 128" "n div 2"] Cons.prems False by (auto intro: gap_mono)
  qed
qed simp

lemma ratio_constants_length: "length ratio_constants = 20"
  by (simp add: ratio_constants_def)

lemma ratio_constants_carry: "carry_gap (2 ^ 128) ratio_constants"
  by (simp add: ratio_constants_def gap_def power_numeral)

lemma tick_ratio_gap: "n + 1 < 2 ^ 20 \<Longrightarrow> gap 20 (tick_ratio n) (tick_ratio (n + 1))"
  using successor_gap [OF ratio_constants_carry, of n]
  unfolding tick_ratio_def ratio_constants_length by blast

lemma tick_ratio_values: "tick_ratio 0 = 2 ^ 128" "tick_ratio 887272 = 18447437462383981825"
  by (simp_all add: tick_ratio_def ratio_constants_def power_numeral)

section \<open>The routine computes the product\<close>

lemma ratio_step_nat:
  fixes a :: u256
  assumes "unat r \<le> 2 ^ 128" "c < 2 ^ 128" "k < 256"
  shows "unat (ratio_step a (2 ^ k) (word_of_nat c) r)
    = (if odd (unat a div 2 ^ k) then unat r * c div 2 ^ 128 else unat r)"
proof -
  have p: "(2 :: nat) ^ 128 < 2 ^ 256" "(2 :: nat) ^ 128 * 2 ^ 128 = 2 ^ 256" by (simp_all add: power_numeral)
  have c: "unat (word_of_nat c :: u256) = c" using order_less_trans [OF assms(2) p(1)] by (intro unat_word_of_nat) simp
  have "unat r * c \<le> 2 ^ 128 * c" using assms(1) by simp
  also have "\<dots> < 2 ^ 128 * 2 ^ 128" using assms(2) by (intro mult_strict_left_mono) simp_all
  finally have "unat r * c < 2 ^ 256" by (simp only: p)
  then have prod: "unat (r * word_of_nat c) = unat r * c" by (simp add: unat_word_ariths c)
  have "a AND 2 ^ k \<noteq> 0 \<longleftrightarrow> bit a k" by (simp add: and_exp_eq_0_iff_not_bit)
  also have "\<dots> \<longleftrightarrow> odd (unat a div 2 ^ k)"
    unfolding bit_unat [symmetric] by (rule bit_iff_odd)
  finally have b: "a AND 2 ^ k \<noteq> 0 \<longleftrightarrow> odd (unat a div 2 ^ k)" .
  have "unat (drop_bit 128 (r * word_of_nat c)) = unat r * c div 2 ^ 128"
    by (simp only: unat_drop_bit_eq prod) (simp add: drop_bit_eq_div)
  then show ?thesis unfolding ratio_step_def b by presburger
qed

fun ratio_fold :: "u256 \<Rightarrow> nat \<Rightarrow> nat list \<Rightarrow> u256 \<Rightarrow> u256" where
  "ratio_fold a k [] r = r"
| "ratio_fold a k (c # cs) r = ratio_fold a (Suc k) cs (ratio_step a (2 ^ k) (word_of_nat c) r)"

lemma ratio_fold_nat:
  "unat r \<le> 2 ^ 128 \<Longrightarrow> list_all (\<lambda>c. c < 2 ^ 128) cs \<Longrightarrow> k + length cs \<le> 256 \<Longrightarrow>
    unat (ratio_fold a k cs r) = bit_product cs (unat a div 2 ^ k) (unat r)"
proof (induction cs arbitrary: k r)
  case (Cons c cs)
  let ?r = "ratio_step a (2 ^ k) (word_of_nat c) r"
  have r: "unat ?r = (if odd (unat a div 2 ^ k) then unat r * c div 2 ^ 128 else unat r)"
    using Cons.prems by (intro ratio_step_nat) simp_all
  have "unat r * c div 2 ^ 128 \<le> unat r"
    using Cons.prems(2) by (intro scaled_le) simp
  then have "unat ?r \<le> 2 ^ 128" using r Cons.prems(1) by (auto split: if_splits)
  then show ?case
    using Cons.IH [of ?r "Suc k"] Cons.prems(2,3) r
    by (simp add: div_mult2_eq power_Suc2 del: power_Suc)
qed simp

lemma ratio_constants_less: "list_all (\<lambda>c. c < 2 ^ 128) ratio_constants"
  by (simp add: ratio_constants_def power_numeral)

definition tick_product :: "u256 \<Rightarrow> u256" where
  "tick_product abs_tick = ratio_fold abs_tick 0 ratio_constants (2 ^ 128)"

lemma unat_tick_product: "unat (tick_product a) = tick_ratio (unat a)"
proof -
  have "unat (2 ^ 128 :: u256) = 2 ^ 128" by (simp add: power_numeral)
  then show ?thesis
    using ratio_fold_nat [OF _ ratio_constants_less, of "2 ^ 128" 0 a]
    by (simp add: tick_product_def tick_ratio_def ratio_constants_length)
qed

lemma first_factor:
  "(if a AND 1 \<noteq> 0 then from_limbs 12262481743371124737 18445821805675392311 0 0
    else from_limbs 0 0 1 0) = ratio_step a (2 ^ 0) (word_of_nat 340265354078544963557816517032075149313) (2 ^ 128)"
  by (simp add: ratio_step_def from_limbs_def power_numeral)

lemma tick_product_chain:
  "tick_product abs_tick =
     (let ratio = (if abs_tick AND 1 \<noteq> 0 then from_limbs 12262481743371124737 18445821805675392311 0 0
                    else from_limbs 0 0 1 0);
         ratio = ratio_step abs_tick 2 (from_limbs 6459403834229662010 18444899583751176498 0 0) ratio;
         ratio = ratio_step abs_tick 4 (from_limbs 17226890335427755468 18443055278223354162 0 0) ratio;
         ratio = ratio_step abs_tick 8 (from_limbs 2032852871939366096 18439367220385604838 0 0) ratio;
         ratio = ratio_step abs_tick 16 (from_limbs 14545316742740207172 18431993317065449817 0 0) ratio;
         ratio = ratio_step abs_tick 32 (from_limbs 5129152022828963008 18417254355718160513 0 0) ratio;
         ratio = ratio_step abs_tick 64 (from_limbs 4894419605888772193 18387811781193591352 0 0) ratio;
         ratio = ratio_step abs_tick 128 (from_limbs 1280255884321894483 18329067761203520168 0 0) ratio;
         ratio = ratio_step abs_tick 256 (from_limbs 15924666964335305636 18212142134806087854 0 0) ratio;
         ratio = ratio_step abs_tick 512 (from_limbs 8010504389359918676 17980523815641551639 0 0) ratio;
         ratio = ratio_step abs_tick 1024 (from_limbs 10668036004952895731 17526086738831147013 0 0) ratio;
         ratio = ratio_step abs_tick 2048 (from_limbs 4878133418470705625 16651378430235024244 0 0) ratio;
         ratio = ratio_step abs_tick 4096 (from_limbs 9537173718739605541 15030750278693429944 0 0) ratio;
         ratio = ratio_step abs_tick 8192 (from_limbs 9972618978014552549 12247334978882834399 0 0) ratio;
         ratio = ratio_step abs_tick 16384 (from_limbs 10428997489610666743 8131365268884726200 0 0) ratio;
         ratio = ratio_step abs_tick 32768 (from_limbs 9305304367709015974 3584323654723342297 0 0) ratio;
         ratio = ratio_step abs_tick 65536 (from_limbs 14301143598189091785 696457651847595233 0 0) ratio;
         ratio = ratio_step abs_tick 131072 (from_limbs 7393154844743099908 26294789957452057 0 0) ratio;
         ratio = ratio_step abs_tick 262144 (from_limbs 2209338891292245656 37481735321082 0 0) ratio;
         ratio = ratio_step abs_tick 524288 (from_limbs 10518117631919034274 76158723 0 0) ratio
       in ratio)"
  unfolding first_factor Let_def tick_product_def ratio_constants_def
  by (simp add: from_limbs_def power_numeral)

definition scale_down_32 :: "u256 \<Rightarrow> u256" where
  "scale_down_32 ratio = drop_bit 32 ratio + (if ratio mod push_bit 32 1 = 0 then 0 else 1)"

lemma get_sqrt_ratio_at_tick_eq:
  "get_sqrt_ratio_at_tick tick =
     obind (if tick < 0 then u256_from_i32 (wrap_i32 (- tick)) else u256_from_i32 tick) (\<lambda>abs_tick.
     if 887272 < abs_tick then Err TickTooLarge
     else obind (if 0 < tick then u_div u_max (tick_product abs_tick) else Ok (tick_product abs_tick))
       (\<lambda>ratio. Ok (scale_down_32 ratio)))"
proof -
  have lim: "from_limbs 887272 0 0 0 = 887272" by (simp add: from_limbs_def)
  show ?thesis
    unfolding get_sqrt_ratio_at_tick_def lim tick_product_chain Let_def scale_down_32_def by (rule refl)
qed

section \<open>Prices as numbers\<close>

definition sqrt_ratio_nat :: "int \<Rightarrow> nat" where
  "sqrt_ratio_nat t =
     ceil_div (if 0 < t then (2 ^ 256 - 1) div tick_ratio (nat t) else tick_ratio (nat (- t))) (2 ^ 32)"

lemma unat_scale_down_32: "unat (scale_down_32 r) = ceil_div (unat r) (2 ^ 32)"
proof -
  have p32: "unat (push_bit 32 1 :: u256) = 2 ^ 32" by (simp add: power_numeral)
  have m: "r mod push_bit 32 1 = 0 \<longleftrightarrow> unat r mod 2 ^ 32 = 0"
    unfolding unat_eq_zero [symmetric] unat_mod p32 ..
  have d: "unat (drop_bit 32 r) = unat r div 2 ^ 32"
    by (simp only: unat_drop_bit_eq) (simp add: drop_bit_eq_div)
  have "unat r div 2 ^ 32 < 2 ^ 224"
    using unat_bound_256 [of r] by (simp add: div_less_iff_less_mult power_numeral)
  then have "unat (drop_bit 32 r) + 1 < 2 ^ 256" unfolding d by (simp add: power_numeral)
  then show ?thesis
    using d by (simp only: scale_down_32_def m ceil_div_def)
      (simp add: unat_word_ariths(1) del: push_bit_eq_mult)
qed

lemma tick_ratio_antimono: "m \<le> n \<Longrightarrow> n < 2 ^ 20 \<Longrightarrow> tick_ratio n \<le> tick_ratio m"
proof (induction n rule: dec_induct)
  case (step n)
  then show ?case using tick_ratio_gap [of n] by (simp add: gap_def)
qed simp

lemma tick_ratio_bounds:
  assumes "n \<le> 887272"
  shows "18447437462383981825 \<le> tick_ratio n" "tick_ratio n \<le> 2 ^ 128"
  using tick_ratio_antimono [OF assms] tick_ratio_antimono [of 0 n] assms
  by (simp_all add: tick_ratio_values power_numeral)

lemma get_sqrt_ratio_at_tick_Ok:
  assumes "MIN_TICK \<le> t" "t \<le> MAX_TICK"
  shows "\<exists>q. get_sqrt_ratio_at_tick t = Ok q \<and> unat q = sqrt_ratio_nat t"
proof -
  have t: "- 887272 \<le> t" "t \<le> 887272" using assms by (simp_all add: MIN_TICK_def MAX_TICK_def)
  define a :: u256 where "a = word_of_int \<bar>t\<bar>"
  have "is_i32 (- t)" using t by (simp add: is_i32_def power_numeral)
  then have abs: "(if t < 0 then u256_from_i32 (wrap_i32 (- t)) else u256_from_i32 t) = Ok a"
    by (simp add: u256_from_i32_def a_def)
  have "unat a = nat \<bar>t\<bar>"
    using t by (simp add: a_def unat_eq_nat_uint uint_word_of_int power_numeral)
  then have ua: "unat a = nat \<bar>t\<bar>" "unat a \<le> 887272" using t by simp_all
  have lim: "\<not> 887272 < a" using ua(2) by (simp add: word_less_nat_alt)
  have pos: "0 < unat (tick_product a)"
    using tick_ratio_bounds(1) [OF ua(2)] by (simp add: unat_tick_product)
  then have nz: "tick_product a \<noteq> 0" by (rule unat_gt_0 [THEN iffD1])
  have run: "get_sqrt_ratio_at_tick t = Ok (scale_down_32 (if 0 < t then u_max div tick_product a else tick_product a))"
    using nz lim by (simp add: get_sqrt_ratio_at_tick_eq abs u_div_def)
  have "unat (if 0 < t then u_max div tick_product a else tick_product a)
    = (if 0 < t then (2 ^ 256 - 1) div tick_ratio (nat t) else tick_ratio (nat (- t)))"
    using ua(1) by (simp add: unat_div unat_tick_product unat_u_max)
  then show ?thesis using run by (simp add: unat_scale_down_32 sqrt_ratio_nat_def)
qed

section \<open>Strictly increasing prices\<close>

lemma ceil_div_strict: "0 < d \<Longrightarrow> x + d \<le> y \<Longrightarrow> ceil_div x d < ceil_div y d"
proof -
  assume d: "0 < d" and "x + d \<le> y"
  then have "x + d \<le> ceil_div y d * d" using ceil_div_upper [OF d, of y] by linarith
  then have "x \<le> (ceil_div y d - 1) * d" by (simp add: diff_mult_distrib)
  then have "ceil_div x d \<le> ceil_div y d - 1" using d by (simp add: ceil_div_le)
  moreover have "ceil_div y d \<noteq> 0" using \<open>x + d \<le> ceil_div y d * d\<close> d by (cases "ceil_div y d") simp_all
  ultimately show ?thesis by linarith
qed

lemma tick_ratio_drop:
  assumes "n < 887272"
  shows "tick_ratio (n + 1) + 2 ^ 32 \<le> tick_ratio n"
    and "tick_ratio (n + 1) \<le> 2 ^ 16 * (tick_ratio n - tick_ratio (n + 1))"
proof -
  have g: "gap 20 (tick_ratio n) (tick_ratio (n + 1))"
    using assms by (intro tick_ratio_gap) (simp add: power_numeral)
  have low: "18447437462383981825 \<le> tick_ratio (n + 1)" using assms by (intro tick_ratio_bounds) simp
  then show "tick_ratio (n + 1) + 2 ^ 32 \<le> tick_ratio n"
    using g by (simp add: gap_def power_numeral)
  have "2 ^ 16 * tick_ratio (n + 1) + tick_ratio (n + 1) \<le> 2 ^ 16 * tick_ratio n"
    using low g by (simp add: gap_def power_numeral)
  then show "tick_ratio (n + 1) \<le> 2 ^ 16 * (tick_ratio n - tick_ratio (n + 1))"
    unfolding diff_mult_distrib2 by linarith
qed

lemma reciprocal_gap:
  fixes M x y :: nat
  assumes "y < x" "y \<le> 2 ^ 16 * (x - y)" "2 ^ 48 \<le> M div x" "0 < y"
  shows "M div x + 2 ^ 32 \<le> M div y"
proof -
  have "2 ^ 32 * y \<le> 2 ^ 32 * (2 ^ 16 * (x - y))" using assms(2) by (rule mult_le_mono2)
  also have "\<dots> = 2 ^ 48 * (x - y)" by (simp add: power_numeral)
  also have "\<dots> \<le> M div x * (x - y)" using assms(3) by (rule mult_le_mono1)
  finally have "(M div x + 2 ^ 32) * y \<le> M div x * (x - y) + M div x * y" by (simp add: add_mult_distrib)
  also have "\<dots> = M div x * x" using assms(1) by (simp add: diff_mult_distrib2)
  also have "\<dots> \<le> M" by simp
  finally show ?thesis using assms(4) by (simp add: less_eq_div_iff_mult_less_eq)
qed

lemma sqrt_ratio_nat_step:
  assumes "MIN_TICK \<le> t" "t < MAX_TICK"
  shows "sqrt_ratio_nat t < sqrt_ratio_nat (t + 1)"
proof -
  have t: "- 887272 \<le> t" "t < 887272" using assms by (simp_all add: MIN_TICK_def MAX_TICK_def)
  consider "t < 0" | "t = 0" | "0 < t" by linarith
  then show ?thesis
  proof cases
    case 1
    have e: "nat (- t) = nat (- (t + 1)) + 1" using 1 by simp
    have "tick_ratio (nat (- t)) + 2 ^ 32 \<le> tick_ratio (nat (- (t + 1)))"
      unfolding e using 1 t by (intro tick_ratio_drop) simp
    then show ?thesis using 1 by (simp add: sqrt_ratio_nat_def ceil_div_strict)
  next
    case 2
    then show ?thesis
      by (simp add: sqrt_ratio_nat_def tick_ratio_def ratio_constants_def ceil_div_def power_numeral)
  next
    case 3
    have e: "nat (t + 1) = nat t + 1" using 3 by simp
    let ?x = "tick_ratio (nat t)" and ?y = "tick_ratio (nat t + 1)"
    have b: "nat t < 887272" "nat t \<le> 887272" "nat t + 1 \<le> 887272" using 3 t by simp_all
    have "?x \<le> 2 ^ 128" "0 < ?x" "0 < ?y"
      using tick_ratio_bounds [OF b(2)] tick_ratio_bounds [OF b(3)] by simp_all
    have "2 ^ 48 * ?x \<le> 2 ^ 48 * 2 ^ 128" using \<open>?x \<le> 2 ^ 128\<close> by (rule mult_le_mono2)
    also have "\<dots> \<le> (2 ^ 256 - 1 :: nat)" by (simp add: power_numeral)
    finally have "2 ^ 48 \<le> (2 ^ 256 - 1) div ?x"
      using \<open>0 < ?x\<close> by (simp add: less_eq_div_iff_mult_less_eq)
    moreover have "?y < ?x" "?y \<le> 2 ^ 16 * (?x - ?y)" using tick_ratio_drop [OF b(1)] by (simp_all add: power_numeral)
    ultimately have "(2 ^ 256 - 1) div ?x + 2 ^ 32 \<le> (2 ^ 256 - 1) div ?y"
      using \<open>0 < ?y\<close> by (intro reciprocal_gap)
    then show ?thesis using 3 e by (simp add: sqrt_ratio_nat_def ceil_div_strict)
  qed
qed

lemma sqrt_ratio_nat_strict_mono:
  assumes "MIN_TICK \<le> s" "s < t" "t \<le> MAX_TICK"
  shows "sqrt_ratio_nat s < sqrt_ratio_nat t"
  using assms(2,3)
proof (induction t rule: int_gr_induct)
  case base
  then show ?case using assms(1) by (intro sqrt_ratio_nat_step) simp_all
next
  case (step i)
  then show ?case using sqrt_ratio_nat_step [of i] assms(1) by simp
qed

lemma sqrt_ratio_nat_mono:
  "MIN_TICK \<le> s \<Longrightarrow> s \<le> t \<Longrightarrow> t \<le> MAX_TICK \<Longrightarrow> sqrt_ratio_nat s \<le> sqrt_ratio_nat t"
  using sqrt_ratio_nat_strict_mono [of s t] by (cases "s = t") auto

lemma sqrt_ratio_ends:
  "sqrt_ratio_nat MIN_TICK = 4295128739"
  "sqrt_ratio_nat MAX_TICK = 1461446703485210103287273052203988822378723970342"
  by (simp_all add: sqrt_ratio_nat_def MIN_TICK_def MAX_TICK_def tick_ratio_values(2) ceil_div_def power_numeral)

lemma unat_sqrt_ratio_consts:
  "unat MIN_SQRT_RATIO = 4295128739"
  "unat MAX_SQRT_RATIO = 1461446703485210103287273052203988822378723970342"
  by (simp_all add: MIN_SQRT_RATIO_def MAX_SQRT_RATIO_def from_limbs_def power_numeral)

text \<open>
  C23. Over the whole tick range the price of a tick is defined and strictly increasing; the
  price of the smallest tick is \<open>MIN_SQRT_RATIO\<close> and that of the largest \<open>MAX_SQRT_RATIO\<close>.
\<close>

theorem sqrt_ratio_strictly_increasing:
  assumes "MIN_TICK \<le> s" "s < t" "t \<le> MAX_TICK"
  shows "\<exists>p q. get_sqrt_ratio_at_tick s = Ok p \<and> get_sqrt_ratio_at_tick t = Ok q \<and> p < q
    \<and> MIN_SQRT_RATIO \<le> p \<and> q \<le> MAX_SQRT_RATIO
    \<and> (s = MIN_TICK \<longrightarrow> p = MIN_SQRT_RATIO) \<and> (t = MAX_TICK \<longrightarrow> q = MAX_SQRT_RATIO)"
proof -
  obtain p q where pq: "get_sqrt_ratio_at_tick s = Ok p" "unat p = sqrt_ratio_nat s"
    "get_sqrt_ratio_at_tick t = Ok q" "unat q = sqrt_ratio_nat t"
    using get_sqrt_ratio_at_tick_Ok [of s] get_sqrt_ratio_at_tick_Ok [of t] assms by auto
  have "p < q" using pq sqrt_ratio_nat_strict_mono [OF assms] by (simp add: word_less_nat_alt)
  moreover have "sqrt_ratio_nat MIN_TICK \<le> unat p" "unat q \<le> sqrt_ratio_nat MAX_TICK"
    using pq sqrt_ratio_nat_mono [of MIN_TICK s] sqrt_ratio_nat_mono [of t MAX_TICK] assms by simp_all
  moreover have "s = MIN_TICK \<Longrightarrow> p = MIN_SQRT_RATIO" "t = MAX_TICK \<Longrightarrow> q = MAX_SQRT_RATIO"
    using pq(2,4) by (simp_all add: word_unat_eq_iff unat_sqrt_ratio_consts sqrt_ratio_ends)
  ultimately show ?thesis
    using pq(1,3) by (auto simp: word_le_nat_alt unat_sqrt_ratio_consts sqrt_ratio_ends)
qed

theorem sqrt_ratio_strictly_increasing_witness:
  "\<exists>p q. get_sqrt_ratio_at_tick MIN_TICK = Ok p \<and> get_sqrt_ratio_at_tick MAX_TICK = Ok q \<and> p < q
    \<and> p = MIN_SQRT_RATIO \<and> q = MAX_SQRT_RATIO"
  using sqrt_ratio_strictly_increasing [of MIN_TICK MAX_TICK] by (simp add: MIN_TICK_def MAX_TICK_def)

end
