(* ===== verification/Tick_Math_Internal.thy ===== *)
theory Tick_Math_Internal
  imports Tick_Math
begin

text \<open>
  \<open>src/rust/src/tick_math.rs\<close>: the second implementation of the tick routines, written with
  lookup tables and loops, which the Python bindings call. The theory proves that it agrees with
  the one of \<open>uniswap_v3_math/tick_math.rs\<close>. \<open>U160\<close> is a 160-bit word and \<open>I24\<close> an integer in
  the 24-bit range; \<open>to\<close> panics when the value does not fit.
\<close>

section \<open>The routines\<close>

unbundle bit_operations_syntax

type_synonym u160 = "160 word"

datatype TickMathError = InvalidTick i32 | SqrtRatioOutOfBounds

definition SqrtRatio_MIN :: u160 where
  "SqrtRatio_MIN = 4295128739"

definition SqrtRatio_MAX :: u160 where
  "SqrtRatio_MAX = 1461446703485210103287273052203988822378723970342"

definition TICK_MASKS :: "(u256 \<times> u256) list" where
  "TICK_MASKS = [
      (0x2, 0xfff97272373d413259a46990580e213a),
      (0x4, 0xfff2e50f5f656932ef12357cf3c7fdcc),
      (0x8, 0xffe5caca7e10e4e61c3624eaa0941cd0),
      (0x10, 0xffcb9843d60f6159c9db58835c926644),
      (0x20, 0xff973b41fa98c081472e6896dfb254c0),
      (0x40, 0xff2ea16466c96a3843ec78b326b52861),
      (0x80, 0xfe5dee046a99a2a811c461f1969c3053),
      (0x100, 0xfcbe86c7900a88aedcffc83b479aa3a4),
      (0x200, 0xf987a7253ac413176f2b074cf7815e54),
      (0x400, 0xf3392b0822b70005940c7a398e4b70f3),
      (0x800, 0xe7159475a2c29b7443b29c7fa6e889d9),
      (0x1000, 0xd097f3bdfd2022b8845ad8f792aa5825),
      (0x2000, 0xa9f746462d870fdf8a65dc1f90e061e5),
      (0x4000, 0x70d869a156d2a1b890bb3df62baf32f7),
      (0x8000, 0x31be135f97d08fd981231505542fcfa6),
      (0x10000, 0x9aa508b5b7a84e1c677de54f3e99bc9),
      (0x20000, 0x5d6af8dedb81196699c329225ee604),
      (0x40000, 0x2216e584f5fa1ea926041bedfe98),
      (0x80000, 0x48a170391f7dc42444e8fa2)]"

definition to_u160 :: "u256 \<Rightarrow> (u160, 'e) outcome" where
  "to_u160 v = (if unat v < 2 ^ 160 then Ok (ucast v) else Panic)"

definition get_sqrt_ratio_at_tick_internal :: "i32 \<Rightarrow> (u160, TickMathError) outcome" where
  "get_sqrt_ratio_at_tick_internal tick =
     (if \<not> (- 887272 \<le> tick \<and> tick \<le> 887272) then Err (InvalidTick tick)
      else
        let abs_tick = word_of_int \<bar>tick\<bar> :: u256;
            ratio = (if abs_tick AND 1 = 0 then 0x100000000000000000000000000000000
                     else 0xfffcb933bd6fad37aa2d162d1a594001);
            ratio = fold (\<lambda>(tick_mask, ratio_multiplier) ratio.
                if abs_tick AND tick_mask \<noteq> 0 then drop_bit 128 (ratio * ratio_multiplier) else ratio)
              TICK_MASKS ratio
        in
        obind (if 0 < tick then u_div u_max ratio else Ok ratio) (\<lambda>ratio.
          let sqrt_ratio = drop_bit 32 ratio;
              sqrt_ratio = (if ratio mod 0x100000000 \<noteq> 0 then sqrt_ratio + 1 else sqrt_ratio)
          in to_u160 sqrt_ratio))"

definition FACTOR_SHIFT_VALUES :: "(u128 \<times> nat) list" where
  "FACTOR_SHIFT_VALUES = [
      (0xFFFFFFFFFFFFFFFFFFFFFFFFFFFFFFFF, 7),
      (0xFFFFFFFFFFFFFFFF, 6),
      (0xFFFFFFFF, 5),
      (0xFFFF, 4),
      (0xFF, 3),
      (0xF, 2),
      (0x3, 1),
      (0x1, 0)]"

definition to_i24 :: "i256 \<Rightarrow> (int, 'e) outcome" where
  "to_i24 w = (if - (2 ^ 23) \<le> sint w \<and> sint w < 2 ^ 23 then Ok (sint w) else Panic)"

definition get_tick_at_sqrt_ratio_internal :: "u160 \<Rightarrow> (int, TickMathError) outcome" where
  "get_tick_at_sqrt_ratio_internal sqrt_price_x96 =
     (if \<not> (SqrtRatio_MIN \<le> sqrt_price_x96 \<and> sqrt_price_x96 < SqrtRatio_MAX)
      then Err SqrtRatioOutOfBounds
      else
        let ratio = push_bit 32 (ucast sqrt_price_x96) :: u256;
            (msb, r) = fold (\<lambda>(factor, shift_bits) (msb, r).
                let f = push_bit shift_bits (if ucast factor < r then 1 else 0)
                in (msb OR f, drop_bit (unat f) r)) FACTOR_SHIFT_VALUES (0, ratio);
            r = (if 128 \<le> unat msb then drop_bit (unat msb - 127) ratio
                 else push_bit (127 - unat msb) ratio);
            log_2 = push_bit 64 (word_of_nat (unat msb) - 128) :: i256;
            (r, log_2) = fold (\<lambda>shift_factor (r, log_2).
                let r = drop_bit 127 (r * r);
                    f = drop_bit 128 r;
                    log_2 = log_2 OR push_bit shift_factor f
                in (drop_bit (unat f) r, log_2)) (rev [51..<64]) (r, log_2);
            r = drop_bit 127 (r * r);
            f = drop_bit 128 r;
            log_2 = log_2 OR push_bit 50 f;
            log_sqrt10001 = log_2 * 255738958999603826347141;
            log_sqrt_low = log_sqrt10001 - 3402992956809132418596140100660247210;
            log_sqrt_high = log_sqrt10001 + 291339464771989622907027621153398088495
        in
        obind (to_i24 (signed_drop_bit 128 log_sqrt_low)) (\<lambda>tick_low.
        obind (to_i24 (signed_drop_bit 128 log_sqrt_high)) (\<lambda>tick_high.
        if tick_low = tick_high then Ok tick_low
        else
          obind (get_sqrt_ratio_at_tick_internal tick_high) (\<lambda>high_ratio.
            Ok (if high_ratio \<le> sqrt_price_x96 then tick_high else tick_low)))))"

section \<open>The two price routines agree\<close>

lemma tick_masks_product:
  "fold (\<lambda>(tick_mask, ratio_multiplier) ratio.
      if abs_tick AND tick_mask \<noteq> 0 then drop_bit 128 (ratio * ratio_multiplier) else ratio) TICK_MASKS
    (if abs_tick AND 1 = 0 then 0x100000000000000000000000000000000
     else 0xfffcb933bd6fad37aa2d162d1a594001) = tick_product abs_tick"
proof -
  have step: "(if abs_tick AND m \<noteq> 0 then drop_bit 128 (r * c) else r) = ratio_step abs_tick m c r" for m c r
    by (simp only: ratio_step_def)
  have first: "(if abs_tick AND 1 = 0 then 0x100000000000000000000000000000000
     else 0xfffcb933bd6fad37aa2d162d1a594001)
     = ratio_step abs_tick (2 ^ 0) (word_of_nat 340265354078544963557816517032075149313) (2 ^ 128)"
    by (simp add: ratio_step_def power_numeral)
  show ?thesis
    unfolding step first TICK_MASKS_def tick_product_def ratio_constants_def
    by (simp add: power_numeral)
qed

lemma unat_abs_i32: "is_i32 t \<Longrightarrow> unat (word_of_int \<bar>t\<bar> :: u256) = nat \<bar>t\<bar>"
proof -
  assume "is_i32 t"
  then have "\<bar>t\<bar> < 2 ^ 256" by (auto simp: is_i32_def abs_less_iff power_numeral)
  then show ?thesis by (simp add: unat_eq_nat_uint uint_word_of_int)
qed

lemma out_of_range:
  assumes "is_i32 t" "\<not> (MIN_TICK \<le> t \<and> t \<le> MAX_TICK)"
  shows "get_sqrt_ratio_at_tick t = (if t = - (2 ^ 31) then Panic else Err TickTooLarge)"
proof (cases "t = - (2 ^ 31)")
  case True
  then show ?thesis
    by (simp add: get_sqrt_ratio_at_tick_eq u256_from_i32_def wrap_i32_def power_numeral)
next
  case False
  then have "is_i32 (- t)" using assms(1) by (auto simp: is_i32_def power_numeral)
  moreover have "unat (word_of_int \<bar>t\<bar> :: u256) = nat \<bar>t\<bar>"
    using assms(1) by (rule unat_abs_i32)
  then have "(887272 :: u256) < word_of_int \<bar>t\<bar>"
    using assms(2) by (auto simp: word_less_nat_alt MIN_TICK_def MAX_TICK_def)
  ultimately show ?thesis
    using False by (auto simp: get_sqrt_ratio_at_tick_eq u256_from_i32_def)
qed

lemma internal_in_range:
  assumes "MIN_TICK \<le> t" "t \<le> MAX_TICK" "get_sqrt_ratio_at_tick t = Ok q"
  shows "get_sqrt_ratio_at_tick_internal t = Ok (ucast q)" "unat q < 2 ^ 160"
proof -
  define a :: u256 where "a = word_of_int \<bar>t\<bar>"
  have t: "- 887272 \<le> t" "t \<le> 887272" using assms by (simp_all add: MIN_TICK_def MAX_TICK_def)
  then have "is_i32 (- t)" "\<not> 887272 < a"
    by (simp_all add: is_i32_def a_def power_numeral word_less_nat_alt unat_eq_nat_uint uint_word_of_int)
  then have run: "obind (if 0 < t then u_div u_max (tick_product a) else Ok (tick_product a))
      (\<lambda>ratio. Ok (scale_down_32 ratio)) = (Ok q :: u256 v3_result)"
    using assms(3) by (simp add: get_sqrt_ratio_at_tick_eq u256_from_i32_def a_def split: if_splits)
  have "unat q = sqrt_ratio_nat t" using get_sqrt_ratio_at_tick_Ok [OF assms(1,2)] assms(3) by simp
  also have "\<dots> \<le> sqrt_ratio_nat MAX_TICK" using assms by (intro sqrt_ratio_nat_mono) simp_all
  finally show fits: "unat q < 2 ^ 160" by (simp add: sqrt_ratio_ends power_numeral)
  have p32: "push_bit 32 1 = (0x100000000 :: u256)" by (simp add: power_numeral)
  have scale: "(if ratio mod 0x100000000 \<noteq> 0 then drop_bit 32 ratio + 1 else drop_bit 32 ratio)
      = scale_down_32 ratio" for ratio :: u256
    by (simp only: scale_down_32_def p32) simp
  from run have "get_sqrt_ratio_at_tick_internal t = to_u160 q"
    using t unfolding get_sqrt_ratio_at_tick_internal_def Let_def scale tick_masks_product a_def
    by (auto simp: u_div_def split: if_splits)
  then show "get_sqrt_ratio_at_tick_internal t = Ok (ucast q)" using fits by (simp add: to_u160_def)
qed

text \<open>
  C29. Inside the tick range the table-driven price routine and the unrolled one return the same price, which fits 160
  bits. Outside the range neither returns a price, but they do not fail alike: for every other \<open>i32\<close> the first reports an
  invalid tick, while the second reports a tick too large and, at the least \<open>i32\<close> only, panics.
\<close>

theorem sqrt_ratio_implementations_agree:
  assumes "is_i32 t"
  shows "if MIN_TICK \<le> t \<and> t \<le> MAX_TICK
    then \<exists>q. get_sqrt_ratio_at_tick t = Ok q \<and> unat q < 2 ^ 160
      \<and> get_sqrt_ratio_at_tick_internal t = Ok (ucast q)
    else get_sqrt_ratio_at_tick_internal t = Err (InvalidTick t)
      \<and> get_sqrt_ratio_at_tick t = (if t = - (2 ^ 31) then Panic else Err TickTooLarge)"
proof (cases "MIN_TICK \<le> t \<and> t \<le> MAX_TICK")
  case True
  with get_sqrt_ratio_at_tick_Ok [of t] internal_in_range [of t] show ?thesis by auto
next
  case False
  then have "\<not> (- 887272 \<le> t \<and> t \<le> 887272)" by (simp add: MIN_TICK_def MAX_TICK_def)
  with False out_of_range [OF assms False] show ?thesis by (simp add: get_sqrt_ratio_at_tick_internal_def)
qed

theorem sqrt_ratio_implementations_agree_witness:
  "is_i32 (- 887272) \<and> is_i32 900000
   \<and> (\<exists>q. get_sqrt_ratio_at_tick (- 887272) = Ok q \<and> get_sqrt_ratio_at_tick_internal (- 887272) = Ok (ucast q))
   \<and> get_sqrt_ratio_at_tick_internal 900000 = Err (InvalidTick 900000)"
proof -
  have i: "is_i32 (- 887272)" "is_i32 900000" by (simp_all add: is_i32_def power_numeral)
  show ?thesis
    using i sqrt_ratio_implementations_agree [OF i(1)] sqrt_ratio_implementations_agree [OF i(2)]
    by (auto simp: MIN_TICK_def MAX_TICK_def)
qed

end
