(* ===== verification/Full_Math.thy ===== *)
theory Full_Math
  imports V3_Common
begin

text \<open>
  \<open>uniswap_v3_math/full_math.rs\<close>: the 512-bit \<open>mul_div\<close> (product by the Chinese remainder
  theorem, division by a modular inverse found with six Newton steps) and its rounding-up
  variant. The theory shows that the word-level routine computes \<open>a * b div denominator\<close>
  exactly, and states the contract of a multiply-divide routine as a locale.
\<close>

section \<open>The routines\<close>

definition mul_mod :: "u256 \<Rightarrow> u256 \<Rightarrow> u256 \<Rightarrow> u256" where
  "mul_mod a b m = (if m = 0 then 0 else word_of_nat ((unat a * unat b) mod unat m))"

definition mul_div :: "u256 \<Rightarrow> u256 \<Rightarrow> u256 \<Rightarrow> u256 v3_result" where
  "mul_div a b denominator =
    (let mm = mul_mod a b u_max;
         prod_0 = a * b;
         prod_1 = mm - prod_0 - of_bool (mm < prod_0)
     in if prod_1 = 0 then
          (if denominator = 0 then Err DenominatorIsZero
           else u_div prod_0 denominator)
        else if denominator \<le> prod_1 then Err DenominatorIsLteProdOne
        else
          let remainder = mul_mod a b denominator;
              prod_1 = prod_1 - of_bool (prod_0 < remainder);
              prod_0 = prod_0 - remainder;
              twos = (0 - denominator) AND denominator
          in
          obind (u_div denominator twos) (\<lambda>denominator.
          obind (u_div prod_0 twos) (\<lambda>prod_0.
          obind (u_div (0 - twos) twos) (\<lambda>flipped.
            let twos = flipped + 1;
                prod_0 = prod_0 OR (prod_1 * twos);
                inv = (3 * denominator) XOR 2;
                inv = inv * (2 - denominator * inv);
                inv = inv * (2 - denominator * inv);
                inv = inv * (2 - denominator * inv);
                inv = inv * (2 - denominator * inv);
                inv = inv * (2 - denominator * inv);
                inv = inv * (2 - denominator * inv)
            in Ok (prod_0 * inv)))))"

definition newton_inverse :: "u256 \<Rightarrow> u256" where
  \<comment> \<open>the seed and the six Newton steps of \<open>mul_div\<close>, named for the proofs\<close>
  "newton_inverse d =
     (let inv = (3 * d) XOR 2;
          inv = inv * (2 - d * inv);
          inv = inv * (2 - d * inv);
          inv = inv * (2 - d * inv);
          inv = inv * (2 - d * inv);
          inv = inv * (2 - d * inv);
          inv = inv * (2 - d * inv)
      in inv)"

definition mul_div_rounding_up :: "u256 \<Rightarrow> u256 \<Rightarrow> u256 \<Rightarrow> u256 v3_result" where
  "mul_div_rounding_up a b denominator =
     obind (mul_div a b denominator) (\<lambda>result.
       if 0 < mul_mod a b denominator then
         (if result = u_max then Err ResultIsU256MAX else Ok (result + 1))
       else Ok result)"

section \<open>The 512-bit product\<close>

lemma unat_mul_mod:
  "m \<noteq> 0 \<Longrightarrow> unat (mul_mod a b m) = (unat a * unat b) mod unat m"
proof -
  assume "m \<noteq> 0"
  then have "(unat a * unat b) mod unat m < unat m" by (simp add: unat_gt_0)
  also have "\<dots> < 2 ^ LENGTH(256)" by (rule unat_bound)
  finally show ?thesis using \<open>m \<noteq> 0\<close> by (simp add: mul_mod_def unat_of_nat)
qed

lemma crt_high_word:
  fixes P M :: int
  assumes M: "2 \<le> M" and P: "0 \<le> P" "P \<le> (M - 1) * (M - 1)"
  defines "p0 \<equiv> P mod M" and "p1 \<equiv> P div M" and "mm \<equiv> P mod (M - 1)"
  shows "(mm - p0 - of_bool (mm < p0)) mod M = p1"
proof -
  have P_eq: "P = p1 * M + p0" by (simp add: p0_def p1_def)
  have p0: "0 \<le> p0" "p0 < M" using M by (auto simp: p0_def)
  have "0 \<le> p1" using P(1) M by (simp add: p1_def pos_imp_zdiv_nonneg_iff)
  have "p1 * M \<le> (M - 1) * (M - 1)" using P(2) p0 P_eq by linarith
  also have "\<dots> < (M - 1) * M" using M by (simp add: algebra_simps)
  finally have p1: "p1 < M - 1" using M by (simp add: mult_less_cancel_right)
  have "P = p1 * (M - 1) + (p0 + p1)" by (simp add: P_eq algebra_simps)
  then have mm_eq: "mm = (p0 + p1) mod (M - 1)"
    by (metis mm_def add.commute mod_mult_self1)
  show ?thesis
  proof (cases "p0 + p1 < M - 1")
    case True
    then have "mm = p0 + p1" using mm_eq p0 \<open>0 \<le> p1\<close> by simp
    then show ?thesis using \<open>0 \<le> p1\<close> p1 by simp
  next
    case False
    have "(p0 + p1 - (M - 1)) mod (M - 1) = (p0 + p1) mod (M - 1)"
      by (metis minus_mod_self2)
    moreover have "(p0 + p1 - (M - 1)) mod (M - 1) = p0 + p1 - (M - 1)"
      using False p0 p1 by (intro mod_pos_pos_trivial) auto
    ultimately have "mm = p0 + p1 - (M - 1)" using mm_eq by simp
    then have "mm < p0" "mm - p0 - 1 = p1 - M" using p1 by auto
    then have "(mm - p0 - of_bool (mm < p0)) mod M = (p1 - M) mod M" by simp
    also have "\<dots> = p1" using \<open>0 \<le> p1\<close> p1 by (simp add: minus_mod_self2)
    finally show ?thesis .
  qed
qed

lemma uint_sub_of_bool:
  "uint ((x :: u256) - y - of_bool c) = (uint x - uint y - of_bool c) mod 2 ^ 256"
  by (cases c) (simp_all add: uint_word_ariths mod_simps)

lemma prod_1_eq:
  fixes a b :: u256
  defines "mm \<equiv> mul_mod a b u_max"
  shows "unat (mm - a * b - of_bool (mm < a * b)) = (unat a * unat b) div 2 ^ 256"
proof -
  let ?M = "2 ^ 256 :: int" and ?P = "uint a * uint b"
  have "(u_max :: u256) \<noteq> 0" by (simp add: u_max_def)
  then have "unat mm = (unat a * unat b) mod (2 ^ 256 - 1)"
    unfolding mm_def by (simp add: unat_mul_mod unat_u_max)
  then have "int (unat mm) = int ((unat a * unat b) mod (2 ^ 256 - 1))" by simp
  then have mm: "uint mm = ?P mod (?M - 1)"
    by (simp only: of_nat_mod of_nat_mult uint_nat) simp
  have p0: "uint (a * b) = ?P mod ?M" by (simp add: uint_word_ariths)
  have "uint a \<le> ?M - 1" "uint b \<le> ?M - 1"
    using uint_bounded [of a] uint_bounded [of b] by auto
  then have le: "?P \<le> (?M - 1) * (?M - 1)" by (intro mult_mono) auto
  have lt: "(mm < a * b) = (?P mod (?M - 1) < ?P mod ?M)"
    by (simp only: word_less_def mm p0)
  have "uint (mm - a * b - of_bool (mm < a * b)) =
      (uint mm - uint (a * b) - of_bool (mm < a * b)) mod ?M"
    by (rule uint_sub_of_bool)
  also have "\<dots> = (?P mod (?M - 1) - ?P mod ?M - of_bool (?P mod (?M - 1) < ?P mod ?M)) mod ?M"
    by (simp only: mm p0 lt)
  also have "\<dots> = ?P div ?M"
    by (rule crt_high_word) (use le in \<open>simp_all add: power_numeral\<close>)
  finally have "int (unat (mm - a * b - of_bool (mm < a * b))) = int ((unat a * unat b) div 2 ^ 256)"
    by (simp only: uint_nat of_nat_div of_nat_mult of_nat_power of_nat_numeral)
  then show ?thesis by (simp only: of_nat_eq_iff)
qed

lemma odd_neg_and:
  fixes w :: "'a::len word"
  assumes "odd w"
  shows "(- w) AND w = 1"
proof (rule bit_word_eqI)
  fix n assume n: "n < LENGTH('a)"
  obtain q where q: "w = 1 + 2 * q" using assms by (metis oddE add.commute)
  have neg: "- w = NOT (2 * q)" by (simp add: q minus_eq_not_minus_1)
  have w: "bit w n \<longleftrightarrow> bit (2 * q) n \<or> n = 0"
    unfolding q by (rule even_bit_succ_iff) simp
  show "bit ((- w) AND w) n = bit (1 :: 'a word) n"
    using n by (auto simp: neg w bit_and_iff bit_not_iff bit_1_iff bit_double_iff)
qed

lemma unat_power_of_two: "k < LENGTH('a) \<Longrightarrow> unat ((2 :: 'a::len word) ^ k) = 2 ^ k"
  using unat_word_of_nat [of "2 ^ k", where 'a = 'a] by simp

lemma lowest_set_bit:
  fixes d :: "'a::len word"
  assumes "unat d = 2 ^ k * m" "odd m"
  shows "(0 - d) AND d = 2 ^ k"
proof -
  have d: "d = push_bit k (word_of_nat m)"
    using word_of_nat_eqI [OF assms(1)] by (simp add: push_bit_eq_mult mult.commute)
  have "odd (word_of_nat m :: 'a word)" using assms(2) by simp
  from odd_neg_and [OF this]
  have "push_bit k ((- word_of_nat m) AND word_of_nat m :: 'a word) = push_bit k 1" by simp
  then show ?thesis unfolding d push_bit_and push_bit_minus by (simp add: push_bit_eq_mult [of k 1])
qed

lemma hensel_step:
  fixes d inv :: "'a::comm_ring_1"
  assumes "d * inv = 1 + 2 ^ j * t"
  shows "\<exists>t'. d * (inv * (2 - d * inv)) = 1 + 2 ^ (2 * j) * t'"
proof -
  have p: "(2 :: 'a) ^ (2 * j) = 2 ^ j * 2 ^ j" by (simp only: mult_2 power_add)
  have "d * (inv * (2 - d * inv)) = (d * inv) * (2 - d * inv)" by (simp add: algebra_simps)
  also have "\<dots> = (1 + 2 ^ j * t) * (1 - 2 ^ j * t)" by (simp add: assms)
  also have "\<dots> = 1 + 2 ^ (2 * j) * (- (t * t))" unfolding p by (simp add: algebra_simps)
  finally show ?thesis by blast
qed

lemma odd_below_16: "(n :: nat) < 16 \<Longrightarrow> odd n \<Longrightarrow> n \<in> {1, 3, 5, 7, 9, 11, 13, 15}"
  by simp presburger

lemma inverse_seed_low:
  assumes "odd n"
  shows "take_bit 4 (n * (take_bit 4 (3 * n) XOR 2)) = (1 :: nat)"
proof -
  let ?r = "n mod 16"
  have r: "?r \<in> {1, 3, 5, 7, 9, 11, 13, 15}"
    using assms by (intro odd_below_16) (auto simp: mod2_eq_if even_mod_2_iff dvd_mod_iff)
  have t3: "take_bit 4 (3 * n) = take_bit 4 (3 * ?r)"
    by (simp add: take_bit_eq_mod mod_simps power_numeral)
  have "take_bit 4 (n * (take_bit 4 (3 * n) XOR 2)) = take_bit 4 (?r * (take_bit 4 (3 * ?r) XOR 2))"
    unfolding t3 by (simp add: take_bit_eq_mod mod_simps power_numeral)
  also have "\<dots> = 1" using r by auto
  finally show ?thesis .
qed

lemma take_bit_unat_mult:
  "k \<le> LENGTH('a) \<Longrightarrow> take_bit k (unat (a * b :: 'a::len word)) = take_bit k (unat a * unat b)"
  by (simp add: unat_word_ariths take_bit_eq_mod mod_mod_cancel le_imp_power_dvd)

lemma inverse_seed:
  fixes d :: u256
  assumes "odd (unat d)"
  shows "\<exists>t. d * ((3 * d) XOR 2) = 1 + 2 ^ 4 * t"
proof -
  let ?e = "(3 * d) XOR 2"
  have "take_bit 4 (unat (3 * d)) = take_bit 4 (unat (3 :: u256) * unat d)"
    by (rule take_bit_unat_mult) simp
  then have "take_bit 4 (unat ?e) = take_bit 4 (take_bit 4 (3 * unat d) XOR 2)"
    by (simp add: unsigned_xor_eq take_bit_xor)
  moreover have "take_bit 4 (unat (d * ?e)) = take_bit 4 (unat d * take_bit 4 (unat ?e))"
    by (subst take_bit_unat_mult) (simp_all add: take_bit_eq_mod mod_simps)
  ultimately have "take_bit 4 (unat (d * ?e)) = take_bit 4 (unat d * (take_bit 4 (3 * unat d) XOR 2))"
    by (simp add: take_bit_eq_mod mod_simps)
  also have "\<dots> = 1" using assms by (rule inverse_seed_low)
  finally have "unat (d * ?e) mod 16 = 1" by (simp add: take_bit_eq_mod power_numeral)
  then obtain t where "unat (d * ?e) = 1 + 16 * t"
    by (metis add.commute mult.commute mult_div_mod_eq)
  then have "d * ?e = 1 + 2 ^ 4 * word_of_nat t"
    by (subst word_of_nat_eqI [of "d * ?e" "1 + 16 * t"]) (simp_all add: power_numeral)
  then show ?thesis by blast
qed

lemma newton_inverse_correct:
  assumes "odd (unat d)"
  shows "d * newton_inverse d = 1"
proof -
  define s where "s v = v * (2 - d * v)" for v
  have step: "\<exists>t'. d * s v = 1 + 2 ^ (2 * j) * t'" if "\<exists>t. d * v = 1 + 2 ^ j * t" for v j
    using that hensel_step [of d v j] by (auto simp: s_def)
  have "\<exists>t. d * ((3 * d) XOR 2) = 1 + 2 ^ 4 * t" using assms by (rule inverse_seed)
  from step [OF step [OF step [OF step [OF step [OF step [OF this]]]]]]
  obtain t where t: "d * s (s (s (s (s (s ((3 * d) XOR 2)))))) = 1 + 2 ^ (2 * (2 * (2 * (2 * (2 * (2 * 4)))))) * t"
    by blast
  have "(2 :: u256) ^ (2 * (2 * (2 * (2 * (2 * (2 * 4)))))) = 0" by simp
  with t show ?thesis by (simp only: newton_inverse_def s_def Let_def mult_zero_left add_0_right)
qed

lemma twos_flip:
  assumes "k < 256"
  shows "(0 - (2 ^ k :: u256)) div 2 ^ k + 1 = word_of_nat (2 ^ (256 - k))"
proof -
  have u: "unat (2 ^ k :: u256) = 2 ^ k" using assms by (simp add: unat_power_of_two)
  have "unat (0 - (2 ^ k :: u256)) = 2 ^ 256 - 2 ^ k"
    unfolding unat_sub_if' by (simp add: u)
  then have "unat ((0 - (2 ^ k :: u256)) div 2 ^ k) = (2 ^ 256 - 2 ^ k) div 2 ^ k"
    by (simp only: unat_div u)
  also have "(2 ^ 256 :: nat) = 2 ^ (256 - k) * 2 ^ k"
    using assms by (simp only: power_add [symmetric]) simp
  also have "(2 ^ (256 - k) * 2 ^ k - 2 ^ k) div 2 ^ k = (2 ^ (256 - k) - 1 :: nat)"
    by (metis diff_mult_distrib mult_1 nonzero_mult_div_cancel_right power_not_zero zero_neq_numeral)
  finally have "(0 - (2 ^ k :: u256)) div 2 ^ k = word_of_nat (2 ^ (256 - k) - 1)"
    by (rule word_of_nat_eqI)
  then show ?thesis by (simp add: of_nat_diff)
qed

lemma cancel_inverse: "(d :: 'a::comm_ring_1) * i = 1 \<Longrightarrow> (d * w) * i = w"
proof -
  assume "d * i = 1"
  have "(d * w) * i = (d * i) * w" by (simp only: mult.assoc mult.commute [of w i])
  then show ?thesis by (simp add: \<open>d * i = 1\<close>)
qed

lemma shift_in_high_word:
  fixes p0 p1 :: u256
  assumes k: "k < 256"
  shows "(p0 div 2 ^ k) OR (p1 * word_of_nat (2 ^ (256 - k)))
    = word_of_nat ((unat p1 * 2 ^ 256 + unat p0) div 2 ^ k)"
proof -
  have e1: "p0 div 2 ^ k = drop_bit k p0" by (simp add: drop_bit_eq_div)
  have e2: "p1 * word_of_nat (2 ^ (256 - k)) = push_bit (256 - k) p1"
    by (simp add: push_bit_eq_mult)
  have "drop_bit k p0 AND push_bit (256 - k) p1 = 0"
  proof (rule bit_word_eqI)
    fix n assume "n < LENGTH(256)"
    then show "bit (drop_bit k p0 AND push_bit (256 - k) p1) n = bit (0 :: u256) n"
      using k by (auto simp: bit_simps dest: bit_imp_le_length)
  qed
  then have s0: "(p0 div 2 ^ k) OR (p1 * word_of_nat (2 ^ (256 - k)))
      = (p0 div 2 ^ k) + (p1 * word_of_nat (2 ^ (256 - k)))"
    unfolding e1 e2 by (rule disjunctive_add_eq_or [symmetric])
  have s1: "p0 div 2 ^ k = word_of_nat (unat p0 div 2 ^ k)"
    using k by (intro word_of_nat_eqI) (simp add: unat_div unat_power_of_two)
  have s2: "p1 * word_of_nat (2 ^ (256 - k)) = word_of_nat (unat p1 * 2 ^ (256 - k))"
    by simp
  have s3: "unat p0 div 2 ^ k + unat p1 * 2 ^ (256 - k) = (unat p1 * 2 ^ 256 + unat p0) div 2 ^ k"
  proof -
    have "(2 :: nat) ^ 256 = 2 ^ (256 - k) * 2 ^ k"
      using k by (simp only: power_add [symmetric]) simp
    then have "unat p1 * 2 ^ 256 + unat p0 = unat p0 + unat p1 * 2 ^ (256 - k) * 2 ^ k"
      by (simp only: mult.assoc add.commute)
    then show ?thesis by (simp only: div_mult_self1 power_not_zero) simp
  qed
  have "(p0 div 2 ^ k) + (p1 * word_of_nat (2 ^ (256 - k)))
      = word_of_nat ((unat p1 * 2 ^ 256 + unat p0) div 2 ^ k)"
    by (simp only: s1 s2 of_nat_add [symmetric] s3)
  with s0 show ?thesis by (rule trans)
qed

lemma subtract_remainder:
  fixes p0 p1 r :: u256
  assumes le: "unat r \<le> unat p1 * 2 ^ 256 + unat p0"
  shows "unat (p1 - of_bool (p0 < r)) * 2 ^ 256 + unat (p0 - r)
    = unat p1 * 2 ^ 256 + unat p0 - unat r"
proof (cases "p0 < r")
  case True
  then have lt: "unat p0 < unat r" by (simp add: word_less_nat_alt)
  have "0 < unat p1"
  proof (rule ccontr)
    assume "\<not> 0 < unat p1"
    with le lt show False by simp
  qed
  then have "unat (p1 - 1) = unat p1 - 1" by (simp add: unat_minus_one unat_gt_0)
  moreover have "unat (p0 - r) = unat p0 + 2 ^ 256 - unat r"
    using lt by (simp add: unat_sub_if')
  moreover have "unat r < 2 ^ 256" using unat_bound [of r] by simp
  ultimately show ?thesis
    using True \<open>0 < unat p1\<close> by (cases "unat p1") simp_all
next
  case False
  then have "r \<le> p0" by simp
  then show ?thesis using False by (simp add: unat_sub word_le_nat_alt)
qed

lemma mul_div_long:
  fixes a b d :: u256
  defines "P \<equiv> unat a * unat b"
  assumes big: "2 ^ 256 \<le> P" and d: "P div 2 ^ 256 < unat d"
  shows "mul_div a b d = Ok (word_of_nat (P div unat d))"
proof -
  define p1 where "p1 = mul_mod a b u_max - a * b - of_bool (mul_mod a b u_max < a * b)"
  have p1: "unat p1 = P div 2 ^ 256" unfolding p1_def P_def by (rule prod_1_eq)
  have p0: "unat (a * b) = P mod 2 ^ 256" by (simp add: P_def unat_word_ariths)
  have P: "P = unat p1 * 2 ^ 256 + unat (a * b)" unfolding p1 p0 by (rule div_mult_mod_eq [symmetric])
  have dnz: "d \<noteq> 0" using d by auto
  define r where "r = mul_mod a b d"
  have r: "unat r = P mod unat d" unfolding r_def P_def using dnz by (rule unat_mul_mod)
  define q1 q0 where "q1 = p1 - of_bool (a * b < r)" and "q0 = a * b - r"
  have "unat r \<le> P" by (simp add: r)
  then have Q: "unat q1 * 2 ^ 256 + unat q0 = P - P mod unat d"
    unfolding q1_def q0_def using subtract_remainder [of r p1 "a * b"] P r by simp
  have "unat d \<noteq> 0" using dnz by (simp add: unat_eq_zero)
  from low_zeros_factor [OF this] obtain k m where km: "unat d = 2 ^ k * m" "odd m" by blast
  have "2 ^ k \<le> unat d" using km by (cases m) auto
  then have k: "k < 256" using power_le_unat [of k d] by simp
  have tw: "(0 - d) AND d = 2 ^ k" using km by (rule lowest_set_bit)
  have twnz: "(2 ^ k :: u256) \<noteq> 0" using k unat_power_of_two [of k, where 'a = 256]
    by (auto simp: unat_eq_zero [symmetric])
  define d' where "d' = d div 2 ^ k"
  have d': "unat d' = m" using k km by (simp add: d'_def unat_div unat_power_of_two)
  have inv: "d' * newton_inverse d' = 1" using km(2) d' by (intro newton_inverse_correct) simp
  have "(P - P mod unat d) div 2 ^ k = (unat d * (P div unat d)) div 2 ^ k"
    by (simp add: minus_mod_eq_mult_div)
  also have "\<dots> = m * (P div unat d)" by (simp add: km(1) mult.assoc)
  finally have "(q0 div 2 ^ k) OR (q1 * word_of_nat (2 ^ (256 - k))) = word_of_nat (m * (P div unat d))"
    using shift_in_high_word [OF k, of q0 q1] by (simp only: Q)
  also have "\<dots> = d' * word_of_nat (P div unat d)"
    using word_of_nat_eqI [OF d'] by (simp only: of_nat_mult)
  finally have "(q0 div 2 ^ k) OR (q1 * word_of_nat (2 ^ (256 - k))) = d' * word_of_nat (P div unat d)" .
  then have res: "((q0 div 2 ^ k) OR (q1 * word_of_nat (2 ^ (256 - k)))) * newton_inverse d'
      = word_of_nat (P div unat d)"
    by (simp only: cancel_inverse [OF inv])
  have "p1 \<noteq> 0" using p1 big by (auto simp: unat_eq_zero [symmetric] div_eq_0_iff)
  moreover have "\<not> d \<le> p1" using d p1 by (simp add: word_le_nat_alt)
  ultimately have "mul_div a b d =
      obind (u_div d (2 ^ k)) (\<lambda>d'. obind (u_div q0 (2 ^ k)) (\<lambda>q0.
      obind (u_div (0 - 2 ^ k) (2 ^ k)) (\<lambda>flipped.
        Ok ((q0 OR q1 * (flipped + 1)) * newton_inverse d'))))"
    unfolding mul_div_def Let_def p1_def [symmetric] r_def [symmetric] q0_def [symmetric]
      q1_def [symmetric] tw newton_inverse_def
    by (simp only: if_False)
  then show ?thesis
    unfolding res [symmetric]
    by (simp only: u_div_def twnz if_False obind.simps d'_def [symmetric] twos_flip [OF k])
qed


lemma mul_div_short:
  fixes a b d :: u256
  assumes "unat a * unat b < 2 ^ 256"
  shows "mul_div a b d =
    (if d = 0 then Err DenominatorIsZero else Ok (word_of_nat (unat a * unat b div unat d)))"
proof -
  have "unat (mul_mod a b u_max - a * b - of_bool (mul_mod a b u_max < a * b)) = 0"
    using assms by (simp add: prod_1_eq div_eq_0_iff)
  then have "mul_mod a b u_max - a * b - of_bool (mul_mod a b u_max < a * b) = 0"
    by (simp only: unat_eq_zero)
  moreover have "unat (a * b) = unat a * unat b" using assms by (simp add: unat_word_ariths)
  then have "a * b div d = word_of_nat (unat a * unat b div unat d)"
    by (intro word_of_nat_eqI) (simp add: unat_div)
  ultimately show ?thesis by (simp add: mul_div_def Let_def u_div_def)
qed

lemma mul_div_overflow:
  fixes a b d :: u256
  assumes "2 ^ 256 \<le> unat a * unat b" and "unat d \<le> unat a * unat b div 2 ^ 256"
  shows "mul_div a b d = Err DenominatorIsLteProdOne"
proof -
  define p1 where "p1 = mul_mod a b u_max - a * b - of_bool (mul_mod a b u_max < a * b)"
  have p1: "unat p1 = unat a * unat b div 2 ^ 256" unfolding p1_def by (rule prod_1_eq)
  have "p1 \<noteq> 0" using p1 assms(1) by (auto simp: unat_eq_zero [symmetric] div_eq_0_iff)
  moreover have "d \<le> p1" using assms(2) p1 by (simp add: word_le_nat_alt)
  ultimately show ?thesis unfolding mul_div_def Let_def p1_def [symmetric] by simp
qed

lemma div_fits_iff:
  fixes P d :: nat
  assumes "0 < d"
  shows "P div d < 2 ^ 256 \<longleftrightarrow> P div 2 ^ 256 < d"
proof -
  have "P div d < 2 ^ 256 \<longleftrightarrow> P < 2 ^ 256 * d"
    using assms by (rule div_less_iff_less_mult)
  also have "\<dots> \<longleftrightarrow> P div 2 ^ 256 < d"
    using div_less_iff_less_mult [of "2 ^ 256" P d] by (simp add: mult.commute)
  finally show ?thesis .
qed

lemma mul_div_Ok [outcome_simps]:
  "mul_div a b d = Ok q \<longleftrightarrow> d \<noteq> 0 \<and> unat q = unat a * unat b div unat d"
proof -
  let ?P = "unat a * unat b"
  have fits: "?P div unat d < 2 ^ 256 \<Longrightarrow>
      word_of_nat (?P div unat d) = q \<longleftrightarrow> unat q = ?P div unat d"
    by (auto simp: word_unat_eq_iff unat_of_nat)
  consider "?P < 2 ^ 256" | "2 ^ 256 \<le> ?P" "unat d \<le> ?P div 2 ^ 256"
    | "2 ^ 256 \<le> ?P" "?P div 2 ^ 256 < unat d"
    by linarith
  then show ?thesis
  proof cases
    case 1
    have "?P div unat d \<le> ?P" by (rule div_le_dividend)
    with 1 have "?P div unat d < 2 ^ 256" by linarith
    with fits 1 show ?thesis by (auto simp: mul_div_short)
  next
    case 2
    have "\<not> (d \<noteq> 0 \<and> unat q = ?P div unat d)"
    proof
      assume h: "d \<noteq> 0 \<and> unat q = ?P div unat d"
      then have "?P div unat d < 2 ^ 256" using unat_bound [of q] by simp
      with h 2(2) show False using div_fits_iff [of "unat d" ?P] by (simp add: unat_gt_0)
    qed
    with 2 show ?thesis by (simp add: mul_div_overflow)
  next
    case 3
    then have "d \<noteq> 0" by auto
    with 3 have "?P div unat d < 2 ^ 256" by (simp add: div_fits_iff unat_gt_0)
    with fits 3 \<open>d \<noteq> 0\<close> show ?thesis by (auto simp: mul_div_long)
  qed
qed

lemma mul_div_no_panic: "mul_div a b d \<noteq> Panic"
proof -
  consider "unat a * unat b < 2 ^ 256"
    | "2 ^ 256 \<le> unat a * unat b" "unat d \<le> unat a * unat b div 2 ^ 256"
    | "2 ^ 256 \<le> unat a * unat b" "unat a * unat b div 2 ^ 256 < unat d"
    by linarith
  then show ?thesis
    by cases (auto simp: mul_div_short mul_div_overflow mul_div_long)
qed

lemma mul_div_rounding_up_Ok [outcome_simps]:
  "mul_div_rounding_up a b d = Ok q \<longleftrightarrow>
     d \<noteq> 0 \<and> unat q = ceil_div (unat a * unat b) (unat d)"
proof (cases "mul_div a b d")
  case (Ok r)
  then have d: "d \<noteq> 0" and r: "unat r = unat a * unat b div unat d" by (simp_all add: mul_div_Ok)
  have mm: "0 < mul_mod a b d \<longleftrightarrow> unat a * unat b mod unat d \<noteq> 0"
    using unat_mul_mod [OF d, of a b] by (metis neq0_conv unat_eq_zero word_neq_0_conv)
  have "unat (r + 1) = unat r + 1" if "r \<noteq> u_max"
    using that by (rule unat_plus_one)
  moreover have "unat r + 1 \<noteq> unat q" if "r = u_max"
    using that unat_bound [of q] by (auto simp: unat_u_max)
  ultimately show ?thesis
    using Ok d mm r by (auto simp: mul_div_rounding_up_def ceil_div_def word_unat_eq_iff)
next
  case (Err e)
  have "d = 0" if q: "unat q = ceil_div (unat a * unat b) (unat d)"
  proof (rule ccontr)
    assume "d \<noteq> 0"
    have "unat a * unat b div unat d < 2 ^ LENGTH(256)"
      using q ceil_div_ge_div [of "unat a * unat b" "unat d"] unat_bound [of q] by linarith
    then have "mul_div a b d = Ok (word_of_nat (unat a * unat b div unat d))"
      using \<open>d \<noteq> 0\<close> by (simp add: mul_div_Ok unat_of_nat)
    with Err show False by simp
  qed
  then show ?thesis using Err by (auto simp: mul_div_rounding_up_def)
next
  case Panic
  then show ?thesis using mul_div_no_panic by blast
qed

lemma mul_div_rounding_up_no_panic: "mul_div_rounding_up a b d \<noteq> Panic"
  using mul_div_no_panic [of a b d]
  by (auto simp: mul_div_rounding_up_def obind_eq_Panic split: if_splits)

section \<open>The contract of a multiply-divide routine\<close>

text \<open>
  What the callers of \<open>mul_div\<close> rely on, whatever the implementation: it succeeds exactly
  when the divisor is non-zero and the floored quotient fits in 256 bits, and never panics.
\<close>

locale mul_div_contract =
  fixes md :: "u256 \<Rightarrow> u256 \<Rightarrow> u256 \<Rightarrow> (u256, 'e) outcome"
  assumes md_Ok: "md a b d = Ok q \<longleftrightarrow> d \<noteq> 0 \<and> unat q = unat a * unat b div unat d"
    and md_no_panic: "md a b d \<noteq> Panic"
begin

lemma md_total:
  "d \<noteq> 0 \<Longrightarrow> unat a * unat b div unat d < 2 ^ 256 \<Longrightarrow>
     md a b d = Ok (word_of_nat (unat a * unat b div unat d))"
  by (simp add: md_Ok unat_of_nat)

lemma md_is_ok_iff:
  "is_ok (md a b d) \<longleftrightarrow> d \<noteq> 0 \<and> unat a * unat b div unat d < 2 ^ 256"
proof
  assume "is_ok (md a b d)"
  then obtain q where "md a b d = Ok q" by (auto simp: is_ok_iff)
  then show "d \<noteq> 0 \<and> unat a * unat b div unat d < 2 ^ 256"
    using unat_bound_256 [of q] by (simp add: md_Ok)
qed (auto simp: md_total is_ok_iff)

lemma md_floor:
  assumes "md a b d = Ok q"
  shows "unat q * unat d \<le> unat a * unat b" "unat a * unat b < (unat q + 1) * unat d"
proof -
  have d: "0 < unat d" and q: "unat q = unat a * unat b div unat d"
    using assms by (auto simp: md_Ok unat_gt_0)
  show "unat q * unat d \<le> unat a * unat b" by (simp add: q)
  show "unat a * unat b < (unat q + 1) * unat d"
    using dividend_less_div_times [OF d, of "unat a * unat b"] by (simp add: q)
qed

lemma md_mono:
  assumes "md a b d = Ok q" "md a' b d = Ok q'" "a \<le> a'"
  shows "q \<le> q'"
  using assms by (auto simp: md_Ok word_le_nat_alt intro!: div_le_mono mult_le_mono1)

lemma md_fraction:
  assumes "d \<noteq> 0" "b \<le> d"
  shows "\<exists>q. md a b d = Ok q \<and> q \<le> a"
proof -
  have "unat a * unat b \<le> unat a * unat d"
    using assms(2) by (intro mult_le_mono2) (simp add: word_le_nat_alt)
  then have "unat a * unat b div unat d \<le> unat a"
    using assms(1) by (metis div_le_mono nonzero_mult_div_cancel_right unat_eq_zero)
  moreover from this have "unat a * unat b div unat d < 2 ^ 256"
    using unat_bound_256 [of a] by linarith
  ultimately show ?thesis
    using assms(1) by (auto simp: md_total word_le_nat_alt unat_of_nat)
qed

end

locale mul_div_rounding = mul_div_contract +
  fixes mdc :: "u256 \<Rightarrow> u256 \<Rightarrow> u256 \<Rightarrow> (u256, 'e) outcome"
  assumes mdc_Ok: "mdc a b d = Ok q \<longleftrightarrow> d \<noteq> 0 \<and> unat q = ceil_div (unat a * unat b) (unat d)"
    and mdc_no_panic: "mdc a b d \<noteq> Panic"
begin

lemma mdc_total:
  "d \<noteq> 0 \<Longrightarrow> ceil_div (unat a * unat b) (unat d) < 2 ^ 256 \<Longrightarrow>
     mdc a b d = Ok (word_of_nat (ceil_div (unat a * unat b) (unat d)))"
  by (simp add: mdc_Ok unat_of_nat)

lemma mdc_upper:
  assumes "mdc a b d = Ok q"
  shows "unat a * unat b \<le> unat q * unat d"
  using assms by (simp add: mdc_Ok ceil_div_upper unat_gt_0)

lemma mdc_least:
  assumes "mdc a b d = Ok q" "unat a * unat b \<le> k * unat d"
  shows "unat q \<le> k"
  using assms by (simp add: mdc_Ok ceil_div_le unat_gt_0)

lemma mdc_floor_gap:
  assumes "mdc a b d = Ok q"
  shows "\<exists>f. md a b d = Ok f \<and> f \<le> q \<and> unat q \<le> unat f + 1"
proof -
  have d: "d \<noteq> 0" and q: "unat q = ceil_div (unat a * unat b) (unat d)"
    using assms by (simp_all add: mdc_Ok)
  have le: "unat a * unat b div unat d \<le> unat q" by (simp add: q ceil_div_ge_div)
  with unat_bound_256 [of q] have "unat a * unat b div unat d < 2 ^ 256" by linarith
  then have "md a b d = Ok (word_of_nat (unat a * unat b div unat d))"
    "unat (word_of_nat (unat a * unat b div unat d) :: u256) = unat a * unat b div unat d"
    using d by (simp_all add: md_total unat_of_nat)
  then show ?thesis using le q by (auto simp: word_le_nat_alt ceil_div_def)
qed

end

interpretation full_math: mul_div_rounding mul_div mul_div_rounding_up
  by unfold_locales
    (simp_all add: mul_div_Ok mul_div_no_panic mul_div_rounding_up_Ok mul_div_rounding_up_no_panic)

text \<open>Rules that evaluate the routines on closed arguments.\<close>

lemmas math_eval = full_math.md_total full_math.mdc_total ceil_div_def power_numeral

section \<open>Properties\<close>

text \<open>
  C24. The word-level \<open>mul_div\<close> (Chinese-remainder product, lowest-set-bit reduction, six
  Newton steps) is exact 512-by-256-bit division on every input: it returns the floor of
  \<open>a * b / denominator\<close>, reports a zero denominator when the product fits one word, and
  reports a quotient that overflows exactly when the denominator is at most the high word.
\<close>

theorem mul_div_exact:
  "mul_div a b d =
     (if unat a * unat b < 2 ^ 256 then
        (if d = 0 then Err DenominatorIsZero
         else Ok (word_of_nat (unat a * unat b div unat d)))
      else if unat d \<le> unat a * unat b div 2 ^ 256 then Err DenominatorIsLteProdOne
      else Ok (word_of_nat (unat a * unat b div unat d)))"
  by (auto simp: mul_div_short mul_div_overflow mul_div_long)

text \<open>
  \<open>mul_div_rounding_up\<close> succeeds exactly when the rounded-up quotient fits in 256 bits,
  and then is the least number of denominators that covers the product and at most one more
  than \<open>mul_div\<close>.
\<close>

theorem mul_div_rounding_up_ceiling:
  assumes "mul_div_rounding_up a b d = Ok q"
  shows "unat a * unat b \<le> unat q * unat d
    \<and> (\<forall>k. unat a * unat b \<le> k * unat d \<longrightarrow> unat q \<le> k)
    \<and> (\<exists>f. mul_div a b d = Ok f \<and> f \<le> q \<and> unat q \<le> unat f + 1)"
  using full_math.mdc_upper [OF assms] full_math.mdc_least [OF assms]
    full_math.mdc_floor_gap [OF assms]
  by blast

theorem mul_div_rounding_up_ceiling_witness:
  "mul_div_rounding_up 7 5 4 = Ok 9 \<and> (\<exists>f. mul_div 7 5 4 = Ok f \<and> f \<le> 9 \<and> unat (9 :: u256) \<le> unat f + 1)"
proof -
  have h: "mul_div_rounding_up 7 5 4 = Ok 9" by (simp add: mul_div_rounding_up_Ok ceil_div_def)
  show ?thesis using h mul_div_rounding_up_ceiling [OF h] by blast
qed

end
