(* ===== verification/U256_Utils.thy ===== *)
theory U256_Utils
  imports Full_Math
begin

text \<open>
  \<open>src/rust/src/utils/u256.rs\<close>: multiply-divide through 512-bit integers, narrowing, the
  price conversion, and the Newton integer square roots \<open>isqrt\<close> and \<open>isqrt_u512\<close>. The
  theory shows that the 512-bit route implements the same contract as \<open>full_math.rs\<close> and that
  both square roots terminate with the floor root on every input.
\<close>

section \<open>The routines\<close>

definition narrow_u512 :: "u512 \<Rightarrow> string \<Rightarrow> u256 eyre_result" where
  "narrow_u512 value error = ok_or (checked_narrow value) (Msg error)"

definition u256_mul_div :: "u256 \<Rightarrow> u256 \<Rightarrow> u256 \<Rightarrow> u256 eyre_result" where
  "u256_mul_div a b denom =
     (if denom = 0 then Err (Msg ''u256::mul_div: denominator is zero'')
      else
        let wide = to_u512 a * to_u512 b
        in obind (u_div wide (to_u512 denom)) (\<lambda>q.
             narrow_u512 q ''u256::mul_div: quotient overflows U256''))"

definition u256_mul_div_ceil :: "u256 \<Rightarrow> u256 \<Rightarrow> u256 \<Rightarrow> u256 eyre_result" where
  "u256_mul_div_ceil a b denom =
     (if denom = 0 then Err (Msg ''u256::mul_div_ceil: denominator is zero'')
      else
        let wide = to_u512 a * to_u512 b;
            denom_wide = to_u512 denom
        in obind (u_div wide denom_wide) (\<lambda>q.
           obind (u_rem wide denom_wide) (\<lambda>r.
           obind (if r = 0 then Ok q
                  else ok_or (checked_add q 1)
                    (Msg ''u256::mul_div_ceil: rounded quotient overflows U512'')) (\<lambda>rounded.
             narrow_u512 rounded ''u256::mul_div_ceil: quotient overflows U256''))))"

definition sqrt_price_x96_to_price_wad :: "u256 \<Rightarrow> u256 eyre_result" where
  "sqrt_price_x96_to_price_wad sqrt_price_x96 =
     (let p = to_u512 sqrt_price_x96
      in obind (ok_or (checked_mul p p)
           (Msg ''u256::sqrt_price_x96_to_price_wad: sqrtP^2 overflows U512'')) (\<lambda>squared.
         obind (ok_or (checked_mul squared 1000000000000000000)
           (Msg ''u256::sqrt_price_x96_to_price_wad: WAD scaling overflows U512'')) (\<lambda>scaled.
           narrow_u512 (drop_bit 192 scaled)
             ''u256::sqrt_price_x96_to_price_wad: price overflows U256'')))"

text \<open>The loop \<open>while y < x { x = y; y = (x + n / x) >> 1 }\<close>, shared by both widths.\<close>

function isqrt_loop :: "'a::len word \<Rightarrow> 'a word \<Rightarrow> 'a word \<Rightarrow> ('a word, 'e) outcome" where
  "isqrt_loop n x y =
     (if y < x then (if y = 0 then Panic else isqrt_loop n y (drop_bit 1 (y + n div y)))
      else Ok x)"
  by pat_completeness auto
termination
  by (relation "measure (\<lambda>(n, x, y). unat x)") (auto simp: word_less_nat_alt)

declare isqrt_loop.simps [simp del]

definition isqrt :: "u256 \<Rightarrow> (u256, 'e) outcome" where
  "isqrt n =
     (if n = 0 then Ok 0
      else
        let x = drop_bit 1 n + 1
        in obind (u_div n x) (\<lambda>q. isqrt_loop n x (drop_bit 1 (x + q))))"

definition isqrt_u512 :: "u512 \<Rightarrow> (u512, 'e) outcome" where
  "isqrt_u512 n =
     (if n = 0 then Ok 0
      else
        let x = drop_bit 1 n + 1
        in obind (u_div n x) (\<lambda>q. isqrt_loop n x (drop_bit 1 (x + q))))"

section \<open>Multiply-divide through U512\<close>

lemma unat_div_u512:
  "unat (to_u512 a * to_u512 b div to_u512 d) = unat a * unat b div unat d"
  by (simp add: unat_div square_fits_u512)

lemma unat_mod_u512:
  "unat (to_u512 a * to_u512 b mod to_u512 d) = unat a * unat b mod unat d"
  by (simp add: unat_mod square_fits_u512)

lemma to_u512_eq_0_iff [simp]: "to_u512 a = 0 \<longleftrightarrow> a = 0"
  by (metis unat_eq_zero unat_to_u512)

lemma narrow_u512_Ok [outcome_simps]: "narrow_u512 v e = Ok r \<longleftrightarrow> unat r = unat v"
  by (simp add: narrow_u512_def ok_or_eq_Ok checked_narrow_Some)

lemma narrow_u512_no_panic [outcome_simps]: "narrow_u512 v e \<noteq> Panic"
  by (simp add: narrow_u512_def ok_or_neq_Panic)

lemma u256_mul_div_Ok [outcome_simps]:
  "u256_mul_div a b d = Ok q \<longleftrightarrow> d \<noteq> 0 \<and> unat q = unat a * unat b div unat d"
  by (auto simp: u256_mul_div_def Let_def u_div_def narrow_u512_Ok unat_div_u512)

lemma u256_mul_div_no_panic: "u256_mul_div a b d \<noteq> Panic"
  by (auto simp: u256_mul_div_def Let_def u_div_def narrow_u512_no_panic)

lemma product_below_square: "unat (a :: u256) * unat (b :: u256) < 2 ^ 512 - 1"
proof -
  have "unat a * unat b \<le> (2 ^ 256 - 1) * (2 ^ 256 - 1)"
    using unat_bound_256 [of a] unat_bound_256 [of b] by (intro mult_le_mono) linarith+
  also have "\<dots> < 2 ^ 512 - (1 :: nat)" by (simp add: power_numeral)
  finally show ?thesis .
qed

lemma u256_mul_div_ceil_Ok [outcome_simps]:
  "u256_mul_div_ceil a b d = Ok q \<longleftrightarrow> d \<noteq> 0 \<and> unat q = ceil_div (unat a * unat b) (unat d)"
proof (cases "d = 0")
  case True
  then show ?thesis by (simp add: u256_mul_div_ceil_def)
next
  case False
  let ?w = "to_u512 a * to_u512 b"
  have r: "?w mod to_u512 d = 0 \<longleftrightarrow> unat a * unat b mod unat d = 0"
    by (metis unat_eq_zero unat_mod_u512)
  have "unat a * unat b div unat d + 1 < 2 ^ 512"
    using product_below_square [of a b] div_le_dividend [of "unat a * unat b" "unat d"] by linarith
  then have s: "checked_add (?w div to_u512 d) 1 = Some (?w div to_u512 d + 1)"
    by (simp add: checked_add_def unat_div_u512)
  then have "unat (?w div to_u512 d + 1) = unat a * unat b div unat d + 1"
    by (simp add: checked_add_Some unat_div_u512)
  then show ?thesis
    using False r s
    by (auto simp: u256_mul_div_ceil_def Let_def u_div_def u_rem_def narrow_u512_Ok
        unat_div_u512 ceil_div_def)
qed

lemma u256_mul_div_ceil_no_panic: "u256_mul_div_ceil a b d \<noteq> Panic"
  by (auto simp: u256_mul_div_ceil_def Let_def u_div_def u_rem_def obind_eq_Panic
      narrow_u512_no_panic ok_or_neq_Panic split: if_splits)

interpretation wide_math: mul_div_rounding u256_mul_div u256_mul_div_ceil
  by unfold_locales
    (simp_all add: u256_mul_div_Ok u256_mul_div_no_panic u256_mul_div_ceil_Ok
      u256_mul_div_ceil_no_panic)

section \<open>Integer square roots\<close>

definition floor_root :: "nat \<Rightarrow> nat \<Rightarrow> bool" where
  "floor_root n r \<longleftrightarrow> r * r \<le> n \<and> n < (r + 1) * (r + 1)"

lemma floor_root_unique: "floor_root n r \<Longrightarrow> floor_root n s \<Longrightarrow> r = s"
proof -
  assume rs: "floor_root n r" "floor_root n s"
  have "\<not> r < s" if "floor_root n r" "floor_root n s" for r s
  proof
    assume "r < s"
    then have "(r + 1) * (r + 1) \<le> s * s" by (intro mult_le_mono) auto
    with that show False by (auto simp: floor_root_def)
  qed
  with rs show ?thesis by (meson linorder_neqE_nat)
qed

lemma half_above: "(s :: nat) + 1 \<le> 2 * (s div 2 + 1)"
  by presburger

lemma newton_above:
  fixes x n :: nat
  assumes "0 < x"
  shows "n < ((x + n div x) div 2 + 1) * ((x + n div x) div 2 + 1)"
proof -
  let ?q = "n div x" and ?y = "(x + n div x) div 2"
  have n: "n < x * (?q + 1)"
    using dividend_less_div_times [OF assms, of n] by (simp add: algebra_simps)
  have "int x * (int ?q + 1) * 4 \<le> (int x + (int ?q + 1)) * (int x + (int ?q + 1))"
    using zero_le_square [of "int x - (int ?q + 1)"] by (simp add: algebra_simps)
  then have "int (x * (?q + 1) * 4) \<le> int ((x + ?q + 1) * (x + ?q + 1))"
    by (simp add: algebra_simps)
  then have "x * (?q + 1) * 4 \<le> (x + ?q + 1) * (x + ?q + 1)" by (simp only: of_nat_le_iff)
  also have "\<dots> \<le> (2 * (?y + 1)) * (2 * (?y + 1))"
    using half_above [of "x + ?q"] by (intro mult_le_mono) simp_all
  also have "\<dots> = 4 * ((?y + 1) * (?y + 1))" by (simp add: algebra_simps)
  finally have "x * (?q + 1) \<le> (?y + 1) * (?y + 1)" by simp
  with n show ?thesis by linarith
qed

lemma newton_stops:
  fixes x n :: nat
  assumes "0 < x" "x \<le> (x + n div x) div 2"
  shows "x * x \<le> n"
proof -
  have "x \<le> n div x" using assms(2) by linarith
  then show ?thesis using assms(1) by (simp add: less_eq_div_iff_mult_less_eq)
qed

text \<open>The candidates the loop visits: never below the root, never above the first guess.\<close>

definition newton_candidate :: "nat \<Rightarrow> nat \<Rightarrow> bool" where
  "newton_candidate n x \<longleftrightarrow> 0 < n \<and> 0 < x \<and> x \<le> n div 2 + 1 \<and> n < (x + 1) * (x + 1)"

lemma newton_candidate_start: "0 < n \<Longrightarrow> newton_candidate n (n div 2 + 1)"
proof -
  assume n: "0 < n"
  have "n < 2 * (n div 2 + 1)" using half_above [of n] by linarith
  also have "\<dots> \<le> (n div 2 + 1 + 1) * (n div 2 + 1 + 1)" by (intro mult_le_mono) simp_all
  finally show ?thesis using n by (simp add: newton_candidate_def)
qed

lemma newton_candidate_step:
  assumes "newton_candidate n x" "(x + n div x) div 2 < x"
  shows "newton_candidate n ((x + n div x) div 2)"
proof -
  have "0 < x + n div x - 1"
    using assms(1) by (cases "x = 1") (auto simp: newton_candidate_def)
  then have "0 < (x + n div x) div 2" by linarith
  with assms newton_above [of x n] show ?thesis by (auto simp: newton_candidate_def)
qed

lemma newton_sum_fits:
  assumes "newton_candidate n x" "n < 2 ^ L" "3 \<le> L"
  shows "x + n div x < 2 ^ L"
proof (cases "x = 1")
  case True
  then have "x + n div x \<le> 4" using assms(1) by (auto simp: newton_candidate_def)
  also have "\<dots> < 2 ^ 3" by (simp add: power_numeral)
  also have "\<dots> \<le> 2 ^ L" using assms(3) by (intro power_increasing) simp_all
  finally show ?thesis .
next
  case False
  then have "n div x \<le> n div 2" using assms(1) by (intro div_le_mono2) (auto simp: newton_candidate_def)
  moreover have "x \<le> n div 2 + 1" using assms(1) by (simp add: newton_candidate_def)
  ultimately have le: "x + n div x \<le> 2 * (n div 2) + 1" by linarith
  obtain L' where "L = Suc L'" using assms(3) by (cases L) auto
  then have "n < 2 * 2 ^ L'" using assms(2) by simp
  then have "n div 2 < 2 ^ L'" by linarith
  with le \<open>L = Suc L'\<close> show ?thesis by simp
qed

lemma newton_word:
  fixes n x :: "'a::len word"
  assumes "newton_candidate (unat n) (unat x)" "3 \<le> LENGTH('a)"
  shows "unat (drop_bit 1 (x + n div x)) = (unat x + unat n div unat x) div 2"
proof -
  have "unat x + unat n div unat x < 2 ^ LENGTH('a)"
    using assms unat_bound [of n] by (intro newton_sum_fits)
  then show ?thesis
    using assms(2) by (simp add: unat_drop_bit_eq drop_bit_eq_div unat_word_ariths(1) unat_div)
qed

lemma isqrt_loop_correct:
  fixes n x y :: "'a::len word"
  assumes "3 \<le> LENGTH('a)" "newton_candidate (unat n) (unat x)" "y = drop_bit 1 (x + n div x)"
  shows "\<exists>r. isqrt_loop n x y = Ok r \<and> floor_root (unat n) (unat r)"
  using assms(2,3)
proof (induction n x y rule: isqrt_loop.induct)
  case (1 n x y)
  have y: "unat y = (unat x + unat n div unat x) div 2"
    unfolding "1.prems"(2) using "1.prems"(1) assms(1) by (rule newton_word)
  show ?case
  proof (cases "y < x")
    case True
    then have c: "newton_candidate (unat n) (unat y)"
      using "1.prems" y newton_candidate_step [of "unat n" "unat x"] by (simp add: word_less_nat_alt)
    then have "y \<noteq> 0" by (auto simp: newton_candidate_def)
    from "1.IH" [OF True this c refl] True \<open>y \<noteq> 0\<close> show ?thesis
      by (simp add: isqrt_loop.simps [of n x y])
  next
    case False
    then have "unat x \<le> (unat x + unat n div unat x) div 2"
      using y by (simp add: word_less_nat_alt)
    with "1.prems" have "floor_root (unat n) (unat x)"
      using newton_stops [of "unat x" "unat n"] by (auto simp: newton_candidate_def floor_root_def)
    with False show ?thesis by (simp add: isqrt_loop.simps [of n x y])
  qed
qed

lemma isqrt_first_guess:
  fixes n :: "'a::len word"
  assumes "n \<noteq> 0" "3 \<le> LENGTH('a)"
  shows "newton_candidate (unat n) (unat (drop_bit 1 n + 1))"
proof -
  have n: "0 < unat n" using assms(1) by (simp add: unat_gt_0)
  note start = newton_candidate_start [OF n]
  have "unat n div 2 + 1 + unat n div (unat n div 2 + 1) < 2 ^ LENGTH('a)"
    using start unat_bound [of n] assms(2) by (rule newton_sum_fits)
  then have "unat (drop_bit 1 n + 1) = unat n div 2 + 1"
    using assms(2) by (simp add: unat_word_ariths unat_drop_bit_eq drop_bit_eq_div)
  with start show ?thesis by simp
qed

lemma isqrt_body_correct:
  fixes n :: "'a::len word"
  assumes "n \<noteq> 0" "3 \<le> LENGTH('a)"
  shows "\<exists>r. obind (u_div n (drop_bit 1 n + 1)) (\<lambda>q. isqrt_loop n (drop_bit 1 n + 1)
      (drop_bit 1 (drop_bit 1 n + 1 + q))) = Ok r \<and> floor_root (unat n) (unat r)"
proof -
  note c = isqrt_first_guess [OF assms]
  then have "drop_bit 1 n + 1 \<noteq> 0" by (metis newton_candidate_def less_irrefl unat_0)
  then show ?thesis using isqrt_loop_correct [OF assms(2) c refl] by (simp add: u_div_def)
qed

lemma isqrt_total: "\<exists>r. isqrt n = Ok r \<and> floor_root (unat n) (unat r)"
  using isqrt_body_correct [of n]
  by (cases "n = 0") (simp_all add: isqrt_def Let_def floor_root_def)

lemma isqrt_u512_total: "\<exists>r. isqrt_u512 n = Ok r \<and> floor_root (unat n) (unat r)"
  using isqrt_body_correct [of n]
  by (cases "n = 0") (simp_all add: isqrt_u512_def Let_def floor_root_def)

lemma isqrt_Ok [outcome_simps]: "isqrt n = Ok r \<longleftrightarrow> floor_root (unat n) (unat r)"
  using isqrt_total [of n] floor_root_unique by (metis outcome.inject(1) word_unat_eq_iff)

lemma isqrt_u512_Ok [outcome_simps]: "isqrt_u512 n = Ok r \<longleftrightarrow> floor_root (unat n) (unat r)"
  using isqrt_u512_total [of n] floor_root_unique by (metis outcome.inject(1) word_unat_eq_iff)

section \<open>Properties\<close>

text \<open>
  The two multiply-divide routines of the crate agree: the 512-bit one of
  \<open>utils/u256.rs\<close> and the Chinese-remainder one of \<open>full_math.rs\<close> succeed on the same inputs
  with the same quotient, and so do their rounding-up variants.
\<close>

theorem mul_div_routines_agree:
  "(u256_mul_div a b d = Ok q \<longleftrightarrow> mul_div a b d = Ok q)
   \<and> (u256_mul_div_ceil a b d = Ok q \<longleftrightarrow> mul_div_rounding_up a b d = Ok q)"
  by (simp add: wide_math.md_Ok full_math.md_Ok wide_math.mdc_Ok full_math.mdc_Ok)

text \<open>
  Both Newton square roots terminate on every input, never divide by zero, and return
  the floor root: the largest \<open>r\<close> with \<open>r * r \<le> n\<close>.
\<close>

theorem isqrt_floor_root:
  "(\<exists>r. isqrt n = Ok r \<and> unat r * unat r \<le> unat n \<and> unat n < (unat r + 1) * (unat r + 1))
   \<and> (\<exists>r. isqrt_u512 m = Ok r \<and> unat r * unat r \<le> unat m \<and> unat m < (unat r + 1) * (unat r + 1))"
  using isqrt_total [of n] isqrt_u512_total [of m] by (auto simp: floor_root_def)

end
