(* ===== verification/Sqrt_Price_Math.thy ===== *)
theory Sqrt_Price_Math
  imports U256_Utils
begin

text \<open>
  \<open>uniswap_v3_math/sqrt_price_math.rs\<close>: the price moves caused by an amount of either token,
  and the amounts between two prices. The leading underscore of \<open>_get_amount_0_delta\<close> and
  \<open>_get_amount_1_delta\<close> is written \<open>u_\<close>. The theory reads each routine as a rounded rational
  formula and shows which way it rounds.
\<close>

section \<open>The routines\<close>

definition MAX_U160 :: u256 where
  "MAX_U160 = 18446744073709551615 + 18446744073709551615 * 2 ^ 64 + 4294967295 * 2 ^ 128"

definition Q96 :: u256 where
  "Q96 = 4294967296 * 2 ^ 64"

definition get_next_sqrt_price_from_amount_0_rounding_up ::
    "u256 \<Rightarrow> u128 \<Rightarrow> u256 \<Rightarrow> bool \<Rightarrow> u256 v3_result" where
  "get_next_sqrt_price_from_amount_0_rounding_up sqrt_price_x_96 liquidity amount add =
     (if amount = 0 then Ok sqrt_price_x_96
      else
        let numerator_1 = push_bit 96 (ucast liquidity) :: u256;
            product = amount * sqrt_price_x_96
        in
        if add then
          (let denominator = numerator_1 + product
           in if product div amount = sqrt_price_x_96 \<and> numerator_1 \<le> denominator
              then mul_div_rounding_up numerator_1 sqrt_price_x_96 denominator
              else obind (u_div numerator_1 sqrt_price_x_96) (\<lambda>q.
                div_rounding_up numerator_1 (q + amount)))
        else if product div amount = sqrt_price_x_96 \<and> product < numerator_1 then
          mul_div_rounding_up numerator_1 sqrt_price_x_96 (numerator_1 - product)
        else Err ProductDivAmount)"

definition get_next_sqrt_price_from_amount_1_rounding_down ::
    "u256 \<Rightarrow> u128 \<Rightarrow> u256 \<Rightarrow> bool \<Rightarrow> u256 v3_result" where
  "get_next_sqrt_price_from_amount_1_rounding_down sqrt_price_x_96 liquidity amount add =
     (let liquidity = ucast liquidity :: u256 in
      if add then
        obind (if amount \<le> MAX_U160 then u_div (push_bit 96 amount) liquidity
               else mul_div amount Q96 liquidity) (\<lambda>quotient.
          let next_sqrt_price = sqrt_price_x_96 + quotient
          in if MAX_U160 < next_sqrt_price then Err SafeCastToU160Overflow
             else Ok next_sqrt_price)
      else
        obind (if amount \<le> MAX_U160 then div_rounding_up (push_bit 96 amount) liquidity
               else mul_div_rounding_up amount Q96 liquidity) (\<lambda>quotient.
          if sqrt_price_x_96 \<le> quotient then Err SqrtPriceIsLteQuotient
          else Ok (sqrt_price_x_96 - quotient)))"

definition get_next_sqrt_price_from_input ::
    "u256 \<Rightarrow> u128 \<Rightarrow> u256 \<Rightarrow> bool \<Rightarrow> u256 v3_result" where
  "get_next_sqrt_price_from_input sqrt_price liquidity amount_in zero_for_one =
     (if sqrt_price = 0 then Err SqrtPriceIsZero
      else if liquidity = 0 then Err LiquidityIsZero
      else if zero_for_one then
        get_next_sqrt_price_from_amount_0_rounding_up sqrt_price liquidity amount_in True
      else
        get_next_sqrt_price_from_amount_1_rounding_down sqrt_price liquidity amount_in True)"

definition get_next_sqrt_price_from_output ::
    "u256 \<Rightarrow> u128 \<Rightarrow> u256 \<Rightarrow> bool \<Rightarrow> u256 v3_result" where
  "get_next_sqrt_price_from_output sqrt_price liquidity amount_out zero_for_one =
     (if sqrt_price = 0 then Err SqrtPriceIsZero
      else if liquidity = 0 then Err LiquidityIsZero
      else if zero_for_one then
        get_next_sqrt_price_from_amount_1_rounding_down sqrt_price liquidity amount_out False
      else
        get_next_sqrt_price_from_amount_0_rounding_up sqrt_price liquidity amount_out False)"

definition u_get_amount_0_delta :: "u256 \<Rightarrow> u256 \<Rightarrow> u128 \<Rightarrow> bool \<Rightarrow> u256 v3_result" where
  "u_get_amount_0_delta sqrt_ratio_a_x_96 sqrt_ratio_b_x_96 liquidity round_up =
     (let (sqrt_ratio_a_x_96, sqrt_ratio_b_x_96) =
            (if sqrt_ratio_b_x_96 < sqrt_ratio_a_x_96
             then (sqrt_ratio_b_x_96, sqrt_ratio_a_x_96)
             else (sqrt_ratio_a_x_96, sqrt_ratio_b_x_96));
          numerator_1 = push_bit 96 (ucast liquidity) :: u256;
          numerator_2 = sqrt_ratio_b_x_96 - sqrt_ratio_a_x_96
      in if sqrt_ratio_a_x_96 = 0 then Err SqrtPriceIsZero
         else if round_up then
           obind (mul_div_rounding_up numerator_1 numerator_2 sqrt_ratio_b_x_96)
             (\<lambda>numerator_partial. div_rounding_up numerator_partial sqrt_ratio_a_x_96)
         else
           obind (mul_div numerator_1 numerator_2 sqrt_ratio_b_x_96)
             (\<lambda>partial. u_div partial sqrt_ratio_a_x_96))"

definition u_get_amount_1_delta :: "u256 \<Rightarrow> u256 \<Rightarrow> u128 \<Rightarrow> bool \<Rightarrow> u256 v3_result" where
  "u_get_amount_1_delta sqrt_ratio_a_x_96 sqrt_ratio_b_x_96 liquidity round_up =
     (let (sqrt_ratio_a_x_96, sqrt_ratio_b_x_96) =
            (if sqrt_ratio_b_x_96 < sqrt_ratio_a_x_96
             then (sqrt_ratio_b_x_96, sqrt_ratio_a_x_96)
             else (sqrt_ratio_a_x_96, sqrt_ratio_b_x_96));
          denominator = 4294967296 * 2 ^ 64
      in if round_up
         then mul_div_rounding_up (ucast liquidity) (sqrt_ratio_b_x_96 - sqrt_ratio_a_x_96) denominator
         else mul_div (ucast liquidity) (sqrt_ratio_b_x_96 - sqrt_ratio_a_x_96) denominator)"

text \<open>
  The signed variants. \<open>-liquidity as u128\<close> is the magnitude of a negative \<open>i128\<close> (also at
  its minimum, where the negation wraps); \<open>I256::from_raw\<close> and the negation are those of the
  256-bit word.
\<close>

definition i128_magnitude :: "i128 \<Rightarrow> u128" where
  "i128_magnitude y = word_of_int (wrap_i128 (- y))"

definition get_amount_0_delta :: "u256 \<Rightarrow> u256 \<Rightarrow> i128 \<Rightarrow> i256 v3_result" where
  "get_amount_0_delta sqrt_ratio_a_x_96 sqrt_ratio_b_x_96 liquidity =
     (if liquidity < 0 then
        obind (u_get_amount_0_delta sqrt_ratio_a_x_96 sqrt_ratio_b_x_96
          (i128_magnitude liquidity) False) (\<lambda>v. Ok (- v))
      else
        u_get_amount_0_delta sqrt_ratio_a_x_96 sqrt_ratio_b_x_96 (word_of_int liquidity) True)"

definition get_amount_1_delta :: "u256 \<Rightarrow> u256 \<Rightarrow> i128 \<Rightarrow> i256 v3_result" where
  "get_amount_1_delta sqrt_ratio_a_x_96 sqrt_ratio_b_x_96 liquidity =
     (if liquidity < 0 then
        obind (u_get_amount_1_delta sqrt_ratio_a_x_96 sqrt_ratio_b_x_96
          (i128_magnitude liquidity) False) (\<lambda>v. Ok (- v))
      else
        u_get_amount_1_delta sqrt_ratio_a_x_96 sqrt_ratio_b_x_96 (word_of_int liquidity) True)"

section \<open>Natural-number readings\<close>

lemma unat_MAX_U160: "unat MAX_U160 = 2 ^ 160 - 1"
  by (simp add: MAX_U160_def power_numeral)

lemma unat_Q96: "unat Q96 = 2 ^ 96"
  by (simp add: Q96_def power_numeral)

lemma delta_denominator: "(4294967296 * 2 ^ 64 :: u256) = Q96"
  by (simp add: Q96_def)

lemma unat_ucast_u128 [simp]: "unat (ucast (l :: u128) :: u256) = unat l"
  using unat_bound [of l]
  by (simp add: unsigned_ucast_eq take_bit_nat_eq_self power_numeral)

lemma unat_shift_96:
  "unat (a :: u256) < 2 ^ 160 \<Longrightarrow> unat (push_bit 96 a) = unat a * 2 ^ 96"
proof -
  assume "unat a < 2 ^ 160"
  then have "unat a * 2 ^ 96 < 2 ^ 160 * 2 ^ 96" by (rule mult_strict_right_mono) simp
  also have "(2 :: nat) ^ 160 * 2 ^ 96 = 2 ^ 256" by (simp add: power_numeral)
  finally have "unat a * 2 ^ 96 < 2 ^ 256" .
  then show ?thesis
    by (simp add: push_bit_eq_mult unat_word_ariths unat_power_of_two)
qed

lemma unat_liquidity_96:
  "unat (push_bit 96 (ucast (l :: u128)) :: u256) = unat l * 2 ^ 96"
proof -
  have "unat l < 2 ^ 128" using unat_bound [of l] by simp
  also have "\<dots> \<le> 2 ^ 160" by (rule power_increasing) simp_all
  finally show ?thesis by (subst unat_shift_96) simp_all
qed

lemma nested_ceil_div:
  assumes "0 < a" "0 < b"
  shows "ceil_div (ceil_div n b) a = ceil_div n (a * b)"
proof (rule antisym)
  show "ceil_div (ceil_div n b) a \<le> ceil_div n (a * b)"
    using assms ceil_div_upper [of "a * b" n] by (simp add: ceil_div_le algebra_simps)
  show "ceil_div n (a * b) \<le> ceil_div (ceil_div n b) a"
    using assms ceil_div_upper [of a "ceil_div n b"] by (simp add: ceil_div_le algebra_simps)
qed

lemma u_get_amount_0_delta_up:
  assumes "a \<le> b" "u_get_amount_0_delta a b l True = Ok v"
  shows "a \<noteq> 0" "unat v = ceil_div (unat l * 2 ^ 96 * (unat b - unat a)) (unat a * unat b)"
proof -
  have "unat (b - a) = unat b - unat a" using assms(1) by (rule unat_sub)
  with assms show "a \<noteq> 0"
    and "unat v = ceil_div (unat l * 2 ^ 96 * (unat b - unat a)) (unat a * unat b)"
    by (auto simp: u_get_amount_0_delta_def Let_def obind_eq_Ok div_rounding_up_Ok
        mul_div_rounding_up_Ok unat_liquidity_96 nested_ceil_div unat_gt_0 split: if_splits)
qed

lemma u_get_amount_0_delta_down:
  assumes "a \<le> b" "u_get_amount_0_delta a b l False = Ok v"
  shows "a \<noteq> 0" "unat v = (unat l * 2 ^ 96 * (unat b - unat a)) div (unat a * unat b)"
proof -
  have "unat (b - a) = unat b - unat a" using assms(1) by (rule unat_sub)
  with assms show "a \<noteq> 0"
    and "unat v = (unat l * 2 ^ 96 * (unat b - unat a)) div (unat a * unat b)"
    by (auto simp: u_get_amount_0_delta_def Let_def obind_eq_Ok u_div_eq_Ok mul_div_Ok
        unat_liquidity_96 unat_div div_mult2_eq [symmetric] mult.commute [of "unat b"]
        split: if_splits)
qed

lemma u_get_amount_1_delta_up:
  assumes "a \<le> b" "u_get_amount_1_delta a b l True = Ok v"
  shows "unat v = ceil_div (unat l * (unat b - unat a)) (2 ^ 96)"
  using assms unat_sub [OF assms(1)]
  by (auto simp: u_get_amount_1_delta_def Let_def mul_div_rounding_up_Ok delta_denominator
      unat_Q96 split: if_splits)

lemma u_get_amount_1_delta_down:
  assumes "a \<le> b" "u_get_amount_1_delta a b l False = Ok v"
  shows "unat v = unat l * (unat b - unat a) div 2 ^ 96"
  using assms unat_sub [OF assms(1)]
  by (auto simp: u_get_amount_1_delta_def Let_def mul_div_Ok delta_denominator
      unat_Q96 split: if_splits)

section \<open>Which way the price moves round\<close>

text \<open>
  Adding \<open>amt\<close> of token 0 moves the price to \<open>N P / (N + amt P)\<close> with \<open>N = L 2^96\<close>. The routine
  rounds up, stays positive and never moves the price up, on its main path and on the path
  taken when the product overflows.
\<close>

lemma main_path_iff:
  fixes amount p :: u256
  assumes "amount \<noteq> 0"
  shows "(amount * p) div amount = p \<longleftrightarrow> unat amount * unat p < 2 ^ 256"
proof
  assume "unat amount * unat p < 2 ^ 256"
  then have "unat (amount * p) = unat amount * unat p" by (simp add: unat_word_ariths)
  then have "unat ((amount * p) div amount) = unat p"
    using assms by (simp add: unat_div unat_eq_zero)
  then show "(amount * p) div amount = p" by (simp only: word_unat_eq_iff)
next
  assume h: "(amount * p) div amount = p"
  have "unat p = unat ((amount * p) div amount)" by (subst h) (rule refl)
  also have "\<dots> = unat (amount * p) div unat amount" by (rule unat_div)
  finally have e: "unat p = unat (amount * p) div unat amount" .
  have "unat amount * unat p \<le> unat (amount * p)"
    by (subst e) (rule times_div_less_eq_dividend)
  with unat_bound_256 [of "amount * p"] show "unat amount * unat p < 2 ^ 256" by linarith
qed

lemma no_wrap_iff:
  fixes x y :: u256
  shows "x \<le> x + y \<longleftrightarrow> unat x + unat y < 2 ^ 256"
  by (simp only: no_olen_add_nat) simp

definition rounded_price_down :: "nat \<Rightarrow> nat \<Rightarrow> nat \<Rightarrow> nat \<Rightarrow> bool" where
  \<comment> \<open>\<open>q\<close> is at least the exact price after adding \<open>A\<close>, positive, and not above \<open>P\<close>\<close>
  "rounded_price_down N P A q \<longleftrightarrow> N * P \<le> q * (N + A * P) \<and> 0 < q \<and> q \<le> P"

lemma price_down_main:
  assumes "0 < N" "0 < P"
  shows "rounded_price_down N P A (ceil_div (N * P) (N + A * P))"
proof -
  have up: "N * P \<le> ceil_div (N * P) (N + A * P) * (N + A * P)"
    using assms by (intro ceil_div_upper) simp
  then have "0 < ceil_div (N * P) (N + A * P)"
    using assms by (metis mult_is_0 not_less neq0_conv)
  then show ?thesis
    using up assms by (simp add: rounded_price_down_def ceil_div_le algebra_simps)
qed

lemma price_down_fallback:
  assumes "0 < N" "0 < P" "0 < A"
  shows "rounded_price_down N P A (ceil_div N (N div P + A))"
proof -
  let ?q = "ceil_div N (N div P + A)"
  have up: "N \<le> ?q * (N div P + A)" using assms by (intro ceil_div_upper) simp
  have "N < P * (N div P + 1)" using dividend_less_times_div [OF assms(2), of N] by simp
  also have "\<dots> \<le> P * (N div P + A)" using assms(3) by (intro mult_le_mono2) simp
  finally have le: "?q \<le> P" using assms by (simp add: ceil_div_le)
  have "N * P \<le> ?q * (N div P + A) * P" using up by simp
  also have "\<dots> = ?q * (N div P * P + A * P)" by (simp add: algebra_simps)
  also have "\<dots> \<le> ?q * (N + A * P)" by (intro mult_le_mono2) simp
  finally have "N * P \<le> ?q * (N + A * P)" .
  moreover have "0 < ?q" using up assms by (metis mult_is_0 not_less neq0_conv)
  ultimately show ?thesis using le by (simp add: rounded_price_down_def)
qed

lemma liquidity_96_bound: "unat (l :: u128) * 2 ^ 96 < 2 ^ 224"
proof -
  have "unat l < 2 ^ 128" using unat_bound [of l] by simp
  then have "unat l * 2 ^ 96 < 2 ^ 128 * 2 ^ 96" by (rule mult_strict_right_mono) simp
  then show ?thesis by (simp add: power_numeral)
qed

lemma next_price_0_add_main:
  assumes p: "p \<noteq> 0" and l: "l \<noteq> 0" and amt: "amt \<noteq> 0"
    and fits: "unat l * 2 ^ 96 + unat amt * unat p < 2 ^ 256"
  shows "get_next_sqrt_price_from_amount_0_rounding_up p l amt True =
    Ok (word_of_nat (ceil_div (unat l * 2 ^ 96 * unat p) (unat l * 2 ^ 96 + unat amt * unat p)))"
proof -
  let ?n = "push_bit 96 (ucast l) :: u256" and ?prod = "amt * p"
  let ?c = "ceil_div (unat l * 2 ^ 96 * unat p) (unat l * 2 ^ 96 + unat amt * unat p)"
  have prod: "unat ?prod = unat amt * unat p" using fits by (simp add: unat_word_ariths)
  have d: "unat (?n + ?prod) = unat l * 2 ^ 96 + unat amt * unat p"
    using fits by (simp only: unat_word_ariths(1) unat_liquidity_96 prod) simp
  have main: "?prod div amt = p \<and> ?n \<le> ?n + ?prod"
    using fits main_path_iff [OF amt, of p] by (simp add: no_wrap_iff unat_liquidity_96 prod)
  have "?c \<le> unat p"
    using price_down_main [of "unat l * 2 ^ 96" "unat p" "unat amt"] p l
    by (simp add: rounded_price_down_def unat_gt_0)
  then have c: "unat (word_of_nat ?c :: u256) = ?c"
    using unat_bound_256 [of p] by (intro unat_word_of_nat) simp
  have "0 < unat (?n + ?prod)" using l by (simp only: d) (simp add: unat_gt_0)
  then have "?n + ?prod \<noteq> 0" by (rule unat_gt_0 [THEN iffD1])
  then have "mul_div_rounding_up ?n p (?n + ?prod) = Ok (word_of_nat ?c)"
    by (simp only: mul_div_rounding_up_Ok c d unat_liquidity_96) simp
  with main amt show ?thesis
    by (simp only: get_next_sqrt_price_from_amount_0_rounding_up_def Let_def if_True if_False simp_thms)
qed

lemma next_price_0_add_fallback:
  assumes p: "p \<noteq> 0" and amt: "amt \<noteq> 0" and small: "unat amt < 2 ^ 255"
    and overflow: "2 ^ 256 \<le> unat l * 2 ^ 96 + unat amt * unat p"
  shows "get_next_sqrt_price_from_amount_0_rounding_up p l amt True =
    Ok (word_of_nat (ceil_div (unat l * 2 ^ 96) (unat l * 2 ^ 96 div unat p + unat amt)))"
proof -
  let ?n = "push_bit 96 (ucast l) :: u256" and ?prod = "amt * p"
  let ?d = "?n div p + amt"
  let ?c = "ceil_div (unat l * 2 ^ 96) (unat l * 2 ^ 96 div unat p + unat amt)"
  have not_main: "\<not> (?prod div amt = p \<and> ?n \<le> ?n + ?prod)"
  proof
    assume h: "?prod div amt = p \<and> ?n \<le> ?n + ?prod"
    then have "unat ?prod = unat amt * unat p"
      using main_path_iff [OF amt, of p] by (simp add: unat_word_ariths)
    with h overflow show False by (simp add: no_wrap_iff unat_liquidity_96)
  qed
  have "unat l * 2 ^ 96 div unat p \<le> unat l * 2 ^ 96" by (rule div_le_dividend)
  moreover have "(2 :: nat) ^ 224 + 2 ^ 255 < 2 ^ 256" by (simp add: power_numeral)
  ultimately have "unat l * 2 ^ 96 div unat p + unat amt < 2 ^ 256"
    using liquidity_96_bound [of l] small by linarith
  then have d: "unat ?d = unat l * 2 ^ 96 div unat p + unat amt"
    by (simp add: unat_word_ariths(1) unat_div unat_liquidity_96)
  have dpos: "0 < unat l * 2 ^ 96 div unat p + unat amt" using amt by (simp add: unat_gt_0)
  then have "?c \<le> unat l * 2 ^ 96" by (rule ceil_div_le_self)
  then have "?c < 2 ^ LENGTH(256)" using liquidity_96_bound [of l] by (simp add: power_numeral)
  then have c: "unat (word_of_nat ?c :: u256) = ?c" by (rule unat_word_of_nat)
  have "?d \<noteq> 0" using dpos d by (metis less_irrefl unat_0)
  then have "div_rounding_up ?n ?d = Ok (word_of_nat ?c)"
    by (simp only: div_rounding_up_Ok c d unat_liquidity_96) simp
  then show ?thesis
    using p amt not_main
    by (simp only: get_next_sqrt_price_from_amount_0_rounding_up_def Let_def if_True if_False
        u_div_def obind.simps)
qed

lemma next_price_0_add:
  assumes p: "p \<noteq> 0" and l: "l \<noteq> 0" and small: "unat amt < 2 ^ 255"
  shows "\<exists>q. get_next_sqrt_price_from_amount_0_rounding_up p l amt True = Ok q
    \<and> rounded_price_down (unat l * 2 ^ 96) (unat p) (unat amt) (unat q)"
proof -
  have pos: "0 < unat p" "0 < unat l * 2 ^ 96" using p l by (simp_all add: unat_gt_0)
  have fits: "unat (word_of_nat c :: u256) = c"
    if "rounded_price_down (unat l * 2 ^ 96) (unat p) (unat amt) c" for c
    using that unat_bound_256 [of p] by (intro unat_word_of_nat) (simp add: rounded_price_down_def)
  consider "amt = 0" | "amt \<noteq> 0" "unat l * 2 ^ 96 + unat amt * unat p < 2 ^ 256"
    | "amt \<noteq> 0" "2 ^ 256 \<le> unat l * 2 ^ 96 + unat amt * unat p" by linarith
  then show ?thesis
  proof cases
    case 1
    then show ?thesis
      using pos by (simp add: get_next_sqrt_price_from_amount_0_rounding_up_def rounded_price_down_def)
  next
    case 2
    with next_price_0_add_main [OF p l 2] fits [OF price_down_main [OF pos(2,1)]]
      price_down_main [OF pos(2,1), of "unat amt"] show ?thesis by metis
  next
    case 3
    then have "0 < unat amt" by (simp add: unat_gt_0)
    from fits [OF price_down_fallback [OF pos(2,1) this]] price_down_fallback [OF pos(2,1) this]
      next_price_0_add_fallback [OF p 3(1) small 3(2)] show ?thesis by metis
  qed
qed

text \<open>Adding \<open>amt\<close> of token 1 moves the price up by the floor of \<open>amt 2^96 / L\<close>.\<close>

lemma quotient_1_Ok:
  "l \<noteq> 0 \<Longrightarrow>
   (if amt \<le> MAX_U160 then u_div (push_bit 96 amt) (ucast l) else mul_div amt Q96 (ucast (l :: u128)))
     = Ok q \<longleftrightarrow> unat q = unat amt * 2 ^ 96 div unat l"
proof -
  assume "l \<noteq> 0"
  then have l: "(ucast l :: u256) \<noteq> 0" by (metis unat_eq_zero unat_ucast_u128)
  have "unat (push_bit 96 amt) = unat amt * 2 ^ 96" if "amt \<le> MAX_U160"
    using that by (intro unat_shift_96) (simp add: word_le_nat_alt unat_MAX_U160 power_numeral)
  then show ?thesis
    using l by (auto simp: u_div_def mul_div_Ok unat_Q96 word_unat_eq_iff unat_div)
qed

lemma next_price_1_add:
  assumes l: "l \<noteq> 0" and fits: "unat p + unat amt * 2 ^ 96 div unat l < 2 ^ 160"
  shows "\<exists>q. get_next_sqrt_price_from_amount_1_rounding_down p l amt True = Ok q
    \<and> unat q = unat p + unat amt * 2 ^ 96 div unat l"
proof -
  let ?quot = "word_of_nat (unat amt * 2 ^ 96 div unat l) :: u256"
  have "(2 :: nat) ^ 160 < 2 ^ 256" by (rule power_strict_increasing) simp_all
  then have lt: "unat p + unat amt * 2 ^ 96 div unat l < 2 ^ 256" using fits by linarith
  then have quot: "unat ?quot = unat amt * 2 ^ 96 div unat l" by (intro unat_word_of_nat) simp
  have sum: "unat (p + ?quot) = unat p + unat amt * 2 ^ 96 div unat l"
    using lt by (simp only: unat_word_ariths(1) quot) simp
  have "\<not> MAX_U160 < p + ?quot"
    using fits by (simp only: word_less_nat_alt sum unat_MAX_U160)
  moreover have "(if amt \<le> MAX_U160 then u_div (push_bit 96 amt) (ucast l)
      else mul_div amt Q96 (ucast l)) = Ok ?quot"
    using quotient_1_Ok [OF l] quot by blast
  ultimately have "get_next_sqrt_price_from_amount_1_rounding_down p l amt True = Ok (p + ?quot)"
    by (simp only: get_next_sqrt_price_from_amount_1_rounding_down_def Let_def if_True if_False
        obind.simps)
  then show ?thesis using sum by blast
qed

lemma next_price_1_add_Ok:
  assumes l: "l \<noteq> 0" and fits: "unat p + unat amt * 2 ^ 96 div unat l < 2 ^ 256"
    and ok: "get_next_sqrt_price_from_amount_1_rounding_down p l amt True = Ok q"
  shows "unat q = unat p + unat amt * 2 ^ 96 div unat l"
proof -
  define Q where "Q = (if amt \<le> MAX_U160 then u_div (push_bit 96 amt) (ucast l)
      else mul_div amt Q96 (ucast l))"
  have "obind Q (\<lambda>w. if MAX_U160 < p + w then Err SafeCastToU160Overflow else Ok (p + w)) = Ok q"
    using ok unfolding get_next_sqrt_price_from_amount_1_rounding_down_def Let_def if_True Q_def .
  then obtain w where "Q = Ok w" and q: "q = p + w"
    by (auto simp only: obind_eq_Ok outcome.simps split: if_splits)
  then have w: "unat w = unat amt * 2 ^ 96 div unat l" unfolding Q_def using quotient_1_Ok [OF l] by blast
  show ?thesis unfolding q using fits by (simp only: unat_word_ariths(1) w) simp
qed

lemma unat_less_sub: "\<not> p \<le> w \<Longrightarrow> unat (p - w :: u256) = unat p - unat w"
  by (simp add: unat_sub)

lemma next_price_1_sub:
  assumes l: "l \<noteq> 0" and ok: "get_next_sqrt_price_from_amount_1_rounding_down p l amt False = Ok q"
  shows "unat q = unat p - ceil_div (unat amt * 2 ^ 96) (unat l)"
    "ceil_div (unat amt * 2 ^ 96) (unat l) < unat p"
proof -
  define Q where "Q = (if amt \<le> MAX_U160 then div_rounding_up (push_bit 96 amt) (ucast l)
      else mul_div_rounding_up amt Q96 (ucast l))"
  have "obind Q (\<lambda>w. if p \<le> w then Err SqrtPriceIsLteQuotient else Ok (p - w)) = Ok q"
    using ok unfolding get_next_sqrt_price_from_amount_1_rounding_down_def Let_def if_False Q_def .
  then obtain w where Q: "Q = Ok w" and q: "q = p - w" "\<not> p \<le> w"
    by (auto simp only: obind_eq_Ok outcome.simps split: if_splits)
  have "unat (push_bit 96 amt) = unat amt * 2 ^ 96" if "amt \<le> MAX_U160"
    using that by (intro unat_shift_96) (simp add: word_le_nat_alt unat_MAX_U160 power_numeral)
  then have w: "unat w = ceil_div (unat amt * 2 ^ 96) (unat l)"
    using Q by (auto simp: Q_def div_rounding_up_Ok mul_div_rounding_up_Ok unat_Q96 split: if_splits)
  show "unat q = unat p - ceil_div (unat amt * 2 ^ 96) (unat l)"
    unfolding q(1) unat_less_sub [OF q(2)] w ..
  show "ceil_div (unat amt * 2 ^ 96) (unat l) < unat p" using q(2) by (simp add: word_le_nat_alt w)
qed

lemma next_price_0_sub:
  assumes amt: "amt \<noteq> 0" and ok: "get_next_sqrt_price_from_amount_0_rounding_up p l amt False = Ok q"
  shows "unat amt * unat p < unat l * 2 ^ 96"
    "unat q = ceil_div (unat l * 2 ^ 96 * unat p) (unat l * 2 ^ 96 - unat amt * unat p)"
proof -
  let ?n = "push_bit 96 (ucast l) :: u256"
  have h: "amt * p div amt = p" "amt * p < ?n" "mul_div_rounding_up ?n p (?n - amt * p) = Ok q"
    using ok amt by (simp_all only: get_next_sqrt_price_from_amount_0_rounding_up_def Let_def if_False outcome.simps split: if_splits)
  have prod: "unat (amt * p) = unat amt * unat p"
    using h(1) main_path_iff [OF amt, of p] by (simp add: unat_word_ariths)
  show lt: "unat amt * unat p < unat l * 2 ^ 96"
    using h(2) by (simp only: word_less_nat_alt prod unat_liquidity_96)
  have "unat (?n - amt * p) = unat l * 2 ^ 96 - unat amt * unat p"
    using h(2) by (simp add: unat_sub less_imp_le prod unat_liquidity_96)
  then show "unat q = ceil_div (unat l * 2 ^ 96 * unat p) (unat l * 2 ^ 96 - unat amt * unat p)"
    using h(3) by (simp add: mul_div_rounding_up_Ok unat_liquidity_96)
qed

section \<open>Properties\<close>

lemma ordered_prices:
  fixes a b :: u256
  shows "(if a < b then (a, b) else (b, a)) = (if b < a then (b, a) else (a, b))"
  by (cases a b rule: linorder_cases) (simp_all add: order_less_not_sym)

lemma u_get_amount_0_delta_sym: "u_get_amount_0_delta a b l r = u_get_amount_0_delta b a l r"
  unfolding u_get_amount_0_delta_def by (subst ordered_prices [of b a]) (rule refl)

lemma u_get_amount_1_delta_sym: "u_get_amount_1_delta a b l r = u_get_amount_1_delta b a l r"
  unfolding u_get_amount_1_delta_def by (subst ordered_prices [of b a]) (rule refl)

lemma delta_up_down:
  assumes "a \<le> b"
  shows "u_get_amount_0_delta a b l True = Ok up \<Longrightarrow> u_get_amount_0_delta a b l False = Ok dn
      \<Longrightarrow> unat dn \<le> unat up \<and> unat up \<le> unat dn + 1"
    and "u_get_amount_1_delta a b l True = Ok up \<Longrightarrow> u_get_amount_1_delta a b l False = Ok dn
      \<Longrightarrow> unat dn \<le> unat up \<and> unat up \<le> unat dn + 1"
proof -
  have "n div d \<le> ceil_div n d \<and> ceil_div n d \<le> n div d + 1" for n d :: nat
    by (simp add: ceil_div_def)
  then show "u_get_amount_0_delta a b l True = Ok up \<Longrightarrow> u_get_amount_0_delta a b l False = Ok dn
      \<Longrightarrow> unat dn \<le> unat up \<and> unat up \<le> unat dn + 1"
    and "u_get_amount_1_delta a b l True = Ok up \<Longrightarrow> u_get_amount_1_delta a b l False = Ok dn
      \<Longrightarrow> unat dn \<le> unat up \<and> unat up \<le> unat dn + 1"
    using assms by (simp_all add: u_get_amount_0_delta_up u_get_amount_0_delta_down
        u_get_amount_1_delta_up u_get_amount_1_delta_down)
qed

text \<open>
  The amounts between two prices do not depend on the order of the prices, and the
  rounded-up amount is the rounded-down one or one more, for both tokens.
\<close>

theorem amount_deltas_round_apart:
  assumes "get = u_get_amount_0_delta \<or> get = u_get_amount_1_delta"
    and "get a b l True = Ok up" and "get b a l False = Ok dn"
  shows "dn \<le> up \<and> unat up \<le> unat dn + 1"
proof -
  have sym: "get b a l r = get a b l r" for r
    using assms(1) u_get_amount_0_delta_sym u_get_amount_1_delta_sym by metis
  have key: "unat dn \<le> unat up \<and> unat up \<le> unat dn + 1"
    if "x \<le> y" "get x y l True = Ok up" "get x y l False = Ok dn" for x y
    using assms(1) that(2,3) delta_up_down [OF that(1), of l up dn] by auto
  have "get b a l True = Ok up" "get a b l False = Ok dn"
    using assms(2,3) by (simp_all only: sym)
  with assms(2,3) key [of a b] key [of b a] show ?thesis
    using linear [of a b] by (auto simp: word_le_nat_alt)
qed

theorem amount_deltas_round_apart_witness:
  "u_get_amount_0_delta (2 ^ 96) (3 * 2 ^ 96) 1000 True = Ok 667
   \<and> u_get_amount_0_delta (3 * 2 ^ 96) (2 ^ 96) 1000 False = Ok 666
   \<and> (666 :: u256) \<le> 667"
proof -
  have up: "u_get_amount_0_delta (2 ^ 96) (3 * 2 ^ 96) 1000 True = Ok 667"
    by (simp add: u_get_amount_0_delta_def div_rounding_up_def u_div_def u_rem_def math_eval)
  have dn: "u_get_amount_0_delta (3 * 2 ^ 96) (2 ^ 96) 1000 False = Ok 666"
    by (simp add: u_get_amount_0_delta_def u_div_def math_eval)
  show ?thesis
    using up dn amount_deltas_round_apart [OF disjI1 [OF refl] up dn] by simp
qed

text \<open>
  Adding an input of token 0 (below \<open>2^255\<close>) to a pool with a price and liquidity always
  succeeds, never raises the price, keeps it positive, and never moves it below the exact price.
\<close>

theorem token0_input_lowers_price:
  assumes "p \<noteq> 0" "l \<noteq> 0" "unat amt < 2 ^ 255"
  shows "\<exists>q. get_next_sqrt_price_from_input p l amt True = Ok q \<and> q \<noteq> 0 \<and> q \<le> p
    \<and> unat l * 2 ^ 96 * unat p \<le> unat q * (unat l * 2 ^ 96 + unat amt * unat p)"
  using next_price_0_add [OF assms] assms(1,2)
  by (auto simp: get_next_sqrt_price_from_input_def rounded_price_down_def word_le_nat_alt)

theorem token0_input_lowers_price_witness:
  "\<exists>q. get_next_sqrt_price_from_input (2 ^ 96) 1000 50 True = Ok q \<and> q \<noteq> 0 \<and> q \<le> 2 ^ 96"
  using token0_input_lowers_price [of "2 ^ 96" 1000 50] by (auto simp: power_numeral)

text \<open>
  The addition of the token 1 input is a wrapping addition: with an input close to
  \<open>2^256\<close> the routine returns a price below the starting price instead of an overflow error.
\<close>

theorem token1_input_wraps:
  "get_next_sqrt_price_from_input (2 ^ 96) (2 ^ 96) (2 ^ 256 - 1) False = Ok (2 ^ 96 - 1)"
  by (simp add: get_next_sqrt_price_from_input_def get_next_sqrt_price_from_amount_1_rounding_down_def
      MAX_U160_def Q96_def Let_def math_eval)

end
