(* ===== verification/Liquidity_Math.thy ===== *)
theory Liquidity_Math
  imports Sqrt_Price_Math
begin

text \<open>
  \<open>uniswap_v3_math/liquidity_math.rs\<close>: the signed liquidity update and the liquidity that an
  amount of either token buys in a price range. The theory shows that the update is exact or
  reports the overflow, and that the liquidity quoted for an amount never needs more than
  that amount.
\<close>

section \<open>The routines\<close>

definition add_delta :: "u128 \<Rightarrow> i128 \<Rightarrow> u128 v3_result" where
  "add_delta x y =
     (if y < 0 then
        (let m = i128_magnitude y in if x < m then Err LiquiditySub else Ok (x - m))
      else
        (let z = x + word_of_int y in if z < x then Err LiquidityAdd else Ok z))"

definition to_u128 :: "u256 \<Rightarrow> u128 eyre_result" where
  "to_u128 ret =
     (if 2 ^ 128 - 1 < ret then Err (Msg ''LIQUIDITY_OVERFLOWN'') else Ok (ucast ret))"

definition get_liquidity_for_amount0 :: "u256 \<Rightarrow> u256 \<Rightarrow> u256 \<Rightarrow> u128 eyre_result" where
  "get_liquidity_for_amount0 sqrt_ratio_a_x_96 sqrt_ratio_b_x_96 amount0 =
     (let (sqrt_ratio_a_x_96, sqrt_ratio_b_x_96) =
            (if sqrt_ratio_b_x_96 < sqrt_ratio_a_x_96
             then (sqrt_ratio_b_x_96, sqrt_ratio_a_x_96)
             else (sqrt_ratio_a_x_96, sqrt_ratio_b_x_96))
      in obind (map_err V3Math (mul_div sqrt_ratio_a_x_96 sqrt_ratio_b_x_96 Q96)) (\<lambda>intermediate.
         obind (map_err V3Math (mul_div amount0 intermediate (sqrt_ratio_b_x_96 - sqrt_ratio_a_x_96)))
           to_u128))"

definition get_liquidity_for_amount1 :: "u256 \<Rightarrow> u256 \<Rightarrow> u256 \<Rightarrow> u128 eyre_result" where
  "get_liquidity_for_amount1 sqrt_ratio_a_x_96 sqrt_ratio_b_x_96 amount1 =
     (let (sqrt_ratio_a_x_96, sqrt_ratio_b_x_96) =
            (if sqrt_ratio_b_x_96 < sqrt_ratio_a_x_96
             then (sqrt_ratio_b_x_96, sqrt_ratio_a_x_96)
             else (sqrt_ratio_a_x_96, sqrt_ratio_b_x_96))
      in obind (map_err V3Math (mul_div amount1 Q96 (sqrt_ratio_b_x_96 - sqrt_ratio_a_x_96)))
           to_u128)"

definition get_liquidity_for_amounts ::
    "u256 \<Rightarrow> u256 \<Rightarrow> u256 \<Rightarrow> u256 \<Rightarrow> u256 \<Rightarrow> u128 eyre_result" where
  "get_liquidity_for_amounts sqrt_ratio_x_96 sqrt_ratio_a_x_96 sqrt_ratio_b_x_96 amount0 amount1 =
     (let (sqrt_ratio_a_x_96, sqrt_ratio_b_x_96) =
            (if sqrt_ratio_b_x_96 < sqrt_ratio_a_x_96
             then (sqrt_ratio_b_x_96, sqrt_ratio_a_x_96)
             else (sqrt_ratio_a_x_96, sqrt_ratio_b_x_96))
      in if sqrt_ratio_x_96 \<le> sqrt_ratio_a_x_96 then
           get_liquidity_for_amount0 sqrt_ratio_a_x_96 sqrt_ratio_b_x_96 amount0
         else if sqrt_ratio_x_96 < sqrt_ratio_b_x_96 then
           obind (get_liquidity_for_amount0 sqrt_ratio_x_96 sqrt_ratio_b_x_96 amount0) (\<lambda>liquidity0.
           obind (get_liquidity_for_amount1 sqrt_ratio_a_x_96 sqrt_ratio_x_96 amount1) (\<lambda>liquidity1.
             Ok (if liquidity0 < liquidity1 then liquidity0 else liquidity1)))
         else get_liquidity_for_amount1 sqrt_ratio_a_x_96 sqrt_ratio_b_x_96 amount1)"

section \<open>The signed update\<close>

lemma unat_i128_magnitude:
  assumes "is_i128 y" "y < 0"
  shows "int (unat (i128_magnitude y)) = - y"
proof -
  have b: "- (2 ^ 127) \<le> y" using assms(1) by (simp add: is_i128_def)
  have "uint (i128_magnitude y) = wrap_i128 (- y) mod 2 ^ 128"
    by (simp add: i128_magnitude_def uint_word_of_int)
  also have "\<dots> = (- y) mod 2 ^ 128"
    unfolding wrap_i128_def by (metis add_diff_cancel_right' mod_diff_left_eq)
  also have "\<dots> = - y" using b assms(2) by (intro mod_pos_pos_trivial) (simp_all add: power_numeral)
  finally show ?thesis by (simp add: uint_nat [symmetric])
qed

lemma add_delta_sub:
  assumes "is_i128 y" "y < 0"
  shows "add_delta x y =
    (if 0 \<le> int (unat x) + y then Ok (word_of_int (int (unat x) + y)) else Err LiquiditySub)"
proof -
  let ?m = "i128_magnitude y"
  note m = unat_i128_magnitude [OF assms]
  have lt: "x < ?m \<longleftrightarrow> int (unat x) + y < 0"
    unfolding word_less_nat_alt using m by linarith
  have "x - ?m = word_of_int (int (unat x) + y)"
    using m by (simp add: word_of_int_minus [symmetric] uint_nat [symmetric] minus_equation_iff)
      (metis add.inverse_inverse of_int_minus word_of_int_uint add.commute uminus_add_conv_diff of_int_add)
  then show ?thesis using assms(2) lt by (simp add: add_delta_def Let_def not_less)
qed

lemma add_delta_add:
  assumes "is_i128 y" "0 \<le> y"
  shows "add_delta x y =
    (if int (unat x) + y < 2 ^ 128 then Ok (word_of_int (int (unat x) + y)) else Err LiquidityAdd)"
proof -
  have "y < 2 ^ 128" using assms(1) by (simp add: is_i128_def power_numeral)
  then have w: "int (unat (word_of_int y :: u128)) = y"
    using assms(2) by (simp add: uint_nat [symmetric] uint_word_of_int)
  have "\<not> x + word_of_int y < x \<longleftrightarrow> unat x + unat (word_of_int y :: u128) < 2 ^ 128"
    by (simp only: linorder_not_less no_olen_add_nat) simp
  also have "\<dots> \<longleftrightarrow> int (unat x + unat (word_of_int y :: u128)) < int (2 ^ 128)"
    by (simp only: of_nat_less_iff)
  finally have lt: "\<not> x + word_of_int y < x \<longleftrightarrow> int (unat x) + y < 2 ^ 128"
    using w by simp
  have "x + word_of_int y = word_of_int (int (unat x) + y)" by simp
  then show ?thesis using assms(2) lt by (auto simp: add_delta_def Let_def)
qed

section \<open>Liquidity bought by an amount\<close>

lemma to_u128_Ok: "to_u128 r = Ok l \<longleftrightarrow> unat l = unat r"
proof -
  have m: "unat (2 ^ 128 - 1 :: u256) = 2 ^ 128 - 1" by (simp add: power_numeral)
  have c: "unat (ucast r :: u128) = unat r mod 2 ^ 128"
    by (simp add: unsigned_ucast_eq take_bit_eq_mod)
  have "unat l < 2 ^ 128" using unat_bound [of l] by simp
  then show ?thesis
    by (auto simp: to_u128_def word_less_nat_alt m word_unat_eq_iff c power_numeral)
qed

lemma liquidity_for_amount1_Ok:
  assumes "a \<le> b" "get_liquidity_for_amount1 a b amt = Ok l"
  shows "a < b" "unat l = unat amt * 2 ^ 96 div (unat b - unat a)"
proof -
  have e: "unat (b - a) = unat b - unat a" using assms(1) by (rule unat_sub)
  from assms have nz: "b - a \<noteq> 0" and l: "unat l = unat amt * 2 ^ 96 div unat (b - a)"
    by (auto simp: get_liquidity_for_amount1_def Let_def obind_eq_Ok map_err_eq_Ok mul_div_Ok
        to_u128_Ok unat_Q96 split: if_splits)
  from nz assms(1) show "a < b" by auto
  from l e show "unat l = unat amt * 2 ^ 96 div (unat b - unat a)" by simp
qed

lemma liquidity_for_amount0_Ok:
  assumes "a \<le> b" "get_liquidity_for_amount0 a b amt = Ok l"
  shows "a < b" "unat l = unat amt * (unat a * unat b div 2 ^ 96) div (unat b - unat a)"
proof -
  have e: "unat (b - a) = unat b - unat a" using assms(1) by (rule unat_sub)
  from assms have nz: "b - a \<noteq> 0"
    and l: "unat l = unat amt * (unat a * unat b div 2 ^ 96) div unat (b - a)"
    by (auto simp: get_liquidity_for_amount0_def Let_def obind_eq_Ok map_err_eq_Ok mul_div_Ok
        to_u128_Ok unat_Q96 split: if_splits)
  from nz assms(1) show "a < b" by auto
  from l e show "unat l = unat amt * (unat a * unat b div 2 ^ 96) div (unat b - unat a)" by simp
qed

lemma liquidity_affordable_0:
  assumes "a \<le> b" "get_liquidity_for_amount0 a b amt = Ok l"
    and "u_get_amount_0_delta a b l True = Ok v"
  shows "v \<le> amt"
proof -
  note l = liquidity_for_amount0_Ok [OF assms(1,2)]
  note v = u_get_amount_0_delta_up [OF assms(1,3)]
  let ?i = "unat a * unat b div 2 ^ 96" and ?w = "unat b - unat a"
  have "unat l * ?w \<le> unat amt * ?i" unfolding l(2) by (rule div_times_less_eq_dividend)
  then have "unat l * ?w * 2 ^ 96 \<le> unat amt * ?i * 2 ^ 96" by simp
  also have "\<dots> = unat amt * (?i * 2 ^ 96)" by (simp only: mult.assoc)
  also have "\<dots> \<le> unat amt * (unat a * unat b)"
    by (intro mult_le_mono2 div_times_less_eq_dividend)
  finally have "unat l * 2 ^ 96 * ?w \<le> unat amt * (unat a * unat b)"
    by (simp only: mult.assoc mult.commute [of _ "2 ^ 96"])
  moreover have "0 < unat a * unat b" using v(1) l(1) by (auto simp: unat_gt_0 word_less_nat_alt)
  ultimately show ?thesis unfolding word_le_nat_alt v(2) by (simp only: ceil_div_le)
qed

lemma liquidity_affordable_1:
  assumes "a \<le> b" "get_liquidity_for_amount1 a b amt = Ok l"
    and "u_get_amount_1_delta a b l True = Ok v"
  shows "v \<le> amt"
proof -
  note l = liquidity_for_amount1_Ok [OF assms(1,2)]
  have "unat l * (unat b - unat a) \<le> unat amt * 2 ^ 96"
    unfolding l(2) by (rule div_times_less_eq_dividend)
  then show ?thesis
    unfolding word_le_nat_alt u_get_amount_1_delta_up [OF assms(1,3)] by (simp add: ceil_div_le)
qed

section \<open>Properties\<close>

text \<open>
  \<open>add_delta\<close> is exact on every \<open>i128\<close> delta, its minimum included: it returns the sum when
  that is a \<open>u128\<close> and otherwise the error of the direction that overflowed.
\<close>

theorem add_delta_exact:
  assumes "is_i128 y"
  shows "add_delta x y =
    (if int (unat x) + y < 0 then Err LiquiditySub
     else if 2 ^ 128 \<le> int (unat x) + y then Err LiquidityAdd
     else Ok (word_of_int (int (unat x) + y)))"
proof -
  have "int (unat x) < 2 ^ 128"
    using uint_bounded [of x] by simp
  moreover have "\<not> int (unat x) + y < 0" if "\<not> y < 0" using that by linarith
  ultimately show ?thesis
    using add_delta_sub [OF assms, of x] add_delta_add [OF assms, of x]
    by (cases "y < 0") auto
qed

theorem add_delta_exact_witness:
  "is_i128 (- 4) \<and> add_delta 3 (- 4) = Err LiquiditySub \<and> add_delta 7 (- 4) = Ok 3"
proof -
  have h: "is_i128 (- 4)" by (simp add: is_i128_def power_numeral)
  show ?thesis using h add_delta_exact [OF h, of 3] add_delta_exact [OF h, of 7]
    by (simp add: power_numeral)
qed

text \<open>
  Liquidity quoted for an amount is affordable: the rounded-up amount of token 0 (token 1)
  that the quoted liquidity occupies between the two prices never exceeds the amount given.
\<close>

theorem liquidity_affordable:
  assumes "a \<le> b"
    and "get_liquidity_for_amount0 a b amt0 = Ok l0" "u_get_amount_0_delta a b l0 True = Ok v0"
    and "get_liquidity_for_amount1 a b amt1 = Ok l1" "u_get_amount_1_delta a b l1 True = Ok v1"
  shows "v0 \<le> amt0 \<and> v1 \<le> amt1"
  using liquidity_affordable_0 [OF assms(1,2,3)] liquidity_affordable_1 [OF assms(1,4,5)] by blast

theorem liquidity_affordable_witness:
  "get_liquidity_for_amount0 (2 ^ 96) (2 * 2 ^ 96) 1000000 = Ok 2000000
   \<and> u_get_amount_0_delta (2 ^ 96) (2 * 2 ^ 96) 2000000 True = Ok 1000000
   \<and> (1000000 :: u256) \<le> 1000000
   \<and> get_liquidity_for_amount1 (2 ^ 96) (2 * 2 ^ 96) 777000 = Ok 777000
   \<and> u_get_amount_1_delta (2 ^ 96) (2 * 2 ^ 96) 777000 True = Ok 777000
   \<and> (777000 :: u256) \<le> 777000"
proof -
  have le: "(2 ^ 96 :: u256) \<le> 2 * 2 ^ 96" by (simp add: power_numeral)
  have l0: "get_liquidity_for_amount0 (2 ^ 96) (2 * 2 ^ 96) 1000000 = Ok 2000000"
    by (simp add: get_liquidity_for_amount0_def Q96_def to_u128_def math_eval)
  have d0: "u_get_amount_0_delta (2 ^ 96) (2 * 2 ^ 96) 2000000 True = Ok 1000000"
    by (simp add: u_get_amount_0_delta_def div_rounding_up_def u_div_def u_rem_def math_eval)
  have l1: "get_liquidity_for_amount1 (2 ^ 96) (2 * 2 ^ 96) 777000 = Ok 777000"
    by (simp add: get_liquidity_for_amount1_def Q96_def to_u128_def math_eval)
  have d1: "u_get_amount_1_delta (2 ^ 96) (2 * 2 ^ 96) 777000 True = Ok 777000"
    by (simp add: u_get_amount_1_delta_def math_eval)
  show ?thesis using l0 d0 l1 d1 liquidity_affordable [OF le l0 d0 l1 d1] by blast
qed

end
