(* ===== verification/Swap_Math.thy ===== *)
theory Swap_Math
  imports Liquidity_Math
begin

text \<open>
  \<open>uniswap_v3_math/swap_math.rs\<close>: one step of a swap inside a price range. The theory proves
  the contract the swap loop relies on for an exact-input step: the price stays between the
  current price and the target, the input plus the fee never exceed what remains, and a step
  that stops short of the target consumes everything.
\<close>

section \<open>The routine\<close>

definition compute_swap_step ::
    "u256 \<Rightarrow> u256 \<Rightarrow> u128 \<Rightarrow> i256 \<Rightarrow> u32 \<Rightarrow> (u256 \<times> u256 \<times> u256 \<times> u256) v3_result" where
  "compute_swap_step sqrt_ratio_current_x_96 sqrt_ratio_target_x_96 liquidity amount_remaining fee_pips =
    (let zero_for_one = sqrt_ratio_target_x_96 \<le> sqrt_ratio_current_x_96;
         exact_in = 0 \<le> sint amount_remaining
     in
     obind
       (if exact_in then
          obind (mul_div amount_remaining (ucast (1000000 - fee_pips)) 1000000) (\<lambda>amount_remaining_less_fee.
          obind
            (if zero_for_one
             then u_get_amount_0_delta sqrt_ratio_target_x_96 sqrt_ratio_current_x_96 liquidity True
             else u_get_amount_1_delta sqrt_ratio_current_x_96 sqrt_ratio_target_x_96 liquidity True)
            (\<lambda>amount_in.
          obind
            (if amount_in \<le> amount_remaining_less_fee then Ok sqrt_ratio_target_x_96
             else get_next_sqrt_price_from_input sqrt_ratio_current_x_96 liquidity
                    amount_remaining_less_fee zero_for_one)
            (\<lambda>sqrt_ratio_next_x_96. Ok (sqrt_ratio_next_x_96, amount_in, 0))))
        else
          obind
            (if zero_for_one
             then u_get_amount_1_delta sqrt_ratio_target_x_96 sqrt_ratio_current_x_96 liquidity False
             else u_get_amount_0_delta sqrt_ratio_current_x_96 sqrt_ratio_target_x_96 liquidity False)
            (\<lambda>amount_out.
          obind
            (if amount_out \<le> - amount_remaining then Ok sqrt_ratio_target_x_96
             else get_next_sqrt_price_from_output sqrt_ratio_current_x_96 liquidity
                    (- amount_remaining) zero_for_one)
            (\<lambda>sqrt_ratio_next_x_96. Ok (sqrt_ratio_next_x_96, 0, amount_out))))
       (\<lambda>(sqrt_ratio_next_x_96, amount_in, amount_out).
          let max = (sqrt_ratio_target_x_96 = sqrt_ratio_next_x_96)
          in
          obind
            (if zero_for_one then
               obind
                 (if \<not> max \<or> \<not> exact_in
                  then u_get_amount_0_delta sqrt_ratio_next_x_96 sqrt_ratio_current_x_96 liquidity True
                  else Ok amount_in) (\<lambda>amount_in.
               obind
                 (if \<not> max \<or> exact_in
                  then u_get_amount_1_delta sqrt_ratio_next_x_96 sqrt_ratio_current_x_96 liquidity False
                  else Ok amount_out) (\<lambda>amount_out. Ok (amount_in, amount_out)))
             else
               obind
                 (if \<not> max \<or> \<not> exact_in
                  then u_get_amount_1_delta sqrt_ratio_current_x_96 sqrt_ratio_next_x_96 liquidity True
                  else Ok amount_in) (\<lambda>amount_in.
               obind
                 (if \<not> max \<or> exact_in
                  then u_get_amount_0_delta sqrt_ratio_current_x_96 sqrt_ratio_next_x_96 liquidity False
                  else Ok amount_out) (\<lambda>amount_out. Ok (amount_in, amount_out))))
            (\<lambda>(amount_in, amount_out).
               let amount_out =
                 (if \<not> exact_in \<and> - amount_remaining < amount_out then - amount_remaining
                  else amount_out)
               in
               if exact_in \<and> sqrt_ratio_next_x_96 \<noteq> sqrt_ratio_target_x_96 then
                 Ok (sqrt_ratio_next_x_96, amount_in, amount_out, amount_remaining - amount_in)
               else
                 obind (mul_div_rounding_up amount_in (ucast fee_pips) (ucast (1000000 - fee_pips)))
                   (\<lambda>fee_amount. Ok (sqrt_ratio_next_x_96, amount_in, amount_out, fee_amount)))))"

section \<open>Fees\<close>

lemma unat_fee_pips_complement:
  assumes "fee < 1000000"
  shows "unat (ucast (1000000 - fee :: u32) :: u256) = 1000000 - unat fee"
    and "unat (ucast fee :: u256) = unat fee"
proof -
  have u: "unat (ucast (w :: u32) :: u256) = unat w" for w
    using unat_bound [of w] by (simp add: unsigned_ucast_eq take_bit_nat_eq_self power_numeral)
  have "unat (1000000 - fee) = 1000000 - unat fee"
    using assms by (subst unat_sub) (simp_all add: less_imp_le)
  then show "unat (ucast (1000000 - fee :: u32) :: u256) = 1000000 - unat fee" by (simp add: u)
  show "unat (ucast fee :: u256) = unat fee" by (rule u)
qed

lemma fee_covered:
  fixes rem amt f M :: nat
  assumes "f < M" "amt \<le> rem * (M - f) div M"
  shows "amt + ceil_div (amt * f) (M - f) \<le> rem"
proof -
  have "amt * M \<le> rem * (M - f)"
    using assms by (simp add: less_eq_div_iff_mult_less_eq)
  moreover have "amt * M = amt * f + amt * (M - f)"
    using assms(1) by (simp add: add_mult_distrib2 [symmetric])
  ultimately have le: "amt * f + amt * (M - f) \<le> rem * (M - f)" by simp
  then have "amt * (M - f) \<le> rem * (M - f)" by linarith
  then have "amt \<le> rem" using assms(1) by simp
  moreover have "amt * f \<le> (rem - amt) * (M - f)" using le by (simp add: diff_mult_distrib)
  then have "ceil_div (amt * f) (M - f) \<le> rem - amt" using assms(1) by (simp add: ceil_div_le)
  ultimately show ?thesis by linarith
qed

section \<open>Exact-input price moves\<close>

text \<open>Token 0 in: what the rounded-up next price implies for the amounts.\<close>

lemma price_down_amount:
  assumes "rounded_price_down N P A q" "0 < N" "0 < P"
  shows "ceil_div (N * (P - q)) (q * P) \<le> A"
proof -
  have q: "N * P \<le> q * (N + A * P)" "0 < q" "q \<le> P"
    using assms(1) by (simp_all add: rounded_price_down_def)
  have "N * (P - q) \<le> A * (q * P)"
    using q(1) by (simp add: diff_mult_distrib2 algebra_simps)
  then show ?thesis using q(2) assms(3) by (simp add: ceil_div_le)
qed

lemma price_down_above_target:
  assumes "rounded_price_down N P A q" "0 < N" "0 < P" "0 < T" "T \<le> P"
    and short: "A < ceil_div (N * (P - T)) (T * P)"
  shows "T < q"
proof (rule ccontr)
  assume "\<not> T < q"
  then have "q \<le> T" by simp
  have "N * P \<le> q * (N + A * P)" using assms(1) by (simp add: rounded_price_down_def)
  also have "\<dots> \<le> T * (N + A * P)" using \<open>q \<le> T\<close> by (rule mult_le_mono1)
  finally have "N * (P - T) \<le> A * (T * P)" by (simp add: diff_mult_distrib2 algebra_simps)
  then have "ceil_div (N * (P - T)) (T * P) \<le> A" using assms(3,4) by (simp add: ceil_div_le)
  with short show False by simp
qed

text \<open>Token 1 in: the same for the floored price increase.\<close>

lemma price_up_amount:
  fixes L A :: nat
  assumes "0 < L"
  shows "ceil_div (L * (A * 2 ^ 96 div L)) (2 ^ 96) \<le> A"
  by (simp add: ceil_div_le)

lemma price_up_below_target:
  fixes L A w :: nat
  assumes "0 < L" and short: "A < ceil_div (L * w) (2 ^ 96)"
  shows "A * 2 ^ 96 div L < w"
proof -
  have "\<not> L * w \<le> A * 2 ^ 96" using short by (simp add: ceil_div_le [symmetric])
  then have "A * 2 ^ 96 < w * L" by (simp add: mult.commute)
  then show ?thesis using assms(1) by (simp add: div_less_iff_less_mult)
qed

section \<open>The exact-input contract\<close>

lemma exact_in_step_eq:
  assumes "0 \<le> sint rem"
  shows "compute_swap_step cur tgt liq rem fee =
    obind (mul_div rem (ucast (1000000 - fee)) 1000000) (\<lambda>lf.
    obind (if tgt \<le> cur then u_get_amount_0_delta tgt cur liq True
      else u_get_amount_1_delta cur tgt liq True) (\<lambda>tin.
    obind (if tin \<le> lf then Ok tgt else get_next_sqrt_price_from_input cur liq lf (tgt \<le> cur)) (\<lambda>nxt.
    obind (if nxt = tgt then Ok tin else if tgt \<le> cur then u_get_amount_0_delta nxt cur liq True
      else u_get_amount_1_delta cur nxt liq True) (\<lambda>ain.
    obind (if tgt \<le> cur then u_get_amount_1_delta nxt cur liq False
      else u_get_amount_0_delta cur nxt liq False) (\<lambda>aout.
    obind (if nxt = tgt then mul_div_rounding_up ain (ucast fee) (ucast (1000000 - fee))
      else Ok (rem - ain)) (\<lambda>fa. Ok (nxt, ain, aout, fa)))))))"
  using assms
  by (simp only: compute_swap_step_def Let_def if_True obind_assoc obind.simps prod.case simp_thms)
   (intro obind_cong refl, simp add: obind_assoc eq_commute cong: obind_cong if_cong)

lemma exact_in_down:
  fixes rem :: i256
  assumes exact: "0 \<le> sint rem" and dir: "tgt \<le> cur"
    and lf: "unat lf = unat rem * c div 1000000"
    and c: "c \<le> 1000000"
    and tin: "u_get_amount_0_delta tgt cur liq True = Ok tin" and short: "\<not> tin \<le> lf"
    and nxt: "get_next_sqrt_price_from_input cur liq lf True = Ok nxt"
    and ain: "u_get_amount_0_delta nxt cur liq True = Ok ain"
  shows "tgt < nxt" "nxt \<le> cur" "unat ain \<le> unat lf"
proof -
  have tin': "tgt \<noteq> 0" "unat tin = ceil_div (unat liq * 2 ^ 96 * (unat cur - unat tgt)) (unat tgt * unat cur)"
    using u_get_amount_0_delta_up [OF dir tin] by blast+
  have "cur \<noteq> 0" "liq \<noteq> 0"
    and step: "get_next_sqrt_price_from_amount_0_rounding_up cur liq lf True = Ok nxt"
    using nxt by (simp_all add: get_next_sqrt_price_from_input_def split: if_splits)
  have "unat lf \<le> unat rem" unfolding lf by (rule scaled_le) (rule c)
  then have small: "unat lf < 2 ^ 255" using sint_nonneg_unat [OF exact] by linarith
  from next_price_0_add [OF \<open>cur \<noteq> 0\<close> \<open>liq \<noteq> 0\<close> small] step
  have down: "rounded_price_down (unat liq * 2 ^ 96) (unat cur) (unat lf) (unat nxt)" by force
  have pos: "0 < unat liq * 2 ^ 96" "0 < unat cur" "0 < unat tgt"
    using \<open>cur \<noteq> 0\<close> \<open>liq \<noteq> 0\<close> tin'(1) by (simp_all add: unat_gt_0)
  show "nxt \<le> cur" using down by (simp add: rounded_price_down_def word_le_nat_alt)
  have "unat lf < unat tin" using short by (simp add: word_le_nat_alt)
  then show "tgt < nxt"
    using price_down_above_target [OF down pos] dir tin'(2) by (simp add: word_le_nat_alt word_less_nat_alt)
  show "unat ain \<le> unat lf"
    using price_down_amount [OF down pos(1,2)] u_get_amount_0_delta_up(2) [OF \<open>nxt \<le> cur\<close> ain] by simp
qed

lemma exact_in_up:
  assumes dir: "\<not> tgt \<le> cur"
    and tin: "u_get_amount_1_delta cur tgt liq True = Ok tin" and short: "\<not> tin \<le> lf"
    and nxt: "get_next_sqrt_price_from_input cur liq lf False = Ok nxt"
    and ain: "u_get_amount_1_delta cur nxt liq True = Ok ain"
  shows "nxt < tgt" "cur \<le> nxt" "unat ain \<le> unat lf"
proof -
  have "cur \<le> tgt" using dir by simp
  have "liq \<noteq> 0"
    and step: "get_next_sqrt_price_from_amount_1_rounding_down cur liq lf True = Ok nxt"
    using nxt by (simp_all add: get_next_sqrt_price_from_input_def split: if_splits)
  have pos: "0 < unat liq" using \<open>liq \<noteq> 0\<close> by (simp add: unat_gt_0)
  have "unat lf < unat tin" using short by (simp add: word_le_nat_alt)
  then have below: "unat lf * 2 ^ 96 div unat liq < unat tgt - unat cur"
    using price_up_below_target [OF pos] u_get_amount_1_delta_up [OF \<open>cur \<le> tgt\<close> tin] by simp
  then have "unat cur + unat lf * 2 ^ 96 div unat liq < unat tgt" by linarith
  moreover from this have "unat nxt = unat cur + unat lf * 2 ^ 96 div unat liq"
    using next_price_1_add_Ok [OF \<open>liq \<noteq> 0\<close> _ step] unat_bound_256 [of tgt] by linarith
  ultimately show "nxt < tgt" "cur \<le> nxt" by (simp_all add: word_less_nat_alt word_le_nat_alt)
  show "unat ain \<le> unat lf"
    using price_up_amount [OF pos, of "unat lf"] u_get_amount_1_delta_up [OF \<open>cur \<le> nxt\<close> ain]
      \<open>unat nxt = _\<close> by simp
qed


lemma exact_in_bounds:
  assumes exact: "0 \<le> sint rem" and fee: "fee < 1000000"
    and ok: "compute_swap_step cur tgt liq rem fee = Ok (nxt, ain, aout, fa)"
  shows "(if tgt \<le> cur then tgt \<le> nxt \<and> nxt \<le> cur else cur \<le> nxt \<and> nxt \<le> tgt)
    \<and> unat ain + unat fa \<le> unat rem
    \<and> (nxt \<noteq> tgt \<longrightarrow> unat ain + unat fa = unat rem)"
proof -
  note f = unat_fee_pips_complement [OF fee]
  obtain lf tin where
    1: "mul_div rem (ucast (1000000 - fee)) 1000000 = Ok lf" and
    2: "(if tgt \<le> cur then u_get_amount_0_delta tgt cur liq True
      else u_get_amount_1_delta cur tgt liq True) = Ok tin" and
    3: "(if tin \<le> lf then Ok tgt else get_next_sqrt_price_from_input cur liq lf (tgt \<le> cur)) = Ok nxt" and
    4: "(if nxt = tgt then Ok tin else if tgt \<le> cur then u_get_amount_0_delta nxt cur liq True
      else u_get_amount_1_delta cur nxt liq True) = Ok ain" and
    5: "(if nxt = tgt then mul_div_rounding_up ain (ucast fee) (ucast (1000000 - fee))
      else Ok (rem - ain)) = Ok fa"
    using ok by (simp only: exact_in_step_eq [OF exact] obind_eq_Ok outcome.inject prod.inject) blast
  have lf: "unat lf = unat rem * (1000000 - unat fee) div 1000000"
    using 1 by (simp add: mul_div_Ok f)
  then have lf_le: "unat lf \<le> unat rem" by (simp add: scaled_le)
  have 6: "(if tgt \<le> cur then u_get_amount_0_delta nxt cur liq True
      else u_get_amount_1_delta cur nxt liq True) = Ok ain"
    using 2 4 by (cases "nxt = tgt") auto
  have move: "(if tgt \<le> cur then tgt < nxt \<and> nxt \<le> cur else nxt < tgt \<and> cur \<le> nxt) \<and> unat ain \<le> unat lf"
    if "\<not> tin \<le> lf"
  proof (cases "tgt \<le> cur")
    case True
    with exact_in_down [OF exact True lf _ _ that] that 2 3 6 show ?thesis by simp
  next
    case False
    with exact_in_up [OF False _ that] that 2 3 6 show ?thesis by simp
  qed
  show ?thesis
  proof (cases "nxt = tgt")
    case True
    have "tin \<le> lf" using move True by (metis less_irrefl)
    then have "unat ain \<le> unat rem * (1000000 - unat fee) div 1000000"
      using 4 True lf by (simp add: word_le_nat_alt)
    moreover have "unat fa = ceil_div (unat ain * unat fee) (1000000 - unat fee)"
      using 5 True by (simp add: mul_div_rounding_up_Ok f)
    ultimately have "unat ain + unat fa \<le> unat rem"
      using fee_covered [of "unat fee" 1000000] fee by (simp add: word_less_nat_alt)
    with True show ?thesis by auto
  next
    case False
    with 3 have "\<not> tin \<le> lf" by auto
    note m = move [OF this]
    then have "unat ain \<le> unat rem" using lf_le by linarith
    moreover have "fa = rem - ain" using 5 False by simp
    ultimately have "unat ain + unat fa = unat rem" by (simp add: unat_sub word_le_nat_alt)
    with m False show ?thesis by auto
  qed
qed

text \<open>
  C1. An exact-input step with a fee below 100 percent leaves the price between the current
  price and the target, never takes more than the amount that remains (input plus fee), and
  takes all of it when it stops before the target.
\<close>

theorem compute_swap_step_exact_in:
  assumes exact: "0 \<le> sint rem" and fee: "fee < 1000000"
    and ok: "compute_swap_step cur tgt liq rem fee = Ok (nxt, ain, aout, fa)"
  shows "(if tgt \<le> cur then tgt \<le> nxt \<and> nxt \<le> cur else cur \<le> nxt \<and> nxt \<le> tgt)
    \<and> unat ain + unat fa \<le> unat rem
    \<and> (nxt \<noteq> tgt \<longrightarrow> unat ain + unat fa = unat rem)"
  using assms by (rule exact_in_bounds)

theorem compute_swap_step_exact_in_witness:
  "let s = compute_swap_step (2 ^ 96) (2 ^ 95) (10 ^ 18) 1000000 3000 in
    s = Ok (79228162514185347115517307545, 997000, 996999, 3000)
    \<and> unat (997000 :: u256) + unat (3000 :: u256) = unat (1000000 :: u256)"
proof -
  have "compute_swap_step (2 ^ 96) (2 ^ 95) (10 ^ 18) 1000000 3000 =
      Ok (79228162514185347115517307545, 997000, 996999, 3000)"
    by (simp add: compute_swap_step_def u_get_amount_0_delta_def u_get_amount_1_delta_def
      div_rounding_up_def u_div_def u_rem_def get_next_sqrt_price_from_input_def
      get_next_sqrt_price_from_amount_0_rounding_up_def Let_def math_eval)
  from compute_swap_step_exact_in [OF _ _ this] this show ?thesis by simp
qed

section \<open>The exact-output contract\<close>

lemma exact_out_step_eq:
  assumes "\<not> 0 \<le> sint rem"
  shows "compute_swap_step cur tgt liq rem fee =
    obind (if tgt \<le> cur then u_get_amount_1_delta tgt cur liq False
      else u_get_amount_0_delta cur tgt liq False) (\<lambda>tout.
    obind (if tout \<le> - rem then Ok tgt else get_next_sqrt_price_from_output cur liq (- rem) (tgt \<le> cur)) (\<lambda>nxt.
    obind (if tgt \<le> cur then u_get_amount_0_delta nxt cur liq True
      else u_get_amount_1_delta cur nxt liq True) (\<lambda>ain.
    obind (if nxt = tgt then Ok tout else if tgt \<le> cur then u_get_amount_1_delta nxt cur liq False
      else u_get_amount_0_delta cur nxt liq False) (\<lambda>aout.
    obind (mul_div_rounding_up ain (ucast fee) (ucast (1000000 - fee))) (\<lambda>fa.
      Ok (nxt, ain, if - rem < aout then - rem else aout, fa))))))"
  using assms
  by (simp only: compute_swap_step_def Let_def if_True if_False obind_assoc obind.simps prod.case simp_thms)
   (intro obind_cong refl, simp add: obind_assoc eq_commute cong: obind_cong if_cong)

lemma exact_out_down:
  assumes dir: "tgt \<le> cur"
    and tout: "u_get_amount_1_delta tgt cur liq False = Ok tout" and short: "\<not> tout \<le> want"
    and nxt: "get_next_sqrt_price_from_output cur liq want True = Ok nxt"
    and aout: "u_get_amount_1_delta nxt cur liq False = Ok aout"
  shows "tgt \<le> nxt" "nxt \<le> cur" "want \<le> aout"
proof -
  have "liq \<noteq> 0" and step: "get_next_sqrt_price_from_amount_1_rounding_down cur liq want False = Ok nxt"
    using nxt by (simp_all add: get_next_sqrt_price_from_output_def split: if_splits)
  note q = next_price_1_sub [OF this]
  have pos: "0 < unat liq" using \<open>liq \<noteq> 0\<close> by (simp add: unat_gt_0)
  show le: "nxt \<le> cur" using q(1) by (simp add: word_le_nat_alt)
  have "unat want < unat liq * (unat cur - unat tgt) div 2 ^ 96"
    using short u_get_amount_1_delta_down [OF dir tout] by (simp add: word_le_nat_alt)
  then have "Suc (unat want) * 2 ^ 96 \<le> unat liq * (unat cur - unat tgt)"
    by (metis Suc_leI less_eq_div_iff_mult_less_eq zero_less_numeral zero_less_power)
  then have "unat want * 2 ^ 96 \<le> (unat cur - unat tgt) * unat liq"  by (simp add: mult.commute)
  then have "ceil_div (unat want * 2 ^ 96) (unat liq) \<le> unat cur - unat tgt"
    using pos by (simp add: ceil_div_le)
  then show "tgt \<le> nxt" using q dir by (simp add: word_le_nat_alt)
  have "unat want * 2 ^ 96 \<le> ceil_div (unat want * 2 ^ 96) (unat liq) * unat liq"
    using pos by (rule ceil_div_upper)
  also have "\<dots> = unat liq * (unat cur - unat nxt)" using q by simp
  finally have "unat want \<le> unat liq * (unat cur - unat nxt) div 2 ^ 96"
    by (simp add: less_eq_div_iff_mult_less_eq)
  then show "want \<le> aout" using u_get_amount_1_delta_down [OF le aout] by (simp add: word_le_nat_alt)
qed

lemma price_up_output:
  fixes N A P q :: nat
  assumes "A * P < N" "0 < P" and q: "q = ceil_div (N * P) (N - A * P)"
  shows "P \<le> q" "A \<le> N * (q - P) div (P * q)"
    "P \<le> T \<Longrightarrow> A < N * (T - P) div (P * T) \<Longrightarrow> q \<le> T"
proof -
  have d: "0 < N - A * P" using assms by simp
  have up: "N * P \<le> q * (N - A * P)" using d unfolding q by (rule ceil_div_upper)
  also have "\<dots> \<le> q * N" by simp
  finally show le: "P \<le> q" using assms by simp
  have "A * P * q \<le> N * q" using assms(1) by (intro mult_le_mono1) simp
  moreover have "N * P \<le> N * q - A * P * q" using up by (simp add: diff_mult_distrib2 mult_ac)
  ultimately have "N * P + A * (P * q) \<le> N * q" unfolding mult.assoc by linarith
  then have "A * (P * q) \<le> N * (q - P)" by (simp add: diff_mult_distrib2)
  then show "A \<le> N * (q - P) div (P * q)" using assms(2) le by (simp add: less_eq_div_iff_mult_less_eq)
  show "q \<le> T" if "P \<le> T" "A < N * (T - P) div (P * T)"
  proof -
    have "A * (P * T) \<le> N * (T - P)"
      using that assms(2) less_eq_div_iff_mult_less_eq [of "P * T" A "N * (T - P)"] by simp
    moreover have "N * P \<le> N * T" using that(1) by (rule mult_le_mono2)
    ultimately have "N * P + A * (P * T) \<le> N * T" unfolding diff_mult_distrib2 by linarith
    then have "N * P \<le> T * (N - A * P)" by (simp add: diff_mult_distrib2 algebra_simps)
    then show ?thesis using d by (simp add: q ceil_div_le)
  qed
qed

lemma exact_out_up:
  assumes dir: "\<not> tgt \<le> cur" and want: "want \<noteq> 0"
    and tout: "u_get_amount_0_delta cur tgt liq False = Ok tout" and short: "\<not> tout \<le> want"
    and nxt: "get_next_sqrt_price_from_output cur liq want False = Ok nxt"
    and aout: "u_get_amount_0_delta cur nxt liq False = Ok aout"
  shows "nxt \<le> tgt" "cur \<le> nxt" "want \<le> aout"
proof -
  have "cur \<le> tgt" using dir by simp
  have "cur \<noteq> 0" and step: "get_next_sqrt_price_from_amount_0_rounding_up cur liq want False = Ok nxt"
    using nxt by (simp_all add: get_next_sqrt_price_from_output_def split: if_splits)
  note q = next_price_0_sub [OF want step]
  have pos: "0 < unat cur" using \<open>cur \<noteq> 0\<close> by (simp add: unat_gt_0)
  note up = price_up_output [OF q(1) pos q(2)]
  show le: "cur \<le> nxt" using up(1) by (simp add: word_le_nat_alt)
  show "want \<le> aout" using up(2) u_get_amount_0_delta_down(2) [OF le aout] by (simp add: word_le_nat_alt)
  have "unat want < unat tout" using short by (simp add: word_le_nat_alt)
  then show "nxt \<le> tgt"
    using up(3) \<open>cur \<le> tgt\<close> u_get_amount_0_delta_down(2) [OF \<open>cur \<le> tgt\<close> tout] by (simp add: word_le_nat_alt)
qed

text \<open>
  An exact-output step leaves the price between the current price and the target, never
  pays out more than was asked for, and pays exactly that when it stops before the target.
\<close>

theorem compute_swap_step_exact_out:
  assumes exact: "\<not> 0 \<le> sint rem"
    and ok: "compute_swap_step cur tgt liq rem fee = Ok (nxt, ain, aout, fa)"
  shows "(if tgt \<le> cur then tgt \<le> nxt \<and> nxt \<le> cur else cur \<le> nxt \<and> nxt \<le> tgt)
    \<and> aout \<le> - rem \<and> (nxt \<noteq> tgt \<longrightarrow> aout = - rem)"
proof -
  have want: "- rem \<noteq> 0" using exact by auto
  obtain tout ao where
    1: "(if tgt \<le> cur then u_get_amount_1_delta tgt cur liq False
      else u_get_amount_0_delta cur tgt liq False) = Ok tout" and
    2: "(if tout \<le> - rem then Ok tgt
      else get_next_sqrt_price_from_output cur liq (- rem) (tgt \<le> cur)) = Ok nxt" and
    3: "(if nxt = tgt then Ok tout else if tgt \<le> cur then u_get_amount_1_delta nxt cur liq False
      else u_get_amount_0_delta cur nxt liq False) = Ok ao" and
    aout: "aout = (if - rem < ao then - rem else ao)"
    using ok by (simp only: exact_out_step_eq [OF exact] obind_eq_Ok outcome.inject prod.inject) blast
  have 4: "(if tgt \<le> cur then u_get_amount_1_delta nxt cur liq False
      else u_get_amount_0_delta cur nxt liq False) = Ok ao"
    using 1 3 by (cases "nxt = tgt") auto
  show ?thesis
  proof (cases "tout \<le> - rem")
    case True
    then show ?thesis using 2 aout by auto
  next
    case False
    have "(if tgt \<le> cur then tgt \<le> nxt \<and> nxt \<le> cur else cur \<le> nxt \<and> nxt \<le> tgt) \<and> - rem \<le> ao"
    proof (cases "tgt \<le> cur")
      case True
      with exact_out_down [OF True _ False] False 1 2 4 show ?thesis by simp
    next
      case False': False
      with exact_out_up [OF False' want _ False] False 1 2 4 show ?thesis by simp
    qed
    then show ?thesis using aout by auto
  qed
qed

theorem compute_swap_step_exact_out_witness:
  "compute_swap_step (2 ^ 96) (2 * 2 ^ 96) (10 ^ 18) (- 5000) 3000
     = Ok (79228162514264733734356521660, 5001, 5000, 16) \<and> \<not> 0 \<le> sint (- 5000 :: i256) \<and> 79228162514264733734356521660 \<le> (2 * 2 ^ 96 :: u256)"
proof -
  have run: "compute_swap_step (2 ^ 96) (2 * 2 ^ 96) (10 ^ 18) (- 5000) 3000 = Ok (79228162514264733734356521660, 5001, 5000, 16)"
    by (simp add: compute_swap_step_def u_get_amount_0_delta_def u_get_amount_1_delta_def
      div_rounding_up_def u_div_def u_rem_def get_next_sqrt_price_from_output_def
      get_next_sqrt_price_from_amount_0_rounding_up_def Let_def math_eval)
  have neg: "\<not> 0 \<le> sint (- 5000 :: i256)" by simp
  show ?thesis using run neg compute_swap_step_exact_out [OF neg run] by (simp add: power_numeral)
qed

end
