(* ===== verification/Tick_Bitmap.thy ===== *)
theory Tick_Bitmap
  imports V3_Common
begin

text \<open>
  \<open>uniswap_v3_math/tick_bitmap.rs\<close> and the trait of \<open>tick_provider.rs\<close>. A provider is the
  function \<open>get_tick\<close> from word positions to words; the bitmap is a map. The theory shows that
  the search returns the nearest initialised tick of the word it looks at, for every provider
  that stores a set of ticks, and that \<open>flip_tick\<close> toggles one tick and nothing else.
\<close>

section \<open>The routines\<close>

unbundle bit_operations_syntax

type_synonym tick_source = "i16 \<Rightarrow> u256 eyre_result" \<comment> \<open>\<open>TickProvider::get_tick\<close>\<close>

definition i32_div :: "i32 \<Rightarrow> i32 \<Rightarrow> (i32, 'e) outcome" where
  "i32_div a b = (if b = 0 \<or> (a = - (2 ^ 31) \<and> b = - 1) then Panic else Ok (quot_i a b))"

definition i32_rem :: "i32 \<Rightarrow> i32 \<Rightarrow> (i32, 'e) outcome" where
  "i32_rem a b = (if b = 0 \<or> (a = - (2 ^ 31) \<and> b = - 1) then Panic else Ok (rem_i a b))"

definition tick_position :: "i32 \<Rightarrow> i16 \<times> u8" where
  "tick_position tick = (wrap_i16 (tick div 2 ^ 8), word_of_int (rem_i tick 256))"

definition flip_tick :: "(i16 \<rightharpoonup> u256) \<Rightarrow> i32 \<Rightarrow> i32 \<Rightarrow> (i16 \<rightharpoonup> u256) v3_result" where
  "flip_tick tick_bitmap tick tick_spacing =
     obind (i32_rem tick tick_spacing) (\<lambda>r.
     if r \<noteq> 0 then Err TickSpacingError
     else
       obind (i32_div tick tick_spacing) (\<lambda>q.
       let (word_pos, bit_pos) = tick_position q;
           mask = push_bit (unat bit_pos) 1;
           word = (case tick_bitmap word_pos of None \<Rightarrow> 0 | Some w \<Rightarrow> w)
       in Ok (tick_bitmap(word_pos \<mapsto> word XOR mask))))"

definition word_or_zero :: "u256 eyre_result \<Rightarrow> u256" where
  \<comment> \<open>\<open>unwrap_or(U256::ZERO)\<close> on the provider's answer\<close>
  "word_or_zero r = (case r of Ok w \<Rightarrow> w | _ \<Rightarrow> 0)"

definition next_initialized_tick_within_one_word ::
    "tick_source \<Rightarrow> i32 \<Rightarrow> i32 \<Rightarrow> bool \<Rightarrow> (i32 \<times> bool) v3_result" where
  "next_initialized_tick_within_one_word get_tick tick tick_spacing lte =
     obind
       (if tick < 0 then
          obind (i32_rem tick tick_spacing) (\<lambda>r.
          obind (i32_div tick tick_spacing) (\<lambda>q. Ok (if r \<noteq> 0 then wrap_i32 (q - 1) else q)))
        else i32_div tick tick_spacing) (\<lambda>compressed.
     if lte then
       (let (word_pos, bit_pos) = tick_position compressed;
            mask = push_bit (unat bit_pos) 1 - 1 + push_bit (unat bit_pos) 1;
            masked = word_or_zero (get_tick word_pos) AND mask;
            initialized = (masked \<noteq> 0)
        in
        obind
          (if initialized then
             obind (most_significant_bit masked) (\<lambda>m.
               Ok (wrap_i32 (wrap_i32 (compressed - int (unat (bit_pos - m))) * tick_spacing)))
           else Ok (wrap_i32 (wrap_i32 (compressed - int (unat bit_pos)) * tick_spacing)))
          (\<lambda>next. Ok (next, initialized)))
     else
       (let (word_pos, bit_pos) = tick_position (wrap_i32 (compressed + 1));
            mask = NOT (push_bit (unat bit_pos) 1 - 1);
            masked = word_or_zero (get_tick word_pos) AND mask;
            initialized = (masked \<noteq> 0)
        in
        obind
          (if initialized then
             obind (least_significant_bit masked) (\<lambda>l.
               Ok (wrap_i32 (wrap_i32 (wrap_i32 (compressed + 1) + int (unat (l - bit_pos))) * tick_spacing)))
           else
             Ok (wrap_i32 (wrap_i32 (wrap_i32 (compressed + 1) + int (unat (255 - bit_pos))) * tick_spacing)))
          (\<lambda>next. Ok (next, initialized))))"

section \<open>Bits of a word\<close>

lemma msb_bits:
  assumes "most_significant_bit x = Ok i"
  shows "bit x (unat i)" "\<And>j. unat i < j \<Longrightarrow> \<not> bit x j"
proof -
  have b: "2 ^ unat i \<le> unat x" "unat x < 2 ^ (unat i + 1)" using msb_of_nat [OF assms] by blast+
  then have "unat x div 2 ^ unat i = 1" by (intro div_nat_eqI) (simp_all add: mult.commute)
  then have "bit (unat x) (unat i)" by (simp add: bit_iff_odd)
  then show "bit x (unat i)" by (simp only: bit_unat)
  show "\<not> bit x j" if "unat i < j" for j
  proof -
    have "(2 :: nat) ^ (unat i + 1) \<le> 2 ^ j" using that by (intro power_increasing) simp_all
    then have "unat x div 2 ^ j = 0" using b(2) by simp
    then have "\<not> bit (unat x) j" by (simp add: bit_iff_odd)
    then show ?thesis unfolding bit_unat .
  qed
qed

lemma lsb_bits:
  assumes "least_significant_bit x = Ok i"
  shows "bit x (unat i)" "\<And>j. j < unat i \<Longrightarrow> \<not> bit x j"
proof -
  obtain m where m: "unat x = 2 ^ unat i * m" "odd m" using lsb_of_nat [OF assms] by blast
  then have "bit (unat x) (unat i)" by (simp add: bit_iff_odd)
  then show "bit x (unat i)" by (simp only: bit_unat)
  show "\<not> bit x j" if "j < unat i" for j
  proof -
    have "(2 :: nat) ^ unat i = 2 ^ j * (2 * 2 ^ (unat i - j - 1))"
      using that by (simp add: power_add [symmetric] flip: power_Suc)
    then have "unat x div 2 ^ j = 2 * 2 ^ (unat i - j - 1) * m" using m(1) by simp
    then have "\<not> bit (unat x) j" by (simp add: bit_iff_odd)
    then show ?thesis unfolding bit_unat .
  qed
qed

lemma bit_low_mask:
  "bit (w AND (push_bit b 1 - 1 + push_bit b 1)) j \<longleftrightarrow> bit (w :: u256) j \<and> j \<le> b"
proof -
  have "push_bit b 1 - 1 + push_bit b 1 = (mask (Suc b) :: u256)"
    by (simp add: mask_eq_exp_minus_1 push_bit_eq_mult)
  then show ?thesis by (auto simp: bit_and_iff bit_mask_iff dest: bit_imp_le_length)
qed

lemma bit_high_mask:
  "bit (w AND NOT (push_bit b 1 - 1)) j \<longleftrightarrow> bit (w :: u256) j \<and> b \<le> j"
proof -
  have "push_bit b 1 - 1 = (mask b :: u256)"
    by (simp add: mask_eq_exp_minus_1 push_bit_eq_mult)
  then show ?thesis
    by (auto simp: bit_and_iff bit_not_iff bit_mask_iff dest: bit_imp_le_length)
qed

lemma msb_total: "x \<noteq> 0 \<Longrightarrow> \<exists>i. most_significant_bit x = Ok i"
  by (simp add: most_significant_bit_def)

lemma lsb_total: "x \<noteq> 0 \<Longrightarrow> \<exists>i. least_significant_bit x = Ok i"
  by (simp add: least_significant_bit_def)

lemma no_bits_iff: "(w :: u256) = 0 \<longleftrightarrow> (\<forall>j. \<not> bit w j)"
  by (metis bit_0_eq bit_eqI bot_apply bot_bool_def)

lemma highest_marked:
  fixes w :: u256
  assumes "w AND (push_bit b 1 - 1 + push_bit b 1) \<noteq> 0"
  obtains m where "most_significant_bit (w AND (push_bit b 1 - 1 + push_bit b 1)) = Ok m"
    "unat m \<le> b" "bit w (unat m)" "\<And>j. unat m < j \<Longrightarrow> j \<le> b \<Longrightarrow> \<not> bit w j"
proof -
  obtain m where m: "most_significant_bit (w AND (push_bit b 1 - 1 + push_bit b 1)) = Ok m"
    using msb_total [OF assms] by blast
  from msb_bits [OF m] m show ?thesis by (intro that) (simp_all only: bit_low_mask, blast+)
qed

lemma lowest_marked:
  fixes w :: u256
  assumes "w AND NOT (push_bit b 1 - 1) \<noteq> 0"
  obtains m where "least_significant_bit (w AND NOT (push_bit b 1 - 1)) = Ok m"
    "b \<le> unat m" "bit w (unat m)" "\<And>j. j < unat m \<Longrightarrow> b \<le> j \<Longrightarrow> \<not> bit w j"
proof -
  obtain m where m: "least_significant_bit (w AND NOT (push_bit b 1 - 1)) = Ok m"
    using lsb_total [OF assms] by blast
  from lsb_bits [OF m] m show ?thesis by (intro that) (simp_all only: bit_high_mask, blast+)
qed

section \<open>Positions and compressed ticks\<close>

definition tick_ok :: "i32 \<Rightarrow> bool" where
  \<comment> \<open>the ticks whose word position fits the \<open>i16\<close> key, with room for one more tick\<close>
  "tick_ok t \<longleftrightarrow> - (2 ^ 23) \<le> t \<and> t < 2 ^ 23 - 1"

definition spacing_ok :: "i32 \<Rightarrow> bool" where
  "spacing_ok s \<longleftrightarrow> 0 < s \<and> s \<le> 2 ^ 20"

lemma wrap_i16_id: "- (2 ^ 15) \<le> x \<Longrightarrow> x < 2 ^ 15 \<Longrightarrow> wrap_i16 x = x"
  by (simp add: wrap_i16_def power_numeral)

lemma quot_i_pos: "0 < b \<Longrightarrow> quot_i a b = (if a < 0 \<and> a mod b \<noteq> 0 then a div b + 1 else a div b)"
proof -
  assume b: "0 < b"
  show ?thesis
  proof (cases "a < 0")
    case True
    have "- (- a div b) = (if a mod b = 0 then a div b else a div b + 1)"
      using b zdiv_zminus1_eq_if [of b a] by simp
    with True b show ?thesis by (simp add: quot_i_def)
  next
    case False
    then show ?thesis using b by (cases "a = 0") (simp_all add: quot_i_def)
  qed
qed

lemma rem_i_pos: "0 < b \<Longrightarrow> rem_i a b = (if a < 0 \<and> a mod b \<noteq> 0 then a mod b - b else a mod b)"
  by (simp add: rem_i_def quot_i_pos algebra_simps minus_mult_div_eq_mod)

lemma tick_position_bit: "unat (snd (tick_position c)) = nat (c mod 256)"
proof -
  have "rem_i c 256 mod 256 = c mod 256" by (simp add: rem_i_pos)
  then have "uint (word_of_int (rem_i c 256) :: u8) = c mod 256"
    by (simp add: uint_word_of_int power_numeral)
  then show ?thesis by (simp add: tick_position_def unat_eq_nat_uint)
qed

lemma tick_position_word:
  "- (2 ^ 23) \<le> c \<Longrightarrow> c < 2 ^ 23 \<Longrightarrow> fst (tick_position c) = c div 256"
  unfolding tick_position_def fst_conv
  by (subst wrap_i16_id) (simp_all add: power_numeral)

lemma div_int_between:
  fixes t :: int
  assumes "0 < s" "lo \<le> t" "t \<le> hi" "lo \<le> 0" "0 \<le> hi"
  shows "lo \<le> t div s" "t div s \<le> hi"
proof -
  have "lo * s \<le> lo" using assms by (simp add: mult_le_cancel_left2)
  then have "lo * s div s \<le> t div s" using assms by (intro zdiv_mono1) simp_all
  then show "lo \<le> t div s" using assms(1) by simp
  have "hi \<le> hi * s" using assms by (simp add: mult_le_cancel_left1)
  then have "t div s \<le> hi * s div s" using assms by (intro zdiv_mono1) simp_all
  then show "t div s \<le> hi" using assms(1) by simp
qed

lemma compressed_range:
  assumes "tick_ok t" "spacing_ok s"
  shows "- (2 ^ 23) \<le> t div s" "t div s < 2 ^ 23 - 1"
  using assms div_int_between [of s "- (2 ^ 23)" t "2 ^ 23 - 2"]
  by (simp_all add: tick_ok_def spacing_ok_def power_numeral)

lemma compressed_floor:
  assumes "tick_ok t" "spacing_ok s"
  shows "(if t < 0 then obind (i32_rem t s) (\<lambda>r. obind (i32_div t s) (\<lambda>q.
      Ok (if r \<noteq> 0 then wrap_i32 (q - 1) else q))) else i32_div t s) = Ok (t div s)"
proof -
  have s: "0 < s" using assms by (simp add: spacing_ok_def)
  have "is_i32 (t div s)"
    using compressed_range [OF assms] by (simp add: is_i32_def power_numeral)
  then show ?thesis
    using s pos_mod_bound [OF s, of t]
    by (auto simp: i32_rem_def i32_div_def rem_i_pos quot_i_pos simp del: pos_mod_bound)
qed

lemma word_range:
  fixes c :: int
  assumes "- (2 ^ 23) \<le> c" "c < 2 ^ 23"
  shows "256 * (c div 256) + 255 < 2 ^ 23" "- (2 ^ 23) \<le> 256 * (c div 256)"
proof -
  have "- (2 ^ 23) div 256 \<le> c div 256" "c div 256 \<le> (2 ^ 23 - 1) div 256"
    using assms by (intro zdiv_mono1; simp)+
  then show "256 * (c div 256) + 255 < 2 ^ 23" "- (2 ^ 23) \<le> 256 * (c div 256)"
    by (simp_all add: power_numeral)
qed

lemma wrap_scaled:
  assumes "spacing_ok s" "- (2 ^ 24) \<le> n" "n < 2 ^ 24" "- (2 ^ 30) \<le> n * s" "n * s < 2 ^ 30"
  shows "wrap_i32 (wrap_i32 n * s) = n * s"
  using assms by (simp add: is_i32_def power_numeral)

text \<open>Multiplying back: the words next to the current tick stay inside \<open>i32\<close>.\<close>

lemma near_product:
  assumes "tick_ok t" "spacing_ok s" "t div s - 256 \<le> n" "n \<le> t div s + 256"
  shows "wrap_i32 (wrap_i32 n * s) = n * s"
proof -
  have s: "0 < s" "s \<le> 2 ^ 20" using assms(2) by (simp_all add: spacing_ok_def)
  have "t div s * s \<le> t" "t - s < t div s * s" 
    using s(1) by (simp_all add: div_mult_mod_eq minus_mod_eq_div_mult [symmetric] pos_mod_bound)
  moreover have "(t div s - 256) * s \<le> n * s" "n * s \<le> (t div s + 256) * s"
    using assms(3,4) s(1) by (simp_all add: mult_right_mono)
  ultimately have "- (2 ^ 30) \<le> n * s \<and> n * s < 2 ^ 30"
    using s(2) assms(1) by (simp add: tick_ok_def power_numeral algebra_simps)
  then show ?thesis
    using assms compressed_range [OF assms(1,2)] by (intro wrap_scaled) (simp_all add: power_numeral)
qed

section \<open>The search\<close>

definition tick_bit :: "tick_source \<Rightarrow> int \<Rightarrow> bool" where
  \<comment> \<open>is the compressed tick marked in the provider?\<close>
  "tick_bit get_tick c = bit (word_or_zero (get_tick (c div 256))) (nat (c mod 256))"

lemma search_left_eq:
  fixes get_tick :: tick_source
  assumes ok: "tick_ok t" "spacing_ok s" and c: "t div s = 256 * wp + int b" "b < 256"
  defines "masked \<equiv> word_or_zero (get_tick wp) AND (push_bit b 1 - 1 + push_bit b 1)"
  shows "masked = 0 \<Longrightarrow>
      next_initialized_tick_within_one_word get_tick t s True = Ok (256 * wp * s, False)"
    and "most_significant_bit masked = Ok m \<Longrightarrow> masked \<noteq> 0 \<Longrightarrow> unat m \<le> b \<Longrightarrow>
      next_initialized_tick_within_one_word get_tick t s True = Ok ((256 * wp + int (unat m)) * s, True)"
proof -
  let ?c = "t div s"
  have r: "- (2 ^ 23) \<le> ?c" "?c < 2 ^ 23" using compressed_range [OF ok] by simp_all
  define bp where "bp = snd (tick_position ?c)"
  have wp: "?c div 256 = wp" "?c mod 256 = int b" using c by simp_all
  then have bp: "unat bp = b" unfolding bp_def tick_position_bit by simp
  have pos: "tick_position ?c = (wp, bp)"
    using tick_position_word [OF r] wp unfolding bp_def by (simp add: prod_eq_iff)
  have m_eq: "masked = word_or_zero (get_tick wp) AND (push_bit (unat bp) 1 - 1 + push_bit (unat bp) 1)"
    unfolding masked_def bp ..
  note unf = next_initialized_tick_within_one_word_def compressed_floor [OF ok] obind.simps if_True
    pos Let_def prod.case m_eq [symmetric]
  have run: "next_initialized_tick_within_one_word get_tick t s True =
    obind (if masked \<noteq> 0 then obind (most_significant_bit masked) (\<lambda>m.
        Ok (wrap_i32 (wrap_i32 (?c - int (unat (bp - m))) * s)))
      else Ok (wrap_i32 (wrap_i32 (?c - int (unat bp)) * s))) (\<lambda>next. Ok (next, masked \<noteq> 0))"
    by (simp only: unf)
  have near: "wrap_i32 (wrap_i32 n * s) = n * s" if "?c - 256 \<le> n" "n \<le> ?c + 256" for n
    using near_product [OF ok] that by blast
  show "next_initialized_tick_within_one_word get_tick t s True = Ok (256 * wp * s, False)"
    if "masked = 0"
    using that near [of "256 * wp"] c by (simp add: run bp)
  show "next_initialized_tick_within_one_word get_tick t s True = Ok ((256 * wp + int (unat m)) * s, True)"
    if "most_significant_bit masked = Ok m" "masked \<noteq> 0" "unat m \<le> b"
  proof -
    have "m \<le> bp" using that(3) bp by (simp add: word_le_nat_alt)
    then have "int (unat (bp - m)) = int b - int (unat m)" using that(3) bp by (simp add: unat_sub of_nat_diff)
    then have e: "?c - int (unat (bp - m)) = 256 * wp + int (unat m)" using c by simp
    have "wrap_i32 (wrap_i32 (256 * wp + int (unat m)) * s) = (256 * wp + int (unat m)) * s"
      using that(3) c by (intro near) linarith+
    then show ?thesis using that(2) unfolding run that(1) obind.simps e by simp
  qed
qed

lemma search_right_eq:
  fixes get_tick :: tick_source
  assumes ok: "tick_ok t" "spacing_ok s" and c: "t div s + 1 = 256 * wp + int b" "b < 256"
  defines "masked \<equiv> word_or_zero (get_tick wp) AND NOT (push_bit b 1 - 1)"
  shows "masked = 0 \<Longrightarrow>
      next_initialized_tick_within_one_word get_tick t s False = Ok ((256 * wp + 255) * s, False)"
    and "least_significant_bit masked = Ok m \<Longrightarrow> masked \<noteq> 0 \<Longrightarrow> b \<le> unat m \<Longrightarrow>
      next_initialized_tick_within_one_word get_tick t s False = Ok ((256 * wp + int (unat m)) * s, True)"
proof -
  let ?c = "t div s"
  have r: "- (2 ^ 23) \<le> ?c + 1" "?c + 1 < 2 ^ 23" using compressed_range [OF ok] by simp_all
  have w1: "wrap_i32 (?c + 1) = ?c + 1" using r by (simp add: is_i32_def power_numeral)
  define bp where "bp = snd (tick_position (?c + 1))"
  have wp: "(?c + 1) div 256 = wp" "(?c + 1) mod 256 = int b" using c by simp_all
  then have bp: "unat bp = b" unfolding bp_def tick_position_bit by simp
  have pos: "tick_position (?c + 1) = (wp, bp)"
    using tick_position_word [OF r] wp unfolding bp_def by (simp add: prod_eq_iff)
  have m_eq: "masked = word_or_zero (get_tick wp) AND NOT (push_bit (unat bp) 1 - 1)"
    unfolding masked_def bp ..
  note unf = next_initialized_tick_within_one_word_def compressed_floor [OF ok] obind.simps if_False
    w1 pos Let_def prod.case m_eq [symmetric]
  have run: "next_initialized_tick_within_one_word get_tick t s False =
    obind (if masked \<noteq> 0 then obind (least_significant_bit masked) (\<lambda>m.
        Ok (wrap_i32 (wrap_i32 (?c + 1 + int (unat (m - bp))) * s)))
      else Ok (wrap_i32 (wrap_i32 (?c + 1 + int (unat (255 - bp))) * s))) (\<lambda>next. Ok (next, masked \<noteq> 0))"
    by (simp only: unf)
  have near: "wrap_i32 (wrap_i32 n * s) = n * s" if "?c - 256 \<le> n" "n \<le> ?c + 256" for n
    using near_product [OF ok] that by blast
  have "bp \<le> 255" using c(2) bp by (simp add: word_le_nat_alt)
  then have "int (unat (255 - bp)) = 255 - int b" using c(2) bp by (simp add: unat_sub of_nat_diff)
  then have last: "?c + 1 + int (unat (255 - bp)) = 256 * wp + 255" using c by simp
  show "next_initialized_tick_within_one_word get_tick t s False = Ok ((256 * wp + 255) * s, False)"
    if "masked = 0"
    using that near [of "256 * wp + 255"] c unfolding run last by simp
  show "next_initialized_tick_within_one_word get_tick t s False = Ok ((256 * wp + int (unat m)) * s, True)"
    if "least_significant_bit masked = Ok m" "masked \<noteq> 0" "b \<le> unat m"
  proof -
    have "bp \<le> m" using that(3) bp by (simp add: word_le_nat_alt)
    then have "int (unat (m - bp)) = int (unat m) - int b" using that(3) bp by (simp add: unat_sub of_nat_diff)
    then have e: "?c + 1 + int (unat (m - bp)) = 256 * wp + int (unat m)" using c by simp
    have "unat m < 256" using unat_bound [of m] by (simp add: power_numeral)
    then have "wrap_i32 (wrap_i32 (256 * wp + int (unat m)) * s) = (256 * wp + int (unat m)) * s"
      using that(3) c by (intro near) linarith+
    then show ?thesis using that(2) unfolding run that(1) obind.simps e by simp
  qed
qed

text \<open>
  The interface of a provider: its words describe a set of compressed ticks. The search is
  proved once for every provider that keeps this law.
\<close>

locale tick_provider =
  fixes get_tick :: tick_source and ticks :: "int set"
  assumes get_tick_mem: "- (2 ^ 23) \<le> c \<Longrightarrow> c < 2 ^ 23 \<Longrightarrow> tick_bit get_tick c \<longleftrightarrow> c \<in> ticks"
begin

lemma word_member:
  assumes "- (2 ^ 23) \<le> 256 * wp + int j" "256 * wp + int j < 2 ^ 23" "j < 256"
  shows "256 * wp + int j \<in> ticks \<longleftrightarrow> bit (word_or_zero (get_tick wp)) j"
  using get_tick_mem [OF assms(1,2)] assms(3) by (simp add: tick_bit_def)

lemma search_left:
  assumes ok: "tick_ok t" "spacing_ok s"
  shows "\<exists>n ini. next_initialized_tick_within_one_word get_tick t s True = Ok (n * s, ini)
    \<and> n \<le> t div s \<and> 256 * (t div s div 256) \<le> n \<and> (ini \<longleftrightarrow> n \<in> ticks)
    \<and> (\<forall>c. n < c \<and> c \<le> t div s \<longrightarrow> c \<notin> ticks)
    \<and> (\<not> ini \<longrightarrow> n = 256 * (t div s div 256))"
proof -
  define wp where "wp = t div s div 256"
  define b where "b = nat (t div s mod 256)"
  have c: "t div s = 256 * wp + int b" "b < 256" by (simp_all add: wp_def b_def)
  have range: "- (2 ^ 23) \<le> 256 * wp" "256 * wp + int b < 2 ^ 23"
    using word_range(2) [of "t div s"] compressed_range [OF ok] c(1) unfolding wp_def by linarith+
  define w where "w = word_or_zero (get_tick wp)"
  let ?masked = "w AND (push_bit b 1 - 1 + push_bit b 1)"
  have mem: "256 * wp + int j \<in> ticks \<longleftrightarrow> bit w j" if "j \<le> b" for j
    using that range c(2) unfolding w_def by (intro word_member) linarith+
  have between: "c' \<notin> ticks" if "256 * wp + int j \<le> c'" "c' \<le> t div s"
    "\<And>i. j \<le> i \<Longrightarrow> i \<le> b \<Longrightarrow> \<not> bit w i" for c' j
  proof -
    have "c' = 256 * wp + int (nat (c' - 256 * wp))" "j \<le> nat (c' - 256 * wp)" "nat (c' - 256 * wp) \<le> b"
      using that(1,2) c(1) by linarith+
    then show ?thesis using mem that(3) by metis
  qed
  show ?thesis unfolding wp_def [symmetric]
  proof (cases "?masked = 0")
    case True
    then have none: "\<not> bit w j" if "j \<le> b" for j
      using that bit_low_mask [of w b j] by simp
    have "c' \<notin> ticks" if "256 * wp \<le> c'" "c' \<le> t div s" for c'
      using between [of 0 c'] none that by simp
    with search_left_eq(1) [OF ok c, where get_tick = get_tick, folded w_def, OF True] c(1)
    show "\<exists>n ini. next_initialized_tick_within_one_word get_tick t s True = Ok (n * s, ini)
      \<and> n \<le> t div s \<and> 256 * wp \<le> n \<and> (ini \<longleftrightarrow> n \<in> ticks)
      \<and> (\<forall>c. n < c \<and> c \<le> t div s \<longrightarrow> c \<notin> ticks) \<and> (\<not> ini \<longrightarrow> n = 256 * wp)"
      by (intro exI [of _ "256 * wp"] exI [of _ False]) auto
  next
    case False
    then obtain m where m: "most_significant_bit ?masked = Ok m" "unat m \<le> b" "bit w (unat m)"
      "\<And>j. unat m < j \<Longrightarrow> j \<le> b \<Longrightarrow> \<not> bit w j" by (rule highest_marked) blast
    have "c' \<notin> ticks" if "256 * wp + int (unat m) < c'" "c' \<le> t div s" for c'
      using between [of "unat m + 1" c'] m(4) that by simp
    with search_left_eq(2) [OF ok c, where get_tick = get_tick, folded w_def, OF m(1) False m(2)] m(2,3) mem [OF m(2)] c(1)
    show "\<exists>n ini. next_initialized_tick_within_one_word get_tick t s True = Ok (n * s, ini)
      \<and> n \<le> t div s \<and> 256 * wp \<le> n \<and> (ini \<longleftrightarrow> n \<in> ticks)
      \<and> (\<forall>c. n < c \<and> c \<le> t div s \<longrightarrow> c \<notin> ticks) \<and> (\<not> ini \<longrightarrow> n = 256 * wp)"
      by (intro exI [of _ "256 * wp + int (unat m)"] exI [of _ True]) (simp del: of_nat_unat)
  qed
qed

lemma search_right:
  assumes ok: "tick_ok t" "spacing_ok s"
  shows "\<exists>n ini. next_initialized_tick_within_one_word get_tick t s False = Ok (n * s, ini)
    \<and> t div s < n \<and> n \<le> 256 * ((t div s + 1) div 256) + 255
    \<and> (ini \<longleftrightarrow> n \<in> ticks)
    \<and> (\<forall>c. t div s < c \<and> c < n \<longrightarrow> c \<notin> ticks)
    \<and> (\<not> ini \<longrightarrow> n = 256 * ((t div s + 1) div 256) + 255)"
proof -
  define c1 where "c1 = t div s + 1"
  define wp where "wp = c1 div 256"
  define b where "b = nat (c1 mod 256)"
  have c: "t div s + 1 = 256 * wp + int b" "b < 256" by (simp_all add: wp_def b_def flip: c1_def)
  have range: "- (2 ^ 23) \<le> 256 * wp" "256 * wp + 255 < 2 ^ 23"
    using word_range [of c1] compressed_range [OF ok] by (simp_all add: wp_def c1_def)
  define w where "w = word_or_zero (get_tick wp)"
  let ?masked = "w AND NOT (push_bit b 1 - 1)"
  have mem: "256 * wp + int j \<in> ticks \<longleftrightarrow> bit w j" if "j < 256" for j
    using that range unfolding w_def by (intro word_member) linarith+
  have between: "c' \<notin> ticks" if "t div s < c'" "c' \<le> 256 * wp + int j" "j < 256"
    "\<And>i. b \<le> i \<Longrightarrow> i \<le> j \<Longrightarrow> \<not> bit w i" for c' j
  proof -
    have "c' = 256 * wp + int (nat (c' - 256 * wp))" "b \<le> nat (c' - 256 * wp)"
      "nat (c' - 256 * wp) \<le> j" "nat (c' - 256 * wp) < 256"
      using that(1,2,3) c by linarith+
    then show ?thesis using mem that(4) by metis
  qed
  show ?thesis unfolding c1_def [symmetric] wp_def [symmetric]
  proof (cases "?masked = 0")
    case True
    then have none: "\<not> bit w j" if "b \<le> j" for j
      using that bit_high_mask [of w b j] by simp
    have "c' \<notin> ticks" if "t div s < c'" "c' \<le> 256 * wp + 255" for c'
      using between [of c' 255] none that by simp
    with search_right_eq(1) [OF ok c, where get_tick = get_tick, folded w_def, OF True] c
    show "\<exists>n ini. next_initialized_tick_within_one_word get_tick t s False = Ok (n * s, ini)
      \<and> t div s < n \<and> n \<le> 256 * wp + 255 \<and> (ini \<longleftrightarrow> n \<in> ticks)
      \<and> (\<forall>c. t div s < c \<and> c < n \<longrightarrow> c \<notin> ticks) \<and> (\<not> ini \<longrightarrow> n = 256 * wp + 255)"
      by (intro exI [of _ "256 * wp + 255"] exI [of _ False]) auto
  next
    case False
    then obtain m where m: "least_significant_bit ?masked = Ok m" "b \<le> unat m" "bit w (unat m)"
      "\<And>j. j < unat m \<Longrightarrow> b \<le> j \<Longrightarrow> \<not> bit w j" by (rule lowest_marked) blast
    have m256: "unat m < 256" using unat_bound [of m] by (simp add: power_numeral)
    have "c' \<notin> ticks" if "t div s < c'" "c' < 256 * wp + int (unat m)" for c'
      using between [of c' "unat m - 1"] m(4) m256 that c(1) by force
    with search_right_eq(2) [OF ok c, where get_tick = get_tick, folded w_def, OF m(1) False m(2)] m(2,3) mem [OF m256] c(1) m256
    show "\<exists>n ini. next_initialized_tick_within_one_word get_tick t s False = Ok (n * s, ini)
      \<and> t div s < n \<and> n \<le> 256 * wp + 255 \<and> (ini \<longleftrightarrow> n \<in> ticks)
      \<and> (\<forall>c. t div s < c \<and> c < n \<longrightarrow> c \<notin> ticks) \<and> (\<not> ini \<longrightarrow> n = 256 * wp + 255)"
      by (intro exI [of _ "256 * wp + int (unat m)"] exI [of _ True]) (simp del: of_nat_unat)
  qed
qed

end

section \<open>Flipping a tick\<close>

definition bitmap_word :: "(i16 \<rightharpoonup> u256) \<Rightarrow> i16 \<Rightarrow> u256" where
  "bitmap_word m wp = (case m wp of None \<Rightarrow> 0 | Some w \<Rightarrow> w)"

definition marked :: "(i16 \<rightharpoonup> u256) \<Rightarrow> int \<Rightarrow> bool" where
  "marked m c \<longleftrightarrow> bit (bitmap_word m (c div 256)) (nat (c mod 256))"

lemma bit_flip: "b < 256 \<Longrightarrow> bit (w XOR 2 ^ b :: u256) j \<longleftrightarrow> (bit w j \<noteq> (j = b))"
  by (auto simp: bit_xor_iff bit_exp_iff dest: bit_imp_le_length)

lemma i32_exact: "0 < s \<Longrightarrow> s dvd t \<Longrightarrow> i32_rem t s = Ok 0 \<and> i32_div t s = Ok (t div s)"
  by (simp add: i32_rem_def i32_div_def rem_i_pos quot_i_pos)

lemma flip_tick_eq:
  assumes ok: "tick_ok t" "spacing_ok s" and "s dvd t"
  defines "wp \<equiv> t div s div 256"
  shows "flip_tick m t s =
    Ok (m(wp \<mapsto> bitmap_word m wp XOR push_bit (nat (t div s mod 256)) 1))"
proof -
  have s: "0 < s" using ok by (simp add: spacing_ok_def)
  have r: "- (2 ^ 23) \<le> t div s" "t div s < 2 ^ 23" using compressed_range [OF ok] by simp_all
  define bp where "bp = snd (tick_position (t div s))"
  have "tick_position (t div s) = (wp, bp)"
    using tick_position_word [OF r] by (simp add: prod_eq_iff wp_def bp_def)
  then show ?thesis
    using tick_position_bit [of "t div s"]
    by (simp add: flip_tick_def i32_exact [OF s \<open>s dvd t\<close>] Let_def bitmap_word_def)
qed

lemma marked_update:
  "marked (m(c div 256 \<mapsto> bitmap_word m (c div 256) XOR push_bit (nat (c mod 256)) 1)) d
    \<longleftrightarrow> (if d = c then \<not> marked m c else marked m d)"
proof (cases "d div 256 = c div 256")
  case True
  then have "d = c \<longleftrightarrow> nat (d mod 256) = nat (c mod 256)"
    by (metis div_mult_mod_eq eq_nat_nat_iff pos_mod_sign zero_less_numeral)
  then show ?thesis
    using True by (auto simp: marked_def bitmap_word_def bit_flip)
next
  case False
  then show ?thesis by (auto simp: marked_def bitmap_word_def)
qed

text \<open>
  On a tick inside the bitmap \<open>flip_tick\<close> toggles that tick and no other, and refuses a
  tick that is not a multiple of the spacing.
\<close>

theorem flip_tick_toggles:
  assumes "tick_ok t" "spacing_ok s"
  shows "if s dvd t
    then \<exists>m'. flip_tick m t s = Ok m'
      \<and> (\<forall>c. marked m' c = (if c = t div s then \<not> marked m c else marked m c))
    else flip_tick m t s = Err TickSpacingError"
proof (cases "s dvd t")
  case True
  with flip_tick_eq [OF assms] marked_update [of m "t div s"] show ?thesis by simp
next
  case False
  have "0 < s" using assms by (simp add: spacing_ok_def)
  moreover have "t mod s \<noteq> 0" using False by (simp add: mod_eq_0_iff_dvd)
  moreover have "t mod s \<noteq> s" using pos_mod_bound [OF \<open>0 < s\<close>, of t] by simp
  ultimately show ?thesis
    using False by (simp add: flip_tick_def i32_rem_def rem_i_pos)
qed

theorem flip_tick_toggles_witness:
  "tick_ok (- 120) \<and> spacing_ok 60 \<and> flip_tick Map.empty (- 61) 60 = Err TickSpacingError
   \<and> (\<exists>m'. flip_tick Map.empty (- 120) 60 = Ok m' \<and> marked m' (- 2) \<and> \<not> marked m' 254)"
proof -
  have ok: "tick_ok (- 120)" "tick_ok (- 61)" "spacing_ok 60"
    by (simp_all add: tick_ok_def spacing_ok_def power_numeral)
  have "\<not> marked Map.empty c" for c by (simp add: marked_def bitmap_word_def)
  then show ?thesis
    using ok flip_tick_toggles [OF ok(1,3), of Map.empty] flip_tick_toggles [OF ok(2,3), of Map.empty]
    by auto
qed

end
