(* ===== verification/V3_Pool.thy ===== *)
theory V3_Pool
  imports Swap_Math Tick_Bitmap Tick_Math
begin

text \<open>
  \<open>simulation/v3.rs\<close>: the swap loop over a pool snapshot. The loop state is a record, one
  iteration is a function that may fail, and the loop is a \<open>while_option\<close>, whose value \<open>None\<close>
  means that the loop runs forever. The theory proves that the loop ends for tick spacings a
  pool can have, what it consumes, where the price goes and which ticks it crosses, and shows a
  snapshot on which it does not end.
\<close>

section \<open>The snapshot and the loop\<close>

record V3Snapshot =
  v3_sqrt_price_x96 :: u256
  v3_liquidity :: u128
  v3_tick :: i32
  v3_fee_bps :: u32
  v3_tick_spacing :: i32
  v3_tick_bitmap :: "i16 \<rightharpoonup> u256"
  v3_tick_net_liquidity :: "i32 \<rightharpoonup> i128"

definition get_tick :: "V3Snapshot \<Rightarrow> tick_source" where
  "get_tick pool word_pos = Ok (case v3_tick_bitmap pool word_pos of None \<Rightarrow> 0 | Some w \<Rightarrow> w)"

record v3_loop =
  l_sqrt_price :: u256
  l_tick :: i32
  l_liquidity :: u128
  l_remaining :: i256
  l_calculated :: i256

definition sqrt_price_limit :: "bool \<Rightarrow> u256" where
  "sqrt_price_limit zero_for_one = (if zero_for_one then MIN_SQRT_RATIO + 1 else MAX_SQRT_RATIO - 1)"

definition loop_guard :: "u256 \<Rightarrow> v3_loop \<Rightarrow> bool" where
  "loop_guard limit st \<longleftrightarrow> l_remaining st \<noteq> 0 \<and> l_sqrt_price st \<noteq> limit"

definition loop_body :: "V3Snapshot \<Rightarrow> u32 \<Rightarrow> u256 \<Rightarrow> bool \<Rightarrow> v3_loop \<Rightarrow> v3_loop eyre_result" where
  "loop_body pool fee_pips limit zero_for_one st =
     obind (map_err V3Math (next_initialized_tick_within_one_word (get_tick pool) (l_tick st)
         (v3_tick_spacing pool) zero_for_one)) (\<lambda>(tick_next_unclamped, initialized).
     let tick_next = max MIN_TICK (min tick_next_unclamped MAX_TICK)
     in
     obind (map_err V3Math (get_sqrt_ratio_at_tick tick_next)) (\<lambda>sqrt_price_next.
     let sqrt_price_target = (if zero_for_one then max sqrt_price_next limit else min sqrt_price_next limit)
     in
     obind (map_err V3Math (compute_swap_step (l_sqrt_price st) sqrt_price_target (l_liquidity st)
         (l_remaining st) fee_pips)) (\<lambda>(next_price, step_amount_in, step_amount_out, step_fee).
     obind (ok_or (checked_add step_amount_in step_fee)
         (Msg ''v3::amount_out: step input overflow'')) (\<lambda>consumed.
     obind (ok_or (i_try_from consumed)
         (Msg ''v3::amount_out: step input exceeds I256'')) (\<lambda>consumed.
     obind (ok_or (i_checked_sub (l_remaining st) consumed)
         (Msg ''v3::amount_out: amount_remaining underflow'')) (\<lambda>remaining.
     obind (ok_or (i_try_from step_amount_out)
         (Msg ''v3::amount_out: step output exceeds I256'')) (\<lambda>out.
     obind (ok_or (i_checked_sub (l_calculated st) out)
         (Msg ''v3::amount_out: amount_calculated underflow'')) (\<lambda>calculated.
     let st' = st\<lparr>l_sqrt_price := next_price, l_remaining := remaining, l_calculated := calculated\<rparr>
     in
     if next_price = sqrt_price_next then
       obind
         (if initialized then
            (let liquidity_net = (case v3_tick_net_liquidity pool tick_next of None \<Rightarrow> 0 | Some n \<Rightarrow> n);
                 liquidity_net = (if zero_for_one then wrap_i128 (- liquidity_net) else liquidity_net)
             in map_err V3Math (add_delta (l_liquidity st) liquidity_net))
          else Ok (l_liquidity st)) (\<lambda>liquidity.
       Ok (st'\<lparr>l_liquidity := liquidity,
               l_tick := (if zero_for_one then wrap_i32 (tick_next - 1) else tick_next)\<rparr>))
     else if next_price \<noteq> l_sqrt_price st then
       obind (map_err V3Math (get_tick_at_sqrt_ratio next_price)) (\<lambda>tick. Ok (st'\<lparr>l_tick := tick\<rparr>))
     else Ok st'))))))))"

definition run_loop :: "('s \<Rightarrow> bool) \<Rightarrow> ('s \<Rightarrow> ('s, 'e) outcome) \<Rightarrow> 's \<Rightarrow> ('s, 'e) outcome option" where
  \<comment> \<open>\<open>while guard { body?; }\<close>: the loop stops at an error\<close>
  "run_loop guard body st =
     while_option (\<lambda>s. case s of Ok st \<Rightarrow> guard st | _ \<Rightarrow> False) (\<lambda>s. obind s body) (Ok st)"

definition loop_start :: "V3Snapshot \<Rightarrow> i256 \<Rightarrow> v3_loop" where
  "loop_start pool amount_specified =
     \<lparr>l_sqrt_price = v3_sqrt_price_x96 pool, l_tick = v3_tick pool, l_liquidity = v3_liquidity pool,
      l_remaining = amount_specified, l_calculated = 0\<rparr>"

definition checked_start :: "V3Snapshot \<Rightarrow> u256 \<Rightarrow> (u32 \<times> v3_loop) eyre_result" where
  \<comment> \<open>the guards both entry points run before the loop\<close>
  "checked_start pool amount_in =
     (if 10000 \<le> v3_fee_bps pool then Err (Msg ''v3::amount_out: fee_bps must be < 10000'')
      else if v3_tick_spacing pool \<le> 0 then Err (Msg ''v3::amount_out: tick_spacing must be positive'')
      else
        obind (ok_or (checked_mul (v3_fee_bps pool) 100)
         (Msg ''v3::amount_out: fee_bps overflow'')) (\<lambda>fee_pips.
        obind (ok_or (i_try_from amount_in)
         (Msg ''v3::amount_out: amount_in exceeds I256 range''))
          (\<lambda>amount_specified. Ok (fee_pips, loop_start pool amount_specified))))"

definition amount_out_with_state ::
    "V3Snapshot \<Rightarrow> u256 \<Rightarrow> bool \<Rightarrow> (u256 \<times> V3Snapshot) eyre_result option" where
  "amount_out_with_state pool amount_in zero_for_one =
     (if amount_in = 0 then Some (Ok (0, pool))
      else case checked_start pool amount_in of
        Err e \<Rightarrow> Some (Err e)
      | Panic \<Rightarrow> Some Panic
      | Ok (fee_pips, st) \<Rightarrow>
          map_option (\<lambda>r. obind r (\<lambda>st.
              Ok (- l_calculated st,
                  pool\<lparr>v3_sqrt_price_x96 := l_sqrt_price st, v3_tick := l_tick st,
                       v3_liquidity := l_liquidity st\<rparr>)))
            (run_loop (loop_guard (sqrt_price_limit zero_for_one))
              (loop_body pool fee_pips (sqrt_price_limit zero_for_one) zero_for_one) st))"

definition v3_amount_out :: "V3Snapshot \<Rightarrow> u256 \<Rightarrow> bool \<Rightarrow> u256 eyre_result option" where
  "v3_amount_out pool amount_in zero_for_one =
     (if amount_in = 0 then Some (Err (Msg ''v3::amount_out: amount_in is zero''))
      else case checked_start pool amount_in of
        Err e \<Rightarrow> Some (Err e)
      | Panic \<Rightarrow> Some Panic
      | Ok (fee_pips, st) \<Rightarrow>
          map_option (\<lambda>r. obind r (\<lambda>st. Ok (- l_calculated st)))
            (run_loop (loop_guard (sqrt_price_limit zero_for_one))
              (loop_body pool fee_pips (sqrt_price_limit zero_for_one) zero_for_one) st))"

section \<open>The snapshot as a tick provider\<close>

lemma tick_bit_snapshot: "tick_bit (get_tick pool) c = marked (v3_tick_bitmap pool) c"
  by (simp add: tick_bit_def get_tick_def word_or_zero_def marked_def bitmap_word_def)

interpretation snapshot: tick_provider "get_tick pool" "{c. marked (v3_tick_bitmap pool) c}" for pool
  by unfold_locales (simp add: tick_bit_snapshot)

section \<open>One iteration\<close>

lemma i_try_from_Some: "i_try_from a = Some b \<longleftrightarrow> b = a \<and> unat a < 2 ^ 255"
  by (auto simp: i_try_from_def)

lemma i_checked_sub_Some:
  "i_checked_sub a b = Some c \<Longrightarrow> sint c = sint a - sint b"
  by (auto simp: i_checked_sub_def Let_def sint_word_ariths signed_take_bit_int_eq_self split: if_splits)

definition clamp_tick :: "i32 \<Rightarrow> i32" where
  "clamp_tick t = max MIN_TICK (min t MAX_TICK)"

definition crossing :: "V3Snapshot \<Rightarrow> bool \<Rightarrow> u128 \<Rightarrow> bool \<Rightarrow> i32 \<Rightarrow> u128 v3_result" where
  \<comment> \<open>the liquidity after reaching the next tick\<close>
  "crossing pool zero_for_one liq initialized tick_next =
     (if initialized then
        (let liquidity_net = (case v3_tick_net_liquidity pool tick_next of None \<Rightarrow> 0 | Some n \<Rightarrow> n)
         in add_delta liq (if zero_for_one then wrap_i128 (- liquidity_net) else liquidity_net))
      else Ok liq)"

lemma loop_body_Ok:
  assumes "loop_body pool fee limit z st = Ok st'"
  obtains tn ini pn ain aout fa where
    "next_initialized_tick_within_one_word (get_tick pool) (l_tick st) (v3_tick_spacing pool) z = Ok (tn, ini)"
    "get_sqrt_ratio_at_tick (clamp_tick tn) = Ok pn"
    "compute_swap_step (l_sqrt_price st) (if z then max pn limit else min pn limit) (l_liquidity st)
       (l_remaining st) fee = Ok (l_sqrt_price st', ain, aout, fa)"
    "sint (l_remaining st') = sint (l_remaining st) - int (unat ain + unat fa)"
    "sint (l_calculated st') = sint (l_calculated st) - int (unat aout)"
    "l_sqrt_price st' = pn \<longrightarrow>
       crossing pool z (l_liquidity st) ini (clamp_tick tn) = Ok (l_liquidity st')
       \<and> l_tick st' = (if z then wrap_i32 (clamp_tick tn - 1) else clamp_tick tn)"
    "l_sqrt_price st' \<noteq> pn \<longrightarrow> l_liquidity st' = l_liquidity st"
proof -
  from assms obtain tn ini where
    a: "next_initialized_tick_within_one_word (get_tick pool) (l_tick st) (v3_tick_spacing pool) z = Ok (tn, ini)"
    by (auto simp only: loop_body_def obind_eq_Ok map_err_eq_Ok)
  from assms obtain pn where b: "get_sqrt_ratio_at_tick (clamp_tick tn) = Ok pn"
    by (auto simp: loop_body_def a clamp_tick_def Let_def obind_eq_Ok map_err_eq_Ok)
  from assms obtain np ain aout fa where
    c: "compute_swap_step (l_sqrt_price st) (if z then max pn limit else min pn limit) (l_liquidity st)
       (l_remaining st) fee = Ok (np, ain, aout, fa)"
    by (auto simp: loop_body_def a b [unfolded clamp_tick_def] Let_def obind_eq_Ok map_err_eq_Ok)
  note step = assms [unfolded loop_body_def a map_err.simps obind.simps prod.case Let_def
      b [unfolded clamp_tick_def] c]
  from step obtain consumed remaining calculated where
    d: "checked_add ain fa = Some consumed" "unat consumed < 2 ^ 255"
      "i_checked_sub (l_remaining st) consumed = Some remaining"
      "unat aout < 2 ^ 255" "i_checked_sub (l_calculated st) aout = Some calculated"
    by (auto simp only: obind_eq_Ok ok_or_eq_Ok i_try_from_Some)
  have e: "sint remaining = sint (l_remaining st) - int (unat ain + unat fa)"
    using i_checked_sub_Some [OF d(3)] sint_small [OF d(2)] d(1) [unfolded checked_add_Some] by linarith
  have f: "sint calculated = sint (l_calculated st) - int (unat aout)"
    using i_checked_sub_Some [OF d(5)] sint_small [OF d(4)] by simp
  have conv: "i_try_from consumed = Some consumed" "i_try_from aout = Some aout"
    using d by (simp_all add: i_try_from_Some)
  note st' = step [unfolded d conv ok_or_simps obind.simps]
  have "l_sqrt_price st' = np" "l_remaining st' = remaining" "l_calculated st' = calculated"
    "np = pn \<longrightarrow> crossing pool z (l_liquidity st) ini (clamp_tick tn) = Ok (l_liquidity st')
       \<and> l_tick st' = (if z then wrap_i32 (clamp_tick tn - 1) else clamp_tick tn)"
    "np \<noteq> pn \<longrightarrow> l_liquidity st' = l_liquidity st"
    using st' unfolding crossing_def clamp_tick_def Let_def
    by (auto simp: obind_eq_Ok map_err_eq_Ok split: if_splits)
  with a b c e f that show ?thesis by metis
qed

section \<open>Progress\<close>

text \<open>
  The state in front of an iteration that will run: the tick is one the bitmap can hold and
  the remaining amount is not negative.
\<close>

definition loop_ok :: "v3_loop \<Rightarrow> bool" where
  "loop_ok st \<longleftrightarrow> tick_ok (l_tick st) \<and> 0 \<le> sint (l_remaining st)"

lemma sint_zero_iff: "sint (w :: i256) = 0 \<longleftrightarrow> w = 0"
  by (metis signed_0 signed_word_eqI)

lemma limit_unat:
  "unat (sqrt_price_limit True) = 4295128740"
  "unat (sqrt_price_limit False) = 1461446703485210103287273052203988822378723970341"
  by (simp_all add: sqrt_price_limit_def MIN_SQRT_RATIO_def MAX_SQRT_RATIO_def from_limbs_def power_numeral)

lemma iteration_consumes:
  assumes "loop_body pool fee limit z st = Ok st'" "0 \<le> sint (l_remaining st)" "fee < 1000000"
  shows "0 \<le> sint (l_remaining st')" "sint (l_remaining st') \<le> sint (l_remaining st)"
proof -
  obtain tn ini pn ain aout fa where
    step: "compute_swap_step (l_sqrt_price st) (if z then max pn limit else min pn limit) (l_liquidity st)
       (l_remaining st) fee = Ok (l_sqrt_price st', ain, aout, fa)"
    and rem: "sint (l_remaining st') = sint (l_remaining st) - int (unat ain + unat fa)"
    using assms(1) by (elim loop_body_Ok)
  have "unat ain + unat fa \<le> unat (l_remaining st)"
    using exact_in_bounds [OF assms(2,3) step] by blast
  moreover have "sint (l_remaining st) = int (unat (l_remaining st))"
    using sint_nonneg_unat [OF assms(2)] by (rule sint_small)
  ultimately show "0 \<le> sint (l_remaining st')" "sint (l_remaining st') \<le> sint (l_remaining st)"
    using rem by linarith+
qed

text \<open>An iteration after which the loop goes on has reached the next tick.\<close>

lemma iteration_crosses:
  assumes body: "loop_body pool fee limit z st = Ok st'" and ok: "0 \<le> sint (l_remaining st)" "fee < 1000000"
    and on: "loop_guard limit st'"
  obtains tn ini where
    "next_initialized_tick_within_one_word (get_tick pool) (l_tick st) (v3_tick_spacing pool) z = Ok (tn, ini)"
    "get_sqrt_ratio_at_tick (clamp_tick tn) = Ok (l_sqrt_price st')"
    "if z then limit < l_sqrt_price st' else l_sqrt_price st' < limit"
    "crossing pool z (l_liquidity st) ini (clamp_tick tn) = Ok (l_liquidity st')"
    "l_tick st' = (if z then wrap_i32 (clamp_tick tn - 1) else clamp_tick tn)"
proof -
  obtain tn ini pn ain aout fa where
    a: "next_initialized_tick_within_one_word (get_tick pool) (l_tick st) (v3_tick_spacing pool) z = Ok (tn, ini)"
    and b: "get_sqrt_ratio_at_tick (clamp_tick tn) = Ok pn"
    and step: "compute_swap_step (l_sqrt_price st) (if z then max pn limit else min pn limit) (l_liquidity st)
       (l_remaining st) fee = Ok (l_sqrt_price st', ain, aout, fa)"
    and rem: "sint (l_remaining st') = sint (l_remaining st) - int (unat ain + unat fa)"
    and cr: "l_sqrt_price st' = pn \<longrightarrow>
       crossing pool z (l_liquidity st) ini (clamp_tick tn) = Ok (l_liquidity st')
       \<and> l_tick st' = (if z then wrap_i32 (clamp_tick tn - 1) else clamp_tick tn)"
    using body by (elim loop_body_Ok)
  have nz: "l_remaining st' \<noteq> 0" and lim: "l_sqrt_price st' \<noteq> limit" using on by (simp_all add: loop_guard_def)
  have r: "sint (l_remaining st) = int (unat (l_remaining st))"
    using sint_nonneg_unat [OF ok(1)] by (rule sint_small)
  have "l_sqrt_price st' = (if z then max pn limit else min pn limit)"
  proof (rule ccontr)
    assume "l_sqrt_price st' \<noteq> (if z then max pn limit else min pn limit)"
    then have "unat ain + unat fa = unat (l_remaining st)" using exact_in_bounds [OF ok step] by blast
    then have "sint (l_remaining st') = 0" using rem r by simp
    with nz show False by (simp add: sint_zero_iff)
  qed
  then have "l_sqrt_price st' = pn" "if z then limit < pn else pn < limit"
    using lim by (auto simp: max_def min_def split: if_splits)
  with a b cr that show ?thesis by metis
qed

section \<open>Rules for the loop\<close>

lemma run_loop_unfold:
  "run_loop guard body st =
    (if guard st then case body st of Ok st' \<Rightarrow> run_loop guard body st' | Err e \<Rightarrow> Some (Err e) | Panic \<Rightarrow> Some Panic
     else Some (Ok st))"
  unfolding run_loop_def
  by (subst while_option_unfold) (cases "body st"; simp add: while_option_unfold)

lemma run_loop_terminates:
  fixes m :: "'s \<Rightarrow> nat" and body :: "'s \<Rightarrow> ('s, 'e) outcome"
  assumes "P st"
    and step: "\<And>s s'. P s \<Longrightarrow> guard s \<Longrightarrow> body s = Ok s' \<Longrightarrow> guard s' \<Longrightarrow> P s' \<and> m s' < m s"
  shows "\<exists>r. run_loop guard body st = Some r"
proof -
  let ?b = "\<lambda>s :: ('s, 'e) outcome. case s of Ok st \<Rightarrow> guard st | _ \<Rightarrow> False"
  let ?P = "\<lambda>s :: ('s, 'e) outcome. \<forall>st. s = Ok st \<and> guard st \<longrightarrow> P st"
  let ?f = "\<lambda>s :: ('s, 'e) outcome. case s of Ok st \<Rightarrow> if guard st then Suc (m st) else 0 | _ \<Rightarrow> 0"
  have "\<exists>t. while_option ?b (\<lambda>s. obind s body) (Ok st) = Some t"
  proof (rule measure_while_option_Some [where P = ?P and f = ?f])
    fix s
    assume P: "?P s" and "?b s"
    then obtain x where x: "s = Ok x" "guard x" by (cases s) auto
    have "P y \<and> m y < m x" if "body x = Ok y" "guard y" for y
      using step [OF _ x(2) that] P x by blast
    with x show "?P (obind s body) \<and> ?f (obind s body) < ?f s"
      by (cases "body x") auto
  qed (use assms(1) in simp)
  then show ?thesis by (simp add: run_loop_def)
qed

lemma run_loop_invariant:
  fixes body :: "'s \<Rightarrow> ('s, 'e) outcome"
  assumes run: "run_loop guard body st = Some (Ok st')" and "P st"
    and step: "\<And>s s'. P s \<Longrightarrow> guard s \<Longrightarrow> body s = Ok s' \<Longrightarrow> P s'"
  shows "P st'" "\<not> guard st'"
proof -
  let ?b = "\<lambda>s :: ('s, 'e) outcome. case s of Ok st \<Rightarrow> guard st | _ \<Rightarrow> False"
  have w: "while_option ?b (\<lambda>s. obind s body) (Ok st) = Some (Ok st')"
    using run by (simp add: run_loop_def)
  from while_option_stop [OF w] show "\<not> guard st'" by simp
  have "\<forall>x. (Ok st' :: ('s, 'e) outcome) = Ok x \<longrightarrow> P x"
  proof (rule while_option_rule [where P = "\<lambda>s. \<forall>x. s = Ok x \<longrightarrow> P x", OF _ w])
    fix s :: "('s, 'e) outcome"
    assume P: "\<forall>x. s = Ok x \<longrightarrow> P x" and "?b s"
    then obtain x where "s = Ok x" "guard x" by (cases s) auto
    with P step [of x] show "\<forall>x. obind s body = Ok x \<longrightarrow> P x" by auto
  qed (use \<open>P st\<close> in simp)
  then show "P st'" by simp
qed

lemma run_loop_diverges:
  fixes body :: "'s \<Rightarrow> ('s, 'e) outcome"
  assumes "st \<in> C" and cycle: "\<And>s. s \<in> C \<Longrightarrow> guard s \<and> (\<exists>s'\<in>C. body s = Ok s')"
  shows "run_loop guard body st = None"
proof (rule ccontr)
  let ?b = "\<lambda>s :: ('s, 'e) outcome. case s of Ok st \<Rightarrow> guard st | _ \<Rightarrow> False"
  assume "run_loop guard body st \<noteq> None"
  then obtain r where w: "while_option ?b (\<lambda>s. obind s body) (Ok st) = Some r"
    by (auto simp: run_loop_def)
  have "\<exists>x\<in>C. r = Ok x"
  proof (rule while_option_rule [where P = "\<lambda>s. \<exists>x\<in>C. s = Ok x", OF _ w])
    show "\<exists>x\<in>C. obind s body = Ok x" if "\<exists>x\<in>C. s = Ok x" for s :: "('s, 'e) outcome"
      using that cycle by auto
  qed (use assms(1) in simp)
  with cycle while_option_stop [OF w] show False by auto
qed

section \<open>The loop ends\<close>

lemma spacing_pos: "spacing_ok s \<Longrightarrow> 0 < s"
  by (simp add: spacing_ok_def)

lemma int_mult_le_iff: "0 < s \<Longrightarrow> c * s \<le> t \<longleftrightarrow> c \<le> t div (s :: int)"
proof
  assume s: "0 < s"
  show "c \<le> t div s" if "c * s \<le> t" using zdiv_mono1 [OF that s] s by simp
  show "c * s \<le> t" if "c \<le> t div s"
  proof -
    have "c * s \<le> t div s * s" using that s by simp
    also have "\<dots> \<le> t" using pos_mod_sign [OF s, of t] by (simp add: minus_mod_eq_div_mult [symmetric])
    finally show ?thesis .
  qed
qed

lemma search_result:
  assumes "tick_ok t" "spacing_ok s"
  shows "\<exists>n ini. next_initialized_tick_within_one_word (get_tick pool) t s z = Ok (n * s, ini)
    \<and> (if z then n * s \<le> t else t < n * s)"
  using snapshot.search_left [OF assms, of pool] snapshot.search_right [OF assms, of pool]
  by (cases z) (force simp: int_mult_le_iff [OF spacing_pos [OF assms(2)]] not_le [symmetric])+

lemma clamp_tick_range: "MIN_TICK \<le> clamp_tick t" "clamp_tick t \<le> MAX_TICK"
  by (simp_all add: clamp_tick_def MIN_TICK_def MAX_TICK_def)

lemma price_of_clamped:
  "get_sqrt_ratio_at_tick (clamp_tick t) = Ok p \<Longrightarrow> unat p = sqrt_ratio_nat (clamp_tick t)"
  using get_sqrt_ratio_at_tick_Ok [OF clamp_tick_range, of t] by auto

lemma iteration_moves_tick:
  assumes body: "loop_body pool fee (sqrt_price_limit z) z st = Ok st'" and ok: "loop_ok st" "fee < 1000000"
    and s: "spacing_ok (v3_tick_spacing pool)" and on: "loop_guard (sqrt_price_limit z) st'"
  shows "loop_ok st'" "if z then l_tick st' < l_tick st else l_tick st < l_tick st'"
proof -
  have t: "tick_ok (l_tick st)" and rem: "0 \<le> sint (l_remaining st)" using ok by (simp_all add: loop_ok_def)
  from iteration_crosses [OF body rem ok(2) on] obtain tn ini where
    a: "next_initialized_tick_within_one_word (get_tick pool) (l_tick st) (v3_tick_spacing pool) z = Ok (tn, ini)"
    and p: "get_sqrt_ratio_at_tick (clamp_tick tn) = Ok (l_sqrt_price st')"
    and lim: "if z then sqrt_price_limit z < l_sqrt_price st' else l_sqrt_price st' < sqrt_price_limit z"
    and t': "l_tick st' = (if z then wrap_i32 (clamp_tick tn - 1) else clamp_tick tn)" .
  have tn: "if z then tn \<le> l_tick st else l_tick st < tn"
    using search_result [OF t s, of pool z] a by auto
  have pn: "unat (l_sqrt_price st') = sqrt_ratio_nat (clamp_tick tn)" by (rule price_of_clamped [OF p])
  have "is_i32 (clamp_tick tn - 1)"
    using clamp_tick_range [of tn] by (simp add: is_i32_def MIN_TICK_def MAX_TICK_def power_numeral)
  then have t': "l_tick st' = (if z then clamp_tick tn - 1 else clamp_tick tn)" using t' by simp
  have ends: "clamp_tick tn \<noteq> (if z then MIN_TICK else MAX_TICK)"
    using lim pn sqrt_ratio_ends limit_unat by (cases z) (auto simp: word_less_nat_alt)
  show "if z then l_tick st' < l_tick st else l_tick st < l_tick st'"
    using tn ends t' by (auto simp: clamp_tick_def MIN_TICK_def MAX_TICK_def split: if_splits)
  have "tick_ok (l_tick st')"
    using t' clamp_tick_range [of tn] by (simp add: tick_ok_def MIN_TICK_def MAX_TICK_def power_numeral)
  then show "loop_ok st'" using iteration_consumes(1) [OF body rem ok(2)] by (simp add: loop_ok_def)
qed

lemma v3_loop_terminates:
  assumes "loop_ok st" "fee < 1000000" "spacing_ok (v3_tick_spacing pool)"
  shows "\<exists>r. run_loop (loop_guard (sqrt_price_limit z)) (loop_body pool fee (sqrt_price_limit z) z) st = Some r"
proof (rule run_loop_terminates [where P = loop_ok])
  let ?m = "\<lambda>st. nat (if z then l_tick st + 2 ^ 23 else 2 ^ 23 - l_tick st)"
  fix s s'
  assume "loop_ok s" "loop_body pool fee (sqrt_price_limit z) z s = Ok s'" "loop_guard (sqrt_price_limit z) s'"
  from iteration_moves_tick [OF this(2,1) assms(2,3) this(3)] \<open>loop_ok s\<close>
  show "loop_ok s' \<and> ?m s' < ?m s" by (auto simp: loop_ok_def tick_ok_def split: if_splits)
qed (rule assms(1))

lemma checked_start_Ok:
  assumes "checked_start pool amount_in = Ok (fee, st)"
  shows "unat fee = 100 * unat (v3_fee_bps pool)" "fee < 1000000" "0 < v3_tick_spacing pool"
    "st = loop_start pool amount_in" "unat amount_in < 2 ^ 255"
proof -
  have h: "\<not> 10000 \<le> v3_fee_bps pool" "0 < v3_tick_spacing pool" "checked_mul (v3_fee_bps pool) 100 = Some fee"
    "st = loop_start pool amount_in" "unat amount_in < 2 ^ 255"
    using assms by (auto simp: checked_start_def obind_eq_Ok ok_or_eq_Ok i_try_from_Some split: if_splits)
  then show fee: "unat fee = 100 * unat (v3_fee_bps pool)" by (simp add: checked_mul_Some)
  have "unat (v3_fee_bps pool) < 10000" using h(1) by (simp add: word_le_nat_alt)
  then show "fee < 1000000" using fee by (simp add: word_less_nat_alt)
  show "0 < v3_tick_spacing pool" "st = loop_start pool amount_in" "unat amount_in < 2 ^ 255" using h by blast+
qed

lemma loop_start_ok: "tick_ok (v3_tick pool) \<Longrightarrow> unat amt < 2 ^ 255 \<Longrightarrow> loop_ok (loop_start pool amt)"
  by (simp add: loop_ok_def loop_start_def sint_small)

section \<open>Where the price goes\<close>

definition snapshot_ok :: "V3Snapshot \<Rightarrow> bool" where
  \<comment> \<open>the tick is the tick of the price, as \<open>slot0\<close> of a pool has it\<close>
  "snapshot_ok pool \<longleftrightarrow> v3_tick_spacing pool \<le> 2 ^ 20 \<and> MIN_TICK \<le> v3_tick pool \<and> v3_tick pool < MAX_TICK
     \<and> sqrt_ratio_nat (v3_tick pool) \<le> unat (v3_sqrt_price_x96 pool)
     \<and> unat (v3_sqrt_price_x96 pool) < sqrt_ratio_nat (v3_tick pool + 1)"

definition price_inv :: "v3_loop \<Rightarrow> bool" where
  "price_inv st \<longleftrightarrow> MIN_TICK \<le> l_tick st \<and> l_tick st < MAX_TICK
     \<and> sqrt_ratio_nat (l_tick st) \<le> unat (l_sqrt_price st)
     \<and> unat (l_sqrt_price st) \<le> sqrt_ratio_nat (l_tick st + 1)"

definition inside_limit :: "bool \<Rightarrow> u256 \<Rightarrow> bool" where
  "inside_limit z p \<longleftrightarrow> (if z then sqrt_price_limit z \<le> p else p \<le> sqrt_price_limit z)"

definition moved :: "bool \<Rightarrow> u256 \<Rightarrow> u256 \<Rightarrow> bool" where
  "moved z p p' \<longleftrightarrow> (if z then p' \<le> p else p \<le> p')"

lemma tick_ok_range: "MIN_TICK \<le> t \<Longrightarrow> t \<le> MAX_TICK \<Longrightarrow> tick_ok t"
  by (simp add: tick_ok_def MIN_TICK_def MAX_TICK_def power_numeral)

text \<open>
  What an iteration does from a state where tick and price agree, whether the loop goes on or
  not: the next tick lies on the right side, and the price moves towards it and not past it.
\<close>

lemma iteration_shape:
  assumes body: "loop_body pool fee (sqrt_price_limit z) z st = Ok st'"
    and rem: "0 \<le> sint (l_remaining st)" and fee: "fee < 1000000"
    and s: "spacing_ok (v3_tick_spacing pool)"
    and inv: "price_inv st" and lim: "inside_limit z (l_sqrt_price st)"
  obtains tn ini pn where
    "next_initialized_tick_within_one_word (get_tick pool) (l_tick st) (v3_tick_spacing pool) z = Ok (tn, ini)"
    "unat pn = sqrt_ratio_nat (clamp_tick tn)"
    "if z then clamp_tick tn \<le> l_tick st else l_tick st + 1 \<le> clamp_tick tn"
    "moved z (l_sqrt_price st) (l_sqrt_price st')" "inside_limit z (l_sqrt_price st')"
    "moved z (l_sqrt_price st') pn"
    "l_sqrt_price st' = pn \<longrightarrow>
       crossing pool z (l_liquidity st) ini (clamp_tick tn) = Ok (l_liquidity st')
       \<and> l_tick st' = (if z then clamp_tick tn - 1 else clamp_tick tn)"
    "l_sqrt_price st' \<noteq> pn \<longrightarrow> l_liquidity st' = l_liquidity st"
proof -
  from body obtain tn ini pn ain aout fa where
    a: "next_initialized_tick_within_one_word (get_tick pool) (l_tick st) (v3_tick_spacing pool) z = Ok (tn, ini)"
    and b: "get_sqrt_ratio_at_tick (clamp_tick tn) = Ok pn"
    and step: "compute_swap_step (l_sqrt_price st) (if z then max pn (sqrt_price_limit z) else min pn (sqrt_price_limit z))
       (l_liquidity st) (l_remaining st) fee = Ok (l_sqrt_price st', ain, aout, fa)"
    and c: "l_sqrt_price st' = pn \<longrightarrow>
       crossing pool z (l_liquidity st) ini (clamp_tick tn) = Ok (l_liquidity st')
       \<and> l_tick st' = (if z then wrap_i32 (clamp_tick tn - 1) else clamp_tick tn)"
    and d: "l_sqrt_price st' \<noteq> pn \<longrightarrow> l_liquidity st' = l_liquidity st"
    by (elim loop_body_Ok)
  have t: "MIN_TICK \<le> l_tick st" "l_tick st < MAX_TICK" using inv by (simp_all add: price_inv_def)
  have tn: "if z then tn \<le> l_tick st else l_tick st < tn"
    using search_result [OF tick_ok_range s, of "l_tick st" pool z] t a by auto
  have side: "if z then clamp_tick tn \<le> l_tick st else l_tick st + 1 \<le> clamp_tick tn"
    using tn t by (auto simp: clamp_tick_def)
  have pn: "unat pn = sqrt_ratio_nat (clamp_tick tn)" by (rule price_of_clamped [OF b])
  have "moved z (l_sqrt_price st) pn"
  proof (cases z)
    case True
    then have "sqrt_ratio_nat (clamp_tick tn) \<le> sqrt_ratio_nat (l_tick st)"
      using side t clamp_tick_range [of tn] by (intro sqrt_ratio_nat_mono) simp_all
    then show ?thesis using True pn inv by (simp add: moved_def price_inv_def word_le_nat_alt)
  next
    case False
    then have "sqrt_ratio_nat (l_tick st + 1) \<le> sqrt_ratio_nat (clamp_tick tn)"
      using side t clamp_tick_range [of tn] by (intro sqrt_ratio_nat_mono) simp_all
    then show ?thesis using False pn inv by (simp add: moved_def price_inv_def word_le_nat_alt)
  qed
  with exact_in_bounds [OF rem fee step] lim
  have "moved z (l_sqrt_price st) (l_sqrt_price st')" "inside_limit z (l_sqrt_price st')"
    "moved z (l_sqrt_price st') pn"
    by (cases z; auto simp: moved_def inside_limit_def max_def min_def split: if_splits)+
  moreover have "is_i32 (clamp_tick tn - 1)"
    using clamp_tick_range [of tn] by (simp add: is_i32_def MIN_TICK_def MAX_TICK_def power_numeral)
  ultimately show ?thesis using that a pn side c d by simp
qed

section \<open>Which ticks are crossed\<close>

definition net_at :: "V3Snapshot \<Rightarrow> int \<Rightarrow> int" where
  "net_at pool t = (case v3_tick_net_liquidity pool t of None \<Rightarrow> 0 | Some n \<Rightarrow> n)"

definition nets_ok :: "V3Snapshot \<Rightarrow> bool" where
  "nets_ok pool \<longleftrightarrow> (\<forall>t. - (2 ^ 127) < net_at pool t \<and> net_at pool t < 2 ^ 127)"

definition passed_ticks :: "V3Snapshot \<Rightarrow> bool \<Rightarrow> (int \<Rightarrow> bool) \<Rightarrow> int set" where
  \<comment> \<open>the initialised ticks of the valid range beyond the starting tick that satisfy \<open>Q\<close>\<close>
  "passed_ticks pool z Q = {c. marked (v3_tick_bitmap pool) c
     \<and> MIN_TICK \<le> c * v3_tick_spacing pool \<and> c * v3_tick_spacing pool \<le> MAX_TICK
     \<and> (if z then c * v3_tick_spacing pool \<le> v3_tick pool else v3_tick pool < c * v3_tick_spacing pool)
     \<and> Q (c * v3_tick_spacing pool)}"

definition crossed_ticks :: "V3Snapshot \<Rightarrow> bool \<Rightarrow> u256 \<Rightarrow> int set" where
  \<comment> \<open>those whose price lies on the way from the starting tick to the price \<open>p\<close>\<close>
  "crossed_ticks pool z p = passed_ticks pool z (\<lambda>t.
     if z then unat p \<le> sqrt_ratio_nat t else sqrt_ratio_nat t \<le> unat p)"

definition left_behind :: "V3Snapshot \<Rightarrow> bool \<Rightarrow> int \<Rightarrow> int set" where
  \<comment> \<open>those between the starting tick and the current tick\<close>
  "left_behind pool z t = passed_ticks pool z (\<lambda>u. if z then t < u else u \<le> t)"

definition accounted :: "V3Snapshot \<Rightarrow> bool \<Rightarrow> int set \<Rightarrow> u128 \<Rightarrow> bool" where
  "accounted pool z C liq \<longleftrightarrow> int (unat liq) = int (unat (v3_liquidity pool))
     + (if z then - 1 else 1) * (\<Sum>c\<in>C. net_at pool (c * v3_tick_spacing pool))"

lemma finite_passed: "0 < v3_tick_spacing pool \<Longrightarrow> finite (passed_ticks pool z Q)"
proof (rule finite_subset)
  assume s: "0 < v3_tick_spacing pool"
  show "passed_ticks pool z Q \<subseteq> {MIN_TICK..MAX_TICK}"
  proof
    fix c
    assume "c \<in> passed_ticks pool z Q"
    then have b: "MIN_TICK \<le> c * v3_tick_spacing pool" "c * v3_tick_spacing pool \<le> MAX_TICK"
      by (simp_all add: passed_ticks_def)
    have "\<bar>c\<bar> * 1 \<le> \<bar>c\<bar> * v3_tick_spacing pool" using s by (intro mult_left_mono) simp_all
    also have "\<dots> = \<bar>c * v3_tick_spacing pool\<bar>" using s by (simp add: abs_mult)
    finally show "c \<in> {MIN_TICK..MAX_TICK}" using b by (auto simp: MIN_TICK_def MAX_TICK_def)
  qed
qed simp

lemma add_delta_int:
  assumes "is_i128 y" "add_delta x y = Ok r"
  shows "int (unat r) = int (unat x) + y"
proof -
  have e: "r = word_of_int (int (unat x) + y)" and b: "0 \<le> int (unat x) + y" "int (unat x) + y < 2 ^ 128"
    using add_delta_sub [OF assms(1), of x] add_delta_add [OF assms(1), of x] assms(2) uint_bounded [of x]
    by (cases "y < 0"; auto split: if_splits)+
  from b show ?thesis unfolding e by (simp only: uint_nat [symmetric] uint_word_of_int) simp
qed

lemma crossing_int:
  assumes "nets_ok pool" "crossing pool z liq ini t = Ok liq'"
  shows "int (unat liq') = int (unat liq) + (if z then - 1 else 1) * (if ini then net_at pool t else 0)"
proof (cases ini)
  case True
  have n: "is_i128 (net_at pool t)" "is_i128 (- net_at pool t)"
    using assms(1) [unfolded nets_ok_def, rule_format, of t] by (simp_all add: is_i128_def power_numeral)
  from assms(2) True have "add_delta liq (if z then - net_at pool t else net_at pool t) = Ok liq'"
    using n by (simp add: crossing_def net_at_def Let_def split: if_splits)
  from add_delta_int [OF _ this] n True show ?thesis by simp
qed (use assms(2) in \<open>simp add: crossing_def\<close>)

text \<open>No initialised tick lies strictly between the current tick and the one the search returns.\<close>

lemma search_gap:
  assumes "tick_ok t" "spacing_ok s"
    and "next_initialized_tick_within_one_word (get_tick pool) t s z = Ok (tn, ini)"
  obtains n where "tn = n * s" "ini \<longleftrightarrow> marked (v3_tick_bitmap pool) n"
    "if z then n * s \<le> t else t < n * s"
    "\<And>c. marked (v3_tick_bitmap pool) c \<Longrightarrow> if z then c * s \<le> t \<longrightarrow> c \<le> n else t < c * s \<longrightarrow> n \<le> c"
proof -
  have s: "0 < s" using assms(2) by (rule spacing_pos)
  note le = int_mult_le_iff [OF s, of _ t]
  show ?thesis
  proof (cases z)
    case True
    from snapshot.search_left [OF assms(1,2), of pool] assms(3) True obtain n where
      "tn = n * s" "ini \<longleftrightarrow> marked (v3_tick_bitmap pool) n" "n \<le> t div s"
      "\<forall>c. n < c \<and> c \<le> t div s \<longrightarrow> \<not> marked (v3_tick_bitmap pool) c" by auto
    with True show ?thesis by (intro that [of n]) (auto simp: le not_le [symmetric])
  next
    case False
    from snapshot.search_right [OF assms(1,2), of pool] assms(3) False obtain n where
      "tn = n * s" "ini \<longleftrightarrow> marked (v3_tick_bitmap pool) n" "t div s < n"
      "\<forall>c. t div s < c \<and> c < n \<longrightarrow> \<not> marked (v3_tick_bitmap pool) c" by auto
    with False show ?thesis by (intro that [of n]) (auto simp: le not_le [symmetric])
  qed
qed

lemma sqrt_ratio_nat_le_iff:
  assumes "MIN_TICK \<le> u" "u \<le> MAX_TICK" "MIN_TICK \<le> v" "v \<le> MAX_TICK"
  shows "sqrt_ratio_nat u \<le> sqrt_ratio_nat v \<longleftrightarrow> u \<le> v"
  using sqrt_ratio_nat_strict_mono [of v u] sqrt_ratio_nat_mono [of u v] assms by (auto simp: not_le [symmetric])

lemma crossed_step_down:
  assumes s: "0 < v3_tick_spacing pool" and t: "MIN_TICK \<le> t" "t < MAX_TICK" "t \<le> v3_tick pool"
    and n: "tn = n * v3_tick_spacing pool" "ini \<longleftrightarrow> marked (v3_tick_bitmap pool) n" "tn \<le> t"
    and none: "\<And>c. marked (v3_tick_bitmap pool) c \<Longrightarrow> c * v3_tick_spacing pool \<le> t \<Longrightarrow> c \<le> n"
    and pn: "unat pn = sqrt_ratio_nat (clamp_tick tn)"
    and p: "pn \<le> p" "unat p \<le> sqrt_ratio_nat (t + 1)" "sqrt_ratio_nat MIN_TICK < unat p"
  shows "crossed_ticks pool True p = left_behind pool True t \<union> (if p = pn \<and> ini then {n} else {})"
    and "n \<notin> left_behind pool True t"
proof -
  let ?s = "v3_tick_spacing pool"
  have high: "unat p \<le> sqrt_ratio_nat u" if "t < u" "u \<le> MAX_TICK" for u
    using p(2) sqrt_ratio_nat_mono [of "t + 1" u] that t by simp
  have low: "c = n \<and> p = pn \<and> ini"
    if c: "marked (v3_tick_bitmap pool) c" "MIN_TICK \<le> c * ?s" "c * ?s \<le> t" "unat p \<le> sqrt_ratio_nat (c * ?s)" for c
  proof -
    have "c \<le> n" using none c by blast
    then have cn: "c * ?s \<le> tn" using s n(1) by simp
    then have clamp: "clamp_tick tn = tn" using c(2) n(3) t by (simp add: clamp_tick_def)
    have "sqrt_ratio_nat (c * ?s) \<le> sqrt_ratio_nat tn"
      using cn c t n(3) by (intro sqrt_ratio_nat_mono) simp_all
    then have eq: "unat p = unat pn" "sqrt_ratio_nat tn \<le> sqrt_ratio_nat (c * ?s)"
      using p(1) pn clamp c(4) by (simp_all add: word_le_nat_alt)
    then have "tn \<le> c * ?s" using sqrt_ratio_nat_le_iff [of tn "c * ?s"] cn c t n(3) by simp
    with cn n(1) s have "c = n" by simp
    with eq c(1) n(2) show ?thesis by (simp add: word_unat_eq_iff)
  qed
  have reach: "MIN_TICK \<le> tn \<and> unat p \<le> sqrt_ratio_nat tn" if "p = pn"
  proof -
    have "clamp_tick tn \<noteq> MIN_TICK" using that pn p(3) by auto
    then have "clamp_tick tn = tn" using n(3) t by (auto simp: clamp_tick_def)
    then show ?thesis using that pn clamp_tick_range(1) [of tn] by simp
  qed
  have mem: "c \<in> crossed_ticks pool True p \<longleftrightarrow> marked (v3_tick_bitmap pool) c \<and> MIN_TICK \<le> c * ?s
      \<and> c * ?s \<le> MAX_TICK \<and> c * ?s \<le> v3_tick pool \<and> unat p \<le> sqrt_ratio_nat (c * ?s)"
    "c \<in> left_behind pool True t \<longleftrightarrow> marked (v3_tick_bitmap pool) c \<and> MIN_TICK \<le> c * ?s
      \<and> c * ?s \<le> MAX_TICK \<and> c * ?s \<le> v3_tick pool \<and> t < c * ?s" for c
    by (simp_all add: crossed_ticks_def left_behind_def passed_ticks_def)
  have "c \<in> crossed_ticks pool True p \<longleftrightarrow> c \<in> left_behind pool True t \<or> c = n \<and> p = pn \<and> ini" for c
  proof (cases "c * ?s \<le> t")
    case True
    then have "c \<notin> left_behind pool True t" by (simp add: mem)
    moreover have "n \<in> crossed_ticks pool True p" if "p = pn" "ini"
      unfolding mem using reach [OF that(1)] n t that by simp
    ultimately show ?thesis using low [of c] True mem(1) [of c] by blast
  next
    case False
    then have "c \<noteq> n" using n by auto
    with False high [of "c * ?s"] show ?thesis unfolding mem by auto
  qed
  then show "crossed_ticks pool True p = left_behind pool True t \<union> (if p = pn \<and> ini then {n} else {})"
    by auto
  show "n \<notin> left_behind pool True t" using n(1,3) by (auto simp: left_behind_def passed_ticks_def)
qed

lemma crossed_step_up:
  assumes s: "0 < v3_tick_spacing pool" and t: "MIN_TICK \<le> t" "t < MAX_TICK" "v3_tick pool \<le> t"
    and n: "tn = n * v3_tick_spacing pool" "ini \<longleftrightarrow> marked (v3_tick_bitmap pool) n" "t < tn"
    and none: "\<And>c. marked (v3_tick_bitmap pool) c \<Longrightarrow> t < c * v3_tick_spacing pool \<Longrightarrow> n \<le> c"
    and pn: "unat pn = sqrt_ratio_nat (clamp_tick tn)"
    and p: "p \<le> pn" "sqrt_ratio_nat t \<le> unat p" "unat p < sqrt_ratio_nat MAX_TICK"
  shows "crossed_ticks pool False p = left_behind pool False t \<union> (if p = pn \<and> ini then {n} else {})"
    and "n \<notin> left_behind pool False t"
proof -
  let ?s = "v3_tick_spacing pool"
  have high: "sqrt_ratio_nat u \<le> unat p" if "u \<le> t" "MIN_TICK \<le> u" for u
    using p(2) sqrt_ratio_nat_mono [of u t] that t by simp
  have low: "c = n \<and> p = pn \<and> ini"
    if c: "marked (v3_tick_bitmap pool) c" "c * ?s \<le> MAX_TICK" "t < c * ?s" "sqrt_ratio_nat (c * ?s) \<le> unat p" for c
  proof -
    have "n \<le> c" using none c by blast
    then have cn: "tn \<le> c * ?s" using s n(1) by simp
    then have clamp: "clamp_tick tn = tn" using c(2) n(3) t by (simp add: clamp_tick_def)
    have "sqrt_ratio_nat tn \<le> sqrt_ratio_nat (c * ?s)"
      using cn c t n(3) by (intro sqrt_ratio_nat_mono) simp_all
    then have eq: "unat p = unat pn" "sqrt_ratio_nat (c * ?s) \<le> sqrt_ratio_nat tn"
      using p(1) pn clamp c(4) by (simp_all add: word_le_nat_alt)
    then have "c * ?s \<le> tn" using sqrt_ratio_nat_le_iff [of "c * ?s" tn] cn c t n(3) by simp
    with cn n(1) s have "c = n" by simp
    with eq c(1) n(2) show ?thesis by (simp add: word_unat_eq_iff)
  qed
  have reach: "tn \<le> MAX_TICK \<and> sqrt_ratio_nat tn \<le> unat p" if "p = pn"
  proof -
    have "clamp_tick tn \<noteq> MAX_TICK" using that pn p(3) by auto
    then have "clamp_tick tn = tn" using n(3) t by (auto simp: clamp_tick_def)
    then show ?thesis using that pn clamp_tick_range(2) [of tn] by simp
  qed
  have mem: "c \<in> crossed_ticks pool False p \<longleftrightarrow> marked (v3_tick_bitmap pool) c \<and> MIN_TICK \<le> c * ?s
      \<and> c * ?s \<le> MAX_TICK \<and> v3_tick pool < c * ?s \<and> sqrt_ratio_nat (c * ?s) \<le> unat p"
    "c \<in> left_behind pool False t \<longleftrightarrow> marked (v3_tick_bitmap pool) c \<and> MIN_TICK \<le> c * ?s
      \<and> c * ?s \<le> MAX_TICK \<and> v3_tick pool < c * ?s \<and> c * ?s \<le> t" for c
    by (simp_all add: crossed_ticks_def left_behind_def passed_ticks_def)
  have "c \<in> crossed_ticks pool False p \<longleftrightarrow> c \<in> left_behind pool False t \<or> c = n \<and> p = pn \<and> ini" for c
  proof (cases "t < c * ?s")
    case True
    then have "c \<notin> left_behind pool False t" by (simp add: mem)
    moreover have "n \<in> crossed_ticks pool False p" if "p = pn" "ini"
      unfolding mem using reach [OF that(1)] n t that by simp
    ultimately show ?thesis using low [of c] True mem(1) [of c] by blast
  next
    case False
    then have "c \<noteq> n" using n by auto
    with False high [of "c * ?s"] show ?thesis unfolding mem by auto
  qed
  then show "crossed_ticks pool False p = left_behind pool False t \<union> (if p = pn \<and> ini then {n} else {})"
    by auto
  show "n \<notin> left_behind pool False t" using n(1,3) by (auto simp: left_behind_def passed_ticks_def)
qed

definition dir_ok :: "bool \<Rightarrow> int \<Rightarrow> int \<Rightarrow> bool" where
  "dir_ok z t0 t \<longleftrightarrow> (if z then t \<le> t0 else t0 \<le> t)"

lemma accounted_extend:
  assumes "accounted pool z A liq" "finite A" "n \<notin> A"
    and "int (unat liq') = int (unat liq)
      + (if z then - 1 else 1) * (if q then net_at pool (n * v3_tick_spacing pool) else 0)"
  shows "accounted pool z (A \<union> (if q then {n} else {})) liq'"
  using assms by (auto simp: accounted_def)

lemma iteration_accounts:
  assumes body: "loop_body pool fee (sqrt_price_limit z) z st = Ok st'"
    and rem: "0 \<le> sint (l_remaining st)" and fee: "fee < 1000000"
    and s: "spacing_ok (v3_tick_spacing pool)" and nets: "nets_ok pool"
    and inv: "price_inv st" and lim: "inside_limit z (l_sqrt_price st)" and dir: "dir_ok z (v3_tick pool) (l_tick st)"
    and acc: "accounted pool z (left_behind pool z (l_tick st)) (l_liquidity st)"
  shows "accounted pool z (crossed_ticks pool z (l_sqrt_price st')) (l_liquidity st')"
proof -
  let ?p = "l_sqrt_price st'" and ?t = "l_tick st"
  from iteration_shape [OF body rem fee s inv lim] obtain tn ini pn where
    a: "next_initialized_tick_within_one_word (get_tick pool) ?t (v3_tick_spacing pool) z = Ok (tn, ini)"
    and pn: "unat pn = sqrt_ratio_nat (clamp_tick tn)"
    and p: "moved z (l_sqrt_price st) ?p" "inside_limit z ?p" "moved z ?p pn"
    and cr: "?p = pn \<longrightarrow> crossing pool z (l_liquidity st) ini (clamp_tick tn) = Ok (l_liquidity st')"
    and same: "?p \<noteq> pn \<longrightarrow> l_liquidity st' = l_liquidity st" by metis
  have t: "MIN_TICK \<le> ?t" "?t < MAX_TICK" using inv by (simp_all add: price_inv_def)
  from search_gap [OF tick_ok_range s a] t obtain n where
    n: "tn = n * v3_tick_spacing pool" "ini \<longleftrightarrow> marked (v3_tick_bitmap pool) n"
    "if z then n * v3_tick_spacing pool \<le> ?t else ?t < n * v3_tick_spacing pool"
    and none: "\<And>c. marked (v3_tick_bitmap pool) c \<Longrightarrow>
      if z then c * v3_tick_spacing pool \<le> ?t \<longrightarrow> c \<le> n else ?t < c * v3_tick_spacing pool \<longrightarrow> n \<le> c"
    by auto
  have pos: "0 < v3_tick_spacing pool" using s by (rule spacing_pos)
  have ends: "if z then sqrt_ratio_nat MIN_TICK < unat ?p else unat ?p < sqrt_ratio_nat MAX_TICK"
    using p(2) by (cases z) (simp_all add: inside_limit_def word_le_nat_alt limit_unat sqrt_ratio_ends)
  have between: "if z then unat ?p \<le> sqrt_ratio_nat (?t + 1) else sqrt_ratio_nat ?t \<le> unat ?p"
    using p(1) inv by (auto simp: moved_def price_inv_def word_le_nat_alt)
  have sets: "crossed_ticks pool z ?p = left_behind pool z ?t \<union> (if ?p = pn \<and> ini then {n} else {})
      \<and> n \<notin> left_behind pool z ?t"
  proof (cases z)
    case True
    with crossed_step_down [OF pos t _ n(1,2) _ _ pn, of ?p] n none p(3) between ends dir show ?thesis
      by (simp add: moved_def dir_ok_def)
  next
    case False
    with crossed_step_up [OF pos t _ n(1,2) _ _ pn, of ?p] n none p(3) between ends dir show ?thesis
      by (simp add: moved_def dir_ok_def)
  qed
  have "clamp_tick tn = n * v3_tick_spacing pool" if "?p = pn"
  proof -
    have "clamp_tick tn \<noteq> (if z then MIN_TICK else MAX_TICK)" using that pn ends by (auto split: if_splits)
    then show ?thesis using n t by (auto simp: clamp_tick_def split: if_splits)
  qed
  with cr same crossing_int [OF nets] have "int (unat (l_liquidity st')) = int (unat (l_liquidity st))
      + (if z then - 1 else 1) * (if ?p = pn \<and> ini then net_at pool (n * v3_tick_spacing pool) else 0)"
    by (cases "?p = pn") auto
  from accounted_extend [OF acc _ _ this] sets finite_passed [OF pos] show ?thesis
    by (simp add: left_behind_def)
qed

lemma crossing_resets:
  assumes body: "loop_body pool fee (sqrt_price_limit z) z st = Ok st'"
    and rem: "0 \<le> sint (l_remaining st)" and fee: "fee < 1000000"
    and s: "spacing_ok (v3_tick_spacing pool)" and inv: "price_inv st"
    and lim: "inside_limit z (l_sqrt_price st)" and dir: "dir_ok z (v3_tick pool) (l_tick st)"
    and on: "loop_guard (sqrt_price_limit z) st'"
  shows "price_inv st'" "dir_ok z (v3_tick pool) (l_tick st')"
    "left_behind pool z (l_tick st') = crossed_ticks pool z (l_sqrt_price st')"
proof -
  have t: "MIN_TICK \<le> l_tick st" "l_tick st < MAX_TICK" using inv by (simp_all add: price_inv_def)
  from iteration_crosses [OF body rem fee on] obtain tn ini where
    p: "get_sqrt_ratio_at_tick (clamp_tick tn) = Ok (l_sqrt_price st')"
    and l: "if z then sqrt_price_limit z < l_sqrt_price st' else l_sqrt_price st' < sqrt_price_limit z"
    and t': "l_tick st' = (if z then wrap_i32 (clamp_tick tn - 1) else clamp_tick tn)" by metis
  note pn = price_of_clamped [OF p] and cr = clamp_tick_range [of tn]
  have "is_i32 (clamp_tick tn - 1)" using cr by (simp add: is_i32_def MIN_TICK_def MAX_TICK_def power_numeral)
  then have t': "l_tick st' = (if z then clamp_tick tn - 1 else clamp_tick tn)" using t' by simp
  have ends: "clamp_tick tn \<noteq> (if z then MIN_TICK else MAX_TICK)"
    using l pn sqrt_ratio_ends limit_unat by (cases z) (auto simp: word_less_nat_alt)
  have "sqrt_ratio_nat (l_tick st') \<le> sqrt_ratio_nat (clamp_tick tn)"
    "sqrt_ratio_nat (clamp_tick tn) \<le> sqrt_ratio_nat (l_tick st' + 1)"
    using t' cr ends by (auto intro!: sqrt_ratio_nat_mono split: if_splits)
  with t' cr ends pn show "price_inv st'" by (auto simp: price_inv_def split: if_splits)
  have "if z then l_tick st' < l_tick st else l_tick st < l_tick st'"
    using iteration_moves_tick(2) [OF body _ fee s on] tick_ok_range t rem by (simp add: loop_ok_def)
  with dir show "dir_ok z (v3_tick pool) (l_tick st')" by (auto simp: dir_ok_def split: if_splits)
  show "left_behind pool z (l_tick st') = crossed_ticks pool z (l_sqrt_price st')"
    unfolding left_behind_def crossed_ticks_def passed_ticks_def pn
    using t' cr sqrt_ratio_nat_le_iff by (cases z) auto
qed

text \<open>The invariant of the loop, for a state in front of an iteration and for a final one.\<close>

definition swap_inv :: "V3Snapshot \<Rightarrow> i256 \<Rightarrow> bool \<Rightarrow> v3_loop \<Rightarrow> bool" where
  "swap_inv pool amount z st \<longleftrightarrow>
     0 \<le> sint (l_remaining st) \<and> sint (l_remaining st) \<le> sint amount
     \<and> moved z (v3_sqrt_price_x96 pool) (l_sqrt_price st) \<and> inside_limit z (l_sqrt_price st)
     \<and> (if loop_guard (sqrt_price_limit z) st
        then price_inv st \<and> dir_ok z (v3_tick pool) (l_tick st)
          \<and> accounted pool z (left_behind pool z (l_tick st)) (l_liquidity st)
        else accounted pool z (crossed_ticks pool z (l_sqrt_price st)) (l_liquidity st))"

lemma moved_trans: "moved z p q \<Longrightarrow> moved z q r \<Longrightarrow> moved z p r"
  by (auto simp: moved_def split: if_splits)

lemma swap_inv_step:
  assumes inv: "swap_inv pool amount z st" and on: "loop_guard (sqrt_price_limit z) st"
    and body: "loop_body pool fee (sqrt_price_limit z) z st = Ok st'"
    and s: "spacing_ok (v3_tick_spacing pool)" and fee: "fee < 1000000" and nets: "nets_ok pool"
  shows "swap_inv pool amount z st'"
proof -
  have rem: "0 \<le> sint (l_remaining st)" and p: "price_inv st" and lim: "inside_limit z (l_sqrt_price st)"
    and dir: "dir_ok z (v3_tick pool) (l_tick st)"
    and acc: "accounted pool z (left_behind pool z (l_tick st)) (l_liquidity st)"
    and rest: "sint (l_remaining st) \<le> sint amount" "moved z (v3_sqrt_price_x96 pool) (l_sqrt_price st)"
    using inv on by (simp_all add: swap_inv_def)
  have "moved z (l_sqrt_price st) (l_sqrt_price st')" "inside_limit z (l_sqrt_price st')"
    using iteration_shape [OF body rem fee s p lim] by metis+
  with rest moved_trans have "moved z (v3_sqrt_price_x96 pool) (l_sqrt_price st')" by blast
  moreover note \<open>inside_limit z (l_sqrt_price st')\<close> iteration_consumes [OF body rem fee]
    iteration_accounts [OF body rem fee s nets p lim dir acc]
  moreover note crossing_resets [OF body rem fee s p lim dir]
  ultimately show ?thesis
    using rest(1) unfolding swap_inv_def by (cases "loop_guard (sqrt_price_limit z) st'") auto
qed

lemma second_price: "sqrt_ratio_nat (MIN_TICK + 1) = 4295343490"
  by (simp add: sqrt_ratio_nat_def MIN_TICK_def tick_ratio_def ratio_constants_def ceil_div_def power_numeral)

lemma swap_inv_start:
  assumes ok: "snapshot_ok pool" and lim: "inside_limit z (v3_sqrt_price_x96 pool)" and amt: "unat amt < 2 ^ 255"
    and nz: "amt \<noteq> 0"
  shows "swap_inv pool amt z (loop_start pool amt)"
proof -
  have t: "MIN_TICK \<le> v3_tick pool" "v3_tick pool < MAX_TICK" using ok by (simp_all add: snapshot_ok_def)
  have empty: "left_behind pool z (v3_tick pool) = {}"
    by (auto simp: left_behind_def passed_ticks_def split: if_splits)
  have none: "crossed_ticks pool z (v3_sqrt_price_x96 pool) = {}" if "v3_sqrt_price_x96 pool = sqrt_price_limit z"
  proof -
    have p: "sqrt_ratio_nat (v3_tick pool) \<le> unat (sqrt_price_limit z)"
      "unat (sqrt_price_limit z) < sqrt_ratio_nat (v3_tick pool + 1)"
      using ok that by (simp_all add: snapshot_ok_def)
    have False if c: "c \<in> crossed_ticks pool z (sqrt_price_limit z)" for c
    proof (cases z)
      case True
      have "\<not> MIN_TICK + 1 \<le> v3_tick pool"
        using p(1) sqrt_ratio_nat_mono [of "MIN_TICK + 1" "v3_tick pool"] t True
        by (auto simp: limit_unat second_price)
      then have "v3_tick pool = MIN_TICK" using t by simp
      with c True have "c * v3_tick_spacing pool = MIN_TICK" "4295128740 \<le> sqrt_ratio_nat (c * v3_tick_spacing pool)"
        by (simp_all add: crossed_ticks_def passed_ticks_def limit_unat)
      then show False by (simp add: sqrt_ratio_ends)
    next
      case False
      let ?u = "c * v3_tick_spacing pool"
      have "v3_tick pool + 1 \<le> ?u" "?u \<le> MAX_TICK" "sqrt_ratio_nat ?u \<le> unat (sqrt_price_limit z)"
        using c False by (simp_all add: crossed_ticks_def passed_ticks_def)
      with p(2) sqrt_ratio_nat_mono [of "v3_tick pool + 1" ?u] t show False by simp
    qed
    then show ?thesis using that by auto
  qed
  have sum: "accounted pool z {} (v3_liquidity pool)" by (simp add: accounted_def)
  have "price_inv (loop_start pool amt)" using ok by (simp add: price_inv_def snapshot_ok_def loop_start_def)
  moreover have "crossed_ticks pool z (v3_sqrt_price_x96 pool) = {} \<or> amt = 0"
    if "\<not> loop_guard (sqrt_price_limit z) (loop_start pool amt)"
    using none that by (auto simp: loop_guard_def loop_start_def)
  ultimately show ?thesis
    using nz sum empty lim amt none
    by (auto simp: swap_inv_def loop_start_def moved_def dir_ok_def sint_small loop_guard_def)
qed

lemma swap_result:
  assumes run: "amount_out_with_state pool amt z = Some (Ok (out, pool'))" "amt \<noteq> 0"
    and ok: "snapshot_ok pool" "nets_ok pool" "inside_limit z (v3_sqrt_price_x96 pool)"
  obtains st where "swap_inv pool amt z st" "\<not> loop_guard (sqrt_price_limit z) st"
    "pool' = pool\<lparr>v3_sqrt_price_x96 := l_sqrt_price st, v3_tick := l_tick st, v3_liquidity := l_liquidity st\<rparr>"
    "out = - l_calculated st"
proof -
  obtain fee st0 where start: "checked_start pool amt = Ok (fee, st0)"
    using run by (cases "checked_start pool amt") (auto simp: amount_out_with_state_def)
  note c = checked_start_Ok [OF start]
  obtain st where loop: "run_loop (loop_guard (sqrt_price_limit z)) (loop_body pool fee (sqrt_price_limit z) z) st0 = Some (Ok st)"
    and res: "out = - l_calculated st"
      "pool' = pool\<lparr>v3_sqrt_price_x96 := l_sqrt_price st, v3_tick := l_tick st, v3_liquidity := l_liquidity st\<rparr>"
    using run start by (auto simp: amount_out_with_state_def obind_eq_Ok)
  have s: "spacing_ok (v3_tick_spacing pool)" using c(3) ok(1) by (simp add: spacing_ok_def snapshot_ok_def)
  have "swap_inv pool amt z st0" using swap_inv_start [OF ok(1,3) c(5) run(2)] c(4) by simp
  note inv = run_loop_invariant [where P = "swap_inv pool amt z", OF loop this]
  from inv(1) inv(2) swap_inv_step [OF _ _ _ s c(2) ok(2)] res that show ?thesis by metis
qed

section \<open>A snapshot that crosses a tick\<close>

text \<open>One initialised tick at the current price: the swap crosses it and then runs out of input.\<close>

definition sample_pool :: V3Snapshot where
  "sample_pool = \<lparr>v3_sqrt_price_x96 = 79228162514264337593543950336, v3_liquidity = 1237940039285380274899124224, v3_tick = 0, v3_fee_bps = 30, v3_tick_spacing = 60,
      v3_tick_bitmap = [0 \<mapsto> 1], v3_tick_net_liquidity = [0 \<mapsto> 7]\<rparr>"

lemmas search_eval = next_initialized_tick_within_one_word_def i32_rem_def i32_div_def rem_i_def quot_i_def
  tick_position_def wrap_i16_def wrap_i32_def get_tick_def word_or_zero_def most_significant_bit_def
  leading_zeros_def least_significant_bit_def trailing_zeros_def

lemma sample_search1: "next_initialized_tick_within_one_word (get_tick sample_pool) 0 60 True = Ok (0, True)"
  by (simp add: search_eval sample_pool_def power_numeral bit_length.simps Let_def)
lemma sample_search2: "next_initialized_tick_within_one_word (get_tick sample_pool) (-1) 60 True = Ok (-15360, False)"
  by (simp add: search_eval sample_pool_def power_numeral bit_length.simps Let_def unsigned_minus_1_eq_mask mask_eq_exp_minus_1)
lemma price_at_0: "get_sqrt_ratio_at_tick 0 = Ok (79228162514264337593543950336)"
  by (simp add: get_sqrt_ratio_at_tick_def ratio_step_def from_limbs_def u256_from_i32_def power_numeral)
lemma sample_price: "get_sqrt_ratio_at_tick (- 15360) = Ok 36758526794156967312715787618"
  by (simp add: get_sqrt_ratio_at_tick_def ratio_step_def from_limbs_def u256_from_i32_def wrap_i32_def power_numeral)

lemmas step_eval = compute_swap_step_def u_get_amount_0_delta_def u_get_amount_1_delta_def
  div_rounding_up_def u_div_def u_rem_def get_next_sqrt_price_from_input_def
  get_next_sqrt_price_from_amount_0_rounding_up_def Let_def math_eval

lemma sample_step1: "compute_swap_step (79228162514264337593543950336) (79228162514264337593543950336) (1237940039285380274899124224) 1 3000 = Ok (79228162514264337593543950336, 0, 0, 0)"
  by (simp add: step_eval)
lemma sample_step2: "compute_swap_step (79228162514264337593543950336) 36758526794156967312715787618 (1237940039285380274899124217) 1 3000 = Ok (79228162514264337593543950336, 0, 0, 1)"
  by (simp add: step_eval)


lemma sample_fields: "v3_sqrt_price_x96 sample_pool = 79228162514264337593543950336" "v3_liquidity sample_pool = 1237940039285380274899124224" "v3_tick sample_pool = 0"
  "v3_fee_bps sample_pool = 30" "v3_tick_spacing sample_pool = 60" "v3_tick_bitmap sample_pool = [0 \<mapsto> 1]"
  "v3_tick_net_liquidity sample_pool = [0 \<mapsto> 7]"
  by (simp_all add: sample_pool_def)

lemma sample_limit: "max (79228162514264337593543950336) (sqrt_price_limit True) = 79228162514264337593543950336"
  "max 36758526794156967312715787618 (sqrt_price_limit True) = 36758526794156967312715787618"
  by (simp_all add: sqrt_price_limit_def MIN_SQRT_RATIO_def from_limbs_def power_numeral)

lemma sample_cross: "add_delta (1237940039285380274899124224) (wrap_i128 (- 7)) = Ok (1237940039285380274899124217)"
  by (simp add: add_delta_def i128_magnitude_def wrap_i128_def power_numeral)

lemmas glue_eval = checked_add_def i_try_from_def i_checked_sub_def wrap_i32_def MIN_TICK_def MAX_TICK_def power_numeral

lemma sample_body1: "loop_body sample_pool 3000 (sqrt_price_limit True) True (loop_start sample_pool 1) =
   Ok ((loop_start sample_pool 1)\<lparr>l_tick := - 1, l_liquidity := 1237940039285380274899124217\<rparr>)"
  unfolding loop_body_def loop_start_def sample_fields v3_loop.simps sample_search1 map_err.simps obind.simps prod.case Let_def
  by (simp add: MIN_TICK_def MAX_TICK_def price_at_0 sample_limit sample_step1 checked_add_def i_try_from_def i_checked_sub_def sample_fields sample_cross wrap_i32_def power_numeral)
lemma sample_body2: "loop_body sample_pool 3000 (sqrt_price_limit True) True ((loop_start sample_pool 1)\<lparr>l_tick := - 1, l_liquidity := 1237940039285380274899124217\<rparr>) =
   Ok ((loop_start sample_pool 1)\<lparr>l_tick := - 1, l_liquidity := 1237940039285380274899124217, l_remaining := 0\<rparr>)"
  unfolding loop_body_def loop_start_def sample_fields v3_loop.simps sample_search2 map_err.simps obind.simps prod.case Let_def
  by (simp add: MIN_TICK_def MAX_TICK_def sample_price sample_limit sample_step2 checked_add_def i_try_from_def i_checked_sub_def sample_fields sample_cross wrap_i32_def power_numeral)

lemma sample_run: "amount_out_with_state sample_pool 1 True = Some (Ok (0, sample_pool\<lparr>v3_tick := - 1, v3_liquidity := 1237940039285380274899124217\<rparr>))"
proof -
  have st: "checked_start sample_pool 1 = Ok (3000, loop_start sample_pool 1)"
    by (simp add: checked_start_def sample_fields checked_mul_def i_try_from_def power_numeral)
  have g: "loop_guard (sqrt_price_limit True) (loop_start sample_pool 1)"
    "loop_guard (sqrt_price_limit True) ((loop_start sample_pool 1)\<lparr>l_tick := - 1, l_liquidity := 1237940039285380274899124217\<rparr>)"
    "\<not> loop_guard (sqrt_price_limit True) ((loop_start sample_pool 1)\<lparr>l_tick := - 1, l_liquidity := 1237940039285380274899124217, l_remaining := 0\<rparr>)"
    by (simp_all add: loop_guard_def loop_start_def sample_fields sqrt_price_limit_def MIN_SQRT_RATIO_def from_limbs_def power_numeral)
  have "run_loop (loop_guard (sqrt_price_limit True)) (loop_body sample_pool 3000 (sqrt_price_limit True) True) (loop_start sample_pool 1)
    = Some (Ok ((loop_start sample_pool 1)\<lparr>l_tick := - 1, l_liquidity := 1237940039285380274899124217, l_remaining := 0\<rparr>))"
    by (simp only: run_loop_unfold [of _ _ "loop_start sample_pool 1"] run_loop_unfold [of _ _ "(loop_start sample_pool 1)\<lparr>l_tick := - 1, l_liquidity := _\<rparr>"]
      run_loop_unfold [of _ _ "(loop_start sample_pool 1)\<lparr>l_tick := - 1, l_liquidity := _, l_remaining := 0\<rparr>"]
       g sample_body1 sample_body2 if_True if_False outcome.case)
  then show ?thesis
    by (simp add: amount_out_with_state_def st loop_start_def sample_fields)
qed

lemma sample_ok: "snapshot_ok sample_pool" "nets_ok sample_pool" "inside_limit True (v3_sqrt_price_x96 sample_pool)"
proof -
  have "sqrt_ratio_nat 0 < sqrt_ratio_nat 1"
    by (rule sqrt_ratio_nat_strict_mono) (simp_all add: MIN_TICK_def MAX_TICK_def)
  moreover have "sqrt_ratio_nat 0 = 79228162514264337593543950336"
    by (simp add: sqrt_ratio_nat_def tick_ratio_values ceil_div_def power_numeral)
  ultimately show "snapshot_ok sample_pool"
    by (simp add: snapshot_ok_def sample_fields MIN_TICK_def MAX_TICK_def power_numeral)
  show "nets_ok sample_pool" by (simp add: nets_ok_def net_at_def sample_fields power_numeral)
  show "inside_limit True (v3_sqrt_price_x96 sample_pool)"
    by (simp add: inside_limit_def word_le_nat_alt limit_unat sample_fields)
qed

section \<open>Snapshots on which the loop does not end\<close>

lemma idle_delta:
  "p \<noteq> 0 \<Longrightarrow> q \<noteq> 0 \<Longrightarrow> u_get_amount_0_delta p q 0 r = Ok 0" "u_get_amount_1_delta p q 0 r = Ok 0"
proof -
  have z: "d \<noteq> 0 \<Longrightarrow> mul_div_rounding_up 0 x d = Ok 0" "d \<noteq> 0 \<Longrightarrow> mul_div 0 x d = Ok 0" for x d :: u256
    by (simp_all add: mul_div_rounding_up_Ok mul_div_Ok ceil_div_def)
  have d: "d \<noteq> 0 \<Longrightarrow> div_rounding_up 0 d = Ok 0" "d \<noteq> 0 \<Longrightarrow> u_div 0 d = Ok 0" for d :: u256
    by (simp_all add: div_rounding_up_def u_div_def u_rem_def Let_def)
  show "p \<noteq> 0 \<Longrightarrow> q \<noteq> 0 \<Longrightarrow> u_get_amount_0_delta p q 0 r = Ok 0"
    by (simp add: u_get_amount_0_delta_def Let_def z d)
  have "(4294967296 * 2 ^ 64 :: u256) \<noteq> 0" by (simp add: power_numeral)
  then show "u_get_amount_1_delta p q 0 r = Ok 0"
    by (simp add: u_get_amount_1_delta_def Let_def z)
qed

lemma idle_step:
  assumes "p \<noteq> 0" "q \<noteq> 0" "0 \<le> sint amt" "fee < 1000000"
  shows "compute_swap_step p q 0 amt fee = Ok (q, 0, 0, 0)"
proof -
  have f: "unat (ucast (1000000 - fee) :: u256) = 1000000 - unat fee" by (rule unat_fee_pips_complement [OF assms(4)])
  have "unat fee < 1000000" using assms(4) by (simp add: word_less_nat_alt)
  with f have nz: "(ucast (1000000 - fee) :: u256) \<noteq> 0" by (metis unat_0 zero_less_diff less_numeral_extra(3))
  have le: "unat amt * unat (ucast (1000000 - fee) :: u256) div 1000000 \<le> unat amt"
    unfolding f by (rule div_le_mono [THEN order_trans, of _ "unat amt * 1000000"]) simp_all
  have "unat amt * unat (ucast (1000000 - fee) :: u256) div 1000000 < 2 ^ 256"
    using le unat_bound [of amt] by simp
  then obtain less_fee where "mul_div amt (ucast (1000000 - fee)) 1000000 = Ok less_fee"
    using mul_div_Ok [of amt "ucast (1000000 - fee)" 1000000 "word_of_nat (unat amt * unat (ucast (1000000 - fee) :: u256) div 1000000)"]
    by (auto simp: unsigned_of_nat take_bit_nat_eq_self)
  moreover have "mul_div_rounding_up 0 (ucast fee) (ucast (1000000 - fee)) = Ok 0"
    using nz by (simp add: mul_div_rounding_up_Ok ceil_div_def)
  ultimately show ?thesis
    using assms by (simp add: compute_swap_step_def Let_def idle_delta)
qed

lemma idle_search:
  assumes "MIN_TICK \<le> t" "t \<le> MAX_TICK"
  shows "0 \<le> t \<Longrightarrow> \<not> bit (word_or_zero (G 0)) 0 \<Longrightarrow>
      next_initialized_tick_within_one_word G t 2147483647 True = Ok (0, False)"
    and "t < 0 \<Longrightarrow> word_or_zero (G (- 1)) = 0 \<Longrightarrow>
      next_initialized_tick_within_one_word G t 2147483647 True = Ok (256, False)"
proof -
  show "next_initialized_tick_within_one_word G t 2147483647 True = Ok (0, False)"
    if t: "0 \<le> t" and w: "\<not> bit (word_or_zero (G 0)) 0"
  proof -
    have "quot_i t 2147483647 = 0" using t assms by (simp add: quot_i_def MAX_TICK_def MIN_TICK_def)
    moreover have "word_or_zero (G 0) AND 1 = 0" using w by (simp add: and_one_eq bit_0 mod_2_eq_odd)
    moreover have "tick_position 0 = (0, 0)" by (simp add: tick_position_def rem_i_def quot_i_def wrap_i16_def)
    ultimately show ?thesis
      using t by (simp add: next_initialized_tick_within_one_word_def i32_div_def wrap_i32_def Let_def)
  qed
  show "next_initialized_tick_within_one_word G t 2147483647 True = Ok (256, False)"
    if t: "t < 0" and w: "word_or_zero (G (- 1)) = 0"
  proof -
    have "quot_i t 2147483647 = 0" "rem_i t 2147483647 \<noteq> 0"
      using t assms by (simp_all add: quot_i_def rem_i_def MIN_TICK_def)
    moreover have "tick_position (- 1) = (- 1, 255)"
      by (simp add: tick_position_def rem_i_def quot_i_def wrap_i16_def power_numeral)
    ultimately show ?thesis
      using t w by (simp add: next_initialized_tick_within_one_word_def i32_div_def i32_rem_def wrap_i32_def Let_def power_numeral)
  qed
qed

definition stalled :: "i256 \<Rightarrow> v3_loop \<Rightarrow> bool" where
  \<comment> \<open>nothing has been taken or paid and no liquidity is in range\<close>
  "stalled amt st \<longleftrightarrow> l_liquidity st = 0 \<and> l_remaining st = amt \<and> l_calculated st = 0 \<and>
     MIN_TICK \<le> l_tick st \<and> l_tick st \<le> MAX_TICK \<and> l_sqrt_price st \<notin> {0, sqrt_price_limit True}"

definition stranded :: "V3Snapshot \<Rightarrow> bool" where
  \<comment> \<open>the largest spacing, no liquidity, neither tick 0 nor a tick of the word below it initialised\<close>
  "stranded pool \<longleftrightarrow>
     v3_tick_spacing pool = 2 ^ 31 - 1 \<and> v3_liquidity pool = 0 \<and> v3_fee_bps pool < 10000 \<and>
     MIN_TICK \<le> v3_tick pool \<and> v3_tick pool \<le> MAX_TICK \<and> v3_sqrt_price_x96 pool \<notin> {0, sqrt_price_limit True} \<and>
     \<not> bit (case v3_tick_bitmap pool 0 of None \<Rightarrow> 0 | Some w \<Rightarrow> w) 0 \<and> v3_tick_bitmap pool (- 1) \<in> {None, Some 0}"

lemma cyclic_price: "get_sqrt_ratio_at_tick 256 = Ok 80248749790819932309965073893"
  by (simp add: get_sqrt_ratio_at_tick_def ratio_step_def from_limbs_def u256_from_i32_def u_div_def
      u_max_def power_numeral)

lemma stalled_body:
  assumes pool: "stranded pool" and st: "stalled amt st" and amt: "0 \<le> sint amt" and fee: "fee < 1000000"
  shows "\<exists>st'. loop_body pool fee (sqrt_price_limit True) True st = Ok st' \<and> stalled amt st'"
proof -
  have s: "v3_tick_spacing pool = 2147483647" using pool by (simp add: stranded_def power_numeral)
  have l: "l_liquidity st = 0" "l_remaining st = amt" "l_calculated st = 0" "l_sqrt_price st \<noteq> 0"
    "MIN_TICK \<le> l_tick st" "l_tick st \<le> MAX_TICK" using st by (simp_all add: stalled_def)
  define n where "n = (if 0 \<le> l_tick st then 0 else 256 :: int)"
  define q where "q = (if 0 \<le> l_tick st then 79228162514264337593543950336 else 80248749790819932309965073893 :: u256)"
  have search: "next_initialized_tick_within_one_word (get_tick pool) (l_tick st) (v3_tick_spacing pool) True = Ok (n, False)"
    using idle_search [OF l(5,6), of "get_tick pool"] pool
    unfolding s n_def by (auto simp: stranded_def get_tick_def word_or_zero_def)
  have clamp: "max MIN_TICK (min n MAX_TICK) = n" by (simp add: n_def MIN_TICK_def MAX_TICK_def)
  have price: "get_sqrt_ratio_at_tick n = Ok q" by (simp add: n_def q_def price_at_0 cyclic_price)
  have target: "max q (sqrt_price_limit True) = q" "q \<noteq> 0" "q \<noteq> sqrt_price_limit True"
    by (simp_all add: q_def sqrt_price_limit_def MIN_SQRT_RATIO_def from_limbs_def power_numeral)
  have step: "compute_swap_step (l_sqrt_price st) q 0 amt fee = Ok (q, 0, 0, 0)"
    by (rule idle_step [OF l(4) target(2) amt fee])
  have sub: "i_checked_sub v 0 = Some v" for v :: i256
    using sint_ge [of v] sint_less [of v] by (simp add: i_checked_sub_def Let_def)
  show ?thesis
    unfolding loop_body_def search map_err.simps obind.simps prod.case Let_def clamp price
    using target step l
    by (simp add: checked_add_def i_try_from_def sub stalled_def)
      (simp add: n_def wrap_i32_def MIN_TICK_def MAX_TICK_def power_numeral)
qed

section \<open>Properties\<close>

text \<open>
  C4. The swap loop ends: on every snapshot whose tick fits the bitmap and whose spacing is at
  most \<open>2^20\<close>, both entry points return (a value, an error or a panic) for every amount and
  direction.
\<close>

theorem v3_swap_terminates:
  assumes "tick_ok (v3_tick pool)" "v3_tick_spacing pool \<le> 2 ^ 20"
  shows "\<exists>r r'. amount_out_with_state pool amt z = Some r \<and> v3_amount_out pool amt z = Some r'"
proof (cases "checked_start pool amt")
  case (Ok x)
  obtain fee st where x: "x = (fee, st)" by force
  note c = checked_start_Ok [OF Ok [unfolded x]]
  have "spacing_ok (v3_tick_spacing pool)" using c assms by (simp add: spacing_ok_def)
  from v3_loop_terminates [OF _ c(2) this, of st z] loop_start_ok [OF assms(1) c(5)] c(4)
  show ?thesis using Ok x by (auto simp: amount_out_with_state_def v3_amount_out_def)
qed (simp_all add: amount_out_with_state_def v3_amount_out_def)

theorem v3_swap_terminates_witness:
  "tick_ok 0 \<and> (\<exists>r. amount_out_with_state
    \<lparr>v3_sqrt_price_x96 = 2 ^ 96, v3_liquidity = 1000000, v3_tick = 0, v3_fee_bps = 30, v3_tick_spacing = 60,
      v3_tick_bitmap = Map.empty, v3_tick_net_liquidity = Map.empty\<rparr> 5000 True = Some r)"
proof -
  let ?pool = "\<lparr>v3_sqrt_price_x96 = 2 ^ 96, v3_liquidity = 1000000, v3_tick = 0, v3_fee_bps = 30, v3_tick_spacing = 60,
      v3_tick_bitmap = Map.empty, v3_tick_net_liquidity = Map.empty\<rparr>"
  have ok: "tick_ok 0" by (simp add: tick_ok_def power_numeral)
  with v3_swap_terminates [of ?pool 5000 True] show ?thesis by (auto simp: power_numeral)
qed

text \<open>
  C2. A successful swap on a consistent snapshot moves the price in the direction asked for,
  never past the limit, and changes nothing of the snapshot but price, tick and liquidity.
\<close>

theorem v3_swap_price_direction:
  assumes "amount_out_with_state pool amt z = Some (Ok (out, pool'))" "amt \<noteq> 0"
    "snapshot_ok pool" "nets_ok pool" "inside_limit z (v3_sqrt_price_x96 pool)"
  shows "moved z (v3_sqrt_price_x96 pool) (v3_sqrt_price_x96 pool') \<and> inside_limit z (v3_sqrt_price_x96 pool')
    \<and> pool' = pool\<lparr>v3_sqrt_price_x96 := v3_sqrt_price_x96 pool', v3_tick := v3_tick pool',
        v3_liquidity := v3_liquidity pool'\<rparr>"
  by (rule swap_result [OF assms]) (simp add: swap_inv_def)

theorem v3_swap_price_direction_witness:
  "amount_out_with_state sample_pool 1 True
     = Some (Ok (0, sample_pool\<lparr>v3_tick := - 1, v3_liquidity := 1237940039285380274899124217\<rparr>))
   \<and> snapshot_ok sample_pool \<and> nets_ok sample_pool
   \<and> moved True (v3_sqrt_price_x96 sample_pool)
       (v3_sqrt_price_x96 (sample_pool\<lparr>v3_tick := - 1, v3_liquidity := 1237940039285380274899124217\<rparr>))"
  using v3_swap_price_direction [OF sample_run _ sample_ok] sample_run sample_ok by simp

text \<open>
  C3. The liquidity after a successful swap is the starting liquidity with the net liquidity of
  exactly the initialised ticks whose price lies on the way to the final price, subtracted when
  the price falls and added when it rises: no tick is skipped and none is counted twice.
\<close>

theorem v3_swap_liquidity_accounts:
  assumes "amount_out_with_state pool amt z = Some (Ok (out, pool'))" "amt \<noteq> 0"
    "snapshot_ok pool" "nets_ok pool" "inside_limit z (v3_sqrt_price_x96 pool)"
  shows "int (unat (v3_liquidity pool')) = int (unat (v3_liquidity pool))
    + (if z then - 1 else 1) * (\<Sum>c\<in>crossed_ticks pool z (v3_sqrt_price_x96 pool').
        net_at pool (c * v3_tick_spacing pool))"
  by (rule swap_result [OF assms]) (simp add: swap_inv_def accounted_def)

theorem v3_swap_liquidity_accounts_witness:
  "snapshot_ok sample_pool \<and> nets_ok sample_pool \<and> inside_limit True (v3_sqrt_price_x96 sample_pool)
   \<and> (\<Sum>c\<in>crossed_ticks sample_pool True (v3_sqrt_price_x96 sample_pool). net_at sample_pool (c * 60)) = 7"
  using v3_swap_liquidity_accounts [OF sample_run _ sample_ok] sample_ok by (simp add: sample_fields)

text \<open>
  \<open>amount_out\<close> is the output of \<open>amount_out_with_state\<close> on every nonzero input, errors and
  nontermination included; on a zero input the first fails and the second returns zero.
\<close>

theorem v3_amount_out_agrees:
  "v3_amount_out pool amt z =
     (if amt = 0 then Some (Err (Msg ''v3::amount_out: amount_in is zero''))
      else map_option (\<lambda>r. obind r (\<lambda>(out, pool'). Ok out)) (amount_out_with_state pool amt z))
   \<and> amount_out_with_state pool 0 z = Some (Ok (0, pool))"
  by (cases "checked_start pool amt")
    (auto simp: v3_amount_out_def amount_out_with_state_def option.map_comp comp_def obind_assoc split: prod.splits)


definition cyclic_pool :: V3Snapshot where
  "cyclic_pool = \<lparr>v3_sqrt_price_x96 = 79228162514264337593543950336, v3_liquidity = 0, v3_tick = 0,
     v3_fee_bps = 30, v3_tick_spacing = 2147483647, v3_tick_bitmap = Map.empty, v3_tick_net_liquidity = Map.empty\<rparr>"


text \<open>
  The search over a snapshot's bitmap returns the nearest initialised tick: for a tick that
  fits the bitmap it returns a multiple \<open>n\<close> of the spacing on the side asked for, says whether
  \<open>n\<close> is initialised, and no initialised tick lies between.
\<close>

theorem next_tick_nearest:
  assumes "tick_ok t" "spacing_ok s"
  shows "\<exists>n ini. next_initialized_tick_within_one_word (get_tick pool) t s lte = Ok (n * s, ini)
    \<and> (ini \<longleftrightarrow> marked (v3_tick_bitmap pool) n)
    \<and> (if lte then n * s \<le> t \<and> (\<forall>c. marked (v3_tick_bitmap pool) c \<and> c * s \<le> t \<longrightarrow> c \<le> n)
       else t < n * s \<and> (\<forall>c. marked (v3_tick_bitmap pool) c \<and> t < c * s \<longrightarrow> n \<le> c))"
proof -
  obtain tn ini where r: "next_initialized_tick_within_one_word (get_tick pool) t s lte = Ok (tn, ini)"
    using search_result [OF assms, of pool lte] by blast
  show ?thesis by (rule search_gap [OF assms r]) (use r in \<open>auto split: if_splits\<close>)
qed

theorem next_tick_nearest_witness:
  "tick_ok 0 \<and> spacing_ok 60
   \<and> (\<exists>n ini. next_initialized_tick_within_one_word (get_tick sample_pool) 0 60 True = Ok (n * 60, ini))"
proof -
  have ok: "tick_ok 0" "spacing_ok 60" by (simp_all add: tick_ok_def spacing_ok_def power_numeral)
  show ?thesis using ok next_tick_nearest [OF ok, of sample_pool True] by blast
qed

end
