(* ===== verification/V4_Pool.thy ===== *)
theory V4_Pool
  imports V3_Pool
begin

text \<open>
  \<open>simulation/v4.rs\<close>: a V4 pool is a V3 snapshot behind a hook address. The permissions of the
  hook are the low bits of its address; a hook that can intercept a swap makes the quote fail.
\<close>

unbundle bit_operations_syntax

record V4Snapshot =
  v4_key :: u256 \<comment> \<open>\<open>B256\<close>\<close>
  v4_hooks :: u160 \<comment> \<open>\<open>Address\<close>\<close>
  v4_inner :: V3Snapshot

definition HOOK_BEFORE_SWAP :: u16 where
  "HOOK_BEFORE_SWAP = push_bit 7 1"

definition HOOK_AFTER_SWAP :: u16 where
  "HOOK_AFTER_SWAP = push_bit 6 1"

definition HOOK_BEFORE_SWAP_RETURNS_DELTA :: u16 where
  "HOOK_BEFORE_SWAP_RETURNS_DELTA = push_bit 3 1"

definition HOOK_AFTER_SWAP_RETURNS_DELTA :: u16 where
  "HOOK_AFTER_SWAP_RETURNS_DELTA = push_bit 2 1"

definition SWAP_AFFECTING_HOOK_MASK :: u16 where
  "SWAP_AFFECTING_HOOK_MASK = HOOK_BEFORE_SWAP OR HOOK_AFTER_SWAP
     OR HOOK_BEFORE_SWAP_RETURNS_DELTA OR HOOK_AFTER_SWAP_RETURNS_DELTA"

definition address_byte :: "u160 \<Rightarrow> nat \<Rightarrow> u8" where
  \<comment> \<open>byte \<open>i\<close> of the big-endian address\<close>
  "address_byte a i = ucast (drop_bit (8 * (19 - i)) a)"

definition requires_revm_step :: "V4Snapshot \<Rightarrow> bool" where
  "requires_revm_step pool =
     (if v4_hooks pool = 0 then False
      else
        let low_bits = push_bit 8 (ucast (address_byte (v4_hooks pool) 18)) + ucast (address_byte (v4_hooks pool) 19)
        in low_bits AND SWAP_AFFECTING_HOOK_MASK \<noteq> 0)"

definition v4_amount_out :: "V4Snapshot \<Rightarrow> u256 \<Rightarrow> bool \<Rightarrow> u256 eyre_result option" where
  "v4_amount_out pool amount_in zero_for_one =
     (if requires_revm_step pool
      then Some (Err (Msg ''v4::amount_out: pool hooks can intercept the swap; route through REVM''))
      else v3_amount_out (v4_inner pool) amount_in zero_for_one)"

lemma bit_low_bits:
  assumes "i < 16"
  shows "bit (push_bit 8 (ucast (address_byte a 18)) + ucast (address_byte a 19) :: u16) i \<longleftrightarrow> bit a i"
proof -
  let ?h = "push_bit 8 (ucast (address_byte a 18)) :: u16" and ?l = "ucast (address_byte a 19) :: u16"
  have h: "bit ?h j \<longleftrightarrow> 8 \<le> j \<and> j < 16 \<and> bit a j" for j
    by (auto simp: bit_push_bit_iff bit_ucast_iff address_byte_def bit_drop_bit_eq)
  have l: "bit ?l j \<longleftrightarrow> j < 8 \<and> bit a j" for j
    by (auto simp: bit_ucast_iff address_byte_def)
  have "?h + ?l = ?h OR ?l" by (rule disjunctive_add) (auto simp: h l)
  then show ?thesis using assms by (auto simp: bit_or_iff h l)
qed

lemma requires_revm_step_iff:
  "requires_revm_step pool \<longleftrightarrow>
     bit (v4_hooks pool) 2 \<or> bit (v4_hooks pool) 3 \<or> bit (v4_hooks pool) 6 \<or> bit (v4_hooks pool) 7"
proof -
  let ?low = "push_bit 8 (ucast (address_byte (v4_hooks pool) 18)) + ucast (address_byte (v4_hooks pool) 19) :: u16"
  have m: "bit SWAP_AFFECTING_HOOK_MASK i \<longleftrightarrow> i = 2 \<or> i = 3 \<or> i = 6 \<or> i = 7" for i
    unfolding SWAP_AFFECTING_HOOK_MASK_def HOOK_BEFORE_SWAP_def HOOK_AFTER_SWAP_def
      HOOK_BEFORE_SWAP_RETURNS_DELTA_def HOOK_AFTER_SWAP_RETURNS_DELTA_def
    by (auto simp: bit_or_iff bit_exp_iff simp del: power_numeral)
  have "?low AND SWAP_AFFECTING_HOOK_MASK \<noteq> 0 \<longleftrightarrow> (\<exists>i. bit (?low AND SWAP_AFFECTING_HOOK_MASK) i)"
    by (metis bit_0_eq bit_eqI bot_apply bot_bool_def)
  also have "\<dots> \<longleftrightarrow> bit (v4_hooks pool) 2 \<or> bit (v4_hooks pool) 3 \<or> bit (v4_hooks pool) 6 \<or> bit (v4_hooks pool) 7"
    using bit_low_bits [of 2 "v4_hooks pool"] bit_low_bits [of 3 "v4_hooks pool"]
      bit_low_bits [of 6 "v4_hooks pool"] bit_low_bits [of 7 "v4_hooks pool"]
    unfolding bit_and_iff m by auto
  finally show ?thesis unfolding requires_revm_step_def Let_def by auto
qed

text \<open>
  A V4 quote is refused exactly when bit 2, 3, 6 or 7 of the hook address is set (the
  callbacks that can change a swap); otherwise it is the V3 quote of the inner snapshot.
\<close>

theorem v4_amount_out_hooks:
  "v4_amount_out pool amt z =
     (if bit (v4_hooks pool) 2 \<or> bit (v4_hooks pool) 3 \<or> bit (v4_hooks pool) 6 \<or> bit (v4_hooks pool) 7
      then Some (Err (Msg ''v4::amount_out: pool hooks can intercept the swap; route through REVM''))
      else v3_amount_out (v4_inner pool) amt z)"
  by (simp add: v4_amount_out_def requires_revm_step_iff)

end
