(* ===== verification/V2_Pool.thy ===== *)
theory V2_Pool
  imports U256_Utils
begin

text \<open>
  \<open>src/rust/src/simulation/v2.rs\<close>: constant-product quotes. \<open>v2_amount_out\<close> is
  \<open>amount_out\<close> and \<open>amount_in_for_out\<close> its inverse. The theory shows the exact formula, that a
  swap never decreases the product of the reserves, and that the two quotes form a Galois
  connection: the inverse returns the least input that buys the wanted output.
\<close>

section \<open>The routines\<close>

definition validate_reserves :: "u256 \<Rightarrow> u256 \<Rightarrow> unit eyre_result" where
  "validate_reserves reserve_in reserve_out =
     (if reserve_in = 0 \<or> reserve_out = 0
      then Err (Msg ''v2: reserves must be non-zero'') else Ok ())"

definition validate_fee_bps :: "u32 \<Rightarrow> unit eyre_result" where
  "validate_fee_bps fee_bps =
     (if 10000 \<le> fee_bps then Err (Msg ''v2: fee_bps must be < 10000'') else Ok ())"

definition fee_complement :: "u32 \<Rightarrow> u64" where
  \<comment> \<open>\<open>10_000u64 - u64::from(fee_bps)\<close>\<close>
  "fee_complement fee_bps = 10000 - ucast fee_bps"

definition v2_amount_out :: "u256 \<Rightarrow> u256 \<Rightarrow> u256 \<Rightarrow> u32 \<Rightarrow> u256 eyre_result" where
  "v2_amount_out amount_in reserve_in reserve_out fee_bps =
     obind (validate_reserves reserve_in reserve_out) (\<lambda>_.
     obind (validate_fee_bps fee_bps) (\<lambda>_.
     if amount_in = 0 then Err (Msg ''v2::amount_out: amount_in is zero'')
     else
       let fee_denom = 10000;
           fee_num = ucast (fee_complement fee_bps)
       in
       obind (ok_or (checked_mul amount_in fee_num)
         (Msg ''v2::amount_out: amount_in * fee_num overflow'')) (\<lambda>amount_in_with_fee.
       obind (ok_or (Option.bind (checked_mul reserve_in fee_denom)
           (\<lambda>base. checked_add base amount_in_with_fee))
         (Msg ''v2::amount_out: denominator overflow'')) (\<lambda>denominator.
         u256_mul_div amount_in_with_fee reserve_out denominator))))"

definition amount_in_for_out :: "u256 \<Rightarrow> u256 \<Rightarrow> u256 \<Rightarrow> u32 \<Rightarrow> u256 eyre_result" where
  "amount_in_for_out amount_out reserve_in reserve_out fee_bps =
     obind (validate_reserves reserve_in reserve_out) (\<lambda>_.
     obind (validate_fee_bps fee_bps) (\<lambda>_.
     if amount_out = 0 then Err (Msg ''v2::amount_in_for_out: amount_out is zero'')
     else if reserve_out \<le> amount_out then
       Err (Msg ''v2::amount_in_for_out: amount_out exceeds reserve_out'')
     else
       let fee_denom = 10000 :: u256;
           fee_num = ucast (fee_complement fee_bps) :: u256;
           numerator = to_u512 reserve_in * to_u512 amount_out * to_u512 fee_denom;
           denominator = to_u512 (reserve_out - amount_out) * to_u512 fee_num
       in
       if denominator = 0 then Err (Msg ''v2::amount_in_for_out: denominator is zero'')
       else
         obind (u_div numerator denominator) (\<lambda>q.
         obind (u_rem numerator denominator) (\<lambda>r.
           let rounded = q + (if r = 0 then 0 else 1)
           in narrow_u512 rounded ''v2::amount_in_for_out: required input overflows U256''))))"

section \<open>Natural-number readings\<close>

lemma unat_fee_num:
  assumes "fee < 10000"
  shows "unat (ucast (fee_complement fee) :: u256) = 10000 - unat fee"
proof -
  have f: "unat fee < 10000" using assms by (simp add: word_less_nat_alt)
  then have uf: "unat (ucast fee :: u64) = unat fee"
    by (simp add: unsigned_ucast_eq take_bit_nat_eq_self power_numeral)
  have "(ucast fee :: u64) \<le> 10000" using f by (simp add: word_le_nat_alt uf)
  then have c: "unat (fee_complement fee) = 10000 - unat fee"
    by (simp add: fee_complement_def unat_sub uf)
  then have "unat (fee_complement fee) < 2 ^ 256" by (simp add: power_numeral)
  then show ?thesis by (simp add: unsigned_ucast_eq take_bit_nat_eq_self c)
qed

definition v2_quote :: "nat \<Rightarrow> nat \<Rightarrow> nat \<Rightarrow> nat \<Rightarrow> nat" where
  \<comment> \<open>the real-valued constant-product quote, floored; \<open>f\<close> is ten thousand less the fee\<close>
  "v2_quote a x y f = (a * f * y) div (x * 10000 + a * f)"

lemma v2_amount_out_Ok:
  "v2_amount_out a x y fee = Ok out \<longleftrightarrow>
     a \<noteq> 0 \<and> x \<noteq> 0 \<and> y \<noteq> 0 \<and> fee < 10000
     \<and> unat x * 10000 + unat a * (10000 - unat fee) < 2 ^ 256
     \<and> unat out = v2_quote (unat a) (unat x) (unat y) (10000 - unat fee)"
    (is "?L \<longleftrightarrow> ?R")
proof (cases "a \<noteq> 0 \<and> x \<noteq> 0 \<and> y \<noteq> 0 \<and> fee < 10000")
  case False
  then show ?thesis
    by (auto simp: v2_amount_out_def validate_reserves_def validate_fee_bps_def linorder_not_le)
next
  case True
  let ?f = "ucast (fee_complement fee) :: u256" and ?g = "10000 - unat fee"
  have f: "unat ?f = ?g" using True by (simp add: unat_fee_num)
  have pos: "0 < unat x" using True by (simp add: unat_gt_0)
  have "?L \<longleftrightarrow> (\<exists>w. checked_mul a ?f = Some w \<and> (\<exists>b. checked_mul x 10000 = Some b \<and>
      (\<exists>d. checked_add b w = Some d \<and> d \<noteq> 0 \<and> unat out = unat w * unat y div unat d)))"
    using True
    by (auto simp: v2_amount_out_def validate_reserves_def validate_fee_bps_def linorder_not_le
        Let_def obind_eq_Ok ok_or_eq_Ok bind_eq_Some_conv u256_mul_div_Ok)
  also have "\<dots> \<longleftrightarrow> (\<exists>w :: u256. unat w = unat a * ?g \<and> (\<exists>b :: u256. unat b = unat x * 10000 \<and>
      (\<exists>d :: u256. unat d = unat b + unat w \<and> d \<noteq> 0 \<and> unat out = unat w * unat y div unat d)))"
    by (simp add: checked_mul_Some checked_add_Some f)
  also have "\<dots> \<longleftrightarrow> unat x * 10000 + unat a * ?g < 2 ^ 256
      \<and> unat out = v2_quote (unat a) (unat x) (unat y) ?g" (is "?E \<longleftrightarrow> ?B \<and> ?Q")
  proof
    assume ?E
    then obtain w b d :: u256 where "unat w = unat a * ?g" "unat b = unat x * 10000"
      "unat d = unat b + unat w" "unat out = unat w * unat y div unat d" by blast
    with unat_bound_256 [of d] show "?B \<and> ?Q" by (simp add: v2_quote_def)
  next
    assume b: "?B \<and> ?Q"
    let ?w = "word_of_nat (unat a * ?g) :: u256" and ?b = "word_of_nat (unat x * 10000) :: u256"
    let ?d = "word_of_nat (unat x * 10000 + unat a * ?g) :: u256"
    have "unat ?w = unat a * ?g" "unat ?b = unat x * 10000" "unat ?d = unat x * 10000 + unat a * ?g"
      using b by (simp_all add: unat_of_nat del: of_nat_add of_nat_mult)
    moreover from this(3) pos have "?d \<noteq> 0" by (auto simp del: of_nat_add of_nat_mult)
    ultimately show ?E
      using b
      by (intro exI [of _ ?w] exI [of _ ?b] exI [of _ ?d] conjI)
        (simp_all add: v2_quote_def del: of_nat_add of_nat_mult)
  qed
  finally show ?thesis using True by blast
qed

lemma amount_in_for_out_Ok:
  assumes fits: "unat x * unat o' * 10000 < 2 ^ 512"
  shows "amount_in_for_out o' x y fee = Ok a \<longleftrightarrow>
     o' \<noteq> 0 \<and> x \<noteq> 0 \<and> y \<noteq> 0 \<and> fee < 10000 \<and> o' < y
     \<and> unat a = ceil_div (unat x * unat o' * 10000) ((unat y - unat o') * (10000 - unat fee))"
proof (cases "o' \<noteq> 0 \<and> x \<noteq> 0 \<and> y \<noteq> 0 \<and> fee < 10000 \<and> o' < y")
  case False
  then show ?thesis
    by (auto simp: amount_in_for_out_def validate_reserves_def validate_fee_bps_def linorder_not_le)
next
  case True
  let ?f = "ucast (fee_complement fee) :: u256" and ?g = "10000 - unat fee"
  let ?n = "to_u512 x * to_u512 o' * to_u512 10000" and ?d = "to_u512 (y - o') * to_u512 ?f"
  have f: "unat ?f = ?g" using True by (simp add: unat_fee_num)
  have n: "unat ?n = unat x * unat o' * 10000"
    using fits by (simp only: unat_word_ariths(2) [of _ "to_u512 10000"] square_fits_u512) simp
  have "unat (y - o') = unat y - unat o'" using True by (intro unat_sub) (simp add: less_imp_le)
  then have d: "unat ?d = (unat y - unat o') * ?g" by (simp only: square_fits_u512 f)
  have "0 < unat y - unat o'" "0 < ?g" using True by (auto simp: word_less_nat_alt)
  then have dpos: "0 < unat ?d" by (simp only: d nat_0_less_mult_iff)
  then have dnz: "?d \<noteq> 0" by (rule unat_gt_0 [THEN iffD1])
  note r = unat_ceil_div [OF dnz, of ?n]
  have c: "\<not> y \<le> o'" "\<not> 10000 \<le> fee" using True by (simp_all add: linorder_not_le)
  have "amount_in_for_out o' x y fee =
      narrow_u512 (?n div ?d + (if ?n mod ?d = 0 then 0 else 1))
        ''v2::amount_in_for_out: required input overflows U256''"
    using c True dnz
    by (simp add: amount_in_for_out_def validate_reserves_def validate_fee_bps_def
        Let_def u_div_def u_rem_def)
  then show ?thesis using True by (simp only: narrow_u512_Ok r n d) simp
qed

section \<open>Constant-product arithmetic\<close>

lemma v2_quote_ge_iff:
  assumes "0 < x" "0 < f" "k < y"
  shows "k \<le> v2_quote a x y f \<longleftrightarrow> ceil_div (x * k * 10000) ((y - k) * f) \<le> a"
proof -
  obtain z where z: "y = k + z" "0 < z" using assms(3) by (metis less_imp_add_positive)
  have "k \<le> v2_quote a x y f \<longleftrightarrow> k * (x * 10000 + a * f) \<le> a * f * y"
    using assms(1) by (simp add: v2_quote_def less_eq_div_iff_mult_less_eq)
  also have "\<dots> \<longleftrightarrow> x * k * 10000 \<le> a * ((y - k) * f)"
    by (simp add: z algebra_simps)
  also have "\<dots> \<longleftrightarrow> ceil_div (x * k * 10000) ((y - k) * f) \<le> a"
    using assms z by (simp add: ceil_div_le)
  finally show ?thesis .
qed

lemma v2_quote_lt_reserve:
  assumes "0 < x" "0 < y"
  shows "v2_quote a x y f < y"
proof -
  have "a * f * y < y * (x * 10000 + a * f)" using assms by (simp add: algebra_simps)
  then show ?thesis using assms(1) by (simp add: v2_quote_def div_less_iff_less_mult)
qed

lemma v2_quote_keeps_product:
  assumes "0 < x" "f \<le> 10000" "v2_quote a x y f \<le> y"
  shows "x * y \<le> (x + a) * (y - v2_quote a x y f)"
proof -
  let ?q = "v2_quote a x y f"
  obtain z where z: "y = ?q + z" using assms(3) le_Suc_ex by blast
  have "?q * (x * 10000 + a * f) \<le> a * f * y"
    unfolding v2_quote_def by (rule div_times_less_eq_dividend)
  then have "?q * x * 10000 \<le> a * f * z" by (subst (asm) (2) z) (simp add: algebra_simps)
  also have "\<dots> \<le> a * 10000 * z" using assms(2) by simp
  finally have "?q * x \<le> a * z" by simp
  moreover have "x * y = x * z + ?q * x" by (subst z) (simp add: algebra_simps)
  moreover have "(x + a) * (y - ?q) = x * z + a * z" by (subst (1) z) (simp add: algebra_simps)
  ultimately show ?thesis by linarith
qed

lemma v2_quote_mono: "a \<le> a' \<Longrightarrow> 0 < x \<Longrightarrow> 0 < f \<Longrightarrow> 0 < y \<Longrightarrow> v2_quote a x y f \<le> v2_quote a' x y f"
  using v2_quote_ge_iff [of x f "v2_quote a x y f" y] v2_quote_lt_reserve [of x y]
  by (metis dual_order.refl order_trans)

section \<open>Properties\<close>

text \<open>
  \<open>amount_out\<close> quotes the floored constant-product formula, always below the output
  reserve, and a swap at the quoted price never decreases the product of the reserves.
\<close>

theorem v2_amount_out_safe:
  assumes "v2_amount_out a x y fee = Ok out"
  shows "unat out = (unat a * (10000 - unat fee) * unat y)
        div (unat x * 10000 + unat a * (10000 - unat fee))
    \<and> unat out < unat y
    \<and> unat x * unat y \<le> (unat x + unat a) * (unat y - unat out)"
proof -
  from assms have pos: "0 < unat x" "0 < unat y"
    and out: "unat out = v2_quote (unat a) (unat x) (unat y) (10000 - unat fee)"
    by (auto simp: v2_amount_out_Ok unat_gt_0)
  show ?thesis
    using v2_quote_lt_reserve [OF pos] v2_quote_keeps_product [OF pos(1)]
    by (simp add: out less_imp_le) (simp add: v2_quote_def)
qed

theorem v2_amount_out_safe_witness:
  "v2_amount_out 1000 10000 20000 30 = Ok 1813
   \<and> (10000 :: nat) * 20000 \<le> (10000 + 1000) * (20000 - 1813)"
proof -
  have h: "v2_amount_out 1000 10000 20000 30 = Ok 1813"
    by (simp add: v2_amount_out_Ok v2_quote_def power_numeral)
  show ?thesis using h v2_amount_out_safe [OF h] by simp
qed

text \<open>
  \<open>amount_in_for_out\<close> is the exact inverse of \<open>amount_out\<close>: whenever its 512-bit numerator
  does not wrap, an input buys at least the wanted output if and only if it is at least the
  quoted input.
\<close>

theorem amount_in_for_out_galois:
  assumes "unat x * unat want * 10000 < 2 ^ 512"
    and "amount_in_for_out want x y fee = Ok need"
    and "v2_amount_out a x y fee = Ok out"
  shows "want \<le> out \<longleftrightarrow> need \<le> a"
proof -
  have need: "unat need = ceil_div (unat x * unat want * 10000) ((unat y - unat want) * (10000 - unat fee))"
    and want: "unat want < unat y" and fee: "unat fee < 10000"
    using assms(1,2) by (auto simp: amount_in_for_out_Ok word_less_nat_alt)
  have "0 < unat x" "unat out = v2_quote (unat a) (unat x) (unat y) (10000 - unat fee)"
    using assms(3) by (auto simp: v2_amount_out_Ok unat_gt_0)
  then show ?thesis
    using v2_quote_ge_iff [of "unat x" "10000 - unat fee" "unat want" "unat y" "unat a"] want fee
    by (simp add: word_le_nat_alt need)
qed

theorem amount_in_for_out_galois_witness:
  "amount_in_for_out 1813 10000 20000 30 = Ok 1000 \<and> v2_amount_out 999 10000 20000 30 = Ok 1811
   \<and> ((1813 :: u256) \<le> 1811 \<longleftrightarrow> (1000 :: u256) \<le> 999)"
proof -
  have f: "unat (10000 :: u256) * unat (1813 :: u256) * 10000 < 2 ^ 512"
    by (simp add: power_numeral)
  have n: "amount_in_for_out 1813 10000 20000 30 = Ok 1000"
    using f by (simp add: amount_in_for_out_Ok ceil_div_def)
  have o: "v2_amount_out 999 10000 20000 30 = Ok 1811"
    by (simp add: v2_amount_out_Ok v2_quote_def power_numeral)
  show ?thesis using n o amount_in_for_out_galois [OF f n o] by blast
qed

end
