(* ===== verification/Search.thy ===== *)
theory Search
  imports Rust_Prelude
begin

text \<open>
  The numerical searches of the optimisers (\<open>v2_optimize.rs\<close>, \<open>v3_optimize.rs\<close>,
  \<open>curve_optimize.rs\<close>), written once over the function they sample. A sample may fail, panic or
  not return at all, so the loops run in the monad of such computations. The contract of an
  interval search is a locale: the interval only shrinks.
\<close>

section \<open>Computations that may not return\<close>

type_synonym ('a, 'e) run = "('a, 'e) outcome option" \<comment> \<open>\<open>None\<close>: the computation runs forever\<close>

definition rbind :: "('a, 'e) run \<Rightarrow> ('a \<Rightarrow> ('b, 'e) run) \<Rightarrow> ('b, 'e) run" where
  "rbind m f = (case m of None \<Rightarrow> None
     | Some (Ok x) \<Rightarrow> f x | Some (Err e) \<Rightarrow> Some (Err e) | Some Panic \<Rightarrow> Some Panic)"

abbreviation ret :: "'a \<Rightarrow> ('a, 'e) run" where
  "ret x \<equiv> Some (Ok x)"

lemma rbind_simps [simp]:
  "rbind None f = None" "rbind (Some (Ok x)) f = f x"
  "rbind (Some (Err e)) f = Some (Err e)" "rbind (Some Panic) f = Some Panic"
  by (simp_all add: rbind_def)

lemma rbind_eq_Ok [outcome_simps]: "rbind m f = Some (Ok y) \<longleftrightarrow> (\<exists>x. m = Some (Ok x) \<and> f x = Some (Ok y))"
  by (auto simp: rbind_def split: option.splits outcome.splits)

lemma rbind_cong [fundef_cong]:
  "m = m' \<Longrightarrow> (\<And>x. m' = Some (Ok x) \<Longrightarrow> f x = f' x) \<Longrightarrow> rbind m f = rbind m' f'"
  by (auto simp: rbind_def split: option.splits outcome.splits)

section \<open>The loops\<close>

fun ternary_loop :: "nat \<Rightarrow> (u256 \<Rightarrow> (int, 'e) run) \<Rightarrow> u256 \<Rightarrow> u256 \<Rightarrow> (u256 \<times> u256, 'e) run" where
  "ternary_loop 0 profit low high = ret (low, high)"
| "ternary_loop (Suc n) profit low high =
     (let diff = high - low
      in if diff \<le> 100 then ret (low, high)
         else
           let m1 = low + diff div 3;
               m2 = high - diff div 3
           in rbind (profit m1) (\<lambda>p1. rbind (profit m2) (\<lambda>p2.
                if p1 < p2 then ternary_loop n profit m1 high else ternary_loop n profit low m2)))"

fun golden_loop :: "nat \<Rightarrow> (u256 \<Rightarrow> (int, 'e) run) \<Rightarrow> u256 \<Rightarrow> u256 \<Rightarrow> (u256 \<times> u256, 'e) run" where
  "golden_loop 0 profit lo hi = ret (lo, hi)"
| "golden_loop (Suc n) profit lo hi =
     (if hi - lo \<le> 100 then ret (lo, hi)
      else
        let span = hi - lo;
            c = lo + span * 382 div 1000;
            d = lo + span * 618 div 1000
        in rbind (profit c) (\<lambda>pc. rbind (profit d) (\<lambda>pd.
             if pd \<le> pc then golden_loop n profit lo d else golden_loop n profit c hi)))"

fun doubling_loop :: "nat \<Rightarrow> (u256 \<Rightarrow> (bool, 'e) run) \<Rightarrow> u256 \<Rightarrow> (u256, 'e) run" where
  \<comment> \<open>double \<open>hi\<close> until the test says stop\<close>
  "doubling_loop 0 stop hi = ret hi"
| "doubling_loop (Suc n) stop hi =
     rbind (stop hi) (\<lambda>b. if b then ret hi else doubling_loop n stop (push_bit 1 hi))"

fun bisect_loop :: "nat \<Rightarrow> (u256 \<Rightarrow> (bool, 'e) run) \<Rightarrow> u256 \<Rightarrow> u256 \<Rightarrow> (u256, 'e) run" where
  \<comment> \<open>bisection that keeps a passing \<open>lo\<close>\<close>
  "bisect_loop 0 pass lo hi = ret lo"
| "bisect_loop (Suc n) pass lo hi =
     (if hi - lo \<le> 1 then ret lo
      else
        let mid = drop_bit 1 (lo + hi)
        in rbind (pass mid) (\<lambda>b. if b then bisect_loop n pass mid hi else bisect_loop n pass lo mid))"

definition ternary_search :: "(u256 \<Rightarrow> (int, 'e) run) \<Rightarrow> u256 \<Rightarrow> (u256, 'e) run" where
  \<comment> \<open>the body of \<open>optimal_input_2pool_v3\<close> and \<open>optimal_input_2pool_curve\<close> after the bound is known\<close>
  "ternary_search profit high =
     (if high = 0 then ret 0
      else rbind (ternary_loop 128 profit 0 high) (\<lambda>(low, high).
        let final_x = (low + high) div 2
        in rbind (profit final_x) (\<lambda>final_profit. ret (if final_profit \<le> 0 then 0 else final_x))))"

definition golden_search :: "(u256 \<Rightarrow> (int, 'e) run) \<Rightarrow> u256 \<Rightarrow> (u256, 'e) run" where
  \<comment> \<open>the body of the two \<open>optimal_sandwich_size\<close> functions\<close>
  "golden_search profit a_max =
     (if a_max = 0 then ret 0
      else rbind (golden_loop 64 profit 0 a_max) (\<lambda>(lo, hi).
        rbind (profit lo) (\<lambda>pl. rbind (profit hi) (\<lambda>ph. ret (if ph \<le> pl then lo else hi)))))"

section \<open>The contract of an interval search\<close>

locale interval_search =
  fixes loop :: "(u256 \<Rightarrow> (int, 'e) run) \<Rightarrow> u256 \<Rightarrow> u256 \<Rightarrow> (u256 \<times> u256, 'e) run" and bound :: nat
  assumes shrinks: "lo \<le> hi \<Longrightarrow> unat hi < bound \<Longrightarrow> loop profit lo hi = Some (Ok (lo', hi')) \<Longrightarrow>
    lo \<le> lo' \<and> lo' \<le> hi' \<and> hi' \<le> hi"
begin

lemma midpoint:
  assumes "lo \<le> hi" "unat hi < bound" "unat hi < 2 ^ 255" "loop profit lo hi = Some (Ok (lo', hi'))"
  shows "lo \<le> (lo' + hi') div 2" "(lo' + hi') div 2 \<le> hi"
proof -
  have o: "lo \<le> lo'" "lo' \<le> hi'" "hi' \<le> hi" using shrinks [OF assms(1,2,4)] by auto
  have "unat lo' + unat hi' < 2 ^ 255 + 2 ^ 255"
    using o assms(3) by (intro add_strict_mono) (simp_all add: word_le_nat_alt)
  then have "unat lo' + unat hi' < 2 ^ 256" by (simp add: power_numeral)
  then have "unat ((lo' + hi') div 2) = (unat lo' + unat hi') div 2"
    by (simp add: unat_div unat_word_ariths(1))
  with o show "lo \<le> (lo' + hi') div 2" "(lo' + hi') div 2 \<le> hi" by (simp_all add: word_le_nat_alt)
qed

lemma ends:
  assumes "lo \<le> hi" "unat hi < bound" "loop profit lo hi = Some (Ok (lo', hi'))"
  shows "lo' \<le> hi" "hi' \<le> hi"
  using shrinks [OF assms] by auto

end

lemma third_bounds:
  fixes lo hi :: u256
  assumes "lo \<le> hi"
  shows "lo \<le> lo + (hi - lo) div 3" "lo + (hi - lo) div 3 \<le> hi" "lo \<le> hi - (hi - lo) div 3" "hi - (hi - lo) div 3 \<le> hi"
proof -
  have d: "unat ((hi - lo) div 3) = (unat hi - unat lo) div 3"
    using assms by (simp add: unat_div unat_sub)
  have le: "unat lo \<le> unat hi" using assms by (simp add: word_le_nat_alt)
  have "unat lo + unat ((hi - lo) div 3) < 2 ^ 256" using d le unat_bound [of hi] by simp
  then have s: "unat (lo + (hi - lo) div 3) = unat lo + (unat hi - unat lo) div 3"
    by (simp only: unat_word_ariths(1) d) simp
  have "(hi - lo) div 3 \<le> hi" using d by (simp add: word_le_nat_alt)
  then have t: "unat (hi - (hi - lo) div 3) = unat hi - (unat hi - unat lo) div 3"
    by (simp only: unat_sub d)
  show "lo \<le> lo + (hi - lo) div 3" "lo + (hi - lo) div 3 \<le> hi" "lo \<le> hi - (hi - lo) div 3" "hi - (hi - lo) div 3 \<le> hi"
    using le by (simp_all only: word_le_nat_alt s t)
qed

lemma ternary_shrinks:
  "lo \<le> hi \<Longrightarrow> ternary_loop n profit lo hi = Some (Ok (lo', hi')) \<Longrightarrow> lo \<le> lo' \<and> lo' \<le> hi' \<and> hi' \<le> hi"
proof (induction n arbitrary: lo hi)
  case (Suc n)
  note b = third_bounds [OF Suc.prems(1)]
  show ?case
  proof (cases "hi - lo \<le> 100")
    case True
    then show ?thesis using Suc.prems by simp
  next
    case False
    with Suc.prems(2) obtain p1 p2 :: int where
      r: "(if p1 < p2 then ternary_loop n profit (lo + (hi - lo) div 3) hi
        else ternary_loop n profit lo (hi - (hi - lo) div 3)) = Some (Ok (lo', hi'))"
      by (simp only: ternary_loop.simps Let_def if_False rbind_eq_Ok) blast
    show ?thesis
    proof (cases "p1 < p2")
      case True
      with Suc.IH [OF b(2)] r b show ?thesis by force
    next
      case False
      with Suc.IH [OF b(3)] r b show ?thesis by force
    qed
  qed
qed simp

lemma golden_point:
  fixes lo hi :: u256
  assumes "lo \<le> hi" "unat hi < 2 ^ 246" "c \<le> 618"
  shows "lo \<le> lo + (hi - lo) * word_of_nat c div 1000" "lo + (hi - lo) * word_of_nat c div 1000 \<le> hi"
proof -
  have le: "unat lo \<le> unat hi" using assms(1) by (simp add: word_le_nat_alt)
  have c: "unat (word_of_nat c :: u256) = c" using assms(3) by (intro unat_word_of_nat) (simp add: power_numeral)
  have "(unat hi - unat lo) * c \<le> unat hi * 618" using assms(3) by (intro mult_le_mono) simp_all
  also have "\<dots> < 2 ^ 256" using assms(2) by (simp add: power_numeral)
  finally have "unat ((hi - lo) * word_of_nat c) = (unat hi - unat lo) * c"
    using assms(1) by (simp add: unat_word_ariths(2) unat_sub c)
  then have q: "unat ((hi - lo) * word_of_nat c div 1000) = (unat hi - unat lo) * c div 1000"
    by (simp add: unat_div)
  have "(unat hi - unat lo) * c \<le> (unat hi - unat lo) * 1000" using assms(3) by (intro mult_le_mono2) simp
  then have qle: "(unat hi - unat lo) * c div 1000 \<le> unat hi - unat lo"
    by (metis div_le_mono nonzero_mult_div_cancel_right zero_neq_numeral)
  have "unat lo + unat ((hi - lo) * word_of_nat c div 1000) < 2 ^ 256"
    using q qle le unat_bound [of hi] by simp
  then have "unat (lo + (hi - lo) * word_of_nat c div 1000) = unat lo + (unat hi - unat lo) * c div 1000"
    by (simp only: unat_word_ariths(1) q) simp
  then show "lo \<le> lo + (hi - lo) * word_of_nat c div 1000" "lo + (hi - lo) * word_of_nat c div 1000 \<le> hi"
    using le qle by (simp_all only: word_le_nat_alt)
qed

lemma golden_shrinks:
  "lo \<le> hi \<Longrightarrow> unat hi < 2 ^ 246 \<Longrightarrow> golden_loop n profit lo hi = Some (Ok (lo', hi')) \<Longrightarrow>
    lo \<le> lo' \<and> lo' \<le> hi' \<and> hi' \<le> hi"
proof (induction n arbitrary: lo hi)
  case (Suc n)
  let ?c = "lo + (hi - lo) * 382 div 1000" and ?d = "lo + (hi - lo) * 618 div 1000"
  have b: "?c \<le> hi" "lo \<le> ?c" "lo \<le> ?d" "?d \<le> hi"
    using golden_point [OF Suc.prems(1,2), of 382] golden_point [OF Suc.prems(1,2), of 618] by simp_all
  then have "unat ?d < 2 ^ 246" using Suc.prems(2) by (simp add: word_le_nat_alt)
  note small = this
  show ?case
  proof (cases "hi - lo \<le> 100")
    case True
    then show ?thesis using Suc.prems by simp
  next
    case False
    with Suc.prems(3) obtain pc pd :: int where
      r: "(if pd \<le> pc then golden_loop n profit lo ?d else golden_loop n profit ?c hi) = Some (Ok (lo', hi'))"
      by (simp only: golden_loop.simps Let_def if_False rbind_eq_Ok) blast
    show ?thesis
    proof (cases "pd \<le> pc")
      case True
      with Suc.IH [OF b(3) small] r b show ?thesis by force
    next
      case False
      with Suc.IH [OF b(1) Suc.prems(2)] r b show ?thesis by force
    qed
  qed
qed simp

interpretation ternary: interval_search "ternary_loop n" "2 ^ 256" for n
  by unfold_locales (rule ternary_shrinks)

interpretation golden: interval_search "golden_loop n" "2 ^ 246" for n
  by unfold_locales (rule golden_shrinks)

section \<open>Bisection keeps a passing point\<close>

lemma bisect_passes:
  "bisect_loop n pass lo hi = Some (Ok r) \<Longrightarrow> r = lo \<or> pass r = Some (Ok True)"
  by (induction n pass lo hi rule: bisect_loop.induct) (auto simp: Let_def rbind_eq_Ok split: if_splits)

section \<open>Results of the searches\<close>

lemma ternary_search_result:
  assumes "ternary_search profit high = Some (Ok x)" "unat high < 2 ^ 255"
  shows "x \<le> high" "x \<noteq> 0 \<Longrightarrow> \<exists>p. profit x = ret p \<and> 0 < p"
proof -
  have "x \<le> high \<and> (x \<noteq> 0 \<longrightarrow> (\<exists>p. profit x = ret p \<and> 0 < p))"
  proof (cases "high = 0")
    case True
    then show ?thesis using assms(1) by (simp add: ternary_search_def)
  next
    case False
    then obtain lo' hi' p where run: "ternary_loop 128 profit 0 high = Some (Ok (lo', hi'))"
      and p: "profit ((lo' + hi') div 2) = ret p" and x: "x = (if p \<le> 0 then 0 else (lo' + hi') div 2)"
      using assms(1) by (auto simp: ternary_search_def rbind_eq_Ok Let_def)
    have "(lo' + hi') div 2 \<le> high"
      using ternary.midpoint(2) [OF _ _ assms(2) run] unat_bound [of high] by simp
    with p x show ?thesis by auto
  qed
  then show "x \<le> high" "x \<noteq> 0 \<Longrightarrow> \<exists>p. profit x = ret p \<and> 0 < p" by auto
qed

lemma golden_search_result:
  assumes "golden_search profit a_max = Some (Ok x)" "unat a_max < 2 ^ 246"
  shows "x \<le> a_max"
proof (cases "a_max = 0")
  case True
  then show ?thesis using assms(1) by (simp add: golden_search_def)
next
  case False
  then obtain lo' hi' where run: "golden_loop 64 profit 0 a_max = Some (Ok (lo', hi'))"
    and x: "x = lo' \<or> x = hi'"
    using assms(1) by (auto simp: golden_search_def rbind_eq_Ok split: if_splits)
  from golden.ends [OF _ assms(2) run] x show ?thesis by auto
qed

text \<open>A search over a function that always returns always returns.\<close>

lemma rbind_returns: "\<exists>y. m = Some y \<Longrightarrow> (\<And>x. \<exists>y. f x = Some y) \<Longrightarrow> \<exists>y. rbind m f = Some y"
  by (auto simp: rbind_def split: option.splits outcome.splits)

lemma golden_loop_returns: "(\<And>a. \<exists>y. profit a = Some y) \<Longrightarrow> \<exists>y. golden_loop n profit lo hi = Some y"
  by (induction n arbitrary: lo hi) (simp_all add: Let_def rbind_returns)

lemma ternary_loop_returns: "(\<And>a. \<exists>y. profit a = Some y) \<Longrightarrow> \<exists>y. ternary_loop n profit lo hi = Some y"
  by (induction n arbitrary: lo hi) (simp_all add: Let_def rbind_returns)

lemma golden_search_returns: "(\<And>a. \<exists>y. profit a = Some y) \<Longrightarrow> \<exists>y. golden_search profit a_max = Some y"
  by (auto simp: golden_search_def golden_loop_returns intro!: rbind_returns)

lemma ternary_search_returns: "(\<And>a. \<exists>y. profit a = Some y) \<Longrightarrow> \<exists>y. ternary_search profit high = Some y"
  by (auto simp: ternary_search_def Let_def ternary_loop_returns intro!: rbind_returns)


text \<open>A search over a function that never panics never panics.\<close>

lemma rbind_eq_Panic [outcome_simps]:
  "rbind m f = Some Panic \<longleftrightarrow> m = Some Panic \<or> (\<exists>x. m = Some (Ok x) \<and> f x = Some Panic)"
  by (auto simp: rbind_def split: option.splits outcome.splits)

lemma ternary_loop_no_panic: "(\<And>a. profit a \<noteq> Some Panic) \<Longrightarrow> ternary_loop n profit lo hi \<noteq> Some Panic"
  by (induction n arbitrary: lo hi) (auto simp: Let_def rbind_eq_Panic)

lemma ternary_search_no_panic: "(\<And>a. profit a \<noteq> Some Panic) \<Longrightarrow> ternary_search profit hi \<noteq> Some Panic"
  by (auto simp: ternary_search_def Let_def rbind_eq_Panic ternary_loop_no_panic)

lemma golden_loop_no_panic: "(\<And>a. profit a \<noteq> Some Panic) \<Longrightarrow> golden_loop n profit lo hi \<noteq> Some Panic"
  by (induction n arbitrary: lo hi) (auto simp: Let_def rbind_eq_Panic)

lemma golden_search_no_panic: "(\<And>a. profit a \<noteq> Some Panic) \<Longrightarrow> golden_search profit hi \<noteq> Some Panic"
  by (auto simp: golden_search_def rbind_eq_Panic golden_loop_no_panic)

end
