(* ===== verification/V2_Optimize.thy ===== *)
theory V2_Optimize
  imports V2_Pool Search
begin

text \<open>
  \<open>simulation/v2_optimize.rs\<close>: closed-form sizes for two-pool cycles and sandwiches on
  constant-product pools, and the golden-section search for the unconstrained size. The unchecked
  \<open>U256\<close> and \<open>U512\<close> operators wrap, as in the source. The theory shows when the closed form
  returns zero, what quadratic the frontrun size solves, and that the search stays below its
  bound and returns the better end of its interval.
\<close>

section \<open>The routines\<close>

definition optimal_input_2pool ::
    "u256 \<Rightarrow> u256 \<Rightarrow> u32 \<Rightarrow> u256 \<Rightarrow> u256 \<Rightarrow> u32 \<Rightarrow> u256 eyre_result" where
  "optimal_input_2pool r_a1 r_b1 fee_bps1 r_b2 r_a2 fee_bps2 =
     (if r_a1 = 0 \<or> r_b1 = 0 \<or> r_b2 = 0 \<or> r_a2 = 0
      then Err (Msg ''v2_optimize: reserves must be non-zero'')
      else
        let g1_num = ucast (fee_complement fee_bps1) :: u512;
            g2_num = ucast (fee_complement fee_bps2) :: u512;
            d = 10000;
            k = to_u512 r_a1 * to_u512 r_b1 * to_u512 r_b2 * to_u512 r_a2 * g1_num * g2_num
        in
        obind (isqrt_u512 k) (\<lambda>sqrt_k.
        let term1 = sqrt_k div d;
            term2 = to_u512 r_a1 * to_u512 r_b2
        in
        if term1 \<le> term2 then Ok 0
        else
          let numerator = term1 - term2;
              denom_scaled = to_u512 r_b2 * d + to_u512 r_b1 * g1_num
          in
          obind (u_div (numerator * d) denom_scaled) (\<lambda>result.
            narrow_u512 result ''v2_optimize: optimal input overflows U256'')))"

definition chk_mul :: "string \<Rightarrow> u256 \<Rightarrow> u256 \<Rightarrow> u256 eyre_result" where
  \<comment> \<open>\<open>a.checked_mul(b).ok_or_else(|| eyre!(e))\<close>\<close>
  "chk_mul e a b = ok_or (checked_mul a b) (Msg e)"

definition chk_add :: "string \<Rightarrow> u256 \<Rightarrow> u256 \<Rightarrow> u256 eyre_result" where
  "chk_add e a b = ok_or (checked_add a b) (Msg e)"

definition chk_sub :: "string \<Rightarrow> u256 \<Rightarrow> u256 \<Rightarrow> u256 eyre_result" where
  "chk_sub e a b = ok_or (checked_sub a b) (Msg e)"

definition optimal_v2_frontrun_amount ::
    "u256 \<Rightarrow> u256 \<Rightarrow> u256 \<Rightarrow> u256 \<Rightarrow> u32 \<Rightarrow> u32 \<Rightarrow> u256 eyre_result" where
  "optimal_v2_frontrun_amount victim_amount_in victim_min_out reserve_in reserve_out fee_bps margin_bps =
     (if 10000 \<le> fee_bps \<or> 10000 \<le> margin_bps then Ok 0
      else if reserve_in = 0 \<or> reserve_out = 0 \<or> victim_amount_in = 0 \<or> victim_min_out = 0 then Ok 0
      else
        let g_bps = ucast (10000 - fee_bps) :: u256;
            bps_u256 = 10000 :: u256
        in
        obind (chk_mul ''overflow in optimal_v2_frontrun_amount victim_fee'' victim_amount_in g_bps) (\<lambda>victim_fee.
        obind (chk_mul ''overflow in optimal_v2_frontrun_amount numerator'' victim_fee reserve_out) (\<lambda>num.
        obind (chk_mul ''overflow in optimal_v2_frontrun_amount denominator reserve'' reserve_in bps_u256) (\<lambda>den0.
        obind (chk_add ''overflow in optimal_v2_frontrun_amount denominator add'' den0 victim_fee) (\<lambda>den.
        obind (u_div num den) (\<lambda>baseline_out.
        if baseline_out \<le> victim_min_out then Ok 0
        else
        obind (chk_mul ''overflow in optimal_v2_frontrun_amount c1 inner reserve'' reserve_in bps_u256) (\<lambda>inner0.
        obind (chk_add ''overflow in optimal_v2_frontrun_amount c1 inner add'' inner0 victim_fee) (\<lambda>inner.
        obind (chk_mul ''overflow in optimal_v2_frontrun_amount c1_pos'' reserve_in inner) (\<lambda>c1_pos0.
        obind (u_div c1_pos0 g_bps) (\<lambda>c1_pos.
        obind (chk_mul ''overflow in optimal_v2_frontrun_amount c1_neg reserve'' victim_amount_in reserve_in) (\<lambda>c1_neg0.
        obind (chk_mul ''overflow in optimal_v2_frontrun_amount c1_neg out'' c1_neg0 reserve_out) (\<lambda>c1_neg1.
        obind (u_div c1_neg1 victim_min_out) (\<lambda>c1_neg.
        if c1_neg \<le> c1_pos then Ok 0
        else
        let abs_c1 = c1_neg - c1_pos
        in
        obind (chk_add ''overflow in optimal_v2_frontrun_amount bps_plus_gamma'' bps_u256 g_bps) (\<lambda>bps_plus_gamma.
        obind (chk_mul ''overflow in optimal_v2_frontrun_amount b1_lhs'' reserve_in bps_plus_gamma) (\<lambda>b1_lhs0.
        obind (u_div b1_lhs0 g_bps) (\<lambda>b1_lhs.
        obind (chk_mul ''overflow in optimal_v2_frontrun_amount b1_rhs'' g_bps victim_amount_in) (\<lambda>b1_rhs0.
        obind (u_div b1_rhs0 bps_u256) (\<lambda>b1_rhs.
        obind (chk_add ''overflow in optimal_v2_frontrun_amount b1'' b1_lhs b1_rhs) (\<lambda>b1.
        let half_b = b1 div 2
        in
        obind (chk_mul ''overflow in optimal_v2_frontrun_amount half_b_sq'' half_b half_b) (\<lambda>half_b_sq.
        obind (chk_add ''overflow in optimal_v2_frontrun_amount discriminant'' half_b_sq abs_c1) (\<lambda>disc.
        obind (isqrt disc) (\<lambda>sqrt_disc.
        if sqrt_disc \<le> half_b then Ok 0
        else
        let frontrun_amount = sqrt_disc - half_b
        in
        if 0 < margin_bps then
          obind (chk_sub ''underflow in optimal_v2_frontrun_amount margin'' bps_u256 (ucast margin_bps)) (\<lambda>margin_factor.
          obind (chk_mul ''overflow in optimal_v2_frontrun_amount margin mul'' frontrun_amount margin_factor) (\<lambda>scaled.
            u_div scaled bps_u256))
        else Ok frontrun_amount))))))))))))))))))))))"

definition v2_mid_price_x96 :: "u256 \<Rightarrow> u256 \<Rightarrow> u256" where
  "v2_mid_price_x96 reserve_in reserve_out =
     (if reserve_in = 0 then 0 else push_bit 96 reserve_out div reserve_in)"

definition saturating_add_i32 :: "i32 \<Rightarrow> i32 \<Rightarrow> i32" where
  "saturating_add_i32 a b = max (- (2 ^ 31)) (min (2 ^ 31 - 1) (a + b))"

definition apply_gap_to_price_x96 :: "u256 \<Rightarrow> i32 \<Rightarrow> u256" where
  "apply_gap_to_price_x96 price_x96 gap_bps =
     (if gap_bps = 0 then price_x96
      else
        let factor = saturating_add_i32 10000 gap_bps
        in if factor \<le> 0 then 0
           else
             let scaled = (case checked_mul price_x96 (word_of_int factor) of None \<Rightarrow> u_max | Some v \<Rightarrow> v)
             in scaled div 10000)"

definition synthetic_victim_amount_in :: "i32 \<Rightarrow> u256 \<Rightarrow> u256" where
  "synthetic_victim_amount_in gap_bps reserve_in =
     (let mag = nat \<bar>gap_bps\<bar>
      in if mag = 0 then 0
         else let fraction = word_of_nat (min mag 5000) in reserve_in * fraction div 10000)"

definition v2_sandwich_max_size ::
    "u256 \<Rightarrow> u256 \<Rightarrow> u256 \<Rightarrow> u256 \<Rightarrow> u32 \<Rightarrow> u256 eyre_result" where
  "v2_sandwich_max_size victim_amount_in victim_min_out reserve_in reserve_out fee_bps =
     (if 10000 \<le> fee_bps then Ok 0
      else if reserve_in = 0 \<or> reserve_out = 0 \<or> victim_amount_in = 0 then Ok 0
      else
        let f = ucast (10000 - fee_bps) :: u256;
            d = 10000 :: u256
        in
        obind (u_div (reserve_out * victim_amount_in * f) (reserve_in * d + victim_amount_in * f)) (\<lambda>baseline_out.
        if baseline_out \<le> victim_min_out then Ok 0
        else
        let x0d = reserve_in * d;
            vf = victim_amount_in * f;
            l = victim_min_out;
            a_coeff = l * f * d;
            b_coeff = l * (x0d * (d + f) + victim_amount_in * f * f);
            c_pos = l * x0d * (x0d + vf);
            c_neg = reserve_out * x0d * vf
        in
        if c_neg \<le> c_pos then Ok 0
        else
        let neg_c = c_neg - c_pos;
            a512 = to_u512 a_coeff;
            b512 = to_u512 b_coeff;
            c512 = to_u512 neg_c
        in
        obind (ok_or (checked_mul b512 b512) (Msg ''b_coeff^2 overflow'')) (\<lambda>b_sq.
        obind (ok_or (checked_add b_sq (4 * a512 * c512)) (Msg ''disc overflow'')) (\<lambda>disc.
        obind (isqrt_u512 disc) (\<lambda>sqrt_disc.
        if sqrt_disc \<le> b512 then Ok 0
        else
          obind (u_div (sqrt_disc - b512) (2 * a512)) (\<lambda>res.
            narrow_u512 res ''v2_optimize: sandwich max size overflows U256''))))))"

definition v2_profit_at :: "u256 \<Rightarrow> u256 \<Rightarrow> u256 \<Rightarrow> u32 \<Rightarrow> u256 \<Rightarrow> u256 eyre_result" where
  \<comment> \<open>the closure \<open>profit_at\<close> of \<open>v2_optimal_sandwich_size\<close>\<close>
  "v2_profit_at victim_amount_in reserve_in reserve_out fee_bps a =
     (if a = 0 then Ok 0
      else
        let f = ucast (10000 - fee_bps :: u32) :: u256;
            d = 10000
        in
        obind (u_div (reserve_out * a * f) (reserve_in * d + a * f)) (\<lambda>fr_out.
        let x1 = reserve_in + a;
            y1 = reserve_out - fr_out
        in
        obind (u_div (y1 * victim_amount_in * f) (x1 * d + victim_amount_in * f)) (\<lambda>v_out.
        let x2 = x1 + victim_amount_in;
            y2 = y1 - v_out
        in
        obind (u_div (x2 * fr_out * f) (y2 * d + fr_out * f)) (\<lambda>br_out.
          Ok (if a < br_out then br_out - a else 0)))))"

definition lift_profit :: "('p \<Rightarrow> int) \<Rightarrow> ('p, 'e) outcome \<Rightarrow> (int, 'e) run" where
  \<comment> \<open>a profit that always returns, read as an integer\<close>
  "lift_profit val p = Some (obind p (\<lambda>v. Ok (val v)))"

definition v2_optimal_sandwich_size ::
    "u256 \<Rightarrow> u256 \<Rightarrow> u256 \<Rightarrow> u32 \<Rightarrow> u256 \<Rightarrow> (u256, report) run" where
  "v2_optimal_sandwich_size victim_amount_in reserve_in reserve_out fee_bps a_max =
     golden_search (\<lambda>a. lift_profit uint (v2_profit_at victim_amount_in reserve_in reserve_out fee_bps a)) a_max"

section \<open>Two-pool cycles\<close>

lemma chk_Ok [outcome_simps]:
  "chk_mul e a b = Ok c \<longleftrightarrow> unat c = unat a * unat b"
  "chk_add e a b = Ok c \<longleftrightarrow> unat c = unat a + unat b"
  "chk_sub e a b = Ok c \<longleftrightarrow> unat a = unat b + unat c"
  by (simp_all add: chk_mul_def chk_add_def chk_sub_def ok_or_eq_Ok checked_mul_Some checked_add_Some checked_sub_Some)

lemma unat_fee_complement_u512:
  assumes "fee \<le> 10000"
  shows "unat (ucast (fee_complement fee) :: u512) = 10000 - unat fee"
proof -
  have "unat (ucast fee :: u64) = unat fee"
    using unat_bound [of fee] by (simp add: unsigned_ucast_eq take_bit_nat_eq_self power_numeral)
  then have "unat (fee_complement fee) = 10000 - unat fee"
    using assms by (simp add: fee_complement_def unat_sub word_le_nat_alt)
  then show ?thesis
    using unat_bound [of "fee_complement fee"] by (simp add: unsigned_ucast_eq take_bit_nat_eq_self power_numeral)
qed

lemma root_of_product_le:
  fixes a b r :: nat
  assumes "floor_root (a * b) r" "b \<le> a * (d * d)" "0 < d"
  shows "r div d \<le> a"
proof (rule ccontr)
  assume "\<not> r div d \<le> a"
  then have "(a + 1) * d \<le> r" using assms(3) by (simp add: less_eq_div_iff_mult_less_eq not_le Suc_le_eq [symmetric])
  then have "((a + 1) * d) * ((a + 1) * d) \<le> a * b"
    using assms(1) mult_le_mono [of "(a + 1) * d" r "(a + 1) * d" r] by (simp add: floor_root_def)
  also have "\<dots> \<le> a * (a * (d * d))" using assms(2) by (rule mult_le_mono2)
  finally have "(a + 1) * (a + 1) * (d * d) \<le> a * a * (d * d)" by (simp add: algebra_simps)
  then have "(a + 1) * (a + 1) \<le> a * a" using assms(3) by (simp only: mult_le_cancel2) simp
  then show False by simp
qed

lemma unat_product_u512:
  fixes a b c d x y :: u512
  assumes "unat a * unat b * unat c * unat d * unat x * unat y < 2 ^ 512" "x \<noteq> 0" "y \<noteq> 0"
  shows "unat (a * b * c * d * x * y) = unat a * unat b * unat c * unat d * unat x * unat y"
  using assms by (simp add: unat_word_ariths mod_mult_left_eq mod_mult_right_eq)

lemma optimal_input_eq:
  assumes nz: "r_a1 \<noteq> 0" "r_b1 \<noteq> 0" "r_b2 \<noteq> 0" "r_a2 \<noteq> 0" and fees: "fee1 < 10000" "fee2 < 10000"
    and fits: "unat r_a1 * unat r_b1 * unat r_b2 * unat r_a2 * (10000 - unat fee1) * (10000 - unat fee2) < 2 ^ 512"
  obtains r where
    "floor_root (unat r_a1 * unat r_b2 * (unat r_b1 * unat r_a2 * (10000 - unat fee1) * (10000 - unat fee2))) r"
    "r div 10000 \<le> unat r_a1 * unat r_b2 \<longrightarrow> optimal_input_2pool r_a1 r_b1 fee1 r_b2 r_a2 fee2 = Ok 0"
proof -
  let ?g1 = "ucast (fee_complement fee1) :: u512" and ?g2 = "ucast (fee_complement fee2) :: u512"
  have g: "unat ?g1 = 10000 - unat fee1" "unat ?g2 = 10000 - unat fee2"
    using fees by (simp_all add: unat_fee_complement_u512 less_imp_le)
  have "unat fee1 < 10000" "unat fee2 < 10000" using fees by (simp_all add: word_less_nat_alt)
  then have "0 < unat ?g1" "0 < unat ?g2" unfolding g by simp_all
  then have gnz: "?g1 \<noteq> 0" "?g2 \<noteq> 0" by (simp_all add: unat_gt_0)
  let ?k = "to_u512 r_a1 * to_u512 r_b1 * to_u512 r_b2 * to_u512 r_a2 * ?g1 * ?g2"
  have k: "unat ?k = unat r_a1 * unat r_b1 * unat r_b2 * unat r_a2 * (10000 - unat fee1) * (10000 - unat fee2)"
    using unat_product_u512 [OF _ gnz, of "to_u512 r_a1" "to_u512 r_b1" "to_u512 r_b2" "to_u512 r_a2"] fits g by simp
  obtain s where s: "isqrt_u512 ?k = (Ok s :: (u512, report) outcome)" "floor_root (unat ?k) (unat s)"
    using isqrt_u512_total [of ?k] isqrt_u512_Ok by metis
  have "unat (s div 10000) = unat s div 10000" by (simp add: unat_div)
  moreover have "unat (to_u512 r_a1 * to_u512 r_b2) = unat r_a1 * unat r_b2" by (simp add: square_fits_u512)
  ultimately have "optimal_input_2pool r_a1 r_b1 fee1 r_b2 r_a2 fee2 = Ok 0" if "unat s div 10000 \<le> unat r_a1 * unat r_b2"
    using nz s(1) that by (simp add: optimal_input_2pool_def Let_def word_le_nat_alt)
  moreover have "floor_root (unat r_a1 * unat r_b2 * (unat r_b1 * unat r_a2 * (10000 - unat fee1) * (10000 - unat fee2))) (unat s)"
    using s(2) unfolding k by (simp add: mult_ac)
  ultimately show ?thesis using that by blast
qed

text \<open>
  The closed form of the two-pool cycle invests nothing when there is nothing to gain: if the
  rate around the cycle after both fees is at most one, the optimal input is zero, for reserves
  whose product fits 512 bits.
\<close>

theorem optimal_input_2pool_no_arbitrage:
  assumes "r_a1 \<noteq> 0" "r_b1 \<noteq> 0" "r_b2 \<noteq> 0" "r_a2 \<noteq> 0" "fee1 < 10000" "fee2 < 10000"
    and "unat r_a1 * unat r_b1 * unat r_b2 * unat r_a2 * (10000 - unat fee1) * (10000 - unat fee2) < 2 ^ 512"
    and "unat r_b1 * unat r_a2 * (10000 - unat fee1) * (10000 - unat fee2) \<le> unat r_a1 * unat r_b2 * (10000 * 10000)"
  shows "optimal_input_2pool r_a1 r_b1 fee1 r_b2 r_a2 fee2 = Ok 0"
proof -
  obtain r where
    r: "floor_root (unat r_a1 * unat r_b2 * (unat r_b1 * unat r_a2 * (10000 - unat fee1) * (10000 - unat fee2))) r"
    "r div 10000 \<le> unat r_a1 * unat r_b2 \<longrightarrow> optimal_input_2pool r_a1 r_b1 fee1 r_b2 r_a2 fee2 = Ok 0"
    using optimal_input_eq [OF assms(1-7)] .
  from root_of_product_le [OF r(1) assms(8)] r(2) show ?thesis by simp
qed

theorem optimal_input_2pool_no_arbitrage_witness:
  "optimal_input_2pool 1000000 1000000 30 1000000 1000000 30 = Ok 0 \<and> (30 :: u32) < 10000"
  using optimal_input_2pool_no_arbitrage [of 1000000 1000000 1000000 1000000 30 30]
  by (simp add: power_numeral)

section \<open>Frontrun sizes\<close>

lemma root_solves_quadratic:
  fixes h c s :: nat
  assumes "floor_root (h * h + c) s" "h < s"
  shows "(s - h) * ((s - h) + 2 * h) \<le> c \<and> c < (s - h + 1) * ((s - h + 1) + 2 * h)"
proof -
  obtain a where s: "s = h + a" using assms(2) by (metis less_imp_add_positive)
  with assms(1) show ?thesis by (simp add: floor_root_def algebra_simps)
qed

definition half_linear :: "nat \<Rightarrow> nat \<Rightarrow> nat \<Rightarrow> nat" where
  \<comment> \<open>half the linear coefficient of the frontrun quadratic, as rounded by the code\<close>
  "half_linear v x g = (x * (10000 + g) div g + g * v div 10000) div 2"

definition constant_term :: "nat \<Rightarrow> nat \<Rightarrow> nat \<Rightarrow> nat \<Rightarrow> nat \<Rightarrow> nat" where
  "constant_term v m x y g = v * x * y div m - x * (x * 10000 + v * g) div g"


lemma frontrun_root:
  assumes run: "optimal_v2_frontrun_amount v m x y fee margin = Ok a" and "a \<noteq> 0"
  obtains g s h c :: u256 where "unat g = 10000 - unat fee" "m \<noteq> 0" "floor_root (unat h * unat h + unat c) (unat s)"
    "unat h = half_linear (unat v) (unat x) (unat g)" "unat c = constant_term (unat v) (unat m) (unat x) (unat y) (unat g)"
    "\<not> s \<le> h" "if 0 < margin then unat a \<le> unat (s - h) else a = s - h"
proof -
  let ?g = "ucast (10000 - fee :: u32) :: u256"
  from run \<open>a \<noteq> 0\<close> have b: "\<not> 10000 \<le> fee" "\<not> 10000 \<le> margin" "m \<noteq> 0" "x \<noteq> 0" "y \<noteq> 0" "v \<noteq> 0"
    by (auto simp: optimal_v2_frontrun_amount_def split: if_splits)
  then have lt: "unat fee < 10000" by (simp add: word_le_nat_alt)
  have "unat (10000 - fee) = 10000 - unat fee" using b(1) by (subst unat_sub) (simp_all add: word_le_nat_alt)
  then have g: "unat ?g = 10000 - unat fee"
    using unat_bound [of "10000 - fee"] by (simp add: unsigned_ucast_eq take_bit_nat_eq_self power_numeral)
  have z: "(if q then Ok 0 else M) = Ok a \<longleftrightarrow> \<not> q \<and> M = Ok a" for q and M :: "u256 eyre_result"
    using \<open>a \<noteq> 0\<close> by auto
  have pt: "(\<exists>w. (q \<and> w = t) \<and> P w) \<longleftrightarrow> q \<and> P t" for q t and P :: "u256 \<Rightarrow> bool" by blast
  note chain = run [unfolded optimal_v2_frontrun_amount_def Let_def z obind_eq_Ok chk_Ok u_div_eq_Ok isqrt_Ok pt]
  from chain obtain vf inner0 inner c1_pos0 c1_neg0 c1_neg1 bpg lhs0 rhs0 b1 hsq disc s :: u256 where
    e: "unat vf = unat v * unat ?g" "unat inner0 = unat x * unat (10000 :: u256)" "unat inner = unat inner0 + unat vf"
    "unat c1_pos0 = unat x * unat inner" "unat c1_neg0 = unat v * unat x" "unat c1_neg1 = unat c1_neg0 * unat y"
    "\<not> c1_neg1 div m \<le> c1_pos0 div ?g" "unat bpg = unat (10000 :: u256) + unat ?g" "unat lhs0 = unat x * unat bpg"
    "unat rhs0 = unat ?g * unat v" "unat b1 = unat (lhs0 div ?g) + unat (rhs0 div 10000)"
    "unat hsq = unat (b1 div 2) * unat (b1 div 2)" "unat disc = unat hsq + unat (c1_neg1 div m - c1_pos0 div ?g)"
    "floor_root (unat disc) (unat s)" "\<not> s \<le> b1 div 2"
    and fin: "(if 0 < margin then
          obind (chk_sub ''underflow in optimal_v2_frontrun_amount margin'' 10000 (ucast margin)) (\<lambda>margin_factor.
          obind (chk_mul ''overflow in optimal_v2_frontrun_amount margin mul'' (s - b1 div 2) margin_factor) (\<lambda>scaled.
            u_div scaled 10000))
        else Ok (s - b1 div 2)) = Ok a"
    by blast
  let ?h = "b1 div 2" and ?c = "c1_neg1 div m - c1_pos0 div ?g"
  have h: "unat ?h = half_linear (unat v) (unat x) (unat ?g)"
    using e by (simp add: half_linear_def unat_div)
  have c: "unat ?c = constant_term (unat v) (unat m) (unat x) (unat y) (unat ?g)"
    using e by (simp add: constant_term_def unat_div unat_sub)
  have last: "if 0 < margin then unat a \<le> unat (s - ?h) else a = s - ?h"
  proof (cases "0 < margin")
    case True
    with fin obtain mf scaled :: u256 where "unat (10000 :: u256) = unat (ucast margin :: u256) + unat mf"
      "unat scaled = unat (s - ?h) * unat mf" "a = scaled div 10000"
      by (auto simp only: if_True obind_eq_Ok chk_Ok u_div_eq_Ok)
    then have "unat a = unat (s - ?h) * unat mf div 10000" "unat mf \<le> 10000" by (simp_all add: unat_div)
    then show ?thesis using True scaled_le [of "unat mf" 10000 "unat (s - ?h)"] by simp
  qed (use fin in simp)
  from that [OF g b(3) _ h c e(15) last] e(12,13,14) show ?thesis by simp
qed

text \<open>
  A nonzero frontrun size without margin is the floor of the positive root of the quadratic
  \<open>a^2 + 2 h a = c\<close> whose coefficients are the rounded ones of the code; with a margin it is at
  most that root.
\<close>

theorem frontrun_solves_quadratic:
  assumes "optimal_v2_frontrun_amount v m x y fee margin = Ok a" "a \<noteq> 0"
  defines "g \<equiv> 10000 - unat fee"
  defines "h \<equiv> half_linear (unat v) (unat x) g" and "c \<equiv> constant_term (unat v) (unat m) (unat x) (unat y) g"
  shows "unat a * (unat a + 2 * h) \<le> c \<and> (margin = 0 \<longrightarrow> c < (unat a + 1) * (unat a + 1 + 2 * h))"
proof -
  obtain g' s h' c' :: u256 where o: "unat g' = 10000 - unat fee" "floor_root (unat h' * unat h' + unat c') (unat s)"
    "unat h' = half_linear (unat v) (unat x) (unat g')" "unat c' = constant_term (unat v) (unat m) (unat x) (unat y) (unat g')"
    "\<not> s \<le> h'" "if 0 < margin then unat a \<le> unat (s - h') else a = s - h'"
    using frontrun_root [OF assms(1,2)] by metis
  have hc: "unat h' = h" "unat c' = c" using o by (simp_all add: g_def h_def c_def)
  have lt: "unat h' < unat s" and d: "unat (s - h') = unat s - unat h'"
    using o(5) by (simp_all add: word_le_nat_alt unat_sub not_le)
  note q = root_solves_quadratic [OF o(2) lt, unfolded hc]
  have le: "unat a \<le> unat s - h" using o(6) d hc by (auto split: if_splits)
  then have "unat a * (unat a + 2 * h) \<le> (unat s - h) * ((unat s - h) + 2 * h)" by (intro mult_le_mono) simp_all
  with q have "unat a * (unat a + 2 * h) \<le> c" by linarith
  moreover have "c < (unat a + 1) * (unat a + 1 + 2 * h)" if "margin = 0" using q o(6) d hc that by simp
  ultimately show ?thesis by blast
qed

theorem frontrun_solves_quadratic_witness:
  "optimal_v2_frontrun_amount 100000 80000 1000000 1000000 30 0 = Ok 67724
   \<and> 67724 * (67724 + 2 * half_linear 100000 1000000 9970) \<le> constant_term 100000 80000 1000000 1000000 9970"
proof -
  have r: "isqrt 1252336206235 = (Ok 1119078 :: u256 eyre_result)" by (simp add: isqrt_Ok floor_root_def)
  have run: "optimal_v2_frontrun_amount 100000 80000 1000000 1000000 30 0 = Ok 67724"
    by (simp add: optimal_v2_frontrun_amount_def chk_mul_def chk_add_def checked_mul_def checked_add_def
        u_div_def r power_numeral)
  show ?thesis using run frontrun_solves_quadratic [OF run] by simp
qed

text \<open>
  The golden-section search over the sandwich profit always returns; its answer never exceeds
  the given maximum (below \<open>2^246\<close>, where the products of the search do not wrap).
\<close>

theorem v2_optimal_sandwich_size_bounded:
  assumes "unat a_max < 2 ^ 246"
  shows "case v2_optimal_sandwich_size v x y fee a_max of
      None \<Rightarrow> False | Some (Ok a) \<Rightarrow> a \<le> a_max | Some (Err e) \<Rightarrow> True | Some Panic \<Rightarrow> True"
proof -
  let ?p = "\<lambda>a. lift_profit uint (v2_profit_at v x y fee a)"
  obtain r where r: "golden_search ?p a_max = Some r"
    using golden_search_returns [of ?p a_max] by (auto simp: lift_profit_def)
  with golden_search_result [OF _ assms, of ?p] show ?thesis
    by (auto simp: v2_optimal_sandwich_size_def split: outcome.splits)
qed

theorem v2_optimal_sandwich_size_bounded_witness:
  "case v2_optimal_sandwich_size 1000 1000000 1000000 30 5000 of
     None \<Rightarrow> False | Some (Ok a) \<Rightarrow> a \<le> 5000 | Some (Err e) \<Rightarrow> True | Some Panic \<Rightarrow> True"
  by (rule v2_optimal_sandwich_size_bounded) (simp add: power_numeral)

end
