(* ===== verification/V3_Optimize.thy ===== *)
theory V3_Optimize
  imports V3_Pool V2_Optimize
begin

text \<open>
  \<open>simulation/v3_optimize.rs\<close>: the searches that price a cycle through a concentrated-liquidity
  pool and size a trade placed ahead of another one. The samples are whole swaps, which may fail
  or run forever; the searches of theory Search carry that through.
\<close>

section \<open>The routines\<close>

definition second_leg ::
    "bool \<Rightarrow> V3Snapshot option \<Rightarrow> (u256 \<times> u256 \<times> u32) option \<Rightarrow> u256 \<Rightarrow> (u256, report) run" where
  "second_leg p1_zfo pool2_v3 pool2_v2 out1 =
     (case pool2_v3 of
        Some p2v3 \<Rightarrow> v3_amount_out p2v3 out1 (\<not> p1_zfo)
      | None \<Rightarrow> (case pool2_v2 of
          Some (r_in, r_out, fee) \<Rightarrow> Some (v2_amount_out out1 r_in r_out fee)
        | None \<Rightarrow> ret 0))"

definition calculate_profit ::
    "V3Snapshot \<Rightarrow> bool \<Rightarrow> V3Snapshot option \<Rightarrow> (u256 \<times> u256 \<times> u32) option \<Rightarrow> u256 \<Rightarrow> (i256, report) run" where
  "calculate_profit pool1_v3 p1_zfo pool2_v3 pool2_v2 amount_in =
     (if amount_in = 0 then ret 0
      else
        rbind (v3_amount_out pool1_v3 amount_in p1_zfo) (\<lambda>out1.
        if out1 = 0 then ret (push_bit 255 1)
        else
          rbind (second_leg p1_zfo pool2_v3 pool2_v2 out1) (\<lambda>out2.
          rbind (Some (ok_or (i_try_from out2) (Msg ''v3 profit output overflows I256''))) (\<lambda>out2_i256.
          rbind (Some (ok_or (i_try_from amount_in) (Msg ''v3 profit input overflows I256''))) (\<lambda>amount_in_i256.
            ret (out2_i256 - amount_in_i256))))))"

definition as_int :: "(i256, 'e) run \<Rightarrow> (int, 'e) run" where
  \<comment> \<open>signed comparison of profits\<close>
  "as_int p = rbind p (\<lambda>v. ret (sint v))"

definition optimal_input_2pool_v3 ::
    "V3Snapshot \<Rightarrow> bool \<Rightarrow> V3Snapshot option \<Rightarrow> (u256 \<times> u256 \<times> u32) option \<Rightarrow> (u256, report) run" where
  "optimal_input_2pool_v3 pool1_v3 pool1_zero_for_one pool2_v3 pool2_v2 =
     ternary_search (\<lambda>a. as_int (calculate_profit pool1_v3 pool1_zero_for_one pool2_v3 pool2_v2 a))
       (case pool2_v2 of Some (r_in, _, _) \<Rightarrow> r_in | None \<Rightarrow> ucast (v3_liquidity pool1_v3) * 100)"

definition victim_out :: "V3Snapshot \<Rightarrow> u256 \<Rightarrow> bool \<Rightarrow> u256 \<Rightarrow> (u256, report) run" where
  \<comment> \<open>what the second trade receives after a first trade of size \<open>a\<close>\<close>
  "victim_out pool victim_amount_in zero_for_one a =
     rbind (amount_out_with_state pool a zero_for_one) (\<lambda>(_, next_pool).
       v3_amount_out next_pool victim_amount_in zero_for_one)"

definition v3_sandwich_max_size :: "V3Snapshot \<Rightarrow> u256 \<Rightarrow> u256 \<Rightarrow> bool \<Rightarrow> (u256, report) run" where
  "v3_sandwich_max_size pool victim_amount_in victim_min_out zero_for_one =
     rbind (v3_amount_out pool victim_amount_in zero_for_one) (\<lambda>baseline.
     if baseline \<le> victim_min_out then ret 0
     else
       rbind (doubling_loop 32 (\<lambda>hi. rbind (victim_out pool victim_amount_in zero_for_one hi)
           (\<lambda>vic_out. ret (vic_out \<le> victim_min_out))) victim_amount_in) (\<lambda>hi.
       bisect_loop 64 (\<lambda>mid. rbind (victim_out pool victim_amount_in zero_for_one mid)
         (\<lambda>vic_out. ret (victim_min_out \<le> vic_out))) 0 hi))"

definition v3_profit_at :: "V3Snapshot \<Rightarrow> u256 \<Rightarrow> bool \<Rightarrow> u256 \<Rightarrow> (i256, report) run" where
  "v3_profit_at pool victim_amount_in zero_for_one a =
     (if a = 0 then ret 0
      else
        rbind (amount_out_with_state pool a zero_for_one) (\<lambda>(fr_out, pool_after_fr).
        rbind (amount_out_with_state pool_after_fr victim_amount_in zero_for_one) (\<lambda>(_, pool_after_vic).
        rbind (v3_amount_out pool_after_vic fr_out (\<not> zero_for_one)) (\<lambda>br_out.
        rbind (Some (ok_or (i_try_from br_out) (Msg ''v3 br_out overflow''))) (\<lambda>br_out_i256.
        rbind (Some (ok_or (i_try_from a) (Msg ''v3 a overflow''))) (\<lambda>a_i256.
          ret (br_out_i256 - a_i256)))))))"

definition v3_optimal_sandwich_size :: "V3Snapshot \<Rightarrow> u256 \<Rightarrow> bool \<Rightarrow> u256 \<Rightarrow> (u256, report) run" where
  "v3_optimal_sandwich_size pool victim_amount_in zero_for_one a_max =
     golden_search (\<lambda>a. as_int (v3_profit_at pool victim_amount_in zero_for_one a)) a_max"

section \<open>Claims\<close>

lemma ternary_search_positive:
  "ternary_search f high = Some (Ok x) \<Longrightarrow> x = 0 \<or> (\<exists>p. f x = ret p \<and> 0 < p)"
  by (auto simp: ternary_search_def rbind_eq_Ok Let_def split: if_splits)

lemma sint_difference:
  assumes "i_try_from a = Some a'" "i_try_from b = Some b'"
  shows "sint (a' - b') = int (unat a) - int (unat b)"
proof -
  have e: "a' = a" "b' = b" "unat a < 2 ^ 255" "unat b < 2 ^ 255"
    using assms by (auto simp: i_try_from_def split: if_splits)
  have "int (unat a) < int (2 ^ 255)" "int (unat b) < int (2 ^ 255)" using e(3,4) by (simp_all only: of_nat_less_iff)
  then have "- (2 ^ 255) \<le> int (unat a) - int (unat b)" "int (unat a) - int (unat b) < 2 ^ 255"
    unfolding of_nat_power of_nat_numeral by linarith+
  then have "signed_take_bit 255 (int (unat a) - int (unat b)) = int (unat a) - int (unat b)"
    by (rule signed_take_bit_int_eq_self)
  then show ?thesis
    unfolding e(1,2) by (simp add: sint_word_ariths(2) sint_small e)
qed

text \<open>
  The input the search returns for a cycle that starts in a V3 pool is 0 or makes a strict
  profit: both legs succeed at that very input and the second pays out more than went in.
\<close>

theorem v3_search_profitable:
  "case optimal_input_2pool_v3 pool z pool2 v2 of
     None \<Rightarrow> True | Some Panic \<Rightarrow> True | Some (Err e) \<Rightarrow> True
   | Some (Ok x) \<Rightarrow> x = 0 \<or> (\<exists>out1 out2. v3_amount_out pool x z = ret out1
       \<and> second_leg z pool2 v2 out1 = ret out2 \<and> unat x < unat out2)"
proof -
  have "\<exists>out1 out2. v3_amount_out pool x z = ret out1 \<and> second_leg z pool2 v2 out1 = ret out2 \<and> unat x < unat out2"
    if run: "optimal_input_2pool_v3 pool z pool2 v2 = Some (Ok x)" "x \<noteq> 0" for x
  proof -
    obtain p where p: "calculate_profit pool z pool2 v2 x = ret p" "0 < sint p"
      using ternary_search_positive [OF run(1) [unfolded optimal_input_2pool_v3_def]] run(2)
      by (auto simp: as_int_def rbind_eq_Ok)
    obtain out1 where o1: "v3_amount_out pool x z = ret out1" using p(1) run(2) by (auto simp: calculate_profit_def rbind_eq_Ok)
    have "out1 \<noteq> 0" using p o1 run(2) by (auto simp: calculate_profit_def power_numeral)
    then obtain out2 o2 x' where "second_leg z pool2 v2 out1 = ret out2" "i_try_from out2 = Some o2"
      "i_try_from x = Some x'" "p = o2 - x'"
      using p(1) run(2) o1 by (auto simp: calculate_profit_def rbind_eq_Ok outcome_simps)
    with sint_difference [of out2 o2 x x'] p(2) o1 show ?thesis by (simp add: word_less_nat_alt [symmetric] word_less_def)
  qed
  then show ?thesis by (auto split: option.splits outcome.splits)
qed

text \<open>
  C31. A nonzero size from \<open>v3_sandwich_max_size\<close> is one after which the second trade still
  succeeds and receives at least its minimum.
\<close>

theorem v3_sandwich_victim_fills:
  "case v3_sandwich_max_size pool v min_out z of
     None \<Rightarrow> True | Some Panic \<Rightarrow> True | Some (Err e) \<Rightarrow> True
   | Some (Ok a) \<Rightarrow> a = 0 \<or> (\<exists>fr next out. amount_out_with_state pool a z = ret (fr, next)
       \<and> v3_amount_out next v z = ret out \<and> min_out \<le> out)"
proof -
  have "\<exists>fr next out. amount_out_with_state pool a z = ret (fr, next) \<and> v3_amount_out next v z = ret out \<and> min_out \<le> out"
    if run: "v3_sandwich_max_size pool v min_out z = Some (Ok a)" "a \<noteq> 0" for a
  proof -
    from run obtain hi where
      "bisect_loop 64 (\<lambda>mid. rbind (victim_out pool v z mid) (\<lambda>vic_out. ret (min_out \<le> vic_out))) 0 hi = Some (Ok a)"
      by (auto simp: v3_sandwich_max_size_def rbind_eq_Ok split: if_splits)
    from bisect_passes [OF this] run(2) show ?thesis by (auto simp: victim_out_def rbind_eq_Ok)
  qed
  then show ?thesis by (auto split: option.splits outcome.splits)
qed

end
