(* ===== verification/Curve.thy ===== *)
theory Curve
  imports V2_Optimize
begin

text \<open>
  \<open>simulation/curve.rs\<close> and \<open>simulation/curve_optimize.rs\<close>: the StableSwap quote by two bounded
  Newton iterations, and the search for the best input of a cycle through such a pool. The
  theory shows that the quote never panics, what each guard reports, that the output stays below
  the balance, and that the invariant of a balanced pool is the sum of its balances.
\<close>

section \<open>The routines\<close>

record CurveSnapshot =
  cv_balances :: "u256 list"
  cv_A :: u256
  cv_fee_bps :: u32
  cv_is_meta :: bool

definition abs_diff :: "u256 \<Rightarrow> u256 \<Rightarrow> u256" where
  "abs_diff a b = (if b < a then a - b else b - a)"

fun ofold :: "('a \<Rightarrow> 'b \<Rightarrow> ('b, 'e) outcome) \<Rightarrow> 'a list \<Rightarrow> 'b \<Rightarrow> ('b, 'e) outcome" where
  \<comment> \<open>a \<open>for\<close> loop whose body may fail\<close>
  "ofold f [] s = Ok s"
| "ofold f (x # xs) s = obind (f x s) (\<lambda>s'. ofold f xs s')"

definition get_d_step :: "u256 list \<Rightarrow> u256 \<Rightarrow> u256 \<Rightarrow> u256 \<Rightarrow> u256 \<Rightarrow> u256 eyre_result" where
  \<comment> \<open>one Newton step for the invariant\<close>
  "get_d_step xp n tot ann d =
     obind (ofold (\<lambda>x d_p.
         obind (chk_mul ''curve::get_d: x*n overflow'' x n) (\<lambda>denom. u256_mul_div d_p d denom)) xp d) (\<lambda>d_p.
     obind (chk_mul ''curve::get_d: ann*sum overflow'' ann tot) (\<lambda>ann_sum.
     obind (chk_mul ''curve::get_d: d_p*n overflow'' d_p n) (\<lambda>dp_n.
     obind (chk_add ''curve::get_d: numerator overflow'' ann_sum dp_n) (\<lambda>numerator_lhs.
     obind (chk_sub ''curve::get_d: ann < 1'' ann 1) (\<lambda>ann1.
     obind (chk_mul ''curve::get_d: (ann-1)*d overflow'' ann1 d) (\<lambda>ann1_d.
     obind (chk_add ''curve::get_d: n+1 overflow'' n 1) (\<lambda>n1.
     obind (chk_mul ''curve::get_d: (n+1)*d_p overflow'' n1 d_p) (\<lambda>n1_dp.
     obind (chk_add ''curve::get_d: denominator overflow'' ann1_d n1_dp) (\<lambda>denominator.
       u256_mul_div numerator_lhs d denominator)))))))))"

fun newton_loop :: "nat \<Rightarrow> string \<Rightarrow> (u256 \<Rightarrow> u256 eyre_result) \<Rightarrow> u256 \<Rightarrow> u256 eyre_result" where
  \<comment> \<open>iterate until two successive values differ by at most one\<close>
  "newton_loop 0 e step v = Err (Msg e)"
| "newton_loop (Suc k) e step v =
     obind (step v) (\<lambda>v'. if abs_diff v' v \<le> 1 then Ok v' else newton_loop k e step v')"

definition get_d :: "u256 list \<Rightarrow> u256 \<Rightarrow> u256 eyre_result" where
  "get_d xp amp =
     (let n = word_of_nat (length xp) :: u256
      in
      obind (ofold (\<lambda>x tot. chk_add ''curve::get_d: balance sum overflow'' tot x) xp 0) (\<lambda>tot.
      if tot = 0 then Ok 0
      else
        obind (chk_mul ''curve::get_d: A*n overflow'' amp n) (\<lambda>ann.
          newton_loop 255 ''curve::get_d: Newton iteration did not converge'' (get_d_step xp n tot ann) tot)))"

definition get_y_step :: "u256 \<Rightarrow> u256 \<Rightarrow> u256 \<Rightarrow> u256 \<Rightarrow> u256 eyre_result" where
  "get_y_step d b c y =
     obind (chk_mul ''curve::get_y: y*y overflow'' y y) (\<lambda>y_sq.
     obind (chk_add ''curve::get_y: numerator overflow'' y_sq c) (\<lambda>numerator.
     obind (chk_mul ''curve::get_y: 2*y overflow'' y 2) (\<lambda>y2.
     obind (ok_or (Option.bind (checked_add y2 b) (\<lambda>v. checked_sub v d))
       (Msg ''curve::get_y: denominator underflow'')) (\<lambda>denominator.
     if denominator = 0 then Err (Msg ''curve::get_y: zero denominator'')
     else u_div numerator denominator))))"

definition get_y_sums :: "nat \<Rightarrow> nat \<Rightarrow> u256 \<Rightarrow> u256 list \<Rightarrow> u256 \<Rightarrow> u256 \<Rightarrow> (u256 \<times> u256) eyre_result" where
  \<comment> \<open>the loop over the balances that accumulates \<open>c\<close> and \<open>s\<close>\<close>
  "get_y_sums i j x xp n d =
     ofold (\<lambda>(k, xp_k) (c, s).
       if k \<noteq> i \<and> k = j then Ok (c, s)
       else
         let x_k = (if k = i then x else xp_k)
         in
         obind (chk_add ''curve::get_y: balance sum overflow'' s x_k) (\<lambda>s.
         obind (chk_mul ''curve::get_y: x*n overflow'' x_k n) (\<lambda>denom.
         obind (u256_mul_div c d denom) (\<lambda>c. Ok (c, s))))) (enumerate 0 xp) (d, 0)"

definition get_y_coeffs :: "nat \<Rightarrow> nat \<Rightarrow> u256 \<Rightarrow> u256 list \<Rightarrow> u256 \<Rightarrow> u256 \<Rightarrow> u256 \<Rightarrow> (u256 \<times> u256) eyre_result" where
  \<comment> \<open>the coefficients \<open>b\<close> and \<open>c\<close> of the quadratic for the new balance\<close>
  "get_y_coeffs i j x xp n d ann =
     obind (get_y_sums i j x xp n d) (\<lambda>(c, s).
     obind (chk_mul ''curve::get_y: ann*n overflow'' ann n) (\<lambda>ann_n.
     obind (u256_mul_div c d ann_n) (\<lambda>c.
     obind (u_div d ann) (\<lambda>d_ann.
     obind (chk_add ''curve::get_y: b overflow'' s d_ann) (\<lambda>b. Ok (b, c))))))"

definition get_y :: "nat \<Rightarrow> nat \<Rightarrow> u256 \<Rightarrow> u256 list \<Rightarrow> u256 \<Rightarrow> u256 eyre_result" where
  "get_y i j x xp amp =
     (let n = word_of_nat (length xp) :: u256
      in
      obind (get_d xp amp) (\<lambda>d.
      obind (chk_mul ''curve::get_y: A*n overflow'' amp n) (\<lambda>ann.
      obind (get_y_coeffs i j x xp n d ann) (\<lambda>(b, c).
        newton_loop 255 ''curve::get_y: Newton iteration did not converge'' (get_y_step d b c) d))))"

definition curve_amount_out :: "CurveSnapshot \<Rightarrow> nat \<Rightarrow> nat \<Rightarrow> u256 \<Rightarrow> u256 eyre_result" where
  "curve_amount_out pool i j amount_in =
     (let n = length (cv_balances pool)
      in
      if n < 2 then Err (Msg ''curve::amount_out: pool needs >= 2 coins'')
      else if n \<le> i \<or> n \<le> j then Err (Msg ''curve::amount_out: token index out of range'')
      else if i = j then Err (Msg ''curve::amount_out: i and j must differ'')
      else if amount_in = 0 then Err (Msg ''curve::amount_out: amount_in is zero'')
      else if 10000 \<le> cv_fee_bps pool then Err (Msg ''curve::amount_out: fee_bps must be < 10000'')
      else if cv_A pool = 0 then Err (Msg ''curve::amount_out: amplification A must be > 0'')
      else if list_ex (\<lambda>b. b = 0) (cv_balances pool) then Err (Msg ''curve::amount_out: pool has an empty balance'')
      else
        obind (chk_add ''curve::amount_out: balance + amount_in overflow'' (cv_balances pool ! i) amount_in) (\<lambda>x.
        obind (get_y i j x (cv_balances pool) (cv_A pool)) (\<lambda>y.
        obind (ok_or (Option.bind (checked_sub (cv_balances pool ! j) y) (\<lambda>d. checked_sub d 1))
          (Msg ''curve::amount_out: non-positive output'')) (\<lambda>dy.
        obind (u256_mul_div dy (ucast (cv_fee_bps pool)) 10000) (\<lambda>fee.
          chk_sub ''curve::amount_out: fee exceeds output'' dy fee)))))"

definition calculate_curve_profit ::
    "CurveSnapshot \<Rightarrow> nat \<Rightarrow> nat \<Rightarrow> (u256 \<times> u256 \<times> u32) option \<Rightarrow> u256 \<Rightarrow> i256 eyre_result" where
  "calculate_curve_profit pool_curve i j pool2_v2 amount_in =
     (if amount_in = 0 then Ok 0
      else
        obind (curve_amount_out pool_curve i j amount_in) (\<lambda>out1.
        if out1 = 0 then Ok (push_bit 255 1)
        else
          obind (case pool2_v2 of
              Some (r_in, r_out, fee) \<Rightarrow> v2_amount_out out1 r_in r_out fee
            | None \<Rightarrow> Ok 0) (\<lambda>out2.
          obind (ok_or (i_try_from out2) (Msg ''curve profit output overflows I256'')) (\<lambda>out2_i256.
          obind (ok_or (i_try_from amount_in) (Msg ''curve profit input overflows I256'')) (\<lambda>amount_in_i256.
            Ok (out2_i256 - amount_in_i256))))))"

definition optimal_input_2pool_curve ::
    "CurveSnapshot \<Rightarrow> nat \<Rightarrow> nat \<Rightarrow> (u256 \<times> u256 \<times> u32) option \<Rightarrow> (u256, report) run" where
  "optimal_input_2pool_curve pool_curve i j pool2_v2 =
     (if length (cv_balances pool_curve) \<le> i then Some Panic
      else ternary_search (\<lambda>a. lift_profit sint (calculate_curve_profit pool_curve i j pool2_v2 a))
        (cv_balances pool_curve ! i))"


section \<open>No panics\<close>

lemma chk_no_panic [simp]: "chk_mul e a b \<noteq> Panic" "chk_add e a b \<noteq> Panic" "chk_sub e a b \<noteq> Panic"
  by (simp_all add: chk_mul_def chk_add_def chk_sub_def ok_or_neq_Panic)

lemma ofold_no_panic: "(\<And>x s. f x s \<noteq> Panic) \<Longrightarrow> ofold f xs s \<noteq> Panic"
  by (induction xs arbitrary: s) (auto simp: obind_eq_Panic)

lemma newton_loop_no_panic: "(\<And>v. step v \<noteq> Panic) \<Longrightarrow> newton_loop k e step v \<noteq> Panic"
  by (induction k arbitrary: v) (auto simp: obind_eq_Panic)

lemmas no_panic = obind_eq_Panic ok_or_neq_Panic ofold_no_panic newton_loop_no_panic u256_mul_div_no_panic

lemma get_d_no_panic: "get_d xp amp \<noteq> Panic"
  by (simp add: get_d_def get_d_step_def Let_def no_panic)

lemma get_y_step_no_panic: "get_y_step d b c y \<noteq> Panic"
  by (simp add: get_y_step_def no_panic u_div_def)

lemma get_y_sums_no_panic: "get_y_sums i j x xp n d \<noteq> Panic"
  unfolding get_y_sums_def by (rule ofold_no_panic) (simp add: no_panic Let_def split: prod.splits)

lemma unat_length: "length xs < 2 ^ 64 \<Longrightarrow> unat (word_of_nat (length xs) :: u256) = length xs"
  by (rule unat_word_of_nat) (simp add: power_numeral)

lemma get_y_no_panic:
  assumes "amp \<noteq> 0" "xp \<noteq> []" "length xp < 2 ^ 64"
  shows "get_y i j x xp amp \<noteq> Panic"
proof -
  have "ann \<noteq> 0" if "chk_mul e amp (word_of_nat (length xp)) = Ok ann" for e ann
    using that assms unat_length [OF assms(3)] by (auto simp: outcome_simps unat_pos_iff [symmetric])
  then show ?thesis
    by (auto simp: get_y_def get_y_coeffs_def Let_def no_panic get_d_no_panic get_y_sums_no_panic
        get_y_step_no_panic u_div_def)
qed

lemma curve_amount_out_no_panic:
  assumes "length (cv_balances pool) < 2 ^ 64"
  shows "curve_amount_out pool i j a \<noteq> Panic"
proof (cases "length (cv_balances pool) < 2")
  case False
  then have "cv_balances pool \<noteq> []" by auto
  then show ?thesis
    using assms by (auto simp: curve_amount_out_def Let_def no_panic get_y_no_panic)
qed (simp add: curve_amount_out_def)

lemma v2_amount_out_no_panic: "v2_amount_out a x y fee \<noteq> Panic"
  by (auto simp: v2_amount_out_def validate_reserves_def validate_fee_bps_def no_panic Let_def)

lemma calculate_curve_profit_no_panic:
  "length (cv_balances pool) < 2 ^ 64 \<Longrightarrow> calculate_curve_profit pool i j v2 a \<noteq> Panic"
  by (auto simp: calculate_curve_profit_def no_panic curve_amount_out_no_panic v2_amount_out_no_panic split: option.splits)

section \<open>What a converged iteration solves\<close>

lemma newton_loop_Ok:
  "newton_loop k e step v = Ok r \<Longrightarrow> \<exists>p. step p = Ok r \<and> abs_diff r p \<le> 1"
  by (induction k arbitrary: v) (auto simp: outcome_simps split: if_splits)

lemma abs_diff_le_one: "abs_diff r p \<le> 1 \<Longrightarrow> \<bar>int (unat r) - int (unat p)\<bar> \<le> 1"
proof -
  assume "abs_diff r p \<le> 1"
  then have "unat r \<le> unat p + 1 \<and> unat p \<le> unat r + 1"
    by (auto simp: abs_diff_def word_le_nat_alt word_less_nat_alt unat_sub split: if_splits)
  then show ?thesis by linarith
qed

text \<open>One Newton step from a point next to its result brackets the root of the quadratic.\<close>

lemma newton_quadratic:
  fixes y p m c :: int
  assumes "y = (p * p + c) div (2 * p + m)" "0 < 2 * p + m" "\<bar>y - p\<bar> \<le> 1"
  shows "y * y + m * y \<le> c + 1" "c < (y + 1) * (y + 1) + m * (y + 1)"
proof -
  let ?q = "2 * p + m"
  have "y * ?q + (p * p + c) mod ?q = p * p + c" unfolding assms(1) by (rule div_mult_mod_eq)
  then have q: "y * ?q \<le> p * p + c" "p * p + c < y * ?q + ?q"
    using pos_mod_bound [OF assms(2), of "p * p + c"] pos_mod_sign [OF assms(2), of "p * p + c"] by linarith+
  consider "p = y" | "p = y + 1" | "p = y - 1" using assms(3) by linarith
  then show "y * y + m * y \<le> c + 1" "c < (y + 1) * (y + 1) + m * (y + 1)"
    by (cases; use q in \<open>simp add: algebra_simps\<close>)+
qed


lemma get_y_step_Ok:
  assumes "get_y_step d b c p = Ok y"
  defines "m \<equiv> int (unat b) - int (unat d)"
  shows "0 < 2 * int (unat p) + m"
    "int (unat y) = (int (unat p) * int (unat p) + int (unat c)) div (2 * int (unat p) + m)"
proof -
  from assms(1) obtain sq num y2 v den :: u256
    where sq: "unat sq = unat p * unat p" "unat num = unat sq + unat c" "unat y2 = unat p * 2"
      and v: "unat v = unat y2 + unat b" and den: "unat v = unat d + unat den" "den \<noteq> 0" and y: "y = num div den"
    by (auto simp: get_y_step_def outcome_simps unat_simps bind_eq_Some_conv split: if_splits)
  have dm: "int (unat den) = 2 * int (unat p) + m" using sq(3) v den(1) unfolding m_def by linarith
  moreover have "0 < unat den" using den(2) by (simp add: unat_gt_0)
  ultimately show "0 < 2 * int (unat p) + m" by linarith
  have "int (unat y) = int (unat num div unat den)" unfolding y unat_div ..
  also have "\<dots> = (int (unat p) * int (unat p) + int (unat c)) div (2 * int (unat p) + m)"
    unfolding zdiv_int dm sq by simp
  finally show "int (unat y) = (int (unat p) * int (unat p) + int (unat c)) div (2 * int (unat p) + m)" .
qed

text \<open>The balances other than the output one after the deposit, and the coefficients they give.\<close>

definition others :: "nat \<Rightarrow> nat \<Rightarrow> u256 \<Rightarrow> (nat \<times> u256) list \<Rightarrow> nat list" where
  "others i j x kvs = map (\<lambda>(k, v). unat (if k = i then x else v)) (filter (\<lambda>(k, v). k = i \<or> k \<noteq> j) kvs)"

lemma sums_fold:
  assumes "ofold (\<lambda>(k, xp_k) (c, s).
       if k \<noteq> i \<and> k = j then Ok (c, s)
       else
         let x_k = (if k = i then x else xp_k)
         in
         obind (chk_add e1 s x_k) (\<lambda>s.
         obind (chk_mul e2 x_k n) (\<lambda>denom.
         obind (u256_mul_div c d denom) (\<lambda>c. Ok (c, s))))) kvs (c0, s0) = Ok (c, s)"
  shows "unat s = unat s0 + sum_list (others i j x kvs)"
    "unat c = foldl (\<lambda>c v. c * unat d div (v * unat n)) (unat c0) (others i j x kvs)"
  using assms
proof (induction kvs arbitrary: c0 s0)
  case (Cons kv kvs)
  obtain k v where kv: "kv = (k, v)" by (cases kv)
  { case 1
    with Cons.IH kv show ?case
      by (fastforce simp: others_def outcome_simps Let_def split: if_splits)
  next
    case 2
    with Cons.IH kv show ?case
      by (fastforce simp: others_def outcome_simps Let_def split: if_splits)
  }
qed (simp_all add: others_def)

lemma get_y_coeffs_Ok:
  assumes "get_y_coeffs i j x xp n d ann = Ok (b, c)"
  shows "unat b = sum_list (others i j x (enumerate 0 xp)) + unat d div unat ann"
    "unat c = foldl (\<lambda>c v. c * unat d div (v * unat n)) (unat d) (others i j x (enumerate 0 xp))
       * unat d div (unat ann * unat n)"
proof -
  from assms obtain c0 s ann_n :: u256 where s: "get_y_sums i j x xp n d = Ok (c0, s)"
    and b: "unat b = unat s + unat d div unat ann"
    and c: "unat c = unat c0 * unat d div unat ann_n" "unat ann_n = unat ann * unat n"
    by (auto simp: get_y_coeffs_def outcome_simps unat_div)
  show "unat b = sum_list (others i j x (enumerate 0 xp)) + unat d div unat ann"
    using sums_fold(1) [OF s [unfolded get_y_sums_def]] b by simp
  show "unat c = foldl (\<lambda>c v. c * unat d div (v * unat n)) (unat d) (others i j x (enumerate 0 xp))
       * unat d div (unat ann * unat n)"
    using sums_fold(2) [OF s [unfolded get_y_sums_def]] c by simp
qed


section \<open>Evaluation\<close>

lemma newton_loop_numeral [simp]:
  "newton_loop (numeral k) e step v =
     obind (step v) (\<lambda>v'. if abs_diff v' v \<le> 1 then Ok v' else newton_loop (pred_numeral k) e step v')"
  by (simp add: numeral_eq_Suc)

lemmas curve_eval = get_y_def get_y_coeffs_def get_y_sums_def get_y_step_def get_d_def get_d_step_def Let_def
  abs_diff_def u256_mul_div_def narrow_u512_def checked_narrow_def to_u512_def power_numeral checked_defs
  chk_mul_def chk_add_def chk_sub_def word_le_nat_alt

section \<open>Claims\<close>

text \<open>
  C22. The balance \<open>get_y\<close> returns is the integer root of the pool's quadratic: with \<open>d\<close> the invariant,
  \<open>s\<close> the sum of the other balances after the deposit, \<open>b = s + d / ann\<close> and \<open>c\<close> the truncated
  product \<open>d^(n+1) / (n^n prod x)\<close> divided by \<open>ann n\<close>, the result \<open>y\<close> satisfies
  \<open>y^2 + (b - d) y \<le> c + 1\<close> while \<open>y + 1\<close> already exceeds \<open>c\<close>.
\<close>

theorem get_y_solves_invariant:
  assumes "get_y i j x xp amp = Ok y"
  shows "\<exists>d ann b c. get_d xp amp = Ok d
    \<and> unat ann = unat amp * unat (word_of_nat (length xp) :: u256)
    \<and> b = sum_list (others i j x (enumerate 0 xp)) + unat d div unat (ann :: u256)
    \<and> c = foldl (\<lambda>c v. c * unat d div (v * unat (word_of_nat (length xp) :: u256))) (unat d)
            (others i j x (enumerate 0 xp)) * unat d div (unat ann * unat (word_of_nat (length xp) :: u256))
    \<and> int (unat y) * int (unat y) + (int b - int (unat d)) * int (unat y) \<le> int c + 1
    \<and> int c < (int (unat y) + 1) * (int (unat y) + 1) + (int b - int (unat d)) * (int (unat y) + 1)"
proof -
  from assms obtain d ann b c where d: "get_d xp amp = Ok d"
    and ann: "unat ann = unat amp * unat (word_of_nat (length xp) :: u256)"
    and bc: "get_y_coeffs i j x xp (word_of_nat (length xp)) d ann = Ok (b, c)"
    and it: "newton_loop 255 ''curve::get_y: Newton iteration did not converge'' (get_y_step d b c) d = Ok y"
    by (auto simp: get_y_def Let_def outcome_simps)
  from newton_loop_Ok [OF it] obtain p where p: "get_y_step d b c p = Ok y" "abs_diff y p \<le> 1" by blast
  note root = newton_quadratic [OF get_y_step_Ok(2,1) [OF p(1)] abs_diff_le_one [OF p(2)]]
  show ?thesis using d ann root get_y_coeffs_Ok [OF bc] by blast
qed

theorem get_y_solves_invariant_witness:
  "get_y 0 1 1100 [1000, 1000] 10 = Ok 900 \<and>
   (\<exists>d ann b c. get_d [1000, 1000] 10 = Ok d
    \<and> unat ann = unat (10 :: u256) * unat (word_of_nat (length [1000, 1000 :: u256]) :: u256)
    \<and> b = sum_list (others 0 1 1100 (enumerate 0 [1000, 1000])) + unat d div unat (ann :: u256)
    \<and> c = foldl (\<lambda>c v. c * unat d div (v * unat (word_of_nat (length [1000, 1000 :: u256]) :: u256))) (unat d)
            (others 0 1 1100 (enumerate 0 [1000, 1000])) * unat d div (unat ann * unat (word_of_nat (length [1000, 1000 :: u256]) :: u256))
    \<and> int (unat (900 :: u256)) * int (unat (900 :: u256)) + (int b - int (unat d)) * int (unat (900 :: u256)) \<le> int c + 1
    \<and> int c < (int (unat (900 :: u256)) + 1) * (int (unat (900 :: u256)) + 1) + (int b - int (unat d)) * (int (unat (900 :: u256)) + 1))"
proof -
  have "get_y 0 1 1100 [1000, 1000] 10 = Ok 900" by (simp add: curve_eval)
  with get_y_solves_invariant [OF this] show ?thesis by blast
qed


lemma word_of_nat_ex: "n < 2 ^ 256 \<Longrightarrow> \<exists>w :: u256. unat w = n"
  by (rule exI [of _ "word_of_nat n"]) (simp add: unat_word_of_nat)

lemma ofold_sum:
  "ofold (\<lambda>x tot. chk_add e tot x) xs a = Ok s \<longleftrightarrow> unat s = unat a + sum_list (map unat xs)"
proof (induction xs arbitrary: a)
  case Nil
  show ?case by (auto simp: word_unat_eq_iff)
next
  case (Cons x xs)
  show ?case
  proof
    assume "ofold (\<lambda>x tot. chk_add e tot x) (x # xs) a = Ok s"
    then show "unat s = unat a + sum_list (map unat (x # xs))" using Cons by (auto simp: outcome_simps)
  next
    assume s: "unat s = unat a + sum_list (map unat (x # xs))"
    then obtain t :: u256 where t: "unat t = unat a + unat x"
      using unat_bound [of s] word_of_nat_ex [of "unat a + unat x"] by auto
    then have "chk_add e a x = Ok t" by (simp add: outcome_simps)
    then show "ofold (\<lambda>x tot. chk_add e tot x) (x # xs) a = Ok s" using Cons.IH [of t] s t by simp
  qed
qed

lemma get_d_step_balanced:
  assumes n: "unat n = length xp" and xp: "\<And>x. x \<in> set xp \<Longrightarrow> unat x = v"
    and d: "unat d = v * length xp" "d \<noteq> 0"
    and ann: "ann \<noteq> 0" and fits: "unat d * (unat ann + unat n) < 2 ^ 256"
  shows "get_d_step xp n d ann d = Ok d"
proof -
  have prod: "ofold (\<lambda>x d_p. obind (chk_mul e x n) (\<lambda>denom. u256_mul_div d_p d denom)) xs d = Ok d"
    if "set xs \<subseteq> set xp" for xs e
    using that
  proof (induction xs)
    case (Cons x xs)
    have "unat x * unat n = unat d" using xp [of x] Cons.prems n d(1) by simp
    then have "chk_mul e x n = Ok d" by (simp add: outcome_simps)
    moreover have "u256_mul_div d d d = Ok d" using d(2) by (simp add: outcome_simps)
    ultimately show ?case using Cons by simp
  qed simp
  have pos: "1 \<le> unat ann" using ann by (simp add: Suc_leI unat_gt_0)
  have one: "unat d * 1 \<le> unat d * (unat ann + unat n)" using pos by (intro mult_le_mono2) simp
  have d1: "1 \<le> unat d" using d(2) by (simp add: Suc_leI unat_gt_0)
  have n1le: "unat n + 1 \<le> unat d * (unat ann + unat n)"
    using mult_le_mono [OF d1, of "unat n + 1" "unat ann + unat n"] pos by simp
  obtain k where "unat ann = Suc k" using pos by (cases "unat ann") auto
  then have split: "unat d * (unat ann + unat n) = unat ann * unat d + unat d * unat n"
    "unat d * (unat ann + unat n) = (unat ann - 1) * unat d + (unat n + 1) * unat d"
    by (simp_all add: algebra_simps)
  have small: "\<exists>w :: u256. unat w = k" if "k \<le> unat d * (unat ann + unat n)" for k
    using word_of_nat_ex that fits by (blast intro: le_less_trans)
  obtain as where as: "unat (as :: u256) = unat ann * unat d" using small split(1) by (metis le_add1)
  obtain dn where dn: "unat (dn :: u256) = unat d * unat n" using small split(1) by (metis le_add2)
  obtain num where num: "unat (num :: u256) = unat d * (unat ann + unat n)" using small by blast
  obtain a1d where a1d: "unat (a1d :: u256) = (unat ann - 1) * unat d" using small split(2) by (metis le_add1)
  obtain n1d where n1d: "unat (n1d :: u256) = (unat n + 1) * unat d" using small split(2) by (metis le_add2)
  obtain n1 where n1: "unat (n1 :: u256) = unat n + 1" using small n1le by blast
  obtain a1 where a1: "unat (a1 :: u256) = unat ann - 1"
    using word_of_nat_ex [of "unat ann - 1"] unat_bound_256 [of ann] by (metis less_imp_diff_less)
  note w = as dn num a1 a1d n1 n1d
  have "chk_mul e ann d = Ok as" "chk_mul e d n = Ok dn" "chk_add e as dn = Ok num" "chk_sub e ann 1 = Ok a1"
    "chk_mul e a1 d = Ok a1d" "chk_add e n 1 = Ok n1" "chk_mul e n1 d = Ok n1d" "chk_add e a1d n1d = Ok num" for e
    using w split pos by (simp_all add: outcome_simps)
  moreover have "u256_mul_div num d num = Ok d"
    using num d1 pos by (auto simp: outcome_simps simp flip: unat_gt_0)
  ultimately show ?thesis unfolding get_d_step_def by (simp add: prod)
qed

text \<open>
  The invariant of a balanced pool is the sum of its balances: the Newton iteration starts at a
  fixed point and stops after one round, for every amplification that fits.
\<close>

theorem get_d_balanced:
  assumes "xp \<noteq> []" "\<And>x. x \<in> set xp \<Longrightarrow> unat x = v" "0 < v" "amp \<noteq> 0" "length xp < 2 ^ 64"
    and "v * length xp * (unat amp * length xp + length xp) < 2 ^ 256"
  shows "\<exists>d. get_d xp amp = Ok d \<and> unat d = v * length xp"
proof -
  let ?n = "word_of_nat (length xp) :: u256"
  note n = unat_length [OF assms(5)]
  have len: "1 \<le> length xp" using assms(1) by (simp add: Suc_leI)
  have amp: "1 \<le> unat amp" using assms(4) by (simp add: Suc_leI unat_gt_0)
  have vl: "1 \<le> v * length xp" using assms(3) len by (simp add: Suc_leI)
  have total: "sum_list (map unat xp) = v * length xp"
    using assms(2) by (simp add: sum_list_triv mult.commute cong: map_cong)
  have "v * length xp * 1 \<le> v * length xp * (unat amp * length xp + length xp)"
    using len by (intro mult_le_mono2) simp
  from word_of_nat_ex [OF le_less_trans [OF this assms(6)]]
  obtain d :: u256 where d: "unat d = v * length xp" by auto
  have "1 * (unat amp * length xp) \<le> v * length xp * (unat amp * length xp + length xp)"
    using vl by (intro mult_le_mono) simp_all
  from word_of_nat_ex [OF le_less_trans [OF this assms(6)]]
  obtain ann :: u256 where ann: "unat ann = unat amp * length xp" by auto
  have "1 \<le> unat ann" unfolding ann using mult_le_mono [OF amp len] by simp
  then have nz: "d \<noteq> 0" "ann \<noteq> 0" using d vl by (metis unat_0 not_one_le_zero)+
  have "ofold (\<lambda>x tot. chk_add e tot x) xp 0 = Ok d" for e using ofold_sum total d by simp
  moreover have "chk_mul e amp ?n = Ok ann" for e using ann n by (simp add: outcome_simps)
  moreover have "get_d_step xp ?n d ann d = Ok d"
    using get_d_step_balanced [OF n assms(2) d nz] assms(6) d ann n by simp
  ultimately show ?thesis using nz d by (simp add: get_d_def Let_def abs_diff_def)
qed


theorem get_d_balanced_witness:
  "\<exists>d. get_d [500, 500, 500] 100 = Ok d \<and> unat d = 500 * length [500, 500, 500 :: u256]"
  by (rule get_d_balanced) (auto simp: power_numeral)

text \<open>
  The StableSwap quote never panics, and what it pays out is strictly below the balance of the
  output coin.
\<close>

theorem curve_amount_out_safe:
  assumes "length (cv_balances pool) < 2 ^ 64"
  shows "case curve_amount_out pool i j a of
      Panic \<Rightarrow> False | Err e \<Rightarrow> True
    | Ok dy \<Rightarrow> i < length (cv_balances pool) \<and> j < length (cv_balances pool) \<and> i \<noteq> j \<and> a \<noteq> 0
        \<and> dy < cv_balances pool ! j"
proof (cases "curve_amount_out pool i j a")
  case (Ok dy)
  then have "\<exists>(y :: u256) (d1 :: u256) (dy0 :: u256) (fee :: u256). unat (cv_balances pool ! j) = unat y + unat d1
    \<and> unat d1 = 1 + unat dy0 \<and> unat dy0 = unat fee + unat dy"
    unfolding curve_amount_out_def Let_def
    by (simp only: obind_eq_Ok ok_or_eq_Ok chk_Ok bind_eq_Some_conv checked_sub_Some unat_1 outcome.distinct split: if_splits) blast
  then have "dy < cv_balances pool ! j" by (auto simp: word_less_nat_alt)
  moreover have "i < length (cv_balances pool) \<and> j < length (cv_balances pool) \<and> i \<noteq> j \<and> a \<noteq> 0"
    using Ok by (auto simp: curve_amount_out_def Let_def split: if_splits)
  ultimately show ?thesis using Ok by simp
qed (use curve_amount_out_no_panic [OF assms] in simp_all)

definition stable_pool :: CurveSnapshot where
  \<comment> \<open>a balanced two-coin pool, for the witnesses\<close>
  "stable_pool = \<lparr>cv_balances = [1000, 1000], cv_A = 10, cv_fee_bps = 4, cv_is_meta = False\<rparr>"

theorem curve_amount_out_safe_witness:
  "curve_amount_out stable_pool 0 1 100 = Ok 99 \<and> 99 < cv_balances stable_pool ! 1"
proof -
  have len: "length (cv_balances stable_pool) < 2 ^ 64" by (simp add: stable_pool_def power_numeral)
  have ok: "curve_amount_out stable_pool 0 1 100 = Ok 99"
    by (simp add: curve_amount_out_def stable_pool_def curve_eval)
  show ?thesis using curve_amount_out_safe [OF len, of 0 1 100] ok by simp
qed

text \<open>
  The search for the best input of a cycle through a StableSwap pool returns, never panics when
  the input coin exists, and answers 0 or an amount within the balance at which the cycle makes
  a profit.
\<close>

theorem curve_search_profitable:
  assumes "i < length (cv_balances pool)" "length (cv_balances pool) < 2 ^ 64" "unat (cv_balances pool ! i) < 2 ^ 255"
  shows "case optimal_input_2pool_curve pool i j v2 of
      None \<Rightarrow> False | Some Panic \<Rightarrow> False | Some (Err e) \<Rightarrow> True
    | Some (Ok x) \<Rightarrow> x = 0 \<or> x \<le> cv_balances pool ! i \<and> (\<exists>p. calculate_curve_profit pool i j v2 x = Ok p \<and> 0 < sint p)"
proof -
  let ?f = "\<lambda>a. lift_profit sint (calculate_curve_profit pool i j v2 a)"
  have run: "optimal_input_2pool_curve pool i j v2 = ternary_search ?f (cv_balances pool ! i)"
    using assms(1) by (simp add: optimal_input_2pool_curve_def)
  have "?f a \<noteq> Some Panic" for a using calculate_curve_profit_no_panic [OF assms(2)] by (simp add: lift_profit_def no_panic)
  then have np: "ternary_search ?f (cv_balances pool ! i) \<noteq> Some Panic" by (rule ternary_search_no_panic)
  have "\<exists>y. ?f a = Some y" for a by (simp add: lift_profit_def)
  then obtain r where r: "ternary_search ?f (cv_balances pool ! i) = Some r"
    using ternary_search_returns [of ?f] by blast
  have "x \<le> cv_balances pool ! i \<and> (x = 0 \<or> (\<exists>p. calculate_curve_profit pool i j v2 x = Ok p \<and> 0 < sint p))"
    if "r = Ok x" for x
    using ternary_search_result [OF _ assms(3), of ?f x] r that
    by (auto simp: lift_profit_def outcome_simps)
  with run r np show ?thesis by (auto split: outcome.splits)
qed

theorem curve_search_profitable_witness:
  "case optimal_input_2pool_curve stable_pool 0 1 (Some (1000, 1200, 30)) of
      None \<Rightarrow> False | Some Panic \<Rightarrow> False | Some (Err e) \<Rightarrow> True
    | Some (Ok x) \<Rightarrow> x = 0 \<or> x \<le> cv_balances stable_pool ! 0
        \<and> (\<exists>p. calculate_curve_profit stable_pool 0 1 (Some (1000, 1200, 30)) x = Ok p \<and> 0 < sint p)"
  by (rule curve_search_profitable) (simp_all add: stable_pool_def power_numeral)

end
