(* ===== verification/Byte_Codec.thy ===== *)
theory Byte_Codec
  imports Rust_Prelude
begin

text \<open>
  The byte strings the admission code hashes: big-endian integers, length-prefixed strings and
  decimal numerals. Text is ASCII, one \<^typ>\<open>char\<close> per byte. A field that can be cut off the front of
  a longer byte string without ambiguity is a prefix code; the locales below carry that law
  through sequences of fields.
\<close>

section \<open>Prefix codes\<close>

locale prefix_code =
  fixes enc :: "'a \<Rightarrow> 'b list" and ok :: "'a \<Rightarrow> bool"
  assumes cancel: "ok a \<Longrightarrow> ok b \<Longrightarrow> enc a @ r = enc b @ s \<Longrightarrow> a = b \<and> r = s"
begin

lemma cancel_iff: "ok a \<Longrightarrow> ok b \<Longrightarrow> enc a @ r = enc b @ s \<longleftrightarrow> a = b \<and> r = s"
  using cancel by blast

lemma inj_iff: "ok a \<Longrightarrow> ok b \<Longrightarrow> enc a = enc b \<longleftrightarrow> a = b"
  using cancel_iff [of a b "[]" "[]"] by simp

lemma sequence:
  "list_all ok xs \<Longrightarrow> list_all ok ys \<Longrightarrow> length xs = length ys \<Longrightarrow>
    concat (map enc xs) @ r = concat (map enc ys) @ s \<longleftrightarrow> xs = ys \<and> r = s"
  by (induction xs ys rule: list_induct2') (auto simp: cancel_iff)

end

locale fixed_code =
  fixes enc :: "'a \<Rightarrow> 'b list" and width :: nat
  assumes width: "length (enc a) = width" and injective: "enc a = enc b \<Longrightarrow> a = b"

sublocale fixed_code \<subseteq> prefix_code enc "\<lambda>_. True"
  by unfold_locales (use width injective in auto)

section \<open>Big-endian integers\<close>

definition to_be_bytes :: "'a::len word \<Rightarrow> u8 list" where
  "to_be_bytes w = map (\<lambda>i. ucast (drop_bit (8 * i) w)) (rev [0 ..< LENGTH('a) div 8])"

lemma length_to_be_bytes [simp]: "length (to_be_bytes (w :: 'a::len word)) = LENGTH('a) div 8"
  by (simp add: to_be_bytes_def)

lemma to_be_bytes_inj:
  assumes "to_be_bytes v = to_be_bytes w" "8 dvd LENGTH('a)"
  shows "v = (w :: 'a::len word)"
proof (rule bit_word_eqI)
  fix k assume k: "k < LENGTH('a)"
  let ?i = "k div 8"
  have i: "?i < LENGTH('a) div 8"
    using k assms(2) by (metis div_less_iff_less_mult dvd_div_mult_self zero_less_numeral)
  have "ucast (drop_bit (8 * ?i) v) = (ucast (drop_bit (8 * ?i) w) :: u8)"
    using assms(1) i by (simp add: to_be_bytes_def)
  then have "bit (ucast (drop_bit (8 * ?i) v) :: u8) (k mod 8) = bit (ucast (drop_bit (8 * ?i) w) :: u8) (k mod 8)"
    by simp
  then show "bit v k = bit w k" by (simp add: bit_ucast_iff bit_drop_bit_eq)
qed

definition bool_byte :: "bool \<Rightarrow> u8 list" where
  \<comment> \<open>\<open>u8::from(b)\<close>, pushed\<close>
  "bool_byte b = [if b then 1 else 0]"

interpretation be16: fixed_code "to_be_bytes :: u16 \<Rightarrow> u8 list" 2
  by unfold_locales (simp_all add: to_be_bytes_inj)

interpretation be64: fixed_code "to_be_bytes :: u64 \<Rightarrow> u8 list" 8
  by unfold_locales (simp_all add: to_be_bytes_inj)

interpretation be160: fixed_code "to_be_bytes :: u160 \<Rightarrow> u8 list" 20
  by unfold_locales (simp_all add: to_be_bytes_inj)

interpretation be256: fixed_code "to_be_bytes :: u256 \<Rightarrow> u8 list" 32
  by unfold_locales (simp_all add: to_be_bytes_inj)

interpretation flag: fixed_code bool_byte 1
  by unfold_locales (simp_all add: bool_byte_def split: if_splits)

section \<open>Length-prefixed strings\<close>

definition push_bytes :: "u8 list \<Rightarrow> u8 list" where
  \<comment> \<open>the bytes \<open>push_bytes\<close> appends to its buffer\<close>
  "push_bytes bs = to_be_bytes (word_of_nat (length bs) :: u64) @ bs"

definition as_bytes :: "string \<Rightarrow> u8 list" where
  "as_bytes s = map (\<lambda>c. word_of_nat (of_char c)) s"

lemma length_as_bytes [simp]: "length (as_bytes s) = length s"
  by (simp add: as_bytes_def)

definition push_str :: "string \<Rightarrow> u8 list" where
  "push_str s = push_bytes (as_bytes s)"

interpretation lp: prefix_code push_bytes "\<lambda>bs. length bs < 2 ^ 64"
proof
  fix a b r s :: "u8 list"
  assume "length a < 2 ^ 64" "length b < 2 ^ 64" and eq: "push_bytes a @ r = push_bytes b @ s"
  then have u: "unat (word_of_nat (length a) :: u64) = length a" "unat (word_of_nat (length b) :: u64) = length b"
    by (simp_all add: unat_word_of_nat)
  have h: "(word_of_nat (length a) :: u64) = word_of_nat (length b) \<and> a @ r = b @ s"
    using eq by (auto simp: push_bytes_def dest: be64.injective)
  then have "length a = length b" using u by metis
  with h show "a = b \<and> r = s" by simp
qed

lemma as_bytes_inj: "as_bytes s = as_bytes t \<longleftrightarrow> s = t"
proof -
  have u: "unat (word_of_nat (of_char c) :: u8) = of_char c" for c :: char
    by (rule unat_word_of_nat) (use nat_of_char_less_256 in \<open>simp add: power_numeral\<close>)
  have "inj (\<lambda>c :: char. word_of_nat (of_char c) :: u8)"
    by (rule injI) (metis u of_char_eq_iff)
  then show ?thesis by (auto simp: as_bytes_def inj_map_eq_map)
qed

interpretation str: prefix_code push_str "\<lambda>s. length s < 2 ^ 64"
  by unfold_locales (auto simp: push_str_def lp.cancel_iff as_bytes_inj)

section \<open>Decimal numerals\<close>

definition digit_char :: "nat \<Rightarrow> char" where
  "digit_char d = char_of (48 + d)"

fun decimal :: "nat \<Rightarrow> string" where
  "decimal n = (if n < 10 then [digit_char n] else decimal (n div 10) @ [digit_char (n mod 10)])"

declare decimal.simps [simp del]

definition is_digit :: "char \<Rightarrow> bool" where
  "is_digit c \<longleftrightarrow> 48 \<le> (of_char c :: nat) \<and> (of_char c :: nat) \<le> 57"

definition digit_value :: "char \<Rightarrow> nat" where
  "digit_value c = of_char c - 48"

definition decimal_value :: "string \<Rightarrow> nat" where
  "decimal_value s = foldl (\<lambda>v c. v * 10 + digit_value c) 0 s"

lemma digit_char_props: "d < 10 \<Longrightarrow> is_digit (digit_char d) \<and> digit_value (digit_char d) = d"
  by (simp add: is_digit_def digit_value_def digit_char_def)

lemma decimal_nonempty: "decimal n \<noteq> []"
  by (subst decimal.simps) simp

lemma decimal_digits: "list_all is_digit (decimal n)"
  by (induction n rule: decimal.induct) (subst decimal.simps, auto simp: digit_char_props)

lemma decimal_value_decimal [simp]: "decimal_value (decimal n) = n"
proof (induction n rule: decimal.induct)
  case (1 n)
  show ?case
  proof (cases "n < 10")
    case True
    then show ?thesis by (subst decimal.simps) (simp add: decimal_value_def digit_char_props)
  next
    case False
    then show ?thesis using 1 by (subst decimal.simps) (simp add: decimal_value_def digit_char_props)
  qed
qed

lemma decimal_inj: "decimal m = decimal n \<longleftrightarrow> m = n"
  by (metis decimal_value_decimal)

lemma length_decimal: "n < 10 ^ k \<Longrightarrow> 0 < k \<Longrightarrow> length (decimal n) \<le> k"
proof (induction n arbitrary: k rule: decimal.induct)
  case (1 n)
  show ?case
  proof (cases "n < 10")
    case True
    then show ?thesis using 1 by (subst decimal.simps) simp
  next
    case False
    with 1(2) obtain j where k: "k = Suc j" "0 < j" by (cases k; cases "k - 1") (auto simp: power_numeral)
    have "n div 10 < 10 ^ j" using 1(2) k by (simp add: less_mult_imp_div_less mult.commute)
    from "1.IH" [OF False this k(2)] False k show ?thesis by (subst decimal.simps) simp
  qed
qed

definition push_u256 :: "u256 \<Rightarrow> u8 list" where
  "push_u256 v = push_str (decimal (unat v))"

lemma length_decimal_u256: "length (decimal (unat (v :: u256))) < 2 ^ 64"
proof -
  have "unat v < 10 ^ 78" using unat_bound_256 [of v] by (simp add: power_numeral)
  from length_decimal [OF this] show ?thesis by (simp add: power_numeral)
qed

interpretation num: prefix_code push_u256 "\<lambda>_. True"
  by unfold_locales (auto simp: push_u256_def str.cancel_iff length_decimal_u256 decimal_inj word_unat_eq_iff)

lemmas codec_iff = be16.cancel_iff be64.cancel_iff be160.cancel_iff be256.cancel_iff flag.cancel_iff
  lp.cancel_iff str.cancel_iff num.cancel_iff be16.inj_iff be64.inj_iff be160.inj_iff be256.inj_iff flag.inj_iff
  lp.inj_iff str.inj_iff num.inj_iff

end
