(* ===== verification/Json_Input.thy ===== *)
theory Json_Input
  imports Byte_Codec
begin

text \<open>
  Reading typed fields out of parsed JSON, as \<open>execution_engine.rs\<close> and
  \<open>signed_order_admission.rs\<close> do it. The JSON value, the address, hex and 256-bit number parsers,
  the hash function and the hexadecimal formatters belong to third-party crates: they are the
  fields of the record \<open>externals\<close>, an argument of every definition that uses them. The readers
  are written once over the two error constructors the modules have in common. The integer
  parser of the standard library is modelled, with its three error messages.
\<close>

record 'v externals =
  j_parse :: "string \<Rightarrow> ('v, string) outcome" \<comment> \<open>\<open>serde_json::from_str\<close>\<close>
  j_get :: "'v \<Rightarrow> string \<Rightarrow> 'v option" \<comment> \<open>\<open>Value::get\<close>\<close>
  j_as_str :: "'v \<Rightarrow> string option"
  j_as_u64 :: "'v \<Rightarrow> u64 option"
  j_as_bool :: "'v \<Rightarrow> bool option"
  j_as_array :: "'v \<Rightarrow> 'v list option"
  x_address :: "string \<Rightarrow> (u160, string) outcome" \<comment> \<open>\<open>str::parse::<Address>\<close>\<close>
  x_hex :: "string \<Rightarrow> (u8 list, string) outcome" \<comment> \<open>\<open>alloy::hex::decode\<close>\<close>
  x_u256 :: "string \<Rightarrow> nat \<Rightarrow> (u256, string) outcome" \<comment> \<open>\<open>U256::from_str_radix\<close>\<close>
  x_keccak :: "u8 list \<Rightarrow> u256" \<comment> \<open>\<open>keccak256\<close>\<close>
  x_fmt_hash :: "u256 \<Rightarrow> string" \<comment> \<open>\<open>{:#x}\<close> of a \<open>B256\<close>\<close>
  x_fmt_address :: "u160 \<Rightarrow> string" \<comment> \<open>\<open>{:#x}\<close> of an \<open>Address\<close>\<close>

record 'e field_errors =
  missing_field :: "string \<Rightarrow> string \<Rightarrow> 'e"
  invalid_field :: "string \<Rightarrow> string \<Rightarrow> string \<Rightarrow> 'e"

section \<open>Unsigned integers of the standard library\<close>

fun parse_digits :: "nat \<Rightarrow> nat \<Rightarrow> string \<Rightarrow> (nat, string) outcome" where
  "parse_digits bound v [] = Ok v"
| "parse_digits bound v (c # cs) =
     (if \<not> is_digit c then Err ''invalid digit found in string''
      else
        let v' = v * 10 + digit_value c
        in if bound \<le> v' then Err ''number too large to fit in target type''
           else parse_digits bound v' cs)"

definition parse_uint :: "nat \<Rightarrow> string \<Rightarrow> (nat, string) outcome" where
  \<comment> \<open>\<open>str::parse\<close> at an unsigned type below the bound\<close>
  "parse_uint bound s =
     (if s = [] then Err ''cannot parse integer from empty string''
      else if s = ''+'' \<or> s = ''-'' then Err ''invalid digit found in string''
      else parse_digits bound 0 (if hd s = CHR ''+'' then tl s else s))"

lemma parse_digits_decimal:
  "list_all is_digit s \<Longrightarrow> foldl (\<lambda>v c. v * 10 + digit_value c) v s < bound \<Longrightarrow>
    parse_digits bound v s = Ok (foldl (\<lambda>v c. v * 10 + digit_value c) v s)"
proof (induction s arbitrary: v)
  case (Cons c s)
  have grows: "v \<le> foldl (\<lambda>v c. v * 10 + digit_value c) v s" for v
  proof (induction s arbitrary: v)
    case (Cons d s)
    have "v \<le> v * 10 + digit_value d" by simp
    also have "\<dots> \<le> foldl (\<lambda>v c. v * 10 + digit_value c) (v * 10 + digit_value d) s" by (rule Cons)
    finally show ?case by simp
  qed simp
  have "v * 10 + digit_value c < bound"
    using Cons.prems(2) le_less_trans [OF grows [of "v * 10 + digit_value c"]] by simp
  with Cons show ?case by (simp add: Let_def)
qed simp

lemma parse_uint_decimal: "n < bound \<Longrightarrow> parse_uint bound (decimal n) = Ok n"
proof -
  assume n: "n < bound"
  obtain c cs where s: "decimal n = c # cs" using decimal_nonempty by (cases "decimal n") auto
  have d: "is_digit c" using decimal_digits [of n] s by simp
  then have "c \<noteq> CHR ''+''" "c \<noteq> CHR ''-''" by (auto simp: is_digit_def)
  moreover have "parse_digits bound 0 (decimal n) = Ok n"
    using parse_digits_decimal [OF decimal_digits, of 0 n bound] decimal_value_decimal [of n] n
    by (simp add: decimal_value_def)
  ultimately show ?thesis by (simp add: parse_uint_def s)
qed

section \<open>Field readers\<close>

definition json_field :: "'v externals \<Rightarrow> 'e field_errors \<Rightarrow> 'v \<Rightarrow> string \<Rightarrow> string \<Rightarrow> ('v, 'e) outcome" where
  "json_field X E v object key = ok_or (j_get X v key) (missing_field E object key)"

definition json_str :: "'v externals \<Rightarrow> 'e field_errors \<Rightarrow> 'v \<Rightarrow> string \<Rightarrow> string \<Rightarrow> (string, 'e) outcome" where
  "json_str X E v object key =
     obind (json_field X E v object key) (\<lambda>raw.
       ok_or (j_as_str X raw) (invalid_field E object key ''expected string''))"

definition json_bool :: "'v externals \<Rightarrow> 'e field_errors \<Rightarrow> 'v \<Rightarrow> string \<Rightarrow> string \<Rightarrow> (bool, 'e) outcome" where
  "json_bool X E v object key =
     obind (json_field X E v object key) (\<lambda>raw.
       ok_or (j_as_bool X raw) (invalid_field E object key ''expected bool''))"

definition strip_0x :: "string \<Rightarrow> string option" where
  \<comment> \<open>\<open>strip_prefix("0x")\<close>\<close>
  "strip_0x s = (if take 2 s = ''0x'' then Some (drop 2 s) else None)"

definition json_u256_text :: "'v externals \<Rightarrow> 'e field_errors \<Rightarrow> string \<Rightarrow> string \<Rightarrow> string \<Rightarrow> (u256, 'e) outcome" where
  "json_u256_text X E text object key =
     map_err (\<lambda>m. invalid_field E object key m)
       (case strip_0x text of None \<Rightarrow> x_u256 X text 10 | Some hex \<Rightarrow> x_u256 X hex 16)"

definition json_opt_u256 :: "'v externals \<Rightarrow> 'e field_errors \<Rightarrow> 'v \<Rightarrow> string \<Rightarrow> string \<Rightarrow> (u256 option, 'e) outcome" where
  "json_opt_u256 X E v object key =
     (case j_get X v key of
        None \<Rightarrow> Ok None
      | Some raw \<Rightarrow> (case j_as_u64 X raw of
          Some n \<Rightarrow> Ok (Some (ucast n))
        | None \<Rightarrow>
            obind (ok_or (j_as_str X raw)
              (invalid_field E object key ''expected decimal string, hex string, or u64'')) (\<lambda>text.
            obind (json_u256_text X E text object key) (\<lambda>parsed. Ok (Some parsed)))))"

definition json_u256 :: "'v externals \<Rightarrow> 'e field_errors \<Rightarrow> 'v \<Rightarrow> string \<Rightarrow> string \<Rightarrow> (u256, 'e) outcome" where
  "json_u256 X E v object key =
     obind (json_opt_u256 X E v object key) (\<lambda>r. ok_or r (missing_field E object key))"

definition json_address :: "'v externals \<Rightarrow> 'e field_errors \<Rightarrow> 'v \<Rightarrow> string \<Rightarrow> string \<Rightarrow> (u160, 'e) outcome" where
  "json_address X E v object key =
     obind (json_str X E v object key) (\<lambda>text.
       map_err (\<lambda>m. invalid_field E object key m) (x_address X text))"

end
