(* ===== verification/Signed_Order_Admission.thy ===== *)
theory Signed_Order_Admission
  imports Json_Input
begin

text \<open>
  \<open>signed_order_admission.rs\<close>: admission of a match between two signed orders. The theory covers
  the order and digest hashing (over the parameter \<open>x_keccak\<close> and the ABI encoding of the tuple),
  the collection of every policy violation, the fee split, the proportional minimum-share test, the
  admission hash and the JSON front end. It shows when a match is executable, that an executable
  match respects both orders, that fees and shares are conserved, and that the bytes behind the
  admission hash determine the decision and everything it was based on.
\<close>

section \<open>Data\<close>

definition BPS_DENOMINATOR :: u16 where "BPS_DENOMINATOR = 10000"
definition MAX_SOURCE_FEE_BPS :: u16 where "MAX_SOURCE_FEE_BPS = 1000"

datatype SignedOrderAdmissionError =
    ArithmeticOverflow string
  | ArithmeticUnderflow string
  | SO_InvalidJson string
  | SO_MissingField string string
  | SO_InvalidField string string string

record PredictionFxOrder =
  maker :: u160
  is_yes :: bool
  deposit_amount :: u256
  min_shares :: u256
  nonce :: u256
  deadline :: u256

record PredictionFxDomain =
  chain_id :: u256
  verifying_contract :: u160

record PredictionFxMatchInput =
  yes_order :: PredictionFxOrder
  no_order :: PredictionFxOrder
  yes_fill_amount :: u256
  no_fill_amount :: u256
  yes_already_filled :: u256
  no_already_filled :: u256
  now :: u256
  market_expiry :: u256
  market_resolved :: bool
  fee_bps :: u16
  creator_fee_bps :: u16

datatype PredictionFxViolationCode =
    MarketResolved | MarketExpired | YesOrderWrongSide | NoOrderWrongSide | YesOrderExpired
  | NoOrderExpired | ZeroFill | ZeroOrderDeposit | YesOverfill | NoOverfill | FeeBpsOutOfRange
  | CreatorFeeBpsOutOfRange | YesMinSharesNotMet | NoMinSharesNotMet

fun violation_as_wire :: "PredictionFxViolationCode \<Rightarrow> string" where
  "violation_as_wire MarketResolved = ''market_resolved''"
| "violation_as_wire MarketExpired = ''market_expired''"
| "violation_as_wire YesOrderWrongSide = ''yes_order_wrong_side''"
| "violation_as_wire NoOrderWrongSide = ''no_order_wrong_side''"
| "violation_as_wire YesOrderExpired = ''yes_order_expired''"
| "violation_as_wire NoOrderExpired = ''no_order_expired''"
| "violation_as_wire ZeroFill = ''zero_fill''"
| "violation_as_wire ZeroOrderDeposit = ''zero_order_deposit''"
| "violation_as_wire YesOverfill = ''yes_overfill''"
| "violation_as_wire NoOverfill = ''no_overfill''"
| "violation_as_wire FeeBpsOutOfRange = ''fee_bps_out_of_range''"
| "violation_as_wire CreatorFeeBpsOutOfRange = ''creator_fee_bps_out_of_range''"
| "violation_as_wire YesMinSharesNotMet = ''yes_min_shares_not_met''"
| "violation_as_wire NoMinSharesNotMet = ''no_min_shares_not_met''"

record PredictionFxViolation =
  vi_code :: PredictionFxViolationCode
  vi_message :: string

record PredictionFxFeeSplit =
  gross :: u256
  fee :: u256
  creator_fee :: u256
  resolver_fee :: u256
  net :: u256

record PredictionFxMatchPreview =
  pv_yes_order_hash :: u256
  pv_no_order_hash :: u256
  pv_yes_fill_amount :: u256
  pv_no_fill_amount :: u256
  pv_yes_remaining_before :: u256
  pv_no_remaining_before :: u256
  pv_yes_side :: PredictionFxFeeSplit
  pv_no_side :: PredictionFxFeeSplit
  pv_yes_shares_minted :: u256
  pv_no_shares_minted :: u256
  pv_executable :: bool
  pv_violations :: "PredictionFxViolation list"
  pv_admission_hash :: u256

type_synonym 'a so_result = "('a, SignedOrderAdmissionError) outcome"

section \<open>Order hashing\<close>

text \<open>
  The ABI encoding of a tuple of static words is the concatenation of their 32-byte big-endian
  forms; addresses are zero-extended and booleans are 0 or 1.
\<close>

definition abi_word :: "u256 \<Rightarrow> u8 list" where
  "abi_word w = to_be_bytes w"

definition prediction_fx_order_type_hash :: "'v externals \<Rightarrow> u256" where
  "prediction_fx_order_type_hash X = x_keccak X (as_bytes
     ''Order(address maker,bool isYes,uint256 depositAmount,uint256 minShares,uint256 nonce,uint256 deadline)'')"

definition prediction_fx_domain_type_hash :: "'v externals \<Rightarrow> u256" where
  "prediction_fx_domain_type_hash X = x_keccak X (as_bytes
     ''EIP712Domain(string name,string version,uint256 chainId,address verifyingContract)'')"

definition prediction_fx_domain_name_hash :: "'v externals \<Rightarrow> u256" where
  "prediction_fx_domain_name_hash X = x_keccak X (as_bytes ''BinaryOption'')"

definition prediction_fx_domain_version_hash :: "'v externals \<Rightarrow> u256" where
  "prediction_fx_domain_version_hash X = x_keccak X (as_bytes ''1'')"

definition order_preimage :: "'v externals \<Rightarrow> PredictionFxOrder \<Rightarrow> u8 list" where
  "order_preimage X order =
     abi_word (prediction_fx_order_type_hash X) @ abi_word (ucast (maker order))
     @ abi_word (if is_yes order then 1 else 0) @ abi_word (deposit_amount order)
     @ abi_word (min_shares order) @ abi_word (nonce order) @ abi_word (deadline order)"

definition hash_prediction_fx_order :: "'v externals \<Rightarrow> PredictionFxOrder \<Rightarrow> u256" where
  "hash_prediction_fx_order X order = x_keccak X (order_preimage X order)"

definition hash_prediction_fx_domain_separator :: "'v externals \<Rightarrow> PredictionFxDomain \<Rightarrow> u256" where
  "hash_prediction_fx_domain_separator X d = x_keccak X
     (abi_word (prediction_fx_domain_type_hash X) @ abi_word (prediction_fx_domain_name_hash X)
      @ abi_word (prediction_fx_domain_version_hash X) @ abi_word (chain_id d)
      @ abi_word (ucast (verifying_contract d)))"

definition hash_prediction_fx_eip712_digest :: "'v externals \<Rightarrow> PredictionFxDomain \<Rightarrow> PredictionFxOrder \<Rightarrow> u256" where
  "hash_prediction_fx_eip712_digest X d order = x_keccak X
     ([0x19, 0x01] @ to_be_bytes (hash_prediction_fx_domain_separator X d)
      @ to_be_bytes (hash_prediction_fx_order X order))"

section \<open>Checked arithmetic and fees\<close>

definition so_checked_mul :: "u256 \<Rightarrow> u256 \<Rightarrow> string \<Rightarrow> u256 so_result" where
  "so_checked_mul left right ctx = ok_or (checked_mul left right) (ArithmeticOverflow ctx)"

definition so_checked_sub :: "u256 \<Rightarrow> u256 \<Rightarrow> string \<Rightarrow> u256 so_result" where
  "so_checked_sub left right ctx = ok_or (checked_sub left right) (ArithmeticUnderflow ctx)"

definition mul_div_floor :: "u256 \<Rightarrow> u256 \<Rightarrow> u256 \<Rightarrow> string \<Rightarrow> u256 so_result" where
  "mul_div_floor v numerator denominator ctx =
     obind (so_checked_mul v numerator ctx) (\<lambda>product. u_div product denominator)"

definition split_prediction_fx_fees :: "u256 \<Rightarrow> u16 \<Rightarrow> u16 \<Rightarrow> PredictionFxFeeSplit so_result" where
  "split_prediction_fx_fees g fb cb =
     obind (mul_div_floor g (ucast fb) (ucast BPS_DENOMINATOR) ''fee'') (\<lambda>f.
     obind (mul_div_floor f (ucast cb) (ucast BPS_DENOMINATOR) ''creator_fee'') (\<lambda>cf.
     obind (so_checked_sub f cf ''resolver_fee must not underflow creator_fee'') (\<lambda>rf.
     obind (so_checked_sub g f ''net amount must not underflow fee'') (\<lambda>n.
       Ok \<lparr>gross = g, fee = f, creator_fee = cf, resolver_fee = rf, net = n\<rparr>))))"

definition remaining_capacity :: "u256 \<Rightarrow> u256 \<Rightarrow> u256" where
  "remaining_capacity deposit already_filled =
     (if deposit \<le> already_filled then 0 else deposit - already_filled)"

definition proportional_min_shares_not_met :: "u256 \<Rightarrow> u256 \<Rightarrow> u256 \<Rightarrow> u256 \<Rightarrow> string \<Rightarrow> bool so_result" where
  "proportional_min_shares_not_met shares_minted deposit min_sh fill_amount ctx =
     obind (so_checked_mul shares_minted deposit ctx) (\<lambda>lhs.
     obind (so_checked_mul min_sh fill_amount ctx) (\<lambda>rhs. Ok (lhs < rhs)))"

section \<open>Violations\<close>

definition push_violation :: "bool \<Rightarrow> PredictionFxViolationCode \<Rightarrow> string \<Rightarrow> PredictionFxViolation list \<Rightarrow> PredictionFxViolation list" where
  \<comment> \<open>\<open>if c { push_violation(violations, code, message) }\<close>\<close>
  "push_violation c code message vs = (if c then vs @ [\<lparr>vi_code = code, vi_message = message\<rparr>] else vs)"

definition collect_basic_match_violations ::
    "PredictionFxMatchInput \<Rightarrow> u256 \<Rightarrow> u256 \<Rightarrow> PredictionFxViolation list \<Rightarrow> PredictionFxViolation list" where
  "collect_basic_match_violations inp yes_remaining no_remaining vs =
     (let vs = push_violation (market_resolved inp) MarketResolved ''market is already resolved'' vs;
          vs = push_violation (market_expiry inp \<le> now inp) MarketExpired ''market matching window has expired'' vs;
          vs = push_violation (\<not> is_yes (yes_order inp)) YesOrderWrongSide ''expected first order to be YES-side'' vs;
          vs = push_violation (is_yes (no_order inp)) NoOrderWrongSide ''expected second order to be NO-side'' vs;
          vs = push_violation (deadline (yes_order inp) < now inp) YesOrderExpired ''YES order signature deadline has elapsed'' vs;
          vs = push_violation (deadline (no_order inp) < now inp) NoOrderExpired ''NO order signature deadline has elapsed'' vs;
          vs = push_violation (yes_fill_amount inp = 0 \<or> no_fill_amount inp = 0) ZeroFill ''both fill amounts must be positive'' vs;
          vs = push_violation (deposit_amount (yes_order inp) = 0 \<or> deposit_amount (no_order inp) = 0) ZeroOrderDeposit
                 ''both orders must have positive deposit amounts'' vs;
          vs = push_violation (yes_remaining < yes_fill_amount inp) YesOverfill ''YES fill exceeds remaining order capacity'' vs;
          vs = push_violation (no_remaining < no_fill_amount inp) NoOverfill ''NO fill exceeds remaining order capacity'' vs;
          vs = push_violation (MAX_SOURCE_FEE_BPS < fee_bps inp) FeeBpsOutOfRange ''fee_bps exceeds policy maximum'' vs
      in push_violation (BPS_DENOMINATOR < creator_fee_bps inp) CreatorFeeBpsOutOfRange ''creator_fee_bps exceeds 100%'' vs)"

definition collect_min_share_violations ::
    "PredictionFxMatchInput \<Rightarrow> u256 \<Rightarrow> u256 \<Rightarrow> PredictionFxViolation list \<Rightarrow> PredictionFxViolation list so_result" where
  "collect_min_share_violations inp yes_minted no_minted vs =
     obind (proportional_min_shares_not_met yes_minted (deposit_amount (yes_order inp)) (min_shares (yes_order inp))
       (yes_fill_amount inp) ''yes_min_shares'') (\<lambda>y.
     let vs = push_violation y YesMinSharesNotMet ''YES order proportional min_shares is not met'' vs
     in
     obind (proportional_min_shares_not_met no_minted (deposit_amount (no_order inp)) (min_shares (no_order inp))
       (no_fill_amount inp) ''no_min_shares'') (\<lambda>n.
       Ok (push_violation n NoMinSharesNotMet ''NO order proportional min_shares is not met'' vs)))"

section \<open>The admission hash\<close>

definition push_order :: "'v externals \<Rightarrow> PredictionFxOrder \<Rightarrow> u8 list" where
  "push_order X order =
     to_be_bytes (maker order) @ bool_byte (is_yes order) @ push_u256 (deposit_amount order)
     @ push_u256 (min_shares order) @ push_u256 (nonce order) @ push_u256 (deadline order)
     @ to_be_bytes (hash_prediction_fx_order X order)"

definition admission_preimage ::
    "'v externals \<Rightarrow> PredictionFxMatchInput \<Rightarrow> bool \<Rightarrow> PredictionFxViolation list \<Rightarrow> u8 list" where
  "admission_preimage X inp executable violations =
     push_str ''degenbot-signed-order-admission-v1'' @ push_str ''prediction_fx''
     @ push_order X (yes_order inp) @ push_order X (no_order inp)
     @ push_u256 (yes_fill_amount inp) @ push_u256 (no_fill_amount inp)
     @ push_u256 (yes_already_filled inp) @ push_u256 (no_already_filled inp)
     @ push_u256 (now inp) @ push_u256 (market_expiry inp) @ bool_byte (market_resolved inp)
     @ to_be_bytes (fee_bps inp) @ to_be_bytes (creator_fee_bps inp) @ bool_byte executable
     @ to_be_bytes (word_of_nat (length violations) :: u64)
     @ concat (map (\<lambda>v. push_str (violation_as_wire (vi_code v))) violations)"

definition hash_prediction_fx_admission ::
    "'v externals \<Rightarrow> PredictionFxMatchInput \<Rightarrow> bool \<Rightarrow> PredictionFxViolation list \<Rightarrow> u256" where
  "hash_prediction_fx_admission X inp executable violations =
     x_keccak X (admission_preimage X inp executable violations)"

section \<open>Evaluation of a match\<close>

definition evaluate_prediction_fx_match ::
    "'v externals \<Rightarrow> PredictionFxMatchInput \<Rightarrow> PredictionFxMatchPreview so_result" where
  "evaluate_prediction_fx_match X inp =
     (let yes_order_hash = hash_prediction_fx_order X (yes_order inp);
          no_order_hash = hash_prediction_fx_order X (no_order inp);
          yes_remaining_before = remaining_capacity (deposit_amount (yes_order inp)) (yes_already_filled inp);
          no_remaining_before = remaining_capacity (deposit_amount (no_order inp)) (no_already_filled inp);
          violations = collect_basic_match_violations inp yes_remaining_before no_remaining_before [];
          fb = (if fee_bps inp \<le> MAX_SOURCE_FEE_BPS then fee_bps inp else 0);
          cb = (if creator_fee_bps inp \<le> BPS_DENOMINATOR then creator_fee_bps inp else 0)
      in
      obind (split_prediction_fx_fees (yes_fill_amount inp) fb cb) (\<lambda>yes_side.
      obind (split_prediction_fx_fees (no_fill_amount inp) fb cb) (\<lambda>no_side.
      obind (collect_min_share_violations inp (net no_side) (net yes_side) violations) (\<lambda>violations.
        let executable = (violations = [])
        in Ok \<lparr>pv_yes_order_hash = yes_order_hash, pv_no_order_hash = no_order_hash,
             pv_yes_fill_amount = yes_fill_amount inp, pv_no_fill_amount = no_fill_amount inp,
             pv_yes_remaining_before = yes_remaining_before, pv_no_remaining_before = no_remaining_before,
             pv_yes_side = yes_side, pv_no_side = no_side,
             pv_yes_shares_minted = net no_side, pv_no_shares_minted = net yes_side,
             pv_executable = executable, pv_violations = violations,
             pv_admission_hash = hash_prediction_fx_admission X inp executable violations\<rparr>))))"


section \<open>JSON front end\<close>

record PredictionFxFeeSplitReport =
  r_gross :: string
  r_fee :: string
  r_creator_fee :: string
  r_resolver_fee :: string
  r_net :: string

record PredictionFxViolationReport =
  r_code :: string
  r_message :: string

record PredictionFxMatchReport =
  r_yes_order_hash :: string
  r_no_order_hash :: string
  r_yes_fill_amount :: string
  r_no_fill_amount :: string
  r_yes_remaining_before :: string
  r_no_remaining_before :: string
  r_yes_side :: PredictionFxFeeSplitReport
  r_no_side :: PredictionFxFeeSplitReport
  r_yes_shares_minted :: string
  r_no_shares_minted :: string
  r_executable :: bool
  r_violations :: "PredictionFxViolationReport list"
  r_admission_hash :: string

definition from_split :: "PredictionFxFeeSplit \<Rightarrow> PredictionFxFeeSplitReport" where
  "from_split split =
     \<lparr>r_gross = decimal (unat (gross split)), r_fee = decimal (unat (fee split)),
      r_creator_fee = decimal (unat (creator_fee split)), r_resolver_fee = decimal (unat (resolver_fee split)),
      r_net = decimal (unat (net split))\<rparr>"

definition from_violation :: "PredictionFxViolation \<Rightarrow> PredictionFxViolationReport" where
  "from_violation v = \<lparr>r_code = violation_as_wire (vi_code v), r_message = vi_message v\<rparr>"

definition from_preview :: "'v externals \<Rightarrow> PredictionFxMatchPreview \<Rightarrow> PredictionFxMatchReport" where
  "from_preview X p =
     \<lparr>r_yes_order_hash = x_fmt_hash X (pv_yes_order_hash p), r_no_order_hash = x_fmt_hash X (pv_no_order_hash p),
      r_yes_fill_amount = decimal (unat (pv_yes_fill_amount p)), r_no_fill_amount = decimal (unat (pv_no_fill_amount p)),
      r_yes_remaining_before = decimal (unat (pv_yes_remaining_before p)),
      r_no_remaining_before = decimal (unat (pv_no_remaining_before p)),
      r_yes_side = from_split (pv_yes_side p), r_no_side = from_split (pv_no_side p),
      r_yes_shares_minted = decimal (unat (pv_yes_shares_minted p)),
      r_no_shares_minted = decimal (unat (pv_no_shares_minted p)), r_executable = pv_executable p,
      r_violations = map from_violation (pv_violations p), r_admission_hash = x_fmt_hash X (pv_admission_hash p)\<rparr>"

definition so_errors :: "SignedOrderAdmissionError field_errors" where
  "so_errors = \<lparr>missing_field = SO_MissingField, invalid_field = SO_InvalidField\<rparr>"

definition so_field :: "'v externals \<Rightarrow> 'v \<Rightarrow> string \<Rightarrow> string \<Rightarrow> 'v so_result" where
  "so_field X = json_field X so_errors"

definition so_required_address :: "'v externals \<Rightarrow> 'v \<Rightarrow> string \<Rightarrow> string \<Rightarrow> u160 so_result" where
  "so_required_address X = json_address X so_errors"

definition so_required_bool :: "'v externals \<Rightarrow> 'v \<Rightarrow> string \<Rightarrow> string \<Rightarrow> bool so_result" where
  "so_required_bool X = json_bool X so_errors"

definition so_optional_bool :: "'v externals \<Rightarrow> 'v \<Rightarrow> string \<Rightarrow> bool option" where
  "so_optional_bool X v key = Option.bind (j_get X v key) (j_as_bool X)"

definition so_required_u16 :: "'v externals \<Rightarrow> 'v \<Rightarrow> string \<Rightarrow> string \<Rightarrow> u16 so_result" where
  "so_required_u16 X v object key =
     obind (so_field X v object key) (\<lambda>raw.
     case j_as_u64 X raw of
       Some n \<Rightarrow> (if unat n < 2 ^ 16 then Ok (ucast n)
         else Err (SO_InvalidField object key ''out of range integral type conversion attempted''))
     | None \<Rightarrow>
         obind (ok_or (j_as_str X raw) (SO_InvalidField object key ''expected u16 or decimal string'')) (\<lambda>text.
         obind (map_err (\<lambda>m. SO_InvalidField object key m) (parse_uint (2 ^ 16) text)) (\<lambda>n. Ok (word_of_nat n))))"

definition so_required_u256 :: "'v externals \<Rightarrow> 'v \<Rightarrow> string \<Rightarrow> string \<Rightarrow> u256 so_result" where
  "so_required_u256 X = json_u256 X so_errors"

definition so_optional_u256 :: "'v externals \<Rightarrow> 'v \<Rightarrow> string \<Rightarrow> string \<Rightarrow> u256 option so_result" where
  "so_optional_u256 X = json_opt_u256 X so_errors"

definition parse_order :: "'v externals \<Rightarrow> 'v \<Rightarrow> string \<Rightarrow> PredictionFxOrder so_result" where
  "parse_order X v object =
     obind (so_required_address X v object ''maker'') (\<lambda>mk.
     obind (so_required_bool X v object ''is_yes'') (\<lambda>iy.
     obind (so_required_u256 X v object ''deposit_amount'') (\<lambda>da.
     obind (so_required_u256 X v object ''min_shares'') (\<lambda>ms.
     obind (so_required_u256 X v object ''nonce'') (\<lambda>no.
     obind (so_required_u256 X v object ''deadline'') (\<lambda>dl.
       Ok \<lparr>maker = mk, is_yes = iy, deposit_amount = da, min_shares = ms, nonce = no, deadline = dl\<rparr>))))))"

definition parse_prediction_fx_match_input :: "'v externals \<Rightarrow> 'v \<Rightarrow> PredictionFxMatchInput so_result" where
  "parse_prediction_fx_match_input X v =
     obind (so_field X v ''input'' ''yes_order'') (\<lambda>yv.
     obind (parse_order X yv ''yes_order'') (\<lambda>yo.
     obind (so_field X v ''input'' ''no_order'') (\<lambda>nv.
     obind (parse_order X nv ''no_order'') (\<lambda>no.
     obind (so_required_u256 X v ''input'' ''yes_fill_amount'') (\<lambda>yf.
     obind (so_required_u256 X v ''input'' ''no_fill_amount'') (\<lambda>nf.
     obind (so_optional_u256 X v ''input'' ''yes_already_filled'') (\<lambda>ya.
     obind (so_optional_u256 X v ''input'' ''no_already_filled'') (\<lambda>na.
     obind (so_required_u256 X v ''input'' ''now'') (\<lambda>nw.
     obind (so_required_u256 X v ''input'' ''market_expiry'') (\<lambda>me.
     let mr = (case so_optional_bool X v ''market_resolved'' of None \<Rightarrow> False | Some b \<Rightarrow> b)
     in
     obind (so_required_u16 X v ''input'' ''fee_bps'') (\<lambda>fb.
     obind (so_required_u16 X v ''input'' ''creator_fee_bps'') (\<lambda>cb.
       Ok \<lparr>yes_order = yo, no_order = no, yes_fill_amount = yf, no_fill_amount = nf,
         yes_already_filled = (case ya of None \<Rightarrow> 0 | Some x \<Rightarrow> x),
         no_already_filled = (case na of None \<Rightarrow> 0 | Some x \<Rightarrow> x),
         now = nw, market_expiry = me, market_resolved = mr, fee_bps = fb, creator_fee_bps = cb\<rparr>))))))))))))"

definition evaluate_prediction_fx_match_json ::
    "'v externals \<Rightarrow> (PredictionFxMatchReport \<Rightarrow> (string, string) outcome) \<Rightarrow> string \<Rightarrow> string so_result" where
  \<comment> \<open>\<open>to_json\<close> is the third-party serialiser\<close>
  "evaluate_prediction_fx_match_json X to_json input_json =
     obind (map_err SO_InvalidJson (j_parse X input_json)) (\<lambda>v.
     obind (parse_prediction_fx_match_input X v) (\<lambda>inp.
     obind (evaluate_prediction_fx_match X inp) (\<lambda>preview.
       map_err SO_InvalidJson (to_json (from_preview X preview)))))"


section \<open>Arithmetic\<close>

lemma unat_bps [simp]: "unat (ucast (b :: u16) :: u256) = unat b"
  using unat_bound [of b] by (simp add: unsigned_ucast_eq take_bit_nat_eq_self power_numeral)

lemma unat_bps_denominator [simp]: "unat BPS_DENOMINATOR = 10000"
  by (simp add: BPS_DENOMINATOR_def)

lemma bps_denominator_nonzero [simp]: "(ucast BPS_DENOMINATOR :: u256) \<noteq> 0"
  by (simp add: BPS_DENOMINATOR_def)

lemma so_checked_Ok [outcome_simps]:
  "so_checked_mul a b c = Ok r \<longleftrightarrow> unat r = unat a * unat b"
  "so_checked_sub a b c = Ok r \<longleftrightarrow> unat a = unat b + unat r"
  by (simp_all add: so_checked_mul_def so_checked_sub_def ok_or_eq_Ok checked_mul_Some checked_sub_Some)

lemma so_checked_mul_fits: "unat a * unat b < 2 ^ 256 \<Longrightarrow> \<exists>r. so_checked_mul a b c = Ok r"
  by (simp add: so_checked_mul_def checked_mul_def)

lemma so_checked_mul_eq: "so_checked_mul a b c = (if unat a * unat b < 2 ^ 256 then Ok (a * b) else Err (ArithmeticOverflow c))"
  by (simp add: so_checked_mul_def checked_mul_def)

lemma so_checked_sub_eq: "so_checked_sub a b c = (if b \<le> a then Ok (a - b) else Err (ArithmeticUnderflow c))"
  by (simp add: so_checked_sub_def checked_sub_def)

lemma mul_div_floor_bps:
  assumes "unat v * unat (b :: u16) < 2 ^ 256"
  shows "\<exists>r. mul_div_floor v (ucast b) (ucast BPS_DENOMINATOR) c = Ok r \<and> unat r = unat v * unat b div 10000"
  using assms by (simp add: mul_div_floor_def so_checked_mul_eq u_div_def unat_div unat_word_ariths(2))

lemma bps_share_le: "b \<le> 10000 \<Longrightarrow> (v :: nat) * b div 10000 \<le> v"
proof -
  assume "b \<le> 10000"
  then have "v * b div 10000 \<le> v * 10000 div 10000" by (intro div_le_mono mult_le_mono2)
  then show ?thesis by simp
qed

lemma split_fees_Ok:
  assumes b: "unat fb \<le> 10000" "unat cb \<le> 10000" and fits: "unat g * unat fb < 2 ^ 256"
  shows "\<exists>s. split_prediction_fx_fees g fb cb = Ok s \<and> gross s = g
    \<and> unat (fee s) = unat g * unat fb div 10000 \<and> unat (creator_fee s) = unat (fee s) * unat cb div 10000
    \<and> unat (creator_fee s) + unat (resolver_fee s) = unat (fee s) \<and> unat (net s) + unat (fee s) = unat g"
proof -
  obtain f where f: "mul_div_floor g (ucast fb) (ucast BPS_DENOMINATOR) ''fee'' = Ok f" "unat f = unat g * unat fb div 10000"
    using mul_div_floor_bps [OF fits] by blast
  have "unat f * unat cb \<le> unat g * unat fb div 10000 * 10000" unfolding f(2) using b(2) by (rule mult_le_mono2)
  also have "\<dots> \<le> unat g * unat fb" by simp
  finally have "unat f * unat cb < 2 ^ 256" using fits by simp
  then obtain cf where cf: "mul_div_floor f (ucast cb) (ucast BPS_DENOMINATOR) ''creator_fee'' = Ok cf"
    "unat cf = unat f * unat cb div 10000"
    using mul_div_floor_bps by blast
  have le: "cf \<le> f" "f \<le> g" using cf(2) f(2) bps_share_le b by (simp_all add: word_le_nat_alt)
  then have "unat cf + unat (f - cf) = unat f" "unat (g - f) + unat f = unat g"
    by (simp_all add: unat_sub word_le_nat_alt)
  with f cf le show ?thesis by (simp add: split_prediction_fx_fees_def so_checked_sub_eq)
qed

lemma split_fees_overflow:
  "2 ^ 256 \<le> unat g * unat fb \<Longrightarrow> split_prediction_fx_fees g fb cb = Err (ArithmeticOverflow ''fee'')"
  by (simp add: split_prediction_fx_fees_def mul_div_floor_def so_checked_mul_eq)

section \<open>Claims\<close>

text \<open>
  Within the policy range the fee split either reports that \<open>gross * fee_bps\<close> overflows, or
  returns the floored fee and creator share with nothing lost: creator and resolver fee add up to
  the fee, net and fee add up to the gross amount.
\<close>

theorem fee_split_conserves:
  assumes "fb \<le> MAX_SOURCE_FEE_BPS" "cb \<le> BPS_DENOMINATOR"
  shows "case split_prediction_fx_fees g fb cb of
      Ok s \<Rightarrow> gross s = g \<and> unat (fee s) = unat g * unat fb div 10000
        \<and> unat (creator_fee s) = unat (fee s) * unat cb div 10000
        \<and> unat (creator_fee s) + unat (resolver_fee s) = unat (fee s)
        \<and> unat (net s) + unat (fee s) = unat g
    | Err e \<Rightarrow> e = ArithmeticOverflow ''fee'' \<and> 2 ^ 256 \<le> unat g * unat fb
    | Panic \<Rightarrow> False"
proof -
  have b: "unat fb \<le> 10000" "unat cb \<le> 10000"
    using assms by (simp_all add: word_le_nat_alt MAX_SOURCE_FEE_BPS_def)
  show ?thesis
  proof (cases "unat g * unat fb < 2 ^ 256")
    case True
    from split_fees_Ok [OF b this] show ?thesis by auto
  next
    case False
    then show ?thesis by (simp add: split_fees_overflow)
  qed
qed

theorem fee_split_conserves_witness:
  "case split_prediction_fx_fees 1000003 100 2500 of
      Ok s \<Rightarrow> gross s = 1000003 \<and> unat (fee s) = unat (1000003 :: u256) * unat (100 :: u16) div 10000
        \<and> unat (creator_fee s) = unat (fee s) * unat (2500 :: u16) div 10000
        \<and> unat (creator_fee s) + unat (resolver_fee s) = unat (fee s)
        \<and> unat (net s) + unat (fee s) = unat (1000003 :: u256)
    | Err e \<Rightarrow> e = ArithmeticOverflow ''fee'' \<and> 2 ^ 256 \<le> unat (1000003 :: u256) * unat (100 :: u16)
    | Panic \<Rightarrow> False"
  by (rule fee_split_conserves) (simp_all add: MAX_SOURCE_FEE_BPS_def BPS_DENOMINATOR_def)


lemma remaining_capacity_iff:
  "f \<noteq> 0 \<Longrightarrow> f \<le> remaining_capacity d a \<longleftrightarrow> unat a + unat f \<le> unat d"
  by (auto simp: remaining_capacity_def word_le_nat_alt unat_sub unat_gt_0 [symmetric])

lemma push_violation_empty: "push_violation c code m vs = [] \<longleftrightarrow> \<not> c \<and> vs = []"
  by (simp add: push_violation_def)

lemma collect_basic_empty:
  "collect_basic_match_violations inp yr nr [] = [] \<longleftrightarrow>
     \<not> market_resolved inp \<and> now inp < market_expiry inp \<and> is_yes (yes_order inp) \<and> \<not> is_yes (no_order inp)
     \<and> now inp \<le> deadline (yes_order inp) \<and> now inp \<le> deadline (no_order inp)
     \<and> yes_fill_amount inp \<noteq> 0 \<and> no_fill_amount inp \<noteq> 0
     \<and> deposit_amount (yes_order inp) \<noteq> 0 \<and> deposit_amount (no_order inp) \<noteq> 0
     \<and> yes_fill_amount inp \<le> yr \<and> no_fill_amount inp \<le> nr
     \<and> fee_bps inp \<le> MAX_SOURCE_FEE_BPS \<and> creator_fee_bps inp \<le> BPS_DENOMINATOR"
  unfolding collect_basic_match_violations_def Let_def push_violation_empty by (simp only: not_le not_less de_Morgan_disj) blast

lemma min_shares_Ok:
  "proportional_min_shares_not_met m d s f c = Ok b \<Longrightarrow> b \<longleftrightarrow> unat m * unat d < unat s * unat f"
  by (auto simp: proportional_min_shares_not_met_def outcome_simps word_less_nat_alt)

lemma collect_min_share_empty:
  assumes "collect_min_share_violations inp ym nm vs = Ok vs'"
  shows "vs' = [] \<longleftrightarrow> vs = []
     \<and> unat (min_shares (yes_order inp)) * unat (yes_fill_amount inp) \<le> unat ym * unat (deposit_amount (yes_order inp))
     \<and> unat (min_shares (no_order inp)) * unat (no_fill_amount inp) \<le> unat nm * unat (deposit_amount (no_order inp))"
  using assms unfolding collect_min_share_violations_def
  by (auto simp: outcome_simps Let_def push_violation_empty dest!: min_shares_Ok)

text \<open>
  C15. When the evaluation returns, the match is executable exactly when the market is open, the
  sides and deadlines are right, both fills are positive and within what is left of the deposits,
  the fees are in range and each side's shares meet its minimum in proportion to its fill.
\<close>

theorem match_executable_iff:
  assumes "evaluate_prediction_fx_match X inp = Ok pv"
  shows "pv_executable pv \<longleftrightarrow>
     \<not> market_resolved inp \<and> now inp < market_expiry inp \<and> is_yes (yes_order inp) \<and> \<not> is_yes (no_order inp)
     \<and> now inp \<le> deadline (yes_order inp) \<and> now inp \<le> deadline (no_order inp)
     \<and> yes_fill_amount inp \<noteq> 0 \<and> no_fill_amount inp \<noteq> 0
     \<and> unat (yes_already_filled inp) + unat (yes_fill_amount inp) \<le> unat (deposit_amount (yes_order inp))
     \<and> unat (no_already_filled inp) + unat (no_fill_amount inp) \<le> unat (deposit_amount (no_order inp))
     \<and> fee_bps inp \<le> MAX_SOURCE_FEE_BPS \<and> creator_fee_bps inp \<le> BPS_DENOMINATOR
     \<and> unat (min_shares (yes_order inp)) * unat (yes_fill_amount inp)
         \<le> unat (pv_yes_shares_minted pv) * unat (deposit_amount (yes_order inp))
     \<and> unat (min_shares (no_order inp)) * unat (no_fill_amount inp)
         \<le> unat (pv_no_shares_minted pv) * unat (deposit_amount (no_order inp))"
proof -
  let ?yr = "remaining_capacity (deposit_amount (yes_order inp)) (yes_already_filled inp)"
  let ?nr = "remaining_capacity (deposit_amount (no_order inp)) (no_already_filled inp)"
  obtain vs where vs: "collect_min_share_violations inp (pv_yes_shares_minted pv) (pv_no_shares_minted pv)
      (collect_basic_match_violations inp ?yr ?nr []) = Ok vs" and e: "pv_executable pv \<longleftrightarrow> vs = []"
    using assms by (auto simp: evaluate_prediction_fx_match_def Let_def obind_eq_Ok)
  have pos: "deposit_amount (yes_order inp) \<noteq> 0" if "unat (yes_already_filled inp) + unat (yes_fill_amount inp)
      \<le> unat (deposit_amount (yes_order inp))" "yes_fill_amount inp \<noteq> 0"
    using that by (auto simp: unat_gt_0 [symmetric])
  have pos': "deposit_amount (no_order inp) \<noteq> 0" if "unat (no_already_filled inp) + unat (no_fill_amount inp)
      \<le> unat (deposit_amount (no_order inp))" "no_fill_amount inp \<noteq> 0"
    using that by (auto simp: unat_gt_0 [symmetric])
  show ?thesis
    unfolding e collect_min_share_empty [OF vs] collect_basic_empty
    using remaining_capacity_iff pos pos' by blast
qed


definition toy_externals :: "unit externals" where
  \<comment> \<open>a concrete instance of the parameters, for the witnesses\<close>
  "toy_externals = \<lparr>j_parse = (\<lambda>_. Ok ()), j_get = (\<lambda>_ _. None), j_as_str = (\<lambda>_. None), j_as_u64 = (\<lambda>_. None),
     j_as_bool = (\<lambda>_. None), j_as_array = (\<lambda>_. None), x_address = (\<lambda>_. Ok 0), x_hex = (\<lambda>_. Ok []),
     x_u256 = (\<lambda>_ _. Ok 0), x_keccak = (\<lambda>bs. word_of_nat (length bs)), x_fmt_hash = (\<lambda>_. ''0x''),
     x_fmt_address = (\<lambda>_. ''0x'')\<rparr>"

definition toy_match :: PredictionFxMatchInput where
  "toy_match = \<lparr>yes_order = \<lparr>maker = 1, is_yes = True, deposit_amount = 1000, min_shares = 900, nonce = 1, deadline = 50\<rparr>,
     no_order = \<lparr>maker = 2, is_yes = False, deposit_amount = 2000, min_shares = 1500, nonce = 4, deadline = 60\<rparr>,
     yes_fill_amount = 400, no_fill_amount = 400, yes_already_filled = 600, no_already_filled = 0, now = 50,
     market_expiry = 51, market_resolved = False, fee_bps = 100, creator_fee_bps = 5000\<rparr>"

lemma toy_evaluates: "\<exists>pv. evaluate_prediction_fx_match toy_externals toy_match = Ok pv \<and> pv_executable pv"
  by (simp add: evaluate_prediction_fx_match_def toy_match_def Let_def split_prediction_fx_fees_def mul_div_floor_def
      so_checked_mul_eq so_checked_sub_eq BPS_DENOMINATOR_def MAX_SOURCE_FEE_BPS_def u_div_def power_numeral
      collect_min_share_violations_def collect_basic_match_violations_def push_violation_def
      proportional_min_shares_not_met_def remaining_capacity_def)

theorem match_executable_iff_witness:
  "\<exists>pv. evaluate_prediction_fx_match toy_externals toy_match = Ok pv
     \<and> unat (yes_already_filled toy_match) + unat (yes_fill_amount toy_match) \<le> unat (deposit_amount (yes_order toy_match))
     \<and> unat (min_shares (yes_order toy_match)) * unat (yes_fill_amount toy_match)
         \<le> unat (pv_yes_shares_minted pv) * unat (deposit_amount (yes_order toy_match))"
  using toy_evaluates match_executable_iff by blast

lemma violation_wire_short: "length (violation_as_wire c) < 2 ^ 64"
  by (cases c) (simp_all add: power_numeral)

lemma violation_wire_inj: "violation_as_wire c = violation_as_wire d \<longleftrightarrow> c = d"
  by (cases c; cases d) simp_all

lemma push_order_cancel: "push_order X a @ r = push_order X b @ s \<longleftrightarrow> a = b \<and> r = s"
  unfolding push_order_def by (cases a; cases b) (auto simp: codec_iff)

text \<open>
  C16. The bytes behind the admission hash determine the whole input, the verdict and the list of
  violation codes: no two different decisions share a preimage.
\<close>

theorem admission_preimage_injective:
  assumes "admission_preimage X i e vs = admission_preimage X i' e' vs'" "length vs < 2 ^ 64" "length vs' < 2 ^ 64"
  shows "i = i' \<and> e = e' \<and> map vi_code vs = map vi_code vs'"
proof -
  let ?tail = "\<lambda>e vs. bool_byte e @ to_be_bytes (word_of_nat (length vs) :: u64)
     @ concat (map (\<lambda>v. push_str (violation_as_wire (vi_code v))) vs)"
  have "i = i' \<and> ?tail e vs = ?tail e' vs'"
    using assms(1) unfolding admission_preimage_def
    by (cases i; cases i') (simp add: codec_iff push_order_cancel power_numeral)
  then have i: "i = i'" "e = e'" and n: "(word_of_nat (length vs) :: u64) = word_of_nat (length vs')"
    and c: "concat (map (\<lambda>v. push_str (violation_as_wire (vi_code v))) vs)
      = concat (map (\<lambda>v. push_str (violation_as_wire (vi_code v))) vs')"
    by (simp_all add: codec_iff)
  have u: "unat (word_of_nat (length vs) :: u64) = length vs" "unat (word_of_nat (length vs') :: u64) = length vs'"
    using assms(2,3) by (simp_all add: unat_word_of_nat)
  have len: "length vs = length vs'" by (rule trans [OF u(1) [symmetric] trans [OF arg_cong [OF n, of unat] u(2)]])
  have "map (violation_as_wire \<circ> vi_code) vs = map (violation_as_wire \<circ> vi_code) vs'"
    using str.sequence [of "map (violation_as_wire \<circ> vi_code) vs" "map (violation_as_wire \<circ> vi_code) vs'" "[]" "[]"]
      c len by (simp add: list_all_length violation_wire_short comp_def)
  then have "map vi_code vs = map vi_code vs'"
    unfolding map_map [symmetric] by (simp only: inj_map_eq_map [OF injI [OF violation_wire_inj [THEN iffD1]]])
  with i show ?thesis by simp
qed


theorem admission_preimage_injective_witness:
  "admission_preimage toy_externals toy_match True [] \<noteq> admission_preimage toy_externals (toy_match\<lparr>now := 49\<rparr>) True []"
proof
  assume "admission_preimage toy_externals toy_match True [] = admission_preimage toy_externals (toy_match\<lparr>now := 49\<rparr>) True []"
  from admission_preimage_injective [OF this] show False by (simp add: toy_match_def power_numeral)
qed

end
