(* ===== verification/Execution_Engine.thy ===== *)
theory Execution_Engine
  imports Json_Input
begin

text \<open>
  \<open>execution_engine.rs\<close>: the deterministic composition of an execution job. A plan passes the policy
  checks, the source, gate and simulation artifacts are checked, the broadcast envelope is derived
  and the job is addressed by a hash of everything. The theory gives the exact acceptance
  condition, the priority of the errors, the envelope, the round trip of lane and strategy names
  through the parser, and what the hashed bytes determine - and what they do not.
\<close>

section \<open>Data\<close>

datatype BroadcastLane = PublicRpc | PrivateRelay | Kairos | Timeboost

datatype StrategyKind =
    NativeArb | InternalMatch | FourLeg | UniswapXFlashFill | AcrossIntentFill | MorphoLiquidation
  | OracleUpdateSandwich | OneInchFusionGap | Custom string

datatype EngineError =
    InvalidJson string string
  | MissingField string string
  | InvalidField string string string
  | ChainMismatch u64 u64
  | TargetNotAllowed u160
  | LaneNotAllowed BroadcastLane
  | DeadlineTooSoon u64 u64
  | GasLimitExceeded u64 u64
  | PreflightRequired
  | MissingLiveSources
  | GateCountTooLow nat nat
  | GateRejected string string
  | SimulationRejected string
  | ProfitBelowFloor u256 u256

type_synonym 'a engine_result = "('a, EngineError) outcome"

record SourceArtifact =
  src_name :: string
  src_block_number :: u64
  src_observed_at_ns :: u64

record GateArtifact =
  gate_name :: string
  gate_admitted :: bool
  gate_reason :: "string option"

record SimulationArtifact =
  sim_success :: bool
  sim_expected_profit_wei :: u256
  sim_gas_used :: u64
  sim_state_read_count :: u64
  sim_revert_reason :: "string option"

record EnginePolicy =
  po_expected_chain_id :: u64
  po_min_profit_wei :: u256
  po_max_gas_limit :: u64
  po_require_preflight :: bool
  po_require_live_sources :: bool
  po_min_gate_count :: nat
  po_min_deadline_ms_from_now :: u64
  po_allowed_targets :: "u160 list"
  po_allowed_lanes :: "BroadcastLane list"

record ExecutionPlan =
  pl_trace_id :: string
  pl_strategy :: StrategyKind
  pl_chain_id :: u64
  pl_target :: u160
  pl_calldata :: "u8 list"
  pl_value :: u256
  pl_gas_limit :: u64
  pl_max_fee_per_gas :: u256
  pl_max_priority_fee_per_gas :: u256
  pl_deadline_ms :: u64
  pl_profit_token :: u160
  pl_min_profit_wei :: u256
  pl_require_preflight :: bool
  pl_dry_run :: bool
  pl_broadcast_lane :: BroadcastLane

record BroadcastEnvelope =
  env_lane :: BroadcastLane
  env_submit :: bool
  env_private_submission :: bool
  env_require_preflight :: bool

record ComposedEngineJob =
  job_plan_hash :: u256
  job_plan :: ExecutionPlan
  job_sources :: "SourceArtifact list"
  job_gates :: "GateArtifact list"
  job_simulation :: SimulationArtifact
  job_broadcast :: BroadcastEnvelope

section \<open>Names on the wire\<close>

definition ascii_lower :: "char \<Rightarrow> char" where
  "ascii_lower c =
     (if 65 \<le> (of_char c :: nat) \<and> (of_char c :: nat) \<le> 90 then char_of ((of_char c :: nat) + 32) else c)"

definition normalize_key :: "string \<Rightarrow> string" where
  "normalize_key v =
     map ascii_lower (filter (\<lambda>ch. ch \<noteq> CHR ''_'' \<and> ch \<noteq> CHR ''-'' \<and> ch \<noteq> CHR '' '') v)"

definition strategy_parse :: "string \<Rightarrow> StrategyKind" where
  "strategy_parse v =
     (let k = normalize_key v
      in
      if k = ''nativearb'' \<or> k = ''native_arbitrage'' then NativeArb
      else if k = ''internalmatch'' then InternalMatch
      else if k = ''fourleg'' \<or> k = ''fourlegcomposition'' then FourLeg
      else if k = ''uniswapx'' \<or> k = ''uniswapxflashfill'' then UniswapXFlashFill
      else if k = ''across'' \<or> k = ''acrossintentfill'' then AcrossIntentFill
      else if k = ''morpho'' \<or> k = ''morpholiquidation'' then MorphoLiquidation
      else if k = ''oracleupdatesandwich'' \<or> k = ''sandwich'' then OracleUpdateSandwich
      else if k = ''oneinchfusiongap'' \<or> k = ''fusiongap'' then OneInchFusionGap
      else Custom v)"

fun strategy_as_wire :: "StrategyKind \<Rightarrow> string" where
  "strategy_as_wire NativeArb = ''native_arb''"
| "strategy_as_wire InternalMatch = ''internal_match''"
| "strategy_as_wire FourLeg = ''four_leg''"
| "strategy_as_wire UniswapXFlashFill = ''uniswapx_flash_fill''"
| "strategy_as_wire AcrossIntentFill = ''across_intent_fill''"
| "strategy_as_wire MorphoLiquidation = ''morpho_liquidation''"
| "strategy_as_wire OracleUpdateSandwich = ''oracle_update_sandwich''"
| "strategy_as_wire OneInchFusionGap = ''oneinch_fusion_gap''"
| "strategy_as_wire (Custom v) = v"

definition lane_parse :: "string \<Rightarrow> BroadcastLane engine_result" where
  "lane_parse v =
     (let k = normalize_key v
      in
      if k = ''public'' \<or> k = ''publicrpc'' \<or> k = ''rpc'' then Ok PublicRpc
      else if k = ''private'' \<or> k = ''privaterelay'' then Ok PrivateRelay
      else if k = ''kairos'' then Ok Kairos
      else if k = ''timeboost'' then Ok Timeboost
      else Err (InvalidField ''plan'' ''broadcast_lane'' (''unknown lane '' @ [CHR 0x27] @ v @ [CHR 0x27])))"

fun lane_as_wire :: "BroadcastLane \<Rightarrow> string" where
  "lane_as_wire PublicRpc = ''public_rpc''"
| "lane_as_wire PrivateRelay = ''private_relay''"
| "lane_as_wire Kairos = ''kairos''"
| "lane_as_wire Timeboost = ''timeboost''"

section \<open>Validation\<close>

definition saturating_add_u64 :: "u64 \<Rightarrow> u64 \<Rightarrow> u64" where
  "saturating_add_u64 a b = (if unat a + unat b < 2 ^ 64 then a + b else u_max)"

definition is_space :: "char \<Rightarrow> bool" where
  "is_space c \<longleftrightarrow> c = CHR '' '' \<or> (9 \<le> (of_char c :: nat) \<and> (of_char c :: nat) \<le> 13)"

definition blank :: "string \<Rightarrow> bool" where
  \<comment> \<open>\<open>s.trim().is_empty()\<close>\<close>
  "blank s = list_all is_space s"

definition validate_plan_core :: "ExecutionPlan \<Rightarrow> EnginePolicy \<Rightarrow> u64 \<Rightarrow> unit engine_result" where
  "validate_plan_core plan policy now_ms =
     (if pl_chain_id plan \<noteq> po_expected_chain_id policy
      then Err (ChainMismatch (pl_chain_id plan) (po_expected_chain_id policy))
      else if pl_target plan = 0 then Err (InvalidField ''plan'' ''target'' ''zero address target'')
      else if po_allowed_targets policy \<noteq> [] \<and> pl_target plan \<notin> set (po_allowed_targets policy)
      then Err (TargetNotAllowed (pl_target plan))
      else if po_allowed_lanes policy \<noteq> [] \<and> pl_broadcast_lane plan \<notin> set (po_allowed_lanes policy)
      then Err (LaneNotAllowed (pl_broadcast_lane plan))
      else if length (pl_calldata plan) < 4
      then Err (InvalidField ''plan'' ''calldata'' ''calldata must include a 4-byte selector'')
      else if pl_gas_limit plan = 0 then Err (InvalidField ''plan'' ''gas_limit'' ''gas_limit must be positive'')
      else if po_max_gas_limit policy < pl_gas_limit plan
      then Err (GasLimitExceeded (pl_gas_limit plan) (po_max_gas_limit policy))
      else
        let required_minimum_ms = saturating_add_u64 now_ms (po_min_deadline_ms_from_now policy)
        in if pl_deadline_ms plan < required_minimum_ms
           then Err (DeadlineTooSoon (pl_deadline_ms plan) required_minimum_ms)
           else if po_require_preflight policy \<and> \<not> pl_require_preflight plan then Err PreflightRequired
           else Ok ())"

fun check_sources :: "SourceArtifact list \<Rightarrow> unit engine_result" where
  "check_sources [] = Ok ()"
| "check_sources (s # ss) =
     (if blank (src_name s) then Err (InvalidField ''source'' ''name'' ''source name cannot be empty'')
      else if src_observed_at_ns s = 0
      then Err (InvalidField ''source'' ''observed_at_ns'' ''source observation timestamp cannot be zero'')
      else check_sources ss)"

definition validate_sources :: "EnginePolicy \<Rightarrow> SourceArtifact list \<Rightarrow> unit engine_result" where
  "validate_sources policy sources =
     (if po_require_live_sources policy \<and> sources = [] then Err MissingLiveSources else check_sources sources)"

fun check_gates :: "GateArtifact list \<Rightarrow> unit engine_result" where
  "check_gates [] = Ok ()"
| "check_gates (g # gs) =
     (if blank (gate_name g) then Err (InvalidField ''gate'' ''name'' ''gate name cannot be empty'')
      else if \<not> gate_admitted g
      then Err (GateRejected (gate_name g) (case gate_reason g of None \<Rightarrow> ''no reason supplied'' | Some r \<Rightarrow> r))
      else check_gates gs)"

definition validate_gates :: "EnginePolicy \<Rightarrow> GateArtifact list \<Rightarrow> unit engine_result" where
  "validate_gates policy gates =
     (if length gates < po_min_gate_count policy then Err (GateCountTooLow (length gates) (po_min_gate_count policy))
      else check_gates gates)"

definition required_profit_floor :: "ExecutionPlan \<Rightarrow> EnginePolicy \<Rightarrow> u256" where
  "required_profit_floor plan policy =
     (if po_min_profit_wei policy < pl_min_profit_wei plan then pl_min_profit_wei plan else po_min_profit_wei policy)"

definition validate_simulation :: "ExecutionPlan \<Rightarrow> EnginePolicy \<Rightarrow> SimulationArtifact \<Rightarrow> unit engine_result" where
  "validate_simulation plan policy simulation =
     (if \<not> sim_success simulation
      then Err (SimulationRejected (case sim_revert_reason simulation of
             None \<Rightarrow> ''simulation success=false'' | Some r \<Rightarrow> r))
      else
        let flr = required_profit_floor plan policy
        in if sim_expected_profit_wei simulation < flr
           then Err (ProfitBelowFloor (sim_expected_profit_wei simulation) flr) else Ok ())"

definition validate_plan ::
    "ExecutionPlan \<Rightarrow> EnginePolicy \<Rightarrow> SourceArtifact list \<Rightarrow> GateArtifact list \<Rightarrow> SimulationArtifact \<Rightarrow> u64 \<Rightarrow> unit engine_result" where
  "validate_plan plan policy sources gates simulation now_ms =
     obind (validate_plan_core plan policy now_ms) (\<lambda>_.
     obind (validate_sources policy sources) (\<lambda>_.
     obind (validate_gates policy gates) (\<lambda>_.
     obind (validate_simulation plan policy simulation) (\<lambda>_. Ok ()))))"

section \<open>The plan hash\<close>

definition plan_bytes :: "ExecutionPlan \<Rightarrow> u8 list" where
  "plan_bytes plan =
     push_str (pl_trace_id plan) @ push_str (strategy_as_wire (pl_strategy plan))
     @ to_be_bytes (pl_chain_id plan) @ to_be_bytes (pl_target plan) @ push_bytes (pl_calldata plan)
     @ push_u256 (pl_value plan) @ to_be_bytes (pl_gas_limit plan) @ push_u256 (pl_max_fee_per_gas plan)
     @ push_u256 (pl_max_priority_fee_per_gas plan) @ to_be_bytes (pl_deadline_ms plan)
     @ to_be_bytes (pl_profit_token plan) @ push_u256 (pl_min_profit_wei plan)
     @ bool_byte (pl_require_preflight plan) @ bool_byte (pl_dry_run plan)
     @ push_str (lane_as_wire (pl_broadcast_lane plan))"

definition policy_bytes :: "EnginePolicy \<Rightarrow> u8 list" where
  "policy_bytes policy =
     to_be_bytes (po_expected_chain_id policy) @ push_u256 (po_min_profit_wei policy)
     @ to_be_bytes (po_max_gas_limit policy) @ bool_byte (po_require_preflight policy)
     @ bool_byte (po_require_live_sources policy) @ to_be_bytes (word_of_nat (po_min_gate_count policy) :: u64)
     @ to_be_bytes (po_min_deadline_ms_from_now policy)
     @ concat (map to_be_bytes (po_allowed_targets policy))
     @ concat (map (\<lambda>l. push_str (lane_as_wire l)) (po_allowed_lanes policy))"

definition source_bytes :: "SourceArtifact \<Rightarrow> u8 list" where
  "source_bytes s = push_str (src_name s) @ to_be_bytes (src_block_number s) @ to_be_bytes (src_observed_at_ns s)"

definition gate_bytes :: "GateArtifact \<Rightarrow> u8 list" where
  "gate_bytes g = push_str (gate_name g) @ bool_byte (gate_admitted g)
     @ push_str (case gate_reason g of None \<Rightarrow> '''' | Some r \<Rightarrow> r)"

definition simulation_bytes :: "SimulationArtifact \<Rightarrow> u8 list" where
  "simulation_bytes s =
     bool_byte (sim_success s) @ push_u256 (sim_expected_profit_wei s) @ to_be_bytes (sim_gas_used s)
     @ to_be_bytes (sim_state_read_count s)
     @ push_str (case sim_revert_reason s of None \<Rightarrow> '''' | Some r \<Rightarrow> r)"

definition envelope_bytes :: "BroadcastEnvelope \<Rightarrow> u8 list" where
  "envelope_bytes b = push_str (lane_as_wire (env_lane b)) @ bool_byte (env_submit b)
     @ bool_byte (env_private_submission b) @ bool_byte (env_require_preflight b)"

definition plan_preimage ::
    "ExecutionPlan \<Rightarrow> EnginePolicy \<Rightarrow> SourceArtifact list \<Rightarrow> GateArtifact list \<Rightarrow> SimulationArtifact \<Rightarrow> BroadcastEnvelope \<Rightarrow> u8 list" where
  "plan_preimage plan policy sources gates simulation broadcast =
     push_str ''degenbot-engine-v1'' @ plan_bytes plan @ policy_bytes policy
     @ concat (map source_bytes sources) @ concat (map gate_bytes gates)
     @ simulation_bytes simulation @ envelope_bytes broadcast"

definition compute_plan_hash ::
    "'v externals \<Rightarrow> ExecutionPlan \<Rightarrow> EnginePolicy \<Rightarrow> SourceArtifact list \<Rightarrow> GateArtifact list \<Rightarrow> SimulationArtifact \<Rightarrow> BroadcastEnvelope \<Rightarrow> u256" where
  "compute_plan_hash X plan policy sources gates simulation broadcast =
     x_keccak X (plan_preimage plan policy sources gates simulation broadcast)"

section \<open>Composition\<close>

definition broadcast_envelope :: "ExecutionPlan \<Rightarrow> EnginePolicy \<Rightarrow> BroadcastEnvelope" where
  "broadcast_envelope plan policy =
     \<lparr>env_lane = pl_broadcast_lane plan, env_submit = (\<not> pl_dry_run plan),
      env_private_submission = (pl_broadcast_lane plan \<in> {PrivateRelay, Kairos, Timeboost}),
      env_require_preflight = (pl_require_preflight plan \<or> po_require_preflight policy \<or> pl_dry_run plan)\<rparr>"

definition compose_engine_job ::
    "'v externals \<Rightarrow> ExecutionPlan \<Rightarrow> EnginePolicy \<Rightarrow> SourceArtifact list \<Rightarrow> GateArtifact list \<Rightarrow> SimulationArtifact \<Rightarrow> u64 \<Rightarrow> ComposedEngineJob engine_result" where
  "compose_engine_job X plan policy sources gates simulation now_ms =
     obind (validate_plan plan policy sources gates simulation now_ms) (\<lambda>_.
     let broadcast = broadcast_envelope plan policy;
         plan_hash = compute_plan_hash X plan policy sources gates simulation broadcast
     in Ok \<lparr>job_plan_hash = plan_hash, job_plan = plan, job_sources = sources, job_gates = gates,
          job_simulation = simulation, job_broadcast = broadcast\<rparr>)"


section \<open>JSON front end\<close>

definition engine_errors :: "EngineError field_errors" where
  "engine_errors = \<lparr>missing_field = MissingField, invalid_field = InvalidField\<rparr>"

definition parse_json :: "'v externals \<Rightarrow> string \<Rightarrow> string \<Rightarrow> 'v engine_result" where
  "parse_json X field v = map_err (\<lambda>m. InvalidJson field m) (j_parse X v)"

definition field :: "'v externals \<Rightarrow> 'v \<Rightarrow> string \<Rightarrow> string \<Rightarrow> 'v engine_result" where
  "field X = json_field X engine_errors"

definition required_str :: "'v externals \<Rightarrow> 'v \<Rightarrow> string \<Rightarrow> string \<Rightarrow> string engine_result" where
  "required_str X = json_str X engine_errors"

definition optional_str :: "'v externals \<Rightarrow> 'v \<Rightarrow> string \<Rightarrow> string option" where
  "optional_str X v key = Option.bind (j_get X v key) (j_as_str X)"

definition required_bool :: "'v externals \<Rightarrow> 'v \<Rightarrow> string \<Rightarrow> string \<Rightarrow> bool engine_result" where
  "required_bool X = json_bool X engine_errors"

definition required_u64 :: "'v externals \<Rightarrow> 'v \<Rightarrow> string \<Rightarrow> string \<Rightarrow> u64 engine_result" where
  "required_u64 X v object key =
     obind (field X v object key) (\<lambda>raw.
     case j_as_u64 X raw of
       Some n \<Rightarrow> Ok n
     | None \<Rightarrow>
         obind (ok_or (j_as_str X raw) (InvalidField object key ''expected u64 or decimal string'')) (\<lambda>text.
         obind (map_err (\<lambda>m. InvalidField object key m) (parse_uint (2 ^ 64) text)) (\<lambda>n. Ok (word_of_nat n))))"

definition required_usize :: "'v externals \<Rightarrow> 'v \<Rightarrow> string \<Rightarrow> string \<Rightarrow> nat engine_result" where
  \<comment> \<open>\<open>usize\<close> has 64 bits: the conversion never fails\<close>
  "required_usize X v object key = obind (required_u64 X v object key) (\<lambda>raw. Ok (unat raw))"

definition optional_u256 :: "'v externals \<Rightarrow> 'v \<Rightarrow> string \<Rightarrow> string \<Rightarrow> u256 option engine_result" where
  "optional_u256 X = json_opt_u256 X engine_errors"

definition required_u256 :: "'v externals \<Rightarrow> 'v \<Rightarrow> string \<Rightarrow> string \<Rightarrow> u256 engine_result" where
  "required_u256 X = json_u256 X engine_errors"

definition parse_address :: "'v externals \<Rightarrow> string \<Rightarrow> string \<Rightarrow> string \<Rightarrow> u160 engine_result" where
  "parse_address X text object key = map_err (\<lambda>m. InvalidField object key m) (x_address X text)"

definition required_address :: "'v externals \<Rightarrow> 'v \<Rightarrow> string \<Rightarrow> string \<Rightarrow> u160 engine_result" where
  "required_address X = json_address X engine_errors"

definition required_bytes :: "'v externals \<Rightarrow> 'v \<Rightarrow> string \<Rightarrow> string \<Rightarrow> u8 list engine_result" where
  "required_bytes X v object key =
     obind (required_str X v object key) (\<lambda>text.
       let stripped = (case strip_0x text of None \<Rightarrow> text | Some t \<Rightarrow> t)
       in map_err (\<lambda>m. InvalidField object key m) (x_hex X stripped))"

fun collect_ok :: "('a \<Rightarrow> ('b, 'e) outcome) \<Rightarrow> 'a list \<Rightarrow> ('b list, 'e) outcome" where
  \<comment> \<open>\<open>iter().map(f).collect::<Result<Vec<_>, _>>()\<close>: the first error wins\<close>
  "collect_ok f [] = Ok []"
| "collect_ok f (x # xs) = obind (f x) (\<lambda>y. obind (collect_ok f xs) (\<lambda>ys. Ok (y # ys)))"

definition optional_array ::
    "'v externals \<Rightarrow> string \<Rightarrow> (string \<Rightarrow> 'b engine_result) \<Rightarrow> 'v \<Rightarrow> string \<Rightarrow> string \<Rightarrow> 'b list engine_result" where
  "optional_array X expected f v object key =
     (case j_get X v key of
        None \<Rightarrow> Ok []
      | Some raw \<Rightarrow>
          obind (ok_or (j_as_array X raw) (InvalidField object key ''expected array'')) (\<lambda>entries.
            collect_ok (\<lambda>entry. obind (ok_or (j_as_str X entry) (InvalidField object key expected)) f) entries))"

definition optional_address_array :: "'v externals \<Rightarrow> 'v \<Rightarrow> string \<Rightarrow> string \<Rightarrow> u160 list engine_result" where
  "optional_address_array X v object key =
     optional_array X ''expected address string'' (\<lambda>text. parse_address X text object key) v object key"

definition optional_lane_array :: "'v externals \<Rightarrow> 'v \<Rightarrow> string \<Rightarrow> string \<Rightarrow> BroadcastLane list engine_result" where
  "optional_lane_array X v object key = optional_array X ''expected lane string'' lane_parse v object key"

definition parse_plan :: "'v externals \<Rightarrow> 'v \<Rightarrow> ExecutionPlan engine_result" where
  "parse_plan X v =
     obind (required_str X v ''plan'' ''trace_id'') (\<lambda>trace_id.
     obind (required_str X v ''plan'' ''strategy'') (\<lambda>strategy.
     obind (required_u64 X v ''plan'' ''chain_id'') (\<lambda>chain_id.
     obind (required_address X v ''plan'' ''target'') (\<lambda>target.
     obind (required_bytes X v ''plan'' ''calldata'') (\<lambda>calldata.
     obind (optional_u256 X v ''plan'' ''value'') (\<lambda>val.
     obind (required_u64 X v ''plan'' ''gas_limit'') (\<lambda>gas_limit.
     obind (required_u256 X v ''plan'' ''max_fee_per_gas'') (\<lambda>max_fee.
     obind (required_u256 X v ''plan'' ''max_priority_fee_per_gas'') (\<lambda>max_priority_fee.
     obind (required_u64 X v ''plan'' ''deadline_ms'') (\<lambda>deadline_ms.
     obind (required_address X v ''plan'' ''profit_token'') (\<lambda>profit_token.
     obind (required_u256 X v ''plan'' ''min_profit_wei'') (\<lambda>min_profit.
     obind (required_bool X v ''plan'' ''require_preflight'') (\<lambda>preflight.
     obind (required_bool X v ''plan'' ''dry_run'') (\<lambda>dry_run.
     obind (required_str X v ''plan'' ''broadcast_lane'') (\<lambda>lane_text.
     obind (lane_parse lane_text) (\<lambda>lane.
       Ok \<lparr>pl_trace_id = trace_id, pl_strategy = strategy_parse strategy, pl_chain_id = chain_id,
         pl_target = target, pl_calldata = calldata, pl_value = (case val of None \<Rightarrow> 0 | Some x \<Rightarrow> x),
         pl_gas_limit = gas_limit, pl_max_fee_per_gas = max_fee, pl_max_priority_fee_per_gas = max_priority_fee,
         pl_deadline_ms = deadline_ms, pl_profit_token = profit_token, pl_min_profit_wei = min_profit,
         pl_require_preflight = preflight, pl_dry_run = dry_run, pl_broadcast_lane = lane\<rparr>))))))))))))))))"

definition parse_policy :: "'v externals \<Rightarrow> 'v \<Rightarrow> EnginePolicy engine_result" where
  "parse_policy X v =
     obind (required_usize X v ''policy'' ''min_gate_count'') (\<lambda>min_gate_count.
     obind (required_u64 X v ''policy'' ''expected_chain_id'') (\<lambda>chain.
     obind (required_u256 X v ''policy'' ''min_profit_wei'') (\<lambda>min_profit.
     obind (required_u64 X v ''policy'' ''max_gas_limit'') (\<lambda>max_gas.
     obind (required_bool X v ''policy'' ''require_preflight'') (\<lambda>preflight.
     obind (required_bool X v ''policy'' ''require_live_sources'') (\<lambda>live.
     obind (required_u64 X v ''policy'' ''min_deadline_ms_from_now'') (\<lambda>min_deadline.
     obind (optional_address_array X v ''policy'' ''allowed_targets'') (\<lambda>targets.
     obind (optional_lane_array X v ''policy'' ''allowed_lanes'') (\<lambda>lanes.
       Ok \<lparr>po_expected_chain_id = chain, po_min_profit_wei = min_profit, po_max_gas_limit = max_gas,
         po_require_preflight = preflight, po_require_live_sources = live, po_min_gate_count = min_gate_count,
         po_min_deadline_ms_from_now = min_deadline, po_allowed_targets = targets, po_allowed_lanes = lanes\<rparr>)))))))))"

definition parse_sources :: "'v externals \<Rightarrow> 'v \<Rightarrow> SourceArtifact list engine_result" where
  "parse_sources X v =
     obind (ok_or (j_as_array X v) (InvalidField ''sources'' ''root'' ''expected array'')) (\<lambda>entries.
       collect_ok (\<lambda>source.
         obind (required_str X source ''source'' ''name'') (\<lambda>name.
         obind (required_u64 X source ''source'' ''block_number'') (\<lambda>block_number.
         obind (required_u64 X source ''source'' ''observed_at_ns'') (\<lambda>observed_at_ns.
           Ok \<lparr>src_name = name, src_block_number = block_number, src_observed_at_ns = observed_at_ns\<rparr>)))) entries)"

definition parse_gates :: "'v externals \<Rightarrow> 'v \<Rightarrow> GateArtifact list engine_result" where
  "parse_gates X v =
     obind (ok_or (j_as_array X v) (InvalidField ''gates'' ''root'' ''expected array'')) (\<lambda>entries.
       collect_ok (\<lambda>gate.
         obind (required_str X gate ''gate'' ''name'') (\<lambda>name.
         obind (required_bool X gate ''gate'' ''admitted'') (\<lambda>admitted.
           Ok \<lparr>gate_name = name, gate_admitted = admitted, gate_reason = optional_str X gate ''reason''\<rparr>))) entries)"

definition parse_simulation :: "'v externals \<Rightarrow> 'v \<Rightarrow> SimulationArtifact engine_result" where
  "parse_simulation X v =
     obind (required_bool X v ''simulation'' ''success'') (\<lambda>success.
     obind (required_u256 X v ''simulation'' ''expected_profit_wei'') (\<lambda>profit.
     obind (required_u64 X v ''simulation'' ''gas_used'') (\<lambda>gas_used.
     obind (required_u64 X v ''simulation'' ''state_read_count'') (\<lambda>reads.
       Ok \<lparr>sim_success = success, sim_expected_profit_wei = profit, sim_gas_used = gas_used,
         sim_state_read_count = reads, sim_revert_reason = optional_str X v ''revert_reason''\<rparr>))))"

record EngineJobReport =
  rp_plan_hash :: string
  rp_trace_id :: string
  rp_strategy :: string
  rp_target :: string
  rp_chain_id :: u64
  rp_broadcast_lane :: string
  rp_submit :: bool
  rp_private_submission :: bool
  rp_require_preflight :: bool
  rp_dry_run :: bool
  rp_source_count :: nat
  rp_gate_count :: nat
  rp_expected_profit_wei :: string
  rp_required_profit_floor_wei :: string
  rp_gas_limit :: u64
  rp_simulated_gas_used :: u64
  rp_deadline_ms :: u64
  rp_calldata_len :: nat

definition to_report :: "'v externals \<Rightarrow> ComposedEngineJob \<Rightarrow> EnginePolicy \<Rightarrow> EngineJobReport" where
  "to_report X job policy =
     (let plan = job_plan job; broadcast = job_broadcast job; simulation = job_simulation job
      in \<lparr>rp_plan_hash = x_fmt_hash X (job_plan_hash job), rp_trace_id = pl_trace_id plan,
           rp_strategy = strategy_as_wire (pl_strategy plan), rp_target = x_fmt_address X (pl_target plan),
           rp_chain_id = pl_chain_id plan, rp_broadcast_lane = lane_as_wire (env_lane broadcast),
           rp_submit = env_submit broadcast, rp_private_submission = env_private_submission broadcast,
           rp_require_preflight = env_require_preflight broadcast, rp_dry_run = pl_dry_run plan,
           rp_source_count = length (job_sources job), rp_gate_count = length (job_gates job),
           rp_expected_profit_wei = decimal (unat (sim_expected_profit_wei simulation)),
           rp_required_profit_floor_wei = decimal (unat (required_profit_floor plan policy)),
           rp_gas_limit = pl_gas_limit plan, rp_simulated_gas_used = sim_gas_used simulation,
           rp_deadline_ms = pl_deadline_ms plan, rp_calldata_len = length (pl_calldata plan)\<rparr>)"

definition compose_engine_job_json ::
    "'v externals \<Rightarrow> (EngineJobReport \<Rightarrow> (string, string) outcome) \<Rightarrow> string \<Rightarrow> string \<Rightarrow> string \<Rightarrow> string \<Rightarrow> string \<Rightarrow> u64 \<Rightarrow> string engine_result" where
  \<comment> \<open>\<open>to_json\<close> is the third-party serialiser\<close>
  "compose_engine_job_json X to_json plan_json policy_json sources_json gates_json simulation_json now_ms =
     obind (parse_json X ''plan'' plan_json) (\<lambda>v. obind (parse_plan X v) (\<lambda>plan.
     obind (parse_json X ''policy'' policy_json) (\<lambda>v. obind (parse_policy X v) (\<lambda>policy.
     obind (parse_json X ''sources'' sources_json) (\<lambda>v. obind (parse_sources X v) (\<lambda>sources.
     obind (parse_json X ''gates'' gates_json) (\<lambda>v. obind (parse_gates X v) (\<lambda>gates.
     obind (parse_json X ''simulation'' simulation_json) (\<lambda>v. obind (parse_simulation X v) (\<lambda>simulation.
     obind (compose_engine_job X plan policy sources gates simulation now_ms) (\<lambda>job.
       map_err (\<lambda>m. InvalidJson ''report'' m) (to_json (to_report X job policy)))))))))))))"


section \<open>What the engine admits\<close>

definition admissible ::
    "ExecutionPlan \<Rightarrow> EnginePolicy \<Rightarrow> SourceArtifact list \<Rightarrow> GateArtifact list \<Rightarrow> SimulationArtifact \<Rightarrow> u64 \<Rightarrow> bool" where
  \<comment> \<open>the contract of the engine boundary, over natural numbers\<close>
  "admissible plan policy sources gates simulation now_ms \<longleftrightarrow>
     pl_chain_id plan = po_expected_chain_id policy
     \<and> pl_target plan \<noteq> 0 \<and> (po_allowed_targets policy = [] \<or> pl_target plan \<in> set (po_allowed_targets policy))
     \<and> (po_allowed_lanes policy = [] \<or> pl_broadcast_lane plan \<in> set (po_allowed_lanes policy))
     \<and> 4 \<le> length (pl_calldata plan)
     \<and> 0 < unat (pl_gas_limit plan) \<and> unat (pl_gas_limit plan) \<le> unat (po_max_gas_limit policy)
     \<and> min (unat now_ms + unat (po_min_deadline_ms_from_now policy)) (2 ^ 64 - 1) \<le> unat (pl_deadline_ms plan)
     \<and> (po_require_preflight policy \<longrightarrow> pl_require_preflight plan)
     \<and> (po_require_live_sources policy \<longrightarrow> sources \<noteq> [])
     \<and> list_all (\<lambda>s. \<not> blank (src_name s) \<and> src_observed_at_ns s \<noteq> 0) sources
     \<and> po_min_gate_count policy \<le> length gates
     \<and> list_all (\<lambda>g. \<not> blank (gate_name g) \<and> gate_admitted g) gates
     \<and> sim_success simulation
     \<and> max (unat (pl_min_profit_wei plan)) (unat (po_min_profit_wei policy)) \<le> unat (sim_expected_profit_wei simulation)"

lemma unat_saturating_add: "unat (saturating_add_u64 a b) = min (unat a + unat b) (2 ^ 64 - 1)"
  by (auto simp: saturating_add_u64_def unat_word_ariths(1) unat_u_max)

lemma check_sources_Ok: "check_sources ss = Ok u \<longleftrightarrow> list_all (\<lambda>s. \<not> blank (src_name s) \<and> src_observed_at_ns s \<noteq> 0) ss"
  by (induction ss rule: check_sources.induct) auto

lemma check_gates_Ok: "check_gates gs = Ok u \<longleftrightarrow> list_all (\<lambda>g. \<not> blank (gate_name g) \<and> gate_admitted g) gs"
  by (induction gs rule: check_gates.induct) auto

lemma validate_plan_core_Ok:
  "validate_plan_core plan policy now_ms = Ok u \<longleftrightarrow>
     pl_chain_id plan = po_expected_chain_id policy
     \<and> pl_target plan \<noteq> 0 \<and> (po_allowed_targets policy = [] \<or> pl_target plan \<in> set (po_allowed_targets policy))
     \<and> (po_allowed_lanes policy = [] \<or> pl_broadcast_lane plan \<in> set (po_allowed_lanes policy))
     \<and> 4 \<le> length (pl_calldata plan)
     \<and> 0 < unat (pl_gas_limit plan) \<and> unat (pl_gas_limit plan) \<le> unat (po_max_gas_limit policy)
     \<and> min (unat now_ms + unat (po_min_deadline_ms_from_now policy)) (2 ^ 64 - 1) \<le> unat (pl_deadline_ms plan)
     \<and> (po_require_preflight policy \<longrightarrow> pl_require_preflight plan)"
  unfolding validate_plan_core_def Let_def unat_saturating_add [symmetric]
  by (auto simp: word_le_nat_alt word_less_nat_alt unat_gt_0 simp del: of_nat_numeral split: if_splits)

lemma validate_simulation_Ok:
  "validate_simulation plan policy simulation = Ok u \<longleftrightarrow> sim_success simulation
     \<and> max (unat (pl_min_profit_wei plan)) (unat (po_min_profit_wei policy)) \<le> unat (sim_expected_profit_wei simulation)"
  by (auto simp: validate_simulation_def required_profit_floor_def Let_def word_le_nat_alt word_less_nat_alt)

lemma validate_plan_Ok: "validate_plan plan policy sources gates simulation now_ms = Ok u
    \<longleftrightarrow> admissible plan policy sources gates simulation now_ms"
  unfolding validate_plan_def obind_eq_Ok validate_plan_core_Ok validate_simulation_Ok validate_sources_def validate_gates_def
    admissible_def
  by (auto simp: check_sources_Ok check_gates_Ok split: if_splits)

text \<open>
  C5. The engine accepts exactly the admissible plans, and the job it builds carries the plan and the
  artifacts unchanged, with an envelope that submits unless the plan is a dry run, marks every lane but
  the public one as private and asks for preflight whenever the plan, the policy or a dry run does.
\<close>

theorem compose_accepts_iff:
  "compose_engine_job X plan policy sources gates simulation now_ms = Ok job \<longleftrightarrow>
     admissible plan policy sources gates simulation now_ms
     \<and> job = \<lparr>job_plan_hash = compute_plan_hash X plan policy sources gates simulation (job_broadcast job),
         job_plan = plan, job_sources = sources, job_gates = gates, job_simulation = simulation,
         job_broadcast = \<lparr>env_lane = pl_broadcast_lane plan, env_submit = (\<not> pl_dry_run plan),
           env_private_submission = (pl_broadcast_lane plan \<noteq> PublicRpc),
           env_require_preflight = (pl_require_preflight plan \<or> po_require_preflight policy \<or> pl_dry_run plan)\<rparr>\<rparr>"
proof -
  have "env_private_submission (broadcast_envelope plan policy) \<longleftrightarrow> pl_broadcast_lane plan \<noteq> PublicRpc"
    by (cases "pl_broadcast_lane plan") (simp_all add: broadcast_envelope_def)
  then show ?thesis
    unfolding compose_engine_job_def obind_eq_Ok validate_plan_Ok Let_def
    by (cases job) (auto simp: broadcast_envelope_def)
qed

lemma lane_wire_inj: "lane_as_wire a = lane_as_wire b \<longleftrightarrow> a = b"
  by (cases a; cases b) simp_all

lemma lane_wire_short: "length (lane_as_wire l) < 2 ^ 64"
  by (cases l) (simp_all add: power_numeral)

lemma lane_wire_parses: "lane_parse (lane_as_wire l) = Ok l"
  by (cases l) (simp_all add: lane_parse_def normalize_key_def ascii_lower_def Let_def)

lemma strategy_wire_parses: "k \<noteq> Custom v \<Longrightarrow> (\<nexists>w. k = Custom w) \<Longrightarrow> strategy_parse (strategy_as_wire k) = k"
  by (cases k) (simp_all add: strategy_parse_def normalize_key_def ascii_lower_def Let_def)

lemma strategy_parse_idem: "strategy_parse (strategy_as_wire (strategy_parse v)) = strategy_parse v"
proof (cases "\<exists>w. strategy_parse v = Custom w")
  case True
  then have "strategy_parse v = Custom v" by (auto simp: strategy_parse_def Let_def split: if_splits)
  then show ?thesis by simp
next
  case False
  then show ?thesis by (intro strategy_wire_parses) auto
qed

lemma normalized_no_underscore: "CHR ''_'' \<notin> set (normalize_key v)"
proof
  assume "CHR ''_'' \<in> set (normalize_key v)"
  then obtain c where c: "CHR ''_'' = ascii_lower c" "c \<noteq> CHR ''_''" by (auto simp: normalize_key_def)
  show False
  proof (cases "65 \<le> (of_char c :: nat) \<and> (of_char c :: nat) \<le> 90")
    case True
    then have "char_of ((of_char c :: nat) + 32) = CHR ''_''" using c by (simp add: ascii_lower_def)
    from arg_cong [OF this, of "of_char :: char \<Rightarrow> nat"] True show False by simp
  next
    case False
    then have "ascii_lower c = c" unfolding ascii_lower_def by (rule if_not_P)
    with c show False by simp
  qed
qed


lemma alias_never_matches: "normalize_key v \<noteq> ''native_arbitrage''"
  using normalized_no_underscore [of v] by auto

lemma alias_is_custom: "strategy_parse ''native_arbitrage'' = Custom ''native_arbitrage''"
  by (simp add: strategy_parse_def normalize_key_def ascii_lower_def Let_def)

text \<open>
  Names survive the wire: every lane is read back from its wire name, and a strategy read from
  any text is read back unchanged from the name it is reported under. The alias
  \<open>native_arbitrage\<close> of the native strategy can never match, because no text normalises to it, and
  the name itself is read as a custom strategy.
\<close>

theorem wire_names_roundtrip:
  "lane_parse (lane_as_wire l) = Ok l
   \<and> strategy_parse (strategy_as_wire (strategy_parse v)) = strategy_parse v
   \<and> normalize_key v \<noteq> ''native_arbitrage''
   \<and> strategy_parse ''native_arbitrage'' = Custom ''native_arbitrage''"
  by (simp add: lane_wire_parses strategy_parse_idem alias_never_matches alias_is_custom)

section \<open>What the hashed bytes determine\<close>

definition wire_sized :: "ExecutionPlan \<Rightarrow> bool" where
  \<comment> \<open>buffers fit the address space, and the strategy came out of the parser\<close>
  "wire_sized plan \<longleftrightarrow> length (pl_trace_id plan) < 2 ^ 64 \<and> length (strategy_as_wire (pl_strategy plan)) < 2 ^ 64
     \<and> length (pl_calldata plan) < 2 ^ 64 \<and> strategy_parse (strategy_as_wire (pl_strategy plan)) = pl_strategy plan"

lemma plan_bytes_cancel:
  assumes "wire_sized p" "wire_sized p'" "plan_bytes p @ r = plan_bytes p' @ r'"
  shows "p = p' \<and> r = r'"
proof -
  have sized: "length (pl_trace_id p) < 2 ^ 64" "length (pl_trace_id p') < 2 ^ 64"
    "length (strategy_as_wire (pl_strategy p)) < 2 ^ 64" "length (strategy_as_wire (pl_strategy p')) < 2 ^ 64"
    "length (pl_calldata p) < 2 ^ 64" "length (pl_calldata p') < 2 ^ 64"
    using assms(1,2) by (auto simp only: wire_sized_def)
  note eq = assms(3) [unfolded plan_bytes_def append_assoc str.cancel_iff [OF sized(1,2)] str.cancel_iff [OF sized(3,4)]
      be64.cancel_iff [OF TrueI TrueI] be160.cancel_iff [OF TrueI TrueI] lp.cancel_iff [OF sized(5,6)]
      num.cancel_iff [OF TrueI TrueI] flag.cancel_iff [OF TrueI TrueI]
      str.cancel_iff [OF lane_wire_short lane_wire_short] lane_wire_inj]
  have "pl_strategy p = strategy_parse (strategy_as_wire (pl_strategy p))"
    "pl_strategy p' = strategy_parse (strategy_as_wire (pl_strategy p'))"
    using assms(1,2) by (simp_all only: wire_sized_def)
  with eq have "pl_strategy p = pl_strategy p'" by metis
  with eq show ?thesis by (intro conjI ExecutionPlan.equality) auto
qed

text \<open>
  The bytes behind the plan hash determine the plan: whatever the policy and the artifacts are, two
  jobs with the same preimage execute the same plan under the same scalar limits.
\<close>

theorem plan_preimage_binds_plan:
  assumes "plan_preimage p po ss gs si b = plan_preimage p' po' ss' gs' si' b'" "wire_sized p" "wire_sized p'"
  shows "p = p' \<and> po_expected_chain_id po = po_expected_chain_id po' \<and> po_min_profit_wei po = po_min_profit_wei po'
    \<and> po_max_gas_limit po = po_max_gas_limit po' \<and> po_require_preflight po = po_require_preflight po'
    \<and> po_min_deadline_ms_from_now po = po_min_deadline_ms_from_now po'"
proof -
  from assms(1) have "plan_bytes p @ policy_bytes po @ concat (map source_bytes ss) @ concat (map gate_bytes gs)
      @ simulation_bytes si @ envelope_bytes b
    = plan_bytes p' @ policy_bytes po' @ concat (map source_bytes ss') @ concat (map gate_bytes gs')
      @ simulation_bytes si' @ envelope_bytes b'"
    unfolding plan_preimage_def by simp
  from plan_bytes_cancel [OF assms(2,3) this] show ?thesis by (simp add: policy_bytes_def codec_iff)
qed

definition toy_plan :: ExecutionPlan where
  "toy_plan = \<lparr>pl_trace_id = ''t'', pl_strategy = NativeArb, pl_chain_id = 42161, pl_target = 7, pl_calldata = [1, 2, 3, 4],
     pl_value = 0, pl_gas_limit = 100, pl_max_fee_per_gas = 5, pl_max_priority_fee_per_gas = 1, pl_deadline_ms = 2000,
     pl_profit_token = 9, pl_min_profit_wei = 10, pl_require_preflight = True, pl_dry_run = False,
     pl_broadcast_lane = PrivateRelay\<rparr>"

definition toy_policy :: EnginePolicy where
  "toy_policy = \<lparr>po_expected_chain_id = 42161, po_min_profit_wei = 4, po_max_gas_limit = 1000, po_require_preflight = True,
     po_require_live_sources = False, po_min_gate_count = 0, po_min_deadline_ms_from_now = 500, po_allowed_targets = [],
     po_allowed_lanes = []\<rparr>"

definition toy_simulation :: SimulationArtifact where
  "toy_simulation = \<lparr>sim_success = True, sim_expected_profit_wei = 12, sim_gas_used = 80, sim_state_read_count = 3,
     sim_revert_reason = None\<rparr>"

definition toy_source :: SourceArtifact where
  "toy_source = \<lparr>src_name = ''a'', src_block_number = 0x0100000000000000, src_observed_at_ns = 0x0761616161616161\<rparr>"

definition toy_gate :: GateArtifact where
  "toy_gate = \<lparr>gate_name = ''a'', gate_admitted = True, gate_reason = Some ''aaaaaaa''\<rparr>"

lemma toy_wire_sized: "wire_sized toy_plan"
  by (simp add: wire_sized_def toy_plan_def power_numeral strategy_parse_def normalize_key_def ascii_lower_def Let_def)

theorem plan_preimage_binds_plan_witness:
  "wire_sized toy_plan \<and> plan_preimage toy_plan toy_policy [toy_source] [] toy_simulation (broadcast_envelope toy_plan toy_policy)
     \<noteq> plan_preimage (toy_plan\<lparr>pl_dry_run := True\<rparr>) toy_policy [toy_source] [] toy_simulation (broadcast_envelope toy_plan toy_policy)"
proof -
  have "wire_sized (toy_plan\<lparr>pl_dry_run := True\<rparr>)" using toy_wire_sized by (simp add: wire_sized_def)
  then show ?thesis
    using plan_preimage_binds_plan [OF _ toy_wire_sized] toy_wire_sized by (fastforce simp: toy_plan_def)
qed

text \<open>
  C37. The hash does not bind the artifact lists: neither list is preceded by its length, so a live
  source and a gate can produce the same bytes. Two accepted jobs, one with a source and no gate and
  one with a gate and no source, get the same plan hash whatever the hash function is.
\<close>

theorem plan_hash_confuses_artifacts:
  "\<exists>job job'. compose_engine_job X toy_plan toy_policy [toy_source] [] toy_simulation 1000 = Ok job
     \<and> compose_engine_job X toy_plan toy_policy [] [toy_gate] toy_simulation 1000 = Ok job'
     \<and> job_gates job \<noteq> job_gates job' \<and> job_plan_hash job = job_plan_hash job'"
proof -
  have adm: "admissible toy_plan toy_policy [toy_source] [] toy_simulation 1000"
    "admissible toy_plan toy_policy [] [toy_gate] toy_simulation 1000"
    by (simp_all add: admissible_def toy_plan_def toy_policy_def toy_simulation_def toy_source_def toy_gate_def
        blank_def is_space_def power_numeral)
  have bytes: "source_bytes toy_source = gate_bytes toy_gate"
    by (simp add: source_bytes_def gate_bytes_def toy_source_def toy_gate_def push_str_def push_bytes_def as_bytes_def
        to_be_bytes_def bool_byte_def upt_rec)
  show ?thesis
    using adm bytes
    by (simp add: compose_engine_job_def validate_plan_Ok [THEN iffD2] obind_eq_Ok Let_def compute_plan_hash_def plan_preimage_def)
qed

end
