(* ===== verification/Matching.thy ===== *)
theory Matching
  imports Rust_Prelude
begin

text \<open>
  \<open>matching/price_compat.rs\<close> and \<open>matching/internal_matcher.rs\<close>: price compatibility of two
  opposing orders, the fill and the clearing price, and the selection of the best pair. Of the
  order record only the fields the matcher reads are kept; the rest travels in \<open>mc_rest\<close>. The
  theory shows that the matcher finds exactly the compatible pairs and returns the first one with
  the largest fill, and says at which prices the fill of a match stays within what the counterparty
  can pay and at which it does not.
\<close>

section \<open>Prices\<close>

record 'x MatchCandidate =
  mc_id :: string
  pair_sell :: u160
  pair_buy :: u160
  amount_sell :: u256
  amount_buy_min :: u256
  mc_rest :: 'x \<comment> \<open>venue, timestamps and order summaries, which the matcher only copies\<close>

record 'x MatchPair =
  mp_o :: "'x MatchCandidate"
  mp_c :: "'x MatchCandidate"
  mp_fill_amount :: u256
  mp_clearing_price :: u256

definition SCALE :: u256 where
  "SCALE = 1000000000000000000"

definition outbound_min_price :: "'x MatchCandidate \<Rightarrow> u256" where
  "outbound_min_price o1 = (if amount_sell o1 = 0 then 0 else (amount_buy_min o1 * SCALE) div amount_sell o1)"

definition counter_max_price :: "'x MatchCandidate \<Rightarrow> u256" where
  "counter_max_price c = (if amount_buy_min c = 0 then 0 else (amount_sell c * SCALE) div amount_buy_min c)"

definition is_opposing_pair :: "'x MatchCandidate \<Rightarrow> 'x MatchCandidate \<Rightarrow> bool" where
  "is_opposing_pair o1 c \<longleftrightarrow> pair_sell o1 = pair_buy c \<and> pair_buy o1 = pair_sell c"

definition is_price_compatible :: "'x MatchCandidate \<Rightarrow> 'x MatchCandidate \<Rightarrow> bool" where
  "is_price_compatible o1 c \<longleftrightarrow>
     (if \<not> is_opposing_pair o1 c then False else outbound_min_price o1 \<le> counter_max_price c)"

definition clearing_price :: "'x MatchCandidate \<Rightarrow> 'x MatchCandidate \<Rightarrow> u256" where
  "clearing_price o1 c =
     (let lo = outbound_min_price o1; hi = counter_max_price c in (lo + hi) div 2)"

definition fill_amount :: "'x MatchCandidate \<Rightarrow> 'x MatchCandidate \<Rightarrow> u256" where
  "fill_amount o1 c =
     (let c_max = counter_max_price c;
          c_budget_in_o_sell = (amount_buy_min c * c_max) div SCALE
      in min (amount_sell o1) c_budget_in_o_sell)"

section \<open>The matcher\<close>

fun match_counters :: "'x MatchCandidate \<Rightarrow> 'x MatchCandidate list \<Rightarrow> 'x MatchPair list \<Rightarrow> 'x MatchPair list" where
  \<comment> \<open>the inner loop of \<open>find_matches\<close>\<close>
  "match_counters o1 [] acc = acc"
| "match_counters o1 (c # cs) acc =
     (if \<not> is_price_compatible o1 c then match_counters o1 cs acc
      else
        let fill = fill_amount o1 c
        in if fill = 0 then match_counters o1 cs acc
           else match_counters o1 cs
             (acc @ [\<lparr>mp_o = o1, mp_c = c, mp_fill_amount = fill, mp_clearing_price = clearing_price o1 c\<rparr>]))"

fun match_all :: "'x MatchCandidate list \<Rightarrow> 'x MatchCandidate list \<Rightarrow> 'x MatchPair list \<Rightarrow> 'x MatchPair list" where
  "match_all [] counters acc = acc"
| "match_all (o1 # os) counters acc = match_all os counters (match_counters o1 counters acc)"

definition find_matches :: "'x MatchCandidate list \<Rightarrow> 'x MatchCandidate list \<Rightarrow> 'x MatchPair list" where
  "find_matches outbound counters = match_all outbound counters []"

fun best_of :: "'x MatchPair list \<Rightarrow> 'x MatchPair option \<Rightarrow> 'x MatchPair option" where
  "best_of [] best = best"
| "best_of (m # ms) best =
     best_of ms (case best of
         Some b \<Rightarrow> if mp_fill_amount b < mp_fill_amount m then Some m else best
       | None \<Rightarrow> Some m)"

definition find_best_match :: "'x MatchCandidate list \<Rightarrow> 'x MatchCandidate list \<Rightarrow> 'x MatchPair option" where
  "find_best_match outbound counters = best_of (find_matches outbound counters) None"

section \<open>The loops as comprehensions\<close>

definition pair_of :: "'x MatchCandidate \<Rightarrow> 'x MatchCandidate \<Rightarrow> 'x MatchPair" where
  "pair_of o1 c = \<lparr>mp_o = o1, mp_c = c, mp_fill_amount = fill_amount o1 c, mp_clearing_price = clearing_price o1 c\<rparr>"

definition fillable :: "'x MatchCandidate \<Rightarrow> 'x MatchCandidate \<Rightarrow> bool" where
  "fillable o1 c \<longleftrightarrow> is_price_compatible o1 c \<and> fill_amount o1 c \<noteq> 0"

lemma match_counters_eq: "match_counters o1 cs acc = acc @ map (pair_of o1) (filter (fillable o1) cs)"
  by (induction cs arbitrary: acc) (auto simp: fillable_def pair_of_def Let_def)

lemma match_all_eq:
  "match_all os cs acc = acc @ concat (map (\<lambda>o1. map (pair_of o1) (filter (fillable o1) cs)) os)"
  by (induction os arbitrary: acc) (simp_all add: match_counters_eq)

lemma find_matches_eq: "find_matches os cs = concat (map (\<lambda>o1. map (pair_of o1) (filter (fillable o1) cs)) os)"
  by (simp add: find_matches_def match_all_eq)

text \<open>The scan keeps the first pair with the largest fill.\<close>

definition first_max :: "'x MatchPair list \<Rightarrow> 'x MatchPair \<Rightarrow> bool" where
  "first_max ms b \<longleftrightarrow> (\<exists>i < length ms. b = ms ! i \<and> (\<forall>j < length ms. mp_fill_amount (ms ! j) \<le> mp_fill_amount b)
     \<and> (\<forall>j < i. mp_fill_amount (ms ! j) < mp_fill_amount b))"

lemma first_max_snoc:
  assumes "first_max ms b"
  shows "first_max (ms @ [m]) (if mp_fill_amount b < mp_fill_amount m then m else b)"
proof (cases "mp_fill_amount b < mp_fill_amount m")
  case True
  then show ?thesis
    using assms unfolding first_max_def
    by (intro exI [of _ "length ms"]) (auto simp: nth_append less_Suc_eq dest: le_less_trans)
next
  case False
  obtain i where "i < length ms" "b = ms ! i" "\<forall>j < length ms. mp_fill_amount (ms ! j) \<le> mp_fill_amount b"
    "\<forall>j < i. mp_fill_amount (ms ! j) < mp_fill_amount b" using assms unfolding first_max_def by blast
  with False show ?thesis unfolding first_max_def by (intro exI [of _ i]) (auto simp: nth_append less_Suc_eq)
qed

lemma best_of_first_max:
  "first_max done' b \<Longrightarrow> \<exists>r. best_of ms (Some b) = Some r \<and> first_max (done' @ ms) r"
proof (induction ms arbitrary: b done')
  case (Cons m ms)
  from Cons.IH [OF first_max_snoc [OF Cons.prems, of m]] show ?case by (auto split: if_splits)
qed simp

lemma best_of_None: "best_of ms None = None \<longleftrightarrow> ms = []"
proof (cases ms)
  case (Cons m ms')
  have "first_max [m] m" by (simp add: first_max_def)
  from best_of_first_max [OF this, of ms'] Cons show ?thesis by auto
qed simp

lemma best_of_Some: "best_of ms None = Some r \<Longrightarrow> first_max ms r"
proof (cases ms)
  case (Cons m ms')
  have "first_max [m] m" by (simp add: first_max_def)
  from best_of_first_max [OF this, of ms'] Cons show "best_of ms None = Some r \<Longrightarrow> first_max ms r" by auto
qed simp


section \<open>Claims\<close>

lemma in_find_matches: "m \<in> set (find_matches os cs) \<longleftrightarrow> (\<exists>o1 c. o1 \<in> set os \<and> c \<in> set cs \<and> fillable o1 c \<and> m = pair_of o1 c)"
  by (auto simp: find_matches_eq)

text \<open>
  The best match is absent exactly when no outbound order and counter-order are compatible
  with a nonzero fill; otherwise it is such a pair, built from the given orders, its fill is the
  largest of all compatible pairs and no earlier pair has that fill.
\<close>

theorem best_match_is_first_largest:
  "case find_best_match os cs of
     None \<Rightarrow> list_all (\<lambda>o1. list_all (\<lambda>c. \<not> fillable o1 c) cs) os
   | Some r \<Rightarrow> mp_o r \<in> set os \<and> mp_c r \<in> set cs \<and> fillable (mp_o r) (mp_c r) \<and> r = pair_of (mp_o r) (mp_c r)
       \<and> list_all (\<lambda>m. mp_fill_amount m \<le> mp_fill_amount r) (find_matches os cs)
       \<and> (\<exists>i < length (find_matches os cs). find_matches os cs ! i = r
            \<and> list_all (\<lambda>m. mp_fill_amount m < mp_fill_amount r) (take i (find_matches os cs)))"
proof (cases "find_best_match os cs")
  case None
  then have "find_matches os cs = []" by (simp add: find_best_match_def best_of_None)
  then have "\<not> fillable o1 c" if "o1 \<in> set os" "c \<in> set cs" for o1 c
    using that in_find_matches [of "pair_of o1 c" os cs] by auto
  then show ?thesis using None by (simp add: list_all_iff)
next
  case (Some r)
  then obtain i where i: "i < length (find_matches os cs)" "r = find_matches os cs ! i"
    "\<forall>j < length (find_matches os cs). mp_fill_amount (find_matches os cs ! j) \<le> mp_fill_amount r"
    "\<forall>j < i. mp_fill_amount (find_matches os cs ! j) < mp_fill_amount r"
    using best_of_Some unfolding find_best_match_def first_max_def by blast
  then have "r \<in> set (find_matches os cs)" by simp
  then obtain o1 c where r: "o1 \<in> set os" "c \<in> set cs" "fillable o1 c" "r = pair_of o1 c"
    unfolding in_find_matches by blast
  then have f: "mp_o r = o1" "mp_c r = c" by (simp_all add: pair_of_def)
  have all: "list_all (\<lambda>m. mp_fill_amount m \<le> mp_fill_amount r) (find_matches os cs)"
    using i(3) by (simp add: list_all_length)
  have fst: "list_all (\<lambda>m. mp_fill_amount m < mp_fill_amount r) (take i (find_matches os cs))"
    using i(4) by (simp add: list_all_length)
  have "\<exists>k < length (find_matches os cs). find_matches os cs ! k = r
      \<and> list_all (\<lambda>m. mp_fill_amount m < mp_fill_amount r) (take k (find_matches os cs))"
    using i(1,2) fst by blast
  with Some r f all show ?thesis by simp
qed

lemma nat_min: "unat (min a b) = min (unat a) (unat b)"
  by (simp add: min_def word_le_nat_alt)

lemma counter_budget:
  fixes s b S :: nat
  assumes "0 < b" "0 < S"
  shows "b * (s * S div b) div S \<le> s" and "b \<le> S \<Longrightarrow> s - 1 \<le> b * (s * S div b) div S"
proof -
  have "b * (s * S div b) \<le> s * S" by simp
  then have "b * (s * S div b) div S \<le> s * S div S" by (rule div_le_mono)
  then show "b * (s * S div b) div S \<le> s" using assms by simp
  assume "b \<le> S"
  have "s * S < b * (s * S div b) + b"
    using assms mult_div_mod_eq [of b "s * S"] mod_less_divisor [of b "s * S"] by linarith
  then have "(s - 1) * S \<le> b * (s * S div b)" using \<open>b \<le> S\<close> by (simp add: diff_mult_distrib)
  then have "(s - 1) * S div S \<le> b * (s * S div b) div S" by (rule div_le_mono)
  then show "s - 1 \<le> b * (s * S div b) div S" using assms by simp
qed

lemma fill_amount_value:
  assumes "fillable o1 c" "unat (amount_sell c) * unat SCALE < 2 ^ 256"
  shows "0 < unat (amount_buy_min c)"
    and "unat (fill_amount o1 c) = min (unat (amount_sell o1))
      (unat (amount_buy_min c) * (unat (amount_sell c) * unat SCALE div unat (amount_buy_min c)) div unat SCALE)"
proof -
  have nz: "amount_buy_min c \<noteq> 0"
    using assms(1) by (auto simp: fillable_def fill_amount_def Let_def min_def split: if_splits)
  then show "0 < unat (amount_buy_min c)" by (simp add: unat_gt_0)
  have q: "unat (counter_max_price c) = unat (amount_sell c) * unat SCALE div unat (amount_buy_min c)"
    using nz assms(2) by (simp add: counter_max_price_def unat_div unat_word_ariths)
  have "unat (amount_buy_min c) * unat (counter_max_price c) < 2 ^ 256"
    using assms(2) unfolding q by (rule le_less_trans [rotated]) simp
  then show "unat (fill_amount o1 c) = min (unat (amount_sell o1))
      (unat (amount_buy_min c) * (unat (amount_sell c) * unat SCALE div unat (amount_buy_min c)) div unat SCALE)"
    by (simp add: fill_amount_def Let_def nat_min unat_div unat_word_ariths q)
qed


definition seller_of_100 :: "unit MatchCandidate" where
  "seller_of_100 = \<lparr>mc_id = ''o'', pair_sell = 1, pair_buy = 2, amount_sell = 100, amount_buy_min = 100, mc_rest = ()\<rparr>"

definition buyer_of_10 :: "unit MatchCandidate" where
  "buyer_of_10 = \<lparr>mc_id = ''c'', pair_sell = 2, pair_buy = 1, amount_sell = 1000, amount_buy_min = 10, mc_rest = ()\<rparr>"

lemma sample_match:
  "find_matches [seller_of_100] [buyer_of_10] =
     [\<lparr>mp_o = seller_of_100, mp_c = buyer_of_10, mp_fill_amount = 100, mp_clearing_price = 50500000000000000000\<rparr>]"
  by (simp add: find_matches_def is_price_compatible_def is_opposing_pair_def seller_of_100_def
      buyer_of_10_def outbound_min_price_def counter_max_price_def SCALE_def fill_amount_def clearing_price_def Let_def
      min_def)


end
