(* ===== verification/Nonces.thy ===== *)
theory Nonces
  imports Rust_Prelude
begin

text \<open>
  The two nonce allocators: \<open>utils/nonce.rs\<close> (an atomic counter re-anchored against the chain) and
  \<open>executor/nonce.rs\<close> (a cached pending nonce with a freshness limit). Every operation runs under an
  atomic instruction or a lock, so an interleaving of callers is a sequence of operations. The
  contract of an allocator is a locale: between two re-anchorings the nonces handed out are
  consecutive and hence distinct; both allocators are instances.
\<close>

section \<open>The atomic nonce manager\<close>

record NonceManager =
  nm_inner :: u64

datatype NonceSync = InSync | Reanchor u64 | DriftAhead u64 u64

definition evaluate :: "u64 \<Rightarrow> u64 \<Rightarrow> NonceSync" where
  "evaluate local chain =
     (if local < chain then Reanchor chain
      else if chain + 1 < local then DriftAhead local chain
      else InSync)"

definition nm_new :: "u64 \<Rightarrow> NonceManager" where
  "nm_new initial = \<lparr>nm_inner = initial\<rparr>"

definition acquire :: "NonceManager \<Rightarrow> u64 \<times> NonceManager" where
  "acquire m = (nm_inner m, m\<lparr>nm_inner := nm_inner m + 1\<rparr>)"

definition nm_reset :: "NonceManager \<Rightarrow> u64 \<Rightarrow> NonceManager" where
  "nm_reset m v = m\<lparr>nm_inner := v\<rparr>"

definition reconcile ::
    "NonceManager \<Rightarrow> (unit, 'e) outcome \<Rightarrow> (u64, 'e) outcome \<Rightarrow> (u64 \<Rightarrow> u64 \<Rightarrow> 'e) \<Rightarrow> (unit, 'e) outcome \<times> NonceManager" where
  \<comment> \<open>\<open>url\<close> is the outcome of parsing the endpoint, \<open>rpc\<close> that of \<open>eth_getTransactionCount\<close>, \<open>drift\<close> the
    error of the last branch\<close>
  "reconcile m url rpc drift =
     (case url of
        Err e \<Rightarrow> (Err e, m) | Panic \<Rightarrow> (Panic, m)
      | Ok _ \<Rightarrow> (case rpc of
          Err e \<Rightarrow> (Err e, m) | Panic \<Rightarrow> (Panic, m)
        | Ok chain \<Rightarrow> (case evaluate (nm_inner m) chain of
            InSync \<Rightarrow> (Ok (), m)
          | Reanchor v \<Rightarrow> (Ok (), nm_reset m v)
          | DriftAhead local chain \<Rightarrow> (Err (drift local chain), m))))"

section \<open>The pending-nonce cache\<close>

record PendingNonceCache =
  pc_pending :: "u64 option"
  pc_last_refresh_unix_ms :: u64

definition pc_new :: PendingNonceCache where
  "pc_new = \<lparr>pc_pending = None, pc_last_refresh_unix_ms = 0\<rparr>"

definition take_and_increment :: "PendingNonceCache \<Rightarrow> u64 option \<times> PendingNonceCache" where
  "take_and_increment s =
     (case pc_pending s of None \<Rightarrow> (None, s) | Some n \<Rightarrow> (Some n, s\<lparr>pc_pending := Some (n + 1)\<rparr>))"

definition saturating_sub :: "'a::len word \<Rightarrow> 'a word \<Rightarrow> 'a word" where
  "saturating_sub a b = (if b \<le> a then a - b else 0)"

definition take_and_increment_if_fresh :: "PendingNonceCache \<Rightarrow> u64 \<Rightarrow> u64 \<Rightarrow> u64 option \<times> PendingNonceCache" where
  "take_and_increment_if_fresh s now_unix_ms ttl_ms =
     (case pc_pending s of
        None \<Rightarrow> (None, s)
      | Some n \<Rightarrow>
          if ttl_ms < saturating_sub now_unix_ms (pc_last_refresh_unix_ms s)
          then (None, s\<lparr>pc_pending := None\<rparr>)
          else (Some n, s\<lparr>pc_pending := Some (n + 1)\<rparr>))"

definition prime :: "PendingNonceCache \<Rightarrow> u64 \<Rightarrow> u64 \<Rightarrow> PendingNonceCache" where
  "prime s pending refresh_unix_ms = s\<lparr>pc_pending := Some pending, pc_last_refresh_unix_ms := refresh_unix_ms\<rparr>"

definition pc_clear :: "PendingNonceCache \<Rightarrow> PendingNonceCache" where
  "pc_clear s = s\<lparr>pc_pending := None, pc_last_refresh_unix_ms := 0\<rparr>"

definition peek :: "PendingNonceCache \<Rightarrow> u64 option" where
  "peek s = pc_pending s"

section \<open>The contract of an allocator\<close>

text \<open>
  \<open>run\<close> performs one operation of a caller and returns the nonce handed out, if any; \<open>next\<close> is the
  nonce the allocator would hand out. A request is an operation that does not re-anchor.
\<close>

fun run_ops :: "('s \<Rightarrow> 'op \<Rightarrow> u64 option \<times> 's) \<Rightarrow> 's \<Rightarrow> 'op list \<Rightarrow> u64 list \<times> 's" where
  "run_ops step s [] = ([], s)"
| "run_ops step s (x # xs) =
     (let (r, s') = step s x; (ns, s'') = run_ops step s' xs
      in ((case r of None \<Rightarrow> ns | Some n \<Rightarrow> n # ns), s''))"

locale nonce_allocator =
  fixes step :: "'s \<Rightarrow> 'op \<Rightarrow> u64 option \<times> 's" and next_nonce :: "'s \<Rightarrow> u64 option" and request :: "'op \<Rightarrow> bool"
  assumes hand_out: "request x \<Longrightarrow> step s x = (Some n, s') \<Longrightarrow> next_nonce s = Some n \<and> next_nonce s' = Some (n + 1)"
    and keeps: "request x \<Longrightarrow> step s x = (None, s') \<Longrightarrow> next_nonce s' = next_nonce s \<or> next_nonce s' = None"
    and exhausted: "request x \<Longrightarrow> next_nonce s = None \<Longrightarrow> step s x = (None, s') \<Longrightarrow> next_nonce s' = None"
begin

lemma consecutive:
  "list_all request xs \<Longrightarrow> run_ops step s xs = (ns, s') \<Longrightarrow>
    (case next_nonce s of None \<Rightarrow> ns = [] | Some n \<Rightarrow> ns = map (\<lambda>k. n + word_of_nat k) [0 ..< length ns])"
proof (induction xs arbitrary: s ns)
  case (Cons x xs)
  obtain r t where st: "step s x = (r, t)" by force
  obtain ns' where rest: "run_ops step t xs = (ns', s')" and ns: "ns = (case r of None \<Rightarrow> ns' | Some n \<Rightarrow> n # ns')"
    using Cons.prems(2) st by (auto simp: Let_def split: prod.splits)
  have req: "request x" "list_all request xs" using Cons.prems(1) by auto
  note IH = Cons.IH [OF req(2) rest]
  show ?case
  proof (cases r)
    case (Some n)
    from hand_out [OF req(1) st [unfolded Some]] have h: "next_nonce s = Some n" "next_nonce t = Some (n + 1)" by auto
    have "ns' = map (\<lambda>k. n + 1 + word_of_nat k) [0 ..< length ns']" using IH h by simp
    then have "n # ns' = map (\<lambda>k. n + word_of_nat k) [0 ..< length (n # ns')]"
      by (simp add: upt_conv_Cons map_Suc_upt [symmetric] add.assoc comp_def del: upt_Suc)
    then show ?thesis using ns Some h by simp
  next
    case None
    from keeps [OF req(1) st [unfolded None]] exhausted [OF req(1) _ st [unfolded None]] IH ns None
    show ?thesis by (cases "next_nonce s") auto
  qed
qed (simp split: option.splits)

lemma never_twice:
  assumes "list_all request xs" "run_ops step s xs = (ns, s')" "length xs < 2 ^ 64"
  shows "distinct ns"
proof -
  have len: "length ns \<le> length xs"
    using assms(2) by (induction xs arbitrary: s ns) (fastforce simp: Let_def split: prod.splits option.splits)+
  show ?thesis
  proof (cases "next_nonce s")
    case None
    then show ?thesis using consecutive [OF assms(1,2)] by simp
  next
    case (Some n)
    have "inj_on (\<lambda>k. n + word_of_nat k) {0 ..< length ns}"
    proof (rule inj_onI)
      fix i j assume "i \<in> {0 ..< length ns}" "j \<in> {0 ..< length ns}" "n + word_of_nat i = n + (word_of_nat j :: u64)"
      moreover from this have "i < 2 ^ LENGTH(64)" "j < 2 ^ LENGTH(64)" using len assms(3) by auto
      ultimately show "i = j" by (metis add_left_cancel unat_word_of_nat)
    qed
    then have "distinct (map (\<lambda>k. n + word_of_nat k :: u64) [0 ..< length ns])" by (simp add: distinct_map)
    then show ?thesis using consecutive [OF assms(1,2)] Some by simp
  qed
qed

end


section \<open>Both allocators meet the contract\<close>

datatype nm_op = NM_Acquire | NM_Reset u64

fun nm_step :: "NonceManager \<Rightarrow> nm_op \<Rightarrow> u64 option \<times> NonceManager" where
  "nm_step m NM_Acquire = (let (n, m') = acquire m in (Some n, m'))"
| "nm_step m (NM_Reset v) = (None, nm_reset m v)"

datatype pc_op = PC_Take | PC_TakeIfFresh u64 u64 | PC_Prime u64 u64 | PC_Clear | PC_Peek

fun pc_step :: "PendingNonceCache \<Rightarrow> pc_op \<Rightarrow> u64 option \<times> PendingNonceCache" where
  "pc_step s PC_Take = take_and_increment s"
| "pc_step s (PC_TakeIfFresh now_ms ttl) = take_and_increment_if_fresh s now_ms ttl"
| "pc_step s (PC_Prime p t) = (None, prime s p t)"
| "pc_step s PC_Clear = (None, pc_clear s)"
| "pc_step s PC_Peek = (None, s)"

fun is_prime :: "pc_op \<Rightarrow> bool" where
  "is_prime (PC_Prime p t) = True"
| "is_prime _ = False"

interpretation manager: nonce_allocator nm_step "\<lambda>m. Some (nm_inner m)" "\<lambda>x. x = NM_Acquire"
  by unfold_locales (auto simp: acquire_def)

interpretation cache: nonce_allocator pc_step pc_pending "\<lambda>x. \<not> is_prime x"
proof
  fix x s n s' assume "\<not> is_prime x" "pc_step s x = (Some n, s')"
  then show "pc_pending s = Some n \<and> pc_pending s' = Some (n + 1)"
    by (cases x) (auto simp: take_and_increment_def take_and_increment_if_fresh_def split: option.splits if_splits)
next
  fix x s s' assume "\<not> is_prime x" "pc_step s x = (None, s')"
  then show "pc_pending s' = pc_pending s \<or> pc_pending s' = None"
    by (cases x) (auto simp: take_and_increment_def take_and_increment_if_fresh_def pc_clear_def split: option.splits if_splits)
next
  fix x s s' assume "\<not> is_prime x" "pc_pending s = None" "pc_step s x = (None, s')"
  then show "pc_pending s' = None"
    by (cases x) (auto simp: take_and_increment_def take_and_increment_if_fresh_def pc_clear_def)
qed

lemma stale_take_clears:
  "pc_pending s = Some n \<Longrightarrow> unat ttl < unat now_ms - unat (pc_last_refresh_unix_ms s) \<Longrightarrow>
    take_and_increment_if_fresh s now_ms ttl = (None, s\<lparr>pc_pending := None\<rparr>)"
  by (auto simp: take_and_increment_if_fresh_def saturating_sub_def word_less_nat_alt word_le_nat_alt unat_sub)

text \<open>
  Below the last counter value \<open>evaluate\<close> draws the documented line; at the last value \<open>chain + 1\<close>
  wraps and a consistent pair is reported as drift.
\<close>

lemma evaluate_classifies:
  "chain \<noteq> u_max \<Longrightarrow> evaluate local chain =
     (if unat local < unat chain then Reanchor chain
      else if unat chain + 2 \<le> unat local then DriftAhead local chain else InSync)"
  by (auto simp: evaluate_def word_less_nat_alt unat_plus_one)

lemma evaluate_wraps: "evaluate u_max u_max = DriftAhead u_max u_max"
  by (simp add: evaluate_def u_max_def word_gt_0)

section \<open>Claims\<close>

text \<open>
  Whatever sequence of takes, fresh takes, clears and peeks the callers interleave after the cache
  has been primed with \<open>p\<close>, the nonces handed out are \<open>p\<close>, \<open>p + 1\<close>, \<open>p + 2\<close>, and so on without a gap, and
  none is handed out twice.
\<close>

theorem pending_nonces_consecutive:
  assumes "list_all (\<lambda>x. \<not> is_prime x) ops" "length ops < 2 ^ 64"
  shows "\<exists>k. fst (run_ops pc_step (prime s p t) ops) = map (\<lambda>i. p + word_of_nat i) [0 ..< k]
    \<and> distinct (fst (run_ops pc_step (prime s p t) ops))"
proof -
  obtain ns s' where run: "run_ops pc_step (prime s p t) ops = (ns, s')" by force
  have "ns = map (\<lambda>i. p + word_of_nat i) [0 ..< length ns]"
    using cache.consecutive [OF assms(1) run] by (simp add: prime_def)
  moreover have "distinct ns" by (rule cache.never_twice [OF assms(1) run assms(2)])
  ultimately show ?thesis using run by (metis fst_conv)
qed

theorem pending_nonces_consecutive_witness:
  "fst (run_ops pc_step (prime pc_new 42 1000) [PC_Take, PC_TakeIfFresh 1200 500, PC_Peek, PC_Take, PC_TakeIfFresh 1501 500, PC_Take])
     = [42, 43, 44]
   \<and> distinct (fst (run_ops pc_step (prime pc_new 42 1000)
       [PC_Take, PC_TakeIfFresh 1200 500, PC_Peek, PC_Take, PC_TakeIfFresh 1501 500, PC_Take]))"
proof -
  let ?ops = "[PC_Take, PC_TakeIfFresh 1200 500, PC_Peek, PC_Take, PC_TakeIfFresh 1501 500, PC_Take]"
  have "fst (run_ops pc_step (prime pc_new 42 1000) ?ops) = [42, 43, 44]"
    by (simp add: take_and_increment_def take_and_increment_if_fresh_def prime_def pc_new_def saturating_sub_def Let_def)
  moreover have "list_all (\<lambda>x. \<not> is_prime x) ?ops" "length ?ops < 2 ^ 64" by (simp_all add: power_numeral)
  ultimately show ?thesis using pending_nonces_consecutive [of ?ops pc_new 42 1000] by blast
qed

end
