(* ===== verification/Window.thy ===== *)
theory Window
  imports Rust_Prelude
begin

text \<open>
  \<open>utils/window.rs\<close>: a sliding window of recent elements, bounded in number and in age. Instants and
  durations are natural numbers (nanoseconds); \<open>duration_since\<close> saturates at zero, as the
  subtraction of natural numbers does. The operations are also given as a step relation over a
  monotone clock with the history of insertions, whose reachable states carry the invariant.
\<close>

section \<open>The window\<close>

record 'a Node =
  nd_value :: 'a
  nd_entry_time :: nat

record 'a Window =
  w_ttl :: nat
  w_max_size :: nat
  w_min_size :: nat
  w_elements :: "'a Node list"

definition w_new :: "nat \<Rightarrow> nat \<Rightarrow> nat \<Rightarrow> 'a Window" where
  "w_new ttl max_size min_size = \<lparr>w_ttl = ttl, w_max_size = max_size, w_min_size = min_size, w_elements = []\<rparr>"

fun drop_stale :: "nat \<Rightarrow> nat \<Rightarrow> nat \<Rightarrow> 'a Node list \<Rightarrow> 'a Node list" where
  \<comment> \<open>the loop of \<open>remove_stale\<close>\<close>
  "drop_stale ttl min_size now [] = []"
| "drop_stale ttl min_size now (n # ns) =
     (if min_size < length (n # ns) \<and> ttl < now - nd_entry_time n
      then drop_stale ttl min_size now ns else n # ns)"

definition remove_stale :: "'a Window \<Rightarrow> nat \<Rightarrow> 'a Window" where
  "remove_stale w now = w\<lparr>w_elements := drop_stale (w_ttl w) (w_min_size w) now (w_elements w)\<rparr>"

definition w_add :: "'a Window \<Rightarrow> 'a \<Rightarrow> nat \<Rightarrow> 'a Window" where
  "w_add w v now =
     (let w = w\<lparr>w_elements := w_elements w @ [\<lparr>nd_value = v, nd_entry_time = now\<rparr>]\<rparr>;
          w = remove_stale w now
      in if w_max_size w < length (w_elements w) then w\<lparr>w_elements := tl (w_elements w)\<rparr> else w)"

definition oldest :: "'a Window \<Rightarrow> nat \<Rightarrow> 'a option \<times> 'a Window" where
  "oldest w now =
     (let w = remove_stale w now
      in ((case w_elements w of [] \<Rightarrow> None | n # _ \<Rightarrow> Some (nd_value n)), w))"

definition w_len :: "'a Window \<Rightarrow> nat \<Rightarrow> nat \<times> 'a Window" where
  "w_len w now = (let w = remove_stale w now in (length (w_elements w), w))"

definition w_is_empty :: "'a Window \<Rightarrow> nat \<Rightarrow> bool \<times> 'a Window" where
  "w_is_empty w now = (let (n, w) = w_len w now in (n = 0, w))"

section \<open>What the eviction loop keeps\<close>

lemma drop_stale_eq: "\<exists>k. drop_stale ttl m now ns = drop k ns"
proof (induction ns)
  case (Cons n ns)
  then obtain k where k: "drop_stale ttl m now ns = drop k ns" by blast
  show ?case
  proof (cases "m < length (n # ns) \<and> ttl < now - nd_entry_time n")
    case True
    then show ?thesis using k by (intro exI [of _ "Suc k"]) simp
  next
    case False
    then show ?thesis by (intro exI [of _ 0]) auto
  qed
qed simp

lemma length_drop_stale: "length (drop_stale ttl m now ns) \<le> length ns"
  by (induction ns) auto

lemma drop_stale_min: "min m (length ns) \<le> length (drop_stale ttl m now ns)"
  by (induction ns) auto

abbreviation times :: "'a Node list \<Rightarrow> nat list" where
  "times ns \<equiv> map nd_entry_time ns"

definition fresh :: "nat \<Rightarrow> nat \<Rightarrow> 'a Node \<Rightarrow> bool" where
  "fresh ttl now n \<longleftrightarrow> now - nd_entry_time n \<le> ttl"

text \<open>On a window in time order the loop removes exactly the expired elements it may remove.\<close>

lemma drop_stale_spec:
  assumes "sorted (times ns)"
  shows "drop_stale ttl m now ns =
    drop (min (length ns - m) (length (filter (\<lambda>n. \<not> fresh ttl now n) ns))) ns"
  using assms
proof (induction ns)
  case (Cons n ns)
  let ?old = "length (filter (\<lambda>n. \<not> fresh ttl now n) ns)"
  have IH: "drop_stale ttl m now ns = drop (min (length ns - m) ?old) ns" using Cons by simp
  show ?case
  proof (cases "fresh ttl now n")
    case True
    have "fresh ttl now k" if "k \<in> set ns" for k
      using True that Cons.prems by (force simp: fresh_def)
    then have "filter (\<lambda>n. \<not> fresh ttl now n) ns = []" by (simp add: filter_empty_conv)
    then show ?thesis using True by (simp add: fresh_def)
  next
    case False
    then show ?thesis using IH by (cases "m < length (n # ns)") (auto simp: fresh_def Suc_diff_le)
  qed
qed simp


section \<open>Runs of a window\<close>

text \<open>
  A configuration is the window, the history of all insertions and the clock. The three queries
  change the window only by evicting, so one rule stands for all of them.
\<close>

inductive w_reach :: "nat \<Rightarrow> nat \<Rightarrow> nat \<Rightarrow> 'a Window \<Rightarrow> 'a Node list \<Rightarrow> nat \<Rightarrow> bool" for ttl mx mn where
  start: "w_reach ttl mx mn (w_new ttl mx mn) [] 0"
| add: "w_reach ttl mx mn w h t \<Longrightarrow> t \<le> now \<Longrightarrow>
    w_reach ttl mx mn (w_add w v now) (h @ [\<lparr>nd_value = v, nd_entry_time = now\<rparr>]) now"
| query: "w_reach ttl mx mn w h t \<Longrightarrow> t \<le> now \<Longrightarrow> w_reach ttl mx mn (remove_stale w now) h now"

inductive_cases w_reachE: "w_reach ttl mx mn w h t"

lemma queries_evict: "snd (oldest w now) = remove_stale w now" "snd (w_len w now) = remove_stale w now"
  "snd (w_is_empty w now) = remove_stale w now"
  by (simp_all add: oldest_def w_len_def w_is_empty_def Let_def)

lemma fresh_suffix:
  "sorted (times ns) \<Longrightarrow> filter (fresh ttl now) ns = drop (length (filter (\<lambda>n. \<not> fresh ttl now n) ns)) ns"
proof (induction ns)
  case (Cons n ns)
  show ?case
  proof (cases "fresh ttl now n")
    case True
    then have "filter (fresh ttl now) (n # ns) = n # ns" "filter (\<lambda>n. \<not> fresh ttl now n) (n # ns) = []"
      using Cons.prems by (force simp: fresh_def filter_id_conv filter_empty_conv)+
    then show ?thesis by simp
  qed (use Cons in simp)
qed simp

lemma count_old: "length (filter (\<lambda>n. \<not> P n) ns) = length ns - length (filter P ns)"
  using sum_length_filter_compl [of P ns] by simp

lemma suffix_count:
  assumes "list_all P (drop k h)" "list_all (\<lambda>n. \<not> P n) (take k h)" "k \<le> length h"
  shows "length (filter P (drop j h)) = length (drop (max j k) h)"
proof -
  have "drop j h = drop j (take k h) @ drop (j - k) (drop k h)"
    using assms(3) by (metis append_take_drop_id drop_append length_take min.absorb2)
  moreover have "filter P (drop j (take k h)) = []"
    using assms(2) by (auto simp: list_all_iff filter_empty_conv dest: in_set_dropD)
  moreover have "filter P (drop (j - k) (drop k h)) = drop (j - k) (drop k h)"
    using assms(1) by (auto simp: list_all_iff filter_id_conv simp del: drop_drop dest: in_set_dropD)
  ultimately show ?thesis by (simp add: max_def)
qed

lemma fresh_in_suffix:
  assumes "sorted (times h)"
  shows "length (filter (fresh ttl now) (drop j h)) = min (length (drop j h)) (length (filter (fresh ttl now) h))"
proof -
  obtain k where f: "filter (fresh ttl now) h = drop k h" and k: "k \<le> length h"
    using fresh_suffix [OF assms] by (metis length_filter_le)
  have all: "list_all (fresh ttl now) (drop k h)" unfolding f [symmetric] by (simp add: list_all_iff)
  have "filter (fresh ttl now) (take k h) @ filter (fresh ttl now) (drop k h) = drop k h"
    unfolding filter_append [symmetric] append_take_drop_id by (rule f)
  moreover have "filter (fresh ttl now) (drop k h) = drop k h"
    using all by (simp add: list_all_iff filter_id_conv)
  ultimately have "list_all (\<lambda>n. \<not> fresh ttl now n) (take k h)" by (simp add: list_all_iff filter_empty_conv)
  from suffix_count [OF all this k, of j] f k show ?thesis by (auto simp: max_def)
qed

definition w_inv :: "nat \<Rightarrow> nat \<Rightarrow> nat \<Rightarrow> 'a Window \<Rightarrow> 'a Node list \<Rightarrow> nat \<Rightarrow> bool" where
  "w_inv ttl mx mn w h t \<longleftrightarrow>
     w_ttl w = ttl \<and> w_max_size w = mx \<and> w_min_size w = mn
     \<and> sorted (times h) \<and> list_all (\<lambda>n. nd_entry_time n \<le> t) h
     \<and> (\<exists>k. w_elements w = drop k h) \<and> length (w_elements w) \<le> mx
     \<and> (length (w_elements w) \<le> mn \<or> list_all (fresh ttl t) (w_elements w))
     \<and> min mx (length (filter (fresh ttl t) h)) \<le> length (w_elements w)"

lemma drop_stale_fresh:
  "sorted (times ns) \<Longrightarrow> length (drop_stale ttl m now ns) \<le> m \<or> list_all (fresh ttl now) (drop_stale ttl m now ns)"
proof (induction ns)
  case (Cons n ns)
  show ?case
  proof (cases "m < length (n # ns) \<and> ttl < now - nd_entry_time n")
    case False
    then consider "length (n # ns) \<le> m" | "fresh ttl now n" by (force simp: fresh_def)
    then show ?thesis
    proof cases
      case 2
      then have "list_all (fresh ttl now) (n # ns)" using Cons.prems by (force simp: fresh_def list_all_iff)
      then show ?thesis using False by auto
    qed (use False in auto)
  qed (use Cons in auto)
qed simp

lemma drop_stale_keeps_fresh:
  assumes "sorted (times ns)"
  shows "length (filter (fresh ttl now) ns) \<le> length (drop_stale ttl m now ns)"
  unfolding drop_stale_spec [OF assms] by (simp add: count_old) (metis diff_diff_cancel diff_le_mono2 length_filter_le min.cobounded2)

lemma fresh_antimono:
  "t \<le> now \<Longrightarrow> length (filter (fresh ttl now) h) \<le> length (filter (fresh ttl t) h)"
  by (induction h) (auto simp: fresh_def)

lemma evict_inv:
  fixes mn :: nat
  assumes els: "els = drop k h" and so: "sorted (times h)" and many: "min q (length (filter (fresh ttl now) h)) \<le> length els"
  defines "els' \<equiv> drop_stale ttl mn now els"
  shows "\<exists>k. els' = drop k h" "length els' \<le> length els" "length els' \<le> mn \<or> list_all (fresh ttl now) els'"
    "min q (length (filter (fresh ttl now) h)) \<le> length els'"
proof -
  have s: "sorted (times els)" unfolding els using so by (metis drop_map sorted_wrt_drop)
  show "\<exists>k. els' = drop k h" unfolding els'_def els using drop_stale_eq by (metis drop_drop)
  show "length els' \<le> length els" unfolding els'_def by (rule length_drop_stale)
  show "length els' \<le> mn \<or> list_all (fresh ttl now) els'" unfolding els'_def by (rule drop_stale_fresh [OF s])
  have "min (length els) (length (filter (fresh ttl now) h)) \<le> length els'"
    using drop_stale_keeps_fresh [OF s, of ttl now mn] fresh_in_suffix [OF so, of ttl now k] unfolding els'_def els by simp
  with many show "min q (length (filter (fresh ttl now) h)) \<le> length els'" by linarith
qed

lemma w_inv_query:
  assumes "w_inv ttl mx mn w h t" "t \<le> now"
  shows "w_inv ttl mx mn (remove_stale w now) h now"
proof -
  from assms obtain k where i: "w_ttl w = ttl" "w_max_size w = mx" "w_min_size w = mn" "sorted (times h)"
    "list_all (\<lambda>n. nd_entry_time n \<le> t) h" "w_elements w = drop k h" "length (w_elements w) \<le> mx"
    "min mx (length (filter (fresh ttl t) h)) \<le> length (w_elements w)" unfolding w_inv_def by blast
  have many: "min mx (length (filter (fresh ttl now) h)) \<le> length (w_elements w)"
    using i(8) fresh_antimono [OF assms(2), of ttl h] by linarith
  from i(5) have "list_all (\<lambda>n. nd_entry_time n \<le> now) h" using assms(2) by (auto simp: list_all_iff)
  with evict_inv [OF i(6,4) many, of mn] i(1-4,7) show ?thesis unfolding w_inv_def remove_stale_def by auto
qed

lemma w_inv_add:
  fixes v :: 'a
  assumes "w_inv ttl mx mn w h t" "t \<le> now"
  defines "h' \<equiv> h @ [\<lparr>nd_value = v, nd_entry_time = now\<rparr>]"
  shows "w_inv ttl mx mn (w_add w v now) h' now"
proof -
  from assms(1) obtain k where i: "w_ttl w = ttl" "w_max_size w = mx" "w_min_size w = mn" "sorted (times h)"
    "list_all (\<lambda>n. nd_entry_time n \<le> t) h" "w_elements w = drop k h" "length (w_elements w) \<le> mx"
    "min mx (length (filter (fresh ttl t) h)) \<le> length (w_elements w)" unfolding w_inv_def by blast
  let ?n = "\<lparr>nd_value = v, nd_entry_time = now\<rparr>"
  have so: "sorted (times h')" and ts: "list_all (\<lambda>n. nd_entry_time n \<le> now) h'"
    using i(4,5) assms(2) unfolding h'_def by (auto simp: sorted_append list_all_iff)
  have els: "w_elements w @ [?n] = drop (min k (length h)) h'" unfolding h'_def i(6) by (simp add: min_def)
  have "length (filter (fresh ttl now) h') \<le> length (filter (fresh ttl t) h) + 1"
    using fresh_antimono [OF assms(2), of ttl h] unfolding h'_def by simp
  then have many: "min (mx + 1) (length (filter (fresh ttl now) h')) \<le> length (w_elements w @ [?n])"
    using i(8) by (simp add: min_def split: if_splits)
  note e = evict_inv [OF els so many, of mn]
  let ?e = "drop_stale ttl mn now (w_elements w @ [?n])"
  have add: "w_add w v now = w\<lparr>w_elements := (if mx < length ?e then tl ?e else ?e)\<rparr>"
    using i(1-3) by (simp add: w_add_def remove_stale_def Let_def)
  obtain j where j: "?e = drop j h'" using e(1) by blast
  have "tl ?e = drop (Suc j) h'" unfolding j by (simp add: drop_Suc tl_drop)
  moreover have "length ?e \<le> mx + 1" using e(2) i(7) by simp
  moreover have "list_all (fresh ttl now) ?e \<Longrightarrow> list_all (fresh ttl now) (tl ?e)" by (cases ?e) auto
  ultimately show ?thesis
    unfolding add w_inv_def using i(1-3) so ts j e(3,4) by (auto simp: min_def split: if_splits)
qed

lemma w_inv_reach: "w_reach ttl mx mn w h t \<Longrightarrow> w_inv ttl mx mn w h t"
proof (induction rule: w_reach.induct)
  case start
  show ?case by (simp add: w_inv_def w_new_def exI [of _ 0])
qed (simp_all add: w_inv_add w_inv_query)


section \<open>Claims\<close>

text \<open>
  Whatever is inserted and queried on a monotone clock, the window holds the most recent
  insertions in order, never more than its maximum; beyond the minimum size everything in it is
  within the time to live; and every insertion that is still within the time to live is in it
  unless the maximum size forced it out.
\<close>

theorem window_holds_recent:
  assumes "w_reach ttl mx mn w h t"
  shows "(\<exists>k. w_elements w = drop k h) \<and> length (w_elements w) \<le> mx \<and> sorted (times (w_elements w))
    \<and> (length (w_elements w) \<le> mn \<or> list_all (fresh ttl t) (w_elements w))
    \<and> min mx (length (filter (fresh ttl t) h)) \<le> length (w_elements w)"
proof -
  from w_inv_reach [OF assms] have i: "w_inv ttl mx mn w h t" .
  then have "sorted (times (w_elements w))" unfolding w_inv_def by (metis drop_map sorted_wrt_drop)
  with i show ?thesis unfolding w_inv_def by blast
qed

theorem window_holds_recent_witness:
  "\<exists>w. w_reach 10 3 0 w [\<lparr>nd_value = 1 :: nat, nd_entry_time = 5\<rparr>, \<lparr>nd_value = 2, nd_entry_time = 9\<rparr>] 17
     \<and> length (w_elements w) \<le> 3 \<and> min 3 (Suc 0) \<le> length (w_elements w)"
proof -
  let ?h = "[\<lparr>nd_value = 1 :: nat, nd_entry_time = 5\<rparr>, \<lparr>nd_value = 2, nd_entry_time = 9\<rparr>]"
  have "w_reach 10 3 0 (w_add (w_new 10 3 0) (1 :: nat) 5) ([] @ [\<lparr>nd_value = 1, nd_entry_time = 5\<rparr>]) 5"
    by (rule w_reach.add [OF w_reach.start]) simp
  then have "w_reach 10 3 0 (w_add (w_add (w_new 10 3 0) (1 :: nat) 5) 2 9)
      (([] @ [\<lparr>nd_value = 1, nd_entry_time = 5\<rparr>]) @ [\<lparr>nd_value = 2, nd_entry_time = 9\<rparr>]) 9"
    by (rule w_reach.add) simp
  then have "w_reach 10 3 0 (remove_stale (w_add (w_add (w_new 10 3 0) (1 :: nat) 5) 2 9) 17)
      (([] @ [\<lparr>nd_value = 1, nd_entry_time = 5\<rparr>]) @ [\<lparr>nd_value = 2, nd_entry_time = 9\<rparr>]) 17"
    by (rule w_reach.query) simp
  then have r: "w_reach 10 3 0 (remove_stale (w_add (w_add (w_new 10 3 0) (1 :: nat) 5) 2 9) 17) ?h 17" by simp
  have "length (filter (fresh 10 17) ?h) = Suc 0" by (simp add: fresh_def)
  with window_holds_recent [OF r] r show ?thesis by (metis (no_types, lifting))
qed

end
