(* ===== verification/Executor.thy ===== *)
theory Executor
  imports Byte_Codec Nonces
begin

text \<open>
  \<open>executor/mod.rs\<close> with the wire types of \<open>monitor/types.rs\<close> and the lane table of
  \<open>executor/lane.rs\<close>: the actor that takes one plan at a time through the deadline check, the
  submission policy, preflight, the rate ceiling, submission and the inclusion watch, and emits the
  settlements of the plan. The backend trait, the rate limiter and the clock are the fields of a
  record of functions over a state of their own; the outcome of a backend call is a sum, the error
  on the left. The list of backend calls made is kept beside the emitted settlements so that the
  theorems can speak about what was broadcast.
\<close>

section \<open>Wire types\<close>

datatype PlanKind =
    PK_NativeArb | PK_InternalMatch | PK_FourLeg | PK_Liquidation | PK_CowSolverBid | PK_UniswapXFill
  | PK_UniswapXFlashFill | PK_AcrossFill | PK_AcrossIntentFill | PK_MorphoLiquidation | PK_OneInchFusionGap
  | PK_OracleSandwich

record GasEnvelope =
  max_fee_per_gas_wei :: u256
  max_priority_fee_per_gas_wei :: u256

record Eip7702Delegation =
  authority :: u160
  delegate_address :: u160

datatype Lane = LDefault | LPrivateRelay | LKairos | LTimeboost

record Plan =
  ep_trace_id :: string
  ep_opportunity_id :: string
  ep_admission_hash :: "u256 option"
  ep_kind :: PlanKind
  ep_target :: u160
  ep_calldata :: "u8 list"
  ep_value :: u256
  ep_gas_limit :: u64
  ep_gas_envelope :: GasEnvelope
  ep_deadline_ms :: u64
  ep_require_preflight :: bool
  ep_expected_balance_delta_floor :: i256
  ep_profit_token :: u160
  ep_submission_lane :: Lane
  ep_timeboost_bid_wei :: "u256 option"
  ep_dry_run :: bool
  ep_eip7702 :: "Eip7702Delegation option"

datatype SettlementStatus =
    PreflightFailed | PreflightPassed | BroadcastFailed | Submitted | Included | Reverted | Replaced | Dropped

record Timestamps =
  received_ns :: u64
  preflight_ns :: "u64 option"
  broadcast_ns :: "u64 option"
  included_ns :: "u64 option"

record Settlement =
  st_trace_id :: string
  st_status :: SettlementStatus
  st_tx_hash :: "u256 option"
  st_block_number :: "u64 option"
  st_effective_gas_price_wei :: "u256 option"
  st_gas_used :: "u64 option"
  st_realized_balance_delta :: "i256 option"
  st_revert_reason :: "string option"
  st_timestamps :: Timestamps
  st_dry_run :: bool

record InclusionReceipt =
  ir_block_number :: u64
  ir_gas_used :: u64
  ir_effective_gas_price_wei :: u256
  ir_realized_balance_delta :: i256
  ir_status :: bool
  ir_revert_reason :: "string option"

datatype InclusionOutcome = IO_Mined InclusionReceipt | IO_Replaced | IO_Dropped

datatype PreflightError =
    DeltaBelowFloor i256 i256 | SimulationReverted string | ForkFailed string | Unavailable string

datatype SubmitError = SE_Rpc string | SE_Signer string | SE_Nonce string | SE_Gas string

datatype InclusionError = IE_Rpc string

definition decimal_i256 :: "i256 \<Rightarrow> string" where
  "decimal_i256 v = (if 0 \<le> sint v then decimal (nat (sint v)) else ''-'' @ decimal (nat (- sint v)))"

fun preflight_error_text :: "PreflightError \<Rightarrow> string" where
  "preflight_error_text (DeltaBelowFloor actual flr) =
     ''simulated balance delta '' @ decimal_i256 actual @ '' below floor '' @ decimal_i256 flr @ '' on profit_token''"
| "preflight_error_text (SimulationReverted m) = ''simulated tx reverted: '' @ m"
| "preflight_error_text (ForkFailed m) = ''REVM fork failed: '' @ m"
| "preflight_error_text (Unavailable m) = ''preflight backend unavailable: '' @ m"

fun submit_error_text :: "SubmitError \<Rightarrow> string" where
  "submit_error_text (SE_Rpc m) = ''RPC submission failed: '' @ m"
| "submit_error_text (SE_Signer m) = ''tx signing failed: '' @ m"
| "submit_error_text (SE_Nonce m) = ''nonce error: '' @ m"
| "submit_error_text (SE_Gas m) = ''gas error: '' @ m"

fun inclusion_error_text :: "InclusionError \<Rightarrow> string" where
  "inclusion_error_text (IE_Rpc m) = ''RPC error while polling: '' @ m"

section \<open>Lanes\<close>

record LaneEndpoints =
  default_http :: string
  private_relay_http :: "string option"
  kairos_http :: "string option"
  timeboost_http :: "string option"

definition or_default :: "'a \<Rightarrow> 'a option \<Rightarrow> 'a" where
  \<comment> \<open>\<open>unwrap_or\<close>\<close>
  "or_default d v = (case v of None \<Rightarrow> d | Some x \<Rightarrow> x)"

fun endpoint_for :: "LaneEndpoints \<Rightarrow> Lane \<Rightarrow> string" where
  "endpoint_for e LDefault = default_http e"
| "endpoint_for e LPrivateRelay = or_default (default_http e) (private_relay_http e)"
| "endpoint_for e LKairos = or_default (default_http e) (kairos_http e)"
| "endpoint_for e LTimeboost = or_default (default_http e) (timeboost_http e)"

fun has_dedicated_endpoint :: "LaneEndpoints \<Rightarrow> Lane \<Rightarrow> bool" where
  "has_dedicated_endpoint e LDefault = True"
| "has_dedicated_endpoint e LPrivateRelay = (private_relay_http e \<noteq> None)"
| "has_dedicated_endpoint e LKairos = (kairos_http e \<noteq> None)"
| "has_dedicated_endpoint e LTimeboost = (timeboost_http e \<noteq> None)"

record 'p LaneProviderSet =
  ps_default :: 'p
  ps_private_relay :: "'p option"
  ps_kairos :: "'p option"
  ps_timeboost :: "'p option"

fun provider_for :: "'p LaneProviderSet \<Rightarrow> Lane \<Rightarrow> 'p" where
  "provider_for s LDefault = ps_default s"
| "provider_for s LPrivateRelay = or_default (ps_default s) (ps_private_relay s)"
| "provider_for s LKairos = or_default (ps_default s) (ps_kairos s)"
| "provider_for s LTimeboost = or_default (ps_default s) (ps_timeboost s)"

section \<open>The submission policy\<close>

definition validate_submission_policy :: "Plan \<Rightarrow> string option" where
  \<comment> \<open>\<open>Some\<close> of the rejection text, \<open>None\<close> when the plan passes\<close>
  "validate_submission_policy plan =
     (if ep_dry_run plan then None
      else if (case ep_admission_hash plan of None \<Rightarrow> True | Some h \<Rightarrow> h = 0)
      then Some ''missing or zero admission_hash; non-dry-run execution requires sealed provenance''
      else
        let bid = or_default 0 (ep_timeboost_bid_wei plan)
        in if ep_submission_lane plan = LTimeboost then
             (if bid = 0 then Some ''timeboost_bid_wei must be positive when submission_lane=Timeboost''
              else if \<not> 0 < sint (ep_expected_balance_delta_floor plan)
              then Some ''Timeboost bid requires a positive expected profit floor''
              else
                let profit_floor = ep_expected_balance_delta_floor plan
                in if profit_floor \<le> bid
                   then Some (''timeboost_bid_wei '' @ decimal (unat bid) @ '' must stay below profit floor ''
                     @ decimal (unat profit_floor))
                   else None)
           else if 0 < bid then Some ''timeboost_bid_wei is only valid on the Timeboost lane''
           else None)"

section \<open>The actor\<close>

record 'b ExecutorBackend =
  be_now_ns :: "'b \<Rightarrow> u64 \<times> 'b" \<comment> \<open>\<open>ts_now_ns\<close>\<close>
  be_preflight :: "'b \<Rightarrow> Plan \<Rightarrow> (PreflightError + i256) \<times> 'b"
  be_limit_ok :: "'b \<Rightarrow> bool \<times> 'b" \<comment> \<open>\<open>limiter.check().is_ok()\<close>\<close>
  be_sign_and_submit :: "'b \<Rightarrow> Plan \<Rightarrow> (SubmitError + u256) \<times> 'b"
  be_await_inclusion :: "'b \<Rightarrow> u256 \<Rightarrow> u64 \<Rightarrow> (InclusionError + InclusionOutcome) \<times> 'b"

datatype backend_call =
    Preflight_call Plan "PreflightError + i256"
  | Limit_call bool
  | Submit_call Plan "SubmitError + u256"
  | Await_call u256 u64

record 'b world =
  wd_backend :: 'b
  wd_out :: "Settlement list" \<comment> \<open>what \<open>emit\<close> sent\<close>
  wd_calls :: "backend_call list"

definition ts_now :: "'b ExecutorBackend \<Rightarrow> 'b world \<Rightarrow> u64 \<times> 'b world" where
  "ts_now B w = (let (t, b) = be_now_ns B (wd_backend w) in (t, w\<lparr>wd_backend := b\<rparr>))"

definition emit :: "Settlement \<Rightarrow> 'b world \<Rightarrow> 'b world" where
  "emit s w = w\<lparr>wd_out := wd_out w @ [s]\<rparr>"

definition call_preflight :: "'b ExecutorBackend \<Rightarrow> Plan \<Rightarrow> 'b world \<Rightarrow> (PreflightError + i256) \<times> 'b world" where
  "call_preflight B plan w =
     (let (r, b) = be_preflight B (wd_backend w) plan
      in (r, w\<lparr>wd_backend := b, wd_calls := wd_calls w @ [Preflight_call plan r]\<rparr>))"

definition call_limit :: "'b ExecutorBackend \<Rightarrow> 'b world \<Rightarrow> bool \<times> 'b world" where
  "call_limit B w =
     (let (r, b) = be_limit_ok B (wd_backend w)
      in (r, w\<lparr>wd_backend := b, wd_calls := wd_calls w @ [Limit_call r]\<rparr>))"

definition call_submit :: "'b ExecutorBackend \<Rightarrow> Plan \<Rightarrow> 'b world \<Rightarrow> (SubmitError + u256) \<times> 'b world" where
  "call_submit B plan w =
     (let (r, b) = be_sign_and_submit B (wd_backend w) plan
      in (r, w\<lparr>wd_backend := b, wd_calls := wd_calls w @ [Submit_call plan r]\<rparr>))"

definition call_await :: "'b ExecutorBackend \<Rightarrow> u256 \<Rightarrow> u64 \<Rightarrow> 'b world \<Rightarrow> (InclusionError + InclusionOutcome) \<times> 'b world" where
  "call_await B h deadline_ms w =
     (let (r, b) = be_await_inclusion B (wd_backend w) h deadline_ms
      in (r, w\<lparr>wd_backend := b, wd_calls := wd_calls w @ [Await_call h deadline_ms]\<rparr>))"

record SettlementExtras =
  se_block_number :: "u64 option"
  se_effective_gas_price_wei :: "u256 option"
  se_gas_used :: "u64 option"
  se_realized_balance_delta :: "i256 option"
  se_revert_reason :: "string option"

definition no_extras :: SettlementExtras where
  "no_extras = \<lparr>se_block_number = None, se_effective_gas_price_wei = None, se_gas_used = None,
     se_realized_balance_delta = None, se_revert_reason = None\<rparr>"

abbreviation because :: "string \<Rightarrow> SettlementExtras" where
  "because m \<equiv> no_extras\<lparr>se_revert_reason := Some m\<rparr>"

definition mk :: "Plan \<Rightarrow> SettlementStatus \<Rightarrow> u256 option \<Rightarrow> Timestamps \<Rightarrow> SettlementExtras \<Rightarrow> Settlement" where
  "mk plan status tx_hash ts extras =
     \<lparr>st_trace_id = ep_trace_id plan, st_status = status, st_tx_hash = tx_hash,
      st_block_number = se_block_number extras, st_effective_gas_price_wei = se_effective_gas_price_wei extras,
      st_gas_used = se_gas_used extras, st_realized_balance_delta = se_realized_balance_delta extras,
      st_revert_reason = se_revert_reason extras, st_timestamps = ts, st_dry_run = ep_dry_run plan\<rparr>"

definition preflight_stage :: "'b ExecutorBackend \<Rightarrow> Plan \<Rightarrow> Timestamps \<Rightarrow> 'b world \<Rightarrow> string option \<times> Timestamps \<times> 'b world" where
  \<comment> \<open>step 2: the text of the rejection, if any\<close>
  "preflight_stage B plan ts w =
     (if ep_dry_run plan \<or> ep_require_preflight plan then
        (let (r, w) = call_preflight B plan w;
             (t, w) = ts_now B w;
             ts = ts\<lparr>preflight_ns := Some t\<rparr>
         in case r of
              Inr delta \<Rightarrow>
                (if sint delta < sint (ep_expected_balance_delta_floor plan)
                 then (Some (preflight_error_text (DeltaBelowFloor delta (ep_expected_balance_delta_floor plan))), ts, w)
                 else (None, ts, w))
            | Inl err \<Rightarrow> (Some (preflight_error_text err), ts, w))
      else (None, ts, w))"

definition inclusion_stage :: "'b ExecutorBackend \<Rightarrow> Plan \<Rightarrow> u256 \<Rightarrow> Timestamps \<Rightarrow> 'b world \<Rightarrow> 'b world" where
  \<comment> \<open>step 5\<close>
  "inclusion_stage B plan tx_hash ts w =
     (let (r, w) = call_await B tx_hash (ep_deadline_ms plan) w
      in case r of
           Inr (IO_Mined receipt) \<Rightarrow>
             (let (t, w) = ts_now B w;
                  ts = ts\<lparr>included_ns := Some t\<rparr>;
                  status = (if ir_status receipt then Included else Reverted)
              in emit (mk plan status (Some tx_hash) ts
                   \<lparr>se_block_number = Some (ir_block_number receipt),
                    se_effective_gas_price_wei = Some (ir_effective_gas_price_wei receipt),
                    se_gas_used = Some (ir_gas_used receipt),
                    se_realized_balance_delta = Some (ir_realized_balance_delta receipt),
                    se_revert_reason = ir_revert_reason receipt\<rparr>) w)
         | Inr IO_Replaced \<Rightarrow> emit (mk plan Replaced (Some tx_hash) ts no_extras) w
         | Inr IO_Dropped \<Rightarrow> emit (mk plan Dropped (Some tx_hash) ts (because ''deadline elapsed without inclusion'')) w
         | Inl err \<Rightarrow> emit (mk plan BroadcastFailed (Some tx_hash) ts
             (because (''inclusion watch error: '' @ inclusion_error_text err))) w)"

definition submit_stage :: "'b ExecutorBackend \<Rightarrow> Plan \<Rightarrow> Timestamps \<Rightarrow> 'b world \<Rightarrow> 'b world" where
  \<comment> \<open>steps 3 and 4\<close>
  "submit_stage B plan ts w =
     (let (r, w) = call_submit B plan w
      in case r of
           Inr tx_hash \<Rightarrow>
             (let (t, w) = ts_now B w;
                  ts = ts\<lparr>broadcast_ns := Some t\<rparr>;
                  w = emit (mk plan Submitted (Some tx_hash) ts no_extras) w
              in inclusion_stage B plan tx_hash ts w)
         | Inl err \<Rightarrow> emit (mk plan BroadcastFailed None ts (because (submit_error_text err))) w)"

definition run_one_plan :: "'b ExecutorBackend \<Rightarrow> bool \<Rightarrow> Plan \<Rightarrow> 'b world \<Rightarrow> 'b world" where
  \<comment> \<open>\<open>limited\<close>: a rate limiter is configured\<close>
  "run_one_plan B limited plan w =
     (let (t0, w) = ts_now B w;
          ts = \<lparr>received_ns = t0, preflight_ns = None, broadcast_ns = None, included_ns = None\<rparr>;
          now_ms = t0 div 1000000
      in
      if ep_deadline_ms plan < now_ms
      then emit (mk plan Dropped None ts (because ''deadline expired before broadcast'')) w
      else case validate_submission_policy plan of
        Some reason \<Rightarrow> emit (mk plan Dropped None ts (because reason)) w
      | None \<Rightarrow>
          (let (failure, ts, w) = preflight_stage B plan ts w
           in case failure of
                Some m \<Rightarrow> emit (mk plan PreflightFailed None ts (because m)) w
              | None \<Rightarrow>
                  if ep_dry_run plan then emit (mk plan PreflightPassed None ts no_extras) w
                  else
                    let (admitted, w) = (if limited then call_limit B w else (True, w))
                    in if \<not> admitted
                       then emit (mk plan Dropped None ts
                         (because ''tx-rate ceiling exceeded; submission blocked by kill-switch'')) w
                       else submit_stage B plan ts w))"

fun serve_with_rate_ceiling :: "'b ExecutorBackend \<Rightarrow> u32 \<Rightarrow> Plan list \<Rightarrow> 'b world \<Rightarrow> 'b world" where
  \<comment> \<open>the plans in the order the channel delivers them, until it is closed\<close>
  "serve_with_rate_ceiling B ceiling [] w = w"
| "serve_with_rate_ceiling B ceiling (plan # plans) w =
     serve_with_rate_ceiling B ceiling plans (run_one_plan B (ceiling \<noteq> 0) plan w)"

definition serve :: "'b ExecutorBackend \<Rightarrow> Plan list \<Rightarrow> 'b world \<Rightarrow> 'b world" where
  "serve B plans w = serve_with_rate_ceiling B 0 plans w"

datatype bus_message = Plan_message Plan | Other_message | Lagged nat

fun plans_of :: "bus_message list \<Rightarrow> Plan list" where
  \<comment> \<open>the routing loop of \<open>serve_message_bus\<close>\<close>
  "plans_of [] = []"
| "plans_of (Plan_message p # ms) = p # plans_of ms"
| "plans_of (Other_message # ms) = plans_of ms"
| "plans_of (Lagged k # ms) = plans_of ms"

definition serve_message_bus :: "'b ExecutorBackend \<Rightarrow> bus_message list \<Rightarrow> u32 \<Rightarrow> 'b world \<Rightarrow> 'b world" where
  "serve_message_bus B ms ceiling w = serve_with_rate_ceiling B ceiling (plans_of ms) w"


section \<open>The specification\<close>

text \<open>The settlements of one plan: one refusal, or a submission followed by its outcome.\<close>

definition about_plan :: "Plan \<Rightarrow> Settlement \<Rightarrow> bool" where
  "about_plan p s \<longleftrightarrow> st_trace_id s = ep_trace_id p \<and> st_dry_run s = ep_dry_run p"

inductive lifecycle :: "Plan \<Rightarrow> Settlement list \<Rightarrow> bool" for p where
  refused: "about_plan p s \<Longrightarrow> st_tx_hash s = None \<Longrightarrow>
    st_status s \<in> {PreflightFailed, BroadcastFailed, Dropped} \<Longrightarrow> st_revert_reason s \<noteq> None \<Longrightarrow> lifecycle p [s]"
| rehearsed: "about_plan p s \<Longrightarrow> ep_dry_run p \<Longrightarrow> st_tx_hash s = None \<Longrightarrow> st_status s = PreflightPassed \<Longrightarrow> lifecycle p [s]"
| watched: "about_plan p s \<Longrightarrow> about_plan p s' \<Longrightarrow> \<not> ep_dry_run p \<Longrightarrow> st_status s = Submitted \<Longrightarrow> st_tx_hash s = Some h \<Longrightarrow>
    st_tx_hash s' = Some h \<Longrightarrow> st_status s' \<in> {Included, Reverted, Replaced, Dropped, BroadcastFailed} \<Longrightarrow>
    lifecycle p [s, s']"

inductive_cases lifecycleE: "lifecycle p ss"

text \<open>What has to hold of a plan, and of the calls made for it, for it to reach the signer.\<close>

definition broadcastable :: "Plan \<Rightarrow> bool" where
  "broadcastable p \<longleftrightarrow> \<not> ep_dry_run p \<and> (\<exists>h. ep_admission_hash p = Some h \<and> h \<noteq> 0)
     \<and> (if ep_submission_lane p = LTimeboost
        then (\<exists>bid. ep_timeboost_bid_wei p = Some bid \<and> 0 < unat bid
               \<and> int (unat bid) < sint (ep_expected_balance_delta_floor p))
        else (\<forall>bid. ep_timeboost_bid_wei p = Some bid \<longrightarrow> bid = 0))"

fun passing :: "Plan \<Rightarrow> backend_call \<Rightarrow> bool" where
  "passing p (Preflight_call q (Inr delta)) = (q = p \<and> sint (ep_expected_balance_delta_floor p) \<le> sint delta)"
| "passing p _ = False"

fun gated :: "bool \<Rightarrow> Plan \<Rightarrow> backend_call list \<Rightarrow> backend_call \<Rightarrow> bool" where
  "gated limited p cs (Submit_call q r) \<longleftrightarrow> q = p \<and> broadcastable p
     \<and> (ep_require_preflight p \<longrightarrow> list_ex (passing p) cs) \<and> (limited \<longrightarrow> Limit_call True \<in> set cs)"
| "gated limited p cs _ \<longleftrightarrow> True"

definition new_calls :: "'b world \<Rightarrow> 'b world \<Rightarrow> backend_call list" where
  "new_calls w w' = drop (length (wd_calls w)) (wd_calls w')"

section \<open>Stages\<close>

lemma emit_simps [simp]: "wd_out (emit s w) = wd_out w @ [s]" "wd_calls (emit s w) = wd_calls w"
  by (simp_all add: emit_def)

lemma mk_simps [simp]: "st_status (mk p st h ts e) = st" "st_tx_hash (mk p st h ts e) = h" "about_plan p (mk p st h ts e)"
  "st_revert_reason (mk p st h ts e) = se_revert_reason e"
  by (simp_all add: mk_def about_plan_def)

lemma ts_now_quiet: "ts_now B w = (t, w') \<Longrightarrow> wd_out w' = wd_out w \<and> wd_calls w' = wd_calls w"
  by (auto simp: ts_now_def Let_def split: prod.splits)

lemma call_quiet:
  "call_preflight B p w = (r, w1) \<Longrightarrow> wd_out w1 = wd_out w \<and> wd_calls w1 = wd_calls w @ [Preflight_call p r]"
  "call_limit B w = (b, w2) \<Longrightarrow> wd_out w2 = wd_out w \<and> wd_calls w2 = wd_calls w @ [Limit_call b]"
  "call_submit B p w = (sr, w3) \<Longrightarrow> wd_out w3 = wd_out w \<and> wd_calls w3 = wd_calls w @ [Submit_call p sr]"
  "call_await B h d w = (ar, w4) \<Longrightarrow> wd_out w4 = wd_out w \<and> wd_calls w4 = wd_calls w @ [Await_call h d]"
  by (auto simp: call_preflight_def call_limit_def call_submit_def call_await_def Let_def split: prod.splits)

lemma preflight_stage_quiet:
  assumes "preflight_stage B p ts w = (f, ts', w')"
  shows "wd_out w' = wd_out w" "\<exists>cs. wd_calls w' = wd_calls w @ cs \<and> (\<forall>c\<in>set cs. \<exists>r. c = Preflight_call p r)
    \<and> (f = None \<and> (ep_dry_run p \<or> ep_require_preflight p) \<longrightarrow> list_ex (passing p) cs)"
proof -
  have "wd_out w' = wd_out w \<and> (\<exists>cs. wd_calls w' = wd_calls w @ cs \<and> (\<forall>c\<in>set cs. \<exists>r. c = Preflight_call p r)
    \<and> (f = None \<and> (ep_dry_run p \<or> ep_require_preflight p) \<longrightarrow> list_ex (passing p) cs))"
  proof (cases "ep_dry_run p \<or> ep_require_preflight p")
    case True
    obtain r w1 where c: "call_preflight B p w = (r, w1)" by force
    obtain t w2 where t: "ts_now B w1 = (t, w2)" by force
    show ?thesis
      using assms True c t call_quiet(1) [OF c] ts_now_quiet [OF t]
      by (cases r) (auto simp: preflight_stage_def Let_def split: if_splits)
  next
    case False
    then show ?thesis using assms by (auto simp: preflight_stage_def intro: exI [of _ "[]"])
  qed
  then show "wd_out w' = wd_out w" "\<exists>cs. wd_calls w' = wd_calls w @ cs \<and> (\<forall>c\<in>set cs. \<exists>r. c = Preflight_call p r)
    \<and> (f = None \<and> (ep_dry_run p \<or> ep_require_preflight p) \<longrightarrow> list_ex (passing p) cs)" by blast+
qed

lemma inclusion_stage_out:
  "\<exists>s. wd_out (inclusion_stage B p h ts w) = wd_out w @ [s] \<and> about_plan p s \<and> st_tx_hash s = Some h
     \<and> st_status s \<in> {Included, Reverted, Replaced, Dropped, BroadcastFailed}
     \<and> wd_calls (inclusion_stage B p h ts w) = wd_calls w @ [Await_call h (ep_deadline_ms p)]"
proof -
  obtain r w1 where c: "call_await B h (ep_deadline_ms p) w = (r, w1)" by force
  note q = call_quiet(4) [OF c]
  show ?thesis
  proof (cases r)
    case (Inl e)
    then show ?thesis using c q by (simp add: inclusion_stage_def)
  next
    case (Inr oc)
    show ?thesis
    proof (cases oc)
      case (IO_Mined rc)
      obtain t w2 where t: "ts_now B w1 = (t, w2)" by force
      show ?thesis using c q Inr IO_Mined t ts_now_quiet [OF t] by (simp add: inclusion_stage_def)
    qed (use c q Inr in \<open>simp_all add: inclusion_stage_def\<close>)
  qed
qed

lemma submit_stage_out:
  assumes "\<not> ep_dry_run p"
  shows "\<exists>ss r cs. wd_out (submit_stage B p ts w) = wd_out w @ ss \<and> lifecycle p ss
    \<and> wd_calls (submit_stage B p ts w) = wd_calls w @ Submit_call p r # cs \<and> (\<forall>c\<in>set cs. \<exists>h d. c = Await_call h d)"
proof -
  obtain r w1 where c: "call_submit B p w = (r, w1)" by force
  note q = call_quiet(3) [OF c]
  show ?thesis
  proof (cases r)
    case (Inl e)
    then show ?thesis using c q by (auto simp: submit_stage_def intro!: lifecycle.refused)
  next
    case (Inr h)
    obtain t w2 where t: "ts_now B w1 = (t, w2)" by force
    let ?ts = "ts\<lparr>broadcast_ns := Some t\<rparr>"
    let ?s = "mk p Submitted (Some h) ?ts no_extras"
    obtain s where s: "wd_out (inclusion_stage B p h ?ts (emit ?s w2)) = wd_out (emit ?s w2) @ [s]" "about_plan p s"
      "st_tx_hash s = Some h" "st_status s \<in> {Included, Reverted, Replaced, Dropped, BroadcastFailed}"
      "wd_calls (inclusion_stage B p h ?ts (emit ?s w2)) = wd_calls (emit ?s w2) @ [Await_call h (ep_deadline_ms p)]"
      using inclusion_stage_out by blast
    have run: "submit_stage B p ts w = inclusion_stage B p h ?ts (emit ?s w2)"
      using c Inr t by (simp add: submit_stage_def Let_def)
    have "lifecycle p [?s, s]" using s assms by (intro lifecycle.watched) auto
    then show ?thesis using run s(1,5) q ts_now_quiet [OF t] by auto
  qed
qed

lemma policy_broadcastable:
  assumes "validate_submission_policy p = None" "\<not> ep_dry_run p"
  shows "broadcastable p"
proof -
  have s: "bid < flr \<Longrightarrow> 0 < sint flr \<Longrightarrow> int (unat bid) < sint flr" for bid flr :: u256
    by (simp add: sint_pos_unat word_less_def)
  show ?thesis
    using assms s
    by (auto simp: validate_submission_policy_def broadcastable_def or_default_def Let_def unat_gt_0 word_gt_0
        split: option.splits if_splits)
qed

text \<open>One plan through the actor: what is emitted, and which calls are made on its behalf.\<close>

lemma run_one_plan_out:
  "\<exists>ss cs. wd_out (run_one_plan B limited p w) = wd_out w @ ss \<and> lifecycle p ss
     \<and> wd_calls (run_one_plan B limited p w) = wd_calls w @ cs \<and> list_all (gated limited p cs) cs"
proof -
  obtain t0 w0 where t0: "ts_now B w = (t0, w0)" by force
  note q0 = ts_now_quiet [OF t0]
  let ?ts = "\<lparr>received_ns = t0, preflight_ns = None, broadcast_ns = None, included_ns = None\<rparr>"
  show ?thesis
  proof (cases "ep_deadline_ms p < t0 div 1000000 \<or> validate_submission_policy p \<noteq> None")
    case True
    then show ?thesis using t0 q0 by (auto simp: run_one_plan_def Let_def intro!: lifecycle.refused split: if_splits)
  next
    case False
    then have pol: "validate_submission_policy p = None" by blast
    obtain f ts1 w1 where pf: "preflight_stage B p ?ts w0 = (f, ts1, w1)" by (metis prod_cases3)
    obtain cs where cs: "wd_calls w1 = wd_calls w0 @ cs" "\<forall>c\<in>set cs. \<exists>r. c = Preflight_call p r"
      "f = None \<and> (ep_dry_run p \<or> ep_require_preflight p) \<longrightarrow> list_ex (passing p) cs"
      using preflight_stage_quiet(2) [OF pf] by blast
    have quiet: "list_all (gated limited p ds) cs" for ds using cs(2) by (fastforce simp: list_all_iff)
    note q1 = preflight_stage_quiet(1) [OF pf]
    show ?thesis
    proof (cases "f = None \<and> \<not> ep_dry_run p")
      case False
      then show ?thesis using t0 q0 q1 pf pol \<open>\<not> (_ \<or> _)\<close> cs(1) quiet
        by (cases f) (auto simp: run_one_plan_def Let_def intro: lifecycle.refused lifecycle.rehearsed)
    next
      case True
      obtain b w2 where lim: "(if limited then call_limit B w1 else (True, w1)) = (b, w2)" by force
      obtain ls where ls: "wd_out w2 = wd_out w1" "wd_calls w2 = wd_calls w1 @ ls" "set ls \<subseteq> {Limit_call b}"
        "limited \<longrightarrow> Limit_call b \<in> set ls"
        using lim call_quiet(2) [of B w1 b w2] by (cases limited) auto
      have run: "run_one_plan B limited p w = (if \<not> b
          then emit (mk p Dropped None ts1 (because ''tx-rate ceiling exceeded; submission blocked by kill-switch'')) w2
          else submit_stage B p ts1 w2)"
        using t0 pol \<open>\<not> (_ \<or> _)\<close> pf True lim by (simp add: run_one_plan_def Let_def)
      have ql: "list_all (gated limited p ds) ls" for ds using ls(3) by (auto simp: list_all_iff)
      show ?thesis
      proof (cases b)
        case False
        then show ?thesis using run ls q0 q1 cs(1) quiet ql by (auto intro!: lifecycle.refused)
      next
        case b: True
        obtain ss r as where ss: "wd_out (submit_stage B p ts1 w2) = wd_out w2 @ ss" "lifecycle p ss"
          "wd_calls (submit_stage B p ts1 w2) = wd_calls w2 @ Submit_call p r # as" "\<forall>c\<in>set as. \<exists>h d. c = Await_call h d"
          using submit_stage_out True by metis
        let ?cs = "cs @ ls @ Submit_call p r # as"
        have "broadcastable p" using policy_broadcastable pol True by blast
        then have "gated limited p ?cs (Submit_call p r)" using cs(3) True ls(4) b by auto
        moreover have "list_all (gated limited p ?cs) as" using ss(4) by (fastforce simp: list_all_iff)
        ultimately have "list_all (gated limited p ?cs) ?cs" using quiet [of ?cs] ql [of ?cs] by simp
        then show ?thesis using run b ss ls q0 q1 cs(1) by (intro exI [of _ ss] exI [of _ ?cs]) simp
      qed
    qed
  qed
qed

text \<open>
  C6. A plan reaches the signer only when it is no dry run, it carries a nonzero admission hash, a Timeboost
  bid is positive and below the profit floor (and absent or zero on every other lane), a preflight it
  requires has returned a balance delta at or above its floor, and, under a rate ceiling, the limiter
  has admitted it; and no other plan is ever submitted on its behalf.
\<close>

theorem broadcast_only_admitted:
  "list_all (gated limited p (new_calls w (run_one_plan B limited p w))) (new_calls w (run_one_plan B limited p w))"
proof -
  obtain cs where "wd_calls (run_one_plan B limited p w) = wd_calls w @ cs" "list_all (gated limited p cs) cs"
    using run_one_plan_out [of B limited p w] by blast
  then show ?thesis by (simp add: new_calls_def)
qed

text \<open>
  C7. Every plan the actor is sent gets its settlements, in the order of the plans: one refusal with a reason
  and no transaction hash, one dry-run success, or a submission followed by exactly one outcome with
  the same hash.
\<close>

theorem settlements_follow_lifecycle:
  "\<exists>sss. wd_out (serve_with_rate_ceiling B ceiling plans w) = wd_out w @ concat sss \<and> list_all2 lifecycle plans sss"
proof (induction plans arbitrary: w)
  case Nil
  show ?case by simp
next
  case (Cons p ps)
  let ?w = "run_one_plan B (ceiling \<noteq> 0) p w"
  obtain ss where ss: "wd_out ?w = wd_out w @ ss" "lifecycle p ss" using run_one_plan_out by blast
  obtain sss where "wd_out (serve_with_rate_ceiling B ceiling ps ?w) = wd_out ?w @ concat sss" "list_all2 lifecycle ps sss"
    using Cons.IH by blast
  with ss show ?case by (intro exI [of _ "ss # sss"]) simp
qed

end
