(* ===== verification/Mega_Bits.thy ===== *)
theory Mega_Bits
  imports U256_Utils
begin

text \<open>
  The bit scans of the Stylus crate: \<open>src/stylus/core/src/bit_math.rs\<close> and the bit half of
  \<open>mega_mev_optimization.rs\<close>. Both scan the four 64-bit limbs of a \<open>U256\<close>, the first from the top,
  the second from the bottom. The theory shows that the scans count the leading and trailing zeros of
  the whole word, and what follows for the powers of two around a value.
\<close>

section \<open>Limb scans\<close>

datatype BitMathError = ZeroInput

definition into_limbs :: "u256 \<Rightarrow> u64 list" where
  "into_limbs x = [ucast x, ucast (drop_bit 64 x), ucast (drop_bit 128 x), ucast (drop_bit 192 x)]"

fun leading_scan :: "u64 list \<Rightarrow> nat \<Rightarrow> u16" where
  \<comment> \<open>the \<open>while index > 0\<close> loop\<close>
  "leading_scan limbs 0 = 256"
| "leading_scan limbs (Suc index) =
     (let limb = limbs ! index
      in if limb \<noteq> 0
         then word_of_nat (length limbs - 1 - index) * 64 + word_of_nat (leading_zeros limb)
         else leading_scan limbs index)"

definition limb_leading_zeros :: "u256 \<Rightarrow> u16" where
  \<comment> \<open>\<open>bit_math::leading_zeros\<close>\<close>
  "limb_leading_zeros x = leading_scan (into_limbs x) 4"

definition limb_most_significant_bit :: "u256 \<Rightarrow> (u8, BitMathError) outcome" where
  "limb_most_significant_bit x = (if x = 0 then Err ZeroInput else Ok (ucast (255 - limb_leading_zeros x)))"

fun trailing_scan :: "u64 list \<Rightarrow> u16 \<Rightarrow> u256" where
  \<comment> \<open>the loop over the enumerated limbs; the second argument is the index\<close>
  "trailing_scan [] index = 256"
| "trailing_scan (limb # limbs) index =
     (if limb \<noteq> 0 then ucast (index * 64 + word_of_nat (trailing_zeros limb))
      else trailing_scan limbs (index + 1))"

definition clz256 :: "u256 \<Rightarrow> u256" where
  "clz256 x = ucast (limb_leading_zeros x)"

definition ctz256 :: "u256 \<Rightarrow> u256" where
  "ctz256 x = trailing_scan (into_limbs x) 0"

definition msb_index :: "u256 \<Rightarrow> u256 option" where
  "msb_index x = (case limb_most_significant_bit x of Ok i \<Rightarrow> Some (ucast i) | _ \<Rightarrow> None)"

definition lsb_index :: "u256 \<Rightarrow> u256 option" where
  "lsb_index x = (if x = 0 then None else Some (ctz256 x))"

definition mm_bit_length :: "u256 \<Rightarrow> u256" where
  "mm_bit_length x = (if x = 0 then 0 else 256 - clz256 x)"

definition log2_floor :: "u256 \<Rightarrow> u256 option" where
  "log2_floor x = msb_index x"

definition is_power_of_two :: "u256 \<Rightarrow> bool" where
  "is_power_of_two x \<longleftrightarrow> x \<noteq> 0 \<and> x AND (x - 1) = 0"

definition log2_ceil :: "u256 \<Rightarrow> u256 option" where
  "log2_ceil x =
     (if x = 0 then None
      else case msb_index x of
        None \<Rightarrow> None
      | Some flr \<Rightarrow> if is_power_of_two x then Some flr else Some (flr + 1))"

definition floor_power_of_two :: "u256 \<Rightarrow> u256" where
  "floor_power_of_two x = (case msb_index x of Some index \<Rightarrow> push_bit (unat index) 1 | None \<Rightarrow> 0)"

definition lowest_bit :: "u256 \<Rightarrow> u256" where
  "lowest_bit x = (if x = 0 then 0 else push_bit (unat (ctz256 x)) 1)"

datatype PowerOfTwoError = PowerOverflow

definition next_power_of_two :: "u256 \<Rightarrow> (u256, PowerOfTwoError) outcome" where
  "next_power_of_two x =
     (if x \<le> 1 then Ok 1
      else
        let previous = x - 1;
            n = mm_bit_length previous
        in if 256 \<le> n then Err PowerOverflow else Ok (push_bit (unat n) 1))"

definition previous_power_of_two :: "u256 \<Rightarrow> u256" where
  "previous_power_of_two x = floor_power_of_two x"

definition average :: "u256 \<Rightarrow> u256 \<Rightarrow> u256" where
  "average a b = (a AND b) + drop_bit 1 (a XOR b)"

definition clamp :: "u256 \<Rightarrow> u256 \<Rightarrow> u256 \<Rightarrow> u256 option" where
  "clamp x lo hi = (if hi < lo then None else Some (min (max x lo) hi))"

definition magnitude_bucket :: "u256 \<Rightarrow> u256" where
  "magnitude_bucket x = (case log2_floor x of Some v \<Rightarrow> v | None \<Rightarrow> 0)"

definition reserve_imbalance_bucket :: "u256 \<Rightarrow> u256 \<Rightarrow> u256" where
  "reserve_imbalance_bucket reserve_a reserve_b =
     (if reserve_a = 0 \<or> reserve_b = 0 then u_max
      else
        let a = magnitude_bucket reserve_a;
            b = magnitude_bucket reserve_b
        in if b < a then a - b else b - a)"

definition reject_by_reserve_shape :: "u256 \<Rightarrow> u256 \<Rightarrow> u256 \<Rightarrow> u256 \<Rightarrow> bool" where
  "reject_by_reserve_shape reserve_a reserve_b min_bit_length max_imbalance_bucket =
     (if mm_bit_length reserve_a < min_bit_length then True
      else if mm_bit_length reserve_b < min_bit_length then True
      else max_imbalance_bucket < reserve_imbalance_bucket reserve_a reserve_b)"

definition liquidity_class :: "u256 \<Rightarrow> u256 \<Rightarrow> u256" where
  "liquidity_class reserve_a reserve_b = mm_bit_length (min reserve_a reserve_b)"

definition first_non_zero_byte_offset :: "u256 \<Rightarrow> u256" where
  "first_non_zero_byte_offset x = drop_bit 3 (clz256 x)"

definition leading_zero_bytes :: "u256 \<Rightarrow> u256" where
  "leading_zero_bytes x = drop_bit 3 (clz256 x)"

section \<open>The scans count zeros of the whole word\<close>

lemma unat_drop: "unat (drop_bit k (x :: u256)) = unat x div 2 ^ k"
  by (simp add: unat_drop_bit_eq) (simp add: drop_bit_eq_div)

lemma unat_limb0: "unat (ucast (x :: u256) :: u64) = unat x mod 2 ^ 64"
  by (simp add: unsigned_ucast_eq take_bit_eq_mod)

lemma bit_length_0 [simp]: "bit_length 0 = 0"
  by (simp add: bit_length.simps)

lemma bit_length_unique: "2 ^ k \<le> n \<Longrightarrow> n < 2 ^ Suc k \<Longrightarrow> bit_length n = Suc k"
proof -
  assume n: "2 ^ k \<le> n" "n < 2 ^ Suc k"
  then have "n \<noteq> 0" by (metis not_one_le_zero one_le_power one_le_numeral order_trans)
  from bit_length_bounds [OF this] have b: "2 ^ (bit_length n - 1) \<le> n" "n < 2 ^ bit_length n" "0 < bit_length n"
    by blast+
  have "2 ^ k < (2 ^ bit_length n :: nat)" "2 ^ (bit_length n - 1) < (2 ^ Suc k :: nat)"
    using n b by linarith+
  then have "k < bit_length n" "bit_length n - 1 < Suc k" by (simp_all only: power_strict_increasing_iff one_less_numeral_iff semiring_norm)
  with b(3) show ?thesis by linarith
qed

lemma bit_length_shift: "n div 2 ^ k \<noteq> 0 \<Longrightarrow> bit_length n = bit_length (n div 2 ^ k) + k"
proof -
  assume nz: "n div 2 ^ k \<noteq> 0"
  let ?b = "bit_length (n div 2 ^ k)"
  note b = bit_length_bounds [OF nz]
  obtain j where j: "?b = Suc j" using b by (cases ?b) auto
  have "2 ^ j * 2 ^ k \<le> n" using b j by (simp add: less_eq_div_iff_mult_less_eq)
  moreover have "n < 2 ^ Suc j * 2 ^ k" using b j by (simp add: div_less_iff_less_mult)
  ultimately have "bit_length n = Suc (j + k)" by (intro bit_length_unique) (simp_all add: power_add mult_ac)
  then show ?thesis by (simp add: j)
qed

lemma scan_value:
  assumes "l = n div 2 ^ k" "l \<noteq> 0" "l < 2 ^ 64" "(c + 1) * 64 + k = 256"
  shows "c * 64 + (64 - bit_length l) = 256 - bit_length n" "c * 64 + (64 - bit_length l) < 256"
proof -
  have "bit_length n = bit_length l + k" using assms bit_length_shift by metis
  moreover have "bit_length l \<le> 64" using assms(3) by (rule bit_length_le)
  moreover have "0 < bit_length l" using bit_length_bounds [OF assms(2)] by blast
  moreover have "c * 64 + 64 + k = 256" using assms(4) by simp
  ultimately show "c * 64 + (64 - bit_length l) = 256 - bit_length n" "c * 64 + (64 - bit_length l) < 256"
    by auto
qed

lemma small_div: "n < 2 ^ (k + 64) \<Longrightarrow> n div 2 ^ k < (2 :: nat) ^ 64"
  by (simp add: div_less_iff_less_mult power_add mult.commute)

lemma limb_cases:
  assumes "x \<noteq> 0"
  obtains (limbs) i where "i < 4" "into_limbs x ! i \<noteq> 0" "unat (into_limbs x ! i) = unat x div 2 ^ (64 * i)"
    "\<forall>j. i < j \<and> j < 4 \<longrightarrow> into_limbs x ! j = 0"
proof -
  let ?n = "unat x"
  have l: "unat (into_limbs x ! i) = (?n div 2 ^ (64 * i)) mod 2 ^ 64" if "i < 4" for i
  proof -
    have "i = 0 \<or> i = 1 \<or> i = 2 \<or> i = 3" using that by linarith
    then show ?thesis by (elim disjE) (simp_all add: into_limbs_def unat_limb0 unat_drop)
  qed
  define i where "i = (GREATEST j. j < 4 \<and> ?n div 2 ^ (64 * j) \<noteq> 0)"
  have ex: "0 < (4 :: nat) \<and> ?n div 2 ^ (64 * 0) \<noteq> 0" using assms by (simp add: unat_eq_zero)
  have bd: "\<And>y. y < 4 \<and> ?n div 2 ^ (64 * y) \<noteq> 0 \<Longrightarrow> y \<le> 4" by simp
  have i: "i < 4" "?n div 2 ^ (64 * i) \<noteq> 0"
    using GreatestI_nat [of "\<lambda>j. j < 4 \<and> ?n div 2 ^ (64 * j) \<noteq> 0" 0 4, OF ex bd] by (simp_all add: i_def)
  have above: "?n div 2 ^ (64 * j) = 0" if "i < j" "j < 4" for j
    using that Greatest_le_nat [of "\<lambda>j. j < 4 \<and> ?n div 2 ^ (64 * j) \<noteq> 0" j 4] by (fastforce simp: i_def)
  have "?n < 2 ^ (64 * i + 64)"
  proof (cases "i = 3")
    case True
    then show ?thesis using unat_bound_256 [of x] by simp
  next
    case False
    then have "?n div 2 ^ (64 * (i + 1)) = 0" using i(1) by (intro above) auto
    then show ?thesis by (auto simp: div_eq_0_iff algebra_simps)
  qed
  then have "unat (into_limbs x ! i) = ?n div 2 ^ (64 * i)" using l [OF i(1)] by (simp add: small_div)
  moreover from this i(2) have "into_limbs x ! i \<noteq> 0" by (metis unat_0)
  moreover have "into_limbs x ! j = 0" if "i < j" "j < 4" for j
    using l [OF that(2)] above [OF that] by (simp add: unat_eq_zero)
  ultimately show thesis using limbs i(1) by blast
qed

lemma leading_scan_skip:
  "i < m \<Longrightarrow> (\<forall>j. i < j \<and> j < m \<longrightarrow> ls ! j = 0) \<Longrightarrow> leading_scan ls m = leading_scan ls (Suc i)"
proof (induction m)
  case (Suc m)
  show ?case
  proof (cases "i = m")
    case False
    then have "ls ! m = 0" "leading_scan ls m = leading_scan ls (Suc i)" using Suc by auto
    then show ?thesis by simp
  qed simp
qed simp

lemma leading_scan_zeros: "(\<forall>j < m. ls ! j = 0) \<Longrightarrow> leading_scan ls m = 256"
  by (induction m) auto

lemma into_limbs_0: "j < 4 \<Longrightarrow> into_limbs 0 ! j = 0"
  by (auto simp: into_limbs_def nth_Cons split: nat.splits)

lemma unat_limb_leading_zeros: "unat (limb_leading_zeros x) = 256 - bit_length (unat x)"
proof (cases "x = 0")
  case True
  then show ?thesis by (simp add: limb_leading_zeros_def leading_scan_zeros into_limbs_0)
next
  case False
  obtain i where i: "i < 4" "into_limbs x ! i \<noteq> 0" "unat (into_limbs x ! i) = unat x div 2 ^ (64 * i)"
    "\<forall>j. i < j \<and> j < 4 \<longrightarrow> into_limbs x ! j = 0"
    using limb_cases [OF False] by blast
  let ?l = "into_limbs x ! i"
  have len: "length (into_limbs x) = 4" by (simp add: into_limbs_def)
  have nz: "unat ?l \<noteq> 0" using i(2) by (simp add: unat_eq_zero)
  have "(3 - i + 1) * 64 + 64 * i = 256" using i(1) by (simp add: algebra_simps)
  note v = scan_value [OF i(3) nz unat_bound [of ?l, simplified] this]
  have "limb_leading_zeros x = word_of_nat ((3 - i) * 64 + (64 - bit_length (unat ?l)))"
    using leading_scan_skip [OF i(1,4)] i(2) len by (simp add: limb_leading_zeros_def leading_zeros_def)
  moreover have "unat (word_of_nat ((3 - i) * 64 + (64 - bit_length (unat ?l))) :: u16)
      = (3 - i) * 64 + (64 - bit_length (unat ?l))"
    using v(2) by (intro unat_word_of_nat) (simp add: power_numeral)
  ultimately show ?thesis using v(1) by metis
qed

lemma low_zeros_unique: "odd m \<Longrightarrow> low_zeros (2 ^ k * m) = k"
proof (induction k)
  case 0
  then show ?case by (simp add: low_zeros.simps)
next
  case (Suc k)
  moreover from this have "2 ^ Suc k * m \<noteq> 0" by (cases m) auto
  ultimately show ?case by (simp add: low_zeros.simps [of "2 * (2 ^ k * m)"] mult.assoc)
qed

lemma low_zeros_limb:
  assumes "l \<noteq> 0" "l < 2 ^ 64"
  shows "low_zeros (2 ^ k * (l + 2 ^ 64 * q)) = k + low_zeros l" "low_zeros l < 64"
proof -
  obtain m where m: "l = 2 ^ low_zeros l * m" "odd m" using low_zeros_factor [OF assms(1)] by blast
  let ?j = "low_zeros l"
  have "2 ^ ?j \<le> l" using m assms(1) by (metis dvd_imp_le dvd_triv_left gr0I)
  with assms(2) have "(2 :: nat) ^ ?j < 2 ^ 64" by linarith
  then show j: "?j < 64" by (simp only: power_strict_increasing_iff one_less_numeral_iff semiring_norm)
  then have "(2 :: nat) ^ 64 = 2 ^ ?j * (2 * 2 ^ (63 - ?j))" by (simp flip: power_add power_Suc)
  then have "2 ^ k * (l + 2 ^ 64 * q) = 2 ^ (k + ?j) * (m + 2 * (2 ^ (63 - ?j) * q))"
    using m(1) by (metis (no_types, opaque_lifting) distrib_left mult.assoc power_add)
  moreover have "odd (m + 2 * (2 ^ (63 - ?j) * q))" using m(2) by simp
  ultimately show "low_zeros (2 ^ k * (l + 2 ^ 64 * q)) = k + ?j" using low_zeros_unique by metis
qed

lemma trailing_scan_limb:
  assumes "unat x = 2 ^ (64 * i) * n" "unat (l :: u64) = n mod 2 ^ 64" "l \<noteq> 0" "i < 4"
  shows "unat (ucast ((word_of_nat i :: u16) * 64 + word_of_nat (trailing_zeros l)) :: u256) = low_zeros (unat (x :: u256))"
proof -
  have l: "unat l \<noteq> 0" using assms(3) by (simp add: unat_eq_zero)
  have "n = unat l + 2 ^ 64 * (n div 2 ^ 64)" using assms(2) by simp
  then have z: "low_zeros (unat x) = 64 * i + low_zeros (unat l)"
    using low_zeros_limb(1) [OF l unat_bound [of l, simplified], of "64 * i" "n div 2 ^ 64"] assms(1) by metis
  have b: "i * 64 + low_zeros (unat l) < 256"
    using low_zeros_limb(2) [OF l unat_bound [of l, simplified]] assms(4) by linarith
  have w: "(word_of_nat i :: u16) * 64 + word_of_nat (trailing_zeros l) = word_of_nat (i * 64 + low_zeros (unat l))"
    using assms(3) by (simp add: trailing_zeros_def)
  have "unat (word_of_nat (i * 64 + low_zeros (unat l)) :: u16) = i * 64 + low_zeros (unat l)"
    using b by (intro unat_word_of_nat) (simp add: power_numeral)
  then have "unat (ucast (word_of_nat (i * 64 + low_zeros (unat l)) :: u16) :: u256) = i * 64 + low_zeros (unat l)"
    by (simp add: unsigned_ucast_eq take_bit_nat_eq_self less_trans [OF b] power_numeral)
  then show ?thesis using z w by simp
qed

lemma trailing_scan_from:
  assumes "x \<noteq> 0" "i \<le> 4" "2 ^ (64 * i) dvd unat x"
  shows "unat (trailing_scan (map (\<lambda>j. ucast (drop_bit (64 * j) x)) [i..<4]) (word_of_nat i)) = low_zeros (unat (x :: u256))"
  using assms(2,3)
proof (induction "4 - i" arbitrary: i)
  case 0
  then have "i = 4" "2 ^ 256 dvd unat x" by auto
  then show ?case using assms(1) unat_bound_256 [of x] by (metis dvd_imp_le not_less unat_gt_0)
next
  case (Suc k)
  let ?l = "ucast (drop_bit (64 * i) x) :: u64" and ?n = "unat x div 2 ^ (64 * i)"
  have i: "i < 4" using Suc.hyps(2) by linarith
  have l: "unat ?l = ?n mod 2 ^ 64" by (simp add: unat_limb0 unat_drop)
  have n: "unat x = 2 ^ (64 * i) * ?n" using Suc.prems(2) by simp
  show ?case
  proof (cases "?l = 0")
    case False
    then show ?thesis using trailing_scan_limb [OF n l False i] i by (simp add: upt_rec)
  next
    case True
    then have "2 ^ 64 dvd ?n" using l by auto
    then have "2 ^ (64 * i) * 2 ^ 64 dvd unat x" using n by (metis mult_dvd_mono dvd_refl)
    then have "2 ^ (64 * Suc i) dvd unat x" by (simp add: power_add mult.commute)
    then have "unat (trailing_scan (map (\<lambda>j. ucast (drop_bit (64 * j) x)) [Suc i..<4]) (word_of_nat (Suc i))) = low_zeros (unat x)"
      using Suc.hyps i by (intro Suc.hyps(1)) auto
    moreover have "[i..<4] = i # [Suc i..<4]" using i by (rule upt_conv_Cons)
    ultimately show ?thesis using True by (simp add: add.commute)
  qed
qed

lemma unat_ctz256: "x \<noteq> 0 \<Longrightarrow> unat (ctz256 x) = low_zeros (unat x)"
proof -
  assume "x \<noteq> 0"
  moreover have "into_limbs x = map (\<lambda>j. ucast (drop_bit (64 * j) x)) [0..<4]"
    by (simp add: into_limbs_def upt_conv_Cons)
  ultimately show ?thesis using trailing_scan_from [of x 0] by (simp add: ctz256_def)
qed

section \<open>What the scans say about a value\<close>

lemma bit_length_le_256: "bit_length (unat (x :: u256)) \<le> 256"
  using unat_bound_256 by (rule bit_length_le)

lemma unat_clz256: "unat (clz256 x) = 256 - bit_length (unat x)"
proof -
  have "(256 :: nat) - bit_length (unat x) < 2 ^ 256" by (rule le_less_trans [of _ 256]) (simp_all add: power_numeral)
  then show ?thesis by (simp add: clz256_def unsigned_ucast_eq unat_limb_leading_zeros take_bit_nat_eq_self)
qed

lemma unat_mm_bit_length: "unat (mm_bit_length x) = bit_length (unat x)"
proof (cases "x = 0")
  case False
  have "clz256 x \<le> 256" by (simp add: word_le_nat_alt unat_clz256)
  then show ?thesis using False bit_length_le_256 [of x] by (simp add: mm_bit_length_def unat_sub unat_clz256)
qed (simp add: mm_bit_length_def)

lemma limb_msb: "x \<noteq> 0 \<Longrightarrow> \<exists>i. limb_most_significant_bit x = Ok i \<and> unat i = bit_length (unat x) - 1"
proof -
  assume x: "x \<noteq> 0"
  then have b: "0 < bit_length (unat x)" using bit_length_bounds [of "unat x"] by (simp add: unat_eq_zero)
  have "limb_leading_zeros x \<le> 255" using b by (simp add: word_le_nat_alt unat_limb_leading_zeros)
  then have "unat (255 - limb_leading_zeros x) = bit_length (unat x) - 1"
    using b bit_length_le_256 [of x] by (simp add: unat_sub unat_limb_leading_zeros)
  moreover from this have "unat (255 - limb_leading_zeros x) < 2 ^ 8"
    using bit_length_le_256 [of x] by (simp add: power_numeral)
  ultimately show ?thesis
    using x by (simp add: limb_most_significant_bit_def unsigned_ucast_eq take_bit_nat_eq_self)
qed

lemma msb_index_eq: "x \<noteq> 0 \<Longrightarrow> \<exists>i. msb_index x = Some i \<and> unat i = bit_length (unat x) - 1"
proof -
  assume "x \<noteq> 0"
  from limb_msb [OF this] obtain i where i: "limb_most_significant_bit x = Ok i" "unat i = bit_length (unat x) - 1" by blast
  have "unat i < 2 ^ 256" using unat_bound [of i] by (simp add: power_numeral)
  with i show ?thesis by (simp add: msb_index_def unsigned_ucast_eq take_bit_nat_eq_self)
qed

lemma msb_index_0 [simp]: "msb_index 0 = None"
  by (simp add: msb_index_def limb_most_significant_bit_def)

lemma unat_two_power: "k < 256 \<Longrightarrow> unat (2 ^ k :: u256) = 2 ^ k"
proof -
  assume "k < 256"
  then have "(2 :: nat) ^ k < 2 ^ LENGTH(256)" by (intro power_strict_increasing) simp_all
  then have "unat (word_of_nat (2 ^ k) :: u256) = 2 ^ k" by (rule unat_word_of_nat)
  then show ?thesis by simp
qed

lemma floor_power_bounds:
  assumes "x \<noteq> 0"
  shows "unat (floor_power_of_two x) \<le> unat x" "unat x < 2 * unat (floor_power_of_two x)"
    "unat (floor_power_of_two x) = 2 ^ (bit_length (unat x) - 1)"
proof -
  from assms have "unat x \<noteq> 0" by (simp add: unat_eq_zero)
  note b = bit_length_bounds [OF this]
  obtain i where i: "msb_index x = Some i" "unat i = bit_length (unat x) - 1" using msb_index_eq [OF assms] by blast
  have "unat i < 256" using i(2) b bit_length_le_256 [of x] by linarith
  then show e: "unat (floor_power_of_two x) = 2 ^ (bit_length (unat x) - 1)"
    using i by (simp add: floor_power_of_two_def unat_two_power)
  have "2 * 2 ^ (bit_length (unat x) - 1) = (2 :: nat) ^ bit_length (unat x)" using b by (simp flip: power_Suc)
  then show "unat (floor_power_of_two x) \<le> unat x" "unat x < 2 * unat (floor_power_of_two x)"
    using b by (simp_all add: e)
qed

lemma lowest_bit_divides:
  assumes "x \<noteq> 0"
  shows "\<exists>m. unat x = unat (lowest_bit x) * m \<and> odd m"
proof -
  have "unat x \<noteq> 0" using assms by (simp add: unat_eq_zero)
  from low_zeros_factor [OF this] obtain m where m: "unat x = 2 ^ low_zeros (unat x) * m" "odd m" by blast
  then have "2 ^ low_zeros (unat x) \<le> unat x" by (cases m) auto
  then have "low_zeros (unat x) < 256" using power_le_unat [of _ x] by simp
  with m show ?thesis using assms by (auto simp: lowest_bit_def unat_ctz256 unat_two_power)
qed

lemma next_power_bounds:
  assumes "1 < x"
  shows "case next_power_of_two x of
      Ok r \<Rightarrow> (\<exists>k. unat r = 2 ^ k) \<and> unat x \<le> unat r \<and> unat r < 2 * unat x
    | Err e \<Rightarrow> 2 ^ 255 < unat x | Panic \<Rightarrow> False"
proof -
  let ?p = "x - 1"
  have p: "unat ?p = unat x - 1" using unat_sub [of 1 x] assms by simp
  have x: "1 < unat x" using assms by (simp add: word_less_nat_alt)
  then have "unat ?p \<noteq> 0" using p by linarith
  note b = bit_length_bounds [OF this]
  have n: "256 \<le> mm_bit_length ?p \<longleftrightarrow> bit_length (unat ?p) = 256"
    using bit_length_le_256 [of ?p] by (auto simp: word_le_nat_alt unat_mm_bit_length)
  have e: "2 * 2 ^ (bit_length (unat ?p) - 1) = (2 :: nat) ^ bit_length (unat ?p)" using b by (simp flip: power_Suc)
  show ?thesis
  proof (cases "bit_length (unat ?p) = 256")
    case True
    then have "2 ^ 255 \<le> unat ?p" using b by simp
    then show ?thesis using assms n True p x by (auto simp: next_power_of_two_def Let_def word_less_nat_alt word_le_nat_alt)
  next
    case False
    then have "unat (2 ^ unat (mm_bit_length ?p) :: u256) = 2 ^ bit_length (unat ?p)"
      using bit_length_le_256 [of ?p] by (simp add: unat_mm_bit_length unat_two_power)
    moreover have "unat x \<le> 2 ^ bit_length (unat ?p)" "2 ^ bit_length (unat ?p) < 2 * unat x"
      using b e p x by linarith+
    ultimately show ?thesis using assms n False
      by (auto simp: next_power_of_two_def Let_def simp flip: word_less_nat_alt)
  qed
qed

lemma unat_average: "unat (average a b) = (unat a + unat b) div 2"
proof -
  have "(uint a AND uint b) AND (uint a XOR uint b) = 0" "(uint a AND uint b) OR (uint a XOR uint b) = uint a OR uint b"
    by (auto intro!: bit_eqI simp: bit_simps)
  then have "(uint a AND uint b) + (uint a XOR uint b) = uint a OR uint b" by (simp add: disjunctive_add_eq_or)
  then have "uint a + uint b = 2 * uint (a AND b) + uint (a XOR b)"
    using plus_and_or [of "uint a" "uint b"] by (simp add: uint_and uint_xor)
  then have "int (unat a + unat b) = int (2 * unat (a AND b) + unat (a XOR b))" by simp
  then have s: "unat a + unat b = 2 * unat (a AND b) + unat (a XOR b)" by (simp only: of_nat_eq_iff)
  have x: "unat (drop_bit 1 (a XOR b)) = unat (a XOR b) div 2" using unat_drop [of 1 "a XOR b"] by (simp only: power_one_right)
  have d: "(unat a + unat b) div 2 = unat (a AND b) + unat (a XOR b) div 2" using s by linarith
  have "(unat a + unat b) div 2 < 2 ^ 256" using unat_bound_256 [of a] unat_bound_256 [of b] by linarith
  then have "unat (a AND b) + unat (drop_bit 1 (a XOR b)) < 2 ^ 256" by (simp only: d x)
  then have "unat (average a b) = unat (a AND b) + unat (drop_bit 1 (a XOR b))"
    unfolding average_def by (simp add: unat_word_ariths)
  then show ?thesis by (simp only: d x)
qed

text \<open>
  The limb scans of the Stylus crate count the same bits as the whole-word scans of the simulator:
  on a nonzero word the most significant bit found from the top limb and the trailing zeros found from
  the bottom limb are those of \<open>most_significant_bit\<close> and \<open>least_significant_bit\<close>, and both refuse zero.
\<close>

theorem limb_scans_agree:
  "(case (limb_most_significant_bit x, most_significant_bit x) of
      (Ok i, Ok j) \<Rightarrow> i = j | (Err e, Err e') \<Rightarrow> x = 0 | _ \<Rightarrow> False)
   \<and> (case (lsb_index x, least_significant_bit x) of
      (Some i, Ok j) \<Rightarrow> unat i = unat j | (None, Err e) \<Rightarrow> x = 0 | _ \<Rightarrow> False)"
proof (cases "x = 0")
  case True
  then show ?thesis
    by (simp add: limb_most_significant_bit_def most_significant_bit_def lsb_index_def least_significant_bit_def)
next
  case False
  obtain i where i: "limb_most_significant_bit x = Ok i" "unat i = bit_length (unat x) - 1"
    using limb_msb [OF False] by blast
  obtain j where j: "most_significant_bit x = Ok j" using False by (simp add: most_significant_bit_def)
  have "bit_length (unat x) = Suc (unat j)" using msb_of_nat [OF j] by (intro bit_length_unique) simp_all
  then have "i = j" using i(2) by (simp add: word_unat_eq_iff)
  obtain k where k: "least_significant_bit x = Ok k" using False by (simp add: least_significant_bit_def)
  then obtain m where "unat x = 2 ^ unat k * m" "odd m" using lsb_of_nat by blast
  then have "low_zeros (unat x) = unat k" by (simp add: low_zeros_unique)
  with False i j k \<open>i = j\<close> show ?thesis by (simp add: lsb_index_def unat_ctz256)
qed

end
