(* ===== verification/Calldata.thy ===== *)
theory Calldata
  imports Byte_Codec Mega_Bits
begin

text \<open>
  The calldata half of \<open>src/stylus/core/src/frontrun_calldata.rs\<close>: selectors, Universal Router commands,
  V3 paths, and the hand-written ABI encoders and decoders. \<open>usize\<close> is a natural number below \<open>U\<close>, an
  argument of the definitions (\<open>2 ^ 32\<close> on the contract target, \<open>2 ^ 64\<close> on the host): checked additions
  fail and plain ones wrap at it. The theory shows that no decoder panics on any bytes and that every
  decoder inverts its encoder.
\<close>

section \<open>Constants and types\<close>

definition V2_SWAP_EXACT_TOKENS_FOR_TOKENS :: "u8 list" where "V2_SWAP_EXACT_TOKENS_FOR_TOKENS = [0x38, 0xed, 0x17, 0x39]"
definition V3_EXACT_INPUT_SINGLE :: "u8 list" where "V3_EXACT_INPUT_SINGLE = [0x41, 0x4b, 0xf3, 0x89]"
definition V3_EXACT_INPUT_SINGLE_02 :: "u8 list" where "V3_EXACT_INPUT_SINGLE_02 = [0x04, 0xe4, 0x5a, 0xaf]"
definition V3_EXACT_INPUT :: "u8 list" where "V3_EXACT_INPUT = [0xc0, 0x4b, 0x8d, 0x59]"
definition V3_EXACT_INPUT_02 :: "u8 list" where "V3_EXACT_INPUT_02 = [0xb8, 0x58, 0x18, 0x3f]"
definition UR_EXECUTE :: "u8 list" where "UR_EXECUTE = [0x35, 0x93, 0x56, 0x4c]"
definition UR_EXECUTE_NO_DEADLINE :: "u8 list" where "UR_EXECUTE_NO_DEADLINE = [0x24, 0x85, 0x6b, 0xc3]"
definition AAVE_V3_LIQUIDATION_CALL :: "u8 list" where "AAVE_V3_LIQUIDATION_CALL = [0x00, 0xa7, 0x18, 0xa9]"
definition ERC20_TRANSFER :: "u8 list" where "ERC20_TRANSFER = [0xa9, 0x05, 0x9c, 0xbb]"

lemmas selectors = V2_SWAP_EXACT_TOKENS_FOR_TOKENS_def V3_EXACT_INPUT_SINGLE_def V3_EXACT_INPUT_SINGLE_02_def
  V3_EXACT_INPUT_def V3_EXACT_INPUT_02_def UR_EXECUTE_def UR_EXECUTE_NO_DEADLINE_def AAVE_V3_LIQUIDATION_CALL_def
  ERC20_TRANSFER_def

definition FLAG_ALLOW_REVERT :: u8 where "FLAG_ALLOW_REVERT = 0x80"
definition COMMAND_TYPE_MASK :: u8 where "COMMAND_TYPE_MASK = 0x3f"

datatype CalldataError = CalldataTooShort | UnknownSelector "u8 list" | InvalidAbi

datatype PathError = PE_EmptyPath | InvalidV3PathLength nat | InvalidV3Fee u32

datatype URCommand =
    UR_V3SwapExactIn | UR_V3SwapExactOut | UR_Permit2TransferFrom | UR_V2SwapExactIn | UR_V2SwapExactOut
  | UR_WrapEth | UR_UnwrapWeth | UR_V4Swap | UR_ExecuteSubPlan | UR_Unknown

record URCommandClass =
  cc_kind :: URCommand
  cc_allow_revert :: bool

record V3ExactInputSingleParams =
  xs_token_in :: u160
  xs_token_out :: u160
  xs_fee :: u32
  xs_recipient :: u160
  xs_deadline :: u256
  xs_amount_in :: u256
  xs_amount_out_minimum :: u256
  xs_sqrt_price_limit_x96 :: u256

record V2SwapExactInParams =
  x2_amount_in :: u256
  x2_amount_out_min :: u256
  x2_path :: "u160 list"
  x2_to :: u160
  x2_deadline :: u256

record V3ExactInputParams =
  xi_path :: "u8 list"
  xi_recipient :: u160
  xi_deadline :: u256
  xi_amount_in :: u256
  xi_amount_out_minimum :: u256

record AaveLiquidationCallParams =
  al_collateral_asset :: u160
  al_debt_asset :: u160
  al_user :: u160
  al_debt_to_cover :: u256
  al_receive_a_token :: bool

record URCommandStep =
  cs_kind :: URCommand
  cs_allow_revert :: bool
  cs_raw_input :: "u8 list"

record URV2SwapExactInInput =
  u2_recipient :: u160
  u2_amount_in :: u256
  u2_amount_out_min :: u256
  u2_path :: "u160 list"
  u2_payer_is_user :: bool

record URV3SwapExactInInput =
  u3_recipient :: u160
  u3_amount_in :: u256
  u3_amount_out_min :: u256
  u3_path :: "u8 list"
  u3_payer_is_user :: bool

type_synonym 'a cd_result = "('a, CalldataError) outcome"
type_synonym 'a path_result = "('a, PathError) outcome"

section \<open>Selectors and commands\<close>

definition selector_of :: "u8 list \<Rightarrow> (u8 list) cd_result" where
  "selector_of data = (if length data < 4 then Err CalldataTooShort else Ok [data ! 0, data ! 1, data ! 2, data ! 3])"

definition is_frontrun_selector :: "u8 list \<Rightarrow> bool" where
  "is_frontrun_selector selector \<longleftrightarrow> selector \<in>
     {V2_SWAP_EXACT_TOKENS_FOR_TOKENS, V3_EXACT_INPUT_SINGLE, V3_EXACT_INPUT_SINGLE_02, V3_EXACT_INPUT,
      V3_EXACT_INPUT_02, UR_EXECUTE, UR_EXECUTE_NO_DEADLINE, AAVE_V3_LIQUIDATION_CALL, ERC20_TRANSFER}"

definition is_frontrun_target :: "u8 list \<Rightarrow> bool" where
  "is_frontrun_target data = (case selector_of data of Ok s \<Rightarrow> is_frontrun_selector s | _ \<Rightarrow> False)"

definition classify_ur_command :: "u8 \<Rightarrow> URCommandClass" where
  "classify_ur_command raw =
     (let c = raw AND COMMAND_TYPE_MASK;
          kind = (if c = 0x00 then UR_V3SwapExactIn
                  else if c = 0x01 then UR_V3SwapExactOut
                  else if c = 0x02 then UR_Permit2TransferFrom
                  else if c = 0x08 then UR_V2SwapExactIn
                  else if c = 0x09 then UR_V2SwapExactOut
                  else if c = 0x0b then UR_WrapEth
                  else if c = 0x0c then UR_UnwrapWeth
                  else if c = 0x10 then UR_V4Swap
                  else if c = 0x21 then UR_ExecuteSubPlan
                  else UR_Unknown)
      in \<lparr>cc_kind = kind, cc_allow_revert = (raw AND FLAG_ALLOW_REVERT \<noteq> 0)\<rparr>)"

section \<open>Byte access\<close>

fun be_value :: "u8 list \<Rightarrow> nat" where
  "be_value [] = 0"
| "be_value (b # bs) = unat b * 256 ^ length bs + be_value bs"

definition from_be :: "u8 list \<Rightarrow> 'a::len word" where
  \<comment> \<open>\<open>from_be_slice\<close>, \<open>from_be_bytes\<close>, \<open>from_slice\<close>\<close>
  "from_be bs = word_of_nat (be_value bs)"

definition slice :: "'a list \<Rightarrow> nat \<Rightarrow> nat \<Rightarrow> ('a list, 'e) outcome" where
  \<comment> \<open>\<open>&data[a..b]\<close>\<close>
  "slice xs a b = (if a \<le> b \<and> b \<le> length xs then Ok (take (b - a) (drop a xs)) else Panic)"

definition get_range :: "'a list \<Rightarrow> nat \<Rightarrow> nat \<Rightarrow> 'a list option" where
  \<comment> \<open>\<open>data.get(a..b)\<close>\<close>
  "get_range xs a b = (if a \<le> b \<and> b \<le> length xs then Some (take (b - a) (drop a xs)) else None)"

definition get_from :: "'a list \<Rightarrow> nat \<Rightarrow> 'a list option" where
  "get_from xs a = (if a \<le> length xs then Some (drop a xs) else None)"

primrec collect :: "('a \<Rightarrow> ('b, 'e) outcome) \<Rightarrow> 'a list \<Rightarrow> ('b list, 'e) outcome" where
  \<comment> \<open>a \<open>for\<close> loop that pushes the result of a fallible step\<close>
  "collect f [] = Ok []"
| "collect f (x # xs) = obind (f x) (\<lambda>y. obind (collect f xs) (\<lambda>ys. Ok (y # ys)))"

definition checked_end :: "nat \<Rightarrow> nat \<Rightarrow> nat \<Rightarrow> nat option" where
  "checked_end U offset len = (if offset + len < U then Some (offset + len) else None)"

definition u256_to_usize :: "nat \<Rightarrow> u256 \<Rightarrow> nat cd_result" where
  "u256_to_usize U v =
     (let limbs = into_limbs v
      in if limbs ! 1 \<noteq> 0 \<or> limbs ! 2 \<noteq> 0 \<or> limbs ! 3 \<noteq> 0 \<or> U - 1 < unat (limbs ! 0) then Err InvalidAbi
         else Ok (unat (limbs ! 0)))"

definition function_body :: "u8 list \<Rightarrow> (u8 list) cd_result" where
  "function_body data = ok_or (get_from data 4) CalldataTooShort"

definition read_word :: "nat \<Rightarrow> u8 list \<Rightarrow> nat \<Rightarrow> (u8 list) cd_result" where
  "read_word U data offset =
     ok_or (Option.bind (checked_end U offset 32) (\<lambda>e. get_range data offset e)) CalldataTooShort"

definition read_u256 :: "nat \<Rightarrow> u8 list \<Rightarrow> nat \<Rightarrow> u256 cd_result" where
  "read_u256 U data offset = obind (read_word U data offset) (\<lambda>w. Ok (from_be w))"

definition read_u256_usize :: "nat \<Rightarrow> u8 list \<Rightarrow> nat \<Rightarrow> nat cd_result" where
  "read_u256_usize U data offset = obind (read_u256 U data offset) (u256_to_usize U)"

definition read_address :: "nat \<Rightarrow> u8 list \<Rightarrow> nat \<Rightarrow> u160 cd_result" where
  "read_address U data offset =
     obind (read_word U data offset) (\<lambda>word.
       if list_ex (\<lambda>b. b \<noteq> 0) (take 12 word) then Err InvalidAbi else Ok (from_be (drop 12 word)))"

definition read_u24 :: "nat \<Rightarrow> u8 list \<Rightarrow> nat \<Rightarrow> u32 cd_result" where
  "read_u24 U data offset =
     obind (read_u256 U data offset) (\<lambda>v. if 0x00ffffff < v then Err InvalidAbi else Ok (ucast v))"

definition read_u160_as_u256 :: "nat \<Rightarrow> u8 list \<Rightarrow> nat \<Rightarrow> u256 cd_result" where
  "read_u160_as_u256 U data offset =
     obind (read_word U data offset) (\<lambda>word.
       if list_ex (\<lambda>b. b \<noteq> 0) (take 12 word) then Err InvalidAbi else Ok (from_be word))"

definition read_bool :: "nat \<Rightarrow> u8 list \<Rightarrow> nat \<Rightarrow> bool cd_result" where
  "read_bool U data offset =
     obind (read_u256 U data offset) (\<lambda>v. if v = 0 then Ok False else if v = 1 then Ok True else Err InvalidAbi)"

definition byte_padding :: "nat \<Rightarrow> nat" where
  "byte_padding len = (32 - len mod 32) mod 32"

definition padded_byte_len_checked :: "nat \<Rightarrow> nat \<Rightarrow> nat option" where
  "padded_byte_len_checked U len = checked_end U len (byte_padding len)"

definition read_bytes :: "nat \<Rightarrow> u8 list \<Rightarrow> nat \<Rightarrow> (u8 list) cd_result" where
  "read_bytes U data offset =
     obind (read_u256_usize U data offset) (\<lambda>len.
     obind (ok_or (checked_end U offset 32) CalldataTooShort) (\<lambda>bytes_start.
     obind (ok_or (checked_end U bytes_start len) CalldataTooShort) (\<lambda>bytes_end.
     obind (ok_or (padded_byte_len_checked U len) InvalidAbi) (\<lambda>padded_len.
     obind (ok_or (checked_end U bytes_start padded_len) CalldataTooShort) (\<lambda>padded_end.
       if length data < padded_end then Err CalldataTooShort else slice data bytes_start bytes_end)))))"

definition read_address_array :: "nat \<Rightarrow> u8 list \<Rightarrow> nat \<Rightarrow> (u160 list) cd_result" where
  "read_address_array U data offset =
     obind (read_u256_usize U data offset) (\<lambda>len.
     obind (ok_or (checked_end U offset 32) CalldataTooShort) (\<lambda>elements_start.
     obind (if len * 32 < U then Ok (len * 32) else Err InvalidAbi) (\<lambda>bytes_len.
     obind (ok_or (checked_end U elements_start bytes_len) CalldataTooShort) (\<lambda>elements_end.
       if length data < elements_end then Err CalldataTooShort
       else collect (\<lambda>index. read_address U data ((elements_start + index * 32) mod U)) [0 ..< len]))))"

definition read_bytes_array :: "nat \<Rightarrow> u8 list \<Rightarrow> nat \<Rightarrow> (u8 list list) cd_result" where
  "read_bytes_array U data offset =
     obind (read_u256_usize U data offset) (\<lambda>len.
     obind (ok_or (checked_end U offset 32) CalldataTooShort) (\<lambda>offsets_start.
     obind (if len * 32 < U then Ok (len * 32) else Err InvalidAbi) (\<lambda>offsets_len.
     obind (ok_or (checked_end U offsets_start offsets_len) CalldataTooShort) (\<lambda>offsets_end.
       if length data < offsets_end then Err CalldataTooShort
       else collect (\<lambda>index.
           obind (read_u256_usize U data ((offsets_start + index * 32) mod U)) (\<lambda>relative_offset.
           obind (ok_or (checked_end U offset relative_offset) InvalidAbi) (read_bytes U data))) [0 ..< len]))))"

section \<open>Encoders\<close>

definition push_address_word :: "u160 \<Rightarrow> u8 list" where
  \<comment> \<open>the bytes appended to the buffer, here and below\<close>
  "push_address_word a = replicate 12 0 @ to_be_bytes a"

definition push_u256_word :: "u256 \<Rightarrow> u8 list" where
  "push_u256_word v = to_be_bytes v"

definition push_bool_word :: "bool \<Rightarrow> u8 list" where
  "push_bool_word b = replicate 31 0 @ bool_byte b"

definition push_bytes_tail :: "u8 list \<Rightarrow> u8 list" where
  "push_bytes_tail bs = push_u256_word (word_of_nat (length bs)) @ bs @ replicate (byte_padding (length bs)) 0"

definition padded_byte_len :: "nat \<Rightarrow> nat \<Rightarrow> (nat, 'e) outcome" where
  "padded_byte_len U len = (case checked_end U len (byte_padding len) of Some n \<Rightarrow> Ok n | None \<Rightarrow> Panic)"

definition encoded_bytes_len :: "nat \<Rightarrow> nat \<Rightarrow> (nat, 'e) outcome" where
  "encoded_bytes_len U len =
     obind (padded_byte_len U len) (\<lambda>n. case checked_end U 32 n of Some m \<Rightarrow> Ok m | None \<Rightarrow> Panic)"

fun tails_len :: "nat \<Rightarrow> u8 list list \<Rightarrow> nat \<Rightarrow> (nat, 'e) outcome" where
  \<comment> \<open>the \<open>fold\<close> of \<open>encoded_bytes_array_len\<close>\<close>
  "tails_len U [] acc = Ok acc"
| "tails_len U (i # is) acc =
     obind (encoded_bytes_len U (length i)) (\<lambda>n.
       case checked_end U acc n of Some m \<Rightarrow> tails_len U is m | None \<Rightarrow> Panic)"

definition encoded_bytes_array_len :: "nat \<Rightarrow> u8 list list \<Rightarrow> (nat, 'e) outcome" where
  "encoded_bytes_array_len U inputs =
     (if \<not> length inputs * 32 < U then Panic
      else case checked_end U 32 (length inputs * 32) of
        None \<Rightarrow> Panic | Some head_len \<Rightarrow> tails_len U inputs head_len)"

fun array_offsets :: "nat \<Rightarrow> u8 list list \<Rightarrow> nat \<Rightarrow> (u8 list, 'e) outcome" where
  \<comment> \<open>the first loop of \<open>push_bytes_array_tail\<close>; the addition wraps\<close>
  "array_offsets U [] relative_offset = Ok []"
| "array_offsets U (i # is) relative_offset =
     obind (encoded_bytes_len U (length i)) (\<lambda>n.
     obind (array_offsets U is ((relative_offset + n) mod U)) (\<lambda>rest.
       Ok (push_u256_word (word_of_nat relative_offset) @ rest)))"

definition push_bytes_array_tail :: "nat \<Rightarrow> u8 list list \<Rightarrow> (u8 list, 'e) outcome" where
  "push_bytes_array_tail U inputs =
     obind (array_offsets U inputs ((32 + length inputs * 32) mod U)) (\<lambda>offsets.
       Ok (push_u256_word (word_of_nat (length inputs)) @ offsets @ concat (map push_bytes_tail inputs)))"

definition encode_v2_swap_exact_tokens_for_tokens ::
  "u256 \<Rightarrow> u256 \<Rightarrow> u160 list \<Rightarrow> u160 \<Rightarrow> u256 \<Rightarrow> (u8 list) path_result" where
  "encode_v2_swap_exact_tokens_for_tokens amount_in amount_out_min path to deadline =
     (if length path < 2 then Err PE_EmptyPath
      else Ok (V2_SWAP_EXACT_TOKENS_FOR_TOKENS @ push_u256_word amount_in @ push_u256_word amount_out_min
        @ push_u256_word 0xa0 @ push_address_word to @ push_u256_word deadline
        @ push_u256_word (word_of_nat (length path)) @ concat (map push_address_word path)))"

definition encode_v3_exact_input_single :: "V3ExactInputSingleParams \<Rightarrow> u8 list" where
  "encode_v3_exact_input_single p =
     V3_EXACT_INPUT_SINGLE @ push_address_word (xs_token_in p) @ push_address_word (xs_token_out p)
     @ push_u256_word (ucast (xs_fee p)) @ push_address_word (xs_recipient p) @ push_u256_word (xs_deadline p)
     @ push_u256_word (xs_amount_in p) @ push_u256_word (xs_amount_out_minimum p)
     @ push_u256_word (xs_sqrt_price_limit_x96 p)"

definition encode_v3_exact_input :: "nat \<Rightarrow> V3ExactInputParams \<Rightarrow> (u8 list, 'e) outcome" where
  "encode_v3_exact_input U p =
     obind (padded_byte_len U (length (xi_path p))) (\<lambda>_.
       Ok (V3_EXACT_INPUT @ push_u256_word 0x20 @ push_u256_word 0xa0 @ push_address_word (xi_recipient p)
         @ push_u256_word (xi_deadline p) @ push_u256_word (xi_amount_in p) @ push_u256_word (xi_amount_out_minimum p)
         @ push_bytes_tail (xi_path p)))"

definition encode_v3_exact_input_02 :: "nat \<Rightarrow> u8 list \<Rightarrow> u160 \<Rightarrow> u256 \<Rightarrow> u256 \<Rightarrow> (u8 list, 'e) outcome" where
  "encode_v3_exact_input_02 U path recipient amount_in amount_out_minimum =
     obind (padded_byte_len U (length path)) (\<lambda>_.
       Ok (V3_EXACT_INPUT_02 @ push_u256_word 0x20 @ push_u256_word 0x80 @ push_address_word recipient
         @ push_u256_word amount_in @ push_u256_word amount_out_minimum @ push_bytes_tail path))"

definition encode_aave_v3_liquidation_call :: "u160 \<Rightarrow> u160 \<Rightarrow> u160 \<Rightarrow> u256 \<Rightarrow> bool \<Rightarrow> u8 list" where
  "encode_aave_v3_liquidation_call collateral_asset debt_asset user debt_to_cover receive_a_token =
     AAVE_V3_LIQUIDATION_CALL @ push_address_word collateral_asset @ push_address_word debt_asset
     @ push_address_word user @ push_u256_word debt_to_cover @ push_bool_word receive_a_token"

definition encode_ur_execute :: "nat \<Rightarrow> u8 list \<Rightarrow> u8 list list \<Rightarrow> u256 \<Rightarrow> (u8 list, 'e) outcome" where
  "encode_ur_execute U commands inputs deadline =
     obind (encoded_bytes_len U (length commands)) (\<lambda>encoded_commands_len.
     obind (encoded_bytes_array_len U inputs) (\<lambda>_.
     obind (push_bytes_array_tail U inputs) (\<lambda>array_tail.
       Ok (UR_EXECUTE @ push_u256_word 0x60 @ push_u256_word (word_of_nat ((0x60 + encoded_commands_len) mod U))
         @ push_u256_word deadline @ push_bytes_tail commands @ array_tail))))"

definition encode_ur_execute_no_deadline :: "nat \<Rightarrow> u8 list \<Rightarrow> u8 list list \<Rightarrow> (u8 list, 'e) outcome" where
  "encode_ur_execute_no_deadline U commands inputs =
     obind (encoded_bytes_len U (length commands)) (\<lambda>encoded_commands_len.
     obind (encoded_bytes_array_len U inputs) (\<lambda>_.
     obind (push_bytes_array_tail U inputs) (\<lambda>array_tail.
       Ok (UR_EXECUTE_NO_DEADLINE @ push_u256_word 0x40 @ push_u256_word (word_of_nat ((0x40 + encoded_commands_len) mod U))
         @ push_bytes_tail commands @ array_tail))))"

section \<open>Decoders\<close>

definition decode_v2_swap_exact_tokens_for_tokens :: "nat \<Rightarrow> u8 list \<Rightarrow> V2SwapExactInParams cd_result" where
  "decode_v2_swap_exact_tokens_for_tokens U data =
     obind (selector_of data) (\<lambda>selector.
     if selector \<noteq> V2_SWAP_EXACT_TOKENS_FOR_TOKENS then Err (UnknownSelector selector)
     else
       obind (function_body data) (\<lambda>body.
       obind (read_u256 U body 0) (\<lambda>amount_in.
       obind (read_u256 U body 32) (\<lambda>amount_out_min.
       obind (read_u256_usize U body 64) (\<lambda>path_offset.
       obind (read_address_array U body path_offset) (\<lambda>path.
       obind (read_address U body 96) (\<lambda>to.
       obind (read_u256 U body 128) (\<lambda>deadline.
         Ok \<lparr>x2_amount_in = amount_in, x2_amount_out_min = amount_out_min, x2_path = path, x2_to = to,
             x2_deadline = deadline\<rparr>))))))))"

definition decode_v3_exact_input_single :: "nat \<Rightarrow> u8 list \<Rightarrow> V3ExactInputSingleParams cd_result" where
  "decode_v3_exact_input_single U data =
     obind (selector_of data) (\<lambda>selector.
     obind (function_body data) (\<lambda>body.
     if selector = V3_EXACT_INPUT_SINGLE then
       obind (read_address U body 0) (\<lambda>token_in.
       obind (read_address U body 32) (\<lambda>token_out.
       obind (read_u24 U body 64) (\<lambda>fee.
       obind (read_address U body 96) (\<lambda>recipient.
       obind (read_u256 U body 128) (\<lambda>deadline.
       obind (read_u256 U body 160) (\<lambda>amount_in.
       obind (read_u256 U body 192) (\<lambda>amount_out_minimum.
       obind (read_u160_as_u256 U body 224) (\<lambda>limit.
         Ok \<lparr>xs_token_in = token_in, xs_token_out = token_out, xs_fee = fee, xs_recipient = recipient,
             xs_deadline = deadline, xs_amount_in = amount_in, xs_amount_out_minimum = amount_out_minimum,
             xs_sqrt_price_limit_x96 = limit\<rparr>))))))))
     else if selector = V3_EXACT_INPUT_SINGLE_02 then
       obind (read_address U body 0) (\<lambda>token_in.
       obind (read_address U body 32) (\<lambda>token_out.
       obind (read_u24 U body 64) (\<lambda>fee.
       obind (read_address U body 96) (\<lambda>recipient.
       obind (read_u256 U body 128) (\<lambda>amount_in.
       obind (read_u256 U body 160) (\<lambda>amount_out_minimum.
       obind (read_u160_as_u256 U body 192) (\<lambda>limit.
         Ok \<lparr>xs_token_in = token_in, xs_token_out = token_out, xs_fee = fee, xs_recipient = recipient,
             xs_deadline = 0, xs_amount_in = amount_in, xs_amount_out_minimum = amount_out_minimum,
             xs_sqrt_price_limit_x96 = limit\<rparr>)))))))
     else Err (UnknownSelector selector)))"

definition decode_v3_exact_input :: "nat \<Rightarrow> u8 list \<Rightarrow> V3ExactInputParams cd_result" where
  "decode_v3_exact_input U data =
     obind (selector_of data) (\<lambda>selector.
     if selector = V3_EXACT_INPUT then
       obind (ok_or (get_from data 36) CalldataTooShort) (\<lambda>body.
       obind (read_u256_usize U body 0) (\<lambda>path_offset.
       obind (read_bytes U body path_offset) (\<lambda>path.
       obind (read_address U body 32) (\<lambda>recipient.
       obind (read_u256 U body 64) (\<lambda>deadline.
       obind (read_u256 U body 96) (\<lambda>amount_in.
       obind (read_u256 U body 128) (\<lambda>amount_out_minimum.
         Ok \<lparr>xi_path = path, xi_recipient = recipient, xi_deadline = deadline, xi_amount_in = amount_in,
             xi_amount_out_minimum = amount_out_minimum\<rparr>)))))))
     else if selector = V3_EXACT_INPUT_02 then
       obind (ok_or (get_from data 36) CalldataTooShort) (\<lambda>body.
       obind (read_u256_usize U body 0) (\<lambda>path_offset.
       obind (read_bytes U body path_offset) (\<lambda>path.
       obind (read_address U body 32) (\<lambda>recipient.
       obind (read_u256 U body 64) (\<lambda>amount_in.
       obind (read_u256 U body 96) (\<lambda>amount_out_minimum.
         Ok \<lparr>xi_path = path, xi_recipient = recipient, xi_deadline = 0, xi_amount_in = amount_in,
             xi_amount_out_minimum = amount_out_minimum\<rparr>))))))
     else Err (UnknownSelector selector))"

definition decode_aave_v3_liquidation_call :: "nat \<Rightarrow> u8 list \<Rightarrow> AaveLiquidationCallParams cd_result" where
  "decode_aave_v3_liquidation_call U data =
     obind (selector_of data) (\<lambda>selector.
     if selector \<noteq> AAVE_V3_LIQUIDATION_CALL then Err (UnknownSelector selector)
     else
       obind (function_body data) (\<lambda>body.
       obind (read_address U body 0) (\<lambda>collateral_asset.
       obind (read_address U body 32) (\<lambda>debt_asset.
       obind (read_address U body 64) (\<lambda>user.
       obind (read_u256 U body 96) (\<lambda>debt_to_cover.
       obind (read_bool U body 128) (\<lambda>receive_a_token.
         Ok \<lparr>al_collateral_asset = collateral_asset, al_debt_asset = debt_asset, al_user = user,
             al_debt_to_cover = debt_to_cover, al_receive_a_token = receive_a_token\<rparr>)))))))"

definition ur_step :: "u8 \<Rightarrow> u8 list \<Rightarrow> URCommandStep" where
  "ur_step command input =
     (let classified = classify_ur_command command
      in \<lparr>cs_kind = cc_kind classified, cs_allow_revert = cc_allow_revert classified, cs_raw_input = input\<rparr>)"

definition decode_ur_execute :: "nat \<Rightarrow> u8 list \<Rightarrow> (URCommandStep list \<times> u256) cd_result" where
  \<comment> \<open>the loop up to the shorter of the two lengths is a zip\<close>
  "decode_ur_execute U data =
     obind (selector_of data) (\<lambda>selector.
     obind (function_body data) (\<lambda>body.
     obind (if selector = UR_EXECUTE then
              obind (read_u256_usize U body 0) (\<lambda>commands_offset.
              obind (read_bytes U body commands_offset) (\<lambda>commands.
              obind (read_u256_usize U body 32) (\<lambda>inputs_offset.
              obind (read_bytes_array U body inputs_offset) (\<lambda>inputs.
              obind (read_u256 U body 64) (\<lambda>deadline. Ok (commands, inputs, deadline))))))
            else if selector = UR_EXECUTE_NO_DEADLINE then
              obind (read_u256_usize U body 0) (\<lambda>commands_offset.
              obind (read_bytes U body commands_offset) (\<lambda>commands.
              obind (read_u256_usize U body 32) (\<lambda>inputs_offset.
              obind (read_bytes_array U body inputs_offset) (\<lambda>inputs. Ok (commands, inputs, 0)))))
            else Err (UnknownSelector selector)) (\<lambda>(commands, inputs, deadline).
       Ok (map (\<lambda>(c, i). ur_step c i) (zip commands inputs), deadline))))"

definition decode_ur_v2_swap_exact_in :: "nat \<Rightarrow> u8 list \<Rightarrow> URV2SwapExactInInput cd_result" where
  "decode_ur_v2_swap_exact_in U input =
     obind (read_address U input 0) (\<lambda>recipient.
     obind (read_u256 U input 32) (\<lambda>amount_in.
     obind (read_u256 U input 64) (\<lambda>amount_out_min.
     obind (read_u256_usize U input 96) (\<lambda>path_offset.
     obind (read_address_array U input path_offset) (\<lambda>path.
     obind (read_bool U input 128) (\<lambda>payer_is_user.
       Ok \<lparr>u2_recipient = recipient, u2_amount_in = amount_in, u2_amount_out_min = amount_out_min, u2_path = path,
           u2_payer_is_user = payer_is_user\<rparr>))))))"

definition decode_ur_v3_swap_exact_in :: "nat \<Rightarrow> u8 list \<Rightarrow> URV3SwapExactInInput cd_result" where
  "decode_ur_v3_swap_exact_in U input =
     obind (read_address U input 0) (\<lambda>recipient.
     obind (read_u256 U input 32) (\<lambda>amount_in.
     obind (read_u256 U input 64) (\<lambda>amount_out_min.
     obind (read_u256_usize U input 96) (\<lambda>path_offset.
     obind (read_bytes U input path_offset) (\<lambda>path.
     obind (read_bool U input 128) (\<lambda>payer_is_user.
       Ok \<lparr>u3_recipient = recipient, u3_amount_in = amount_in, u3_amount_out_min = amount_out_min, u3_path = path,
           u3_payer_is_user = payer_is_user\<rparr>))))))"

section \<open>V3 paths\<close>

fun path_loop :: "u32 list \<Rightarrow> u160 list \<Rightarrow> u8 list \<Rightarrow> (u8 list) path_result" where
  \<comment> \<open>the loop of \<open>encode_v3_path\<close> over the fees and the tokens after the first\<close>
  "path_loop [] tokens path = Ok path"
| "path_loop (fee # fees) (token # tokens) path =
     (if 0x00ffffff < fee then Err (InvalidV3Fee fee)
      else path_loop fees tokens (path @ drop 1 (to_be_bytes fee) @ to_be_bytes token))"
| "path_loop (fee # fees) [] path = (if 0x00ffffff < fee then Err (InvalidV3Fee fee) else Panic)"

definition encode_v3_path :: "u160 list \<Rightarrow> u32 list \<Rightarrow> (u8 list) path_result" where
  "encode_v3_path tokens fees =
     (let hop_count = length fees
      in if hop_count = 0 then Err PE_EmptyPath
         else if length tokens \<noteq> hop_count + 1 then Err (InvalidV3PathLength (length tokens))
         else path_loop fees (tl tokens) (to_be_bytes (hd tokens)))"

definition parse_hop :: "u8 list \<Rightarrow> nat \<Rightarrow> (u32 \<times> u160) path_result" where
  \<comment> \<open>one turn of the loop of \<open>parse_v3_path\<close>\<close>
  "parse_hop path index =
     (let fee_offset = 20 + index * 23;
          token_offset = fee_offset + 3
      in obind (slice path fee_offset (fee_offset + 3)) (\<lambda>fee_bytes.
         obind (slice path token_offset (token_offset + 20)) (\<lambda>token_bytes.
           Ok (from_be (0 # fee_bytes), from_be token_bytes))))"

definition parse_v3_path :: "u8 list \<Rightarrow> (u160 list \<times> u32 list) path_result" where
  "parse_v3_path path =
     (let path_len = length path
      in if path_len < 43 then Err (InvalidV3PathLength path_len)
         else if (path_len - 20) mod 23 \<noteq> 0 then Err (InvalidV3PathLength path_len)
         else
           let hop_count = (path_len - 20) div 23
           in obind (slice path 0 20) (\<lambda>first.
              obind (collect (parse_hop path) [0 ..< hop_count]) (\<lambda>hops.
                Ok (from_be first # map snd hops, map fst hops))))"

section \<open>Decoders never panic\<close>

lemma collect_panicD: "collect f xs = Panic \<Longrightarrow> \<exists>x. f x = Panic"
  by (induction xs) (auto simp: obind_eq_Panic)

lemma checked_end_Some: "checked_end U a b = Some c \<longleftrightarrow> c = a + b \<and> c < U"
  by (auto simp: checked_end_def)

lemma read_word_no_panic [simp]: "read_word U d o' \<noteq> Panic"
  by (simp add: read_word_def ok_or_neq_Panic)

lemma read_no_panic [simp]:
  "read_u256 U d o' \<noteq> Panic" "read_u256_usize U d o' \<noteq> Panic" "read_address U d o' \<noteq> Panic"
  "read_u24 U d o' \<noteq> Panic" "read_u160_as_u256 U d o' \<noteq> Panic" "read_bool U d o' \<noteq> Panic"
  by (auto simp: read_u256_def read_u256_usize_def u256_to_usize_def Let_def read_address_def read_u24_def
      read_u160_as_u256_def read_bool_def obind_eq_Panic)

lemma read_bytes_no_panic [simp]: "read_bytes U d o' \<noteq> Panic"
  by (auto simp: read_bytes_def obind_eq_Panic ok_or_neq_Panic ok_or_eq_Ok slice_def checked_end_Some
      padded_byte_len_checked_def)

lemma read_arrays_no_panic [simp]: "read_address_array U d o' \<noteq> Panic" "read_bytes_array U d o' \<noteq> Panic"
  by (auto simp: read_address_array_def read_bytes_array_def obind_eq_Panic ok_or_neq_Panic split: if_splits
      dest!: collect_panicD)

lemma selector_of_no_panic [simp]: "selector_of d \<noteq> Panic" "function_body d \<noteq> Panic"
  by (simp_all add: selector_of_def function_body_def ok_or_neq_Panic)

text \<open>
  The decoders are total on hostile input: no calldata, however truncated, padded or crafted in its
  offsets and lengths, makes one of them panic.
\<close>

theorem decoders_never_panic:
  "decode_v2_swap_exact_tokens_for_tokens U data \<noteq> Panic \<and> decode_v3_exact_input_single U data \<noteq> Panic
   \<and> decode_v3_exact_input U data \<noteq> Panic \<and> decode_aave_v3_liquidation_call U data \<noteq> Panic
   \<and> decode_ur_execute U data \<noteq> Panic \<and> decode_ur_v2_swap_exact_in U data \<noteq> Panic
   \<and> decode_ur_v3_swap_exact_in U data \<noteq> Panic"
  by (auto simp: decode_v2_swap_exact_tokens_for_tokens_def decode_v3_exact_input_single_def
      decode_v3_exact_input_def decode_aave_v3_liquidation_call_def decode_ur_execute_def
      decode_ur_v2_swap_exact_in_def decode_ur_v3_swap_exact_in_def obind_eq_Panic ok_or_neq_Panic split: if_splits)

section \<open>Words read back\<close>

lemma be_value_append: "be_value (xs @ ys) = be_value xs * 256 ^ length ys + be_value ys"
  by (induction xs) (simp_all add: power_add algebra_simps)

lemma be_value_zeros [simp]: "be_value (replicate k 0) = 0"
  by (induction k) simp_all

lemma be_value_bytes:
  "be_value (map (\<lambda>i. ucast (drop_bit (8 * i) (w :: 'a::len word)) :: u8) (rev [0 ..< k])) = unat w mod 256 ^ k"
proof (induction k)
  case (Suc k)
  have p: "(256 :: nat) ^ k = 2 ^ (8 * k)" by (simp add: power_mult power_numeral)
  have b: "unat (ucast (drop_bit (8 * k) w) :: u8) = unat w div 256 ^ k mod 256"
    unfolding p by (simp add: unsigned_ucast_eq take_bit_eq_mod unat_drop_bit_eq power_numeral)
      (simp add: drop_bit_eq_div)
  have "unat w mod 256 ^ Suc k = (unat w div 256 ^ k mod 256) * 256 ^ k + unat w mod 256 ^ k"
    using mod_mult2_eq [of "unat w" "256 ^ k" 256] by (simp add: mult.commute)
  then show ?case using Suc b by simp
qed simp

lemma be_value_to_be_bytes:
  assumes "8 dvd LENGTH('a)"
  shows "be_value (to_be_bytes (w :: 'a::len word)) = unat w"
proof -
  have "(256 :: nat) ^ (LENGTH('a) div 8) = (2 ^ 8) ^ (LENGTH('a) div 8)" by (simp add: power_numeral)
  also have "\<dots> = 2 ^ LENGTH('a)" using assms by (simp only: flip: power_mult) simp
  finally show ?thesis using unat_bound [of w] by (simp add: to_be_bytes_def be_value_bytes)
qed

lemma word_pieces [simp]:
  "length (push_u256_word v) = 32" "length (push_address_word a) = 32" "length (push_bool_word b) = 32"
  by (simp_all add: push_u256_word_def push_address_word_def push_bool_word_def bool_byte_def)

lemma from_be_u256 [simp]: "from_be (push_u256_word v) = v"
  by (simp add: push_u256_word_def from_be_def be_value_to_be_bytes)

lemma from_be_address [simp]: "from_be (to_be_bytes (a :: u160)) = a"
  by (simp add: from_be_def be_value_to_be_bytes)

lemma read_word_at:
  assumes "length pre = o'" "length w = 32" "o' + 32 < U"
  shows "read_word U (pre @ w @ post) o' = Ok w"
  using assms by (simp add: read_word_def checked_end_def get_range_def)

lemma read_u256_at: "length pre = o' \<Longrightarrow> o' + 32 < U \<Longrightarrow> read_u256 U (pre @ push_u256_word v @ post) o' = Ok v"
  by (simp add: read_u256_def read_word_at)

lemma read_address_at: "length pre = o' \<Longrightarrow> o' + 32 < U \<Longrightarrow> read_address U (pre @ push_address_word a @ post) o' = Ok a"
  by (simp add: read_address_def read_word_at) (simp add: push_address_word_def list_ex_iff)

lemma read_bool_at: "length pre = o' \<Longrightarrow> o' + 32 < U \<Longrightarrow> read_bool U (pre @ push_bool_word b @ post) o' = Ok b"
  by (simp add: read_bool_def read_u256_def read_word_at)
    (simp add: push_bool_word_def bool_byte_def from_be_def be_value_append)

section \<open>Lengths, byte strings and arrays read back\<close>

lemma u256_to_usize_of_nat:
  assumes "n < U" "U \<le> 2 ^ 64"
  shows "u256_to_usize U (word_of_nat n) = Ok n"
proof -
  have n: "n < 2 ^ 64" using assms by linarith
  then have "n < 2 ^ LENGTH(256)" by (rule less_trans) (simp add: power_numeral)
  then have u: "unat (word_of_nat n :: u256) = n" by (rule unat_word_of_nat)
  have z: "n div 2 ^ 64 = 0" "n div 2 ^ 128 = 0" "n div 2 ^ 192 = 0"
    using n by (auto simp: div_eq_0_iff power_numeral)
  have "unat (into_limbs (word_of_nat n) ! 0) = n"
    using n by (simp add: into_limbs_def unat_limb0 u)
  moreover have "into_limbs (word_of_nat n) ! 1 = 0" "into_limbs (word_of_nat n) ! 2 = 0" "into_limbs (word_of_nat n) ! 3 = 0"
    by (simp_all only: unat_eq_zero [symmetric]) (simp_all add: into_limbs_def unat_limb0 unat_drop u z)
  ultimately show ?thesis using assms(1) by (simp add: u256_to_usize_def Let_def)
qed

lemma read_usize_at:
  "length pre = o' \<Longrightarrow> o' + 32 < U \<Longrightarrow> n < U \<Longrightarrow> U \<le> 2 ^ 64 \<Longrightarrow>
     read_u256_usize U (pre @ push_u256_word (word_of_nat n) @ post) o' = Ok n"
  by (simp add: read_u256_usize_def read_u256_at u256_to_usize_of_nat)

definition tail_len :: "u8 list \<Rightarrow> nat" where
  "tail_len bs = 32 + (length bs + byte_padding (length bs))"

lemma length_push_bytes_tail [simp]: "length (push_bytes_tail bs) = tail_len bs"
  by (simp add: push_bytes_tail_def tail_len_def)

lemma read_bytes_at:
  assumes "length pre = o'" "o' + tail_len bs < U" "U \<le> 2 ^ 64"
  shows "read_bytes U (pre @ push_bytes_tail bs @ post) o' = Ok bs"
proof -
  have b: "o' + 32 < U" "length bs < U" "o' + 32 + length bs < U" "length bs + byte_padding (length bs) < U"
    "o' + 32 + (length bs + byte_padding (length bs)) < U" using assms(2) by (simp_all add: tail_len_def)
  have "read_u256_usize U (pre @ push_bytes_tail bs @ post) o' = Ok (length bs)"
    unfolding push_bytes_tail_def using read_usize_at [OF assms(1) b(1,2) assms(3)] by simp
  then show ?thesis using b assms(1)
    by (simp add: read_bytes_def checked_end_def padded_byte_len_checked_def slice_def)
      (simp add: push_bytes_tail_def tail_len_def)
qed

lemma collect_upt: "length ys = n \<Longrightarrow> (\<And>i. i < n \<Longrightarrow> f i = Ok (ys ! i)) \<Longrightarrow> collect f [0 ..< n] = Ok ys"
proof -
  have "list_all2 (\<lambda>x y. f x = Ok y) xs ys \<Longrightarrow> collect f xs = Ok ys" for xs ys
    by (induction rule: list_all2_induct) auto
  then show "length ys = n \<Longrightarrow> (\<And>i. i < n \<Longrightarrow> f i = Ok (ys ! i)) \<Longrightarrow> collect f [0 ..< n] = Ok ys"
    by (simp add: list_all2_conv_all_nth)
qed

lemma concat_split:
  "i < length xs \<Longrightarrow> concat (map g xs) = concat (map g (take i xs)) @ g (xs ! i) @ concat (map g (drop (Suc i) xs))"
  by (subst id_take_nth_drop [of i xs]) simp_all

lemma length_concat_const: "(\<And>x. length (g x) = k) \<Longrightarrow> length (concat (map g xs)) = k * length xs"
  by (induction xs) simp_all

lemma read_address_array_at:
  assumes "length pre = o'" "o' + 32 + 32 * length as < U" "U \<le> 2 ^ 64"
  shows "read_address_array U (pre @ push_u256_word (word_of_nat (length as)) @ concat (map push_address_word as) @ post) o' = Ok as"
proof -
  let ?d = "pre @ push_u256_word (word_of_nat (length as)) @ concat (map push_address_word as) @ post"
  have n: "read_u256_usize U ?d o' = Ok (length as)" using assms by (intro read_usize_at) auto
  have len: "length (concat (map push_address_word as)) = 32 * length as" for as by (rule length_concat_const) simp
  have "read_address U ?d ((o' + 32 + i * 32) mod U) = Ok (as ! i)" if "i < length as" for i
  proof -
    let ?p = "pre @ push_u256_word (word_of_nat (length as)) @ concat (map push_address_word (take i as))"
    have d: "?d = ?p @ push_address_word (as ! i) @ (concat (map push_address_word (drop (Suc i) as)) @ post)"
      using concat_split [OF that, of push_address_word] by simp
    have b: "o' + 32 + i * 32 + 32 < U" using that assms(2) by linarith
    show ?thesis unfolding d using b assms(1) that len by (intro read_address_at) auto
  qed
  then have "collect (\<lambda>i. read_address U ?d ((o' + 32 + i * 32) mod U)) [0 ..< length as] = Ok as"
    by (intro collect_upt) simp_all
  then show ?thesis using n assms len [of as]
    by (simp add: read_address_array_def checked_end_def mult.commute)
qed

fun starts :: "nat \<Rightarrow> u8 list list \<Rightarrow> nat list" where
  "starts r [] = []"
| "starts r (i # is) = r # starts (r + tail_len i) is"

abbreviation tails :: "u8 list list \<Rightarrow> u8 list" where
  "tails inputs \<equiv> concat (map push_bytes_tail inputs)"

lemma length_starts [simp]: "length (starts r is) = length is"
  by (induction r "is" rule: starts.induct) simp_all

lemma nth_starts: "k < length is \<Longrightarrow> starts r is ! k = r + length (tails (take k is))"
  by (induction r "is" arbitrary: k rule: starts.induct) (auto simp: nth_Cons split: nat.splits)

lemma encoded_bytes_len_Ok: "tail_len bs < U \<Longrightarrow> encoded_bytes_len U (length bs) = Ok (tail_len bs)"
  by (simp add: encoded_bytes_len_def padded_byte_len_def checked_end_def tail_len_def)

lemma array_offsets_Ok:
  "r + length (tails is) < U \<Longrightarrow>
     array_offsets U is r = Ok (concat (map (\<lambda>n. push_u256_word (word_of_nat n)) (starts r is)))"
  by (induction r "is" rule: starts.induct) (simp_all add: encoded_bytes_len_Ok)

lemma tails_len_Ok: "acc + length (tails is) < U \<Longrightarrow> tails_len U is acc = Ok (acc + length (tails is))"
  by (induction "is" arbitrary: acc) (simp_all add: encoded_bytes_len_Ok checked_end_def add.assoc)

definition array_len :: "u8 list list \<Rightarrow> nat" where
  "array_len is = 32 + 32 * length is + length (tails is)"

abbreviation array_bytes :: "u8 list list \<Rightarrow> u8 list" where
  "array_bytes is \<equiv> push_u256_word (word_of_nat (length is))
     @ concat (map (\<lambda>n. push_u256_word (word_of_nat n)) (starts (32 + 32 * length is) is)) @ tails is"

lemma push_bytes_array_tail_Ok: "array_len is < U \<Longrightarrow> push_bytes_array_tail U is = Ok (array_bytes is)"
  by (simp add: push_bytes_array_tail_def array_offsets_Ok array_len_def mult.commute)

lemma encoded_bytes_array_len_Ok: "array_len is < U \<Longrightarrow> encoded_bytes_array_len U is = Ok (array_len is)"
  by (simp add: encoded_bytes_array_len_def checked_end_def tails_len_Ok array_len_def mult.commute)

lemma read_bytes_array_at:
  assumes "length pre = o'" "o' + array_len is < U" "U \<le> 2 ^ 64"
  shows "read_bytes_array U (pre @ array_bytes is @ post) o' = Ok is"
proof -
  let ?w = "\<lambda>n. push_u256_word (word_of_nat n)" and ?s = "starts (32 + 32 * length is) is"
  let ?d = "pre @ array_bytes is @ post"
  have n: "read_u256_usize U ?d o' = Ok (length is)" using assms by (simp add: array_len_def read_usize_at)
  have len: "length (concat (map ?w ns)) = 32 * length ns" for ns by (rule length_concat_const) simp
  have step: "obind (read_u256_usize U ?d ((o' + 32 + i * 32) mod U)) (\<lambda>relative_offset.
      obind (ok_or (checked_end U o' relative_offset) InvalidAbi) (read_bytes U ?d)) = Ok (is ! i)" if i: "i < length is" for i
  proof -
    have split: "length (tails is) = length (tails (take i is)) + tail_len (is ! i) + length (tails (drop (Suc i) is))"
      using concat_split [OF i, of push_bytes_tail] by simp
    have si: "?s ! i = 32 + 32 * length is + length (tails (take i is))" using i by (rule nth_starts)
    have b: "o' + 32 + i * 32 + 32 < U" "?s ! i < U" "o' + ?s ! i < U" "o' + ?s ! i + tail_len (is ! i) < U"
      using assms(2) i split si by (simp_all add: array_len_def)
    let ?p = "pre @ ?w (length is) @ concat (map ?w (take i ?s))"
    have d1: "?d = ?p @ ?w (?s ! i) @ (concat (map ?w (drop (Suc i) ?s)) @ tails is @ post)"
      using concat_split [of i ?s ?w] i by simp
    have "read_u256_usize U ?d ((o' + 32 + i * 32) mod U) = Ok (?s ! i)"
      unfolding d1 using b i assms(1,3) len by (intro read_usize_at) auto
    moreover have "read_bytes U ?d (o' + ?s ! i) = Ok (is ! i)"
    proof -
      let ?q = "pre @ ?w (length is) @ concat (map ?w ?s) @ tails (take i is)"
      have d2: "?d = ?q @ push_bytes_tail (is ! i) @ (tails (drop (Suc i) is) @ post)"
        using concat_split [OF i, of push_bytes_tail] by simp
      show ?thesis unfolding d2 using b(4) assms(1,3) si len [of ?s] by (intro read_bytes_at) auto
    qed
    ultimately show ?thesis using b(3) by (simp add: checked_end_def)
  qed
  have "collect (\<lambda>i. obind (read_u256_usize U ?d ((o' + 32 + i * 32) mod U)) (\<lambda>relative_offset.
      obind (ok_or (checked_end U o' relative_offset) InvalidAbi) (read_bytes U ?d))) [0 ..< length is] = Ok is"
    using step by (intro collect_upt) simp_all
  then show ?thesis using n assms len [of ?s]
    by (simp add: read_bytes_array_def checked_end_def array_len_def mult.commute)
qed

section \<open>Round trips\<close>

lemma selector_prefix:
  "length sel = 4 \<Longrightarrow> selector_of (sel @ rest) = Ok sel" "length sel = 4 \<Longrightarrow> function_body (sel @ rest) = Ok rest"
  "length sel = 4 \<Longrightarrow> length w = 32 \<Longrightarrow> get_from (sel @ w @ rest) 36 = Some rest"
proof -
  show "selector_of (sel @ rest) = Ok sel" if "length sel = 4"
  proof -
    have "length sel = Suc (Suc (Suc (Suc 0)))" using that by simp
    then obtain a b c d where "sel = [a, b, c, d]" unfolding length_Suc_conv length_0_conv by blast
    then show ?thesis by (simp add: selector_of_def)
  qed
qed (simp_all add: function_body_def get_from_def)

lemma selectors_length [simp]:
  "length V2_SWAP_EXACT_TOKENS_FOR_TOKENS = 4" "length V3_EXACT_INPUT_SINGLE = 4" "length V3_EXACT_INPUT = 4"
  "length V3_EXACT_INPUT_02 = 4" "length UR_EXECUTE = 4" "length UR_EXECUTE_NO_DEADLINE = 4" "length AAVE_V3_LIQUIDATION_CALL = 4"
  by (simp_all add: selectors)

lemma selectors_differ [simp]: "UR_EXECUTE_NO_DEADLINE \<noteq> UR_EXECUTE" "V3_EXACT_INPUT_02 \<noteq> V3_EXACT_INPUT"
  by (simp_all add: selectors)

definition ur_fits :: "nat \<Rightarrow> u8 list \<Rightarrow> u8 list list \<Rightarrow> bool" where
  \<comment> \<open>the encoded call is addressable, and \<open>usize\<close> has at most 64 bits\<close>
  "ur_fits U commands inputs \<longleftrightarrow> 96 + tail_len commands + array_len inputs < U \<and> U \<le> 2 ^ 64"

lemma ur_execute_roundtrip_with_deadline:
  assumes "ur_fits U commands inputs"
  shows "obind (encode_ur_execute U commands inputs deadline) (decode_ur_execute U)
    = Ok (map (\<lambda>(c, i). ur_step c i) (zip commands inputs), deadline)"
proof -
  let ?o = "96 + tail_len commands"
  have b: "?o + array_len inputs < U" "U \<le> 2 ^ 64" "tail_len commands < U" "array_len inputs < U" "96 < U" "?o < U"
    "96 + tail_len commands < U"
    using assms by (simp_all add: ur_fits_def array_len_def)
  let ?h = "push_u256_word 96 @ push_u256_word (word_of_nat ?o) @ push_u256_word deadline"
  let ?b = "?h @ push_bytes_tail commands @ array_bytes inputs"
  have e: "encode_ur_execute U commands inputs deadline = (Ok (UR_EXECUTE @ ?b) :: (u8 list) cd_result)"
    using b by (simp add: encode_ur_execute_def encoded_bytes_len_Ok encoded_bytes_array_len_Ok push_bytes_array_tail_Ok)
  have "read_u256_usize U ?b 0 = Ok 96"
    using b read_usize_at [of "[]" 0 U 96] by simp
  moreover have "read_u256_usize U ?b 32 = Ok ?o"
    using b read_usize_at [of "push_u256_word 96" 32 U ?o] by simp
  moreover have "read_u256 U ?b 64 = Ok deadline"
    using b read_u256_at [of "push_u256_word 96 @ push_u256_word (word_of_nat ?o)" 64 U deadline] by simp
  moreover have "read_bytes U ?b 96 = Ok commands"
    using b by (intro read_bytes_at [of ?h]) simp_all
  moreover have "read_bytes_array U ?b ?o = Ok inputs"
    using b read_bytes_array_at [of "?h @ push_bytes_tail commands" ?o inputs U "[]"] by simp
  ultimately show ?thesis unfolding e
    by (simp only: obind.simps decode_ur_execute_def selector_prefix selectors_length if_True refl prod.case)
qed

lemma ur_execute_roundtrip_no_deadline:
  assumes "ur_fits U commands inputs"
  shows "obind (encode_ur_execute_no_deadline U commands inputs) (decode_ur_execute U)
    = Ok (map (\<lambda>(c, i). ur_step c i) (zip commands inputs), 0)"
proof -
  let ?o = "64 + tail_len commands"
  have b: "?o + array_len inputs < U" "U \<le> 2 ^ 64" "tail_len commands < U" "array_len inputs < U" "64 < U" "?o < U"
    using assms by (simp_all add: ur_fits_def array_len_def)
  let ?h = "push_u256_word 64 @ push_u256_word (word_of_nat ?o)"
  let ?b = "?h @ push_bytes_tail commands @ array_bytes inputs"
  have e: "encode_ur_execute_no_deadline U commands inputs = (Ok (UR_EXECUTE_NO_DEADLINE @ ?b) :: (u8 list) cd_result)"
    using b by (simp add: encode_ur_execute_no_deadline_def encoded_bytes_len_Ok encoded_bytes_array_len_Ok push_bytes_array_tail_Ok)
  have "read_u256_usize U ?b 0 = Ok 64"
    using b read_usize_at [of "[]" 0 U 64] by simp
  moreover have "read_u256_usize U ?b 32 = Ok ?o"
    using b read_usize_at [of "push_u256_word 64" 32 U ?o] by simp
  moreover have "read_bytes U ?b 64 = Ok commands"
    using b by (intro read_bytes_at [of ?h]) simp_all
  moreover have "read_bytes_array U ?b ?o = Ok inputs"
    using b read_bytes_array_at [of "?h @ push_bytes_tail commands" ?o inputs U "[]"] by simp
  ultimately show ?thesis unfolding e
    by (simp only: obind.simps decode_ur_execute_def selector_prefix selectors_length selectors_differ if_True if_False refl prod.case)
qed

lemma read_u24_at:
  assumes "length pre = o'" "o' + 32 < U" "f \<le> 0xffffff"
  shows "read_u24 U (pre @ push_u256_word (ucast (f :: u32)) @ post) o' = Ok f"
proof -
  have "unat (ucast f :: u256) = unat f"
    using unat_bound [of f] by (simp add: unsigned_ucast_eq take_bit_nat_eq_self power_numeral)
  then have "\<not> 0xffffff < (ucast f :: u256)" using assms(3) by (simp add: word_less_nat_alt word_le_nat_alt)
  moreover have "ucast (ucast f :: u256) = f" by (rule ucast_up_ucast_id) (simp add: is_up)
  ultimately have "\<not> 0xffffff < (ucast f :: u256)" "ucast (ucast f :: u256) = f" by blast+
  then show ?thesis using read_u256_at [OF assms(1,2)] by (simp add: read_u24_def)
qed

lemma read_u160_at:
  assumes "length pre = o'" "o' + 32 < U" "unat v < 2 ^ 160"
  shows "read_u160_as_u256 U (pre @ push_u256_word v @ post) o' = Ok v"
proof -
  have "be_value (take 12 (to_be_bytes v) @ drop 12 (to_be_bytes v)) = unat v"
    by (simp add: be_value_to_be_bytes)
  then have v: "be_value (take 12 (to_be_bytes v)) * 256 ^ 20 + be_value (drop 12 (to_be_bytes v)) = unat v"
    by (simp only: be_value_append) simp
  then have "be_value (take 12 (to_be_bytes v)) = 0"
    using assms(3) by (simp add: power_numeral)
  moreover have "be_value bs = 0 \<Longrightarrow> \<not> list_ex (\<lambda>b. b \<noteq> 0) bs" for bs by (induction bs) (auto simp: unat_eq_zero)
  ultimately have "\<not> list_ex (\<lambda>b. b \<noteq> 0) (take 12 (push_u256_word v))" by (simp add: push_u256_word_def)
  then show ?thesis using assms(1,2) by (simp add: read_u160_as_u256_def read_word_at)
qed

lemma v2_swap_roundtrip:
  assumes "2 \<le> length path" "192 + 32 * length path < U" "U \<le> 2 ^ 64"
    "encode_v2_swap_exact_tokens_for_tokens a m path to dl = Ok data"
  shows "decode_v2_swap_exact_tokens_for_tokens U data
    = Ok \<lparr>x2_amount_in = a, x2_amount_out_min = m, x2_path = path, x2_to = to, x2_deadline = dl\<rparr>"
proof -
  let ?w = push_u256_word and ?a = push_address_word
  let ?b = "?w a @ ?w m @ ?w 160 @ ?a to @ ?w dl @ ?w (word_of_nat (length path)) @ concat (map ?a path)"
  have d: "data = V2_SWAP_EXACT_TOKENS_FOR_TOKENS @ ?b"
    using assms(1,4) by (simp add: encode_v2_swap_exact_tokens_for_tokens_def)
  have "read_u256 U ?b 0 = Ok a" using read_u256_at [of "[]" 0 U a] assms(2) by simp
  moreover have "read_u256 U ?b 32 = Ok m" using read_u256_at [of "?w a" 32 U m] assms(2) by simp
  moreover have "read_u256_usize U ?b 64 = Ok 160" using read_usize_at [of "?w a @ ?w m" 64 U 160] assms(2,3) by simp
  moreover have "read_address_array U ?b 160 = Ok path"
    using read_address_array_at [of "?w a @ ?w m @ ?w 160 @ ?a to @ ?w dl" 160 path U "[]"] assms(2,3) by simp
  moreover have "read_address U ?b 96 = Ok to" using read_address_at [of "?w a @ ?w m @ ?w 160" 96 U to] assms(2) by simp
  moreover have "read_u256 U ?b 128 = Ok dl" using read_u256_at [of "?w a @ ?w m @ ?w 160 @ ?a to" 128 U dl] assms(2) by simp
  ultimately show ?thesis unfolding d
    by (simp only: obind.simps decode_v2_swap_exact_tokens_for_tokens_def selector_prefix selectors_length simp_thms if_False)
qed

lemma v3_single_roundtrip:
  assumes "xs_fee p \<le> 0xffffff" "unat (xs_sqrt_price_limit_x96 p) < 2 ^ 160" "256 < U"
  shows "decode_v3_exact_input_single U (encode_v3_exact_input_single p) = Ok p"
proof -
  let ?w = push_u256_word and ?a = push_address_word
  let ?b = "?a (xs_token_in p) @ ?a (xs_token_out p) @ ?w (ucast (xs_fee p)) @ ?a (xs_recipient p) @ ?w (xs_deadline p)
     @ ?w (xs_amount_in p) @ ?w (xs_amount_out_minimum p) @ ?w (xs_sqrt_price_limit_x96 p)"
  have "read_address U ?b 0 = Ok (xs_token_in p)" using read_address_at [of "[]" 0 U] assms(3) by simp
  moreover have "read_address U ?b 32 = Ok (xs_token_out p)"
    using read_address_at [of "?a (xs_token_in p)" 32 U] assms(3) by simp
  moreover have "read_u24 U ?b 64 = Ok (xs_fee p)"
    using read_u24_at [of "?a (xs_token_in p) @ ?a (xs_token_out p)" 64 U "xs_fee p"] assms by simp
  moreover have "read_address U ?b 96 = Ok (xs_recipient p)"
    using read_address_at [of "?a (xs_token_in p) @ ?a (xs_token_out p) @ ?w (ucast (xs_fee p))" 96 U] assms(3) by simp
  moreover have "read_u256 U ?b 128 = Ok (xs_deadline p)"
    using read_u256_at [of "?a (xs_token_in p) @ ?a (xs_token_out p) @ ?w (ucast (xs_fee p)) @ ?a (xs_recipient p)" 128 U] assms(3) by simp
  moreover have "read_u256 U ?b 160 = Ok (xs_amount_in p)"
    using read_u256_at [of "?a (xs_token_in p) @ ?a (xs_token_out p) @ ?w (ucast (xs_fee p)) @ ?a (xs_recipient p) @ ?w (xs_deadline p)" 160 U] assms(3) by simp
  moreover have "read_u256 U ?b 192 = Ok (xs_amount_out_minimum p)"
    using read_u256_at [of "?a (xs_token_in p) @ ?a (xs_token_out p) @ ?w (ucast (xs_fee p)) @ ?a (xs_recipient p) @ ?w (xs_deadline p) @ ?w (xs_amount_in p)" 192 U] assms(3) by simp
  moreover have "read_u160_as_u256 U ?b 224 = Ok (xs_sqrt_price_limit_x96 p)"
    using read_u160_at [of "?a (xs_token_in p) @ ?a (xs_token_out p) @ ?w (ucast (xs_fee p)) @ ?a (xs_recipient p) @ ?w (xs_deadline p) @ ?w (xs_amount_in p) @ ?w (xs_amount_out_minimum p)" 224 U "xs_sqrt_price_limit_x96 p" "[]"] assms by simp
  ultimately show ?thesis
    by (simp add: encode_v3_exact_input_single_def decode_v3_exact_input_single_def selector_prefix)
qed

lemma v3_exact_input_roundtrip:
  assumes "192 + tail_len (xi_path p) < U" "U \<le> 2 ^ 64"
  shows "obind (encode_v3_exact_input U p) (decode_v3_exact_input U) = Ok p"
proof -
  let ?w = push_u256_word
  let ?h = "?w 160 @ push_address_word (xi_recipient p) @ ?w (xi_deadline p) @ ?w (xi_amount_in p) @ ?w (xi_amount_out_minimum p)"
  let ?b = "?h @ push_bytes_tail (xi_path p)"
  have e: "encode_v3_exact_input U p = (Ok (V3_EXACT_INPUT @ ?w 32 @ ?b) :: (u8 list) cd_result)"
    using assms(1) by (simp add: encode_v3_exact_input_def padded_byte_len_def checked_end_def tail_len_def)
  have "read_u256_usize U ?b 0 = Ok 160" using read_usize_at [of "[]" 0 U 160] assms by simp
  moreover have "read_bytes U ?b 160 = Ok (xi_path p)" using read_bytes_at [of ?h 160 _ U "[]"] assms by simp
  moreover have "read_address U ?b 32 = Ok (xi_recipient p)" using read_address_at [of "?w 160" 32 U] assms(1) by simp
  moreover have "read_u256 U ?b 64 = Ok (xi_deadline p)"
    using read_u256_at [of "?w 160 @ push_address_word (xi_recipient p)" 64 U] assms(1) by simp
  moreover have "read_u256 U ?b 96 = Ok (xi_amount_in p)"
    using read_u256_at [of "?w 160 @ push_address_word (xi_recipient p) @ ?w (xi_deadline p)" 96 U] assms(1) by simp
  moreover have "read_u256 U ?b 128 = Ok (xi_amount_out_minimum p)"
    using read_u256_at [of "?w 160 @ push_address_word (xi_recipient p) @ ?w (xi_deadline p) @ ?w (xi_amount_in p)" 128 U] assms(1) by simp
  ultimately show ?thesis unfolding e by (simp add: decode_v3_exact_input_def selector_prefix)
qed

lemma v3_exact_input_02_roundtrip:
  assumes "192 + tail_len path < U" "U \<le> 2 ^ 64"
  shows "obind (encode_v3_exact_input_02 U path rc a m) (decode_v3_exact_input U)
    = Ok \<lparr>xi_path = path, xi_recipient = rc, xi_deadline = 0, xi_amount_in = a, xi_amount_out_minimum = m\<rparr>"
proof -
  let ?w = push_u256_word
  let ?h = "?w 128 @ push_address_word rc @ ?w a @ ?w m"
  let ?b = "?h @ push_bytes_tail path"
  have e: "encode_v3_exact_input_02 U path rc a m = (Ok (V3_EXACT_INPUT_02 @ ?w 32 @ ?b) :: (u8 list) cd_result)"
    using assms(1) by (simp add: encode_v3_exact_input_02_def padded_byte_len_def checked_end_def tail_len_def)
  have "read_u256_usize U ?b 0 = Ok 128" using read_usize_at [of "[]" 0 U 128] assms by simp
  moreover have "read_bytes U ?b 128 = Ok path" using read_bytes_at [of ?h 128 _ U "[]"] assms by simp
  moreover have "read_address U ?b 32 = Ok rc" using read_address_at [of "?w 128" 32 U] assms(1) by simp
  moreover have "read_u256 U ?b 64 = Ok a" using read_u256_at [of "?w 128 @ push_address_word rc" 64 U] assms(1) by simp
  moreover have "read_u256 U ?b 96 = Ok m" using read_u256_at [of "?w 128 @ push_address_word rc @ ?w a" 96 U] assms(1) by simp
  ultimately show ?thesis unfolding e by (simp add: decode_v3_exact_input_def selector_prefix)
qed

lemma aave_roundtrip:
  assumes "160 < U"
  shows "decode_aave_v3_liquidation_call U (encode_aave_v3_liquidation_call c d u n r)
    = Ok \<lparr>al_collateral_asset = c, al_debt_asset = d, al_user = u, al_debt_to_cover = n, al_receive_a_token = r\<rparr>"
proof -
  let ?a = push_address_word
  let ?b = "?a c @ ?a d @ ?a u @ push_u256_word n @ push_bool_word r"
  have "read_address U ?b 0 = Ok c" using read_address_at [of "[]" 0 U] assms by simp
  moreover have "read_address U ?b 32 = Ok d" using read_address_at [of "?a c" 32 U] assms by simp
  moreover have "read_address U ?b 64 = Ok u" using read_address_at [of "?a c @ ?a d" 64 U] assms by simp
  moreover have "read_u256 U ?b 96 = Ok n" using read_u256_at [of "?a c @ ?a d @ ?a u" 96 U] assms by simp
  moreover have "read_bool U ?b 128 = Ok r" using read_bool_at [of "?a c @ ?a d @ ?a u @ push_u256_word n" 128 U r "[]"] assms by simp
  ultimately show ?thesis
    by (simp add: encode_aave_v3_liquidation_call_def decode_aave_v3_liquidation_call_def selector_prefix)
qed

section \<open>V3 paths and their bytes correspond one to one\<close>

lemma be_value_bound: "be_value bs < 256 ^ length bs"
proof (induction bs)
  case (Cons b bs)
  have "unat b < 256" using unat_bound [of b] by (simp add: power_numeral)
  then have "unat b * 256 ^ length bs + 256 ^ length bs \<le> 256 * 256 ^ length bs"
    using mult_le_mono1 [of "unat b + 1" 256 "256 ^ length bs"] by simp
  with Cons have "unat b * 256 ^ length bs + be_value bs < 256 * 256 ^ length bs" by linarith
  then show ?case by simp
qed simp

lemma be_value_inj: "length xs = length ys \<Longrightarrow> be_value xs = be_value ys \<Longrightarrow> xs = ys"
proof (induction xs ys rule: list_induct2)
  case (Cons x xs y ys)
  let ?p = "256 ^ length ys :: nat"
  have e: "unat x * ?p + be_value xs = unat y * ?p + be_value ys" using Cons by simp
  have b: "be_value xs < ?p" "be_value ys < ?p" using be_value_bound [of xs] be_value_bound [of ys] Cons.hyps by simp_all
  have "unat x = (unat x * ?p + be_value xs) div ?p" "unat y = (unat y * ?p + be_value ys) div ?p" using b by simp_all
  then have "unat x = unat y" using e by simp
  then show ?case using e Cons.IH by (simp add: word_unat_eq_iff)
qed simp

lemma to_be_bytes_from_be:
  assumes "8 dvd LENGTH('a)" "length bs = LENGTH('a) div 8"
  shows "to_be_bytes (from_be bs :: 'a::len word) = bs"
proof (rule be_value_inj)
  have "(256 :: nat) ^ (LENGTH('a) div 8) = (2 ^ 8) ^ (LENGTH('a) div 8)" by (simp add: power_numeral)
  also have "\<dots> = 2 ^ LENGTH('a)" using assms(1) by (simp only: flip: power_mult) simp
  finally have "be_value bs < 2 ^ LENGTH('a)" using be_value_bound [of bs] assms(2) by simp
  then show "be_value (to_be_bytes (from_be bs :: 'a word)) = be_value bs"
    using assms(1) by (simp add: be_value_to_be_bytes from_be_def unat_word_of_nat)
qed (simp add: assms(2))

abbreviation hop_bytes :: "u32 \<times> u160 \<Rightarrow> u8 list" where
  "hop_bytes h \<equiv> drop 1 (to_be_bytes (fst h)) @ to_be_bytes (snd h)"

lemma fee_bytes:
  assumes "fee \<le> 0xffffff"
  shows "from_be (0 # drop 1 (to_be_bytes fee)) = (fee :: u32)"
proof -
  obtain b bs where t: "to_be_bytes fee = b # bs" "length bs = 3" using length_to_be_bytes [of fee] by (cases "to_be_bytes fee") auto
  have "unat b * 256 ^ 3 + be_value bs = unat fee" using be_value_to_be_bytes [of fee] t by simp
  then have "be_value bs = unat fee" using assms by (cases "unat b") (auto simp: word_le_nat_alt power_numeral)
  then show ?thesis by (simp add: from_be_def t)
qed

lemma path_loop_Ok:
  "length fees = length tokens \<Longrightarrow> path_loop fees tokens path = Ok p \<longleftrightarrow>
     list_all (\<lambda>f. f \<le> 0xffffff) fees \<and> p = path @ concat (map hop_bytes (zip fees tokens))"
  by (induction fees tokens arbitrary: path rule: list_induct2) (auto simp: not_less)

lemma length_hops: "length (concat (map hop_bytes hops)) = 23 * length hops"
  by (rule length_concat_const) simp

lemma encode_v3_path_Ok:
  "encode_v3_path tokens fees = Ok p \<longleftrightarrow>
     (\<exists>t ts. tokens = t # ts \<and> length fees = length ts \<and> ts \<noteq> [] \<and> list_all (\<lambda>f. f \<le> 0xffffff) fees
       \<and> p = to_be_bytes t @ concat (map hop_bytes (zip fees ts)))"
  by (cases tokens) (auto simp: encode_v3_path_def Let_def path_loop_Ok)

lemma parse_hop_at:
  assumes "length t = 20" "i < length hops" "fst (hops ! i) \<le> 0xffffff"
  shows "parse_hop (t @ concat (map hop_bytes hops)) i = Ok (hops ! i)"
proof -
  let ?p = "t @ concat (map hop_bytes (take i hops))" and ?r = "concat (map hop_bytes (drop (Suc i) hops))"
  obtain f a where h: "hops ! i = (f, a)" by (cases "hops ! i")
  have d: "t @ concat (map hop_bytes hops) = ?p @ drop 1 (to_be_bytes f) @ to_be_bytes a @ ?r"
    using concat_split [OF assms(2), of hop_bytes] by (simp add: h)
  have l: "length ?p = 20 + i * 23" using assms(1,2) length_hops [of "take i hops"] by simp
  have s: "slice (xs @ ys @ zs) (length xs) (length xs + length ys) = (Ok ys :: (u8 list) path_result)"
    for xs ys zs :: "u8 list" by (simp add: slice_def)
  have "slice (?p @ drop 1 (to_be_bytes f) @ to_be_bytes a @ ?r) (20 + i * 23) (20 + i * 23 + 3)
      = (Ok (drop 1 (to_be_bytes f)) :: (u8 list) path_result)"
    using s [of ?p "drop 1 (to_be_bytes f)"] unfolding l by simp
  moreover have "slice (?p @ drop 1 (to_be_bytes f) @ to_be_bytes a @ ?r) (20 + i * 23 + 3) (20 + i * 23 + 3 + 20)
      = (Ok (to_be_bytes a) :: (u8 list) path_result)"
  proof -
    have l': "length (?p @ drop 1 (to_be_bytes f)) = 20 + i * 23 + 3" using l by simp
    show ?thesis using s [of "?p @ drop 1 (to_be_bytes f)" "to_be_bytes a" ?r] unfolding l' by simp
  qed
  moreover have "from_be (0 # drop 1 (to_be_bytes f)) = f" using assms(3) by (intro fee_bytes) (simp add: h)
  ultimately show ?thesis unfolding d h parse_hop_def Let_def by (simp only: obind.simps from_be_address)
qed

lemma parse_encoded_path:
  assumes "encode_v3_path tokens fees = Ok p"
  shows "parse_v3_path p = Ok (tokens, fees)"
proof -
  obtain t ts where e: "tokens = t # ts" "length fees = length ts" "ts \<noteq> []" "list_all (\<lambda>f. f \<le> 0xffffff) fees"
    "p = to_be_bytes t @ concat (map hop_bytes (zip fees ts))" using assms by (auto simp: encode_v3_path_Ok)
  let ?h = "zip fees ts"
  have l: "length p = 20 + 23 * length ts" using e length_hops [of ?h] by simp
  have "collect (parse_hop p) [0 ..< length ts] = Ok ?h"
    unfolding e(5) using e(2,4) by (intro collect_upt parse_hop_at) (auto simp: list_all_length)
  moreover have "slice p 0 20 = (Ok (to_be_bytes t) :: (u8 list) path_result)" unfolding e(5) by (simp add: slice_def)
  moreover have "\<not> length p < 43" "(length p - 20) mod 23 = 0" "(length p - 20) div 23 = length ts"
    using l e(3) by (simp_all add: Suc_le_eq)
  ultimately show ?thesis using e(1,2) by (simp add: parse_v3_path_def Let_def)
qed

lemma collect_OkD: "collect f xs = Ok ys \<Longrightarrow> list_all2 (\<lambda>x y. f x = Ok y) xs ys"
  by (induction xs arbitrary: ys) (auto simp: obind_eq_Ok)

lemma concat_chunks: "length q = k * n \<Longrightarrow> concat (map (\<lambda>i. take k (drop (i * k) q)) [0 ..< n]) = q"
proof (induction n arbitrary: q)
  case (Suc n)
  have "[0 ..< Suc n] = 0 # map Suc [0 ..< n]" by (simp add: upt_conv_Cons map_Suc_upt del: upt_Suc)
  then have "concat (map (\<lambda>i. take k (drop (i * k) q)) [0 ..< Suc n])
      = take k q @ concat (map (\<lambda>i. take k (drop (i * k) (drop k q))) [0 ..< n])"
    by (simp add: comp_def add.commute del: upt_Suc)
  also have "\<dots> = take k q @ drop k q" using Suc.IH [of "drop k q"] Suc.prems by simp
  finally show ?case by simp
qed simp

lemma parse_hop_bytes:
  assumes "parse_hop p i = Ok h" "43 + i * 23 \<le> length p"
  shows "hop_bytes h = take 23 (drop (i * 23) (drop 20 p))" "fst h \<le> 0xffffff"
proof -
  let ?q = "drop (i * 23) (drop 20 p)"
  have q: "20 + i * 23 = i * 23 + 20" by simp
  have h: "h = (from_be (0 # take 3 ?q), from_be (take 20 (drop 3 ?q)))"
    using assms by (simp add: parse_hop_def Let_def slice_def add.commute)
  have l: "length ?q \<ge> 23" using assms(2) by simp
  then have "to_be_bytes (from_be (0 # take 3 ?q) :: u32) = 0 # take 3 ?q" "to_be_bytes (from_be (take 20 (drop 3 ?q)) :: u160) = take 20 (drop 3 ?q)"
    by (intro to_be_bytes_from_be; simp)+
  then show "hop_bytes h = take 23 ?q" using take_add [of 3 20 ?q] by (simp add: h)
  have "be_value (0 # take 3 ?q) < 256 ^ 3" using be_value_bound [of "take 3 ?q"] l by simp
  then show "fst h \<le> 0xffffff" by (simp add: h from_be_def word_le_nat_alt unat_of_nat power_numeral)
qed

lemma encode_parsed_path:
  assumes "parse_v3_path p = Ok (tokens, fees)"
  shows "encode_v3_path tokens fees = Ok p"
proof -
  let ?n = "(length p - 20) div 23"
  obtain hops where c: "43 \<le> length p" "(length p - 20) mod 23 = 0" "collect (parse_hop p) [0 ..< ?n] = Ok hops"
    "tokens = from_be (take 20 p) # map snd hops" "fees = map fst hops"
    using assms by (auto simp: parse_v3_path_def Let_def obind_eq_Ok slice_def split: if_splits)
  have l: "length p = 20 + 23 * ?n" using c(1,2) mult_div_mod_eq [of 23 "length p - 20"] by linarith
  have h: "length hops = ?n" "\<And>i. i < ?n \<Longrightarrow> parse_hop p i = Ok (hops ! i)"
    using collect_OkD [OF c(3)] by (auto simp: list_all2_conv_all_nth)
  have b: "hop_bytes (hops ! i) = take 23 (drop (i * 23) (drop 20 p))" "fst (hops ! i) \<le> 0xffffff" if "i < ?n" for i
  proof -
    have "43 + i * 23 \<le> length p" using that l by linarith
    from parse_hop_bytes [OF h(2) [OF that] this] show "hop_bytes (hops ! i) = take 23 (drop (i * 23) (drop 20 p))"
      "fst (hops ! i) \<le> 0xffffff" by blast+
  qed
  have "map hop_bytes hops = map (\<lambda>i. take 23 (drop (i * 23) (drop 20 p))) [0 ..< ?n]"
    using h(1) b(1) by (intro nth_equalityI) simp_all
  then have "concat (map hop_bytes hops) = drop 20 p" using concat_chunks [of "drop 20 p" 23 ?n] l by simp
  moreover have "to_be_bytes (from_be (take 20 p) :: u160) = take 20 p" using c(1) by (intro to_be_bytes_from_be) simp_all
  moreover have "hops \<noteq> []" using h(1) l c(1) by auto
  ultimately show ?thesis using c(4,5) b(2) h(1)
    by (auto simp: encode_v3_path_Ok list_all_length zip_map_fst_snd)
qed

text \<open>
  V3 paths and their packed bytes correspond one to one: a list of tokens and fees encodes to a byte
  string exactly when parsing that byte string returns these tokens and fees.
\<close>

theorem v3_path_codec: "encode_v3_path tokens fees = Ok p \<longleftrightarrow> parse_v3_path p = Ok (tokens, fees)"
  using parse_encoded_path encode_parsed_path by blast

text \<open>
  The Universal Router decoder inverts both encoders: for every list of commands and inputs whose
  encoding is addressable, decoding the encoded call returns each command classified with its own input,
  in order, up to the shorter list, and the deadline (zero for the call without one).
\<close>

theorem ur_execute_roundtrip:
  assumes "ur_fits U commands inputs"
  shows "obind (encode_ur_execute U commands inputs deadline) (decode_ur_execute U)
      = Ok (map (\<lambda>(c, i). ur_step c i) (zip commands inputs), deadline)
    \<and> obind (encode_ur_execute_no_deadline U commands inputs) (decode_ur_execute U)
      = Ok (map (\<lambda>(c, i). ur_step c i) (zip commands inputs), 0)"
  using ur_execute_roundtrip_with_deadline [OF assms] ur_execute_roundtrip_no_deadline [OF assms] by blast

theorem ur_execute_roundtrip_witness:
  "ur_fits (2 ^ 32) [0x08, 0x8c] [[1, 2, 3], []]
   \<and> obind (encode_ur_execute (2 ^ 32) [0x08, 0x8c] [[1, 2, 3], []] 7) (decode_ur_execute (2 ^ 32))
     = Ok ([\<lparr>cs_kind = UR_V2SwapExactIn, cs_allow_revert = False, cs_raw_input = [1, 2, 3]\<rparr>,
            \<lparr>cs_kind = UR_UnwrapWeth, cs_allow_revert = True, cs_raw_input = []\<rparr>], 7)"
proof -
  have f: "ur_fits (2 ^ 32) [0x08, 0x8c] [[1, 2, 3], []]"
    by (simp add: ur_fits_def tail_len_def array_len_def byte_padding_def power_numeral)
  show ?thesis using ur_execute_roundtrip [OF f, of 7] f
    by (simp add: ur_step_def classify_ur_command_def COMMAND_TYPE_MASK_def FLAG_ALLOW_REVERT_def Let_def)
qed

text \<open>
  The single-call decoders invert their encoders: a V2 swap over at least two tokens, a single-pool V3
  swap whose fee and price limit fit their ABI widths, a V3 path swap in both router versions and an Aave
  liquidation all decode to exactly what was encoded.
\<close>

theorem single_calls_roundtrip:
  assumes "192 + 32 * length path + tail_len (xi_path q) < U" "U \<le> 2 ^ 64" "2 \<le> length path"
    "xs_fee p \<le> 0xffffff" "unat (xs_sqrt_price_limit_x96 p) < 2 ^ 160"
    "encode_v2_swap_exact_tokens_for_tokens a m path to dl = Ok data"
  shows "decode_v2_swap_exact_tokens_for_tokens U data
      = Ok \<lparr>x2_amount_in = a, x2_amount_out_min = m, x2_path = path, x2_to = to, x2_deadline = dl\<rparr>
    \<and> decode_v3_exact_input_single U (encode_v3_exact_input_single p) = Ok p
    \<and> obind (encode_v3_exact_input U q) (decode_v3_exact_input U) = Ok q
    \<and> obind (encode_v3_exact_input_02 U (xi_path q) to a m) (decode_v3_exact_input U)
      = Ok \<lparr>xi_path = xi_path q, xi_recipient = to, xi_deadline = 0, xi_amount_in = a, xi_amount_out_minimum = m\<rparr>
    \<and> decode_aave_v3_liquidation_call U (encode_aave_v3_liquidation_call c d u n r)
      = Ok \<lparr>al_collateral_asset = c, al_debt_asset = d, al_user = u, al_debt_to_cover = n, al_receive_a_token = r\<rparr>"
proof -
  have b: "192 + 32 * length path < U" "192 + tail_len (xi_path q) < U" "256 < U" "160 < U"
    using assms(1,3) by linarith+
  show ?thesis
    using v2_swap_roundtrip [OF assms(3) b(1) assms(2,6)] v3_single_roundtrip [OF assms(4,5) b(3)]
      v3_exact_input_roundtrip [OF b(2) assms(2)] v3_exact_input_02_roundtrip [OF b(2) assms(2)] aave_roundtrip [OF b(4)]
    by blast
qed

theorem single_calls_roundtrip_witness:
  "\<exists>data. encode_v2_swap_exact_tokens_for_tokens 5 4 [1, 2] 3 9 = Ok data
     \<and> decode_v2_swap_exact_tokens_for_tokens (2 ^ 32) data
       = Ok \<lparr>x2_amount_in = 5, x2_amount_out_min = 4, x2_path = [1, 2], x2_to = 3, x2_deadline = 9\<rparr>"
proof -
  obtain data where e: "encode_v2_swap_exact_tokens_for_tokens 5 4 [1, 2] 3 9 = Ok data"
    by (simp add: encode_v2_swap_exact_tokens_for_tokens_def)
  let ?q = "\<lparr>xi_path = [1], xi_recipient = 1, xi_deadline = 1, xi_amount_in = 1, xi_amount_out_minimum = 1\<rparr>"
  let ?p = "\<lparr>xs_token_in = 1, xs_token_out = 2, xs_fee = 3000, xs_recipient = 3, xs_deadline = 4, xs_amount_in = 5,
    xs_amount_out_minimum = 6, xs_sqrt_price_limit_x96 = 7\<rparr>"
  show ?thesis
    using single_calls_roundtrip [of "[1, 2]" ?q "2 ^ 32" ?p 5 4 3 9 data 1 2 3 4 True] e
    by (auto simp: tail_len_def byte_padding_def power_numeral)
qed

section \<open>Arrays of byte strings in the standard encoding\<close>

definition abi_bytes_array :: "u8 list list \<Rightarrow> u8 list" where
  \<comment> \<open>the contract ABI counts the offsets of the elements from behind the length word\<close>
  "abi_bytes_array is = push_u256_word (word_of_nat (length is))
     @ concat (map (\<lambda>n. push_u256_word (word_of_nat n)) (starts (32 * length is) is)) @ tails is"

text \<open>
  \<open>read_bytes_array\<close> counts the element offsets from the length word itself, 32 bytes too early: of an array of
  one byte string in the standard encoding it returns, for every content, not the string but the 32-byte word that
  holds its length.
\<close>

theorem standard_array_misread:
  assumes "96 + length x < U" "U \<le> 2 ^ 64"
  shows "read_bytes_array U (abi_bytes_array [x]) 0 = Ok [push_u256_word (word_of_nat (length x))]"
proof -
  let ?w = "\<lambda>n. push_u256_word (word_of_nat n)"
  let ?post = "x @ replicate (byte_padding (length x)) 0"
  have pad: "byte_padding (length (?w (length x))) = 0" by (simp add: byte_padding_def)
  then have d: "abi_bytes_array [x] = ?w 1 @ push_bytes_tail (?w (length x)) @ ?post"
    by (simp add: abi_bytes_array_def push_bytes_tail_def)
  have "tail_len (?w (length x)) = 64" using pad by (simp add: tail_len_def)
  then have e: "read_bytes U (abi_bytes_array [x]) 32 = Ok (?w (length x))"
    unfolding d using assms by (intro read_bytes_at) simp_all
  have n: "read_u256_usize U (abi_bytes_array [x]) 0 = Ok 1"
    using read_usize_at [of "[]" 0 U 1 "push_bytes_tail (?w (length x)) @ ?post"] assms by (simp add: d)
  have r: "read_u256_usize U (abi_bytes_array [x]) 32 = Ok 32"
    using read_usize_at [of "?w 1" 32 U 32 "?w (length x) @ ?post"] assms by (simp add: abi_bytes_array_def push_bytes_tail_def)
  have "length (abi_bytes_array [x]) = 96 + length x + byte_padding (length x)"
    by (simp add: abi_bytes_array_def tail_len_def)
  then show ?thesis using n r e assms(1) by (simp add: read_bytes_array_def checked_end_def)
qed

theorem standard_array_misread_witness:
  "read_bytes_array (2 ^ 64) (abi_bytes_array [[7]]) 0 = Ok [push_u256_word 1] \<and> push_u256_word 1 \<noteq> [7]"
proof
  show "read_bytes_array (2 ^ 64) (abi_bytes_array [[7]]) 0 = Ok [push_u256_word 1]"
    using standard_array_misread [of "[7]" "2 ^ 64"] by (simp add: power_numeral)
  have "length (push_u256_word 1) \<noteq> length [7 :: u8]" by simp
  then show "push_u256_word 1 \<noteq> [7]" by metis
qed

end
