(* ===== verification/Constant_Product.thy ===== *)
theory Constant_Product
  imports Complex_Main
begin

text \<open>
  The constant-product map of a pool over the reals, and the fractional linear maps \<open>k a / (m a + n)\<close> a route of
  such pools folds into. Both cycle optimisers (\<open>mega_mev_optimization.rs\<close> with fees in basis points and
  \<open>optimizers/mobius_int.rs\<close> with a fee fraction) compute the three coefficients of that map; the facts on its
  monotonicity, its composition, its optimum and its sign are proved here once.
\<close>

definition cp_map :: "real \<Rightarrow> real \<Rightarrow> real \<Rightarrow> real \<Rightarrow> real \<Rightarrow> real" where
  \<comment> \<open>output for the input \<open>a\<close>: reserves \<open>r\<close>, \<open>s\<close>, and the fraction \<open>g / d\<close> of the input kept\<close>
  "cp_map g d r s a = a * g * s / (d * r + a * g)"

definition fl_map :: "real \<Rightarrow> real \<Rightarrow> real \<Rightarrow> real \<Rightarrow> real" where
  "fl_map k m n a = k * a / (m * a + n)"

definition maximises :: "(real \<Rightarrow> real) \<Rightarrow> real \<Rightarrow> bool" where
  "maximises g a \<longleftrightarrow> 0 \<le> a \<and> (\<forall>b \<ge> 0. g b \<le> g a)"

lemma cp_map_fl: "cp_map g d r s a = fl_map (g * s) g (d * r) a"
  by (simp add: cp_map_def fl_map_def ac_simps)

lemma cp_map_nonneg: "0 \<le> a \<Longrightarrow> 0 \<le> g \<Longrightarrow> 0 \<le> d \<Longrightarrow> 0 \<le> r \<Longrightarrow> 0 \<le> s \<Longrightarrow> 0 \<le> cp_map g d r s a"
  by (simp add: cp_map_def)

lemma cp_map_mono:
  assumes "0 < g" "0 < d * r" "0 \<le> s" "0 \<le> a" "a \<le> b"
  shows "cp_map g d r s a \<le> cp_map g d r s b"
proof -
  have "a * (g * (d * r)) \<le> b * (g * (d * r))" using assms by (intro mult_right_mono) simp_all
  then have "a * g * (d * r + b * g) \<le> b * g * (d * r + a * g)" by (simp add: algebra_simps)
  then have "a * g * (d * r + b * g) * s \<le> b * g * (d * r + a * g) * s" using assms(3) by (rule mult_right_mono)
  moreover have "0 < d * r + a * g" "0 < d * r + b * g" using assms by (simp_all add: add_pos_nonneg)
  ultimately show ?thesis by (simp add: cp_map_def frac_le_eq divide_le_eq pos_le_divide_eq field_simps)
qed

lemma cp_map_fold:
  assumes "0 < m" "0 < n" "0 \<le> a"
  shows "cp_map g d r s (fl_map k m n a) = fl_map (g * s * k) (g * k + d * r * m) (d * r * n) a"
proof -
  have t: "0 < m * a + n" using assms by (simp add: add_nonneg_pos)
  have e: "d * r + fl_map k m n a * g = (d * r * (m * a + n) + k * a * g) / (m * a + n)"
    using t by (simp add: fl_map_def field_simps)
  have "cp_map g d r s (fl_map k m n a) = fl_map k m n a * g * s / ((d * r * (m * a + n) + k * a * g) / (m * a + n))"
    unfolding cp_map_def e by (rule refl)
  also have "\<dots> = (k * a * g * s) / (d * r * (m * a + n) + k * a * g)" using t by (simp add: fl_map_def)
  finally show ?thesis by (simp add: fl_map_def algebra_simps)
qed

lemma fl_gain:
  assumes "0 < m" "0 < n" "0 \<le> b"
  shows "fl_map k m n b - b = (k + n) / m - (k * n / (m * b + n) + (m * b + n)) / m"
proof -
  define t where "t = m * b + n"
  have t: "0 < t" using assms by (simp add: t_def add_nonneg_pos)
  have b: "b = (t - n) / m" using assms(1) by (simp add: t_def)
  have "k * b / t - b = k * ((t - n) / m) / t - (t - n) / m" by (simp flip: b)
  also have "\<dots> = (k + n) / m - (k * n / t + t) / m" using t assms(1) by (simp add: field_simps)
  finally show ?thesis by (simp add: t_def fl_map_def)
qed

lemma fl_optimum:
  assumes "0 < k" "0 < m" "0 < n" "n \<le> k" "0 \<le> b"
  defines "a \<equiv> (sqrt (k * n) - n) / m"
  shows "fl_map k m n b - b \<le> fl_map k m n a - a" "0 \<le> a"
proof -
  have "n * n \<le> k * n" using assms(3,4) by (intro mult_right_mono) simp_all
  then have "n \<le> sqrt (k * n)" using assms(3) by (intro real_le_rsqrt) (simp add: power2_eq_square)
  then show a: "0 \<le> a" using assms(2) by (simp add: a_def)
  let ?s = "sqrt (k * n)" and ?t = "m * b + n"
  have s: "m * a + n = ?s" using assms(2) by (simp add: a_def)
  have t: "0 < ?t" using assms by (simp add: add_nonneg_pos)
  have sp: "0 < ?s" "?s * ?s = k * n" using assms(1,3) by simp_all
  have "2 * ?s * ?t \<le> ?s * ?s + ?t * ?t" using zero_le_square [of "?s - ?t"] by (simp add: algebra_simps)
  then have "2 * ?s \<le> (k * n + ?t * ?t) / ?t" using t sp(2) by (simp add: pos_le_divide_eq)
  then have "2 * ?s \<le> k * n / ?t + ?t" using t by (simp add: add_divide_distrib)
  moreover have "k * n / ?s = ?s" using sp by (metis nonzero_eq_divide_eq less_irrefl)
  ultimately have "k * n / ?s + ?s \<le> k * n / ?t + ?t" by linarith
  then have "(k * n / ?s + ?s) / m \<le> (k * n / ?t + ?t) / m" using assms(2) by (intro divide_right_mono) simp_all
  then show "fl_map k m n b - b \<le> fl_map k m n a - a"
    using fl_gain [OF assms(2,3,5)] fl_gain [OF assms(2,3) a] s by simp
qed

lemma fl_no_gain:
  assumes "0 < m" "0 < n" "k \<le> n" "0 \<le> b"
  shows "fl_map k m n b - b \<le> 0"
proof -
  have "k * b \<le> n * b" "0 \<le> b * (m * b)" using assms by (simp_all add: mult_right_mono)
  then have "k * b \<le> b * (m * b + n)" by (simp add: algebra_simps)
  moreover have "0 < m * b + n" using assms by (simp add: add_nonneg_pos)
  ultimately show ?thesis by (simp add: fl_map_def pos_divide_le_eq)
qed

lemma fl_gains_iff:
  assumes "0 < m" "0 < n"
  shows "(\<exists>b > 0. b < fl_map k m n b) \<longleftrightarrow> n < k"
proof
  assume "\<exists>b > 0. b < fl_map k m n b"
  then obtain b where "0 < b" "b < fl_map k m n b" by blast
  then show "n < k" using fl_no_gain [OF assms, of k b] by (cases "k \<le> n") auto
next
  assume nk: "n < k"
  define b where "b = (k - n) / (2 * m)"
  have b: "0 < b" using nk assms by (simp add: b_def)
  have "m * b + n = (k + n) / 2" using assms by (simp add: b_def field_simps)
  moreover have "(k + n) / 2 < k" "0 < (k + n) / 2" using nk assms by simp_all
  ultimately have "b * (m * b + n) < b * k" "0 < m * b + n" using b by (simp_all only: mult_strict_left_mono)
  then have "b < fl_map k m n b" by (simp add: fl_map_def pos_less_divide_eq mult.commute)
  with b show "\<exists>b > 0. b < fl_map k m n b" by blast
qed

end
