(* ===== verification/Mega_Math.thy ===== *)
theory Mega_Math
  imports Constant_Product Mega_Bits
begin

text \<open>
  The arithmetic half of \<open>src/stylus/core/src/mega_mev_optimization.rs\<close>: 512-bit multiply-divide and
  the fixed-point conversions built on it, both integer square roots, and the closed-form optimum of a
  cycle through constant-product pools. The cycle is folded into one fractional linear map; the theory
  shows that the folding is exact over the rationals, that the integer quote of the route never exceeds
  it, and that the size returned is the integer part of the input that maximises the profit.
\<close>

section \<open>Multiply-divide\<close>

datatype MathError = MathDivisionByZero | MathOverflow

definition WAD_UINT :: u256 where "WAD_UINT = 1000000000000000000"
definition MQ96 :: u256 where "MQ96 = 2 ^ 96"
definition MQ128 :: u256 where "MQ128 = 2 ^ 128"
definition V2_FEE_DENOMINATOR_BPS :: u256 where "V2_FEE_DENOMINATOR_BPS = 10000"

type_synonym 'a math_result = "('a, MathError) outcome"

definition mm_ceil_div :: "u256 \<Rightarrow> u256 \<Rightarrow> u256 math_result" where
  "mm_ceil_div a b =
     (if b = 0 then Err MathDivisionByZero
      else if a = 0 then Ok 0
      else obind (u_div (a - 1) b) (\<lambda>q. Ok (q + 1)))"

definition mm_narrow_u512 :: "u512 \<Rightarrow> u256 math_result" where
  "mm_narrow_u512 v = (if to_u512 u_max < v then Err MathOverflow else Ok (ucast v))"

definition mm_mul_div :: "u256 \<Rightarrow> u256 \<Rightarrow> u256 \<Rightarrow> u256 math_result" where
  "mm_mul_div x y denominator =
     (if denominator = 0 then Err MathDivisionByZero
      else
        obind (ok_or (checked_mul (to_u512 x) (to_u512 y)) MathOverflow) (\<lambda>product.
        obind (u_div product (to_u512 denominator)) mm_narrow_u512))"

definition mm_mul_div_up :: "u256 \<Rightarrow> u256 \<Rightarrow> u256 \<Rightarrow> u256 math_result" where
  "mm_mul_div_up x y denominator =
     (if denominator = 0 then Err MathDivisionByZero
      else
        obind (ok_or (checked_mul (to_u512 x) (to_u512 y)) MathOverflow) (\<lambda>product.
        let denominator = to_u512 denominator
        in obind (u_div product denominator) (\<lambda>quotient.
           obind (u_rem product denominator) (\<lambda>r.
           if r = 0 then mm_narrow_u512 quotient
           else obind (ok_or (checked_add quotient 1) MathOverflow) mm_narrow_u512))))"

definition mul_shr :: "u256 \<Rightarrow> u256 \<Rightarrow> u8 \<Rightarrow> u256 math_result" where
  "mul_shr x y shift = mm_mul_div x y (push_bit (unat shift) 1)"

definition mul_shr_up :: "u256 \<Rightarrow> u256 \<Rightarrow> u8 \<Rightarrow> u256 math_result" where
  "mul_shr_up x y shift = mm_mul_div_up x y (push_bit (unat shift) 1)"

definition mul_wad_down :: "u256 \<Rightarrow> u256 \<Rightarrow> u256 math_result" where "mul_wad_down x y = mm_mul_div x y WAD_UINT"
definition mul_wad_up :: "u256 \<Rightarrow> u256 \<Rightarrow> u256 math_result" where "mul_wad_up x y = mm_mul_div_up x y WAD_UINT"
definition div_wad_down :: "u256 \<Rightarrow> u256 \<Rightarrow> u256 math_result" where "div_wad_down x y = mm_mul_div x WAD_UINT y"
definition div_wad_up :: "u256 \<Rightarrow> u256 \<Rightarrow> u256 math_result" where "div_wad_up x y = mm_mul_div_up x WAD_UINT y"
definition mul_q96_down :: "u256 \<Rightarrow> u256 \<Rightarrow> u256 math_result" where "mul_q96_down x y = mm_mul_div x y MQ96"
definition mul_q96_up :: "u256 \<Rightarrow> u256 \<Rightarrow> u256 math_result" where "mul_q96_up x y = mm_mul_div_up x y MQ96"
definition div_q96_down :: "u256 \<Rightarrow> u256 \<Rightarrow> u256 math_result" where "div_q96_down x y = mm_mul_div x MQ96 y"
definition div_q96_up :: "u256 \<Rightarrow> u256 \<Rightarrow> u256 math_result" where "div_q96_up x y = mm_mul_div_up x MQ96 y"
definition mul_q128_down :: "u256 \<Rightarrow> u256 \<Rightarrow> u256 math_result" where "mul_q128_down x y = mm_mul_div x y MQ128"
definition mul_q128_up :: "u256 \<Rightarrow> u256 \<Rightarrow> u256 math_result" where "mul_q128_up x y = mm_mul_div_up x y MQ128"
definition div_q128_down :: "u256 \<Rightarrow> u256 \<Rightarrow> u256 math_result" where "div_q128_down x y = mm_mul_div x MQ128 y"
definition div_q128_up :: "u256 \<Rightarrow> u256 \<Rightarrow> u256 math_result" where "div_q128_up x y = mm_mul_div_up x MQ128 y"
definition q96_to_wad :: "u256 \<Rightarrow> u256 math_result" where "q96_to_wad x = mm_mul_div x WAD_UINT MQ96"
definition wad_to_q96 :: "u256 \<Rightarrow> u256 math_result" where "wad_to_q96 x = mm_mul_div x MQ96 WAD_UINT"
definition q128_to_wad :: "u256 \<Rightarrow> u256 math_result" where "q128_to_wad x = mm_mul_div x WAD_UINT MQ128"
definition wad_to_q128 :: "u256 \<Rightarrow> u256 math_result" where "wad_to_q128 x = mm_mul_div x MQ128 WAD_UINT"

section \<open>Square roots\<close>

text \<open>The loop \<open>loop { y = (z + x / z) >> 1; if y >= z { return z } z = y }\<close>, shared by both widths.\<close>

function sqrt_loop :: "'a::len word \<Rightarrow> 'a word \<Rightarrow> ('a word, 'e) outcome" where
  "sqrt_loop x z =
     (if z = 0 then Panic
      else let y = drop_bit 1 (z + x div z) in if z \<le> y then Ok z else sqrt_loop x y)"
  by pat_completeness auto
termination
  by (relation "measure (\<lambda>(x, z). unat z)") (auto simp: word_less_nat_alt word_le_nat_alt not_le)

declare sqrt_loop.simps [simp del]

definition mm_sqrt :: "u256 \<Rightarrow> (u256, 'e) outcome" where
  "mm_sqrt x =
     (if x \<le> 1 then Ok x
      else let shift = (unat (mm_bit_length x) + 1) div 2 in sqrt_loop x (push_bit shift 1))"

definition sqrt_up :: "u256 \<Rightarrow> (u256, 'e) outcome" where
  "sqrt_up x =
     obind (mm_sqrt x) (\<lambda>z. if z \<noteq> 0 \<and> z < x div z then Ok (z + 1) else Ok z)"

definition sqrt_u512 :: "u512 \<Rightarrow> (u512, 'e) outcome" where
  "sqrt_u512 x = (if x \<le> 1 then Ok x else sqrt_loop x x)"

section \<open>Constant-product cycles\<close>

datatype V2OptimizationError = EmptyPath | InvalidReserves | InvalidFeeBps u256 | CycleOverflow

type_synonym 'a cycle_result = "('a, V2OptimizationError) outcome"

record V2PoolHop =
  reserve_in :: u256
  reserve_out :: u256
  fee_bps :: u256

record V2CycleQuote =
  q_amount_in :: u256
  q_amount_out :: u256
  q_profit :: u256

definition validate_v2_hop :: "V2PoolHop \<Rightarrow> unit cycle_result" where
  "validate_v2_hop hop =
     (if reserve_in hop = 0 \<or> reserve_out hop = 0 then Err InvalidReserves
      else if V2_FEE_DENOMINATOR_BPS \<le> fee_bps hop then Err (InvalidFeeBps (fee_bps hop))
      else Ok ())"

definition narrow_u512_to_v2 :: "u512 \<Rightarrow> u256 cycle_result" where
  "narrow_u512_to_v2 v = (if to_u512 u_max < v then Err CycleOverflow else Ok (ucast v))"

definition checked_add_u512 :: "u512 \<Rightarrow> u512 \<Rightarrow> u512 cycle_result" where
  "checked_add_u512 a b = ok_or (checked_add a b) CycleOverflow"

definition checked_mul_u512 :: "u512 \<Rightarrow> u512 \<Rightarrow> u512 cycle_result" where
  "checked_mul_u512 a b = ok_or (checked_mul a b) CycleOverflow"

definition hop_amount_out :: "V2PoolHop \<Rightarrow> u256 \<Rightarrow> u256 cycle_result" where
  \<comment> \<open>\<open>v2_amount_out\<close>\<close>
  "hop_amount_out hop amount_in =
     obind (validate_v2_hop hop) (\<lambda>_.
     if amount_in = 0 then Ok 0
     else
       let fee_multiplier = V2_FEE_DENOMINATOR_BPS - fee_bps hop
       in obind (checked_mul_u512 (to_u512 amount_in) (to_u512 fee_multiplier)) (\<lambda>amount_in_after_fee.
          obind (checked_mul_u512 amount_in_after_fee (to_u512 (reserve_out hop))) (\<lambda>numerator.
          obind (checked_mul_u512 (to_u512 (reserve_in hop)) (to_u512 V2_FEE_DENOMINATOR_BPS)) (\<lambda>base.
          obind (checked_add_u512 base amount_in_after_fee) (\<lambda>denominator.
          obind (u_div numerator denominator) narrow_u512_to_v2)))))"

fun route_loop :: "V2PoolHop list \<Rightarrow> u256 \<Rightarrow> u256 cycle_result" where
  "route_loop [] amount = Ok amount"
| "route_loop (hop # hops) amount = obind (hop_amount_out hop amount) (route_loop hops)"

definition v2_route_output :: "V2PoolHop list \<Rightarrow> u256 \<Rightarrow> u256 cycle_result" where
  "v2_route_output hops amount_in = (if hops = [] then Err EmptyPath else route_loop hops amount_in)"

fun mobius_loop :: "V2PoolHop list \<Rightarrow> u512 \<times> u512 \<times> u512 \<Rightarrow> (u512 \<times> u512 \<times> u512) cycle_result" where
  "mobius_loop [] (k, m, n) = Ok (k, m, n)"
| "mobius_loop (hop # hops) (k, m, n) =
     obind (validate_v2_hop hop) (\<lambda>_.
     let fee_multiplier = to_u512 (V2_FEE_DENOMINATOR_BPS - fee_bps hop);
         denominator = to_u512 V2_FEE_DENOMINATOR_BPS
     in obind (checked_mul_u512 denominator (to_u512 (reserve_in hop))) (\<lambda>reserve_in_term.
        obind (checked_mul_u512 fee_multiplier (to_u512 (reserve_out hop))) (\<lambda>fee_out.
        obind (checked_mul_u512 fee_out k) (\<lambda>next_k.
        obind (checked_mul_u512 fee_multiplier k) (\<lambda>fee_k.
        obind (checked_mul_u512 reserve_in_term m) (\<lambda>in_m.
        obind (checked_add_u512 fee_k in_m) (\<lambda>next_m.
        obind (checked_mul_u512 reserve_in_term n) (\<lambda>next_n.
          mobius_loop hops (next_k, next_m, next_n)))))))))"

definition v2_route_mobius_coefficients :: "V2PoolHop list \<Rightarrow> (u512 \<times> u512 \<times> u512) cycle_result" where
  "v2_route_mobius_coefficients hops =
     (case hops of
        [] \<Rightarrow> Err EmptyPath
      | first # rest \<Rightarrow>
          obind (validate_v2_hop first) (\<lambda>_.
          let denominator = to_u512 V2_FEE_DENOMINATOR_BPS;
              fee_multiplier = to_u512 (V2_FEE_DENOMINATOR_BPS - fee_bps first)
          in obind (checked_mul_u512 fee_multiplier (to_u512 (reserve_out first))) (\<lambda>k.
             obind (checked_mul_u512 denominator (to_u512 (reserve_in first))) (\<lambda>n.
               mobius_loop rest (k, fee_multiplier, n)))))"

definition optimal_v2_cycle_input :: "V2PoolHop list \<Rightarrow> u256 cycle_result" where
  "optimal_v2_cycle_input hops =
     obind (v2_route_mobius_coefficients hops) (\<lambda>(k, m, n).
     if k \<le> n \<or> m = 0 then Ok 0
     else
       obind (checked_mul_u512 k n) (\<lambda>target.
       obind (sqrt_u512 target) (\<lambda>root.
       if root \<le> n then Ok 0
       else obind (u_div (root - n) m) narrow_u512_to_v2)))"

definition optimal_v2_cycle_quote :: "V2PoolHop list \<Rightarrow> V2CycleQuote cycle_result" where
  "optimal_v2_cycle_quote hops =
     obind (optimal_v2_cycle_input hops) (\<lambda>amount_in.
     if amount_in = 0 then Ok \<lparr>q_amount_in = amount_in, q_amount_out = 0, q_profit = 0\<rparr>
     else
       obind (v2_route_output hops amount_in) (\<lambda>amount_out.
         Ok \<lparr>q_amount_in = amount_in, q_amount_out = amount_out,
             q_profit = (if amount_in \<le> amount_out then amount_out - amount_in else 0)\<rparr>))"

section \<open>Multiply-divide refines the shared contract\<close>

lemma narrow_Ok:
  "mm_narrow_u512 v = Ok r \<longleftrightarrow> unat r = unat v" "narrow_u512_to_v2 v = Ok r \<longleftrightarrow> unat r = unat v"
proof -
  have "to_u512 u_max < v \<longleftrightarrow> \<not> unat v < 2 ^ 256" by (auto simp: word_less_nat_alt unat_u_max power_numeral)
  then have "mm_narrow_u512 v = ok_or (checked_narrow v) MathOverflow" "narrow_u512_to_v2 v = ok_or (checked_narrow v) CycleOverflow"
    by (simp_all add: mm_narrow_u512_def narrow_u512_to_v2_def checked_narrow_def)
  then show "mm_narrow_u512 v = Ok r \<longleftrightarrow> unat r = unat v" "narrow_u512_to_v2 v = Ok r \<longleftrightarrow> unat r = unat v"
    by (simp_all add: ok_or_eq_Ok checked_narrow_Some)
qed

lemma narrow_no_panic: "mm_narrow_u512 v \<noteq> Panic" "narrow_u512_to_v2 v \<noteq> Panic"
  by (simp_all add: mm_narrow_u512_def narrow_u512_to_v2_def)

lemma product_checked: "checked_mul (to_u512 x) (to_u512 y) = Some (to_u512 x * to_u512 y)"
  by (simp add: checked_mul_Some square_fits_u512)

lemma mm_mul_div_Ok: "mm_mul_div x y d = Ok q \<longleftrightarrow> d \<noteq> 0 \<and> unat q = unat x * unat y div unat d"
  by (auto simp: mm_mul_div_def product_checked u_div_def narrow_Ok unat_div_u512)

lemma mm_mul_div_no_panic: "mm_mul_div x y d \<noteq> Panic"
  by (auto simp: mm_mul_div_def product_checked u_div_def narrow_no_panic)

lemma mm_mul_div_up_Ok: "mm_mul_div_up x y d = Ok q \<longleftrightarrow> u256_mul_div_ceil x y d = Ok q"
  by (cases "checked_add (to_u512 x * to_u512 y div to_u512 d) 1")
    (auto simp: mm_mul_div_up_def u256_mul_div_ceil_def product_checked Let_def u_div_def u_rem_def narrow_Ok narrow_u512_Ok)

lemma mm_mul_div_up_no_panic: "mm_mul_div_up x y d \<noteq> Panic"
  by (auto simp: mm_mul_div_up_def product_checked Let_def u_div_def u_rem_def obind_eq_Panic ok_or_neq_Panic narrow_no_panic)

interpretation stylus_math: mul_div_rounding mm_mul_div mm_mul_div_up
  by unfold_locales
    (simp_all add: mm_mul_div_Ok mm_mul_div_no_panic mm_mul_div_up_Ok mm_mul_div_up_no_panic u256_mul_div_ceil_Ok)

section \<open>Both square roots are floor roots\<close>

lemma sqrt_loop_isqrt_loop:
  "z \<noteq> 0 \<Longrightarrow> (sqrt_loop x z :: ('a::len word, 'e) outcome) = isqrt_loop x z (drop_bit 1 (z + x div z))"
proof (induction x z rule: sqrt_loop.induct)
  case (1 x z)
  let ?y = "drop_bit 1 (z + x div z)"
  show ?case
  proof (cases "z \<le> ?y")
    case True
    then show ?thesis using "1.prems" by (simp add: sqrt_loop.simps [of x z] isqrt_loop.simps [of x z] Let_def not_less)
  next
    case False
    have "(sqrt_loop x z :: ('a word, 'e) outcome) = sqrt_loop x ?y" using "1.prems" False by (simp add: sqrt_loop.simps [of x z] Let_def)
    also have "\<dots> = (if ?y = 0 then Panic else isqrt_loop x ?y (drop_bit 1 (?y + x div ?y)))"
      using "1.IH" [OF "1.prems" refl False] by (cases "?y = 0") (simp_all add: sqrt_loop.simps [of x 0])
    also have "\<dots> = isqrt_loop x z ?y"
      using False by (simp only: isqrt_loop.simps [of x z ?y] not_le if_True)
    finally show ?thesis .
  qed
qed

lemma sqrt_loop_candidate:
  fixes x z :: "'a::len word"
  assumes "3 \<le> LENGTH('a)" "newton_candidate (unat x) (unat z)"
  shows "\<exists>r. (sqrt_loop x z :: ('a word, 'e) outcome) = Ok r \<and> floor_root (unat x) (unat r)"
proof -
  have "z \<noteq> 0" using assms(2) by (auto simp: newton_candidate_def)
  then show ?thesis using isqrt_loop_correct [OF assms refl] by (simp add: sqrt_loop_isqrt_loop)
qed

lemma sqrt_loop_after_step:
  fixes x z :: "'a::len word"
  assumes "3 \<le> LENGTH('a)" "z \<noteq> 0" "unat z + unat x div unat z < 2 ^ LENGTH('a)"
    "(unat z + unat x div unat z) div 2 < unat z" "newton_candidate (unat x) ((unat z + unat x div unat z) div 2)"
  shows "\<exists>r. (sqrt_loop x z :: ('a word, 'e) outcome) = Ok r \<and> floor_root (unat x) (unat r)"
proof -
  let ?y = "drop_bit 1 (z + x div z)"
  have y: "unat ?y = (unat z + unat x div unat z) div 2"
    using assms(1,3) by (simp add: unat_drop_bit_eq drop_bit_eq_div unat_word_ariths(1) unat_div)
  then have "\<not> z \<le> ?y" using assms(4) by (simp add: word_le_nat_alt)
  then have "(sqrt_loop x z :: ('a word, 'e) outcome) = sqrt_loop x ?y" using assms(2) by (simp add: sqrt_loop.simps [of x z] Let_def)
  then show ?thesis using sqrt_loop_candidate [of x ?y] assms(1,5) y by simp
qed

lemma sqrt_guess:
  fixes n :: nat
  assumes "1 < n" "bit_length n \<noteq> 3"
  shows "newton_candidate n (2 ^ ((bit_length n + 1) div 2))"
proof -
  let ?b = "bit_length n" and ?s = "(bit_length n + 1) div 2"
  have b: "2 ^ (?b - 1) \<le> n" "n < 2 ^ ?b" "0 < ?b" using bit_length_bounds [of n] assms(1) by auto
  have "1 < ?b"
  proof (rule ccontr)
    assume "\<not> 1 < ?b"
    with b have "n < 2 ^ 1" by (metis less_one linorder_neqE_nat not_less_iff_gr_or_eq nat_less_le)
    with assms(1) show False by simp
  qed
  have "2 ^ ?s \<le> n div 2 + 1"
  proof (cases "?b = 2")
    case True
    then show ?thesis using b(1) by simp
  next
    case False
    with assms(2) \<open>1 < ?b\<close> have "?s \<le> ?b - 2" "2 \<le> ?b" by linarith+
    then have "(2 :: nat) ^ ?s \<le> 2 ^ (?b - 2)" by (intro power_increasing) simp_all
    moreover have "2 * 2 ^ (?b - 2) = (2 :: nat) ^ (?b - 1)" using \<open>2 \<le> ?b\<close> by (simp add: Suc_diff_le flip: power_Suc)
    ultimately show ?thesis using b(1) by linarith
  qed
  moreover have "n < (2 ^ ?s + 1) * (2 ^ ?s + 1)"
  proof -
    have "(2 :: nat) ^ ?b \<le> 2 ^ (?s + ?s)" by (intro power_increasing) linarith+
    also have "\<dots> \<le> (2 ^ ?s + 1) * (2 ^ ?s + 1)" by (simp add: power_add)
    finally show ?thesis using b(2) by linarith
  qed
  ultimately show ?thesis using assms(1) by (simp add: newton_candidate_def)
qed

lemma mm_sqrt_total: "\<exists>r. (mm_sqrt x :: (u256, 'e) outcome) = Ok r \<and> floor_root (unat x) (unat r)"
proof (cases "x \<le> 1")
  case True
  then have "unat x = 0 \<or> unat x = 1" by (auto simp: word_le_nat_alt)
  then show ?thesis using True by (auto simp: mm_sqrt_def floor_root_def)
next
  case False
  then have n: "1 < unat x" by (simp add: word_le_nat_alt)
  let ?s = "(bit_length (unat x) + 1) div 2"
  have "?s < 256" using bit_length_le_256 [of x] by linarith
  then have z: "unat (2 ^ ?s :: u256) = 2 ^ ?s" by (rule unat_two_power)
  have run: "(mm_sqrt x :: (u256, 'e) outcome) = sqrt_loop x (2 ^ ?s)" using False by (simp add: mm_sqrt_def Let_def unat_mm_bit_length)
  show ?thesis
  proof (cases "bit_length (unat x) = 3")
    case False
    then show ?thesis using sqrt_loop_candidate [of x "2 ^ ?s"] sqrt_guess [OF n] z by (simp add: run)
  next
    case True
    then have b: "4 \<le> unat x" "unat x < 8" using bit_length_bounds [of "unat x"] n by (simp_all add: power_numeral)
    then have q: "unat x div 4 = 1" by linarith
    have "newton_candidate (unat x) 2" using b by (auto simp: newton_candidate_def)
    then show ?thesis using run True q sqrt_loop_after_step [of 4 x] by (simp add: power_numeral)
  qed
qed

lemma sqrt_u512_total:
  assumes "x \<noteq> u_max"
  shows "\<exists>r. sqrt_u512 x = Ok r \<and> floor_root (unat x) (unat r)"
proof (cases "x \<le> 1")
  case True
  then have "unat x = 0 \<or> unat x = 1" by (auto simp: word_le_nat_alt)
  then show ?thesis using True by (auto simp: sqrt_u512_def floor_root_def)
next
  case False
  then have n: "1 < unat x" by (simp add: word_le_nat_alt)
  then have q: "unat x div unat x = 1" by simp
  have "unat x + 1 < 2 ^ 512"
    using unat_plus_one [OF assms] unat_bound [of "x + 1"] by simp
  moreover have "newton_candidate (unat x) ((unat x + 1) div 2)"
    using newton_above [of "unat x" "unat x"] n q by (auto simp: newton_candidate_def)
  moreover have "x \<noteq> 0" "(unat x + 1) div 2 < unat x" using n by auto
  ultimately show ?thesis using sqrt_loop_after_step [of x x] q False by (simp add: sqrt_u512_def)
qed

lemma sqrt_u512_panics: "sqrt_u512 u_max = Panic"
proof -
  have nz: "(u_max :: u512) \<noteq> 0" by (simp add: u_max_def)
  have le: "\<not> (u_max :: u512) \<le> 1" by (simp add: word_le_nat_alt unat_u_max power_numeral)
  have "(u_max :: u512) div u_max = 1" using nz by (simp only: word_unat_eq_iff unat_div) (simp add: unat_eq_zero)
  then have "drop_bit 1 ((u_max :: u512) + u_max div u_max) = 0" by (simp add: u_max_def)
  then show ?thesis using nz le
    by (simp only: sqrt_u512_def sqrt_loop.simps [of u_max u_max] sqrt_loop.simps [of u_max 0] Let_def if_False if_True)
      (simp add: u_max_def)
qed

section \<open>Exact composition of the cycle\<close>

declare of_nat_unat [simp del]

definition fee_mult :: "V2PoolHop \<Rightarrow> nat" where
  "fee_mult h = 10000 - unat (fee_bps h)"

definition valid_hop :: "V2PoolHop \<Rightarrow> bool" where
  "valid_hop h \<longleftrightarrow> 0 < unat (reserve_in h) \<and> 0 < unat (reserve_out h) \<and> 0 < fee_mult h"

text \<open>The constant-product map of one pool over the reals, and that of the whole route.\<close>

definition hop_exact :: "V2PoolHop \<Rightarrow> real \<Rightarrow> real" where
  "hop_exact h = cp_map (real (fee_mult h)) 10000 (real (unat (reserve_in h))) (real (unat (reserve_out h)))"

fun route_exact :: "V2PoolHop list \<Rightarrow> real \<Rightarrow> real" where
  "route_exact [] a = a"
| "route_exact (h # hs) a = route_exact hs (hop_exact h a)"

definition gain :: "V2PoolHop list \<Rightarrow> real \<Rightarrow> real" where
  "gain hs a = route_exact hs a - a"

lemma validate_Ok: "validate_v2_hop h = Ok u \<longleftrightarrow> valid_hop h"
  by (auto simp: validate_v2_hop_def valid_hop_def fee_mult_def V2_FEE_DENOMINATOR_BPS_def word_le_nat_alt unat_gt_0)

lemma validate_no_panic: "validate_v2_hop h \<noteq> Panic"
  by (simp add: validate_v2_hop_def)

lemma unat_fee_mult: "valid_hop h \<Longrightarrow> unat (V2_FEE_DENOMINATOR_BPS - fee_bps h) = fee_mult h"
  by (simp add: valid_hop_def fee_mult_def V2_FEE_DENOMINATOR_BPS_def unat_sub word_le_nat_alt)

lemma unat_fee_denominator: "unat V2_FEE_DENOMINATOR_BPS = 10000"
  by (simp add: V2_FEE_DENOMINATOR_BPS_def)

lemma checked_u512_Ok:
  "checked_mul_u512 a b = Ok c \<longleftrightarrow> unat c = unat a * unat b" "checked_add_u512 a b = Ok c \<longleftrightarrow> unat c = unat a + unat b"
  by (simp_all add: checked_mul_u512_def checked_add_u512_def ok_or_eq_Ok checked_mul_Some checked_add_Some)

lemma checked_u512_no_panic: "checked_mul_u512 a b \<noteq> Panic" "checked_add_u512 a b \<noteq> Panic"
  by (simp_all add: checked_mul_u512_def checked_add_u512_def ok_or_neq_Panic)

lemmas cycle_Ok = obind_eq_Ok validate_Ok checked_u512_Ok narrow_Ok u_div_eq_Ok

lemma hop_exact_mono: "valid_hop h \<Longrightarrow> 0 \<le> a \<Longrightarrow> a \<le> b \<Longrightarrow> hop_exact h a \<le> hop_exact h b"
  unfolding hop_exact_def by (rule cp_map_mono) (simp_all add: valid_hop_def)

lemma hop_exact_nonneg: "0 \<le> a \<Longrightarrow> 0 \<le> hop_exact h a"
  by (simp add: hop_exact_def cp_map_nonneg)

lemma hop_amount_out_below:
  assumes "hop_amount_out h a = Ok r"
  shows "valid_hop h \<and> real (unat r) \<le> hop_exact h (real (unat a))"
proof (cases "a = 0")
  case True
  then show ?thesis using assms by (auto simp: hop_amount_out_def cycle_Ok hop_exact_def cp_map_def)
next
  case False
  with assms have v: "valid_hop h" by (auto simp: hop_amount_out_def cycle_Ok)
  let ?n = "unat a * fee_mult h * unat (reserve_out h)" and ?d = "unat (reserve_in h) * 10000 + unat a * fee_mult h"
  have "unat r = ?n div ?d"
    using assms False v
    by (auto simp: hop_amount_out_def cycle_Ok Let_def unat_fee_mult unat_fee_denominator unat_div)
  moreover have "real (?n div ?d) \<le> real ?n / real ?d" by (rule of_nat_div_le_of_nat)
  ultimately show ?thesis using v by (simp add: hop_exact_def cp_map_def mult.commute)
qed

lemma route_loop_below:
  "route_loop hs a = Ok r \<Longrightarrow> list_all valid_hop hs \<and> (\<forall>b \<ge> real (unat a). real (unat r) \<le> route_exact hs b)"
proof (induction hs arbitrary: a)
  case (Cons h hs)
  then obtain c where c: "hop_amount_out h a = Ok c" "route_loop hs c = Ok r" by (auto simp: obind_eq_Ok)
  note h = hop_amount_out_below [OF c(1)]
  note t = Cons.IH [OF c(2)]
  have "real (unat r) \<le> route_exact hs (hop_exact h b)" if "real (unat a) \<le> b" for b
  proof -
    have "real (unat c) \<le> hop_exact h b"
      using h that by (intro order_trans [OF conjunct2 [OF h] hop_exact_mono]) auto
    then show ?thesis using t by blast
  qed
  then show ?case using h t by simp
qed simp

text \<open>The coefficients the loop carries.\<close>

definition folds_to :: "(real \<Rightarrow> real) \<Rightarrow> u512 \<times> u512 \<times> u512 \<Rightarrow> bool" where
  "folds_to g c \<longleftrightarrow> (case c of (k, m, n) \<Rightarrow> 0 < unat k \<and> 0 < unat m \<and> 0 < unat n \<and> even (unat n)
     \<and> (\<forall>a \<ge> 0. g a = fl_map (real (unat k)) (real (unat m)) (real (unat n)) a))"

lemma mobius_loop_folds:
  "mobius_loop hs c = Ok c' \<Longrightarrow> folds_to g c \<Longrightarrow> folds_to (\<lambda>a. route_exact hs (g a)) c' \<and> list_all valid_hop hs"
proof (induction hs arbitrary: c g)
  case (Cons h hs)
  obtain k m n where c: "c = (k, m, n)" by (cases c)
  from Cons.prems(1) [unfolded c] have v: "valid_hop h" by (auto simp: cycle_Ok)
  from Cons.prems(1) [unfolded c] obtain k' m' n' where e: "unat k' = fee_mult h * unat (reserve_out h) * unat k"
    "unat m' = fee_mult h * unat k + 10000 * unat (reserve_in h) * unat m" "unat n' = 10000 * unat (reserve_in h) * unat n"
    "mobius_loop hs (k', m', n') = Ok c'"
    by (auto simp: cycle_Ok Let_def unat_fee_mult [OF v] unat_fee_denominator)
  have p: "0 < unat k" "0 < unat m" "0 < unat n" "\<And>a. 0 \<le> a \<Longrightarrow> g a = fl_map (real (unat k)) (real (unat m)) (real (unat n)) a"
    using Cons.prems(2) c by (auto simp: folds_to_def)
  have "hop_exact h (g a) = fl_map (real (unat k')) (real (unat m')) (real (unat n')) a" if "0 \<le> a" for a
    using p that by (simp add: hop_exact_def cp_map_fold e(1-3))
  then have "folds_to (\<lambda>a. hop_exact h (g a)) (k', m', n')"
    using p(1-3) v by (simp add: folds_to_def e(1-3) valid_hop_def)
  from Cons.IH [OF e(4) this] v show ?case by simp
next
  case Nil
  then show ?case by (cases c) simp
qed

lemma coefficients_fold:
  assumes "v2_route_mobius_coefficients hs = Ok c"
  shows "folds_to (route_exact hs) c \<and> list_all valid_hop hs"
proof -
  obtain h rest where hs: "hs = h # rest" using assms by (cases hs) (auto simp: v2_route_mobius_coefficients_def)
  with assms have v: "valid_hop h" by (auto simp: v2_route_mobius_coefficients_def cycle_Ok)
  from assms obtain k n where e: "unat k = fee_mult h * unat (reserve_out h)" "unat n = 10000 * unat (reserve_in h)"
    "mobius_loop rest (k, to_u512 (V2_FEE_DENOMINATOR_BPS - fee_bps h), n) = Ok c"
    by (auto simp: v2_route_mobius_coefficients_def hs cycle_Ok Let_def unat_fee_mult [OF v] unat_fee_denominator)
  have "folds_to (hop_exact h) (k, to_u512 (V2_FEE_DENOMINATOR_BPS - fee_bps h), n)"
    using v by (simp add: folds_to_def e unat_fee_mult hop_exact_def cp_map_fl valid_hop_def ac_simps)
  from mobius_loop_folds [OF e(3) this] v show ?thesis by (simp add: hs folds_to_def)
qed

section \<open>The optimal input\<close>

lemma floor_root_sqrt: "floor_root n r \<Longrightarrow> real r \<le> sqrt (real n) \<and> sqrt (real n) < real r + 1"
proof -
  assume "floor_root n r"
  then have "r * r \<le> n" "n < (r + 1) * (r + 1)" by (simp_all add: floor_root_def)
  then have "real (r * r) \<le> real n" "real n < real ((r + 1) * (r + 1))" by (simp_all only: of_nat_le_iff of_nat_less_iff)
  then have "(real r)\<^sup>2 \<le> real n" "real n < (real r + 1)\<^sup>2" by (simp_all add: power2_eq_square algebra_simps)
  then show ?thesis by (simp add: real_le_rsqrt real_less_lsqrt)
qed

lemma div_floor_bounds:
  fixes s :: real
  assumes "real r \<le> s" "s < real r + 1" "n \<le> r" "0 < m"
  shows "real ((r - n) div m) \<le> (s - real n) / real m" "(s - real n) / real m < real ((r - n) div m) + 1"
proof -
  let ?q = "(r - n) div m"
  have "?q * m \<le> r - n" "r - n < (?q + 1) * m"
    using dividend_less_div_times [OF assms(4), of "r - n"] by simp_all
  then have "n + ?q * m \<le> r" "r + 1 \<le> n + (?q + 1) * m" using assms(3) by linarith+
  then have "real (n + ?q * m) \<le> real r" "real (r + 1) \<le> real (n + (?q + 1) * m)" by (simp_all only: of_nat_le_iff)
  then have "real n + real ?q * real m \<le> s" "s < real n + (real ?q + 1) * real m"
    using assms(1,2) by (simp_all add: algebra_simps)
  then show "real ?q \<le> (s - real n) / real m" "(s - real n) / real m < real ?q + 1"
    using assms(4) by (simp_all add: pos_le_divide_eq pos_divide_less_eq algebra_simps)
qed

lemma coefficients_no_panic: "v2_route_mobius_coefficients hs \<noteq> Panic"
proof -
  have "mobius_loop hs c \<noteq> Panic" for hs c
    by (induction hs c rule: mobius_loop.induct)
      (auto simp: obind_eq_Panic Let_def validate_no_panic checked_u512_no_panic validate_Ok)
  then show ?thesis
    by (auto simp: v2_route_mobius_coefficients_def obind_eq_Panic Let_def validate_no_panic checked_u512_no_panic
        split: list.splits)
qed

lemma even_not_max: "even (unat (w :: u512)) \<Longrightarrow> w \<noteq> u_max"
  by (auto simp: unat_u_max power_numeral)

lemma optimal_input_parts:
  assumes "v2_route_mobius_coefficients hs = Ok (k, m, n)" "n < k" "unat (t :: u512) = unat k * unat n"
  shows "\<exists>r. floor_root (unat k * unat n) (unat r) \<and> n \<le> r
    \<and> optimal_v2_cycle_input hs = narrow_u512_to_v2 ((r - n) div m)"
proof -
  note f = coefficients_fold [OF assms(1)]
  then have p: "0 < unat m" "even (unat n)" by (auto simp: folds_to_def)
  then have m: "m \<noteq> 0" by (auto simp: unat_gt_0)
  have "even (unat t)" using p(2) assms(3) by simp
  then obtain r where r: "(sqrt_u512 t :: u512 cycle_result) = Ok r" "floor_root (unat t) (unat r)"
    using sqrt_u512_total [OF even_not_max] by blast
  have "unat n * unat n \<le> unat t" using assms(2,3) by (simp add: word_less_nat_alt)
  then have "\<not> (unat r + 1) * (unat r + 1) \<le> unat n * unat n" using r(2) by (auto simp: floor_root_def)
  then have le: "n \<le> r" using mult_le_mono [of "unat r + 1" "unat n" "unat r + 1" "unat n"] by (force simp: word_le_nat_alt)
  have t: "checked_mul_u512 k n = Ok t" using assms(3) by (simp add: checked_u512_Ok)
  have z: "narrow_u512_to_v2 0 = Ok 0" by (simp add: narrow_Ok)
  have "optimal_v2_cycle_input hs = (if r \<le> n then Ok 0 else narrow_u512_to_v2 ((r - n) div m))"
    using assms(1,2) m t r(1) by (auto simp: optimal_v2_cycle_input_def u_div_def)
  then have "optimal_v2_cycle_input hs = narrow_u512_to_v2 ((r - n) div m)" using le z by (auto dest: antisym)
  then show ?thesis using r(2) le assms(3) by auto
qed

text \<open>
  C25. The size \<open>optimal_v2_cycle_input\<close> returns is the integer part of the input that maximises the profit
  of the cycle over all real inputs, whatever the number of pools, their reserves and their fees; the
  computation never divides by zero.
\<close>

theorem optimal_cycle_input_maximises:
  "case optimal_v2_cycle_input hs of
     Ok x \<Rightarrow> (\<exists>a. maximises (gain hs) a \<and> real (unat x) \<le> a \<and> a < real (unat x) + 1)
   | Err e \<Rightarrow> True | Panic \<Rightarrow> False"
proof (cases "v2_route_mobius_coefficients hs")
  case (Ok c)
  obtain k m n where c: "c = (k, m, n)" by (cases c)
  note co = Ok [unfolded c]
  note f = coefficients_fold [OF co]
  then have p: "0 < real (unat k)" "0 < real (unat m)" "0 < real (unat n)"
    and g: "\<And>b. 0 \<le> b \<Longrightarrow> gain hs b = fl_map (real (unat k)) (real (unat m)) (real (unat n)) b - b"
    by (auto simp: folds_to_def gain_def)
  show ?thesis
  proof (cases "k \<le> n")
    case True
    then have "gain hs b \<le> gain hs 0" if "0 \<le> b" for b
      using fl_no_gain [OF p(2,3) _ that, of "real (unat k)"] that by (simp add: g word_le_nat_alt fl_map_def [of _ _ _ 0])
    then have "maximises (gain hs) 0" by (simp add: maximises_def)
    then show ?thesis using co True by (auto simp: optimal_v2_cycle_input_def)
  next
    case False
    then have nk: "n < k" "real (unat n) \<le> real (unat k)" by (simp_all add: word_less_nat_alt word_le_nat_alt)
    show ?thesis
    proof (cases "checked_mul_u512 k n")
      case (Ok t)
      then have t: "unat t = unat k * unat n" by (simp add: checked_u512_Ok)
      obtain r where r: "floor_root (unat k * unat n) (unat r)" "n \<le> r"
        "optimal_v2_cycle_input hs = narrow_u512_to_v2 ((r - n) div m)" using optimal_input_parts [OF co nk(1) t] by blast
      let ?a = "(sqrt (real (unat k) * real (unat n)) - real (unat n)) / real (unat m)"
      have a: "0 \<le> ?a" using fl_optimum(2) [OF p nk(2), of 0] by simp
      have "gain hs b \<le> gain hs ?a" if "0 \<le> b" for b
        unfolding g [OF that] g [OF a] by (rule fl_optimum(1) [OF p nk(2) that])
      with a have "maximises (gain hs) ?a" by (simp add: maximises_def)
      moreover have "real (unat x) \<le> ?a \<and> ?a < real (unat x) + 1" if "narrow_u512_to_v2 ((r - n) div m) = Ok x" for x
      proof -
        have "unat x = (unat r - unat n) div unat m" using that r(2) by (simp add: narrow_Ok unat_div unat_sub)
        then show ?thesis
          using div_floor_bounds [of "unat r" _ "unat n" "unat m"] floor_root_sqrt [OF r(1)] r(2) p(2)
          by (simp add: word_le_nat_alt)
      qed
      ultimately show ?thesis using r(3) narrow_no_panic(2) [of "(r - n) div m"]
        by (cases "narrow_u512_to_v2 ((r - n) div m)") auto
    qed (use co False checked_u512_no_panic p(2) in \<open>auto simp: optimal_v2_cycle_input_def unat_gt_0\<close>)
  qed
qed (use coefficients_no_panic in \<open>simp_all add: optimal_v2_cycle_input_def\<close>)

text \<open>
  The integer quote of a route, rounded down at every pool, never exceeds the fractional linear map
  whose coefficients the optimiser folds the route into: an output \<open>r\<close> for an input \<open>a\<close> satisfies
  \<open>r * (m * a + n) \<le> k * a\<close>.
\<close>

theorem route_output_below_fold:
  assumes "v2_route_mobius_coefficients hs = Ok (k, m, n)" "v2_route_output hs a = Ok r"
  shows "unat r * (unat m * unat a + unat n) \<le> unat k * unat a"
proof -
  have "route_loop hs a = Ok r" using assms(2) by (auto simp: v2_route_output_def split: if_splits)
  then have "real (unat r) \<le> route_exact hs (real (unat a))" using route_loop_below by blast
  also have "\<dots> = real (unat k) * real (unat a) / (real (unat m) * real (unat a) + real (unat n))"
    using coefficients_fold [OF assms(1)] by (simp add: folds_to_def fl_map_def)
  finally have "real (unat r) * (real (unat m) * real (unat a) + real (unat n)) \<le> real (unat k) * real (unat a)"
    using coefficients_fold [OF assms(1)] by (simp add: folds_to_def pos_le_divide_eq add_nonneg_pos)
  then have "real (unat r * (unat m * unat a + unat n)) \<le> real (unat k * unat a)" by simp
  then show ?thesis by (simp only: of_nat_le_iff)
qed

definition sample_cycle :: "V2PoolHop list" where
  "sample_cycle = [\<lparr>reserve_in = 100, reserve_out = 200, fee_bps = 30\<rparr>, \<lparr>reserve_in = 100, reserve_out = 100, fee_bps = 5\<rparr>]"

lemma narrow_samples: "narrow_u512_to_v2 18 = Ok 18" "narrow_u512_to_v2 22 = Ok 22"
  by (simp_all add: narrow_Ok)

lemma sample_cycle_values:
  "v2_route_mobius_coefficients sample_cycle = Ok (1993003000000, 29900030000, 1000000000000)"
  "v2_route_output sample_cycle 13 = Ok 18"
  by (simp_all add: sample_cycle_def v2_route_mobius_coefficients_def v2_route_output_def hop_amount_out_def
      validate_v2_hop_def V2_FEE_DENOMINATOR_BPS_def checked_mul_u512_def checked_add_u512_def narrow_samples
      to_u512_def word_defs power_numeral)

theorem route_output_below_fold_witness:
  "v2_route_mobius_coefficients sample_cycle = Ok (1993003000000, 29900030000, 1000000000000)
   \<and> v2_route_output sample_cycle 13 = Ok 18
   \<and> (18 :: nat) * (29900030000 * 13 + 1000000000000) \<le> 1993003000000 * 13"
  using route_output_below_fold [OF sample_cycle_values(1,2)] sample_cycle_values by simp

section \<open>The rounded-up square root\<close>

lemma sqrt_up_Ok:
  assumes "floor_root (unat x) (unat (z :: u256))"
  shows "(sqrt_up x :: (u256, 'e) outcome) = Ok (if z \<noteq> 0 \<and> unat z * (unat z + 1) \<le> unat x then z + 1 else z)"
proof -
  have "z < x div z \<longleftrightarrow> unat z * (unat z + 1) \<le> unat x" if "z \<noteq> 0"
  proof -
    have "0 < unat z" using that by (simp add: unat_gt_0)
    then have "unat z + 1 \<le> unat x div unat z \<longleftrightarrow> (unat z + 1) * unat z \<le> unat x" by (rule less_eq_div_iff_mult_less_eq)
    then show ?thesis by (simp add: word_less_nat_alt unat_div mult.commute Suc_le_eq)
  qed
  moreover obtain s where s: "(mm_sqrt x :: (u256, 'e) outcome) = Ok s" "floor_root (unat x) (unat s)"
    using mm_sqrt_total by blast
  then have "s = z" using floor_root_unique [OF s(2) assms] by (simp only: word_unat_eq_iff)
  ultimately show ?thesis using s(1) by (cases "z = 0") (simp_all add: sqrt_up_def)
qed

text \<open>
  \<open>sqrt_up\<close> is not the rounded-up square root: it always returns, but between \<open>z * z + 1\<close> and
  \<open>z * (z + 1) - 1\<close> it returns the floor root \<open>z\<close> itself, whose square is below the argument; for 5 it
  returns 2.
\<close>

theorem sqrt_up_rounds_down:
  "(\<exists>z r. (sqrt_up x :: (u256, 'e) outcome) = Ok r \<and> floor_root (unat x) (unat z)
     \<and> r = (if z \<noteq> 0 \<and> unat z * (unat z + 1) \<le> unat x then z + 1 else z))
   \<and> (sqrt_up 5 :: (u256, 'e) outcome) = Ok 2 \<and> unat (2 :: u256) * unat (2 :: u256) < unat (5 :: u256)"
proof -
  obtain z :: u256 where "floor_root (unat x) (unat z)" using mm_sqrt_total [of x] by blast
  moreover have "(sqrt_up 5 :: (u256, 'e) outcome) = Ok 2" using sqrt_up_Ok [of 5 2] by (simp add: floor_root_def)
  ultimately show ?thesis using sqrt_up_Ok [of x z] by (intro conjI exI [of _ z] exI) simp_all
qed

declare of_nat_unat [simp]

end
