(* ===== verification/Frontrun_Math.thy ===== *)
theory Frontrun_Math
  imports V2_Optimize Mega_Math
begin

text \<open>
  The arithmetic half of \<open>src/stylus/core/src/frontrun_calldata.rs\<close>: the constant-product quote and the
  front-run size in checked 256-bit arithmetic. Both have a counterpart in the simulator
  (\<open>simulation/v2.rs\<close>, \<open>simulation/v2_optimize.rs\<close>); the theory shows that the two crates agree.
\<close>

section \<open>The routines\<close>

datatype FrontrunMathError = FM_InvalidReserves | FM_InvalidFeeBps u256 | FM_InvalidMarginBps u256 | FM_Overflow

type_synonym 'a fm_result = "('a, FrontrunMathError) outcome"

definition FM_BPS_DENOMINATOR :: u256 where
  "FM_BPS_DENOMINATOR = 10000"

definition fm_checked_add :: "u256 \<Rightarrow> u256 \<Rightarrow> u256 fm_result" where
  "fm_checked_add a b = ok_or (checked_add a b) FM_Overflow"

definition fm_checked_mul :: "u256 \<Rightarrow> u256 \<Rightarrow> u256 fm_result" where
  "fm_checked_mul a b = ok_or (checked_mul a b) FM_Overflow"

definition checked_mul_div :: "u256 \<Rightarrow> u256 \<Rightarrow> u256 \<Rightarrow> u256 fm_result" where
  "checked_mul_div a b denominator =
     (if denominator = 0 then Err FM_Overflow else obind (fm_checked_mul a b) (\<lambda>p. u_div p denominator))"

definition checked_mul_div3 :: "u256 \<Rightarrow> u256 \<Rightarrow> u256 \<Rightarrow> u256 \<Rightarrow> u256 fm_result" where
  "checked_mul_div3 a b c denominator =
     (if denominator = 0 then Err FM_Overflow
      else obind (fm_checked_mul a b) (\<lambda>p. obind (fm_checked_mul p c) (\<lambda>q. u_div q denominator)))"

definition get_amount_out :: "u256 \<Rightarrow> u256 \<Rightarrow> u256 \<Rightarrow> u256 \<Rightarrow> u256 fm_result" where
  "get_amount_out amount_in res_in res_out fee =
     (if amount_in = 0 then Ok 0
      else if res_in = 0 \<or> res_out = 0 then Err FM_InvalidReserves
      else if FM_BPS_DENOMINATOR \<le> fee then Err (FM_InvalidFeeBps fee)
      else
        obind (ok_or (checked_mul amount_in (FM_BPS_DENOMINATOR - fee)) FM_Overflow) (\<lambda>amount_in_with_fee.
        obind (ok_or (checked_mul amount_in_with_fee res_out) FM_Overflow) (\<lambda>numerator.
        obind (ok_or (Option.bind (checked_mul res_in FM_BPS_DENOMINATOR)
            (\<lambda>base. checked_add base amount_in_with_fee)) FM_Overflow) (\<lambda>denominator.
          u_div numerator denominator))))"

definition fm_optimal_v2_frontrun_amount ::
    "u256 \<Rightarrow> u256 \<Rightarrow> u256 \<Rightarrow> u256 \<Rightarrow> u256 \<Rightarrow> u256 \<Rightarrow> u256 fm_result" where
  "fm_optimal_v2_frontrun_amount victim_amount_in victim_min_out res_in res_out fee margin_bps =
     (if FM_BPS_DENOMINATOR \<le> fee then Err (FM_InvalidFeeBps fee)
      else if FM_BPS_DENOMINATOR \<le> margin_bps then Err (FM_InvalidMarginBps margin_bps)
      else if res_in = 0 \<or> res_out = 0 then Err FM_InvalidReserves
      else if victim_amount_in = 0 \<or> victim_min_out = 0 then Ok 0
      else
        obind (get_amount_out victim_amount_in res_in res_out fee) (\<lambda>baseline_out.
        if baseline_out \<le> victim_min_out then Ok 0
        else
        let g_bps = FM_BPS_DENOMINATOR - fee
        in
        obind (fm_checked_mul g_bps victim_amount_in) (\<lambda>g_bps_av.
        obind (fm_checked_mul res_in FM_BPS_DENOMINATOR) (\<lambda>inner0.
        obind (fm_checked_add inner0 g_bps_av) (\<lambda>inner_first.
        obind (checked_mul_div res_in inner_first g_bps) (\<lambda>c1_pos.
        obind (checked_mul_div3 victim_amount_in res_in res_out victim_min_out) (\<lambda>c1_neg.
        if c1_neg \<le> c1_pos then Ok 0
        else
        obind (checked_mul_div res_in (FM_BPS_DENOMINATOR + g_bps) g_bps) (\<lambda>lhs.
        obind (fm_checked_mul g_bps victim_amount_in) (\<lambda>rhs0.
        obind (u_div rhs0 FM_BPS_DENOMINATOR) (\<lambda>rhs.
        obind (fm_checked_add lhs rhs) (\<lambda>b1_over_a1.
        let abs_c1_over_a1 = c1_neg - c1_pos;
            half_b = b1_over_a1 div 2
        in
        obind (fm_checked_mul half_b half_b) (\<lambda>half_b_sq.
        obind (fm_checked_add half_b_sq abs_c1_over_a1) (\<lambda>disc.
        obind (mm_sqrt disc) (\<lambda>sqrt_disc.
        if sqrt_disc \<le> half_b then Ok 0
        else
        let frontrun_amount = sqrt_disc - half_b
        in
        if margin_bps \<noteq> 0 then
          obind (fm_checked_mul frontrun_amount (FM_BPS_DENOMINATOR - margin_bps)) (\<lambda>scaled.
            u_div scaled FM_BPS_DENOMINATOR)
        else Ok frontrun_amount))))))))))))))"

section \<open>The quotes agree\<close>

definition quote_agrees :: "(u256, 'e) outcome \<Rightarrow> (u256, 'f) outcome \<Rightarrow> bool" where
  "quote_agrees m m' \<longleftrightarrow> (case (m, m') of (Ok a, Ok b) \<Rightarrow> a = b | (Err e, Err e') \<Rightarrow> True | (Panic, Panic) \<Rightarrow> True | _ \<Rightarrow> False)"

lemma quote_agrees_simps [simp]:
  "quote_agrees (Ok a) (Ok b) \<longleftrightarrow> a = b" "quote_agrees (Err e) (Err e')" "quote_agrees Panic Panic"
  by (simp_all add: quote_agrees_def)

lemma agree_ok_or: "(\<And>x. quote_agrees (f x) (g x)) \<Longrightarrow> quote_agrees (obind (ok_or c e) f) (obind (ok_or c e') g)"
  by (cases c) simp_all

lemma agree_if: "(\<not> c \<Longrightarrow> quote_agrees m m') \<Longrightarrow> quote_agrees (if c then Ok a else m) (if c then Ok a else m')"
  by simp

lemma unat_ucast_u32: "unat (ucast (w :: u32) :: u256) = unat w"
  using unat_bound [of w] by (simp add: unsigned_ucast_eq take_bit_nat_eq_self power_numeral)

lemma ucast_sub_bps: "f \<le> (10000 :: u32) \<Longrightarrow> (ucast (10000 - f) :: u256) = 10000 - ucast f"
  by (simp add: word_unat_eq_iff unat_ucast_u32 unat_sub word_le_nat_alt)

lemma isqrt_mm_sqrt: "(isqrt n :: (u256, 'e) outcome) = Ok r \<Longrightarrow> (mm_sqrt n :: (u256, 'f) outcome) = Ok r"
proof -
  assume r: "(isqrt n :: (u256, 'e) outcome) = Ok r"
  obtain s where s: "(mm_sqrt n :: (u256, 'f) outcome) = Ok s" "floor_root (unat n) (unat s)" using mm_sqrt_total by blast
  then show ?thesis using floor_root_unique [of "unat n" "unat r" "unat s"] r by (simp add: isqrt_Ok word_unat_eq_iff)
qed

lemma frontrun_tail_agrees:
  assumes "margin < (10000 :: u32)"
  shows "quote_agrees
    (obind (isqrt disc) (\<lambda>s. if s \<le> h then Ok 0 else if 0 < margin then
        obind (chk_sub e1 10000 (ucast margin)) (\<lambda>f. obind (chk_mul e2 (s - h) f) (\<lambda>t. u_div t 10000)) else Ok (s - h)))
    (obind (mm_sqrt disc) (\<lambda>s. if s \<le> h then Ok 0 else if (ucast margin :: u256) \<noteq> 0 then
        obind (fm_checked_mul (s - h) (10000 - ucast margin)) (\<lambda>t. u_div t 10000) else Ok (s - h)))"
proof -
  obtain r where r: "(isqrt disc :: u256 eyre_result) = Ok r" using isqrt_total by blast
  have m: "(ucast margin :: u256) \<noteq> 0 \<longleftrightarrow> 0 < margin"
    by (simp add: word_unat_eq_iff unat_ucast_u32 word_less_nat_alt)
  have c: "checked_sub (10000 :: u256) (ucast margin) = Some (10000 - ucast margin)"
    using assms by (simp add: checked_sub_def word_le_nat_alt word_less_nat_alt unat_ucast_u32)
  have "(mm_sqrt disc :: u256 fm_result) = Ok r" using r by (rule isqrt_mm_sqrt)
  then show ?thesis using r m c
    by (cases "checked_mul (r - h) (10000 - ucast margin)")
      (simp_all add: chk_sub_def chk_mul_def fm_checked_mul_def u_div_def)
qed

lemma checked_mul_comm: "checked_mul a b = checked_mul b a"
  by (simp add: checked_mul_def mult.commute)

lemmas frontrun_steps = chk_mul_def chk_add_def fm_checked_mul_def fm_checked_add_def checked_mul_div_def
  checked_mul_div3_def get_amount_out_def FM_BPS_DENOMINATOR_def u_div_def Let_def

lemma frontrun_agrees:
  assumes "fee < (10000 :: u32)" "margin < (10000 :: u32)" "x \<noteq> 0" "y \<noteq> 0"
  shows "quote_agrees (optimal_v2_frontrun_amount v m x y fee margin)
    (fm_optimal_v2_frontrun_amount v m x y (ucast fee) (ucast margin))"
proof (cases "v = 0 \<or> m = 0")
  case True
  then show ?thesis using assms
    by (auto simp: optimal_v2_frontrun_amount_def fm_optimal_v2_frontrun_amount_def FM_BPS_DENOMINATOR_def
        word_le_nat_alt word_less_nat_alt unat_ucast_u32)
next
  case nz: False
  define g where "g = 10000 - (ucast fee :: u256)"
  have g: "(ucast (10000 - fee) :: u256) = g" using assms(1) by (simp add: g_def ucast_sub_bps less_imp_le)
  have bnd: "\<not> 10000 \<le> fee" "\<not> 10000 \<le> margin" "\<not> 10000 \<le> (ucast fee :: u256)" "\<not> 10000 \<le> (ucast margin :: u256)"
    using assms(1,2) by (simp_all add: word_le_nat_alt word_less_nat_alt unat_ucast_u32)
  have ug: "unat g = 10000 - unat fee" "0 < unat g" "unat g \<le> 10000"
    using assms(1) bnd(3) by (simp_all add: g_def unat_sub word_le_nat_alt word_less_nat_alt unat_ucast_u32)
  then have gnz: "g \<noteq> 0" by auto
  have gs: "checked_add 10000 g = Some (10000 + g)" using ug(3) by (simp add: checked_add_def power_numeral)
  note start = optimal_v2_frontrun_amount_def fm_optimal_v2_frontrun_amount_def g g_def [symmetric] frontrun_steps
    checked_mul_comm [of g v] if_False bnd
  show ?thesis
  proof (cases "checked_mul v g")
    case None
    then show ?thesis using nz assms(3,4) bnd by (simp add: start)
  next
    case vf: (Some vf)
    show ?thesis
    proof (cases "checked_mul vf y")
      case None
      then show ?thesis using nz assms(3,4) bnd vf by (simp add: start)
    next
      case num: (Some num)
      show ?thesis
      proof (cases "checked_mul x 10000")
        case None
        then show ?thesis using nz assms(3,4) bnd vf num by (simp add: start)
      next
        case den0: (Some den0)
        show ?thesis
        proof (cases "checked_add den0 vf")
          case None
          then show ?thesis using nz assms(3,4) bnd vf num den0 by (simp add: start)
        next
          case den: (Some den)
          have "0 < unat x" using assms(3) by (simp add: unat_gt_0)
          then have dnz: "den \<noteq> 0" using den den0 by (auto simp: checked_add_Some checked_mul_Some)
          have facts: "(v = 0) = False" "(m = 0) = False" "(x = 0) = False" "(y = 0) = False" "(g = 0) = False"
            "(den = 0) = False" "((10000 :: u256) = 0) = False" using nz assms(3,4) gnz dnz by simp_all
          show ?thesis
            unfolding start
            by (simp only: facts bnd vf num den0 den gs obind.simps ok_or_simps obind_assoc simp_thms if_True if_False
                bind.bind_lunit)
              (intro agree_if agree_ok_or frontrun_tail_agrees [OF assms(2), unfolded chk_mul_def fm_checked_mul_def
                u_div_def facts(7) if_False])
        qed
      qed
    qed
  qed
qed

text \<open>
  The two front-run routines agree: on valid fees, margins and reserves the Stylus port and the simulator
  return the same size, or both report an overflow; neither panics where the other does not.
\<close>

theorem frontrun_ports_agree:
  assumes "fee < (10000 :: u32)" "margin < (10000 :: u32)" "x \<noteq> 0" "y \<noteq> 0"
  shows "case (optimal_v2_frontrun_amount v m x y fee margin, fm_optimal_v2_frontrun_amount v m x y (ucast fee) (ucast margin)) of
      (Ok a, Ok b) \<Rightarrow> a = b | (Err e, Err e') \<Rightarrow> True | (Panic, Panic) \<Rightarrow> True | _ \<Rightarrow> False"
  using frontrun_agrees [OF assms, of v m] by (simp add: quote_agrees_def)

theorem frontrun_ports_agree_witness:
  "fm_optimal_v2_frontrun_amount 100000 80000 1000000 1000000 30 0 = Ok 67724"
proof -
  have r: "isqrt 1252336206235 = (Ok 1119078 :: u256 eyre_result)" by (simp add: isqrt_Ok floor_root_def)
  have run: "optimal_v2_frontrun_amount 100000 80000 1000000 1000000 30 0 = Ok 67724"
    by (simp add: optimal_v2_frontrun_amount_def chk_mul_def chk_add_def checked_mul_def checked_add_def
        u_div_def r power_numeral)
  show ?thesis
    using frontrun_ports_agree [of 30 0 1000000 1000000 100000 80000]
    by (cases "fm_optimal_v2_frontrun_amount 100000 80000 1000000 1000000 30 0") (simp_all add: run)
qed

section \<open>Three constant-product quotes\<close>

lemma get_amount_out_Ok:
  assumes "get_amount_out a x y (ucast (fee :: u32)) = Ok r" "a \<noteq> 0"
  shows "x \<noteq> 0 \<and> y \<noteq> 0 \<and> fee < 10000 \<and> unat a * (10000 - unat fee) * unat y < 2 ^ 256
    \<and> unat x * 10000 + unat a * (10000 - unat fee) < 2 ^ 256 \<and> unat r = v2_quote (unat a) (unat x) (unat y) (10000 - unat fee)"
proof -
  have c: "x \<noteq> 0" "y \<noteq> 0" "\<not> 10000 \<le> (ucast fee :: u256)"
    using assms by (auto simp: get_amount_out_def FM_BPS_DENOMINATOR_def split: if_splits)
  then have f: "unat fee < 10000" by (simp add: word_le_nat_alt unat_ucast_u32)
  have g: "unat (10000 - ucast fee :: u256) = 10000 - unat fee"
    using c(3) by (simp add: unat_sub word_le_nat_alt unat_ucast_u32)
  obtain w n b d :: u256 where e: "unat w = unat a * (10000 - unat fee)" "unat n = unat w * unat y" "unat b = unat x * 10000"
    "unat d = unat b + unat w" "r = n div d"
    using assms c
    by (auto simp: get_amount_out_def FM_BPS_DENOMINATOR_def obind_eq_Ok ok_or_eq_Ok bind_eq_Some_conv checked_mul_Some
        checked_add_Some u_div_eq_Ok g)
  have "unat r = v2_quote (unat a) (unat x) (unat y) (10000 - unat fee)"
    by (simp add: e(5) unat_div e(1-4) v2_quote_def)
  then show ?thesis using c f e unat_bound_256 [of n] unat_bound_256 [of d] by (simp add: word_less_nat_alt)
qed

text \<open>
  The three constant-product quotes of the repository agree: whenever the checked 256-bit quote of the
  Stylus front-run code answers a nonzero input, the 512-bit quotes of the Stylus optimiser and of the
  simulator return the same amount.
\<close>

theorem v2_quotes_agree:
  assumes "get_amount_out a x y (ucast (fee :: u32)) = Ok r" "a \<noteq> 0"
  shows "v2_amount_out a x y fee = Ok r \<and> hop_amount_out \<lparr>reserve_in = x, reserve_out = y, fee_bps = ucast fee\<rparr> a = Ok r"
proof -
  note q = get_amount_out_Ok [OF assms]
  let ?h = "\<lparr>reserve_in = x, reserve_out = y, fee_bps = ucast fee\<rparr>"
  have v: "valid_hop ?h" and fm: "fee_mult ?h = 10000 - unat fee"
    using q by (simp_all add: valid_hop_def fee_mult_def unat_ucast_u32 word_less_nat_alt unat_gt_0)
  have "v2_amount_out a x y fee = Ok r" using q assms(2) by (simp add: v2_amount_out_Ok)
  moreover have "hop_amount_out ?h a = Ok r"
  proof -
    let ?w = "word_of_nat (unat a * (10000 - unat fee)) :: u512"
      and ?n = "word_of_nat (unat a * (10000 - unat fee) * unat y) :: u512"
      and ?b = "word_of_nat (unat x * 10000) :: u512" and ?d = "word_of_nat (unat x * 10000 + unat a * (10000 - unat fee)) :: u512"
    have w: "unat (word_of_nat n :: u512) = n" if "n < 2 ^ 256" for n
      using that by (intro unat_word_of_nat) (rule less_trans, assumption, simp add: power_numeral)
    have "unat a * (10000 - unat fee) \<le> unat x * 10000 + unat a * (10000 - unat fee)" by simp
    then have u: "unat ?w = unat a * (10000 - unat fee)" "unat ?n = unat a * (10000 - unat fee) * unat y"
      "unat ?b = unat x * 10000" "unat ?d = unat x * 10000 + unat a * (10000 - unat fee)"
      using q by (intro w; linarith)+
    have "0 < unat ?d" unfolding u using q by (simp add: unat_gt_0)
    then have d: "?d \<noteq> 0" by auto
    have val: "validate_v2_hop ?h = Ok ()" using v by (simp add: validate_Ok)
    have ops: "checked_mul_u512 (to_u512 a) (to_u512 (V2_FEE_DENOMINATOR_BPS - ucast fee)) = Ok ?w"
      "checked_mul_u512 ?w (to_u512 y) = Ok ?n" "checked_mul_u512 (to_u512 x) (to_u512 V2_FEE_DENOMINATOR_BPS) = Ok ?b"
      "checked_add_u512 ?b ?w = Ok ?d"
      using unat_fee_mult [OF v] fm u by (simp_all add: checked_u512_Ok unat_fee_denominator)
    have "narrow_u512_to_v2 (?n div ?d) = Ok r" using q u by (simp add: narrow_Ok unat_div v2_quote_def)
    then show ?thesis using assms(2) val ops d by (simp add: hop_amount_out_def Let_def u_div_def)
  qed
  ultimately show ?thesis by blast
qed

theorem v2_quotes_agree_witness:
  "get_amount_out 1000 50000 70000 (ucast (30 :: u32)) = Ok 1368
   \<and> v2_amount_out 1000 50000 70000 30 = Ok 1368
   \<and> hop_amount_out \<lparr>reserve_in = 50000, reserve_out = 70000, fee_bps = ucast (30 :: u32)\<rparr> 1000 = Ok 1368"
proof -
  have r: "get_amount_out 1000 50000 70000 (ucast (30 :: u32)) = Ok 1368"
    by (simp add: get_amount_out_def FM_BPS_DENOMINATOR_def word_defs power_numeral)
  show ?thesis using r v2_quotes_agree [OF r] by simp
qed

end
