(* ===== verification/Step_Merging.thy ===== *)
theory Step_Merging
  imports Byte_Codec
begin

text \<open>
  \<open>src/stylus/core/src/step_merging.rs\<close>: routes that pass through the same intermediate tokens are merged
  into one route whose last hop carries the combined amount. \<open>keccak256\<close> is the parameter \<open>keccak\<close>; a
  32-byte string is the \<open>u256\<close> with that big-endian form. The theory shows that the marking loops compute
  the grouping of the routes by signature, in the order of first occurrence, and bounds the simulated rate.
\<close>

section \<open>The routines\<close>

definition SM_SCALE :: u256 where "SM_SCALE = 1000000000000000000"
definition SM_FEE_BPS :: u256 where "SM_FEE_BPS = 30"
definition IMPACT_EXPONENT :: u256 where "IMPACT_EXPONENT = 3"
definition MIN_EFFECTIVE_RATE_FRACTION :: u256 where "MIN_EFFECTIVE_RATE_FRACTION = 10"
definition MERGED_GAS_NUMERATOR :: u256 where "MERGED_GAS_NUMERATOR = 62"
definition MERGED_GAS_DENOMINATOR :: u256 where "MERGED_GAS_DENOMINATOR = 100"

record Hop =
  h_dex :: u256
  h_from_token :: u256
  h_to_token :: u256
  h_amount_in :: u256
  h_amount_out :: u256
  h_gas :: u256
  h_pool_liquidity :: u256

record Route =
  r_hops :: "Hop list"
  r_total_output :: u256
  r_total_gas :: u256

record MergedGroup =
  g_signature_hash :: u256
  g_merged_count :: u256
  g_merged_amount_at_intermediate :: u256
  g_merged_output :: u256
  g_original_best_output :: u256
  g_merged_gas :: u256
  g_original_total_gas :: u256

definition sm_mul_div :: "u256 \<Rightarrow> u256 \<Rightarrow> u256 \<Rightarrow> (u256, 'e) outcome" where
  \<comment> \<open>\<open>mul_div\<close>: the overflow and the division by zero panic\<close>
  "sm_mul_div x y denominator = (case checked_mul x y of None \<Rightarrow> Panic | Some p \<Rightarrow> u_div p denominator)"

definition simulate_price_impact_u256 :: "u256 \<Rightarrow> u256 \<Rightarrow> (u256, 'e) outcome" where
  "simulate_price_impact_u256 amount_in pool_liquidity =
     (if pool_liquidity = 0 then Ok 0
      else
        let denominator = pool_liquidity + amount_in
        in obind (sm_mul_div amount_in SM_SCALE denominator) (\<lambda>impact_factor.
           let fee_part = (SM_FEE_BPS * SM_SCALE) div 10000
           in obind (sm_mul_div impact_factor IMPACT_EXPONENT 100) (\<lambda>impact_part.
              let penalty = fee_part + impact_part;
                  effective_rate = (if penalty < SM_SCALE then SM_SCALE - penalty else 0);
                  floor_rate = SM_SCALE div MIN_EFFECTIVE_RATE_FRACTION
              in Ok (if floor_rate < effective_rate then effective_rate else floor_rate))))"

definition route_default :: Route where
  "route_default = \<lparr>r_hops = [], r_total_output = 0, r_total_gas = 0\<rparr>"

definition make_route :: "Hop list \<Rightarrow> Route" where
  "make_route hops =
     (if hops = [] then route_default
      else \<lparr>r_hops = hops, r_total_output = h_amount_out (last hops),
            r_total_gas = foldl (\<lambda>acc hop. acc + h_gas hop) 0 hops\<rparr>)"

definition intermediate_signature :: "(u8 list \<Rightarrow> u256) \<Rightarrow> Hop list \<Rightarrow> u256" where
  "intermediate_signature keccak hops =
     (if length hops < 2 then 0 else keccak (concat (map (\<lambda>hop. to_be_bytes (h_to_token hop)) (butlast hops))))"

definition nth_hop :: "Hop list \<Rightarrow> nat \<Rightarrow> (Hop, 'e) outcome" where
  \<comment> \<open>\<open>hops[hops.len() - k]\<close>\<close>
  "nth_hop hops k = (if k \<le> length hops \<and> 0 < k then Ok (hops ! (length hops - k)) else Panic)"

fun best_loop :: "Route list \<Rightarrow> u256 \<Rightarrow> Hop \<Rightarrow> u256 \<Rightarrow> (u256 \<times> Hop \<times> u256, 'e) outcome" where
  \<comment> \<open>the first loop of \<open>build_merged_route\<close>, over the routes of the group\<close>
  "best_loop [] total_at_merge best_final best_rate = Ok (total_at_merge, best_final, best_rate)"
| "best_loop (route # routes) total_at_merge best_final best_rate =
     obind (nth_hop (r_hops route) 2) (\<lambda>penultimate.
     obind (nth_hop (r_hops route) 1) (\<lambda>final_hop.
     let total_at_merge = total_at_merge + h_amount_out penultimate
     in obind (sm_mul_div (h_amount_out final_hop) SM_SCALE (h_amount_in final_hop)) (\<lambda>rate.
        if best_rate < rate then best_loop routes total_at_merge final_hop rate
        else best_loop routes total_at_merge best_final best_rate)))"

definition original_best :: "Route list \<Rightarrow> u256" where
  "original_best routes = foldl (\<lambda>best route. if best < r_total_output route then r_total_output route else best) 0 routes"

definition original_gas :: "Route list \<Rightarrow> u256" where
  "original_gas routes = foldl (\<lambda>acc route. acc + r_total_gas route) 0 routes"

definition build_merged_route :: "Route list \<Rightarrow> nat list \<Rightarrow> u256 \<Rightarrow> u256 \<Rightarrow> (Route \<times> MergedGroup, 'e) outcome" where
  "build_merged_route routes indexes sig final_token =
     (let first_route = routes ! hd indexes;
          members = map ((!) routes) indexes
      in obind (nth_hop (r_hops first_route) 1) (\<lambda>best_final.
         obind (sm_mul_div (h_amount_out best_final) SM_SCALE (h_amount_in best_final)) (\<lambda>best_rate.
         obind (best_loop members 0 best_final best_rate) (\<lambda>(total_at_merge, best_final, best_rate).
         obind (simulate_price_impact_u256 total_at_merge (h_pool_liquidity best_final)) (\<lambda>effective_rate.
         obind (sm_mul_div total_at_merge effective_rate SM_SCALE) (\<lambda>merged_amount_out.
         let merged_gas = (h_gas best_final * MERGED_GAS_NUMERATOR) div MERGED_GAS_DENOMINATOR
         in obind (nth_hop (r_hops first_route) 2) (\<lambda>penultimate.
            let last_intermediate = h_to_token penultimate;
                merged_final = \<lparr>h_dex = h_dex best_final, h_from_token = last_intermediate, h_to_token = final_token,
                  h_amount_in = total_at_merge, h_amount_out = merged_amount_out, h_gas = merged_gas,
                  h_pool_liquidity = h_pool_liquidity best_final\<rparr>;
                merged_hops = (r_hops first_route)[length (r_hops first_route) - 1 := merged_final];
                merged_route = make_route merged_hops
            in Ok (merged_route,
                 \<lparr>g_signature_hash = sig, g_merged_count = word_of_nat (length indexes),
                  g_merged_amount_at_intermediate = total_at_merge, g_merged_output = merged_amount_out,
                  g_original_best_output = original_best members, g_merged_gas = r_total_gas merged_route,
                  g_original_total_gas = original_gas members\<rparr>))))))))"

fun mark_loop :: "u256 list \<Rightarrow> u256 \<Rightarrow> nat list \<Rightarrow> bool list \<Rightarrow> nat list \<Rightarrow> bool list \<times> nat list" where
  \<comment> \<open>the inner loop of \<open>merge_steps_by_intermediate\<close>; the third argument is what is left of \<open>i + 1..len\<close>\<close>
  "mark_loop sigs sig [] used indexes = (used, indexes)"
| "mark_loop sigs sig (j # js) used indexes =
     (if \<not> used ! j \<and> sigs ! j = sig then mark_loop sigs sig js (used[j := True]) (indexes @ [j])
      else mark_loop sigs sig js used indexes)"

fun merge_loop :: "Route list \<Rightarrow> u256 list \<Rightarrow> u256 \<Rightarrow> nat list \<Rightarrow> bool list \<Rightarrow> Route list \<Rightarrow> MergedGroup list
    \<Rightarrow> (Route list \<times> MergedGroup list, 'e) outcome" where
  \<comment> \<open>the outer loop; the fourth argument is what is left of \<open>0..len\<close>\<close>
  "merge_loop routes sigs final_token [] used optimised groups = Ok (optimised, groups)"
| "merge_loop routes sigs final_token (i # is) used optimised groups =
     (if used ! i then merge_loop routes sigs final_token is used optimised groups
      else
        let used = used[i := True];
            sig = sigs ! i
        in if sig = 0 then merge_loop routes sigs final_token is used (optimised @ [routes ! i]) groups
           else
             let (used, indexes) = mark_loop sigs sig [i + 1 ..< length routes] used [i]
             in if length indexes = 1 then merge_loop routes sigs final_token is used (optimised @ [routes ! i]) groups
                else obind (build_merged_route routes indexes sig final_token) (\<lambda>(route, group).
                       merge_loop routes sigs final_token is used (optimised @ [route]) (groups @ [group])))"

definition merge_steps_by_intermediate ::
    "(u8 list \<Rightarrow> u256) \<Rightarrow> Route list \<Rightarrow> u256 \<Rightarrow> (Route list \<times> MergedGroup list, 'e) outcome" where
  "merge_steps_by_intermediate keccak routes final_token =
     (if routes = [] then Ok ([], [])
      else
        let sigs = map (\<lambda>route. intermediate_signature keccak (r_hops route)) routes
        in merge_loop routes sigs final_token [0 ..< length routes] (replicate (length routes) False) [] [])"

section \<open>The specification\<close>

text \<open>
  The groups of route indices: a route without intermediate tokens stands alone, the others are grouped by
  signature at the place of the first of them.
\<close>

definition leads :: "u256 list \<Rightarrow> nat \<Rightarrow> bool" where
  "leads sigs i \<longleftrightarrow> sigs ! i = 0 \<or> sigs ! i \<notin> set (take i sigs)"

definition group_of :: "u256 list \<Rightarrow> nat \<Rightarrow> nat list" where
  "group_of sigs i = (if sigs ! i = 0 then [i] else filter (\<lambda>j. sigs ! j = sigs ! i) [i ..< length sigs])"

definition index_groups :: "u256 list \<Rightarrow> nat list list" where
  "index_groups sigs = map (group_of sigs) (filter (leads sigs) [0 ..< length sigs])"

fun emit_groups :: "Route list \<Rightarrow> u256 list \<Rightarrow> u256 \<Rightarrow> nat list list \<Rightarrow> Route list \<Rightarrow> MergedGroup list
    \<Rightarrow> (Route list \<times> MergedGroup list, 'e) outcome" where
  "emit_groups routes sigs final_token [] optimised groups = Ok (optimised, groups)"
| "emit_groups routes sigs final_token (g # gs) optimised groups =
     (if length g = 1 then emit_groups routes sigs final_token gs (optimised @ [routes ! hd g]) groups
      else obind (build_merged_route routes g (sigs ! hd g) final_token) (\<lambda>(route, group).
             emit_groups routes sigs final_token gs (optimised @ [route]) (groups @ [group])))"

section \<open>The marking loops compute the groups\<close>

lemma mark_loop_all:
  "distinct js \<Longrightarrow> (\<forall>j\<in>set js. j < length used) \<Longrightarrow>
     snd (mark_loop sigs sig js used idx) = idx @ filter (\<lambda>j. \<not> used ! j \<and> sigs ! j = sig) js
     \<and> length (fst (mark_loop sigs sig js used idx)) = length used
     \<and> (\<forall>k < length used. fst (mark_loop sigs sig js used idx) ! k \<longleftrightarrow> used ! k \<or> (k \<in> set js \<and> sigs ! k = sig))"
proof (induction js arbitrary: used idx)
  case (Cons j js)
  have f: "filter (\<lambda>k. \<not> used[j := True] ! k \<and> sigs ! k = sig) js = filter (\<lambda>k. \<not> used ! k \<and> sigs ! k = sig) js"
  proof (rule filter_cong)
    fix k assume "k \<in> set js"
    with Cons.prems(1) have "j \<noteq> k" by auto
    then show "(\<not> used[j := True] ! k \<and> sigs ! k = sig) \<longleftrightarrow> (\<not> used ! k \<and> sigs ! k = sig)" by simp
  qed simp
  show ?case
  proof (cases "\<not> used ! j \<and> sigs ! j = sig")
    case True
    then show ?thesis using Cons.IH [of "used[j := True]" "idx @ [j]"] Cons.prems f by (auto simp: nth_list_update)
  next
    case False
    then show ?thesis using Cons.IH [of used idx] Cons.prems by auto
  qed
qed simp

lemma mark_loop_eq:
  assumes "distinct js" "\<forall>j\<in>set js. j < length used"
  shows "snd (mark_loop sigs sig js used idx) = idx @ filter (\<lambda>j. \<not> used ! j \<and> sigs ! j = sig) js"
    "length (fst (mark_loop sigs sig js used idx)) = length used"
    "k < length used \<Longrightarrow> fst (mark_loop sigs sig js used idx) ! k \<longleftrightarrow> used ! k \<or> (k \<in> set js \<and> sigs ! k = sig)"
  using mark_loop_all [OF assms, of sigs sig idx] by blast+

definition marked :: "u256 list \<Rightarrow> nat \<Rightarrow> bool list \<Rightarrow> bool" where
  "marked sigs i used \<longleftrightarrow> length used = length sigs
     \<and> (\<forall>j < length sigs. used ! j \<longleftrightarrow> j < i \<or> (sigs ! j \<noteq> 0 \<and> sigs ! j \<in> set (take i sigs)))"

lemma marked_leads: "marked sigs i used \<Longrightarrow> i < length sigs \<Longrightarrow> used ! i \<longleftrightarrow> \<not> leads sigs i"
  by (auto simp: marked_def leads_def)

lemma set_take_Suc: "i < length xs \<Longrightarrow> set (take (Suc i) xs) = insert (xs ! i) (set (take i xs))"
  by (simp add: take_Suc_conv_app_nth)

lemma marked_skip:
  "marked sigs i used \<Longrightarrow> i < length sigs \<Longrightarrow> \<not> leads sigs i \<Longrightarrow> marked sigs (Suc i) used"
  by (auto simp: marked_def leads_def set_take_Suc less_Suc_eq)

lemma marked_alone:
  assumes "marked sigs i used" "i < length sigs" "sigs ! i = 0"
  shows "marked sigs (Suc i) (used[i := True])"
  using assms by (auto simp: marked_def set_take_Suc less_Suc_eq nth_list_update)

lemma marked_group:
  assumes m: "marked sigs i used" and i: "i < length sigs" "sigs ! i \<noteq> 0" "leads sigs i"
  defines "r \<equiv> mark_loop sigs (sigs ! i) [i + 1 ..< length sigs] (used[i := True]) [i]"
  shows "snd r = group_of sigs i" "marked sigs (Suc i) (fst r)"
proof -
  have len: "length used = length sigs" using m by (simp add: marked_def)
  have b: "distinct [i + 1 ..< length sigs]" "\<forall>j\<in>set [i + 1 ..< length sigs]. j < length (used[i := True])"
    using len by auto
  note ml = mark_loop_eq [OF b, where sigs = sigs and sig = "sigs ! i" and idx = "[i]"]
  have free: "\<not> used ! j" if "i < j" "j < length sigs" "sigs ! j = sigs ! i" for j
    using that m i by (auto simp: marked_def leads_def)
  have "[i ..< length sigs] = i # [i + 1 ..< length sigs]" using i(1) by (simp add: upt_conv_Cons)
  then have "group_of sigs i = i # filter (\<lambda>j. sigs ! j = sigs ! i) [i + 1 ..< length sigs]"
    using i(2) by (simp add: group_of_def)
  also have "\<dots> = [i] @ filter (\<lambda>j. \<not> used[i := True] ! j \<and> sigs ! j = sigs ! i) [i + 1 ..< length sigs]"
    using free by (auto intro!: filter_cong)
  finally show "snd r = group_of sigs i" using ml(1) by (simp add: r_def)
  show "marked sigs (Suc i) (fst r)"
    unfolding marked_def
  proof (intro conjI allI impI)
    show "length (fst r) = length sigs" using ml(2) len by (simp add: r_def)
    fix j assume j: "j < length sigs"
    then have "fst r ! j \<longleftrightarrow> used[i := True] ! j \<or> (i < j \<and> sigs ! j = sigs ! i)"
      using ml(3) [of j] len by (auto simp: r_def)
    also have "\<dots> \<longleftrightarrow> j < Suc i \<or> (sigs ! j \<noteq> 0 \<and> sigs ! j \<in> set (take (Suc i) sigs))"
      using m i j by (cases "j = i") (auto simp: marked_def set_take_Suc nth_list_update less_Suc_eq)
    finally show "fst r ! j \<longleftrightarrow> j < Suc i \<or> (sigs ! j \<noteq> 0 \<and> sigs ! j \<in> set (take (Suc i) sigs))" .
  qed
qed

lemma hd_group: "i < length sigs \<Longrightarrow> hd (group_of sigs i) = i"
  by (simp add: group_of_def upt_conv_Cons)

lemma merge_loop_groups:
  assumes "length routes = length sigs" "marked sigs i used" "i \<le> length sigs"
  shows "merge_loop routes sigs ft [i ..< length sigs] used opt gs
    = emit_groups routes sigs ft (map (group_of sigs) (filter (leads sigs) [i ..< length sigs])) opt gs"
  using assms(2,3)
proof (induction "length sigs - i" arbitrary: i used opt gs)
  case 0
  then show ?case by simp
next
  case (Suc n)
  then have i: "i < length sigs" by linarith
  have l: "[i ..< length sigs] = i # [Suc i ..< length sigs]" using i by (rule upt_conv_Cons)
  note IH = Suc.hyps(1) [of "Suc i"]
  have n: "n = length sigs - Suc i" "Suc i \<le> length sigs" using Suc.hyps(2) i by linarith+
  consider (skip) "\<not> leads sigs i" | (alone) "leads sigs i" "sigs ! i = 0" | (grp) "leads sigs i" "sigs ! i \<noteq> 0" by blast
  then show ?case
  proof cases
    case skip
    then show ?thesis
      using marked_leads [OF Suc.prems(1) i] IH [OF n(1) marked_skip [OF Suc.prems(1) i skip] n(2)] by (simp add: l)
  next
    case alone
    then show ?thesis
      using marked_leads [OF Suc.prems(1) i] IH [OF n(1) marked_alone [OF Suc.prems(1) i alone(2)] n(2)]
      by (simp add: l Let_def group_of_def)
  next
    case grp
    note g = marked_group [OF Suc.prems(1) i grp(2,1)]
    obtain u idx where r: "mark_loop sigs (sigs ! i) [i + 1 ..< length sigs] (used[i := True]) [i] = (u, idx)" by force
    have u: "idx = group_of sigs i" "marked sigs (Suc i) u" using g r by simp_all
    show ?thesis
      using marked_leads [OF Suc.prems(1) i] grp IH [OF n(1) u(2) n(2)] r u(1) hd_group [OF i] assms(1)
      by (simp add: l Let_def)
  qed
qed

section \<open>The groups partition the routes\<close>

lemma group_of_bounds: "i < length sigs \<Longrightarrow> j \<in> set (group_of sigs i) \<longleftrightarrow>
    j = i \<or> (sigs ! i \<noteq> 0 \<and> i < j \<and> j < length sigs \<and> sigs ! j = sigs ! i)"
  by (auto simp: group_of_def)

lemma groups_cover: "j < length sigs \<Longrightarrow> \<exists>i. i < length sigs \<and> leads sigs i \<and> j \<in> set (group_of sigs i)"
proof -
  assume j: "j < length sigs"
  show ?thesis
  proof (cases "leads sigs j")
    case True
    then show ?thesis using j by (auto simp: group_of_bounds)
  next
    case False
    let ?P = "\<lambda>i. i < length sigs \<and> sigs ! i = sigs ! j"
    define i where "i = (LEAST i. ?P i)"
    have i: "?P i" unfolding i_def using j by (intro LeastI [of ?P j]) simp
    have m: "i \<le> k" if "?P k" for k unfolding i_def using that by (rule Least_le)
    have "sigs ! i \<notin> set (take i sigs)"
    proof
      assume "sigs ! i \<in> set (take i sigs)"
      then obtain k where "k < i" "k < length sigs" "sigs ! k = sigs ! i" by (auto simp: in_set_conv_nth)
      with i m [of k] show False by simp
    qed
    then have "leads sigs i" by (simp add: leads_def)
    moreover have "sigs ! i \<noteq> 0" using False i by (auto simp: leads_def)
    moreover have "i = j \<or> i < j" using m [of j] j by auto
    ultimately show ?thesis using i j by (intro exI [of _ i]) (auto simp: group_of_bounds)
  qed
qed

lemma groups_disjoint:
  assumes "i < length sigs" "k < length sigs" "leads sigs i" "leads sigs k" "j \<in> set (group_of sigs i)" "j \<in> set (group_of sigs k)"
  shows "i = k"
proof (rule ccontr)
  assume ne: "i \<noteq> k"
  have s: "sigs ! i = sigs ! k" "sigs ! i \<noteq> 0" using assms(1,2,5,6) ne by (auto simp: group_of_bounds)
  have "sigs ! b \<in> set (take b sigs)" if "a < b" "b < length sigs" "sigs ! a = sigs ! b" for a b
    using that by (auto simp: in_set_conv_nth intro!: exI [of _ a])
  with s assms(1-4) ne show False by (metis leads_def linorder_neqE_nat)
qed

lemma distinct_groups: "distinct (concat (index_groups sigs))"
proof -
  have "distinct is \<Longrightarrow> (\<forall>i\<in>set is. i < length sigs \<and> leads sigs i) \<Longrightarrow> distinct (concat (map (group_of sigs) is))" for "is"
  proof (induction "is")
    case (Cons i "is")
    have "distinct (group_of sigs i)" by (simp add: group_of_def)
    moreover have "set (group_of sigs i) \<inter> set (concat (map (group_of sigs) is)) = {}"
      using Cons.prems groups_disjoint by fastforce
    ultimately show ?case using Cons by simp
  qed simp
  then show ?thesis by (simp add: index_groups_def)
qed

lemma set_groups: "set (concat (index_groups sigs)) = {..< length sigs}"
  using groups_cover by (fastforce simp: index_groups_def group_of_bounds)

definition same_signature :: "u256 list \<Rightarrow> nat list \<Rightarrow> bool" where
  "same_signature sigs g \<longleftrightarrow> g \<noteq> [] \<and> list_all (\<lambda>j. sigs ! j = sigs ! hd g) g \<and> sorted_wrt (<) g
     \<and> (sigs ! hd g = 0 \<longrightarrow> length g = 1)"

text \<open>
  Merging acts on the partition of the routes by signature: the marking loops process the groups in the
  order of their first members, every route belongs to exactly one group, all members of a group share
  their intermediate tokens' signature, and a route without intermediate tokens stays alone.
\<close>

theorem merge_groups_by_signature:
  "let sigs = map (\<lambda>r. intermediate_signature keccak (r_hops r)) routes
   in (merge_steps_by_intermediate keccak routes final_token :: (Route list \<times> MergedGroup list, 'e) outcome)
        = emit_groups routes sigs final_token (index_groups sigs) [] []
      \<and> distinct (concat (index_groups sigs)) \<and> set (concat (index_groups sigs)) = {..< length routes}
      \<and> list_all (same_signature sigs) (index_groups sigs)"
proof -
  let ?s = "map (\<lambda>r. intermediate_signature keccak (r_hops r)) routes"
  have m: "marked ?s 0 (replicate (length routes) False)" by (simp add: marked_def)
  have "(merge_steps_by_intermediate keccak routes final_token :: (Route list \<times> MergedGroup list, 'e) outcome)
      = emit_groups routes ?s final_token (index_groups ?s) [] []"
    by (cases "routes = []")
      (simp_all add: merge_steps_by_intermediate_def Let_def index_groups_def merge_loop_groups [OF _ m, simplified])
  moreover have "same_signature ?s (group_of ?s i)" if "i < length ?s" for i
    using hd_group [OF that] that
    by (auto simp: same_signature_def group_of_def list_all_iff sorted_wrt_filter upt_conv_Cons)
  then have "list_all (same_signature ?s) (index_groups ?s)" by (auto simp: list_all_iff index_groups_def)
  moreover have "set (concat (index_groups ?s)) = {..< length routes}" using set_groups [of ?s] by simp
  ultimately show ?thesis using distinct_groups [of ?s] by (simp add: Let_def)
qed

section \<open>The simulated rate\<close>

text \<open>A pool with liquidity is credited with at least a tenth and at most 99.7 percent.\<close>

lemma simulated_rate_bounds:
  assumes "(simulate_price_impact_u256 a l :: (u256, 'e) outcome) = Ok r" "l \<noteq> 0"
  shows "100000000000000000 \<le> unat r \<and> unat r \<le> 997000000000000000"
proof -
  obtain i p where "(sm_mul_div a SM_SCALE (l + a) :: (u256, 'e) outcome) = Ok i"
    and p: "(sm_mul_div i IMPACT_EXPONENT 100 :: (u256, 'e) outcome) = Ok p"
    and r: "r = (let penalty = (SM_FEE_BPS * SM_SCALE) div 10000 + p; rate = (if penalty < SM_SCALE then SM_SCALE - penalty else 0);
          flr = SM_SCALE div MIN_EFFECTIVE_RATE_FRACTION in if flr < rate then rate else flr)"
    using assms by (auto simp: simulate_price_impact_u256_def Let_def obind_eq_Ok)
  obtain q where "unat q = unat i * 3" "p = q div (100 :: u256)"
    using p by (auto simp: sm_mul_div_def IMPACT_EXPONENT_def u_div_eq_Ok checked_mul_Some split: option.splits)
  then have p': "unat p = unat i * 3 div 100" by (simp add: unat_div)
  have "unat i * 3 div 100 + 3000000000000000 < 2 ^ 256" using unat_bound_256 [of i] by (simp add: power_numeral)
  then have pen: "unat (3000000000000000 + p) = 3000000000000000 + unat p"
    using p' by (simp add: unat_word_ariths)
  have c: "(SM_FEE_BPS * SM_SCALE) div 10000 = 3000000000000000" "SM_SCALE div MIN_EFFECTIVE_RATE_FRACTION = 100000000000000000"
    by (simp_all add: SM_FEE_BPS_def SM_SCALE_def MIN_EFFECTIVE_RATE_FRACTION_def)
  show ?thesis
    unfolding r c Let_def using pen
    by (auto simp: SM_SCALE_def word_less_nat_alt unat_sub word_le_nat_alt)
qed

end
