(* ===== verification/Sequencer_Feed.thy ===== *)
theory Sequencer_Feed
  imports Calldata
begin

text \<open>
  The analysis of the sequencer feed: \<open>monitor/sequencer_feed.rs\<close> with the envelope check of
  \<open>monitor/sequencer_broadcast.rs\<close>. A feed message carries an L2 message, which is a signed
  transaction or a batch of length-prefixed L2 messages; the decoder walks the batches and the
  analyser turns the transactions it knows into candidates.

  The JSON value, the base64 decoder and the transaction envelope belong to third-party crates:
  they are the fields of the record \<open>feed_externals\<close>. The wall clock is an argument, one reading
  per envelope.

  The byte layout is stated apart from the decoder, as the inductive grammar \<open>l2_frame\<close>: the
  decoder accepts exactly its frames and returns their transactions in order.
\<close>

section \<open>Data\<close>

record ('v, 'tx) feed_externals =
  f_as_object :: "'v \<Rightarrow> (string \<rightharpoonup> 'v) option" \<comment> \<open>\<open>Value::as_object\<close>\<close>
  f_as_str :: "'v \<Rightarrow> string option"
  f_as_u64 :: "'v \<Rightarrow> u64 option"
  f_base64 :: "string \<Rightarrow> string + u8 list" \<comment> \<open>\<open>STANDARD.decode\<close>\<close>
  f_decode_2718 :: "u8 list \<Rightarrow> string + 'tx" \<comment> \<open>\<open>TxEnvelope::decode_2718\<close>\<close>
  t_input :: "'tx \<Rightarrow> u8 list"
  t_to :: "'tx \<Rightarrow> u160 option"
  t_tx_hash :: "'tx \<Rightarrow> u256"
  t_recover_signer :: "'tx \<Rightarrow> string + u160"
  t_encoded_2718 :: "'tx \<Rightarrow> u8 list"
  t_value :: "'tx \<Rightarrow> u256"
  t_gas_limit :: "'tx \<Rightarrow> u64"
  t_gas_price :: "'tx \<Rightarrow> u128 option"
  t_max_fee_per_gas :: "'tx \<Rightarrow> u128"
  t_max_priority_fee_per_gas :: "'tx \<Rightarrow> u128 option"

definition lift_err :: "('e \<Rightarrow> 'f) \<Rightarrow> 'e + 'a \<Rightarrow> ('a, 'f) outcome" where
  \<comment> \<open>\<open>map_err\<close> on the result of an external call\<close>
  "lift_err f r = (case r of Inl e \<Rightarrow> Err (f e) | Inr x \<Rightarrow> Ok x)"

definition L1_MESSAGE_TYPE_L2_MESSAGE :: u64 where "L1_MESSAGE_TYPE_L2_MESSAGE = 3"
definition L2_MSG_KIND_UNSIGNED_USER_TX :: u8 where "L2_MSG_KIND_UNSIGNED_USER_TX = 0"
definition L2_MSG_KIND_CONTRACT_TX :: u8 where "L2_MSG_KIND_CONTRACT_TX = 1"
definition L2_MSG_KIND_NONMUTATING_CALL :: u8 where "L2_MSG_KIND_NONMUTATING_CALL = 2"
definition L2_MSG_KIND_BATCH :: u8 where "L2_MSG_KIND_BATCH = 3"
definition L2_MSG_KIND_SIGNED_TX :: u8 where "L2_MSG_KIND_SIGNED_TX = 4"
definition L2_MSG_KIND_HEARTBEAT :: u8 where "L2_MSG_KIND_HEARTBEAT = 5"
definition L2_MSG_KIND_SIGNED_COMPRESSED_TX :: u8 where "L2_MSG_KIND_SIGNED_COMPRESSED_TX = 6"
definition MAX_BATCH_DEPTH :: u8 where "MAX_BATCH_DEPTH = 16"
definition MAX_L2_MESSAGE_SIZE :: u64 where "MAX_L2_MESSAGE_SIZE = 256 * 1024"

lemmas l2_kinds = L2_MSG_KIND_UNSIGNED_USER_TX_def L2_MSG_KIND_CONTRACT_TX_def
  L2_MSG_KIND_NONMUTATING_CALL_def L2_MSG_KIND_BATCH_def L2_MSG_KIND_SIGNED_TX_def
  L2_MSG_KIND_HEARTBEAT_def L2_MSG_KIND_SIGNED_COMPRESSED_TX_def

definition UNIV2_SWAP_EXACT_TOKENS_FOR_TOKENS :: "u8 list" where
  "UNIV2_SWAP_EXACT_TOKENS_FOR_TOKENS = [0x38, 0xed, 0x17, 0x39]"
definition UNIV2_SWAP_TOKENS_FOR_EXACT_TOKENS :: "u8 list" where
  "UNIV2_SWAP_TOKENS_FOR_EXACT_TOKENS = [0x88, 0x03, 0xdb, 0xee]"
definition UNIV2_SWAP_EXACT_TOKENS_FOR_TOKENS_SUPPORTING_FOT :: "u8 list" where
  "UNIV2_SWAP_EXACT_TOKENS_FOR_TOKENS_SUPPORTING_FOT = [0x5c, 0x11, 0xd7, 0x95]"
definition UNIV3_EXACT_INPUT_SINGLE :: "u8 list" where "UNIV3_EXACT_INPUT_SINGLE = [0x41, 0x4b, 0xf3, 0x89]"
definition UNIV3_EXACT_INPUT :: "u8 list" where "UNIV3_EXACT_INPUT = [0xc0, 0x4b, 0x8d, 0x59]"
definition UNIVERSAL_ROUTER_EXECUTE :: "u8 list" where "UNIVERSAL_ROUTER_EXECUTE = [0x35, 0x93, 0x56, 0x4c]"
definition UNIVERSAL_ROUTER_EXECUTE_NO_DEADLINE :: "u8 list" where
  "UNIVERSAL_ROUTER_EXECUTE_NO_DEADLINE = [0x24, 0x85, 0x6b, 0xc3]"
definition CAMELOT_SWAP_EXACT_TOKENS_FOR_TOKENS_SUPPORTING_FOT_REFERRER :: "u8 list" where
  "CAMELOT_SWAP_EXACT_TOKENS_FOR_TOKENS_SUPPORTING_FOT_REFERRER = [0xac, 0x38, 0x93, 0xba]"
definition CURVE_V1_EXCHANGE :: "u8 list" where "CURVE_V1_EXCHANGE = [0x3d, 0xf0, 0x21, 0x24]"
definition CURVE_V2_EXCHANGE :: "u8 list" where "CURVE_V2_EXCHANGE = [0x5b, 0x41, 0xb9, 0x08]"
definition BALANCER_V2_SWAP :: "u8 list" where "BALANCER_V2_SWAP = [0x52, 0xbb, 0xbe, 0x29]"
definition BALANCER_V2_BATCH_SWAP :: "u8 list" where "BALANCER_V2_BATCH_SWAP = [0x94, 0x5b, 0xce, 0xc9]"
definition BALANCER_V3_SWAP_SINGLE_EXACT_IN :: "u8 list" where
  "BALANCER_V3_SWAP_SINGLE_EXACT_IN = [0x75, 0x02, 0x83, 0xbc]"
definition FEED_AAVE_V3_LIQUIDATION_CALL :: "u8 list" where
  "FEED_AAVE_V3_LIQUIDATION_CALL = [0x00, 0xa7, 0x18, 0xa9]"

definition FRONTRUN_SELECTORS :: "(u8 list \<times> string) list" where
  "FRONTRUN_SELECTORS =
     [(UNIV2_SWAP_EXACT_TOKENS_FOR_TOKENS, ''UniV2.swapExactTokensForTokens''),
      (UNIV2_SWAP_TOKENS_FOR_EXACT_TOKENS, ''UniV2.swapTokensForExactTokens''),
      (UNIV2_SWAP_EXACT_TOKENS_FOR_TOKENS_SUPPORTING_FOT, ''UniV2.swapExactTokensForTokensSupportingFeeOnTransferTokens''),
      (UNIV3_EXACT_INPUT_SINGLE, ''UniV3.exactInputSingle''),
      (UNIV3_EXACT_INPUT, ''UniV3.exactInput''),
      (UNIVERSAL_ROUTER_EXECUTE, ''UniversalRouter.execute''),
      (UNIVERSAL_ROUTER_EXECUTE_NO_DEADLINE, ''UniversalRouter.execute(no-deadline)''),
      (CAMELOT_SWAP_EXACT_TOKENS_FOR_TOKENS_SUPPORTING_FOT_REFERRER,
        ''Camelot.swapExactTokensForTokensSupportingFeeOnTransferTokens''),
      (CURVE_V1_EXCHANGE, ''Curve.exchange(int128)''),
      (CURVE_V2_EXCHANGE, ''Curve.exchange(uint256)''),
      (BALANCER_V2_SWAP, ''BalancerV2.swap''),
      (BALANCER_V2_BATCH_SWAP, ''BalancerV2.batchSwap''),
      (BALANCER_V3_SWAP_SINGLE_EXACT_IN, ''BalancerV3.swapSingleTokenExactIn''),
      (FEED_AAVE_V3_LIQUIDATION_CALL, ''AaveV3.liquidationCall'')]"

lemmas frontrun_selector_defs = UNIV2_SWAP_EXACT_TOKENS_FOR_TOKENS_def UNIV2_SWAP_TOKENS_FOR_EXACT_TOKENS_def
  UNIV2_SWAP_EXACT_TOKENS_FOR_TOKENS_SUPPORTING_FOT_def UNIV3_EXACT_INPUT_SINGLE_def UNIV3_EXACT_INPUT_def
  UNIVERSAL_ROUTER_EXECUTE_def UNIVERSAL_ROUTER_EXECUTE_NO_DEADLINE_def
  CAMELOT_SWAP_EXACT_TOKENS_FOR_TOKENS_SUPPORTING_FOT_REFERRER_def CURVE_V1_EXCHANGE_def CURVE_V2_EXCHANGE_def
  BALANCER_V2_SWAP_def BALANCER_V2_BATCH_SWAP_def BALANCER_V3_SWAP_SINGLE_EXACT_IN_def
  FEED_AAVE_V3_LIQUIDATION_CALL_def

record AddressTargets =
  address_match :: "(u160 \<times> string) list"

record AnalysisConfig =
  address_targets :: AddressTargets

record FrontrunCandidate =
  fc_selector :: "u8 list"
  fc_target_label :: string
  fc_victim :: "u160 option"
  fc_tx_hash :: u256
  fc_from :: u160
  fc_raw_tx :: "u8 list"
  fc_calldata :: "u8 list"
  fc_value_wei :: u128
  fc_gas_limit :: u64
  fc_gas_price_wei :: u128
  fc_max_priority_fee_per_gas_wei :: u128
  fc_observed_at_ms :: u64
  fc_sequence_number :: u64

datatype DecodeError =
  MissingL2Msg | L2MsgNotString | Base64 string | Empty | UnsupportedKind u8 | Eip2718 string
| BatchTooDeep | BatchSegmentTooLarge u64 | NonL2MessageKind u64 | SignedCompressedTxUnsupported

type_synonym 'a feed_result = "('a, DecodeError) outcome"

record 'v BroadcastFeedMessage =
  bf_sequence_number :: u64
  bf_message :: 'v
  bf_block_hash :: "string option"
  bf_signature :: "u8 list"
  bf_block_metadata :: "u8 list option"

record ConfirmedSequenceNumberMessage =
  cs_sequence_number :: u64

record 'v BroadcastMessage =
  bm_version :: int
  bm_messages :: "'v BroadcastFeedMessage list option"
  bm_confirmed :: "ConfirmedSequenceNumberMessage option"

datatype BroadcastError = Parse string | EmptyEnvelope

definition parse_envelope ::
  "(u8 list \<Rightarrow> string + 'v BroadcastMessage) \<Rightarrow> u8 list \<Rightarrow> ('v BroadcastMessage, BroadcastError) outcome" where
  \<comment> \<open>the parameter is \<open>serde_json::from_slice\<close>\<close>
  "parse_envelope from_slice raw =
     obind (lift_err Parse (from_slice raw)) (\<lambda>env.
       if (case bm_messages env of None \<Rightarrow> True | Some ms \<Rightarrow> ms = []) \<and> bm_confirmed env = None
       then Err EmptyEnvelope else Ok env)"

section \<open>Finding the L2 message\<close>

definition value_get :: "('v, 'tx) feed_externals \<Rightarrow> 'v \<Rightarrow> string \<Rightarrow> 'v option" where
  \<comment> \<open>\<open>Value::get\<close>\<close>
  "value_get X v key = (case f_as_object X v of None \<Rightarrow> None | Some obj \<Rightarrow> obj key)"

definition has_l2_msg :: "('v, 'tx) feed_externals \<Rightarrow> 'v \<Rightarrow> bool" where
  "has_l2_msg X message =
     (case f_as_object X message of
        None \<Rightarrow> False
      | Some obj \<Rightarrow> obj ''l2Msg'' \<noteq> None \<or> obj ''l2msg'' \<noteq> None)"

definition l1_incoming_message :: "('v, 'tx) feed_externals \<Rightarrow> 'v \<Rightarrow> 'v feed_result" where
  "l1_incoming_message X message =
     (if has_l2_msg X message then Ok message
      else obind (ok_or (f_as_object X message) MissingL2Msg) (\<lambda>obj.
        obind (ok_or (obj ''message'') MissingL2Msg) (\<lambda>nested.
          if has_l2_msg X nested then Ok nested else Err MissingL2Msg)))"

definition assert_l1_message_kind :: "('v, 'tx) feed_externals \<Rightarrow> 'v \<Rightarrow> unit feed_result" where
  "assert_l1_message_kind X message =
     (case Option.bind (Option.bind (value_get X message ''header'') (\<lambda>h. value_get X h ''kind'')) (f_as_u64 X) of
        None \<Rightarrow> Ok ()
      | Some kind \<Rightarrow> if kind = L1_MESSAGE_TYPE_L2_MESSAGE then Ok () else Err (NonL2MessageKind kind))"

definition extract_l2_msg_b64 :: "('v, 'tx) feed_externals \<Rightarrow> 'v \<Rightarrow> string feed_result" where
  "extract_l2_msg_b64 X message =
     obind (l1_incoming_message X message) (\<lambda>message.
     obind (assert_l1_message_kind X message) (\<lambda>_.
     obind (ok_or (f_as_object X message) MissingL2Msg) (\<lambda>obj.
     obind (ok_or (case obj ''l2Msg'' of Some v \<Rightarrow> Some v | None \<Rightarrow> obj ''l2msg'') MissingL2Msg) (\<lambda>val.
       ok_or (f_as_str X val) L2MsgNotString))))"

section \<open>Walking the batches\<close>

function decode_l2_message_bytes :: "('v, 'tx) feed_externals \<Rightarrow> u8 list \<Rightarrow> u8 \<Rightarrow> 'tx list \<Rightarrow> 'tx list feed_result"
  and decode_batch :: "('v, 'tx) feed_externals \<Rightarrow> u8 list \<Rightarrow> u8 \<Rightarrow> 'tx list \<Rightarrow> 'tx list feed_result" where
  "decode_l2_message_bytes X [] depth out = Err Empty"
| "decode_l2_message_bytes X (kind # payload) depth out =
     (if kind = L2_MSG_KIND_SIGNED_TX then
        obind (lift_err Eip2718 (f_decode_2718 X payload)) (\<lambda>envelope. Ok (out @ [envelope]))
      else if kind = L2_MSG_KIND_BATCH then
        if MAX_BATCH_DEPTH \<le> depth then Err BatchTooDeep else decode_batch X payload depth out
      else if kind = L2_MSG_KIND_UNSIGNED_USER_TX \<or> kind = L2_MSG_KIND_CONTRACT_TX
        \<or> kind = L2_MSG_KIND_NONMUTATING_CALL \<or> kind = L2_MSG_KIND_HEARTBEAT then Ok out
      else if kind = L2_MSG_KIND_SIGNED_COMPRESSED_TX then Err SignedCompressedTxUnsupported
      else Err (UnsupportedKind kind))"
| "decode_batch X rest depth out =
     (if length rest < 8 then Ok out
      else
        let seg_len = from_be (take 8 rest) :: u64;
            after_len = drop 8 rest
        in if MAX_L2_MESSAGE_SIZE < seg_len then Err (BatchSegmentTooLarge seg_len)
           else if length after_len < unat seg_len then Ok out
           else obind (decode_l2_message_bytes X (take (unat seg_len) after_len) (depth + 1) out) (\<lambda>out.
             decode_batch X (drop (unat seg_len) after_len) depth out))"
  by pat_completeness auto
termination
  by (relation "measure (\<lambda>arg. case arg of Inl (_, bytes, _) \<Rightarrow> length bytes | Inr (_, rest, _) \<Rightarrow> length rest)") auto

declare decode_l2_message_bytes.simps [simp del] decode_batch.simps [simp del]

definition decode_l2_signed_txs :: "('v, 'tx) feed_externals \<Rightarrow> 'v \<Rightarrow> 'tx list feed_result" where
  "decode_l2_signed_txs X message =
     obind (extract_l2_msg_b64 X message) (\<lambda>b64.
     obind (lift_err Base64 (f_base64 X b64)) (\<lambda>bytes. decode_l2_message_bytes X bytes 0 []))"

section \<open>Matching and candidates\<close>

definition first_chunk4 :: "u8 list \<Rightarrow> u8 list option" where
  \<comment> \<open>\<open>first_chunk::<4>\<close>\<close>
  "first_chunk4 bs = (if length bs < 4 then None else Some (take 4 bs))"

definition match_selector :: "u8 list \<Rightarrow> string option" where
  "match_selector calldata =
     (case first_chunk4 calldata of None \<Rightarrow> None | Some bytes \<Rightarrow> map_of FRONTRUN_SELECTORS bytes)"

definition match_address :: "u160 \<Rightarrow> AddressTargets \<Rightarrow> string option" where
  "match_address addr targets = map_of (address_match targets) addr"

definition is_ostium_destination :: "u160 \<Rightarrow> AddressTargets \<Rightarrow> bool" where
  "is_ostium_destination addr targets =
     list_ex (\<lambda>(a, label). a = addr \<and> take (length ''Ostium'') label = ''Ostium'') (address_match targets)"

definition saturating_to_u128 :: "u256 \<Rightarrow> u128" where
  "saturating_to_u128 v = (if unat v < 2 ^ 128 then ucast v else u_max)"

definition candidate_from_envelope ::
  "('v, 'tx) feed_externals \<Rightarrow> 'tx \<Rightarrow> 'v BroadcastFeedMessage \<Rightarrow> AnalysisConfig \<Rightarrow> u64 \<Rightarrow> FrontrunCandidate option" where
  "candidate_from_envelope X envelope msg cfg now_ms =
     (let calldata = t_input X envelope;
          victim = t_to X envelope
      in Option.bind
           (case match_selector calldata of
              Some label \<Rightarrow> Some label
            | None \<Rightarrow> Option.bind victim (\<lambda>addr.
                Option.bind (match_address addr (address_targets cfg)) (\<lambda>label. Some (''address_match:'' @ label))))
           (\<lambda>label.
              let selector = (case first_chunk4 calldata of Some arr \<Rightarrow> arr | None \<Rightarrow> [0, 0, 0, 0])
              in case t_recover_signer X envelope of
                   Inr from \<Rightarrow>
                     let gas_price_wei = (case t_gas_price X envelope of Some p \<Rightarrow> p | None \<Rightarrow> t_max_fee_per_gas X envelope)
                     in Some \<lparr>fc_selector = selector, fc_target_label = label, fc_victim = victim,
                          fc_tx_hash = t_tx_hash X envelope, fc_from = from, fc_raw_tx = t_encoded_2718 X envelope,
                          fc_calldata = calldata, fc_value_wei = saturating_to_u128 (t_value X envelope),
                          fc_gas_limit = t_gas_limit X envelope, fc_gas_price_wei = gas_price_wei,
                          fc_max_priority_fee_per_gas_wei =
                            (case t_max_priority_fee_per_gas X envelope of Some p \<Rightarrow> p | None \<Rightarrow> gas_price_wei),
                          fc_observed_at_ms = now_ms, fc_sequence_number = bf_sequence_number msg\<rparr>
                 | Inl _ \<Rightarrow> None))"

definition analyse_one ::
  "('v, 'tx) feed_externals \<Rightarrow> 'v BroadcastFeedMessage \<Rightarrow> AnalysisConfig \<Rightarrow> (nat \<Rightarrow> u64) \<Rightarrow> FrontrunCandidate list" where
  \<comment> \<open>the last argument is the clock as read at the envelope of each index\<close>
  "analyse_one X msg cfg clock =
     (case decode_l2_signed_txs X (bf_message msg) of
        Ok envelopes \<Rightarrow>
          List.map_filter (\<lambda>(i, env). candidate_from_envelope X env msg cfg (clock i)) (List.enumerate 0 envelopes)
      | _ \<Rightarrow> [])"

fun run_analysis ::
  "('v, 'tx) feed_externals \<Rightarrow> AnalysisConfig \<Rightarrow> ('v BroadcastFeedMessage \<times> (nat \<Rightarrow> u64)) list \<Rightarrow> FrontrunCandidate list" where
  \<comment> \<open>the candidates sent, over the messages received until the channel closes\<close>
  "run_analysis X cfg [] = []"
| "run_analysis X cfg ((msg, clock) # rest) = analyse_one X msg cfg clock @ run_analysis X cfg rest"

definition hex_digit :: "nat \<Rightarrow> char" where
  "hex_digit d = (if d < 10 then char_of (48 + d) else char_of (87 + d))"

definition hex_selector :: "u8 list \<Rightarrow> string" where
  "hex_selector bs = ''0x'' @ concat (map (\<lambda>b. [hex_digit (unat b div 16), hex_digit (unat b mod 16)]) bs)"

section \<open>The decoder never panics\<close>

lemma lift_err_no_panic [simp]: "lift_err f r \<noteq> Panic"
  by (cases r) (simp_all add: lift_err_def)

lemma decode_no_panic:
  "decode_l2_message_bytes X bytes depth out \<noteq> Panic" "decode_batch X rest depth out \<noteq> Panic"
proof (induction X bytes depth out and X rest depth out rule: decode_l2_message_bytes_decode_batch.induct)
  case 1 show ?case by (simp add: decode_l2_message_bytes.simps)
next
  case 2 then show ?case
    by (subst decode_l2_message_bytes.simps) (auto simp: outcome_simps)
next
  case 3 then show ?case
    by (subst decode_batch.simps) (auto simp: outcome_simps Let_def)
qed

lemma decode_l2_signed_txs_no_panic: "decode_l2_signed_txs X message \<noteq> Panic"
  by (auto simp: decode_l2_signed_txs_def extract_l2_msg_b64_def l1_incoming_message_def
      assert_l1_message_kind_def outcome_simps decode_no_panic split: option.splits if_splits)

section \<open>The grammar of L2 messages\<close>

definition ignored_kind :: "u8 \<Rightarrow> bool" where
  "ignored_kind k \<longleftrightarrow> k = L2_MSG_KIND_UNSIGNED_USER_TX \<or> k = L2_MSG_KIND_CONTRACT_TX
     \<or> k = L2_MSG_KIND_NONMUTATING_CALL \<or> k = L2_MSG_KIND_HEARTBEAT"

inductive l2_frame :: "u8 \<Rightarrow> u8 list \<Rightarrow> u8 list list \<Rightarrow> bool"
  and l2_segments :: "u8 \<Rightarrow> u8 list \<Rightarrow> u8 list list \<Rightarrow> bool" where
  signed: "l2_frame d (L2_MSG_KIND_SIGNED_TX # raw) [raw]"
| ignored: "ignored_kind k \<Longrightarrow> l2_frame d (k # payload) []"
| batch: "d < MAX_BATCH_DEPTH \<Longrightarrow> l2_segments d payload raws \<Longrightarrow> l2_frame d (L2_MSG_KIND_BATCH # payload) raws"
| no_length: "length rest < 8 \<Longrightarrow> l2_segments d rest []"
| cut_short: "len \<le> MAX_L2_MESSAGE_SIZE \<Longrightarrow> length body < unat len \<Longrightarrow> l2_segments d (to_be_bytes (len :: u64) @ body) []"
| segment: "length seg \<le> unat MAX_L2_MESSAGE_SIZE \<Longrightarrow> l2_frame (d + 1) seg raws \<Longrightarrow> l2_segments d rest tail \<Longrightarrow>
    l2_segments d (push_bytes seg @ rest) (raws @ tail)"

abbreviation decode_raws :: "('v, 'tx) feed_externals \<Rightarrow> u8 list list \<Rightarrow> 'tx list feed_result" where
  "decode_raws X \<equiv> collect (\<lambda>raw. lift_err Eip2718 (f_decode_2718 X raw))"

lemma collect_append:
  "collect f (xs @ ys) = obind (collect f xs) (\<lambda>a. obind (collect f ys) (\<lambda>b. Ok (a @ b)))"
proof (induction xs)
  case Nil then show ?case by (cases "collect f ys") simp_all
next
  case (Cons x xs)
  show ?case unfolding append_Cons collect.simps Cons.IH obind_assoc by (simp add: obind_assoc)
qed

lemma length_prefix:
  assumes "8 \<le> length rest"
  shows "rest = to_be_bytes (from_be (take 8 rest) :: u64) @ drop 8 rest"
proof -
  have "to_be_bytes (from_be (take 8 rest) :: u64) = take 8 rest"
    using assms by (intro to_be_bytes_from_be) simp_all
  then show ?thesis by simp
qed

lemma from_be_u64 [simp]: "from_be (to_be_bytes (w :: u64)) = w"
  by (simp add: from_be_def be_value_to_be_bytes)

lemma decode_batch_segment:
  assumes "length seg \<le> unat MAX_L2_MESSAGE_SIZE"
  shows "decode_batch X (push_bytes seg @ rest) d out =
    obind (decode_l2_message_bytes X seg (d + 1) out) (decode_batch X rest d)"
proof -
  have u: "unat (word_of_nat (length seg) :: u64) = length seg"
    by (rule unat_word_of_nat) (use assms in \<open>simp add: MAX_L2_MESSAGE_SIZE_def power_numeral\<close>)
  then have "\<not> MAX_L2_MESSAGE_SIZE < word_of_nat (length seg)"
    using assms by (simp add: word_less_nat_alt)
  with u show ?thesis
    by (subst decode_batch.simps) (simp add: push_bytes_def Let_def)
qed

lemma frame_decodes:
  "l2_frame d bytes raws \<Longrightarrow> decode_l2_message_bytes X bytes d out = obind (decode_raws X raws) (\<lambda>envs. Ok (out @ envs))"
  "l2_segments d rest raws \<Longrightarrow> decode_batch X rest d out = obind (decode_raws X raws) (\<lambda>envs. Ok (out @ envs))"
proof (induction arbitrary: out and out rule: l2_frame_l2_segments.inducts)
  case (signed d raw)
  show ?case by (simp add: decode_l2_message_bytes.simps l2_kinds obind_assoc)
next
  case (ignored k d payload)
  then show ?case by (auto simp: decode_l2_message_bytes.simps l2_kinds ignored_kind_def)
next
  case (batch d payload raws)
  then show ?case by (auto simp: decode_l2_message_bytes.simps l2_kinds dest: leD)
next
  case (no_length rest d)
  then show ?case by (simp add: decode_batch.simps)
next
  case (cut_short len body d)
  then show ?case by (subst decode_batch.simps) (auto simp: Let_def not_le)
next
  case (segment seg d raws rest tail)
  have "decode_batch X (push_bytes seg @ rest) d out =
      obind (obind (decode_raws X raws) (\<lambda>envs. Ok (out @ envs))) (decode_batch X rest d)"
    by (simp only: decode_batch_segment [OF segment.hyps(1)] segment.IH(1))
  also have "\<dots> = obind (decode_raws X (raws @ tail)) (\<lambda>envs. Ok (out @ envs))"
    by (simp add: obind_assoc collect_append segment.IH(2))
  finally show ?case .
qed

lemma decoded_frame:
  "decode_l2_message_bytes X bytes d out = Ok out' \<Longrightarrow> \<exists>raws. l2_frame d bytes raws"
  "decode_batch X rest d out = Ok out' \<Longrightarrow> \<exists>raws. l2_segments d rest raws"
proof (induction X bytes d out and X rest d out arbitrary: out' and out'
    rule: decode_l2_message_bytes_decode_batch.induct)
  case 1 then show ?case by (simp add: decode_l2_message_bytes.simps)
next
  case (2 X kind payload depth out)
  have "\<exists>raws. l2_frame depth (kind # payload) raws" if "ignored_kind kind" using that by (blast intro: ignored)
  then show ?case using 2
    by (auto simp: decode_l2_message_bytes.simps ignored_kind_def not_le split: if_splits intro: signed batch)
next
  case (3 X rest depth out)
  show ?case
  proof (cases "length rest < 8")
    case True then show ?thesis by (blast intro: no_length)
  next
    case False
    define len where "len = (from_be (take 8 rest) :: u64)"
    have r: "rest = to_be_bytes len @ drop 8 rest" using False length_prefix [of rest] by (simp add: len_def)
    have small: "\<not> MAX_L2_MESSAGE_SIZE < len" using "3.prems" False by (subst (asm) decode_batch.simps) (auto simp: Let_def len_def split: if_splits)
    show ?thesis
    proof (cases "length (drop 8 rest) < unat len")
      case True
      then have "l2_segments depth (to_be_bytes len @ drop 8 rest) []" using small by (intro cut_short) simp_all
      then show ?thesis using r by metis
    next
      case long: False
      define seg where "seg = take (unat len) (drop 8 rest)"
      obtain mid where m: "decode_l2_message_bytes X seg (depth + 1) out = Ok mid"
        and n: "decode_batch X (drop (unat len) (drop 8 rest)) depth mid = Ok out'"
        using "3.prems" False small long
        by (subst (asm) decode_batch.simps) (auto simp: Let_def len_def seg_def outcome_simps split: if_splits)
      obtain raws where a: "l2_frame (depth + 1) seg raws"
        using "3.IH"(1) [OF False refl refl] small long m by (auto simp: len_def seg_def)
      obtain tail where b: "l2_segments depth (drop (unat len) (drop 8 rest)) tail"
        using "3.IH"(2) [OF False refl refl] small long m n by (auto simp: len_def seg_def)
      have ls: "length seg = unat len" using long by (simp add: seg_def)
      have "seg @ drop (unat len) (drop 8 rest) = drop 8 rest" unfolding seg_def by (rule append_take_drop_id)
      with ls have "push_bytes seg @ drop (unat len) (drop 8 rest) = rest"
        unfolding push_bytes_def append_assoc by (simp flip: r)
      moreover have "length seg \<le> unat MAX_L2_MESSAGE_SIZE" using small ls by (simp add: word_less_nat_alt)
      ultimately show ?thesis using segment [OF _ a b] by metis
    qed
  qed
qed

section \<open>Message trees\<close>

datatype l2_tree = Signed "u8 list" | Ignored u8 "u8 list" | Batch "l2_tree list"

fun l2_bytes :: "l2_tree \<Rightarrow> u8 list" where
  "l2_bytes (Signed raw) = L2_MSG_KIND_SIGNED_TX # raw"
| "l2_bytes (Ignored k payload) = k # payload"
| "l2_bytes (Batch ms) = L2_MSG_KIND_BATCH # concat (map (\<lambda>m. push_bytes (l2_bytes m)) ms)"

fun l2_raws :: "l2_tree \<Rightarrow> u8 list list" where
  "l2_raws (Signed raw) = [raw]"
| "l2_raws (Ignored k payload) = []"
| "l2_raws (Batch ms) = concat (map l2_raws ms)"

fun l2_fits :: "nat \<Rightarrow> l2_tree \<Rightarrow> bool" where
  \<comment> \<open>at most so many batches inside one another, every segment within the size limit\<close>
  "l2_fits n (Signed raw) = True"
| "l2_fits n (Ignored k payload) = ignored_kind k"
| "l2_fits 0 (Batch ms) = False"
| "l2_fits (Suc n) (Batch ms) = (\<forall>m \<in> set ms. length (l2_bytes m) \<le> unat MAX_L2_MESSAGE_SIZE \<and> l2_fits n m)"

lemma l2_fits_numeral [simp]:
  "l2_fits (numeral k) (Batch ms) =
    (\<forall>m \<in> set ms. length (l2_bytes m) \<le> unat MAX_L2_MESSAGE_SIZE \<and> l2_fits (pred_numeral k) m)"
  by (simp add: numeral_eq_Suc)

lemma segments_frame:
  "(\<And>m. m \<in> set ms \<Longrightarrow> length (l2_bytes m) \<le> unat MAX_L2_MESSAGE_SIZE \<and> l2_frame (d + 1) (l2_bytes m) (l2_raws m)) \<Longrightarrow>
    l2_segments d (concat (map (\<lambda>m. push_bytes (l2_bytes m)) ms)) (concat (map l2_raws ms))"
  by (induction ms) (auto intro: no_length segment)

lemma tree_frame: "l2_fits n m \<Longrightarrow> unat d + n \<le> 16 \<Longrightarrow> l2_frame d (l2_bytes m) (l2_raws m)"
proof (induction n m arbitrary: d rule: l2_fits.induct)
  case (4 n ms)
  have u: "unat (d + 1) = unat d + 1" by (rule unat_plus_one) (use "4.prems"(2) in \<open>auto simp: unat_u_max power_numeral\<close>)
  have "l2_segments d (concat (map (\<lambda>m. push_bytes (l2_bytes m)) ms)) (concat (map l2_raws ms))"
    using 4 u by (intro segments_frame) auto
  moreover have "d < MAX_BATCH_DEPTH" using "4.prems"(2) by (simp add: word_less_nat_alt MAX_BATCH_DEPTH_def)
  ultimately show ?case by (simp add: batch)
qed (simp_all add: signed ignored)

section \<open>Properties\<close>

text \<open>
  C13. The decoder of L2 messages implements the grammar: a byte string is accepted with a given list of
  envelopes exactly when it is a frame whose signed transactions, in depth-first order, decode to those
  envelopes. Nesting beyond sixteen batches, an oversized segment, an unknown kind or an empty segment is never
  accepted, and a truncated last segment ends its batch. A frame of one of the four other known kinds (unsigned
  transaction, contract transaction, non-mutating call, heartbeat) is accepted without an envelope, although the
  comments call it an error.
\<close>

theorem l2_decoder_implements_grammar:
  "decode_l2_message_bytes X bytes depth out = Ok out' \<longleftrightarrow>
    (\<exists>raws envs. l2_frame depth bytes raws \<and> decode_raws X raws = Ok envs \<and> out' = out @ envs)"
proof
  assume ok: "decode_l2_message_bytes X bytes depth out = Ok out'"
  then obtain raws where f: "l2_frame depth bytes raws" using decoded_frame(1) by blast
  with ok have "obind (decode_raws X raws) (\<lambda>envs. Ok (out @ envs)) = Ok out'" by (simp add: frame_decodes(1) [OF f])
  with f show "\<exists>raws envs. l2_frame depth bytes raws \<and> decode_raws X raws = Ok envs \<and> out' = out @ envs"
    by (auto simp: outcome_simps)
qed (auto simp: frame_decodes(1))

text \<open>
  A well-formed tree of messages, at most sixteen batches deep and with every segment within the size limit,
  is decoded to its signed transactions in order, or to the error of the first of them that does not decode.
\<close>

theorem l2_tree_decodes:
  "l2_fits 16 m \<Longrightarrow> decode_l2_message_bytes X (l2_bytes m) 0 [] = decode_raws X (l2_raws m)"
  using frame_decodes(1) [OF tree_frame, of 16 m 0 X "[]"] by (cases "decode_raws X (l2_raws m)") auto

definition toy_feed :: "(unit, nat) feed_externals" where
  \<comment> \<open>a transaction is the number of its bytes\<close>
  "toy_feed = \<lparr>f_as_object = \<lambda>_. None, f_as_str = \<lambda>_. None, f_as_u64 = \<lambda>_. None, f_base64 = \<lambda>_. Inl [],
     f_decode_2718 = \<lambda>raw. if raw = [] then Inl ''empty'' else Inr (length raw), t_input = \<lambda>_. [], t_to = \<lambda>_. None,
     t_tx_hash = \<lambda>_. 0, t_recover_signer = \<lambda>_. Inl [], t_encoded_2718 = \<lambda>_. [], t_value = \<lambda>_. 0,
     t_gas_limit = \<lambda>_. 0, t_gas_price = \<lambda>_. None, t_max_fee_per_gas = \<lambda>_. 0,
     t_max_priority_fee_per_gas = \<lambda>_. None\<rparr>"

theorem l2_tree_decodes_witness:
  "decode_l2_message_bytes toy_feed
    (l2_bytes (Batch [Signed [1, 2], Batch [Ignored 5 [], Signed [7]]])) 0 [] = Ok [2, 1]"
proof -
  have "l2_fits 16 (Batch [Signed [1, 2], Batch [Ignored 5 [], Signed [7]]])"
    by (simp add: ignored_kind_def l2_kinds MAX_L2_MESSAGE_SIZE_def push_bytes_def)
  from l2_tree_decodes [OF this, of toy_feed] show ?thesis by (simp add: toy_feed_def lift_err_def)
qed

text \<open>
  The selector table of the feed analyser and the one of the Stylus calldata library differ exactly here: the
  calldata library also takes the two entry points of the second V3 router and the token transfer for targets,
  which the feed analyser lets pass.
\<close>

theorem feed_misses_router02:
  "is_frontrun_target calldata \<and> match_selector calldata = None \<longleftrightarrow>
    4 \<le> length calldata \<and> take 4 calldata \<in> {V3_EXACT_INPUT_SINGLE_02, V3_EXACT_INPUT_02, ERC20_TRANSFER}"
proof -
  have s: "selector_of calldata = Ok (take 4 calldata)" if "\<not> length calldata < 4"
    using that by (auto simp: selector_of_def not_less numeral_eq_Suc Suc_le_length_iff)
  have keys: "map_of FRONTRUN_SELECTORS s = None \<longleftrightarrow> s \<notin> set (map fst FRONTRUN_SELECTORS)" for s
    by (simp add: map_of_eq_None_iff)
  have listed: "set (map fst FRONTRUN_SELECTORS) = set [UNIV2_SWAP_EXACT_TOKENS_FOR_TOKENS, UNIV2_SWAP_TOKENS_FOR_EXACT_TOKENS,
      UNIV2_SWAP_EXACT_TOKENS_FOR_TOKENS_SUPPORTING_FOT, UNIV3_EXACT_INPUT_SINGLE, UNIV3_EXACT_INPUT,
      UNIVERSAL_ROUTER_EXECUTE, UNIVERSAL_ROUTER_EXECUTE_NO_DEADLINE,
      CAMELOT_SWAP_EXACT_TOKENS_FOR_TOKENS_SUPPORTING_FOT_REFERRER, CURVE_V1_EXCHANGE, CURVE_V2_EXCHANGE,
      BALANCER_V2_SWAP, BALANCER_V2_BATCH_SWAP, BALANCER_V3_SWAP_SINGLE_EXACT_IN, FEED_AAVE_V3_LIQUIDATION_CALL]"
    unfolding FRONTRUN_SELECTORS_def list.map fst_conv by (rule refl)
  have m: "is_frontrun_selector s \<and> map_of FRONTRUN_SELECTORS s = None \<longleftrightarrow>
      s \<in> {V3_EXACT_INPUT_SINGLE_02, V3_EXACT_INPUT_02, ERC20_TRANSFER}" for s
  proof -
    have "\<forall>s \<in> {V2_SWAP_EXACT_TOKENS_FOR_TOKENS, V3_EXACT_INPUT_SINGLE, V3_EXACT_INPUT, UR_EXECUTE,
        UR_EXECUTE_NO_DEADLINE, AAVE_V3_LIQUIDATION_CALL}. map_of FRONTRUN_SELECTORS s \<noteq> None"
      "\<forall>s \<in> {V3_EXACT_INPUT_SINGLE_02, V3_EXACT_INPUT_02, ERC20_TRANSFER}. map_of FRONTRUN_SELECTORS s = None"
      unfolding keys listed by (simp_all add: frontrun_selector_defs selectors)
    then show ?thesis unfolding is_frontrun_selector_def by (elim ballE [of _ _ s]) simp_all
  qed
  show ?thesis
  proof (cases "length calldata < 4")
    case True then show ?thesis by (simp add: is_frontrun_target_def selector_of_def)
  next
    case False
    then show ?thesis using m [of "take 4 calldata"]
      by (simp add: is_frontrun_target_def s match_selector_def first_chunk4_def not_less)
  qed
qed

end
