(* ===== verification/Mobius_Int.thy ===== *)
theory Mobius_Int
  imports Constant_Product Rust_Prelude
begin

text \<open>
  The integer cycle optimiser of the Rust core: \<open>optimizers/mobius_int.rs\<close>. A hop is a pool with a fee fraction;
  a swap and the coefficients of a route are computed in \<open>U512\<close> with wrapping operators; the solver simulates the
  route at the integers around a starting point and keeps the best one.

  The starting points come from floating-point arithmetic. The routines that compute them are translated over the
  record \<open>f64_ops\<close> of the machine operations on \<open>f64\<close> (comparison, arithmetic, square root, the casts); the theorems
  hold whatever these operations return, so they do not depend on how a result is rounded.
\<close>

declare power_numeral [simp del]

section \<open>Hops and coefficients\<close>

record IntHopState =
  ih_reserve_in :: u256
  ih_reserve_out :: u256
  gamma_numer :: u64
  fee_denom :: u64

definition ih_swap :: "IntHopState \<Rightarrow> u256 \<Rightarrow> u256" where
  \<comment> \<open>\<open>IntHopState::swap\<close>\<close>
  "ih_swap hop x =
     (let x_u512 = to_u512 x;
          r_in_u512 = to_u512 (ih_reserve_in hop);
          r_out_u512 = to_u512 (ih_reserve_out hop);
          gn_u512 = ucast (gamma_numer hop) :: u512;
          fd_u512 = ucast (fee_denom hop) :: u512;
          numerator = gn_u512 * r_out_u512 * x_u512;
          denom = fd_u512 * r_in_u512 + gn_u512 * x_u512
      in if denom = 0 then 0 else ucast (numerator div denom))"

datatype MobiusError = EmptyHops | InconsistentSequence string

record IntMobiusCoefficients =
  co_K :: u512
  co_M :: u512
  co_N :: u512
  is_profitable :: bool

fun coefficient_loop :: "IntHopState list \<Rightarrow> u512 \<times> u512 \<times> u512 \<Rightarrow> u512 \<times> u512 \<times> u512" where
  \<comment> \<open>\<open>a00\<close>, \<open>a10\<close> and \<open>a11\<close>\<close>
  "coefficient_loop [] acc = acc"
| "coefficient_loop (hop # hops) (a00, a10, a11) =
     (let gn_i = ucast (gamma_numer hop) :: u512;
          fd_i = ucast (fee_denom hop) :: u512;
          r_i = to_u512 (ih_reserve_in hop);
          s_i = to_u512 (ih_reserve_out hop)
      in coefficient_loop hops (a00 * gn_i * s_i, a10 * fd_i * r_i + a00 * gn_i, a11 * fd_i * r_i))"

definition compute_int_mobius_coefficients :: "IntHopState list \<Rightarrow> (IntMobiusCoefficients, MobiusError) outcome" where
  "compute_int_mobius_coefficients hops =
     (case hops of
        [] \<Rightarrow> Err EmptyHops
      | first # rest \<Rightarrow>
          let gn0 = ucast (gamma_numer first) :: u512;
              fd0 = ucast (fee_denom first) :: u512;
              r0 = to_u512 (ih_reserve_in first);
              s0 = to_u512 (ih_reserve_out first);
              (a00, a10, a11) = coefficient_loop rest (gn0 * s0, gn0, fd0 * r0)
          in Ok \<lparr>co_K = a00, co_M = a11, co_N = a10, is_profitable = (a11 < a00)\<rparr>)"

fun int_simulate_path :: "u256 \<Rightarrow> IntHopState list \<Rightarrow> u256" where
  "int_simulate_path amount [] = amount"
| "int_simulate_path amount (hop # hops) = (if amount = 0 then 0 else int_simulate_path (ih_swap hop amount) hops)"

section \<open>The integer search\<close>

record IntMobiusResult =
  im_optimal_input :: u256
  im_profit :: u256
  im_success :: bool
  im_iterations :: u32

definition no_result :: IntMobiusResult where
  "no_result = \<lparr>im_optimal_input = 0, im_profit = 0, im_success = False, im_iterations = 0\<rparr>"

definition saturating_add :: "u256 \<Rightarrow> u256 \<Rightarrow> u256" where
  "saturating_add a b = (case checked_add a b of Some c \<Rightarrow> c | None \<Rightarrow> u_max)"

definition saturating_sub :: "u256 \<Rightarrow> u256 \<Rightarrow> u256" where
  "saturating_sub a b = (if b \<le> a then a - b else 0)"

definition shifted :: "u256 \<Rightarrow> int \<Rightarrow> u256" where
  "shifted x delta = (if 0 \<le> delta then saturating_add x (word_of_int delta) else saturating_sub x (word_of_int (- delta)))"

fun search_loop :: "IntHopState list \<Rightarrow> u256 option \<Rightarrow> u256 list \<Rightarrow> u256 \<times> u256 \<times> u32 \<Rightarrow> u256 \<times> u256 \<times> u32" where
  "search_loop hops max_input [] acc = acc"
| "search_loop hops max_input (x # xs) (best_x, best_profit, iters) =
     (if x = 0 then search_loop hops max_input xs (best_x, best_profit, iters)
      else if (case max_input of None \<Rightarrow> False | Some m \<Rightarrow> m < x) then search_loop hops max_input xs (best_x, best_profit, iters)
      else
        let output = int_simulate_path x hops
        in search_loop hops max_input xs
             (if x < output \<and> best_profit < output - x then (x, output - x, iters + 1)
              else (best_x, best_profit, iters + 1)))"

definition searched :: "u256 \<times> u256 \<times> u32 \<Rightarrow> IntMobiusResult" where
  "searched acc = (case acc of (best_x, best_profit, iters) \<Rightarrow>
     \<lparr>im_optimal_input = best_x, im_profit = best_profit, im_success = (best_profit \<noteq> 0), im_iterations = iters\<rparr>)"

record 'f f64_ops =
  f_zero :: 'f
  f_one :: 'f
  f_u256_max :: 'f \<comment> \<open>the literal \<open>1.157920892373162e77\<close>\<close>
  f_le :: "'f \<Rightarrow> 'f \<Rightarrow> bool" \<comment> \<open>\<open><=\<close>, false when a side is not a number\<close>
  f_less :: "'f \<Rightarrow> 'f \<Rightarrow> bool"
  f_finite :: "'f \<Rightarrow> bool"
  f_sub :: "'f \<Rightarrow> 'f \<Rightarrow> 'f"
  f_mul :: "'f \<Rightarrow> 'f \<Rightarrow> 'f"
  f_div :: "'f \<Rightarrow> 'f \<Rightarrow> 'f"
  f_sqrt :: "'f \<Rightarrow> 'f"
  f_floor :: "'f \<Rightarrow> 'f"
  f_two_powi :: "i32 \<Rightarrow> 'f" \<comment> \<open>\<open>2f64.powi\<close>\<close>
  f_of_u64 :: "u64 \<Rightarrow> 'f" \<comment> \<open>\<open>as f64\<close>\<close>
  f_as_u64 :: "'f \<Rightarrow> u64" \<comment> \<open>\<open>as u64\<close>\<close>

definition u512_bit_len :: "u512 \<Rightarrow> nat" where
  \<comment> \<open>\<open>U512::bit_len\<close>\<close>
  "u512_bit_len v = length (dropWhile Not (map (bit v) (rev [0 ..< 512])))"

definition u512_to_f64 :: "'f f64_ops \<Rightarrow> u512 \<Rightarrow> 'f" where
  "u512_to_f64 F v =
     (let bit_len = u512_bit_len v
      in if bit_len = 0 then f_zero F
         else
           let shift = bit_len - 64;
               shifted = drop_bit shift v;
               lo = ucast shifted :: u64;
               shift_i32 = int shift
           in f_mul F (f_of_u64 F lo) (f_two_powi F shift_i32))"

definition u256_to_f64 :: "'f f64_ops \<Rightarrow> u256 \<Rightarrow> 'f" where
  "u256_to_f64 F v = u512_to_f64 F (to_u512 v)"

definition f64_to_u256 :: "'f f64_ops \<Rightarrow> 'f \<Rightarrow> u256" where
  "f64_to_u256 F v =
     (if f_le F v (f_zero F) \<or> \<not> f_finite F v then 0
      else if f_le F (f_u256_max F) v then u_max
      else if f_less F v (f_of_u64 F u_max) then ucast (f_as_u64 F v)
      else
        let hi_f64 = f_div F v (f_two_powi F 64);
            hi = f_as_u64 F hi_f64;
            lo_f64 = f_sub F v (f_mul F (f_of_u64 F hi) (f_two_powi F 64));
            lo = f_as_u64 F lo_f64
        in ucast hi * 2 ^ 64 + ucast lo)"

definition compute_approx_optimal_input :: "'f f64_ops \<Rightarrow> IntMobiusCoefficients \<Rightarrow> u256" where
  "compute_approx_optimal_input F coeffs =
     (let k_f64 = u512_to_f64 F (co_K coeffs);
          m_f64 = u512_to_f64 F (co_M coeffs);
          n_f64 = u512_to_f64 F (co_N coeffs)
      in if f_le F m_f64 (f_zero F) \<or> f_le F n_f64 (f_zero F) \<or> f_le F k_f64 (f_zero F) then 0
         else
           let km_ratio = f_div F k_f64 m_f64
           in if f_le F km_ratio (f_one F) then 0
              else
                let sqrt_km = f_sqrt F km_ratio;
                    x_f64 = f_div F (f_mul F m_f64 (f_sub F sqrt_km (f_one F))) n_f64
                in if f_le F x_f64 (f_zero F) \<or> \<not> f_finite F x_f64 then 0 else f64_to_u256 F x_f64)"

definition int_mobius_solve :: "'f f64_ops \<Rightarrow> IntHopState list \<Rightarrow> (IntMobiusResult, MobiusError) outcome" where
  "int_mobius_solve F hops =
     obind (compute_int_mobius_coefficients hops) (\<lambda>coeffs.
     if \<not> is_profitable coeffs then Ok no_result
     else
       let x_approx = compute_approx_optimal_input F coeffs
       in if x_approx = 0 then Ok no_result
          else Ok (searched (search_loop hops None (map (shifted x_approx) [-2..2]) (0, 0, 0))))"

definition search_radius :: "nat \<Rightarrow> int" where
  "search_radius num_hops = (if num_hops \<le> 2 then 1 else int (min num_hops 5))"

definition mobius_refine_int :: "'f f64_ops \<Rightarrow> 'f \<Rightarrow> IntHopState list \<Rightarrow> 'f option \<Rightarrow> IntMobiusResult" where
  "mobius_refine_int F x_approx hops max_input =
     (if f_le F x_approx (f_zero F) \<or> \<not> f_finite F x_approx then no_result
      else
        let x_floor_u256 = f64_to_u256 F (f_floor F x_approx);
            radius = search_radius (length hops);
            max_input_u256 = map_option (\<lambda>m. f64_to_u256 F (f_floor F m)) max_input
        in searched (search_loop hops max_input_u256
             (map (shifted x_floor_u256) [- radius .. radius + 1]) (0, 0, 0)))"

record 'f MobiusArbResult =
  ma_optimal_input :: 'f
  ma_profit :: 'f
  ma_iterations :: u32
  ma_success :: bool
  ma_optimal_input_int :: "u256 option"
  ma_profit_int :: "u256 option"

definition mobius_solve_with_refinement ::
  "'f f64_ops \<Rightarrow> ('h list \<Rightarrow> 'f option \<Rightarrow> 'f \<times> 'f \<times> u32) \<Rightarrow> 'h list \<Rightarrow> IntHopState list \<Rightarrow> bool \<Rightarrow> 'f option \<Rightarrow>
    'f MobiusArbResult" where
  \<comment> \<open>the second argument is the floating-point \<open>mobius_solve\<close>\<close>
  "mobius_solve_with_refinement F mobius_solve base_hops int_hops all_int max_input =
     (case mobius_solve base_hops max_input of (x_opt, profit, iters) \<Rightarrow>
        if all_int then
          if f_less F (f_zero F) x_opt \<and> f_less F (f_zero F) profit then
            let int_result = mobius_refine_int F x_opt int_hops max_input
            in \<lparr>ma_optimal_input = x_opt, ma_profit = profit, ma_iterations = iters, ma_success = im_success int_result,
                ma_optimal_input_int = Some (im_optimal_input int_result), ma_profit_int = Some (im_profit int_result)\<rparr>
          else
            \<lparr>ma_optimal_input = f_zero F, ma_profit = f_zero F, ma_iterations = iters, ma_success = False,
             ma_optimal_input_int = Some 0, ma_profit_int = Some 0\<rparr>
        else
          \<lparr>ma_optimal_input = x_opt, ma_profit = profit, ma_iterations = iters,
           ma_success = (f_less F (f_zero F) x_opt \<and> f_less F (f_zero F) profit),
           ma_optimal_input_int = None, ma_profit_int = None\<rparr>)"

section \<open>Exact swaps\<close>

declare of_nat_unat [simp del]

definition valid_int_hop :: "IntHopState \<Rightarrow> bool" where
  "valid_int_hop h \<longleftrightarrow> 0 < unat (gamma_numer h) \<and> 0 < unat (fee_denom h) \<and> 0 < unat (ih_reserve_in h) \<and> 0 < unat (ih_reserve_out h)"

definition ih_exact :: "IntHopState \<Rightarrow> real \<Rightarrow> real" where
  "ih_exact h = cp_map (real (unat (gamma_numer h))) (real (unat (fee_denom h)))
     (real (unat (ih_reserve_in h))) (real (unat (ih_reserve_out h)))"

fun path_exact :: "IntHopState list \<Rightarrow> real \<Rightarrow> real" where
  "path_exact [] a = a"
| "path_exact (h # hs) a = path_exact hs (ih_exact h a)"

lemma mult_below_powers:
  fixes x y :: nat
  assumes "x < 2 ^ a" "y < 2 ^ b"
  shows "x * y < 2 ^ (a + b)"
  using mult_strict_mono [OF assms] by (simp add: power_add)

lemma unat_mult_fits: "unat (a :: 'a::len word) * unat b < 2 ^ LENGTH('a) \<Longrightarrow> unat (a * b) = unat a * unat b"
  by (simp add: unat_word_ariths)

lemma unat_ucast_u64: "unat (ucast (w :: u64) :: u512) = unat w"
  using unat_bound [of w] by (simp add: unsigned_ucast_eq take_bit_nat_eq_self_iff power_numeral)

lemma unat_denom:
  "unat ((ucast (fee_denom h) :: u512) * to_u512 (ih_reserve_in h) + ucast (gamma_numer h) * to_u512 x)
    = unat (fee_denom h) * unat (ih_reserve_in h) + unat (gamma_numer h) * unat x"
proof -
  have w: "unat (fee_denom h) < 2 ^ 64" "unat (gamma_numer h) < 2 ^ 64"
    using unat_bound [of "fee_denom h"] unat_bound [of "gamma_numer h"] by simp_all
  have "unat (fee_denom h) * unat (ih_reserve_in h) < 2 ^ (64 + 256)" "unat (gamma_numer h) * unat x < 2 ^ (64 + 256)"
    by (rule mult_below_powers [OF w(1) unat_bound_256], rule mult_below_powers [OF w(2) unat_bound_256])
  moreover have "(2 :: nat) ^ (64 + 256) + 2 ^ (64 + 256) < 2 ^ 512" by (simp add: power_numeral)
  ultimately show ?thesis by (simp add: unat_word_ariths unat_ucast_u64 unat_to_u512)
qed

lemma ih_swap_exact:
  assumes "unat (ih_reserve_out h) < 2 ^ 192"
  shows "unat (ih_swap h x) = unat (gamma_numer h) * unat (ih_reserve_out h) * unat x
    div (unat (fee_denom h) * unat (ih_reserve_in h) + unat (gamma_numer h) * unat x)"
proof -
  let ?g = "unat (gamma_numer h)" and ?s = "unat (ih_reserve_out h)"
  let ?d = "unat (fee_denom h) * unat (ih_reserve_in h) + ?g * unat x"
  let ?num = "ucast (gamma_numer h) * to_u512 (ih_reserve_out h) * to_u512 x"
  let ?den = "(ucast (fee_denom h) :: u512) * to_u512 (ih_reserve_in h) + ucast (gamma_numer h) * to_u512 x"
  have g: "?g < 2 ^ 64" using unat_bound [of "gamma_numer h"] by simp
  have gs: "?g * ?s < 2 ^ (64 + 192)" using g assms by (rule mult_below_powers)
  have "?g * ?s * unat x < 2 ^ (64 + 192 + 256)" using gs unat_bound_256 [of x] by (rule mult_below_powers)
  moreover have "?g * ?s < 2 ^ 512" by (rule less_trans [OF gs]) (simp add: power_strict_increasing)
  ultimately have n: "unat ?num = ?g * ?s * unat x"
    by (simp add: unat_mult_fits unat_ucast_u64 unat_to_u512)
  have q: "?g * ?s * unat x div ?d \<le> ?s"
  proof (cases "?g * unat x = 0")
    case False
    then have "?s * (?g * unat x) div ?d \<le> ?s * (?g * unat x) div (?g * unat x)" by (intro div_le_mono2) simp_all
    then show ?thesis using False by (simp add: ac_simps)
  qed auto
  have "?s < 2 ^ 256" by (rule unat_bound_256)
  then have "unat (ucast (?num div ?den) :: u256) = unat (?num div ?den)"
    using q by (simp add: unsigned_ucast_eq unat_div n unat_denom take_bit_nat_eq_self)
  then show ?thesis
    by (auto simp: ih_swap_def Let_def unat_div n unat_denom word_unat_eq_iff [of ?den 0])
qed

lemma ih_exact_mono: "valid_int_hop h \<Longrightarrow> 0 \<le> a \<Longrightarrow> a \<le> b \<Longrightarrow> ih_exact h a \<le> ih_exact h b"
  unfolding ih_exact_def by (rule cp_map_mono) (simp_all add: valid_int_hop_def)

lemma ih_exact_nonneg: "0 \<le> a \<Longrightarrow> 0 \<le> ih_exact h a"
  by (simp add: ih_exact_def cp_map_nonneg)

lemma path_exact_nonneg: "0 \<le> a \<Longrightarrow> 0 \<le> path_exact hs a"
  by (induction hs arbitrary: a) (simp_all add: ih_exact_nonneg)

lemma ih_swap_below:
  assumes "unat (ih_reserve_out h) < 2 ^ 192"
  shows "real (unat (ih_swap h x)) \<le> ih_exact h (real (unat x))"
  unfolding ih_swap_exact [OF assms] ih_exact_def cp_map_def
  by (rule order_trans [OF of_nat_div_le_of_nat]) (simp add: ac_simps)

definition sized_hop :: "IntHopState \<Rightarrow> bool" where
  "sized_hop h \<longleftrightarrow> valid_int_hop h \<and> unat (ih_reserve_out h) < 2 ^ 192"

lemma simulation_below:
  "list_all sized_hop hs \<Longrightarrow> real (unat x) \<le> b \<Longrightarrow> real (unat (int_simulate_path x hs)) \<le> path_exact hs b"
proof (induction hs arbitrary: x b)
  case (Cons h hs)
  have b: "0 \<le> b" using Cons.prems(2) by (rule order_trans [rotated]) simp
  show ?case
  proof (cases "x = 0")
    case True
    then show ?thesis using b by (simp add: path_exact_nonneg ih_exact_nonneg)
  next
    case False
    have "real (unat (ih_swap h x)) \<le> ih_exact h b"
      using Cons.prems by (intro order_trans [OF ih_swap_below ih_exact_mono]) (simp_all add: sized_hop_def)
    with Cons.prems(1) Cons.IH False show ?thesis by simp
  qed
qed simp

section \<open>Exact coefficients\<close>

fun nat_loop :: "IntHopState list \<Rightarrow> nat \<times> nat \<times> nat \<Rightarrow> nat \<times> nat \<times> nat" where
  "nat_loop [] acc = acc"
| "nat_loop (h # hs) (k, n, m) =
     nat_loop hs (k * unat (gamma_numer h) * unat (ih_reserve_out h),
       n * unat (fee_denom h) * unat (ih_reserve_in h) + k * unat (gamma_numer h),
       m * unat (fee_denom h) * unat (ih_reserve_in h))"

definition exact_coefficients :: "IntHopState list \<Rightarrow> nat \<times> nat \<times> nat" where
  \<comment> \<open>the coefficients \<open>K\<close>, \<open>N\<close> and \<open>M\<close> without wrap-around\<close>
  "exact_coefficients hs = (case hs of
     [] \<Rightarrow> (1, 0, 1)
   | h # hs \<Rightarrow> nat_loop hs (unat (gamma_numer h) * unat (ih_reserve_out h), unat (gamma_numer h),
       unat (fee_denom h) * unat (ih_reserve_in h)))"

abbreviation words3 :: "nat \<times> nat \<times> nat \<Rightarrow> u512 \<times> u512 \<times> u512" where
  "words3 \<equiv> \<lambda>(k, n, m). (word_of_nat k, word_of_nat n, word_of_nat m)"

lemma widened: "(ucast (w :: u64) :: u512) = word_of_nat (unat w)" "to_u512 a = word_of_nat (unat a)"
  by (simp_all add: word_unat_eq_iff unat_ucast_u64 unat_to_u512 unsigned_of_nat take_bit_nat_eq_self
      less_le_trans [OF unat_bound] less_le_trans [OF unat_bound_256])

lemma coefficient_loop_words: "coefficient_loop hs (words3 c) = words3 (nat_loop hs c)"
proof (induction hs arbitrary: c)
  case (Cons h hs)
  obtain k n m where c: "c = (k, n, m)" by (cases c)
  let ?c = "(k * unat (gamma_numer h) * unat (ih_reserve_out h),
       n * unat (fee_denom h) * unat (ih_reserve_in h) + k * unat (gamma_numer h),
       m * unat (fee_denom h) * unat (ih_reserve_in h))"
  have "coefficient_loop (h # hs) (words3 c) = coefficient_loop hs (words3 ?c)" by (simp add: c widened Let_def)
  also have "\<dots> = words3 (nat_loop (h # hs) c)" by (simp only: Cons.IH c nat_loop.simps)
  finally show ?case .
qed simp

lemma coefficients_words:
  assumes "hs \<noteq> []" "exact_coefficients hs = (k, n, m)"
  shows "compute_int_mobius_coefficients hs = Ok \<lparr>co_K = word_of_nat k, co_M = word_of_nat m, co_N = word_of_nat n,
    is_profitable = (word_of_nat m < (word_of_nat k :: u512))\<rparr>"
proof -
  obtain h rest where hs: "hs = h # rest" using assms(1) by (cases hs) auto
  show ?thesis
    using assms(2) coefficient_loop_words [of rest "(unat (gamma_numer h) * unat (ih_reserve_out h), unat (gamma_numer h),
       unat (fee_denom h) * unat (ih_reserve_in h))"]
    by (simp add: hs compute_int_mobius_coefficients_def exact_coefficients_def widened)
qed

lemma nat_loop_fold:
  "list_all valid_int_hop hs \<Longrightarrow> 0 < k \<Longrightarrow> 0 < n \<Longrightarrow> 0 < m \<Longrightarrow> nat_loop hs (k, n, m) = (k', n', m') \<Longrightarrow>
    0 < k' \<and> 0 < n' \<and> 0 < m'
    \<and> (\<forall>a \<ge> 0. path_exact hs (fl_map (real k) (real n) (real m) a) = fl_map (real k') (real n') (real m') a)"
proof (induction hs arbitrary: k n m)
  case (Cons h hs)
  have v: "valid_int_hop h" using Cons.prems(1) by simp
  have "ih_exact h (fl_map (real k) (real n) (real m) a) =
      fl_map (real (k * unat (gamma_numer h) * unat (ih_reserve_out h)))
        (real (n * unat (fee_denom h) * unat (ih_reserve_in h) + k * unat (gamma_numer h)))
        (real (m * unat (fee_denom h) * unat (ih_reserve_in h))) a" if "0 \<le> a" for a
    using Cons.prems(2-4) that by (simp add: ih_exact_def cp_map_fold ac_simps)
  with Cons.IH [OF _ _ _ _ Cons.prems(5) [unfolded nat_loop.simps]] Cons.prems(1-4) v show ?case
    by (simp add: valid_int_hop_def)
qed simp

lemma exact_fold:
  assumes "hs \<noteq> []" "list_all valid_int_hop hs" "exact_coefficients hs = (k, n, m)"
  shows "0 < k" "0 < n" "0 < m" "\<And>a. 0 \<le> a \<Longrightarrow> path_exact hs a = fl_map (real k) (real n) (real m) a"
proof -
  obtain h rest where hs: "hs = h # rest" using assms(1) by (cases hs) auto
  have e: "nat_loop rest (unat (gamma_numer h) * unat (ih_reserve_out h), unat (gamma_numer h),
       unat (fee_denom h) * unat (ih_reserve_in h)) = (k, n, m)" using assms(3) by (simp add: hs exact_coefficients_def)
  have v: "valid_int_hop h" "list_all valid_int_hop rest" using assms(2) by (simp_all add: hs)
  from nat_loop_fold [OF v(2) _ _ _ e] v(1) show "0 < k" "0 < n" "0 < m"
    "\<And>a. 0 \<le> a \<Longrightarrow> path_exact hs a = fl_map (real k) (real n) (real m) a"
    by (auto simp: valid_int_hop_def hs ih_exact_def cp_map_fl)
qed

lemma path_gains_iff:
  assumes "hs \<noteq> []" "list_all valid_int_hop hs" "exact_coefficients hs = (k, n, m)"
  shows "(\<exists>a > 0. a < path_exact hs a) \<longleftrightarrow> m < k"
proof -
  have "(\<exists>a > 0. a < path_exact hs a) \<longleftrightarrow> (\<exists>a > 0. a < fl_map (real k) (real n) (real m) a)"
    using exact_fold(4) [OF assms] by force
  then show ?thesis using fl_gains_iff [of "real n" "real m" "real k"] exact_fold(1-3) [OF assms] by simp
qed

section \<open>The search keeps the best candidate\<close>

definition int_gain :: "IntHopState list \<Rightarrow> u256 \<Rightarrow> int" where
  "int_gain hs x = int (unat (int_simulate_path x hs)) - int (unat x)"

definition admitted :: "u256 option \<Rightarrow> u256 \<Rightarrow> bool" where
  "admitted max_input x \<longleftrightarrow> x \<noteq> 0 \<and> (case max_input of None \<Rightarrow> True | Some m \<Rightarrow> x \<le> m)"

definition kept :: "IntHopState list \<Rightarrow> u256 set \<Rightarrow> u256 \<times> u256 \<Rightarrow> bool" where
  \<comment> \<open>nothing gained, or the best of the candidates with its gain\<close>
  "kept hs seen acc \<longleftrightarrow> (case acc of (x, profit) \<Rightarrow>
     (if profit = 0 then x = 0 else x \<in> seen \<and> int (unat profit) = int_gain hs x)
     \<and> (\<forall>y \<in> seen. int_gain hs y \<le> int (unat profit)))"

lemma gain_step:
  "x < int_simulate_path x hs \<Longrightarrow> int (unat (int_simulate_path x hs - x)) = int_gain hs x"
  "\<not> x < int_simulate_path x hs \<Longrightarrow> int_gain hs x \<le> 0"
  by (simp_all add: int_gain_def unat_sub word_less_nat_alt word_le_nat_alt)

lemma search_step:
  assumes "kept hs seen (best_x, best_profit)"
  shows "kept hs (insert x seen)
    (if x < int_simulate_path x hs \<and> best_profit < int_simulate_path x hs - x then (x, int_simulate_path x hs - x)
     else (best_x, best_profit))"
proof (cases "x < int_simulate_path x hs \<and> best_profit < int_simulate_path x hs - x")
  case True
  let ?p = "int_simulate_path x hs - x"
  have p: "int (unat ?p) = int_gain hs x" using True gain_step(1) by blast
  have "int (unat best_profit) < int (unat ?p)" using True by (simp add: word_less_nat_alt)
  moreover have "?p \<noteq> 0" using True by auto
  ultimately show ?thesis using True assms p by (force simp: kept_def)
next
  case False
  then have "int_gain hs x \<le> int (unat best_profit)"
    using gain_step [of x hs] by (cases "x < int_simulate_path x hs") (auto simp: word_less_nat_alt)
  then show ?thesis using False assms by (auto simp: kept_def split: if_splits)
qed

lemma search_loop_kept:
  assumes "kept hs seen (best_x, best_profit)"
  shows "\<exists>x profit n. search_loop hs max_input xs (best_x, best_profit, iters) = (x, profit, n)
    \<and> kept hs (seen \<union> {x \<in> set xs. admitted max_input x}) (x, profit)"
  using assms
proof (induction xs arbitrary: seen best_x best_profit iters)
  case (Cons y ys)
  show ?case
  proof (cases "admitted max_input y")
    case True
    define b where "b = (if y < int_simulate_path y hs \<and> best_profit < int_simulate_path y hs - y
      then (y, int_simulate_path y hs - y) else (best_x, best_profit))"
    obtain b1 b2 where b: "b = (b1, b2)" by (cases b)
    have "kept hs (insert y seen) b" unfolding b_def by (rule search_step [OF Cons.prems])
    then have "kept hs (insert y seen) (b1, b2)" by (simp only: b)
    moreover have "search_loop hs max_input (y # ys) (best_x, best_profit, iters) = search_loop hs max_input ys (b1, b2, iters + 1)"
      using True b by (auto simp: admitted_def b_def Let_def not_less split: option.splits if_splits)
    moreover have "insert y seen \<union> {x \<in> set ys. admitted max_input x} = seen \<union> {x \<in> set (y # ys). admitted max_input x}"
      using True by auto
    ultimately show ?thesis using Cons.IH [of "insert y seen" b1 b2 "iters + 1"] by simp
  next
    case False
    then have "search_loop hs max_input (y # ys) (best_x, best_profit, iters) = search_loop hs max_input ys (best_x, best_profit, iters)"
      "{x \<in> set (y # ys). admitted max_input x} = {x \<in> set ys. admitted max_input x}"
      by (auto simp: admitted_def not_less split: option.splits)
    then show ?thesis using Cons.IH [OF Cons.prems, of iters] by simp
  qed
qed simp

definition best_of_window :: "IntHopState list \<Rightarrow> u256 set \<Rightarrow> IntMobiusResult \<Rightarrow> bool" where
  "best_of_window hs window r \<longleftrightarrow>
     (if im_success r then im_optimal_input r \<in> window \<and> 0 < int (unat (im_profit r))
        \<and> int (unat (im_profit r)) = int_gain hs (im_optimal_input r)
      else im_optimal_input r = 0 \<and> im_profit r = 0)
     \<and> (\<forall>x \<in> window. int_gain hs x \<le> int (unat (im_profit r)))"

lemma searched_best:
  "best_of_window hs {x \<in> set xs. admitted max_input x} (searched (search_loop hs max_input xs (0, 0, 0)))"
proof -
  have "kept hs {} (0, 0)" by (simp add: kept_def)
  from search_loop_kept [OF this, of max_input xs 0] show ?thesis
    by (auto simp: best_of_window_def kept_def searched_def unat_gt_0 split: if_splits)
qed

lemma int_solver_best:
  "case int_mobius_solve F hops of
     Ok r \<Rightarrow> (\<exists>c. compute_int_mobius_coefficients hops = Ok c \<and>
       (if is_profitable c \<and> compute_approx_optimal_input F c \<noteq> 0
        then best_of_window hops {x \<in> shifted (compute_approx_optimal_input F c) ` {-2..2}. x \<noteq> 0} r
        else r = no_result))
   | Err e \<Rightarrow> hops = [] \<and> e = EmptyHops
   | Panic \<Rightarrow> False"
proof (cases "compute_int_mobius_coefficients hops")
  case (Ok c)
  let ?x = "compute_approx_optimal_input F c"
  have "{x \<in> set (map (shifted ?x) [-2..2]). admitted None x} = {x \<in> shifted ?x ` {-2..2}. x \<noteq> 0}"
    unfolding set_map set_upto admitted_def by simp
  then show ?thesis
    using Ok searched_best [of hops "map (shifted ?x) [-2..2]" None]
    by (auto simp: int_mobius_solve_def Let_def)
qed (auto simp: int_mobius_solve_def compute_int_mobius_coefficients_def Let_def split: list.splits prod.splits)

definition floor_u256 :: "'f f64_ops \<Rightarrow> 'f \<Rightarrow> u256" where
  "floor_u256 F x = f64_to_u256 F (f_floor F x)"

lemma refine_best:
  "if f_le F x (f_zero F) \<or> \<not> f_finite F x then mobius_refine_int F x hops max_input = no_result
   else best_of_window hops
       {y \<in> shifted (floor_u256 F x) ` {- search_radius (length hops) .. search_radius (length hops) + 1}.
        admitted (map_option (floor_u256 F) max_input) y} (mobius_refine_int F x hops max_input)"
  using searched_best [of hops "map (shifted (floor_u256 F x)) [- search_radius (length hops) .. search_radius (length hops) + 1]"
      "map_option (floor_u256 F) max_input"]
  unfolding mobius_refine_int_def Let_def set_map set_upto floor_u256_def by simp

lemma refine_within_budget:
  assumes "im_success (mobius_refine_int F x hops (Some limit))"
  shows "im_optimal_input (mobius_refine_int F x hops (Some limit)) \<le> floor_u256 F limit"
  using refine_best [of F x hops "Some limit"] assms
  by (auto simp: best_of_window_def admitted_def no_result_def split: if_splits)

text \<open>With reserves that fill 256 bits the numerator of a swap wraps and the quote is far too low.\<close>

lemma ih_swap_wraps:
  defines "h \<equiv> \<lparr>ih_reserve_in = 1, ih_reserve_out = u_max, gamma_numer = 2, fee_denom = 1\<rparr>"
  shows "ih_swap h u_max < 2 ^ 255" "2 ^ 255 < 2 * unat (u_max :: u256) * unat (u_max :: u256) div (1 + 2 * unat (u_max :: u256))"
  by (simp_all add: h_def ih_swap_def to_u512_def u_max_def Let_def power_numeral unsigned_minus_1_eq_mask mask_eq_exp_minus_1)

section \<open>Properties\<close>

text \<open>
  C30. The integer solver decides exactly: on an empty route it fails; when the coefficients report no profit, or the
  floating-point estimate of the input is zero, it returns the empty result; in every other case, whatever the
  estimate is, it returns the best of the (at most five) nonzero inputs within two of the estimate: a success is one
  of them, its profit is the exact integer gain of the simulated route and no other gains more, and a failure means
  that none of them gains.
\<close>

theorem int_solver_exact:
  "case int_mobius_solve F hops of
     Ok r \<Rightarrow> (\<exists>c. compute_int_mobius_coefficients hops = Ok c \<and>
       (if is_profitable c \<and> compute_approx_optimal_input F c \<noteq> 0
        then best_of_window hops {x \<in> shifted (compute_approx_optimal_input F c) ` {-2..2}. x \<noteq> 0} r
        else r = no_result))
   | Err e \<Rightarrow> hops = [] \<and> e = EmptyHops
   | Panic \<Rightarrow> False"
  by (rule int_solver_best)

text \<open>
  As long as the two products fit into 512 bits, the profitability test on the coefficients is exact: it
  succeeds precisely when some input gains on the route over the reals.
\<close>

theorem int_profit_check_exact:
  assumes "hops \<noteq> []" "list_all valid_int_hop hops" "exact_coefficients hops = (k, n, m)" "k < 2 ^ 512" "m < 2 ^ 512"
  shows "\<exists>c. compute_int_mobius_coefficients hops = Ok c \<and> (is_profitable c \<longleftrightarrow> (\<exists>a > 0. a < path_exact hops a))"
  using coefficients_words [OF assms(1,3)] path_gains_iff [OF assms(1-3)] assms(4,5)
  by (simp add: word_less_nat_alt unat_word_of_nat)

definition sample_hops :: "IntHopState list" where
  "sample_hops =
     [\<lparr>ih_reserve_in = 1000, ih_reserve_out = 1100, gamma_numer = 997, fee_denom = 1000\<rparr>,
      \<lparr>ih_reserve_in = 1000, ih_reserve_out = 1100, gamma_numer = 997, fee_denom = 1000\<rparr>]"

lemma sample_hops_ok:
  "sample_hops \<noteq> []" "list_all valid_int_hop sample_hops" "list_all sized_hop sample_hops"
  "exact_coefficients sample_hops = (1202750890000, 2090409900, 1000000000000)"
  by (simp_all add: sample_hops_def sized_hop_def valid_int_hop_def exact_coefficients_def power_numeral)

theorem int_profit_check_exact_witness:
  "\<exists>c. compute_int_mobius_coefficients sample_hops = Ok c \<and> (is_profitable c \<longleftrightarrow> (\<exists>a > 0. a < path_exact sample_hops a))"
  by (rule int_profit_check_exact [OF sample_hops_ok(1,2,4)]) (simp_all add: power_numeral)

text \<open>
  Beyond that the test is wrong: on a route of five pools whose reserves fit the 112 bits of a V2 pair the first
  product wraps to zero, and a route that gains is reported as unprofitable.
\<close>

theorem int_profit_check_wraps:
  "\<exists>hops c. length hops = 5
     \<and> list_all (\<lambda>h. valid_int_hop h \<and> unat (ih_reserve_in h) < 2 ^ 112 \<and> unat (ih_reserve_out h) < 2 ^ 112) hops
     \<and> compute_int_mobius_coefficients hops = Ok c \<and> \<not> is_profitable c \<and> (\<exists>a > 0. a < path_exact hops a)"
proof -
  define h where "h = \<lparr>ih_reserve_in = 2 ^ 90, ih_reserve_out = 2 ^ 111, gamma_numer = 997, fee_denom = 1000\<rparr>"
  have u: "unat (ih_reserve_in h) = 2 ^ 90" "unat (ih_reserve_out h) = 2 ^ 111" "unat (gamma_numer h) = 997" "unat (fee_denom h) = 1000"
    by (simp_all add: h_def power_numeral)
  then have v: "list_all (\<lambda>h. valid_int_hop h \<and> unat (ih_reserve_in h) < 2 ^ 112 \<and> unat (ih_reserve_out h) < 2 ^ 112) [h, h, h, h, h]"
    by (simp add: valid_int_hop_def power_numeral)
  then have w: "list_all valid_int_hop [h, h, h, h, h]" by simp
  obtain k n m where e: "exact_coefficients [h, h, h, h, h] = (k, n, m)" by (cases "exact_coefficients [h, h, h, h, h]")
  then have k: "k = 997 ^ 5 * 2 ^ 43 * 2 ^ 512" and m: "m = 1000 ^ 5 * 2 ^ 450"
    by (simp_all add: exact_coefficients_def u power_numeral)
  have "k mod 2 ^ 512 = 0" unfolding k by simp
  then have "(word_of_nat k :: u512) = 0" by (simp add: word_unat_eq_iff unsigned_of_nat take_bit_eq_mod)
  then have "\<not> word_of_nat m < (word_of_nat k :: u512)" by simp
  moreover have "m < k" unfolding k m by (simp add: power_numeral)
  ultimately show ?thesis
    using v coefficients_words [OF _ e] path_gains_iff [OF _ w e]
    by (intro exI [of _ "[h, h, h, h, h]"]) simp
qed

text \<open>
  A success of the solver is real: when the output reserves stay below \<open>2 ^ 192\<close>, so that no numerator wraps,
  the input plus the reported profit is at most what the pools pay without any rounding.
\<close>

theorem int_solver_profit_is_real:
  assumes "list_all sized_hop hops" "int_mobius_solve F hops = Ok r" "im_success r"
  shows "real (unat (im_optimal_input r)) + real (unat (im_profit r)) \<le> path_exact hops (real (unat (im_optimal_input r)))"
proof -
  have "r \<noteq> no_result" using assms(3) by (auto simp: no_result_def)
  then have "int (unat (im_profit r)) = int_gain hops (im_optimal_input r)"
    using int_solver_best [where F = F and hops = hops] assms(2,3) by (auto simp: best_of_window_def split: if_splits)
  then have "unat (im_optimal_input r) + unat (im_profit r) = unat (int_simulate_path (im_optimal_input r) hops)"
    by (simp add: int_gain_def)
  then show ?thesis using simulation_below [OF assms(1), of "im_optimal_input r"] by (simp flip: of_nat_add)
qed

lemma sample_search:
  "search_loop sample_hops None (map (shifted 45) [-2..2]) (0, 0, 0) = (43, 4, 5)"
  by (simp add: sample_hops_def shifted_def saturating_add_def saturating_sub_def checked_add_def ih_swap_def to_u512_def
      Let_def power_numeral upto_rec1)

definition sample_f64 :: "unit f64_ops" where
  \<comment> \<open>operations that estimate 45 whatever the coefficients\<close>
  "sample_f64 =
     \<lparr>f_zero = (), f_one = (), f_u256_max = (), f_le = \<lambda>_ _. False, f_less = \<lambda>_ _. True, f_finite = \<lambda>_. True,
      f_sub = \<lambda>_ _. (), f_mul = \<lambda>_ _. (), f_div = \<lambda>_ _. (), f_sqrt = \<lambda>_. (), f_floor = \<lambda>_. (), f_two_powi = \<lambda>_. (),
      f_of_u64 = \<lambda>_. (), f_as_u64 = \<lambda>_. 45\<rparr>"

lemma sample_estimate: "compute_approx_optimal_input sample_f64 c = 45"
  by (simp add: compute_approx_optimal_input_def sample_f64_def Let_def f64_to_u256_def)

lemma sample_solve:
  "int_mobius_solve sample_f64 sample_hops =
    Ok \<lparr>im_optimal_input = 43, im_profit = 4, im_success = True, im_iterations = 5\<rparr>"
  unfolding int_mobius_solve_def coefficients_words [OF sample_hops_ok(1,4)] Let_def sample_estimate obind.simps sample_search
  by (simp add: searched_def)

theorem int_solver_profit_is_real_witness:
  "int_mobius_solve sample_f64 sample_hops =
     Ok \<lparr>im_optimal_input = 43, im_profit = 4, im_success = True, im_iterations = 5\<rparr>
   \<and> 43 + 4 \<le> path_exact sample_hops 43"
  using int_solver_profit_is_real [OF sample_hops_ok(3) sample_solve] sample_solve by simp

declare of_nat_unat [simp]

end
