(* ===== verification/Executor_Abi.thy ===== *)
theory Executor_Abi
  imports Calldata
begin

text \<open>
  Calldata of the executor contract: \<open>src/stylus/core/src/executor_abi.rs\<close>, with the six selectors of
  \<open>interface_surfaces.rs\<close> it uses. Tuples with dynamic members are a head of 32-byte words, the dynamic members
  being offsets, and the tails behind it. Lengths of vectors are natural numbers: the sums of lengths of buffers that
  are in memory do not overflow \<open>usize\<close>. The word writers the file repeats from \<open>frontrun_calldata.rs\<close> are those of
  the theory \<open>Calldata\<close>.
\<close>

section \<open>Data\<close>

record SwapStep =
  ss_dex_kind :: u8
  ss_router :: u160
  ss_call_data :: "u8 list"
  ss_token_in :: u160
  ss_token_out :: u160
  ss_amount_in :: u256
  ss_amount_out_min :: u256

record NativeArbParams =
  na_flash_lender :: u160
  na_flash_protocol :: u8
  na_flash_token :: u160
  na_flash_amount :: u256
  na_swaps :: "SwapStep list"
  na_min_profit :: u256
  na_deadline :: u256

record OwnedSwapsParams =
  os_swaps :: "SwapStep list"
  os_profit_token :: u160
  os_min_profit :: u256
  os_deadline :: u256

record MatchParams =
  mp_cow_settlement_calldata :: "u8 list"
  mp_uniswapx_batch_calldata :: "u8 list"
  mp_expected_token_inflows :: "u160 list"
  mp_expected_token_inflow_min :: "u256 list"
  mp_flash_lender :: u160
  mp_flash_protocol :: u8
  mp_flash_token :: u160
  mp_flash_amount :: u256
  mp_min_profit :: u256
  mp_deadline :: u256

record ComposeParams =
  co_across_fill_calldata :: "u8 list"
  co_arb_swaps :: "SwapStep list"
  co_cow_fill_calldata :: "u8 list"
  co_uniswapx_rebalance_calldata :: "u8 list"
  co_flash_lender :: u160
  co_flash_protocol :: u8
  co_flash_token :: u160
  co_flash_amount :: u256
  co_min_profit :: u256
  co_deadline :: u256

record CoWFlashLoanRouterStartParams =
  cw_expected_root :: u256
  cw_total_rounds :: u256
  cw_initial_loan_calldata :: "u8 list"
  cw_deadline :: u256

definition EXECUTE_NATIVE_ARB :: "u8 list" where "EXECUTE_NATIVE_ARB = [0xf6, 0xf6, 0xad, 0xd1]"
definition EXECUTE_OWNED_SWAPS :: "u8 list" where "EXECUTE_OWNED_SWAPS = [0xba, 0x44, 0x42, 0x0d]"
definition MATCH_INTERNAL :: "u8 list" where "MATCH_INTERNAL = [0x5f, 0x18, 0x86, 0x78]"
definition COMPOSE_FOUR_LEG :: "u8 list" where "COMPOSE_FOUR_LEG = [0x72, 0xc0, 0x46, 0x9b]"
definition EXECUTE_UNISWAPX_FILL :: "u8 list" where "EXECUTE_UNISWAPX_FILL = [0x2e, 0x13, 0x86, 0xcc]"
definition TRIGGER_COW_FLASH_LOAN_ROUTER :: "u8 list" where "TRIGGER_COW_FLASH_LOAN_ROUTER = [0x90, 0x08, 0x66, 0xce]"

lemmas executor_selectors = EXECUTE_NATIVE_ARB_def EXECUTE_OWNED_SWAPS_def MATCH_INTERNAL_def COMPOSE_FOUR_LEG_def
  EXECUTE_UNISWAPX_FILL_def TRIGGER_COW_FLASH_LOAN_ROUTER_def

section \<open>Encoders\<close>

definition push_u8_word :: "u8 \<Rightarrow> u8 list" where
  "push_u8_word v = replicate 31 0 @ [v]"

definition push_usize_word :: "nat \<Rightarrow> u8 list" where
  \<comment> \<open>\<open>push_u256_word\<close> of \<open>U256::from\<close> of a length\<close>
  "push_usize_word n = push_u256_word (word_of_nat n)"

definition push_bytes32_word :: "u256 \<Rightarrow> u8 list" where
  "push_bytes32_word v = to_be_bytes v"

definition encode_bytes_tail :: "u8 list \<Rightarrow> u8 list" where
  "encode_bytes_tail bs = push_bytes_tail bs"

definition xa_encoded_bytes_len :: "nat \<Rightarrow> nat" where
  \<comment> \<open>\<open>encoded_bytes_len\<close>\<close>
  "xa_encoded_bytes_len n = 32 + (n + byte_padding n)"

definition encode_swap_step_tuple :: "SwapStep \<Rightarrow> u8 list" where
  "encode_swap_step_tuple step =
     push_u8_word (ss_dex_kind step) @ push_address_word (ss_router step) @ push_usize_word (32 * 7)
     @ push_address_word (ss_token_in step) @ push_address_word (ss_token_out step)
     @ push_u256_word (ss_amount_in step) @ push_u256_word (ss_amount_out_min step)
     @ encode_bytes_tail (ss_call_data step)"

fun step_offsets :: "u8 list list \<Rightarrow> nat \<Rightarrow> u8 list" where
  "step_offsets [] relative_offset = []"
| "step_offsets (step # steps) relative_offset =
     push_usize_word relative_offset @ step_offsets steps (relative_offset + length step)"

definition encode_swap_steps_array :: "SwapStep list \<Rightarrow> u8 list" where
  "encode_swap_steps_array swaps =
     (let encoded_steps = map encode_swap_step_tuple swaps;
          offsets_len = length swaps * 32
      in push_usize_word (length swaps) @ step_offsets encoded_steps offsets_len @ concat encoded_steps)"

definition encode_address_array :: "u160 list \<Rightarrow> u8 list" where
  "encode_address_array vs = push_usize_word (length vs) @ concat (map push_address_word vs)"

definition encode_u256_array :: "u256 list \<Rightarrow> u8 list" where
  "encode_u256_array vs = push_usize_word (length vs) @ concat (map push_u256_word vs)"

definition encode_single_dynamic_tuple_call :: "u8 list \<Rightarrow> u8 list \<Rightarrow> u8 list" where
  "encode_single_dynamic_tuple_call selector tuple_tail = selector @ push_usize_word 32 @ tuple_tail"

definition encode_native_arb_tuple :: "NativeArbParams \<Rightarrow> u8 list" where
  "encode_native_arb_tuple p =
     push_address_word (na_flash_lender p) @ push_u8_word (na_flash_protocol p) @ push_address_word (na_flash_token p)
     @ push_u256_word (na_flash_amount p) @ push_usize_word (32 * 7) @ push_u256_word (na_min_profit p)
     @ push_u256_word (na_deadline p) @ encode_swap_steps_array (na_swaps p)"

definition encode_owned_swaps_tuple :: "OwnedSwapsParams \<Rightarrow> u8 list" where
  "encode_owned_swaps_tuple p =
     push_usize_word (32 * 4) @ push_address_word (os_profit_token p) @ push_u256_word (os_min_profit p)
     @ push_u256_word (os_deadline p) @ encode_swap_steps_array (os_swaps p)"

definition encode_match_tuple :: "MatchParams \<Rightarrow> u8 list" where
  "encode_match_tuple p =
     (let cow_tail = encode_bytes_tail (mp_cow_settlement_calldata p);
          uniswapx_tail = encode_bytes_tail (mp_uniswapx_batch_calldata p);
          inflows_tail = encode_address_array (mp_expected_token_inflows p);
          inflow_min_tail = encode_u256_array (mp_expected_token_inflow_min p);
          cow_offset = 32 * 10;
          uniswapx_offset = cow_offset + length cow_tail;
          inflows_offset = uniswapx_offset + length uniswapx_tail;
          inflow_min_offset = inflows_offset + length inflows_tail
      in push_usize_word cow_offset @ push_usize_word uniswapx_offset @ push_usize_word inflows_offset
         @ push_usize_word inflow_min_offset @ push_address_word (mp_flash_lender p)
         @ push_u8_word (mp_flash_protocol p) @ push_address_word (mp_flash_token p) @ push_u256_word (mp_flash_amount p)
         @ push_u256_word (mp_min_profit p) @ push_u256_word (mp_deadline p)
         @ cow_tail @ uniswapx_tail @ inflows_tail @ inflow_min_tail)"

definition encode_compose_tuple :: "ComposeParams \<Rightarrow> u8 list" where
  "encode_compose_tuple p =
     (let across_tail = encode_bytes_tail (co_across_fill_calldata p);
          swaps_tail = encode_swap_steps_array (co_arb_swaps p);
          cow_tail = encode_bytes_tail (co_cow_fill_calldata p);
          uniswapx_tail = encode_bytes_tail (co_uniswapx_rebalance_calldata p);
          across_offset = 32 * 10;
          swaps_offset = across_offset + length across_tail;
          cow_offset = swaps_offset + length swaps_tail;
          uniswapx_offset = cow_offset + length cow_tail
      in push_usize_word across_offset @ push_usize_word swaps_offset @ push_usize_word cow_offset
         @ push_usize_word uniswapx_offset @ push_address_word (co_flash_lender p)
         @ push_u8_word (co_flash_protocol p) @ push_address_word (co_flash_token p) @ push_u256_word (co_flash_amount p)
         @ push_u256_word (co_min_profit p) @ push_u256_word (co_deadline p)
         @ across_tail @ swaps_tail @ cow_tail @ uniswapx_tail)"

definition encode_cow_flash_loan_router_start_tuple :: "CoWFlashLoanRouterStartParams \<Rightarrow> u8 list" where
  "encode_cow_flash_loan_router_start_tuple p =
     push_bytes32_word (cw_expected_root p) @ push_u256_word (cw_total_rounds p) @ push_usize_word (32 * 4)
     @ push_u256_word (cw_deadline p) @ encode_bytes_tail (cw_initial_loan_calldata p)"

definition encode_execute_native_arb_calldata :: "NativeArbParams \<Rightarrow> u8 list" where
  "encode_execute_native_arb_calldata p = encode_single_dynamic_tuple_call EXECUTE_NATIVE_ARB (encode_native_arb_tuple p)"

definition encode_execute_owned_swaps_calldata :: "OwnedSwapsParams \<Rightarrow> u8 list" where
  "encode_execute_owned_swaps_calldata p = encode_single_dynamic_tuple_call EXECUTE_OWNED_SWAPS (encode_owned_swaps_tuple p)"

definition encode_match_internal_calldata :: "MatchParams \<Rightarrow> u8 list" where
  "encode_match_internal_calldata p = encode_single_dynamic_tuple_call MATCH_INTERNAL (encode_match_tuple p)"

definition encode_compose_four_leg_calldata :: "ComposeParams \<Rightarrow> u8 list" where
  "encode_compose_four_leg_calldata p = encode_single_dynamic_tuple_call COMPOSE_FOUR_LEG (encode_compose_tuple p)"

definition encode_execute_uniswapx_fill_calldata :: "u160 \<Rightarrow> u8 list \<Rightarrow> u8 list \<Rightarrow> u8 list" where
  "encode_execute_uniswapx_fill_calldata reactor execute_calldata callback_data =
     (let execute_tail_len = xa_encoded_bytes_len (length execute_calldata);
          execute_offset = 32 * 3;
          callback_offset = execute_offset + execute_tail_len
      in EXECUTE_UNISWAPX_FILL @ push_address_word reactor @ push_usize_word execute_offset
         @ push_usize_word callback_offset @ push_bytes_tail execute_calldata @ push_bytes_tail callback_data)"

definition encode_trigger_cow_flash_loan_router_calldata :: "CoWFlashLoanRouterStartParams \<Rightarrow> u8 list" where
  "encode_trigger_cow_flash_loan_router_calldata p =
     encode_single_dynamic_tuple_call TRIGGER_COW_FLASH_LOAN_ROUTER (encode_cow_flash_loan_router_start_tuple p)"

definition encode_uniswapx_callback_data :: "SwapStep list \<Rightarrow> u160 \<Rightarrow> u256 \<Rightarrow> u8 list" where
  "encode_uniswapx_callback_data steps callback_recipient callback_deadline =
     push_usize_word (32 * 3) @ push_address_word callback_recipient @ push_u256_word callback_deadline
     @ encode_swap_steps_array steps"

section \<open>Every piece is a prefix code\<close>

interpretation word_code: fixed_code push_u256_word 32
  by unfold_locales (simp_all add: push_u256_word_def be256.injective)

interpretation address_code: fixed_code push_address_word 32
  by unfold_locales (auto simp: push_address_word_def dest: be160.injective)

interpretation small_code: fixed_code push_u8_word 32
  by unfold_locales (simp_all add: push_u8_word_def)

lemma word_eqs [simp]:
  "push_u256_word v = push_u256_word w \<longleftrightarrow> v = w" "push_address_word a = push_address_word b \<longleftrightarrow> a = b"
  "push_u8_word x = push_u8_word y \<longleftrightarrow> x = y" "push_bytes32_word v = push_bytes32_word w \<longleftrightarrow> v = w"
  by (auto dest: word_code.injective address_code.injective small_code.injective be256.injective
      simp: push_bytes32_word_def)

lemma piece_lengths [simp]: "length (push_u8_word x) = 32" "length (push_bytes32_word v) = 32"
  by (simp_all add: push_u8_word_def push_bytes32_word_def)

lemma length_push_usize_word [simp]: "length (push_usize_word n) = 32"
  by (simp add: push_usize_word_def)

lemma usize_eq: "m < 2 ^ 256 \<Longrightarrow> n < 2 ^ 256 \<Longrightarrow> push_usize_word m = push_usize_word n \<longleftrightarrow> m = n"
proof -
  assume "m < 2 ^ 256" "n < 2 ^ 256"
  then have "unat (word_of_nat m :: u256) = m" "unat (word_of_nat n :: u256) = n" by (simp_all add: unat_word_of_nat)
  then show ?thesis unfolding push_usize_word_def word_eqs by metis
qed

interpretation bytes_code: prefix_code push_bytes_tail "\<lambda>bs. length bs < 2 ^ 256"
  by unfold_locales (auto simp: push_bytes_tail_def usize_eq [unfolded push_usize_word_def word_eqs])

definition sized_step :: "SwapStep \<Rightarrow> bool" where
  "sized_step step \<longleftrightarrow> length (ss_call_data step) < 2 ^ 256"

interpretation step_code: prefix_code encode_swap_step_tuple sized_step
  by unfold_locales
    (auto simp: encode_swap_step_tuple_def encode_bytes_tail_def sized_step_def bytes_code.cancel_iff
      intro!: SwapStep.equality)

lemma length_step_offsets: "length (step_offsets steps k) = 32 * length steps"
  by (induction steps k rule: step_offsets.induct) simp_all

definition sized_steps :: "SwapStep list \<Rightarrow> bool" where
  "sized_steps steps \<longleftrightarrow> length steps < 2 ^ 256 \<and> list_all sized_step steps"

interpretation steps_code: prefix_code encode_swap_steps_array sized_steps
proof
  fix a b r s
  assume ok: "sized_steps a" "sized_steps b" and eq: "encode_swap_steps_array a @ r = encode_swap_steps_array b @ s"
  then have len: "length a = length b" and "step_offsets (map encode_swap_step_tuple a) (length a * 32) @ concat (map encode_swap_step_tuple a) @ r
      = step_offsets (map encode_swap_step_tuple b) (length b * 32) @ concat (map encode_swap_step_tuple b) @ s"
    by (auto simp: encode_swap_steps_array_def Let_def sized_steps_def usize_eq)
  then have "concat (map encode_swap_step_tuple a) @ r = concat (map encode_swap_step_tuple b) @ s"
    by (simp add: length_step_offsets)
  then show "a = b \<and> r = s" using step_code.sequence [of a b r s] ok len by (simp add: sized_steps_def)
qed

interpretation addresses_code: prefix_code encode_address_array "\<lambda>vs. length vs < 2 ^ 256"
  by unfold_locales
    (auto simp: encode_address_array_def usize_eq address_code.sequence list_all_iff)

interpretation words_code: prefix_code encode_u256_array "\<lambda>vs. length vs < 2 ^ 256"
  by unfold_locales
    (auto simp: encode_u256_array_def usize_eq word_code.sequence list_all_iff)

lemmas tail_cancel = bytes_code.cancel_iff steps_code.cancel_iff addresses_code.cancel_iff words_code.cancel_iff
  bytes_code.inj_iff steps_code.inj_iff words_code.inj_iff

section \<open>The six calls\<close>

datatype executor_call =
  NativeArb NativeArbParams | OwnedSwaps OwnedSwapsParams | MatchInternal MatchParams | ComposeFourLeg ComposeParams
| UniswapXFill u160 "u8 list" "u8 list" | CowRouterStart CoWFlashLoanRouterStartParams

primrec calldata_of :: "executor_call \<Rightarrow> u8 list" where
  "calldata_of (NativeArb p) = encode_execute_native_arb_calldata p"
| "calldata_of (OwnedSwaps p) = encode_execute_owned_swaps_calldata p"
| "calldata_of (MatchInternal p) = encode_match_internal_calldata p"
| "calldata_of (ComposeFourLeg p) = encode_compose_four_leg_calldata p"
| "calldata_of (UniswapXFill reactor execute_calldata callback_data) =
     encode_execute_uniswapx_fill_calldata reactor execute_calldata callback_data"
| "calldata_of (CowRouterStart p) = encode_trigger_cow_flash_loan_router_calldata p"

primrec sized_call :: "executor_call \<Rightarrow> bool" where
  "sized_call (NativeArb p) = sized_steps (na_swaps p)"
| "sized_call (OwnedSwaps p) = sized_steps (os_swaps p)"
| "sized_call (MatchInternal p) = (length (mp_cow_settlement_calldata p) < 2 ^ 256 \<and> length (mp_uniswapx_batch_calldata p) < 2 ^ 256
     \<and> length (mp_expected_token_inflows p) < 2 ^ 256 \<and> length (mp_expected_token_inflow_min p) < 2 ^ 256)"
| "sized_call (ComposeFourLeg p) = (length (co_across_fill_calldata p) < 2 ^ 256 \<and> sized_steps (co_arb_swaps p)
     \<and> length (co_cow_fill_calldata p) < 2 ^ 256 \<and> length (co_uniswapx_rebalance_calldata p) < 2 ^ 256)"
| "sized_call (UniswapXFill reactor execute_calldata callback_data) =
     (length execute_calldata < 2 ^ 256 \<and> length callback_data < 2 ^ 256)"
| "sized_call (CowRouterStart p) = (length (cw_initial_loan_calldata p) < 2 ^ 256)"

lemma native_arb_inj:
  "sized_steps (na_swaps a) \<Longrightarrow> sized_steps (na_swaps b) \<Longrightarrow> encode_native_arb_tuple a = encode_native_arb_tuple b \<Longrightarrow> a = b"
  by (auto simp: encode_native_arb_tuple_def tail_cancel intro!: NativeArbParams.equality)

lemma owned_swaps_inj:
  "sized_steps (os_swaps a) \<Longrightarrow> sized_steps (os_swaps b) \<Longrightarrow> encode_owned_swaps_tuple a = encode_owned_swaps_tuple b \<Longrightarrow> a = b"
  by (auto simp: encode_owned_swaps_tuple_def tail_cancel intro!: OwnedSwapsParams.equality)

lemma match_inj:
  "sized_call (MatchInternal a) \<Longrightarrow> sized_call (MatchInternal b) \<Longrightarrow> encode_match_tuple a = encode_match_tuple b \<Longrightarrow> a = b"
  by (auto simp: encode_match_tuple_def Let_def encode_bytes_tail_def tail_cancel intro!: MatchParams.equality)

lemma compose_inj:
  "sized_call (ComposeFourLeg a) \<Longrightarrow> sized_call (ComposeFourLeg b) \<Longrightarrow> encode_compose_tuple a = encode_compose_tuple b \<Longrightarrow> a = b"
  by (auto simp: encode_compose_tuple_def Let_def encode_bytes_tail_def tail_cancel intro!: ComposeParams.equality)

lemma cow_start_inj:
  "sized_call (CowRouterStart a) \<Longrightarrow> sized_call (CowRouterStart b) \<Longrightarrow>
    encode_cow_flash_loan_router_start_tuple a = encode_cow_flash_loan_router_start_tuple b \<Longrightarrow> a = b"
  by (auto simp: encode_cow_flash_loan_router_start_tuple_def encode_bytes_tail_def tail_cancel
      intro!: CoWFlashLoanRouterStartParams.equality)

lemmas call_defs = encode_execute_native_arb_calldata_def encode_execute_owned_swaps_calldata_def
  encode_match_internal_calldata_def encode_compose_four_leg_calldata_def encode_execute_uniswapx_fill_calldata_def
  encode_trigger_cow_flash_loan_router_calldata_def encode_single_dynamic_tuple_call_def

text \<open>
  C17. The calldata of the executor contract determines the call: two calls, of the same entry point or of different
  ones, with all their parameters, swap steps and nested byte strings, encode to the same bytes only if they are equal.
\<close>

theorem executor_calldata_injective:
  assumes "sized_call a" "sized_call b"
  shows "calldata_of a = calldata_of b \<longleftrightarrow> a = b"
  using assms
  by (cases a; cases b)
    (auto simp: call_defs executor_selectors Let_def tail_cancel native_arb_inj owned_swaps_inj match_inj compose_inj
      cow_start_inj)

theorem executor_calldata_injective_witness:
  "calldata_of (UniswapXFill 1 [1, 2] [3]) \<noteq> calldata_of (UniswapXFill 1 [1] [2, 3])"
  using executor_calldata_injective [of "UniswapXFill 1 [1, 2] [3]" "UniswapXFill 1 [1] [2, 3]"]
  by (simp add: power_numeral)

section \<open>Reading the swap steps back\<close>

text \<open>A reader of the standard encoding: element offsets count from behind the length word.\<close>

definition abi_decode_step :: "nat \<Rightarrow> u8 list \<Rightarrow> nat \<Rightarrow> SwapStep cd_result" where
  "abi_decode_step U d base =
     obind (read_u256 U d base) (\<lambda>kind.
     obind (read_address U d (base + 32)) (\<lambda>router.
     obind (read_u256_usize U d (base + 64)) (\<lambda>offset.
     obind (read_bytes U d (base + offset)) (\<lambda>call_data.
     obind (read_address U d (base + 96)) (\<lambda>token_in.
     obind (read_address U d (base + 128)) (\<lambda>token_out.
     obind (read_u256 U d (base + 160)) (\<lambda>amount_in.
     obind (read_u256 U d (base + 192)) (\<lambda>amount_out_min.
       Ok \<lparr>ss_dex_kind = ucast kind, ss_router = router, ss_call_data = call_data, ss_token_in = token_in,
           ss_token_out = token_out, ss_amount_in = amount_in, ss_amount_out_min = amount_out_min\<rparr>))))))))"

definition abi_decode_steps :: "nat \<Rightarrow> u8 list \<Rightarrow> (SwapStep list) cd_result" where
  "abi_decode_steps U d =
     obind (read_u256_usize U d 0) (\<lambda>n.
       collect (\<lambda>i. obind (read_u256_usize U d (32 + i * 32)) (\<lambda>offset. abi_decode_step U d (32 + offset))) [0 ..< n])"

lemma push_u8_word_u256: "push_u8_word v = push_u256_word (ucast v)"
proof -
  have z: "unat (ucast v :: u256) = unat v"
    using unat_bound [of v] by (simp add: unsigned_ucast_eq take_bit_nat_eq_self power_numeral)
  have "be_value (push_u8_word v) = be_value (push_u256_word (ucast v))"
    by (simp add: push_u8_word_def be_value_append push_u256_word_def be_value_to_be_bytes z)
  then show ?thesis by (intro be_value_inj) simp_all
qed

lemma ucast_u8_back: "ucast (ucast (v :: u8) :: u256) = v"
  by (rule bit_word_eqI) (simp add: bit_ucast_iff)

lemma decode_step_at:
  assumes "length pre + length (encode_swap_step_tuple step) < U" "U \<le> 2 ^ 64" "length pre = base"
  shows "abi_decode_step U (pre @ encode_swap_step_tuple step @ post) base = Ok step"
proof -
  let ?w = "push_u256_word" and ?a = "push_address_word"
  let ?h1 = "?w (ucast (ss_dex_kind step))" and ?h2 = "?a (ss_router step)" and ?h3 = "?w (word_of_nat 224)"
    and ?h4 = "?a (ss_token_in step)" and ?h5 = "?a (ss_token_out step)" and ?h6 = "?w (ss_amount_in step)"
    and ?h7 = "?w (ss_amount_out_min step)" and ?t = "push_bytes_tail (ss_call_data step)"
  let ?d = "pre @ encode_swap_step_tuple step @ post"
  have d: "?d = pre @ ?h1 @ ?h2 @ ?h3 @ ?h4 @ ?h5 @ ?h6 @ ?h7 @ ?t @ post"
    by (simp add: encode_swap_step_tuple_def push_u8_word_u256 push_usize_word_def encode_bytes_tail_def)
  have len: "base + 224 + tail_len (ss_call_data step) < U"
    using assms(1,3) by (simp add: encode_swap_step_tuple_def encode_bytes_tail_def)
  have r1: "read_u256 U ?d base = Ok (ucast (ss_dex_kind step))"
    using read_u256_at [of pre base U] len assms(3) by (simp add: d)
  have r2: "read_address U ?d (base + 32) = Ok (ss_router step)"
    using read_address_at [of "pre @ ?h1" "base + 32" U] len assms(3) by (simp add: d)
  have r3: "read_u256_usize U ?d (base + 64) = Ok 224"
    using read_usize_at [of "pre @ ?h1 @ ?h2" "base + 64" U 224] len assms(2,3) by (simp add: d)
  have r4: "read_bytes U ?d (base + 224) = Ok (ss_call_data step)"
    using read_bytes_at [of "pre @ ?h1 @ ?h2 @ ?h3 @ ?h4 @ ?h5 @ ?h6 @ ?h7" "base + 224"] len assms(2,3) by (simp add: d)
  have r5: "read_address U ?d (base + 96) = Ok (ss_token_in step)"
    using read_address_at [of "pre @ ?h1 @ ?h2 @ ?h3" "base + 96" U] len assms(3) by (simp add: d)
  have r6: "read_address U ?d (base + 128) = Ok (ss_token_out step)"
    using read_address_at [of "pre @ ?h1 @ ?h2 @ ?h3 @ ?h4" "base + 128" U] len assms(3) by (simp add: d)
  have r7: "read_u256 U ?d (base + 160) = Ok (ss_amount_in step)"
    using read_u256_at [of "pre @ ?h1 @ ?h2 @ ?h3 @ ?h4 @ ?h5" "base + 160" U] len assms(3) by (simp add: d)
  have r8: "read_u256 U ?d (base + 192) = Ok (ss_amount_out_min step)"
    using read_u256_at [of "pre @ ?h1 @ ?h2 @ ?h3 @ ?h4 @ ?h5 @ ?h6" "base + 192" U] len assms(3) by (simp add: d)
  show ?thesis by (simp add: abi_decode_step_def r1 r2 r3 r4 r5 r6 r7 r8 ucast_u8_back)
qed

lemma step_offsets_split:
  "i < length steps \<Longrightarrow> \<exists>pre post. step_offsets steps k = pre @ push_usize_word (k + length (concat (take i steps))) @ post
    \<and> length pre = 32 * i"
proof (induction steps k arbitrary: i rule: step_offsets.induct)
  case (2 step steps k)
  show ?case
  proof (cases i)
    case 0
    then show ?thesis by (intro exI [of _ "[]"] exI [of _ "step_offsets steps (k + length step)"]) simp
  next
    case (Suc j)
    then obtain pre post where "step_offsets steps (k + length step)
        = pre @ push_usize_word (k + length step + length (concat (take j steps))) @ post" "length pre = 32 * j"
      using "2.IH" [of j] "2.prems" by auto
    then show ?thesis using Suc by (intro exI [of _ "push_usize_word k @ pre"] exI [of _ post]) (simp add: add.assoc)
  qed
qed simp

text \<open>
  The swap steps of a call can be read back by the standard rules: at the offsets the encoder writes, counted from
  behind the length word, every step is found with all its fields, in order.
\<close>

theorem swap_steps_roundtrip:
  assumes "length (encode_swap_steps_array swaps) < U" "U \<le> 2 ^ 64"
  shows "abi_decode_steps U (encode_swap_steps_array swaps) = Ok swaps"
proof -
  let ?es = "map encode_swap_step_tuple swaps" and ?n = "length swaps"
  let ?d = "encode_swap_steps_array swaps"
  have d: "?d = push_usize_word ?n @ step_offsets ?es (?n * 32) @ concat ?es" by (simp add: encode_swap_steps_array_def Let_def)
  have len: "length ?d = 32 + 32 * ?n + length (concat ?es)" by (simp add: d length_step_offsets)
  have n: "read_u256_usize U ?d 0 = Ok ?n"
    using read_usize_at [of "[]" 0 U ?n] assms len by (simp add: d push_usize_word_def)
  have "obind (read_u256_usize U ?d (32 + i * 32)) (\<lambda>offset. abi_decode_step U ?d (32 + offset)) = Ok (swaps ! i)" if i: "i < ?n" for i
  proof -
    let ?off = "?n * 32 + length (concat (take i ?es))"
    have c: "concat ?es = concat (take i ?es) @ encode_swap_step_tuple (swaps ! i) @ concat (drop (Suc i) ?es)"
      using concat_split [OF i, of encode_swap_step_tuple] by (simp add: take_map drop_map)
    obtain pre post where p: "step_offsets ?es (?n * 32) = pre @ push_usize_word ?off @ post" "length pre = 32 * i"
      using step_offsets_split [of i ?es "?n * 32"] i by auto
    have b: "32 + ?off + length (encode_swap_step_tuple (swaps ! i)) < U"
      using assms(1) len arg_cong [OF c, of length] by simp
    have ol: "length (encode_swap_step_tuple (swaps ! i)) \<ge> 32" by (simp add: encode_swap_step_tuple_def)
    have "read_u256_usize U ((push_usize_word ?n @ pre) @ push_usize_word ?off @ (post @ concat ?es)) (32 + i * 32) = Ok ?off"
      unfolding push_usize_word_def [of ?off]
      using b i p(2) assms(2) by (intro read_usize_at) simp_all
    then have r: "read_u256_usize U ?d (32 + i * 32) = Ok ?off" by (simp add: d p(1))
    have "?d = (push_usize_word ?n @ step_offsets ?es (?n * 32) @ concat (take i ?es))
        @ encode_swap_step_tuple (swaps ! i) @ concat (drop (Suc i) ?es)" by (simp only: d c append_assoc)
    moreover have "length (push_usize_word ?n @ step_offsets ?es (?n * 32) @ concat (take i ?es)) = 32 + ?off"
      by (simp add: length_step_offsets)
    ultimately have "abi_decode_step U ?d (32 + ?off) = Ok (swaps ! i)"
      using decode_step_at [OF _ assms(2)] b by metis
    then show ?thesis by (simp add: r)
  qed
  then show ?thesis by (simp add: abi_decode_steps_def n collect_upt)
qed

theorem swap_steps_roundtrip_witness:
  "abi_decode_steps (2 ^ 64) (encode_swap_steps_array [\<lparr>ss_dex_kind = 1, ss_router = 2, ss_call_data = [9], ss_token_in = 3,
      ss_token_out = 4, ss_amount_in = 5, ss_amount_out_min = 6\<rparr>])
   = Ok [\<lparr>ss_dex_kind = 1, ss_router = 2, ss_call_data = [9], ss_token_in = 3, ss_token_out = 4, ss_amount_in = 5,
      ss_amount_out_min = 6\<rparr>]"
  by (rule swap_steps_roundtrip)
    (simp_all add: encode_swap_steps_array_def encode_swap_step_tuple_def encode_bytes_tail_def tail_len_def
      byte_padding_def power_numeral)

end
