(* ===== verification/Runtime_Adapter.thy ===== *)
theory Runtime_Adapter
  imports Executor_Abi
begin

text \<open>
  The proof surface of the Stylus runtime adapter: \<open>src/stylus/core/src/runtime_adapter.rs\<close>. Callback
  authentication per lane, settlement of a flash loan, approval and call allow-lists, and the digest that binds an
  execution receipt. The hash function is a parameter; a 32-byte hash is its 256-bit value.

  The authentication is specified apart from the code, as the table \<open>roles_of\<close> of what each lane has to prove.
\<close>

section \<open>Data\<close>

datatype RuntimeAdapterError =
  UnknownLane | NoActiveFlow | UnexpectedLender | UnexpectedReactor | UnexpectedInitiator | WrongFlashAsset
| BalanceUnderBorrow | IdleBalanceNotZero | RepaymentOverflow | RepaymentShortfall | InsufficientProfit
| PlanHashMismatch | ZeroAddress | CallTargetNotAllowed | CallSelectorNotAllowed | NativeValueNotAllowed

datatype RuntimeLane =
  ExecutorAaveV3 | ExecutorMorphoBlue | ExecutorErc3156 | ExecutorUniswapV3 | AtomicBalancerV3 | AtomicBalancerV2
| AtomicAaveV3Simple | UniswapXReactor | CowFlashLoanRouter

type_synonym 'a ra_result = "('a, RuntimeAdapterError) outcome"

primrec error_as_u8 :: "RuntimeAdapterError \<Rightarrow> u8" where
  \<comment> \<open>\<open>error as u8\<close>\<close>
  "error_as_u8 UnknownLane = 1"
| "error_as_u8 NoActiveFlow = 2"
| "error_as_u8 UnexpectedLender = 3"
| "error_as_u8 UnexpectedReactor = 4"
| "error_as_u8 UnexpectedInitiator = 5"
| "error_as_u8 WrongFlashAsset = 6"
| "error_as_u8 BalanceUnderBorrow = 7"
| "error_as_u8 IdleBalanceNotZero = 8"
| "error_as_u8 RepaymentOverflow = 9"
| "error_as_u8 RepaymentShortfall = 10"
| "error_as_u8 InsufficientProfit = 11"
| "error_as_u8 PlanHashMismatch = 12"
| "error_as_u8 ZeroAddress = 13"
| "error_as_u8 CallTargetNotAllowed = 14"
| "error_as_u8 CallSelectorNotAllowed = 15"
| "error_as_u8 NativeValueNotAllowed = 16"

definition lane_from_u8 :: "u8 \<Rightarrow> RuntimeLane option" where
  "lane_from_u8 v =
     (if v = 0 then Some ExecutorAaveV3
      else if v = 1 then Some ExecutorMorphoBlue
      else if v = 2 then Some ExecutorErc3156
      else if v = 3 then Some ExecutorUniswapV3
      else if v = 4 then Some AtomicBalancerV3
      else if v = 5 then Some AtomicBalancerV2
      else if v = 6 then Some AtomicAaveV3Simple
      else if v = 7 then Some UniswapXReactor
      else if v = 8 then Some CowFlashLoanRouter
      else None)"

record CallbackAuthProof =
  cb_lane :: u8
  cb_msg_sender :: u160
  cb_expected_lender :: u160
  cb_expected_v3_pool :: u160
  cb_expected_reactor :: u160
  cb_initiator :: u160
  cb_executor :: u160
  cb_canonical_sender :: u160
  cb_active_plan_hash :: u256
  cb_expected_plan_hash :: u256
  cb_require_plan_hash :: bool

record FlashSettlementProof =
  fs_flash_token :: u160
  fs_callback_token :: u160
  fs_flash_amount :: u256
  fs_callback_amount :: u256
  fs_premium :: u256
  fs_balance_on_callback :: u256
  fs_balance_before_repay :: u256
  fs_min_profit :: u256
  fs_reject_idle_balance :: bool

record RuntimeApprovalProof =
  ap_token :: u160
  ap_spender :: u160
  ap_spender_allowed :: bool

record RuntimeCallProof =
  rc_target :: u160
  rc_selector :: "u8 list"
  rc_target_allowed :: bool
  rc_selector_allowed :: bool
  rc_value :: u256
  rc_native_value_limit :: u256

record ExecutionReceiptProof =
  er_lane :: u8
  er_flow_id :: u256
  er_plan_hash :: u256
  er_flash_token :: u160
  er_flash_amount :: u256
  er_premium :: u256
  er_min_profit :: u256
  er_profit :: u256

section \<open>Operations\<close>

definition ra_error_code :: "unit ra_result \<Rightarrow> (u8, 'e) outcome" where
  "ra_error_code r = (case r of Ok _ \<Rightarrow> Ok 0 | Err e \<Rightarrow> Ok (error_as_u8 e) | Panic \<Rightarrow> Panic)"

definition validate_active_lender :: "u160 \<Rightarrow> u160 \<Rightarrow> unit ra_result" where
  "validate_active_lender msg_sender expected_lender =
     (if expected_lender = 0 then Err NoActiveFlow
      else if msg_sender \<noteq> expected_lender then Err UnexpectedLender
      else Ok ())"

definition validate_canonical_sender :: "u160 \<Rightarrow> u160 \<Rightarrow> unit ra_result" where
  "validate_canonical_sender msg_sender canonical_sender =
     (if canonical_sender = 0 then Err ZeroAddress
      else if msg_sender \<noteq> canonical_sender then Err UnexpectedLender
      else Ok ())"

definition validate_initiator :: "u160 \<Rightarrow> u160 \<Rightarrow> unit ra_result" where
  "validate_initiator initiator executor =
     (if executor = 0 then Err ZeroAddress
      else if initiator \<noteq> executor then Err UnexpectedInitiator
      else Ok ())"

definition validate_plan_hash :: "CallbackAuthProof \<Rightarrow> unit ra_result" where
  "validate_plan_hash p =
     (if \<not> cb_require_plan_hash p then Ok ()
      else if cb_active_plan_hash p = 0 then Err NoActiveFlow
      else if cb_active_plan_hash p \<noteq> cb_expected_plan_hash p then Err PlanHashMismatch
      else Ok ())"

definition validate_callback_auth :: "CallbackAuthProof \<Rightarrow> unit ra_result" where
  "validate_callback_auth p =
     obind (ok_or (lane_from_u8 (cb_lane p)) UnknownLane) (\<lambda>lane.
     let lender = validate_active_lender (cb_msg_sender p) (cb_expected_lender p);
         canonical = validate_canonical_sender (cb_msg_sender p) (cb_canonical_sender p);
         initiator = validate_initiator (cb_initiator p) (cb_executor p);
         atomic = (\<lambda>simple. obind canonical (\<lambda>_. obind lender (\<lambda>_.
           obind (if simple then initiator else Ok ()) (\<lambda>_. validate_plan_hash p))))
     in case lane of
          ExecutorAaveV3 \<Rightarrow> obind lender (\<lambda>_. initiator)
        | ExecutorErc3156 \<Rightarrow> obind lender (\<lambda>_. initiator)
        | ExecutorMorphoBlue \<Rightarrow> obind canonical (\<lambda>_. lender)
        | ExecutorUniswapV3 \<Rightarrow> obind lender (\<lambda>_.
            if cb_expected_v3_pool p = 0 then Err NoActiveFlow
            else if cb_msg_sender p \<noteq> cb_expected_v3_pool p then Err UnexpectedLender
            else Ok ())
        | AtomicBalancerV3 \<Rightarrow> atomic False
        | AtomicBalancerV2 \<Rightarrow> atomic False
        | AtomicAaveV3Simple \<Rightarrow> atomic True
        | UniswapXReactor \<Rightarrow> obind canonical (\<lambda>_.
            if cb_expected_reactor p = 0 then Err NoActiveFlow
            else if cb_msg_sender p \<noteq> cb_expected_reactor p then Err UnexpectedReactor
            else Ok ())
        | CowFlashLoanRouter \<Rightarrow> canonical)"

definition validate_flash_settlement :: "FlashSettlementProof \<Rightarrow> u256 ra_result" where
  "validate_flash_settlement p =
     (if fs_flash_token p = 0 then Err ZeroAddress
      else if fs_callback_token p \<noteq> 0 \<and> fs_callback_token p \<noteq> fs_flash_token p then Err WrongFlashAsset
      else if fs_callback_amount p \<noteq> fs_flash_amount p then Err WrongFlashAsset
      else if fs_balance_on_callback p < fs_flash_amount p then Err BalanceUnderBorrow
      else
        let idle_before = fs_balance_on_callback p - fs_flash_amount p
        in if fs_reject_idle_balance p \<and> idle_before \<noteq> 0 then Err IdleBalanceNotZero
           else obind (ok_or (checked_add (fs_flash_amount p) (fs_premium p)) RepaymentOverflow) (\<lambda>owed.
             if fs_balance_before_repay p < owed then Err RepaymentShortfall
             else
               let profit = fs_balance_before_repay p - owed
               in if profit < fs_min_profit p then Err InsufficientProfit else Ok profit))"

definition validate_runtime_approval :: "RuntimeApprovalProof \<Rightarrow> unit ra_result" where
  "validate_runtime_approval p =
     (if ap_token p = 0 \<or> ap_spender p = 0 then Err ZeroAddress
      else if \<not> ap_spender_allowed p then Err CallTargetNotAllowed
      else Ok ())"

definition validate_runtime_call :: "RuntimeCallProof \<Rightarrow> unit ra_result" where
  "validate_runtime_call p =
     (if rc_target p = 0 \<or> rc_selector p = [0, 0, 0, 0] then Err ZeroAddress
      else if \<not> rc_target_allowed p then Err CallTargetNotAllowed
      else if \<not> rc_selector_allowed p then Err CallSelectorNotAllowed
      else if rc_native_value_limit p < rc_value p then Err NativeValueNotAllowed
      else Ok ())"

definition ra_domain_separator :: "(u8 list \<Rightarrow> u256) \<Rightarrow> u256" where
  "ra_domain_separator keccak = keccak (as_bytes ''degenbot.stylus.runtime-adapter-proof.v1'')"

definition settlement_profit_or_zero :: "FlashSettlementProof \<Rightarrow> u256" where
  "settlement_profit_or_zero p = (case validate_flash_settlement p of Ok profit \<Rightarrow> profit | _ \<Rightarrow> 0)"

definition receipt_preimage :: "(u8 list \<Rightarrow> u256) \<Rightarrow> ExecutionReceiptProof \<Rightarrow> u8 list" where
  "receipt_preimage keccak p =
     to_be_bytes (ra_domain_separator keccak) @ push_u8_word (er_lane p) @ to_be_bytes (er_flow_id p)
     @ to_be_bytes (er_plan_hash p) @ push_address_word (er_flash_token p) @ push_u256_word (er_flash_amount p)
     @ push_u256_word (er_premium p) @ push_u256_word (er_min_profit p) @ push_u256_word (er_profit p)"

definition execution_receipt_digest :: "(u8 list \<Rightarrow> u256) \<Rightarrow> ExecutionReceiptProof \<Rightarrow> u256" where
  "execution_receipt_digest keccak p = keccak (receipt_preimage keccak p)"

section \<open>What each lane has to prove\<close>

datatype role = Lender | Canonical | Initiator | Pool | Reactor | PlanHash

primrec roles_of :: "RuntimeLane \<Rightarrow> role set" where
  "roles_of ExecutorAaveV3 = {Lender, Initiator}"
| "roles_of ExecutorMorphoBlue = {Canonical, Lender}"
| "roles_of ExecutorErc3156 = {Lender, Initiator}"
| "roles_of ExecutorUniswapV3 = {Lender, Pool}"
| "roles_of AtomicBalancerV3 = {Canonical, Lender, PlanHash}"
| "roles_of AtomicBalancerV2 = {Canonical, Lender, PlanHash}"
| "roles_of AtomicAaveV3Simple = {Canonical, Lender, Initiator, PlanHash}"
| "roles_of UniswapXReactor = {Canonical, Reactor}"
| "roles_of CowFlashLoanRouter = {Canonical}"

definition is_party :: "u160 \<Rightarrow> u160 \<Rightarrow> bool" where
  "is_party actual expected \<longleftrightarrow> expected \<noteq> 0 \<and> actual = expected"

primrec proves :: "CallbackAuthProof \<Rightarrow> role \<Rightarrow> bool" where
  "proves p Lender = is_party (cb_msg_sender p) (cb_expected_lender p)"
| "proves p Canonical = is_party (cb_msg_sender p) (cb_canonical_sender p)"
| "proves p Initiator = is_party (cb_initiator p) (cb_executor p)"
| "proves p Pool = is_party (cb_msg_sender p) (cb_expected_v3_pool p)"
| "proves p Reactor = is_party (cb_msg_sender p) (cb_expected_reactor p)"
| "proves p PlanHash = (cb_require_plan_hash p \<longrightarrow> cb_active_plan_hash p \<noteq> 0 \<and> cb_active_plan_hash p = cb_expected_plan_hash p)"

lemma validators_Ok:
  "validate_active_lender s e = Ok u \<longleftrightarrow> is_party s e"
  "validate_canonical_sender s e = Ok u \<longleftrightarrow> is_party s e"
  "validate_initiator i x = Ok u \<longleftrightarrow> is_party i x"
  "validate_plan_hash p = Ok u \<longleftrightarrow> proves p PlanHash"
  by (auto simp: validate_active_lender_def validate_canonical_sender_def validate_initiator_def validate_plan_hash_def is_party_def)

lemma from_u8_ranges: "lane_from_u8 v = None \<longleftrightarrow> 8 < v"
proof -
  have "v \<in> {0, 1, 2, 3, 4, 5, 6, 7, 8} \<longleftrightarrow> v \<le> 8"
  proof
    assume "v \<le> 8"
    then have "unat v \<le> 8" by (simp add: word_le_nat_alt)
    then have "unat v \<in> {0, 1, 2, 3, 4, 5, 6, 7, 8}" by auto
    then have "word_of_nat (unat v) \<in> (word_of_nat ` {0, 1, 2, 3, 4, 5, 6, 7, 8} :: u8 set)" by (rule imageI)
    then show "v \<in> {0, 1, 2, 3, 4, 5, 6, 7, 8}" by simp
  qed (auto simp: word_le_nat_alt)
  then show ?thesis by (auto simp: lane_from_u8_def not_less)
qed

section \<open>Properties\<close>

text \<open>
  C19. A flash-loan callback is accepted exactly when its lane is known and the sender proves every role the lane
  demands; an accepted callback never comes from the zero address, whatever the expectations hold.
\<close>

theorem callback_accepted_iff:
  "(validate_callback_auth p = Ok () \<longleftrightarrow>
      (case lane_from_u8 (cb_lane p) of None \<Rightarrow> False | Some lane \<Rightarrow> \<forall>role \<in> roles_of lane. proves p role))
   \<and> (validate_callback_auth p = Ok () \<longrightarrow> cb_lane p \<le> 8 \<and> cb_msg_sender p \<noteq> 0)"
proof -
  have iff: "validate_callback_auth p = Ok () \<longleftrightarrow>
      (case lane_from_u8 (cb_lane p) of None \<Rightarrow> False | Some lane \<Rightarrow> \<forall>role \<in> roles_of lane. proves p role)"
    by (auto simp: validate_callback_auth_def obind_eq_Ok Let_def validators_Ok is_party_def
        split: option.splits RuntimeLane.splits if_splits)
  have "cb_msg_sender p \<noteq> 0" if "\<forall>role \<in> roles_of lane. proves p role" for lane
    using that by (cases lane) (auto simp: is_party_def)
  then show ?thesis using iff from_u8_ranges [of "cb_lane p"] by (auto simp: not_less split: option.splits)
qed

theorem callback_accepted_iff_witness:
  "let p = \<lparr>cb_lane = 7, cb_msg_sender = 5, cb_expected_lender = 0, cb_expected_v3_pool = 0, cb_expected_reactor = 5,
     cb_initiator = 0, cb_executor = 0, cb_canonical_sender = 5, cb_active_plan_hash = 0, cb_expected_plan_hash = 0,
     cb_require_plan_hash = False\<rparr>
   in validate_callback_auth p = Ok () \<and> cb_lane p \<le> 8 \<and> cb_msg_sender p \<noteq> 0"
  unfolding Let_def
  by (intro conjI conjunct1 [OF mp [OF conjunct2 [OF callback_accepted_iff]]] conjunct2 [OF mp [OF conjunct2 [OF callback_accepted_iff]]])
    (simp_all add: callback_accepted_iff lane_from_u8_def is_party_def)

text \<open>
  A settlement is accepted with a profit exactly when token and amount are the borrowed ones, the borrowed
  amount has arrived, nothing was idle where that is refused, and the balance before repayment is the amount, the
  premium and the profit, without wrap-around, with the profit at least the minimum.
\<close>

theorem settlement_accepted_iff:
  "validate_flash_settlement p = Ok profit \<longleftrightarrow>
     fs_flash_token p \<noteq> 0 \<and> fs_callback_token p \<in> {0, fs_flash_token p} \<and> fs_callback_amount p = fs_flash_amount p
     \<and> fs_flash_amount p \<le> fs_balance_on_callback p
     \<and> (fs_balance_on_callback p = fs_flash_amount p \<or> \<not> fs_reject_idle_balance p)
     \<and> unat (fs_balance_before_repay p) = unat (fs_flash_amount p) + unat (fs_premium p) + unat profit
     \<and> fs_min_profit p \<le> profit"
proof -
  have sub: "owed \<le> b \<and> b - owed = profit \<longleftrightarrow> unat b = unat owed + unat profit" for b owed :: u256
    using checked_sub_Some [of b owed profit] by (auto simp: checked_sub_def split: if_splits)
  have owed: "(\<exists>owed. checked_add f q = Some owed \<and> owed \<le> b \<and> b - owed = profit)
      \<longleftrightarrow> unat b = unat f + unat q + unat profit" for b f q :: u256
  proof (cases "checked_add f q")
    case None
    then have "2 ^ 256 \<le> unat f + unat q" by (auto simp: checked_add_def split: if_splits)
    then show ?thesis using None unat_bound_256 [of b] by auto
  next
    case (Some owed)
    then show ?thesis using checked_add_Some [of f q owed] sub [of owed b] by simp
  qed
  have split: "(if c then Err e else m) = Ok profit \<longleftrightarrow> \<not> c \<and> m = Ok profit" for c e and m :: "u256 ra_result"
    by simp
  have idle: "fs_flash_amount p \<le> fs_balance_on_callback p \<Longrightarrow>
      fs_balance_on_callback p - fs_flash_amount p = 0 \<longleftrightarrow> fs_balance_on_callback p = fs_flash_amount p" by simp
  show ?thesis
    unfolding validate_flash_settlement_def Let_def split obind_eq_Ok ok_or_eq_Ok not_less owed [symmetric]
    by (auto simp: idle)
qed

text \<open>
  The bytes behind the receipt digest determine the receipt: two different receipts with the same digest give
  two different inputs on which the hash function collides.
\<close>

theorem receipt_digest_binds:
  "(receipt_preimage keccak a = receipt_preimage keccak b \<longleftrightarrow> a = b)
   \<and> (execution_receipt_digest keccak a = execution_receipt_digest keccak b \<longleftrightarrow>
       a = b \<or> receipt_preimage keccak a \<noteq> receipt_preimage keccak b
         \<and> keccak (receipt_preimage keccak a) = keccak (receipt_preimage keccak b))"
proof -
  have u: "to_be_bytes v @ r = to_be_bytes w @ s \<longleftrightarrow> v = w \<and> r = s" for v w :: u256 and r s
    by (rule be256.cancel_iff) simp_all
  have ad: "push_address_word v @ r = push_address_word w @ s \<longleftrightarrow> v = w \<and> r = s" for v w r s
    by (auto simp: push_address_word_def dest: be160.injective)
  have "receipt_preimage keccak a = receipt_preimage keccak b \<longleftrightarrow> a = b"
    using u [of _ "[]" _ "[]"]
    by (cases a; cases b) (auto simp: receipt_preimage_def push_u256_word_def u ad push_u8_word_def)
  then show ?thesis by (auto simp: execution_receipt_digest_def)
qed

end
