(* ===== verification/Stylus_Ids.thy ===== *)
theory Stylus_Ids
  imports Calldata
begin

text \<open>
  Identifiers the Stylus core derives from hashes, and the transfer calls of liquidity positions:
  \<open>token_standard_ids.rs\<close>, \<open>lib_uniswap.rs\<close>, \<open>transient_slots.rs\<close>, \<open>upgrade_policy.rs\<close> and \<open>lp_transfer_lib.rs\<close> under
  \<open>src/stylus/core/src\<close>. The hash function \<open>keccak256\<close> is a parameter; a 32-byte value is its 256-bit word, a 4-byte one a
  32-bit word, both written out big-endian.

  The byte strings that are hashed are separate definitions: what the identifiers distinguish is a property of those.
\<close>

section \<open>Token identifiers\<close>

definition DOMAIN_PERMISSION :: "u8 list" where "DOMAIN_PERMISSION = as_bytes ''perm:''"
definition DOMAIN_STRATEGY_LEDGER :: "u8 list" where "DOMAIN_STRATEGY_LEDGER = as_bytes ''strategy:''"
definition DOMAIN_PAYMASTER_POOL :: "u8 list" where "DOMAIN_PAYMASTER_POOL = as_bytes ''pool:''"
definition DOMAIN_INFLIGHT :: "u8 list" where "DOMAIN_INFLIGHT = as_bytes ''inflight:''"

definition permission_id :: "(u8 list \<Rightarrow> u256) \<Rightarrow> u160 \<Rightarrow> u32 \<Rightarrow> u256" where
  "permission_id keccak target selector = keccak (DOMAIN_PERMISSION @ to_be_bytes target @ to_be_bytes selector)"

definition hash_prefixed_32 :: "(u8 list \<Rightarrow> u256) \<Rightarrow> u8 list \<Rightarrow> u256 \<Rightarrow> u256" where
  "hash_prefixed_32 keccak prefix body = keccak (prefix @ to_be_bytes body)"

definition strategy_id :: "(u8 list \<Rightarrow> u256) \<Rightarrow> u256 \<Rightarrow> u256" where
  "strategy_id keccak strategy_tag = hash_prefixed_32 keccak DOMAIN_STRATEGY_LEDGER strategy_tag"

definition paymaster_pool_id :: "(u8 list \<Rightarrow> u256) \<Rightarrow> u256 \<Rightarrow> u256" where
  "paymaster_pool_id keccak pool_tag = hash_prefixed_32 keccak DOMAIN_PAYMASTER_POOL pool_tag"

definition inflight_id :: "(u8 list \<Rightarrow> u256) \<Rightarrow> u160 \<Rightarrow> u256" where
  "inflight_id keccak asset = keccak (DOMAIN_INFLIGHT @ to_be_bytes asset)"

section \<open>Pool addresses\<close>

definition V3_POOL_INIT_CODE_HASH :: u256 where
  "V3_POOL_INIT_CODE_HASH = 0xe34f199b19b2b4f47f68442619d555527d244f78a3297ea89325f843f87b8b54"
definition V2_PAIR_INIT_CODE_HASH :: u256 where
  "V2_PAIR_INIT_CODE_HASH = 0xe18a34eb0f55c3c04145d80d1e4ca51e60f06e67614e59f4f46927d63659223a"

definition sort_tokens :: "u160 \<Rightarrow> u160 \<Rightarrow> u160 \<times> u160" where
  "sort_tokens token_a token_b = (if token_a < token_b then (token_a, token_b) else (token_b, token_a))"

definition create2_preimage :: "u160 \<Rightarrow> u256 \<Rightarrow> u256 \<Rightarrow> u8 list" where
  "create2_preimage factory salt init_code_hash = [0xff] @ to_be_bytes factory @ to_be_bytes salt @ to_be_bytes init_code_hash"

definition create2_address :: "(u8 list \<Rightarrow> u256) \<Rightarrow> u160 \<Rightarrow> u256 \<Rightarrow> u256 \<Rightarrow> u160" where
  \<comment> \<open>the address is the last 20 bytes of the hash\<close>
  "create2_address keccak factory salt init_code_hash = from_be (drop 12 (to_be_bytes (keccak (create2_preimage factory salt init_code_hash))))"

definition v3_salt_preimage :: "u160 \<Rightarrow> u160 \<Rightarrow> u32 \<Rightarrow> u8 list" where
  \<comment> \<open>\<open>abi_encoded\<close>\<close>
  "v3_salt_preimage token_a token_b fee =
     (case sort_tokens token_a token_b of (token0, token1) \<Rightarrow>
        replicate 12 0 @ to_be_bytes token0 @ replicate 12 0 @ to_be_bytes token1 @ replicate 28 0 @ to_be_bytes fee)"

definition v2_salt_preimage :: "u160 \<Rightarrow> u160 \<Rightarrow> u8 list" where
  \<comment> \<open>\<open>packed\<close>\<close>
  "v2_salt_preimage token_a token_b = (case sort_tokens token_a token_b of (token0, token1) \<Rightarrow> to_be_bytes token0 @ to_be_bytes token1)"

definition compute_v3_address :: "(u8 list \<Rightarrow> u256) \<Rightarrow> u160 \<Rightarrow> u160 \<Rightarrow> u160 \<Rightarrow> u32 \<Rightarrow> u160" where
  "compute_v3_address keccak factory token_a token_b fee =
     create2_address keccak factory (keccak (v3_salt_preimage token_a token_b fee)) V3_POOL_INIT_CODE_HASH"

definition compute_v2_address :: "(u8 list \<Rightarrow> u256) \<Rightarrow> u160 \<Rightarrow> u160 \<Rightarrow> u160 \<Rightarrow> u160" where
  "compute_v2_address keccak factory token_a token_b =
     create2_address keccak factory (keccak (v2_salt_preimage token_a token_b)) V2_PAIR_INIT_CODE_HASH"

section \<open>Storage slots\<close>

definition EXPECTED_LENDER_SLOT :: u256 where
  "EXPECTED_LENDER_SLOT = 0x2a51345724187232c4a2728b319ec298553f3eb52eb998941ca7a0ec47b3f640"
definition FLOW_ID_SLOT :: u256 where
  "FLOW_ID_SLOT = 0xa3fe3d870bd7283af33a8ef894ee9932b4710ce472ac6e764a3f66aaeb33fcf4"
definition CUMULATIVE_HASH_SLOT :: u256 where
  "CUMULATIVE_HASH_SLOT = 0xa6e7f4e8d6ba213eb0af2b30ea68b8d88ba85042d5b0eda49086f4f9964944a1"
definition EXECUTING_SLOT :: u256 where
  "EXECUTING_SLOT = 0xee8264938d1089b5222497e075a783e89a24fbe45931de68fb25b0c8f71a0c8f"
definition EXPECTED_REACTOR_SLOT :: u256 where
  "EXPECTED_REACTOR_SLOT = 0xb8d1bfe6c5e3c6955ae7b64549c13f6ebfdf63c5756ec1676c5d22189a3db090"
definition EXPECTED_V3_POOL_SLOT :: u256 where
  "EXPECTED_V3_POOL_SLOT = 0xa297b7842bb27d1df6b58814cd9c628fad9558edf61186370124926f9ce1df5a"

datatype FlowKind = Flash | FlowSettlement | Unlock | Composition

definition flow_from_u8 :: "u8 \<Rightarrow> FlowKind option" where
  "flow_from_u8 v =
     (if v = 0 then Some Flash else if v = 1 then Some FlowSettlement else if v = 2 then Some Unlock
      else if v = 3 then Some Composition else None)"

definition identity_slot :: "u8 \<Rightarrow> u256 option" where
  "identity_slot kind =
     (if kind = 0 then Some EXPECTED_LENDER_SLOT
      else if kind = 1 then Some FLOW_ID_SLOT
      else if kind = 2 then Some CUMULATIVE_HASH_SLOT
      else if kind = 3 then Some EXECUTING_SLOT
      else if kind = 4 then Some EXPECTED_REACTOR_SLOT
      else if kind = 5 then Some EXPECTED_V3_POOL_SLOT
      else None)"

primrec reentrancy_label :: "FlowKind \<Rightarrow> string" where
  "reentrancy_label Flash = ''mev-arbitrum.TransientReentrancy.v1.flash''"
| "reentrancy_label FlowSettlement = ''mev-arbitrum.TransientReentrancy.v1.settlement''"
| "reentrancy_label Unlock = ''mev-arbitrum.TransientReentrancy.v1.unlock''"
| "reentrancy_label Composition = ''mev-arbitrum.TransientReentrancy.v1.composition''"

definition reentrancy_slot :: "(u8 list \<Rightarrow> u256) \<Rightarrow> FlowKind \<Rightarrow> u256" where
  "reentrancy_slot keccak kind = keccak (as_bytes (reentrancy_label kind))"

definition erc1967_implementation_slot :: "(u8 list \<Rightarrow> u256) \<Rightarrow> u256" where
  "erc1967_implementation_slot keccak = keccak (as_bytes ''eip1967.proxy.implementation'') - 1"

definition proxiable_uuid :: "(u8 list \<Rightarrow> u256) \<Rightarrow> u256" where
  "proxiable_uuid keccak = erc1967_implementation_slot keccak"

section \<open>Transfer of liquidity positions\<close>

definition LP_ERC20_TRANSFER :: "u8 list" where "LP_ERC20_TRANSFER = [0xa9, 0x05, 0x9c, 0xbb]"
definition ERC721_SAFE_TRANSFER_FROM :: "u8 list" where "ERC721_SAFE_TRANSFER_FROM = [0x42, 0x84, 0x2e, 0x0e]"
definition ERC6909_TRANSFER :: "u8 list" where "ERC6909_TRANSFER = [0x09, 0x5b, 0xcd, 0xb6]"
definition ERC6909_SET_OPERATOR :: "u8 list" where "ERC6909_SET_OPERATOR = [0x55, 0x8a, 0x72, 0x97]"

lemmas lp_selectors = LP_ERC20_TRANSFER_def ERC721_SAFE_TRANSFER_FROM_def ERC6909_TRANSFER_def ERC6909_SET_OPERATOR_def

datatype LpTransferError = LP_InvalidParams | V4TransferFailed | V4SetOperatorFailed

definition validate_move :: "u160 \<Rightarrow> u160 \<Rightarrow> (unit, LpTransferError) outcome" where
  "validate_move lp_contract to = (if lp_contract = 0 \<or> to = 0 then Err LP_InvalidParams else Ok ())"

definition validate_set_operator :: "u160 \<Rightarrow> u160 \<Rightarrow> (unit, LpTransferError) outcome" where
  "validate_set_operator pool_manager operator = (if pool_manager = 0 \<or> operator = 0 then Err LP_InvalidParams else Ok ())"

definition encode_selector_address_u256 :: "u8 list \<Rightarrow> u160 \<Rightarrow> u256 \<Rightarrow> u8 list" where
  "encode_selector_address_u256 selector address v = selector @ push_address_word address @ push_u256_word v"

definition encode_v2_transfer :: "u160 \<Rightarrow> u256 \<Rightarrow> u8 list" where
  "encode_v2_transfer to amount = encode_selector_address_u256 LP_ERC20_TRANSFER to amount"

definition encode_v3_safe_transfer_from :: "u160 \<Rightarrow> u160 \<Rightarrow> u256 \<Rightarrow> u8 list" where
  "encode_v3_safe_transfer_from from to token_id =
     ERC721_SAFE_TRANSFER_FROM @ push_address_word from @ push_address_word to @ push_u256_word token_id"

definition encode_v4_transfer :: "u160 \<Rightarrow> u256 \<Rightarrow> u256 \<Rightarrow> u8 list" where
  "encode_v4_transfer to token amount = ERC6909_TRANSFER @ push_address_word to @ push_u256_word token @ push_u256_word amount"

definition encode_v4_set_operator :: "u160 \<Rightarrow> bool \<Rightarrow> u8 list" where
  "encode_v4_set_operator operator approved = ERC6909_SET_OPERATOR @ push_address_word operator @ push_bool_word approved"

section \<open>What the identifiers distinguish\<close>

datatype token_key = Permission u160 u32 | Strategy u256 | PaymasterPool u256 | Inflight u160

primrec id_preimage :: "token_key \<Rightarrow> u8 list" where
  "id_preimage (Permission target selector) = DOMAIN_PERMISSION @ to_be_bytes target @ to_be_bytes selector"
| "id_preimage (Strategy tag) = DOMAIN_STRATEGY_LEDGER @ to_be_bytes tag"
| "id_preimage (PaymasterPool tag) = DOMAIN_PAYMASTER_POOL @ to_be_bytes tag"
| "id_preimage (Inflight asset) = DOMAIN_INFLIGHT @ to_be_bytes asset"

primrec token_id :: "(u8 list \<Rightarrow> u256) \<Rightarrow> token_key \<Rightarrow> u256" where
  "token_id keccak (Permission target selector) = permission_id keccak target selector"
| "token_id keccak (Strategy tag) = strategy_id keccak tag"
| "token_id keccak (PaymasterPool tag) = paymaster_pool_id keccak tag"
| "token_id keccak (Inflight asset) = inflight_id keccak asset"

lemmas domains = DOMAIN_PERMISSION_def DOMAIN_STRATEGY_LEDGER_def DOMAIN_PAYMASTER_POOL_def DOMAIN_INFLIGHT_def

lemma domain_clash:
  "as_bytes (c # cs) @ xs = as_bytes (d # ds) @ ys \<Longrightarrow> c = d"
  using as_bytes_inj [of "[c]" "[d]"] by (simp add: as_bytes_def)

lemma be32_inj: "to_be_bytes v = to_be_bytes w \<longleftrightarrow> v = (w :: u32)"
  using to_be_bytes_inj [of v w] by auto

lemma be160_inj: "to_be_bytes v = to_be_bytes w \<longleftrightarrow> v = (w :: u160)"
  by (auto dest: be160.injective)

lemma be256_inj: "to_be_bytes v = to_be_bytes w \<longleftrightarrow> v = (w :: u256)"
  by (auto dest: be256.injective)

lemma id_preimage_inj: "id_preimage x = id_preimage y \<longleftrightarrow> x = y"
proof -
  have l: "length (id_preimage x) = (case x of Permission _ _ \<Rightarrow> 29 | Strategy _ \<Rightarrow> 41 | PaymasterPool _ \<Rightarrow> 37 | Inflight _ \<Rightarrow> 29)" for x
    by (cases x) (simp_all add: domains)
  have "id_preimage (Permission t s) \<noteq> id_preimage (Inflight a)" "id_preimage (Inflight a) \<noteq> id_preimage (Permission t s)" for t s a
    using domain_clash [of "CHR ''p''" "''erm:''" _ "CHR ''i''" "''nflight:''"]
      domain_clash [of "CHR ''i''" "''nflight:''" _ "CHR ''p''" "''erm:''"] by (auto simp: domains)
  note clash = this
  have "x = y" if e: "id_preimage x = id_preimage y"
  proof -
    have "(case x of Permission _ _ \<Rightarrow> 29 | Strategy _ \<Rightarrow> 41 | PaymasterPool _ \<Rightarrow> 37 | Inflight _ \<Rightarrow> 29) =
        (case y of Permission _ _ \<Rightarrow> 29 | Strategy _ \<Rightarrow> 41 | PaymasterPool _ \<Rightarrow> 37 | Inflight _ \<Rightarrow> (29 :: nat))"
      by (simp only: l [symmetric] e)
    then show ?thesis using e clash by (cases x; cases y) (auto simp: be32_inj be160_inj be256_inj)
  qed
  then show ?thesis by blast
qed

lemma token_id_preimage: "token_id keccak x = keccak (id_preimage x)"
  by (cases x) (simp_all add: permission_id_def strategy_id_def paymaster_pool_id_def inflight_id_def hash_prefixed_32_def)

section \<open>Properties\<close>

text \<open>
  The token identifiers are domain-separated: the strings hashed for permissions, strategies, paymaster pools and
  in-flight assets are all different, across the four kinds as well as within each, so two different tokens share an
  identifier only through a collision of the hash function on two different inputs.
\<close>

theorem token_ids_separated:
  "token_id keccak x = token_id keccak y \<longleftrightarrow>
     x = y \<or> (id_preimage x \<noteq> id_preimage y \<and> keccak (id_preimage x) = keccak (id_preimage y))"
  by (auto simp: token_id_preimage id_preimage_inj)

text \<open>
  The address of a pool does not depend on the order of its two tokens, and the salt of a V3 pool determines the
  unordered pair and the fee, that of a V2 pair the unordered pair.
\<close>

theorem pool_addresses_unordered:
  "compute_v3_address keccak factory a b fee = compute_v3_address keccak factory b a fee
   \<and> compute_v2_address keccak factory a b = compute_v2_address keccak factory b a
   \<and> (v3_salt_preimage a b fee = v3_salt_preimage c d fee' \<longleftrightarrow> {a, b} = {c, d} \<and> fee = fee')
   \<and> (v2_salt_preimage a b = v2_salt_preimage c d \<longleftrightarrow> {a, b} = {c, d})"
proof -
  have sym: "sort_tokens a b = sort_tokens b a" for a b by (auto simp: sort_tokens_def)
  have pair: "sort_tokens a b = sort_tokens c d \<longleftrightarrow> {a, b} = {c, d}" for a b c d
    by (auto simp: sort_tokens_def doubleton_eq_iff)
  have "v3_salt_preimage a b fee = v3_salt_preimage c d fee' \<longleftrightarrow> sort_tokens a b = sort_tokens c d \<and> fee = fee'"
    by (auto simp: v3_salt_preimage_def be32_inj be160_inj split: prod.splits)
  moreover have "v2_salt_preimage a b = v2_salt_preimage c d \<longleftrightarrow> sort_tokens a b = sort_tokens c d"
    by (auto simp: v2_salt_preimage_def be160_inj split: prod.splits)
  ultimately show ?thesis
    by (simp add: pair compute_v3_address_def compute_v2_address_def v3_salt_preimage_def v2_salt_preimage_def sym [of b a])
qed

end
