(* ===== verification/Account_Guards.thy ===== *)
theory Account_Guards
  imports Stylus_Ids
begin

text \<open>
  The static guards of the account layer, \<open>src/stylus/core/src/account_semantics.rs\<close>, and of the authorisation layer,
  \<open>auth_semantics.rs\<close>: what a Safe, a paymaster, a CoWShed, a session key or a passkey has to satisfy before storage is
  touched. Lengths are natural numbers, a 4-byte selector is its list of bytes in the first file and a 32-bit word
  (\<open>FixedBytes<4>\<close>) in the second.
\<close>

unbundle bit_operations_syntax

section \<open>Account guards\<close>

datatype AccountStaticError =
  InvalidParams | ThresholdOutOfRange | Erc6909OperatorBlocked | TransferRequiresZeroApproved
| SetOperatorRequiresZeroIdAndAmount | UnsupportedFlashLender | InvalidSignatureLength | InvalidPaymasterData
| MarkupTooHigh | BudgetExceeded | InvalidPoolId | InvalidImplementation | Unauthorized

primrec account_error_as_u8 :: "AccountStaticError \<Rightarrow> u8" where
  "account_error_as_u8 InvalidParams = 1"
| "account_error_as_u8 ThresholdOutOfRange = 2"
| "account_error_as_u8 Erc6909OperatorBlocked = 3"
| "account_error_as_u8 TransferRequiresZeroApproved = 4"
| "account_error_as_u8 SetOperatorRequiresZeroIdAndAmount = 5"
| "account_error_as_u8 UnsupportedFlashLender = 6"
| "account_error_as_u8 InvalidSignatureLength = 7"
| "account_error_as_u8 InvalidPaymasterData = 8"
| "account_error_as_u8 MarkupTooHigh = 9"
| "account_error_as_u8 BudgetExceeded = 10"
| "account_error_as_u8 InvalidPoolId = 11"
| "account_error_as_u8 InvalidImplementation = 12"
| "account_error_as_u8 Unauthorized = 13"

datatype Erc6909Op = Transfer | SetOperator

definition op_from_u8 :: "u8 \<Rightarrow> Erc6909Op option" where
  "op_from_u8 v = (if v = 0 then Some Transfer else if v = 1 then Some SetOperator else None)"

record Erc6909CallStatic =
  ec_op :: u8
  ec_token :: u160
  ec_counterparty :: u160
  ec_id :: u256
  ec_amount :: u256
  ec_approved :: bool

record SafeFinancePlanStatic =
  sf_flash_lender :: u160
  sf_flash_asset :: u160
  sf_flash_amount :: u256
  sf_aave_pool :: u160

record PaymasterErc20ConfigStatic =
  pc_token :: u160
  pc_token_oracle :: u160
  pc_treasury :: u160
  pc_max_staleness :: u32
  pc_markup_bps :: u16
  pc_oracle_decimals :: u8

type_synonym 'a account_result = "('a, AccountStaticError) outcome"

definition ENTRY_POINT_V06 :: u160 where "ENTRY_POINT_V06 = 0x5FF137D4b0FDCD49DcA30c7CF57E578a026d2789"
definition ENTRY_POINT_V07 :: u160 where "ENTRY_POINT_V07 = 0x0000000071727De22E5E9d8BAf0edAc6f37da032"
definition ENTRY_POINT_V08 :: u160 where "ENTRY_POINT_V08 = 0x4337084D9E255Ff0702461CF8895CE9E3b5Ff108"
definition ENTRY_POINT_V09 :: u160 where "ENTRY_POINT_V09 = 0x0A630a99Df908A81115A3022927Be82f9299987e"
definition BALANCER_V2_VAULT :: u160 where "BALANCER_V2_VAULT = 0xBA12222222228d8Ba445958a75a0704d566BF2C8"
definition ERC6909_SET_OPERATOR_SELECTOR :: "u8 list" where "ERC6909_SET_OPERATOR_SELECTOR = [0x55, 0x8a, 0x72, 0x97]"
definition ERC6909_APPROVE_SELECTOR :: "u8 list" where "ERC6909_APPROVE_SELECTOR = [0x42, 0x6a, 0x84, 0x93]"
definition MODE_ETH :: u8 where "MODE_ETH = 0"
definition MODE_ERC20 :: u8 where "MODE_ERC20 = 1"
definition CHAINLINK_USD_DECIMALS :: u8 where "CHAINLINK_USD_DECIMALS = 8"
definition MAX_MARKUP_BPS :: u16 where "MAX_MARKUP_BPS = 5000"
definition ERC20_PAYMASTER_DATA_LENGTH :: nat where "ERC20_PAYMASTER_DATA_LENGTH = 53"
definition MAX_POOL_ID_EXCLUSIVE :: u256 where
  \<comment> \<open>\<open>U256::from_limbs([0, 1, 0, 0])\<close>\<close>
  "MAX_POOL_ID_EXCLUSIVE = 2 ^ 64"

definition account_error_code :: "unit account_result \<Rightarrow> u8" where
  "account_error_code r = (case r of Err e \<Rightarrow> account_error_as_u8 e | _ \<Rightarrow> 0)"

definition is_entry_point :: "u160 \<Rightarrow> bool" where
  "is_entry_point addr \<longleftrightarrow> addr \<in> {ENTRY_POINT_V06, ENTRY_POINT_V07, ENTRY_POINT_V08, ENTRY_POINT_V09}"

definition validate_threshold :: "u256 \<Rightarrow> u256 \<Rightarrow> unit account_result" where
  "validate_threshold threshold signer_count =
     (if threshold = 0 \<or> signer_count < threshold then Err ThresholdOutOfRange else Ok ())"

definition validate_nonzero_account :: "u160 \<Rightarrow> unit account_result" where
  "validate_nonzero_account account = (if account = 0 then Err InvalidParams else Ok ())"

definition is_blocked_erc6909_authority_selector :: "u8 list \<Rightarrow> bool" where
  "is_blocked_erc6909_authority_selector selector \<longleftrightarrow>
     selector = ERC6909_SET_OPERATOR_SELECTOR \<or> selector = ERC6909_APPROVE_SELECTOR"

definition validate_safe_execute :: "u160 \<Rightarrow> u8 list \<Rightarrow> unit account_result" where
  "validate_safe_execute target selector =
     (if target = 0 then Err InvalidParams
      else if is_blocked_erc6909_authority_selector selector then Err Erc6909OperatorBlocked
      else Ok ())"

definition validate_erc6909_call :: "Erc6909CallStatic \<Rightarrow> unit account_result" where
  "validate_erc6909_call inp =
     (if ec_token inp = 0 \<or> ec_counterparty inp = 0 then Err InvalidParams
      else case op_from_u8 (ec_op inp) of
        Some Transfer \<Rightarrow> if ec_approved inp then Err TransferRequiresZeroApproved else Ok ()
      | Some SetOperator \<Rightarrow>
          if ec_id inp \<noteq> 0 \<or> ec_amount inp \<noteq> 0 then Err SetOperatorRequiresZeroIdAndAmount else Ok ()
      | None \<Rightarrow> Err InvalidParams)"

definition validate_safe_finance_plan :: "SafeFinancePlanStatic \<Rightarrow> unit account_result" where
  "validate_safe_finance_plan inp =
     (if sf_flash_lender inp = 0 \<or> sf_flash_asset inp = 0 \<or> sf_flash_amount inp = 0 \<or> sf_aave_pool inp = 0
      then Err InvalidParams
      else if sf_flash_lender inp \<noteq> BALANCER_V2_VAULT then Err UnsupportedFlashLender
      else Ok ())"

definition validate_safe_finance_v3_plan :: "SafeFinancePlanStatic \<Rightarrow> unit account_result" where
  "validate_safe_finance_v3_plan inp =
     (if sf_flash_asset inp = 0 \<or> sf_flash_amount inp = 0 \<or> sf_aave_pool inp = 0 then Err InvalidParams else Ok ())"

definition signature_kind :: "nat \<Rightarrow> u8" where
  "signature_kind signature_len =
     (if signature_len = 64 \<or> signature_len = 65 then 1 else if 21 \<le> signature_len then 2 else 0)"

definition validate_modular_signature_len :: "nat \<Rightarrow> unit account_result" where
  "validate_modular_signature_len signature_len =
     (if signature_kind signature_len = 0 then Err InvalidSignatureLength else Ok ())"

definition validate_paymaster_tuning :: "u256 \<Rightarrow> u64 \<Rightarrow> unit account_result" where
  "validate_paymaster_tuning max_wei_per_epoch epoch_length =
     (if max_wei_per_epoch = 0 \<or> epoch_length = 0 then Err InvalidParams else Ok ())"

definition validate_paymaster_erc20_config :: "PaymasterErc20ConfigStatic \<Rightarrow> unit account_result" where
  "validate_paymaster_erc20_config inp =
     (if pc_token inp = 0 \<or> pc_token_oracle inp = 0 \<or> pc_treasury inp = 0 \<or> pc_max_staleness inp = 0 then Err InvalidParams
      else if MAX_MARKUP_BPS < pc_markup_bps inp then Err MarkupTooHigh
      else if pc_oracle_decimals inp \<noteq> CHAINLINK_USD_DECIMALS then Err InvalidParams
      else Ok ())"

definition validate_paymaster_data_shape :: "nat \<Rightarrow> u8 \<Rightarrow> u8 account_result" where
  "validate_paymaster_data_shape len first_byte =
     (if len = 0 then Ok MODE_ETH
      else if first_byte = MODE_ETH then (if len = 1 then Ok MODE_ETH else Err InvalidPaymasterData)
      else if first_byte \<noteq> MODE_ERC20 \<or> len \<noteq> ERC20_PAYMASTER_DATA_LENGTH then Err InvalidPaymasterData
      else Ok MODE_ERC20)"

definition validate_budget_reservation :: "u256 \<Rightarrow> u256 \<Rightarrow> u256 \<Rightarrow> unit account_result" where
  "validate_budget_reservation spent reservation max_wei_per_epoch =
     (case checked_add spent reservation of
        Some projected \<Rightarrow> if projected \<le> max_wei_per_epoch then Ok () else Err BudgetExceeded
      | None \<Rightarrow> Err BudgetExceeded)"

definition validate_pool_id :: "u256 \<Rightarrow> bool \<Rightarrow> unit account_result" where
  "validate_pool_id pool_id allow_zero =
     (if \<not> allow_zero \<and> pool_id = 0 \<or> MAX_POOL_ID_EXCLUSIVE \<le> pool_id then Err InvalidPoolId else Ok ())"

definition encode_pool_token_id :: "u256 \<Rightarrow> u160 \<Rightarrow> u256" where
  "encode_pool_token_id pool_id token = push_bit 160 pool_id OR from_be (replicate 12 0 @ to_be_bytes token)"

definition validate_cowshed_initialize :: "u160 \<Rightarrow> bool \<Rightarrow> unit account_result" where
  "validate_cowshed_initialize admin already_initialized =
     (if already_initialized then Err Unauthorized else if admin = 0 then Err InvalidParams else Ok ())"

definition validate_cowshed_update_implementation :: "u160 \<Rightarrow> bool \<Rightarrow> unit account_result" where
  "validate_cowshed_update_implementation implementation implementation_has_code =
     (if implementation = 0 \<or> \<not> implementation_has_code then Err InvalidImplementation else Ok ())"

definition validate_cowshed_execute_hooks :: "nat \<Rightarrow> bool \<Rightarrow> nat \<Rightarrow> unit account_result" where
  "validate_cowshed_execute_hooks call_count nonce_used signature_len =
     (if call_count = 0 then Err InvalidParams
      else if nonce_used then Err Unauthorized
      else validate_modular_signature_len signature_len)"

section \<open>Authorisation guards\<close>

datatype AuthParamError = AuthInvalidParams | InvalidExpiry | InvalidPubkey | InvalidValidatorData

definition SESSION_VALIDATOR_DATA_LENGTH :: nat where "SESSION_VALIDATOR_DATA_LENGTH = 85"
definition PASSKEY_PUBKEY_LENGTH :: nat where "PASSKEY_PUBKEY_LENGTH = 64"
definition PASSKEY_VALIDATOR_MIN_DATA_LENGTH :: nat where "PASSKEY_VALIDATOR_MIN_DATA_LENGTH = 32"
definition HALF_N_PLUS_1 :: u256 where
  "HALF_N_PLUS_1 = 0x7fffffffffffffffffffffffffffffff5d576e7357a4501ddfe92f46681b20a1"

definition permission_grant_params_valid :: "u160 \<Rightarrow> u160 \<Rightarrow> u32 \<Rightarrow> bool" where
  "permission_grant_params_valid account target selector \<longleftrightarrow> account \<noteq> 0 \<and> target \<noteq> 0 \<and> selector \<noteq> 0"

definition strategy_profit_params_valid :: "bool \<Rightarrow> u160 \<Rightarrow> u256 \<Rightarrow> bool" where
  "strategy_profit_params_valid is_executor to amount \<longleftrightarrow> is_executor \<and> to \<noteq> 0 \<and> amount \<noteq> 0"

definition validate_session_registration :: "u256 \<Rightarrow> u160 \<Rightarrow> u256 \<Rightarrow> (unit, AuthParamError) outcome" where
  "validate_session_registration now signer expiry =
     (if signer = 0 then Err AuthInvalidParams
      else if expiry \<le> now \<or> ucast (push_bit 48 1 - 1 :: u64) < expiry then Err InvalidExpiry
      else Ok ())"

definition pack_session_validation_data :: "u256 \<Rightarrow> u256" where
  "pack_session_validation_data expiry = push_bit 160 expiry"

definition session_validator_data_len_valid :: "nat \<Rightarrow> bool" where
  "session_validator_data_len_valid len \<longleftrightarrow> len = SESSION_VALIDATOR_DATA_LENGTH"

definition passkey_pubkey_len_valid :: "nat \<Rightarrow> bool" where
  "passkey_pubkey_len_valid len \<longleftrightarrow> len = PASSKEY_PUBKEY_LENGTH"

definition passkey_validator_data_len_valid :: "nat \<Rightarrow> bool" where
  "passkey_validator_data_len_valid len \<longleftrightarrow> PASSKEY_VALIDATOR_MIN_DATA_LENGTH \<le> len"

definition ecdsa_s_is_malleable :: "u256 \<Rightarrow> bool" where
  "ecdsa_s_is_malleable s \<longleftrightarrow> HALF_N_PLUS_1 \<le> s"

section \<open>Packed words\<close>

lemma drop_push: "unat v < 2 ^ (LENGTH('a) - k) \<Longrightarrow> k \<le> LENGTH('a) \<Longrightarrow> drop_bit k (push_bit k v) = (v :: 'a::len word)"
proof (rule bit_word_eqI)
  fix i assume h: "unat v < 2 ^ (LENGTH('a) - k)" "k \<le> LENGTH('a)" "i < LENGTH('a)"
  have "\<not> bit v i" if "LENGTH('a) - k \<le> i"
  proof -
    have "unat v < 2 ^ i" using less_le_trans [OF h(1) power_increasing [OF that]] by simp
    then have "\<not> bit (unat v) i" by (simp add: bit_iff_odd)
    then show ?thesis using h(3) by (simp add: bit_unsigned_iff)
  qed
  then show "bit (drop_bit k (push_bit k v)) i = bit v i"
    using h by (cases "LENGTH('a) - k \<le> i") (auto simp: bit_drop_bit_eq bit_push_bit_iff)
qed

lemma token_word: "(from_be (replicate 12 0 @ to_be_bytes t) :: u256) = ucast (t :: u160)"
proof -
  have "be_value (replicate 12 0) = 0" by (induction "12 :: nat") simp_all
  then have "be_value (replicate 12 0 @ to_be_bytes t) = unat t" by (simp add: be_value_append be_value_to_be_bytes)
  then show ?thesis by (simp add: from_be_def)
qed

lemma pool_id_bound: "validate_pool_id p z = Ok () \<Longrightarrow> unat p < 2 ^ 64"
  by (auto simp: validate_pool_id_def MAX_POOL_ID_EXCLUSIVE_def word_le_nat_alt power_numeral split: if_splits)


text \<open>
  The identifier of a paymaster pool's token determines both: for every pool id the guard accepts, the high bits of the
  identifier are the pool and its low 160 bits the token, so no two pools share an identifier.
\<close>

theorem pool_token_id_roundtrip:
  assumes "validate_pool_id pool_id allow_zero = Ok ()"
  shows "drop_bit 160 (encode_pool_token_id pool_id token) = pool_id \<and> ucast (encode_pool_token_id pool_id token) = token"
proof
  have p: "unat pool_id < 2 ^ (LENGTH(256) - 160)"
    using less_le_trans [OF pool_id_bound [OF assms], of "2 ^ 96"] by (simp add: power_numeral)
  have "drop_bit 160 (ucast token :: u256) = 0"
    by (rule bit_word_eqI) (auto simp: bit_drop_bit_eq bit_ucast_iff dest: bit_imp_le_length)
  then show "drop_bit 160 (encode_pool_token_id pool_id token) = pool_id"
    unfolding encode_pool_token_id_def token_word using drop_push [OF p] by (simp add: drop_bit_or)
  show "ucast (encode_pool_token_id pool_id token) = token"
    unfolding encode_pool_token_id_def token_word
    by (rule bit_word_eqI) (auto simp: bit_ucast_iff bit_or_iff bit_push_bit_iff)
qed

theorem pool_token_id_roundtrip_witness:
  "validate_pool_id 3 False = Ok () \<and> drop_bit 160 (encode_pool_token_id 3 7) = 3"
proof -
  have v: "validate_pool_id 3 False = Ok ()" by (simp add: validate_pool_id_def MAX_POOL_ID_EXCLUSIVE_def power_numeral)
  show ?thesis using v pool_token_id_roundtrip [OF v, of 7] by simp
qed

text \<open>
  The validity window of a registered session key survives its packing: the word an ERC-4337 entry point receives
  has no authoriser (low 160 bits) and no start time (bits from 208 on), and its 48-bit end time is the registered
  expiry, which lies in the future.
\<close>

theorem session_window_roundtrip:
  assumes "validate_session_registration now signer expiry = Ok ()"
  shows "now < expiry \<and> take_bit 160 (pack_session_validation_data expiry) = 0
    \<and> take_bit 48 (drop_bit 160 (pack_session_validation_data expiry)) = expiry
    \<and> drop_bit 208 (pack_session_validation_data expiry) = 0"
proof -
  have e: "now < expiry" "unat expiry < 2 ^ 48"
    using assms
    by (auto simp: validate_session_registration_def not_le word_less_nat_alt word_le_nat_alt power_numeral split: if_splits)
  have d: "drop_bit 160 (push_bit 160 expiry) = expiry"
    by (rule drop_push) (use less_trans [OF e(2), of "2 ^ 96"] in \<open>simp_all add: power_numeral\<close>)
  have t: "take_bit 48 expiry = expiry"
    using e(2) by (simp add: word_unat_eq_iff unsigned_take_bit_eq take_bit_nat_eq_self_iff)
  have "drop_bit 48 expiry = 0"
    using e(2) by (simp only: word_unat_eq_iff unat_drop_bit_eq) (simp add: drop_bit_eq_div)
  moreover have "drop_bit 208 (push_bit 160 expiry) = drop_bit 48 (drop_bit 160 (push_bit 160 expiry))"
    by (simp add: drop_bit_drop_bit)
  ultimately show ?thesis
    using e d t by (simp add: pack_session_validation_data_def take_bit_push_bit)
qed

theorem session_window_roundtrip_witness:
  "validate_session_registration 99 7 100 = Ok () \<and> drop_bit 208 (pack_session_validation_data 100) = 0"
proof -
  have v: "validate_session_registration 99 7 100 = Ok ()" by (simp add: validate_session_registration_def power_numeral)
  show ?thesis using v session_window_roundtrip [OF v] by simp
qed

definition SECP256K1_N :: u256 where
  \<comment> \<open>the order of the group\<close>
  "SECP256K1_N = 0xfffffffffffffffffffffffffffffffebaaedce6af48a03bbfd25e8cd0364141"

text \<open>
  Of the two signatures with the same message and key, \<open>s\<close> and \<open>n - s\<close>, the low-\<open>s\<close> rule refuses exactly one.
\<close>

theorem low_s_picks_one:
  assumes "0 < s" "s < SECP256K1_N"
  shows "ecdsa_s_is_malleable (SECP256K1_N - s) \<longleftrightarrow> \<not> ecdsa_s_is_malleable s"
proof -
  have "unat (SECP256K1_N - s) = unat SECP256K1_N - unat s" using assms(2) by (intro unat_sub) simp
  moreover have "unat s < unat SECP256K1_N" "0 < unat s" using assms by (simp_all add: word_less_nat_alt)
  moreover have "unat SECP256K1_N + 1 = 2 * unat HALF_N_PLUS_1" by (simp add: SECP256K1_N_def HALF_N_PLUS_1_def)
  ultimately show ?thesis unfolding ecdsa_s_is_malleable_def word_le_nat_alt by linarith
qed

theorem low_s_picks_one_witness: "\<not> ecdsa_s_is_malleable 1 \<and> ecdsa_s_is_malleable (SECP256K1_N - 1)"
proof -
  have "\<not> ecdsa_s_is_malleable 1" by (simp add: ecdsa_s_is_malleable_def HALF_N_PLUS_1_def word_le_nat_alt)
  then show ?thesis using low_s_picks_one [of 1] by (simp add: SECP256K1_N_def)
qed

section \<open>Acceptance\<close>

lemma reservation_iff:
  "validate_budget_reservation spent r limit = Ok () \<longleftrightarrow> unat spent + unat r \<le> unat limit"
  using unat_bound [of limit]
  by (auto simp: validate_budget_reservation_def checked_add_def word_le_nat_alt unat_word_ariths split: option.split if_splits)

lemma threshold_iff: "validate_threshold t n = Ok () \<longleftrightarrow> 1 \<le> unat t \<and> unat t \<le> unat n"
  by (auto simp: validate_threshold_def word_less_nat_alt unat_gt_0 Suc_le_eq)

lemma account_code_zero: "r \<noteq> Panic \<Longrightarrow> account_error_code r = 0 \<longleftrightarrow> r = Ok ()"
  by (cases r; simp add: account_error_code_def) (rename_tac e, case_tac e; simp)

end
