(* ===== verification/Executor_Guards.thy ===== *)
theory Executor_Guards
  imports Executor_Abi
begin

text \<open>
  The static guards of the executor family, \<open>src/stylus/core/src/executor_semantics.rs\<close>, over the parameter records of
  \<open>Executor_Abi\<close>, and those of the multi-hop swapper, \<open>swapper_semantics.rs\<close>. Lengths are natural numbers.

  The guard on swap paths is compared with the path parser of \<open>Calldata\<close>, the slippage arithmetic with the exact quotient.
\<close>

section \<open>Executor guards\<close>

datatype ExecutorStaticError =
  DeadlineExpired | InvalidPath | InvalidFlashAmount | FlashTokenMismatch | ArrayLengthMismatch | InvalidActionData
| UnexpectedReactor | InvalidRound | InvalidStrategyId | DirectPoolManagerV4Disabled | RouterNotWhitelisted | InvalidParams
| InvalidStrategy | InvalidFlashSource | WrongFlashAsset | CompressedDataTooLarge | StrategyDataTooLarge | PlanHashMismatch
| ZeroAddress | ZeroAmountOutMinimum

primrec executor_error_as_u8 :: "ExecutorStaticError \<Rightarrow> u8" where
  "executor_error_as_u8 DeadlineExpired = 1"
| "executor_error_as_u8 InvalidPath = 2"
| "executor_error_as_u8 InvalidFlashAmount = 3"
| "executor_error_as_u8 FlashTokenMismatch = 4"
| "executor_error_as_u8 ArrayLengthMismatch = 5"
| "executor_error_as_u8 InvalidActionData = 6"
| "executor_error_as_u8 UnexpectedReactor = 7"
| "executor_error_as_u8 InvalidRound = 8"
| "executor_error_as_u8 InvalidStrategyId = 9"
| "executor_error_as_u8 DirectPoolManagerV4Disabled = 10"
| "executor_error_as_u8 RouterNotWhitelisted = 11"
| "executor_error_as_u8 InvalidParams = 12"
| "executor_error_as_u8 InvalidStrategy = 13"
| "executor_error_as_u8 InvalidFlashSource = 14"
| "executor_error_as_u8 WrongFlashAsset = 15"
| "executor_error_as_u8 CompressedDataTooLarge = 16"
| "executor_error_as_u8 StrategyDataTooLarge = 17"
| "executor_error_as_u8 PlanHashMismatch = 18"
| "executor_error_as_u8 ZeroAddress = 19"
| "executor_error_as_u8 ZeroAmountOutMinimum = 20"

datatype AtomicStrategy = AaveLiquidation | SettlementArb | OracleGap | CyclicArb

definition strategy_from_u8 :: "u8 \<Rightarrow> AtomicStrategy option" where
  "strategy_from_u8 v =
     (if v = 0 then Some AaveLiquidation else if v = 1 then Some SettlementArb
      else if v = 2 then Some OracleGap else if v = 3 then Some CyclicArb else None)"

datatype AtomicFlashSource = BalancerV3 | BalancerV2 | AaveV3Simple

definition flash_source_from_u8 :: "u8 \<Rightarrow> AtomicFlashSource option" where
  "flash_source_from_u8 v =
     (if v = 0 then Some BalancerV3 else if v = 1 then Some BalancerV2 else if v = 2 then Some AaveV3Simple else None)"

record ExecutorSwapStepStatic =
  es_dex_kind :: u8
  es_router_is_whitelisted :: bool
  es_amount_in :: u256
  es_carry :: u256

record ExecutorUniswapXFillStatic =
  ux_reactor :: u160
  ux_expected_reactor :: u160
  ux_execute_calldata_len :: nat
  ux_execute_selector :: "u8 list"
  ux_callback_data_len :: nat

record AtomicExecStatic =
  ae_now :: u256
  ae_flash_token :: u160
  ae_flash_token_has_code :: bool
  ae_flash_amount :: u256
  ae_strategy :: u8
  ae_flash_source :: u8
  ae_strategy_data_len :: nat
  ae_deadline :: u256

record AtomicCompressedStatic =
  ac_compressed_len :: nat
  ac_strategy_data_len :: nat
  ac_max_strategy_data_len :: nat
  ac_strategy_data_hash_matches :: bool

record AaveLiquidationStatic =
  av_executor :: u160
  av_collateral_asset :: u160
  av_debt_asset :: u160
  av_borrower :: u160
  av_flash_token :: u160
  av_flash_amount :: u256
  av_debt_to_cover :: u256
  av_swap_path_len :: nat
  av_swap_path_token_in :: u160
  av_swap_path_token_out :: u160
  av_amount_out_minimum :: u256

record LiquidationEntryStatic =
  le_now :: u256
  le_executor :: u160
  le_collateral :: u160
  le_debt :: u160
  le_borrower :: u160
  le_debt_amount :: u256
  le_swap_path_len :: nat
  le_amount_out_minimum :: u256
  le_deadline :: u256

record MorphoLiquidationEntryStatic =
  me_now :: u256
  me_executor :: u160
  me_loan_token :: u160
  me_collateral_token :: u160
  me_borrower :: u160
  me_seized_assets :: u256
  me_swap_path_len :: nat
  me_amount_out_minimum :: u256
  me_deadline :: u256

type_synonym 'a executor_result = "('a, ExecutorStaticError) outcome"

definition REACTOR_EXECUTE_BATCH_WITH_CALLBACK_SELECTOR :: "u8 list" where
  "REACTOR_EXECUTE_BATCH_WITH_CALLBACK_SELECTOR = [0x13, 0xfb, 0x72, 0xc7]"
definition MAX_COMPRESSED_STRATEGY_DATA_BYTES :: nat where "MAX_COMPRESSED_STRATEGY_DATA_BYTES = 16384"
definition MAX_DECOMPRESSED_STRATEGY_DATA_BYTES :: nat where "MAX_DECOMPRESSED_STRATEGY_DATA_BYTES = 24576"
definition MIN_V3_EXACT_INPUT_PATH_BYTES :: nat where "MIN_V3_EXACT_INPUT_PATH_BYTES = 43"
definition V3_EXACT_INPUT_HOP_BYTES :: nat where "V3_EXACT_INPUT_HOP_BYTES = 23"

definition executor_error_code :: "unit executor_result \<Rightarrow> u8" where
  "executor_error_code r = (case r of Err e \<Rightarrow> executor_error_as_u8 e | _ \<Rightarrow> 0)"

definition validate_native_arb_shape ::
  "u256 \<Rightarrow> u160 \<Rightarrow> u256 \<Rightarrow> nat \<Rightarrow> u160 \<Rightarrow> u160 \<Rightarrow> u256 \<Rightarrow> unit executor_result" where
  "validate_native_arb_shape now flash_token flash_amount swap_count first_token_in last_token_out deadline =
     (if deadline < now then Err DeadlineExpired
      else if swap_count = 0 then Err InvalidPath
      else if flash_amount = 0 then Err InvalidFlashAmount
      else if first_token_in \<noteq> flash_token \<or> last_token_out \<noteq> flash_token then Err FlashTokenMismatch
      else Ok ())"

definition validate_native_arb_entry :: "u256 \<Rightarrow> NativeArbParams \<Rightarrow> unit executor_result" where
  "validate_native_arb_entry now params =
     validate_native_arb_shape now (na_flash_token params) (na_flash_amount params) (length (na_swaps params))
       (case na_swaps params of [] \<Rightarrow> 0 | step # _ \<Rightarrow> ss_token_in step)
       (if na_swaps params = [] then 0 else ss_token_out (last (na_swaps params)))
       (na_deadline params)"

definition validate_match_internal_shape :: "u256 \<Rightarrow> nat \<Rightarrow> nat \<Rightarrow> u256 \<Rightarrow> u256 \<Rightarrow> unit executor_result" where
  "validate_match_internal_shape now expected_token_inflows_len expected_token_inflow_min_len flash_amount deadline =
     (if deadline < now then Err DeadlineExpired
      else if expected_token_inflows_len \<noteq> expected_token_inflow_min_len then Err ArrayLengthMismatch
      else if flash_amount = 0 then Err InvalidFlashAmount
      else Ok ())"

definition validate_match_internal_entry :: "u256 \<Rightarrow> MatchParams \<Rightarrow> unit executor_result" where
  "validate_match_internal_entry now params =
     validate_match_internal_shape now (length (mp_expected_token_inflows params))
       (length (mp_expected_token_inflow_min params)) (mp_flash_amount params) (mp_deadline params)"

definition validate_compose_four_leg_shape :: "u256 \<Rightarrow> u256 \<Rightarrow> u256 \<Rightarrow> unit executor_result" where
  "validate_compose_four_leg_shape now flash_amount deadline =
     (if deadline < now then Err DeadlineExpired else if flash_amount = 0 then Err InvalidFlashAmount else Ok ())"

definition validate_compose_four_leg_entry :: "u256 \<Rightarrow> ComposeParams \<Rightarrow> unit executor_result" where
  "validate_compose_four_leg_entry now params = validate_compose_four_leg_shape now (co_flash_amount params) (co_deadline params)"

definition validate_uniswapx_fill_static :: "ExecutorUniswapXFillStatic \<Rightarrow> unit executor_result" where
  "validate_uniswapx_fill_static inp =
     (if ux_reactor inp \<noteq> ux_expected_reactor inp then Err UnexpectedReactor
      else if ux_execute_calldata_len inp < 4 \<or> ux_callback_data_len inp = 0 then Err InvalidActionData
      else if ux_execute_selector inp \<noteq> REACTOR_EXECUTE_BATCH_WITH_CALLBACK_SELECTOR then Err InvalidActionData
      else Ok ())"

definition validate_cow_router_start_shape :: "u256 \<Rightarrow> u256 \<Rightarrow> u256 \<Rightarrow> unit executor_result" where
  "validate_cow_router_start_shape now total_rounds deadline =
     (if deadline < now then Err DeadlineExpired else if total_rounds = 0 then Err InvalidRound else Ok ())"

definition validate_cow_router_start_entry :: "u256 \<Rightarrow> CoWFlashLoanRouterStartParams \<Rightarrow> unit executor_result" where
  "validate_cow_router_start_entry now params = validate_cow_router_start_shape now (cw_total_rounds params) (cw_deadline params)"

definition validate_cow_round_shape :: "u256 \<Rightarrow> u256 \<Rightarrow> unit executor_result" where
  "validate_cow_round_shape round total_rounds =
     (if round = 0 \<or> total_rounds = 0 \<or> total_rounds < round then Err InvalidRound else Ok ())"

definition validate_cow_final_strategy_id :: "u8 \<Rightarrow> unit executor_result" where
  "validate_cow_final_strategy_id strategy_id = (if strategy_id = 1 \<or> strategy_id = 2 then Ok () else Err InvalidStrategyId)"

definition validate_swap_step_static :: "ExecutorSwapStepStatic \<Rightarrow> u256 executor_result" where
  "validate_swap_step_static inp =
     (if es_dex_kind inp = 2 then Err DirectPoolManagerV4Disabled
      else if es_dex_kind inp = 5 \<and> \<not> es_router_is_whitelisted inp then Err RouterNotWhitelisted
      else
        let amount_in = (if es_amount_in inp = 0 then es_carry inp else es_amount_in inp)
        in if amount_in = 0 then Err InvalidPath else Ok amount_in)"

definition swap_step_static_error_code :: "ExecutorSwapStepStatic \<Rightarrow> u8" where
  "swap_step_static_error_code inp = (case validate_swap_step_static inp of Err e \<Rightarrow> executor_error_as_u8 e | _ \<Rightarrow> 0)"

definition validate_atomic_exec_static :: "AtomicExecStatic \<Rightarrow> unit executor_result" where
  "validate_atomic_exec_static inp =
     (if ae_flash_token inp = 0 \<or> \<not> ae_flash_token_has_code inp \<or> ae_flash_amount inp = 0 then Err InvalidParams
      else if ae_deadline inp < ae_now inp then Err DeadlineExpired
      else if strategy_from_u8 (ae_strategy inp) = None then Err InvalidStrategy
      else if flash_source_from_u8 (ae_flash_source inp) = None then Err InvalidFlashSource
      else if ae_strategy_data_len inp = 0 then Err InvalidParams
      else Ok ())"

definition validate_atomic_compressed_static :: "AtomicCompressedStatic \<Rightarrow> unit executor_result" where
  "validate_atomic_compressed_static inp =
     (if MAX_COMPRESSED_STRATEGY_DATA_BYTES < ac_compressed_len inp then Err CompressedDataTooLarge
      else if ac_max_strategy_data_len inp < ac_strategy_data_len inp then Err StrategyDataTooLarge
      else if MAX_DECOMPRESSED_STRATEGY_DATA_BYTES < ac_strategy_data_len inp then Err StrategyDataTooLarge
      else if \<not> ac_strategy_data_hash_matches inp then Err PlanHashMismatch
      else Ok ())"

definition is_v3_exact_input_path_shape :: "nat \<Rightarrow> u160 \<Rightarrow> u160 \<Rightarrow> u160 \<Rightarrow> u160 \<Rightarrow> bool" where
  "is_v3_exact_input_path_shape path_len expected_token_in expected_token_out actual_token_in actual_token_out \<longleftrightarrow>
     MIN_V3_EXACT_INPUT_PATH_BYTES \<le> path_len \<and> (path_len - 20) mod V3_EXACT_INPUT_HOP_BYTES = 0
     \<and> actual_token_in = expected_token_in \<and> actual_token_out = expected_token_out"

definition validate_atomic_aave_liquidation_static :: "AaveLiquidationStatic \<Rightarrow> unit executor_result" where
  "validate_atomic_aave_liquidation_static inp =
     (if av_collateral_asset inp = 0 \<or> av_debt_asset inp = 0 \<or> av_borrower inp = 0 \<or> av_borrower inp = av_executor inp
         \<or> av_collateral_asset inp = av_debt_asset inp \<or> av_debt_asset inp \<noteq> av_flash_token inp
         \<or> av_debt_to_cover inp = 0 \<or> av_debt_to_cover inp \<noteq> av_flash_amount inp
         \<or> \<not> is_v3_exact_input_path_shape (av_swap_path_len inp) (av_collateral_asset inp) (av_debt_asset inp)
               (av_swap_path_token_in inp) (av_swap_path_token_out inp)
         \<or> av_amount_out_minimum inp = 0
      then Err InvalidParams else Ok ())"

definition validate_liquidation_entry_static :: "LiquidationEntryStatic \<Rightarrow> unit executor_result" where
  "validate_liquidation_entry_static inp =
     (if le_collateral inp = 0 \<or> le_debt inp = 0 \<or> le_borrower inp = 0 \<or> le_borrower inp = le_executor inp
         \<or> le_collateral inp = le_debt inp \<or> le_debt_amount inp = 0 \<or> le_swap_path_len inp < MIN_V3_EXACT_INPUT_PATH_BYTES
      then Err InvalidParams
      else if le_amount_out_minimum inp = 0 then Err ZeroAmountOutMinimum
      else if le_deadline inp < le_now inp then Err DeadlineExpired
      else Ok ())"

definition validate_morpho_liquidation_entry_static :: "MorphoLiquidationEntryStatic \<Rightarrow> unit executor_result" where
  "validate_morpho_liquidation_entry_static inp =
     (if me_collateral_token inp = 0 \<or> me_loan_token inp = 0 \<or> me_borrower inp = 0 \<or> me_borrower inp = me_executor inp
         \<or> me_seized_assets inp = 0 \<or> me_swap_path_len inp < MIN_V3_EXACT_INPUT_PATH_BYTES
      then Err InvalidParams
      else if me_amount_out_minimum inp = 0 then Err ZeroAmountOutMinimum
      else if me_deadline inp < me_now inp then Err DeadlineExpired
      else Ok ())"

section \<open>Swapper guards\<close>

datatype MultiHopError = WrongValue | Expired | SlippageOutOfRange | V4AmountInZero | MathOverflow

record SwapStaticInput =
  si_now :: u256
  si_msg_value :: u256
  si_amount_in :: u256
  si_deadline :: u256

record DepthSnapshot =
  v2_weth_usdc_r0 :: u128
  v2_arb_usdc_r1 :: u128
  v3_weth_arb_liq :: u128
  v3_wsteth_weth_liq :: u128
  v4_wsteth_weth_liq :: u128
  v4_weth_arb_liq :: u128

definition MIN_V2_WETH_USDC_R0 :: u128 where "MIN_V2_WETH_USDC_R0 = 5238677443858472693"
definition MIN_V2_ARB_USDC_R1 :: u128 where "MIN_V2_ARB_USDC_R1 = 2116659189"
definition MIN_V3_WETH_ARB_LIQ :: u128 where "MIN_V3_WETH_ARB_LIQ = 107401392065706421925966"
definition MIN_V3_WSTETH_WETH_LIQ :: u128 where "MIN_V3_WSTETH_WETH_LIQ = 11718824313541001222374"
definition MIN_V4_WSTETH_WETH_LIQ :: u128 where "MIN_V4_WSTETH_WETH_LIQ = 1"
definition MIN_V4_WETH_ARB_LIQ :: u128 where "MIN_V4_WETH_ARB_LIQ = 1"
definition SW_BPS_DENOMINATOR :: u64 where "SW_BPS_DENOMINATOR = 10000"
definition MAX_AUTO_SLIPPAGE_BPS :: u64 where "MAX_AUTO_SLIPPAGE_BPS = 1000"

definition depth_is_sufficient :: "DepthSnapshot \<Rightarrow> bool" where
  "depth_is_sufficient snapshot \<longleftrightarrow>
     MIN_V2_WETH_USDC_R0 \<le> v2_weth_usdc_r0 snapshot \<and> MIN_V2_ARB_USDC_R1 \<le> v2_arb_usdc_r1 snapshot
     \<and> MIN_V3_WETH_ARB_LIQ \<le> v3_weth_arb_liq snapshot \<and> MIN_V3_WSTETH_WETH_LIQ \<le> v3_wsteth_weth_liq snapshot
     \<and> MIN_V4_WSTETH_WETH_LIQ \<le> v4_wsteth_weth_liq snapshot \<and> MIN_V4_WETH_ARB_LIQ \<le> v4_weth_arb_liq snapshot"

definition validate_swap_static :: "SwapStaticInput \<Rightarrow> (unit, MultiHopError) outcome" where
  "validate_swap_static inp =
     (if si_msg_value inp \<noteq> si_amount_in inp then Err WrongValue
      else if si_deadline inp < si_now inp then Err Expired
      else Ok ())"

definition validate_auto_slippage :: "SwapStaticInput \<Rightarrow> u256 \<Rightarrow> (unit, MultiHopError) outcome" where
  "validate_auto_slippage inp slippage_bps =
     (if ucast MAX_AUTO_SLIPPAGE_BPS < slippage_bps then Err SlippageOutOfRange else validate_swap_static inp)"

definition validate_quoted_v4_input :: "SwapStaticInput \<Rightarrow> u128 \<Rightarrow> (unit, MultiHopError) outcome" where
  "validate_quoted_v4_input inp v4_amount_in =
     obind (validate_swap_static inp) (\<lambda>_. if v4_amount_in = 0 then Err V4AmountInZero else Ok ())"

definition apply_slippage :: "u256 \<Rightarrow> u256 \<Rightarrow> (u256, MultiHopError) outcome" where
  "apply_slippage amount bps =
     (let denominator = ucast SW_BPS_DENOMINATOR
      in if denominator < bps then Err SlippageOutOfRange
         else
           let multiplier = denominator - bps
           in case checked_mul amount multiplier of
                None \<Rightarrow> Err MathOverflow
              | Some scaled \<Rightarrow> u_div scaled denominator)"


section \<open>Slippage\<close>

text \<open>
  The slippage of the swapper is exact on every input: a rate above 10000 basis points and a product beyond 256 bits
  are reported as what they are, and otherwise the result is the floor of the exact quotient.
\<close>

theorem apply_slippage_exact:
  "apply_slippage amount bps =
     (if 10000 < unat bps then Err SlippageOutOfRange
      else if 2 ^ 256 \<le> unat amount * (10000 - unat bps) then Err MathOverflow
      else Ok (word_of_nat (unat amount * (10000 - unat bps) div 10000)))"
proof -
  have d: "(ucast SW_BPS_DENOMINATOR :: u256) = 10000" by (simp add: SW_BPS_DENOMINATOR_def)
  have m: "unat (10000 - bps) = 10000 - unat bps" if "bps \<le> 10000"
    using unat_sub [OF that] by simp
  have q: "u_div (amount * (10000 - bps)) 10000 = Ok (word_of_nat (unat amount * (10000 - unat bps) div 10000) :: u256)"
    if "bps \<le> 10000" "unat amount * (10000 - unat bps) < 2 ^ 256"
    using that m by (simp add: u_div_def word_unat_eq_iff unat_div unat_word_ariths unat_word_of_nat
        less_le_trans [OF _ that(2) [THEN less_imp_le]] le_less_trans [OF div_le_dividend])
  show ?thesis
    unfolding apply_slippage_def Let_def d
    using m q by (auto simp: word_less_nat_alt word_le_nat_alt not_less checked_mul_def)
qed

section \<open>Swap paths\<close>

lemma parse_hop_value:
  "20 + i * 23 + 23 \<le> length p \<Longrightarrow> parse_hop p i = Ok (from_be (0 # take 3 (drop (20 + i * 23) p)), from_be (take 20 (drop (23 + i * 23) p)))"
  by (simp add: parse_hop_def slice_def Let_def add.commute add.left_commute)

lemma collect_total: "(\<And>x. x \<in> set xs \<Longrightarrow> f x = Ok (g x)) \<Longrightarrow> collect f xs = Ok (map g xs)"
  by (induction xs) simp_all

lemma parse_v3_path_value:
  assumes "43 \<le> length p" "(length p - 20) mod 23 = 0"
  shows "\<exists>tokens fees. parse_v3_path p = Ok (tokens, fees) \<and> hd tokens = from_be (take 20 p)
    \<and> last tokens = from_be (drop (length p - 20) p)"
proof -
  define n where "n = (length p - 20) div 23"
  have l: "length p = 20 + n * 23" "0 < n" using assms unfolding n_def by (simp_all add: minus_mod_eq_div_mult [symmetric] div_greater_zero_iff)
  define g where "g i = (from_be (0 # take 3 (drop (20 + i * 23) p)) :: u32, from_be (take 20 (drop (23 + i * 23) p)) :: u160)" for i
  have "collect (parse_hop p) [0 ..< n] = Ok (map g [0 ..< n])"
    by (rule collect_total) (use l in \<open>auto simp: g_def intro!: parse_hop_value\<close>)
  then have "parse_v3_path p = Ok (from_be (take 20 p) # map snd (map g [0 ..< n]), map fst (map g [0 ..< n]))"
    using assms l by (simp add: parse_v3_path_def Let_def slice_def)
  moreover have "last (from_be (take 20 p) # map snd (map g [0 ..< n])) = from_be (drop (length p - 20) p)"
    using l by (cases n) (auto simp: g_def)
  ultimately show ?thesis by (metis list.sel(1))
qed

lemma path_shape_parses:
  "is_v3_exact_input_path_shape (length p) token_in token_out (from_be (take 20 p)) (from_be (drop (length p - 20) p))
   \<longleftrightarrow> (\<exists>tokens fees. parse_v3_path p = Ok (tokens, fees) \<and> hd tokens = token_in \<and> last tokens = token_out)"
proof (cases "43 \<le> length p \<and> (length p - 20) mod 23 = 0")
  case True
  then show ?thesis using parse_v3_path_value [of p]
    by (auto simp: is_v3_exact_input_path_shape_def MIN_V3_EXACT_INPUT_PATH_BYTES_def V3_EXACT_INPUT_HOP_BYTES_def)
next
  case False
  then show ?thesis
    by (auto simp: is_v3_exact_input_path_shape_def MIN_V3_EXACT_INPUT_PATH_BYTES_def V3_EXACT_INPUT_HOP_BYTES_def
        parse_v3_path_def Let_def)
qed

definition describes_path :: "AaveLiquidationStatic \<Rightarrow> u8 list \<Rightarrow> bool" where
  \<comment> \<open>the fields of the input that describe the swap path are those of the packed path\<close>
  "describes_path inp path \<longleftrightarrow>
     av_swap_path_len inp = length path \<and> av_swap_path_token_in inp = from_be (take 20 path) \<and>
     av_swap_path_token_out inp = from_be (drop (length path - 20) path)"

text \<open>
  C32. The atomic Aave liquidation is admitted exactly for a route: given the length and the two end tokens of a packed
  path, the static check of the atomic Aave liquidation passes if and only if the path parses into a sequence of
  tokens and fees that starts at the collateral and ends at the debt asset, the two assets and the borrower are not
  the zero address, the assets differ, the borrower is not the executor itself, the flash loan is of the debt asset
  and of exactly the debt to cover, and neither that debt nor the minimum output is zero. (The plain Aave and
  Morpho liquidation entries only check the length of the path.)
\<close>

theorem atomic_liquidation_needs_route:
  "describes_path inp path \<Longrightarrow>
    validate_atomic_aave_liquidation_static inp = Ok () \<longleftrightarrow>
      (\<exists>tokens fees. parse_v3_path path = Ok (tokens, fees) \<and>
         hd tokens = av_collateral_asset inp \<and> last tokens = av_debt_asset inp) \<and>
      0 \<notin> {av_collateral_asset inp, av_debt_asset inp, av_borrower inp} \<and>
      av_collateral_asset inp \<noteq> av_debt_asset inp \<and> av_borrower inp \<noteq> av_executor inp \<and>
      av_flash_token inp = av_debt_asset inp \<and> av_flash_amount inp = av_debt_to_cover inp \<and>
      0 \<notin> {av_debt_to_cover inp, av_amount_out_minimum inp}"
  using path_shape_parses [of path "av_collateral_asset inp" "av_debt_asset inp"]
  by (auto simp: validate_atomic_aave_liquidation_static_def describes_path_def)

definition sample_path :: "u8 list" where
  "sample_path = replicate 19 0 @ [1] @ [0, 1, 244] @ replicate 19 0 @ [2]"

definition sample_liquidation :: AaveLiquidationStatic where
  "sample_liquidation =
     \<lparr>av_executor = 4, av_collateral_asset = 1, av_debt_asset = 2, av_borrower = 3, av_flash_token = 2, av_flash_amount = 10,
      av_debt_to_cover = 10, av_swap_path_len = 43, av_swap_path_token_in = 1, av_swap_path_token_out = 2,
      av_amount_out_minimum = 9\<rparr>"

theorem atomic_liquidation_needs_route_witness:
  "validate_atomic_aave_liquidation_static sample_liquidation = Ok () \<and>
   (\<exists>tokens fees. parse_v3_path sample_path = Ok (tokens, fees) \<and> hd tokens = 1 \<and> last tokens = 2)"
proof -
  have "describes_path sample_liquidation sample_path"
    by (simp add: describes_path_def sample_liquidation_def sample_path_def from_be_def be_value_append)
  moreover have "validate_atomic_aave_liquidation_static sample_liquidation = Ok ()"
    by (simp add: validate_atomic_aave_liquidation_static_def sample_liquidation_def is_v3_exact_input_path_shape_def
        MIN_V3_EXACT_INPUT_PATH_BYTES_def V3_EXACT_INPUT_HOP_BYTES_def)
  ultimately show ?thesis
    using atomic_liquidation_needs_route [of sample_liquidation sample_path] by (simp add: sample_liquidation_def)
qed

text \<open>The plain entries accept a path of 44 bytes, which no parser splits into hops.\<close>

lemma plain_entry_checks_length_only:
  assumes "validate_liquidation_entry_static inp = Ok ()"
  shows "validate_liquidation_entry_static (inp\<lparr>le_swap_path_len := 44\<rparr>) = Ok ()"
    and "length path = 44 \<Longrightarrow> parse_v3_path path \<noteq> Ok r"
  using assms
  by (auto simp: validate_liquidation_entry_static_def MIN_V3_EXACT_INPUT_PATH_BYTES_def parse_v3_path_def Let_def
      split: if_splits)

section \<open>Acceptance\<close>

definition closes_cycle :: "u160 \<Rightarrow> SwapStep list \<Rightarrow> bool" where
  "closes_cycle token steps \<longleftrightarrow> steps \<noteq> [] \<and> ss_token_in (hd steps) = token \<and> ss_token_out (last steps) = token"

text \<open>
  What the entry guards let through: an arbitrage is accepted exactly before its deadline, with a loan and a nonempty
  cycle from the borrowed token back to it; an internal match exactly before its deadline, with a loan and one
  minimum per expected inflow; a composition exactly before its deadline with a loan; a CoW round exactly when it is
  one of the rounds. A step is priced exactly when it is not a direct V4 step, goes through an allowed router where it is an aggregator
  step, and has an amount of its own or one carried over; that amount is returned.
\<close>

theorem entry_guards_exact:
  "(validate_native_arb_entry now pa = Ok () \<longleftrightarrow>
      now \<le> na_deadline pa \<and> na_flash_amount pa \<noteq> 0 \<and> closes_cycle (na_flash_token pa) (na_swaps pa))
   \<and> (validate_match_internal_entry now pm = Ok () \<longleftrightarrow>
      now \<le> mp_deadline pm \<and> mp_flash_amount pm \<noteq> 0
        \<and> length (mp_expected_token_inflows pm) = length (mp_expected_token_inflow_min pm))
   \<and> (validate_compose_four_leg_entry now pc = Ok () \<longleftrightarrow> now \<le> co_deadline pc \<and> co_flash_amount pc \<noteq> 0)
   \<and> (validate_cow_router_start_entry now pw = Ok () \<longleftrightarrow> now \<le> cw_deadline pw \<and> cw_total_rounds pw \<noteq> 0)
   \<and> (validate_cow_round_shape round rounds = Ok () \<longleftrightarrow> 1 \<le> unat round \<and> unat round \<le> unat rounds)
   \<and> (validate_swap_step_static step = Ok v \<longleftrightarrow>
      es_dex_kind step \<noteq> 2 \<and> (if es_dex_kind step = 5 then es_router_is_whitelisted step else True) \<and> v \<noteq> 0
        \<and> v = (if es_amount_in step = 0 then es_carry step else es_amount_in step))"
proof (intro conjI)
  show "validate_native_arb_entry now pa = Ok () \<longleftrightarrow>
      now \<le> na_deadline pa \<and> na_flash_amount pa \<noteq> 0 \<and> closes_cycle (na_flash_token pa) (na_swaps pa)"
    by (cases "na_swaps pa")
      (auto simp: validate_native_arb_entry_def validate_native_arb_shape_def closes_cycle_def not_less)
  show "validate_cow_round_shape round rounds = Ok () \<longleftrightarrow> 1 \<le> unat round \<and> unat round \<le> unat rounds"
    by (auto simp: validate_cow_round_shape_def word_less_nat_alt unat_gt_0 Suc_le_eq)
qed (auto simp: validate_match_internal_entry_def validate_match_internal_shape_def validate_compose_four_leg_entry_def
    validate_compose_four_leg_shape_def validate_cow_router_start_entry_def validate_cow_router_start_shape_def
    validate_swap_step_static_def Let_def not_less)

end
