(* ===== verification/Strategy_Gates.thy ===== *)
theory Strategy_Gates
  imports Executor_Abi V4_Pool
begin

text \<open>
  Registries and gates of the Stylus core under \<open>src/stylus/core/src\<close>: the router registry (\<open>router_registry.rs\<close>), the
  gates of the research strategies (\<open>poc_fail_closed.rs\<close>), and of \<open>interface_surfaces.rs\<close> the venue kinds, the hook flags and the encoding
  of a found route. The hook classification is compared with the one of the V4 quote in \<open>V4_Pool\<close>.
\<close>

unbundle bit_operations_syntax

section \<open>Router registry\<close>

definition UNIV2_ROUTER :: u160 where "UNIV2_ROUTER = 0x4752ba5DBc23f44D87826276BF6Fd6b1C372aD24"
definition UNIV2_FACTORY :: u160 where "UNIV2_FACTORY = 0xf1D7CC64Fb4452F05c498126312eBE29f30Fbcf9"
definition UNIV3_FACTORY :: u160 where "UNIV3_FACTORY = 0x1F98431c8aD98523631AE4a59f267346ea31F984"
definition UNIV3_POSITION_MANAGER :: u160 where "UNIV3_POSITION_MANAGER = 0xC36442b4a4522E871399CD717aBDD847Ab11FE88"
definition UNIV3_SWAP_ROUTER_02 :: u160 where "UNIV3_SWAP_ROUTER_02 = 0x68b3465833fb72A70ecDF485E0e4C7bD8665Fc45"
definition UNIV3_QUOTER_V2 :: u160 where "UNIV3_QUOTER_V2 = 0x61fFE014bA17989E743c5F6cB21bF9697530B21e"
definition UNIV4_POOL_MANAGER :: u160 where "UNIV4_POOL_MANAGER = 0x360E68faCcca8cA495c1B759Fd9EEe466db9FB32"
definition UNIV4_POSITION_MANAGER :: u160 where "UNIV4_POSITION_MANAGER = 0xd88F38F930b7952f2DB2432Cb002E7abbF3dD869"
definition UNIV4_STATE_VIEW :: u160 where "UNIV4_STATE_VIEW = 0x76Fd297e2D437cd7f76d50F01AfE6160f86e9990"
definition UNIV4_QUOTER :: u160 where "UNIV4_QUOTER = 0x3972C00f7ed4885e145823eb7C655375d275A1C5"
definition UNIVERSAL_ROUTER_V20 :: u160 where "UNIVERSAL_ROUTER_V20 = 0xA51afAFe0263b40EdaEf0Df8781eA9aa03E381a3"
definition UNIVERSAL_ROUTER_V211 :: u160 where "UNIVERSAL_ROUTER_V211 = 0x8B844f885672f333Bc0042cB669255f93a4C1E6b"
definition UNISWAPX_V3_DUTCH_REACTOR :: u160 where "UNISWAPX_V3_DUTCH_REACTOR = 0xB274d5F4b833b61B340b654d600A864fB604a87c"
definition UNISWAPX_ORDER_QUOTER :: u160 where "UNISWAPX_ORDER_QUOTER = 0x88440407634F89873c5D9439987Ac4BE9725fea8"
definition SQUID_ROUTER :: u160 where "SQUID_ROUTER = 0xce16F69375520ab01377ce7B88f5BA8C48F8D666"
definition SQUID_MULTICALL :: u160 where "SQUID_MULTICALL = 0xaD6Cea45f98444a922a2b4fE96b8C90F0862D2F4"
definition PERMIT2 :: u160 where "PERMIT2 = 0x000000000022D473030F116dDEE9F6B43aC78BA3"
definition SUSHI_V2_FACTORY :: u160 where "SUSHI_V2_FACTORY = 0xc35DADB65012eC5796536bD9864eD8773aBc74C4"
definition SUSHI_V2_ROUTER :: u160 where "SUSHI_V2_ROUTER = 0x1b02dA8Cb0d097eB8D57A175b88c7D8b47997506"
definition PANCAKE_V2_FACTORY :: u160 where "PANCAKE_V2_FACTORY = 0x02a84c1b3BBD7401a5f7fa98a384EBC70bB5749E"
definition PANCAKE_V2_ROUTER :: u160 where "PANCAKE_V2_ROUTER = 0x8cFe327CEc66d1C090Dd72bd0FF11d690C33a2Eb"
definition CAMELOT_V2_FACTORY :: u160 where "CAMELOT_V2_FACTORY = 0x6EcCab422D763aC031210895C81787E87B43A652"
definition FRAXSWAP_FACTORY :: u160 where "FRAXSWAP_FACTORY = 0x5Ca135cB8527d76e932f34B5145575F9d8cbE08E"
definition SUSHI_V3_FACTORY :: u160 where "SUSHI_V3_FACTORY = 0x1af415a1EbA07a4986a52B6f2e7dE7003D82231e"
definition SUSHI_V3_SWAP_ROUTER :: u160 where "SUSHI_V3_SWAP_ROUTER = 0x8A21F6768C1f8075791D08546Dadf6daA0bE820c"
definition PANCAKE_V3_SMART_ROUTER :: u160 where "PANCAKE_V3_SMART_ROUTER = 0x32226588378236Fd0c7c4053999F88aC0e5cAc77"
definition CAMELOT_V3_SWAP_ROUTER :: u160 where "CAMELOT_V3_SWAP_ROUTER = 0x1F721E2E82F6676FCE4eA07A5958cF098D339e18"

lemmas router_addresses = UNIV2_ROUTER_def UNIV2_FACTORY_def UNIV3_FACTORY_def UNIV3_POSITION_MANAGER_def UNIV3_SWAP_ROUTER_02_def UNIV3_QUOTER_V2_def UNIV4_POOL_MANAGER_def UNIV4_POSITION_MANAGER_def UNIV4_STATE_VIEW_def UNIV4_QUOTER_def UNIVERSAL_ROUTER_V20_def UNIVERSAL_ROUTER_V211_def UNISWAPX_V3_DUTCH_REACTOR_def UNISWAPX_ORDER_QUOTER_def SQUID_ROUTER_def SQUID_MULTICALL_def PERMIT2_def SUSHI_V2_FACTORY_def SUSHI_V2_ROUTER_def PANCAKE_V2_FACTORY_def PANCAKE_V2_ROUTER_def CAMELOT_V2_FACTORY_def FRAXSWAP_FACTORY_def SUSHI_V3_FACTORY_def SUSHI_V3_SWAP_ROUTER_def PANCAKE_V3_SMART_ROUTER_def CAMELOT_V3_SWAP_ROUTER_def

datatype RouterKind =
  UniversalRouterV20 | UniversalRouterV211 | Univ2Router | Univ3SwapRouter02 | Univ3PositionManager | Univ4PoolManager | Univ4PositionManager | UniswapXV3DutchReactor | CamelotV3SwapRouter | PancakeV3SmartRouter | SushiV2Router | SushiV3SwapRouter | SquidRouter | PancakeV2Router

definition router_kind_from_u8 :: "u8 \<Rightarrow> RouterKind option" where
  "router_kind_from_u8 v =
     (if v = 0 then Some UniversalRouterV20
      else if v = 1 then Some UniversalRouterV211
      else if v = 2 then Some Univ2Router
      else if v = 3 then Some Univ3SwapRouter02
      else if v = 4 then Some Univ3PositionManager
      else if v = 5 then Some Univ4PoolManager
      else if v = 6 then Some Univ4PositionManager
      else if v = 7 then Some UniswapXV3DutchReactor
      else if v = 8 then Some CamelotV3SwapRouter
      else if v = 9 then Some PancakeV3SmartRouter
      else if v = 10 then Some SushiV2Router
      else if v = 11 then Some SushiV3SwapRouter
      else if v = 12 then Some SquidRouter
      else if v = 13 then Some PancakeV2Router
      else None)"

primrec router_kind_as_u8 :: "RouterKind \<Rightarrow> u8" where
  \<comment> \<open>\<open>kind as u8\<close>\<close>
  "router_kind_as_u8 UniversalRouterV20 = 0"
| "router_kind_as_u8 UniversalRouterV211 = 1"
| "router_kind_as_u8 Univ2Router = 2"
| "router_kind_as_u8 Univ3SwapRouter02 = 3"
| "router_kind_as_u8 Univ3PositionManager = 4"
| "router_kind_as_u8 Univ4PoolManager = 5"
| "router_kind_as_u8 Univ4PositionManager = 6"
| "router_kind_as_u8 UniswapXV3DutchReactor = 7"
| "router_kind_as_u8 CamelotV3SwapRouter = 8"
| "router_kind_as_u8 PancakeV3SmartRouter = 9"
| "router_kind_as_u8 SushiV2Router = 10"
| "router_kind_as_u8 SushiV3SwapRouter = 11"
| "router_kind_as_u8 SquidRouter = 12"
| "router_kind_as_u8 PancakeV2Router = 13"

primrec router_for :: "RouterKind \<Rightarrow> u160" where
  "router_for UniversalRouterV20 = UNIVERSAL_ROUTER_V20"
| "router_for UniversalRouterV211 = UNIVERSAL_ROUTER_V211"
| "router_for Univ2Router = UNIV2_ROUTER"
| "router_for Univ3SwapRouter02 = UNIV3_SWAP_ROUTER_02"
| "router_for Univ3PositionManager = UNIV3_POSITION_MANAGER"
| "router_for Univ4PoolManager = UNIV4_POOL_MANAGER"
| "router_for Univ4PositionManager = UNIV4_POSITION_MANAGER"
| "router_for UniswapXV3DutchReactor = UNISWAPX_V3_DUTCH_REACTOR"
| "router_for CamelotV3SwapRouter = CAMELOT_V3_SWAP_ROUTER"
| "router_for PancakeV3SmartRouter = PANCAKE_V3_SMART_ROUTER"
| "router_for SushiV2Router = SUSHI_V2_ROUTER"
| "router_for SushiV3SwapRouter = SUSHI_V3_SWAP_ROUTER"
| "router_for SquidRouter = SQUID_ROUTER"
| "router_for PancakeV2Router = PANCAKE_V2_ROUTER"

definition is_known :: "u160 \<Rightarrow> bool" where
  "is_known addr \<longleftrightarrow> addr \<in>
     {UNIVERSAL_ROUTER_V20, UNIVERSAL_ROUTER_V211, UNIV2_ROUTER, UNIV2_FACTORY, UNIV3_SWAP_ROUTER_02, UNIV3_POSITION_MANAGER, UNIV3_FACTORY, UNIV3_QUOTER_V2, UNIV4_POOL_MANAGER, UNIV4_POSITION_MANAGER, UNIV4_STATE_VIEW, UNIV4_QUOTER, UNISWAPX_V3_DUTCH_REACTOR, UNISWAPX_ORDER_QUOTER, PERMIT2, SUSHI_V2_ROUTER, SUSHI_V2_FACTORY, PANCAKE_V2_ROUTER, PANCAKE_V2_FACTORY, SUSHI_V3_SWAP_ROUTER, SUSHI_V3_FACTORY, CAMELOT_V2_FACTORY, CAMELOT_V3_SWAP_ROUTER, PANCAKE_V3_SMART_ROUTER, SQUID_ROUTER, SQUID_MULTICALL, FRAXSWAP_FACTORY}"

definition command_for :: "u8 \<Rightarrow> u8 option" where
  "command_for kind =
     (if kind = 0 then Some 0x00
      else if kind = 1 then Some 0x01
      else if kind = 2 then Some 0x08
      else if kind = 3 then Some 0x09
      else if kind = 4 then Some 0x0b
      else if kind = 5 then Some 0x0c
      else if kind = 6 then Some 0x10
      else if kind = 7 then Some 0x21
      else None)"

section \<open>Venues and hook flags\<close>

datatype DexKind =
  DexUniswapV2 | DexUniswapV3 | DexUniswapV4 | DexCurve | DexReservedAerodrome | DexAggregator | DexMorphoBlue | DexAlgebra | DexSolidly | DexCurveNg | DexBalancerV2 | DexMaverickV2 | DexDodoPmm | DexFluidDex | DexBalancerV3 | DexKyberElastic | DexLfjLiquidityBook | DexGmxV2 | DexWombat | DexBebop | DexHashflow | DexWooFi | DexOkxDex | DexEnso | DexSquid | DexLiFi | DexRango | DexRubic | DexNative

definition dex_from_u8 :: "u8 \<Rightarrow> DexKind option" where
  "dex_from_u8 v =
     (if v = 0 then Some DexUniswapV2
      else if v = 1 then Some DexUniswapV3
      else if v = 2 then Some DexUniswapV4
      else if v = 3 then Some DexCurve
      else if v = 4 then Some DexReservedAerodrome
      else if v = 5 then Some DexAggregator
      else if v = 6 then Some DexMorphoBlue
      else if v = 7 then Some DexAlgebra
      else if v = 8 then Some DexSolidly
      else if v = 9 then Some DexCurveNg
      else if v = 10 then Some DexBalancerV2
      else if v = 11 then Some DexMaverickV2
      else if v = 12 then Some DexDodoPmm
      else if v = 13 then Some DexFluidDex
      else if v = 14 then Some DexBalancerV3
      else if v = 15 then Some DexKyberElastic
      else if v = 16 then Some DexLfjLiquidityBook
      else if v = 17 then Some DexGmxV2
      else if v = 18 then Some DexWombat
      else if v = 19 then Some DexBebop
      else if v = 20 then Some DexHashflow
      else if v = 21 then Some DexWooFi
      else if v = 22 then Some DexOkxDex
      else if v = 23 then Some DexEnso
      else if v = 24 then Some DexSquid
      else if v = 25 then Some DexLiFi
      else if v = 26 then Some DexRango
      else if v = 27 then Some DexRubic
      else if v = 28 then Some DexNative
      else None)"

primrec dex_as_u8 :: "DexKind \<Rightarrow> u8" where
  "dex_as_u8 DexUniswapV2 = 0"
| "dex_as_u8 DexUniswapV3 = 1"
| "dex_as_u8 DexUniswapV4 = 2"
| "dex_as_u8 DexCurve = 3"
| "dex_as_u8 DexReservedAerodrome = 4"
| "dex_as_u8 DexAggregator = 5"
| "dex_as_u8 DexMorphoBlue = 6"
| "dex_as_u8 DexAlgebra = 7"
| "dex_as_u8 DexSolidly = 8"
| "dex_as_u8 DexCurveNg = 9"
| "dex_as_u8 DexBalancerV2 = 10"
| "dex_as_u8 DexMaverickV2 = 11"
| "dex_as_u8 DexDodoPmm = 12"
| "dex_as_u8 DexFluidDex = 13"
| "dex_as_u8 DexBalancerV3 = 14"
| "dex_as_u8 DexKyberElastic = 15"
| "dex_as_u8 DexLfjLiquidityBook = 16"
| "dex_as_u8 DexGmxV2 = 17"
| "dex_as_u8 DexWombat = 18"
| "dex_as_u8 DexBebop = 19"
| "dex_as_u8 DexHashflow = 20"
| "dex_as_u8 DexWooFi = 21"
| "dex_as_u8 DexOkxDex = 22"
| "dex_as_u8 DexEnso = 23"
| "dex_as_u8 DexSquid = 24"
| "dex_as_u8 DexLiFi = 25"
| "dex_as_u8 DexRango = 26"
| "dex_as_u8 DexRubic = 27"
| "dex_as_u8 DexNative = 28"

definition dex_kind_for :: "u8 \<Rightarrow> u8" where
  "dex_kind_for kind = (case map_option dex_as_u8 (dex_from_u8 kind) of Some v \<Rightarrow> v | None \<Rightarrow> u_max)"

datatype PathFinderVenue = PfV2 | PfV3 | PfV4 | PfCurve | PfAggregator | PfMorpho | PfSolidly | PfBalancer

primrec executor_dex_kind :: "PathFinderVenue \<Rightarrow> DexKind option" where
  "executor_dex_kind PfV2 = Some DexUniswapV2"
| "executor_dex_kind PfV3 = Some DexUniswapV3"
| "executor_dex_kind PfV4 = Some DexUniswapV4"
| "executor_dex_kind PfCurve = Some DexCurve"
| "executor_dex_kind PfAggregator = Some DexAggregator"
| "executor_dex_kind PfMorpho = Some DexMorphoBlue"
| "executor_dex_kind PfSolidly = Some DexUniswapV2"
| "executor_dex_kind PfBalancer = Some DexAggregator"

definition ALL_HOOK_MASK :: u16 where "ALL_HOOK_MASK = push_bit 14 1 - 1"

definition hook_low_bits :: "u160 \<Rightarrow> u16" where
  \<comment> \<open>\<open>u16::from_be_bytes([bytes[18], bytes[19]])\<close>\<close>
  "hook_low_bits hook = push_bit 8 (ucast (address_byte hook 18)) + ucast (address_byte hook 19)"

definition v4_hook_flags :: "u160 \<Rightarrow> u16" where
  "v4_hook_flags hook = hook_low_bits hook AND ALL_HOOK_MASK"

definition has_v4_hook_flag :: "u160 \<Rightarrow> u16 \<Rightarrow> bool" where
  "has_v4_hook_flag hook flag \<longleftrightarrow> v4_hook_flags hook AND flag \<noteq> 0"

section \<open>Routes\<close>

record found_route =
  rt_path :: "u160 list"
  rt_venues :: "u8 list"
  rt_fees :: "u32 list"
  rt_amount_out :: u256

datatype RouteAbiError = PathTooShort | VenueLengthMismatch | FeeLengthMismatch | FeeTooLarge

definition encode_route_return :: "found_route \<Rightarrow> (u8 list, RouteAbiError) outcome" where
  "encode_route_return route =
     obind (ok_or (if 1 \<le> length (rt_path route) then Some (length (rt_path route) - 1) else None) PathTooShort) (\<lambda>hop_count.
     if hop_count = 0 then Err PathTooShort
     else if length (rt_venues route) \<noteq> hop_count then Err VenueLengthMismatch
     else if length (rt_fees route) \<noteq> hop_count then Err FeeLengthMismatch
     else if list_ex (\<lambda>fee. 0x00ffffff < fee) (rt_fees route) then Err FeeTooLarge
     else
       let path_tail_len = 32 * (1 + length (rt_path route));
           venues_tail_len = 32 * (1 + length (rt_venues route));
           path_offset = 32 * 4;
           venues_offset = path_offset + path_tail_len;
           fees_offset = venues_offset + venues_tail_len
       in Ok (push_usize_word 32 @ push_usize_word path_offset @ push_usize_word venues_offset @ push_usize_word fees_offset
            @ push_u256_word (rt_amount_out route)
            @ push_usize_word (length (rt_path route)) @ concat (map push_address_word (rt_path route))
            @ push_usize_word (length (rt_venues route)) @ concat (map push_u8_word (rt_venues route))
            @ push_usize_word (length (rt_fees route)) @ concat (map (\<lambda>fee. push_u256_word (ucast fee)) (rt_fees route))))"

section \<open>Strategy gates\<close>

datatype PocKind = CometLiquidator | CompoundSilo | DolomiteGeneric | EulerV2Evc | PendleLimitOrderV4 | PendlePySy

definition poc_from_u8 :: "u8 \<Rightarrow> PocKind option" where
  "poc_from_u8 v =
     (if v = 0 then Some CometLiquidator
      else if v = 1 then Some CompoundSilo
      else if v = 2 then Some DolomiteGeneric
      else if v = 3 then Some EulerV2Evc
      else if v = 4 then Some PendleLimitOrderV4
      else if v = 5 then Some PendlePySy
      else None)"

datatype CometValidationError = DeadlinePassed | UnsupportedComet | CometInvalidParams

record PromotionEvidence =
  top_markets_fork_verified :: bool
  router_quote_reproduced :: bool
  raw_fair_value_proven :: bool
  swap_back_proven :: bool
  flash_settlement_proven :: bool
  net_profit_proven :: bool

record CometStaticPlan =
  cp_now :: u256
  cp_comet :: u160
  cp_collateral :: u160
  cp_base_amount :: u256
  cp_borrower_count :: u256
  cp_swap_path_len :: u256
  cp_amount_out_minimum :: u256
  cp_min_profit :: u256
  cp_deadline :: u256

definition COMET_USDC :: u160 where "COMET_USDC = 0x9c4ec768c28520B50860ea7a15bd7213a9fF58bf"
definition COMET_WETH :: u160 where "COMET_WETH = 0x6f7D514bbD4aFf3BcD1140B7344b32f063dEe486"
definition COMET_USDC_E :: u160 where "COMET_USDC_E = 0xA5EDBDD9646f8dFF606d7448e414884C7d905dCA"
definition COMET_USDT :: u160 where "COMET_USDT = 0xd98Be00b5D27fc98112BdE293e487f8D4cA57d07"
definition COMPOUND_SILO_UNRESOLVED_GATE_COUNT :: u64 where "COMPOUND_SILO_UNRESOLVED_GATE_COUNT = 8"
definition DOLOMITE_MISSING_GATE_COUNT :: u64 where "DOLOMITE_MISSING_GATE_COUNT = 3"
definition BEFORE_SWAP_FLAG :: u16 where "BEFORE_SWAP_FLAG = push_bit 7 1"
definition AFTER_SWAP_FLAG :: u16 where "AFTER_SWAP_FLAG = push_bit 6 1"
definition BEFORE_SWAP_RETURNS_DELTA_FLAG :: u16 where "BEFORE_SWAP_RETURNS_DELTA_FLAG = push_bit 3 1"
definition AFTER_SWAP_RETURNS_DELTA_FLAG :: u16 where "AFTER_SWAP_RETURNS_DELTA_FLAG = push_bit 2 1"
definition POC_SWAP_AFFECTING_HOOK_MASK :: u16 where
  "POC_SWAP_AFFECTING_HOOK_MASK =
     BEFORE_SWAP_FLAG OR AFTER_SWAP_FLAG OR BEFORE_SWAP_RETURNS_DELTA_FLAG OR AFTER_SWAP_RETURNS_DELTA_FLAG"
definition GATE_TOP_MARKETS_FORK_VERIFIED :: u64 where "GATE_TOP_MARKETS_FORK_VERIFIED = push_bit 0 1"
definition GATE_ROUTER_QUOTE_REPRODUCED :: u64 where "GATE_ROUTER_QUOTE_REPRODUCED = push_bit 1 1"
definition GATE_RAW_FAIR_VALUE_PROVEN :: u64 where "GATE_RAW_FAIR_VALUE_PROVEN = push_bit 2 1"
definition GATE_SWAP_BACK_PROVEN :: u64 where "GATE_SWAP_BACK_PROVEN = push_bit 3 1"
definition GATE_FLASH_SETTLEMENT_PROVEN :: u64 where "GATE_FLASH_SETTLEMENT_PROVEN = push_bit 4 1"
definition GATE_NET_PROFIT_PROVEN :: u64 where "GATE_NET_PROFIT_PROVEN = push_bit 5 1"

definition is_fail_closed :: "PocKind \<Rightarrow> bool" where
  "is_fail_closed kind \<longleftrightarrow> kind \<noteq> CometLiquidator"

definition strategy_confirmed :: "PocKind \<Rightarrow> bool" where
  "strategy_confirmed kind = (case kind of CometLiquidator \<Rightarrow> False | _ \<Rightarrow> False)"

definition missing_gate_count :: "PocKind \<Rightarrow> u256" where
  "missing_gate_count kind =
     ucast (case kind of
        CometLiquidator \<Rightarrow> (0 :: u64)
      | CompoundSilo \<Rightarrow> COMPOUND_SILO_UNRESOLVED_GATE_COUNT
      | DolomiteGeneric \<Rightarrow> DOLOMITE_MISSING_GATE_COUNT
      | EulerV2Evc \<Rightarrow> 5
      | PendleLimitOrderV4 \<Rightarrow> 4
      | PendlePySy \<Rightarrow> 6)"

definition requires_hook_classification :: "u160 \<Rightarrow> bool" where
  "requires_hook_classification hook \<longleftrightarrow> hook_low_bits hook AND POC_SWAP_AFFECTING_HOOK_MASK \<noteq> 0"

definition pendle_py_sy_missing_gates :: "PromotionEvidence \<Rightarrow> u256" where
  "pendle_py_sy_missing_gates evidence =
     (let missing = 0;
          missing = (if \<not> top_markets_fork_verified evidence then missing OR GATE_TOP_MARKETS_FORK_VERIFIED else missing);
          missing = (if \<not> router_quote_reproduced evidence then missing OR GATE_ROUTER_QUOTE_REPRODUCED else missing);
          missing = (if \<not> raw_fair_value_proven evidence then missing OR GATE_RAW_FAIR_VALUE_PROVEN else missing);
          missing = (if \<not> swap_back_proven evidence then missing OR GATE_SWAP_BACK_PROVEN else missing);
          missing = (if \<not> flash_settlement_proven evidence then missing OR GATE_FLASH_SETTLEMENT_PROVEN else missing);
          missing = (if \<not> net_profit_proven evidence then missing OR GATE_NET_PROFIT_PROVEN else missing)
      in ucast missing)"

definition is_supported_comet :: "u160 \<Rightarrow> bool" where
  "is_supported_comet comet \<longleftrightarrow> comet = COMET_USDC \<or> comet = COMET_WETH \<or> comet = COMET_USDC_E \<or> comet = COMET_USDT"

definition validate_comet_static_plan :: "CometStaticPlan \<Rightarrow> (unit, CometValidationError) outcome" where
  "validate_comet_static_plan plan =
     (if cp_deadline plan < cp_now plan then Err DeadlinePassed
      else if \<not> is_supported_comet (cp_comet plan) then Err UnsupportedComet
      else case checked_add (cp_base_amount plan) (cp_min_profit plan) of
        None \<Rightarrow> Err CometInvalidParams
      | Some required_output \<Rightarrow>
          if cp_collateral plan = 0 \<or> cp_base_amount plan = 0 \<or> cp_borrower_count plan = 0 \<or> cp_swap_path_len plan < 43
             \<or> cp_min_profit plan = 0 \<or> cp_amount_out_minimum plan < required_output
          then Err CometInvalidParams else Ok ())"

section \<open>Hooks\<close>

lemma bit_hook_low_bits: "i < 16 \<Longrightarrow> bit (hook_low_bits hook) i \<longleftrightarrow> bit hook i"
  unfolding hook_low_bits_def by (rule bit_low_bits)

lemma bit_poc_mask: "bit POC_SWAP_AFFECTING_HOOK_MASK i \<longleftrightarrow> i = 2 \<or> i = 3 \<or> i = 6 \<or> i = 7"
  unfolding POC_SWAP_AFFECTING_HOOK_MASK_def BEFORE_SWAP_FLAG_def AFTER_SWAP_FLAG_def
    BEFORE_SWAP_RETURNS_DELTA_FLAG_def AFTER_SWAP_RETURNS_DELTA_FLAG_def
  by (auto simp: bit_or_iff bit_exp_iff simp del: power_numeral)

lemma and_nonzero_iff: "(a :: u16) AND m \<noteq> 0 \<longleftrightarrow> (\<exists>i < 16. bit a i \<and> bit m i)"
  by (auto simp: bit_eq_iff [where ?'a = u16] bit_and_iff)

lemma bit_all_hooks: "bit ALL_HOOK_MASK i \<longleftrightarrow> i < 14"
  unfolding ALL_HOOK_MASK_def by (auto simp: bit_mask_iff simp flip: mask_eq_exp_minus_1)

text \<open>
  The three hook classifiers of the repository agree: the strategy gate, the flag test over the swap permissions and the test
  in front of the V4 quote ask for the slow path on the same hook addresses, those with bit 2, 3, 6 or 7 set.
\<close>

theorem hook_classifiers_agree:
  "requires_hook_classification hook = has_v4_hook_flag hook POC_SWAP_AFFECTING_HOOK_MASK
   \<and> requires_hook_classification (v4_hooks pool) = requires_revm_step pool
   \<and> (requires_hook_classification hook \<longleftrightarrow> bit hook 2 \<or> bit hook 3 \<or> bit hook 6 \<or> bit hook 7)"
proof (intro conjI)
  have r: "requires_hook_classification h \<longleftrightarrow> bit h 2 \<or> bit h 3 \<or> bit h 6 \<or> bit h 7" for h
    unfolding requires_hook_classification_def and_nonzero_iff
    by (auto simp: bit_poc_mask bit_hook_low_bits conj_disj_distribL ex_disj_distrib)
  then show "requires_hook_classification hook \<longleftrightarrow> bit hook 2 \<or> bit hook 3 \<or> bit hook 6 \<or> bit hook 7" .
  show "requires_hook_classification (v4_hooks pool) = requires_revm_step pool"
    unfolding r requires_revm_step_iff ..
  show "requires_hook_classification hook = has_v4_hook_flag hook POC_SWAP_AFFECTING_HOOK_MASK"
    unfolding r has_v4_hook_flag_def v4_hook_flags_def and_nonzero_iff
    by (auto simp: bit_poc_mask bit_and_iff bit_all_hooks bit_hook_low_bits conj_disj_distribL ex_disj_distrib)
qed

section \<open>Registry\<close>

lemma router_kind_codes: "router_kind_from_u8 v = Some k \<longleftrightarrow> v = router_kind_as_u8 k"
  by (cases k) (auto simp: router_kind_from_u8_def)

lemma dex_codes: "dex_from_u8 v = Some k \<longleftrightarrow> v = dex_as_u8 k"
  by (cases k) (auto simp: dex_from_u8_def)

text \<open>
  The registry is closed and unambiguous: the ordinals of router kinds and venues are read back as what they were
  written for, every kind has a router the registry knows, and no two kinds share one; the venue table is the
  identity on the ordinals it knows and 255 elsewhere.
\<close>

theorem registry_closed:
  "(router_kind_from_u8 v = Some k \<longleftrightarrow> v = router_kind_as_u8 k) \<and> is_known (router_for k)
   \<and> (router_for k = router_for l \<longleftrightarrow> k = l) \<and> dex_kind_for v = (if v \<le> 28 then v else 255)"
proof (intro conjI)
  show "is_known (router_for k)" by (cases k) (simp_all add: is_known_def)
  show "router_for k = router_for l \<longleftrightarrow> k = l" by (cases k; cases l) (simp_all add: router_addresses)
  show "dex_kind_for v = (if v \<le> 28 then v else 255)"
  proof (cases "dex_from_u8 v")
    case None
    have "\<forall>n \<in> set [0 ..< 29]. dex_from_u8 (word_of_nat n) \<noteq> None" by (simp add: upt_rec dex_from_u8_def)
    then have "dex_from_u8 (word_of_nat (unat v)) \<noteq> None" if "unat v < 29" using that by (metis atLeastLessThan_iff le0 set_upt)
    then have "\<not> unat v < 29" using None by auto
    then show ?thesis using None by (simp add: dex_kind_for_def u_max_def word_le_nat_alt)
  next
    case (Some d)
    then have "v = dex_as_u8 d" by (simp only: dex_codes)
    moreover have "dex_as_u8 d \<le> 28" by (cases d) simp_all
    ultimately show ?thesis using Some by (simp add: dex_kind_for_def)
  qed
qed (rule router_kind_codes)

section \<open>Gates\<close>

text \<open>
  A Comet plan passes the static gate exactly when it is in time, names one of the four supported markets, has a
  collateral, an amount, a borrower, a swap path of at least one hop and a positive profit, and asks the swap for at
  least the repayment and that profit, added without wrapping.
\<close>

theorem comet_plan_exact:
  "validate_comet_static_plan plan = Ok () \<longleftrightarrow>
     cp_now plan \<le> cp_deadline plan \<and> is_supported_comet (cp_comet plan) \<and> cp_collateral plan \<noteq> 0
     \<and> cp_base_amount plan \<noteq> 0 \<and> cp_borrower_count plan \<noteq> 0 \<and> 43 \<le> cp_swap_path_len plan \<and> cp_min_profit plan \<noteq> 0
     \<and> unat (cp_base_amount plan) + unat (cp_min_profit plan) \<le> unat (cp_amount_out_minimum plan)"
  using unat_bound [of "cp_amount_out_minimum plan"]
  by (auto simp: validate_comet_static_plan_def checked_add_def not_less word_le_nat_alt word_less_nat_alt unat_word_ariths
      split: option.split if_splits)

lemma missing_gates_bit:
  "bit (pendle_py_sy_missing_gates e) i \<longleftrightarrow>
     i < 6 \<and> \<not> [top_markets_fork_verified e, router_quote_reproduced e, raw_fair_value_proven e, swap_back_proven e,
       flash_settlement_proven e, net_profit_proven e] ! i"
proof -
  note D = pendle_py_sy_missing_gates_def Let_def GATE_TOP_MARKETS_FORK_VERIFIED_def GATE_ROUTER_QUOTE_REPRODUCED_def
    GATE_RAW_FAIR_VALUE_PROVEN_def GATE_SWAP_BACK_PROVEN_def GATE_FLASH_SETTLEMENT_PROVEN_def GATE_NET_PROFIT_PROVEN_def
  consider "i = 0" | "i = 1" | "i = 2" | "i = 3" | "i = 4" | "i = 5" | "6 \<le> i" by linarith
  then show ?thesis
    by cases (auto simp: D bit_ucast_iff bit_or_iff bit_push_bit_iff bit_exp_iff bit_1_iff bit_2_iff simp del: power_numeral)
qed

section \<open>Routes\<close>

definition encode_u8_array :: "u8 list \<Rightarrow> u8 list" where
  "encode_u8_array vs = push_usize_word (length vs) @ concat (map push_u8_word vs)"

definition encode_u24_array :: "u32 list \<Rightarrow> u8 list" where
  "encode_u24_array vs = push_usize_word (length vs) @ concat (map (\<lambda>fee. push_u256_word (ucast fee)) vs)"

interpretation venues_code: prefix_code encode_u8_array "\<lambda>vs. length vs < 2 ^ 256"
  by unfold_locales (auto simp: encode_u8_array_def usize_eq small_code.sequence list_all_iff)

lemma ucast_fee_inj: "(ucast (f :: u32) :: u256) = ucast g \<longleftrightarrow> f = g"
  by (rule iffI) (auto dest: arg_cong [of _ _ "ucast :: u256 \<Rightarrow> u32"] simp: ucast_up_ucast_id is_up)

interpretation fee_code: fixed_code "\<lambda>fee :: u32. push_u256_word (ucast fee)" 32
  by unfold_locales (simp_all add: ucast_fee_inj)

interpretation fees_code: prefix_code encode_u24_array "\<lambda>vs. length vs < 2 ^ 256"
  by unfold_locales (auto simp: encode_u24_array_def usize_eq fee_code.sequence list_all_iff)

lemma route_return_Ok:
  assumes "encode_route_return r = Ok bs"
  shows "\<exists>head. length head = 128 \<and> bs = head @ push_u256_word (rt_amount_out r)
      @ encode_address_array (rt_path r) @ encode_u8_array (rt_venues r) @ encode_u24_array (rt_fees r)"
    and "length (rt_venues r) < length (rt_path r)" "length (rt_fees r) < length (rt_path r)"
proof -
  have ok: "encode_route_return r = Ok bs" by (rule assms)
  show "length (rt_venues r) < length (rt_path r)" "length (rt_fees r) < length (rt_path r)"
    using ok by (auto simp: encode_route_return_def Let_def ok_or_eq_Ok obind_eq_Ok split: if_splits)
  have e: "bs = (push_usize_word 32 @ push_usize_word (32 * 4) @ push_usize_word (32 * 4 + 32 * (1 + length (rt_path r)))
      @ push_usize_word (32 * 4 + 32 * (1 + length (rt_path r)) + 32 * (1 + length (rt_venues r))))
      @ push_u256_word (rt_amount_out r)
      @ encode_address_array (rt_path r) @ encode_u8_array (rt_venues r) @ encode_u24_array (rt_fees r)"
    using ok unfolding encode_route_return_def Let_def encode_address_array_def encode_u8_array_def encode_u24_array_def
    by (auto simp only: obind_eq_Ok ok_or_eq_Ok outcome.inject append_assoc split: if_splits)
  show "\<exists>head. length head = 128 \<and> bs = head @ push_u256_word (rt_amount_out r)
      @ encode_address_array (rt_path r) @ encode_u8_array (rt_venues r) @ encode_u24_array (rt_fees r)"
    by (rule exI, rule conjI [OF _ e]) simp
qed

text \<open>
  An encoded route determines the route: two routes that encode to the same bytes are equal.
\<close>

theorem route_return_injective:
  assumes "encode_route_return r = Ok bs" "encode_route_return s = Ok bs"
    and "length (rt_path r) < 2 ^ 64" "length (rt_path s) < 2 ^ 64"
  shows "r = s"
proof -
  note R = route_return_Ok [OF assms(1)] and S = route_return_Ok [OF assms(2)]
  have big: "n < 2 ^ 256" if "n \<le> m" "m < 2 ^ 64" for m n :: nat
    using that by (simp add: power_numeral)
  have l: "length (rt_path r) < 2 ^ 256" "length (rt_path s) < 2 ^ 256" "length (rt_venues r) < 2 ^ 256" "length (rt_venues s) < 2 ^ 256"
    "length (rt_fees r) < 2 ^ 256" "length (rt_fees s) < 2 ^ 256"
    using big [OF _ assms(3)] big [OF _ assms(4)] R(2,3) S(2,3) by (meson less_imp_le order_refl)+
  obtain h k where "length h = 128" "length k = 128" and "h @ push_u256_word (rt_amount_out r)
        @ encode_address_array (rt_path r) @ encode_u8_array (rt_venues r) @ encode_u24_array (rt_fees r)
      = k @ push_u256_word (rt_amount_out s)
        @ encode_address_array (rt_path s) @ encode_u8_array (rt_venues s) @ encode_u24_array (rt_fees s)"
    using R(1) S(1) by metis
  then show ?thesis
    using l by (simp add: addresses_code.cancel_iff venues_code.cancel_iff fees_code.inj_iff found_route.equality)
qed

theorem route_return_injective_witness:
  "\<exists>bs. encode_route_return \<lparr>rt_path = [1, 2], rt_venues = [1], rt_fees = [500], rt_amount_out = 9\<rparr> = Ok bs
     \<and> (\<forall>v. encode_route_return \<lparr>rt_path = [1, 2], rt_venues = [v], rt_fees = [500], rt_amount_out = 9\<rparr> = Ok bs \<longrightarrow> v = 1)"
proof -
  let ?r = "\<lambda>v. \<lparr>rt_path = [1, 2], rt_venues = [v], rt_fees = [500], rt_amount_out = 9\<rparr>"
  obtain bs where "encode_route_return (?r 1) = Ok bs" by (simp add: encode_route_return_def Let_def)
  then show ?thesis using route_return_injective [of "?r 1" bs "?r v" for v] by (auto simp: power_numeral)
qed

end
