(* ===== verification/Pool_Adapter.thy ===== *)
theory Pool_Adapter
  imports Calldata
begin

text \<open>
  The Stylus pool adapter, \<open>src/stylus/pool_adapter/src/lib.rs\<close>: a contract that keeps the address of one
  pool and reads its state through static calls. The contract's storage is a record, a transaction that
  returns an error is reverted and leaves it unchanged. The host (static calls and \<open>keccak256\<close>) is a parameter;
  \<open>usize\<close> has the 32 bits of the contract target.

  The lemmas show that the strict readers accept exactly the canonical encodings, who can change the
  pool, and what the V4 reader makes of an ABI-encoded array.
\<close>

unbundle bit_operations_syntax

section \<open>Storage, host and errors\<close>

record PoolAdapter =
  pa_owner :: u160
  pa_pool :: u160
  pa_initialized :: bool

record pool_host =
  ph_static_call :: "u160 \<Rightarrow> u8 list \<Rightarrow> u8 list option" \<comment> \<open>\<open>None\<close>: the call failed\<close>
  ph_keccak :: "u8 list \<Rightarrow> u256"
  ph_from_long_slice :: "u8 list \<Rightarrow> u256 option" \<comment> \<open>\<open>U256::from_be_slice\<close> on more than 32 bytes, \<open>None\<close> when it panics\<close>

datatype PoolAdapterError =
  AlreadyInitialized | Unauthorized u160 | ZeroPoolAddress | PoolStaticCallFailed | InvalidV2ReturnData | InvalidV3ReturnData

type_synonym 'a pa_result = "('a, PoolAdapterError) outcome"

definition GET_RESERVES_SELECTOR :: "u8 list" where "GET_RESERVES_SELECTOR = [0x09, 0x02, 0xf1, 0xac]"
definition SLOT0_SELECTOR :: "u8 list" where "SLOT0_SELECTOR = [0x38, 0x50, 0xc7, 0xbd]"
definition LIQUIDITY_SELECTOR :: "u8 list" where "LIQUIDITY_SELECTOR = [0x1a, 0x68, 0x65, 0x02]"

section \<open>Ownership\<close>

definition ensure_nonzero_pool :: "u160 \<Rightarrow> unit pa_result" where
  "ensure_nonzero_pool pool = (if pool = 0 then Err ZeroPoolAddress else Ok ())"

definition only_owner :: "u160 \<Rightarrow> PoolAdapter \<Rightarrow> unit pa_result" where
  "only_owner caller st = (if caller \<noteq> pa_owner st then Err (Unauthorized caller) else Ok ())"

definition initialize :: "u160 \<Rightarrow> u160 \<Rightarrow> PoolAdapter \<Rightarrow> PoolAdapter pa_result" where
  \<comment> \<open>the first argument is \<open>msg_sender\<close>\<close>
  "initialize msg_sender pool st =
     (if pa_initialized st then Err AlreadyInitialized
      else obind (ensure_nonzero_pool pool) (\<lambda>_.
        Ok (st\<lparr>pa_owner := msg_sender, pa_pool := pool, pa_initialized := True\<rparr>)))"

definition set_pool :: "u160 \<Rightarrow> u160 \<Rightarrow> PoolAdapter \<Rightarrow> PoolAdapter pa_result" where
  "set_pool msg_sender pool st =
     obind (only_owner msg_sender st) (\<lambda>_.
     obind (ensure_nonzero_pool pool) (\<lambda>_. Ok (st\<lparr>pa_pool := pool\<rparr>)))"

section \<open>Readers of returned words\<close>

definition get_word :: "u8 list \<Rightarrow> nat \<Rightarrow> u8 list option" where
  \<comment> \<open>\<open>data.get(offset..offset.checked_add(32)?)?\<close>\<close>
  "get_word data offset = Option.bind (checked_end (2 ^ 32) offset 32) (get_range data offset)"

definition read_uint128_with_max_prefix :: "u8 list \<Rightarrow> nat \<Rightarrow> nat \<Rightarrow> u128 option" where
  "read_uint128_with_max_prefix data offset zero_prefix_len =
     Option.bind (get_word data offset) (\<lambda>word.
       if list_ex (\<lambda>b. b \<noteq> 0) (take zero_prefix_len word) then None else Some (from_be (drop 16 word)))"

definition read_uint112 :: "u8 list \<Rightarrow> nat \<Rightarrow> u128 option" where
  "read_uint112 data offset = read_uint128_with_max_prefix data offset 18"

definition read_uint128 :: "u8 list \<Rightarrow> nat \<Rightarrow> u128 option" where
  "read_uint128 data offset = read_uint128_with_max_prefix data offset 16"

definition read_uint160_as_u256 :: "u8 list \<Rightarrow> nat \<Rightarrow> u256 option" where
  "read_uint160_as_u256 data offset =
     Option.bind (get_word data offset) (\<lambda>word.
       if list_ex (\<lambda>b. b \<noteq> 0) (take 12 word) then None else Some (from_be word))"

definition read_uint32 :: "u8 list \<Rightarrow> nat \<Rightarrow> u32 option" where
  "read_uint32 data offset =
     Option.bind (get_word data offset) (\<lambda>word.
       if list_ex (\<lambda>b. b \<noteq> 0) (take 28 word) then None else Some (from_be (drop 28 word)))"

definition read_int24_from_3bytes :: "u8 list \<Rightarrow> i32" where
  "read_int24_from_3bytes bytes =
     (let raw = from_be (0 # bytes) :: u32
      in sint (if raw AND 0x00800000 = 0 then raw else raw OR NOT 0x00ffffff))"

definition read_int24 :: "u8 list \<Rightarrow> nat \<Rightarrow> i32 option" where
  "read_int24 data offset =
     Option.bind (get_word data offset) (\<lambda>word.
       let sign = (if (word ! 29) AND 0x80 = 0 then 0x00 else 0xff)
       in if list_ex (\<lambda>b. b \<noteq> sign) (take 29 word) then None
          else
            let raw = from_be (0 # drop 29 word) :: u32
            in if raw AND 0x00800000 = 0 then Some (sint raw) else Some (sint (raw OR NOT 0x00ffffff)))"

definition from_be_slice :: "pool_host \<Rightarrow> u8 list \<Rightarrow> u256 pa_result" where
  \<comment> \<open>\<open>U256::from_be_slice\<close>\<close>
  "from_be_slice H bs =
     (if length bs \<le> 32 then Ok (from_be bs)
      else case ph_from_long_slice H bs of Some v \<Rightarrow> Ok v | None \<Rightarrow> Panic)"

section \<open>Pool state\<close>

definition pool_call :: "pool_host \<Rightarrow> u160 \<Rightarrow> u8 list \<Rightarrow> (u8 list) pa_result" where
  \<comment> \<open>\<open>static_call(..).map_err(|_| PoolStaticCallFailed)\<close>\<close>
  "pool_call H target calldata = ok_or (ph_static_call H target calldata) PoolStaticCallFailed"

definition read_pool :: "pool_host \<Rightarrow> PoolAdapter \<Rightarrow> u8 list \<Rightarrow> (u8 list) pa_result" where
  "read_pool H st calldata = (if pa_pool st = 0 then Err ZeroPoolAddress else pool_call H (pa_pool st) calldata)"

definition read_v2_reserves :: "pool_host \<Rightarrow> PoolAdapter \<Rightarrow> (u128 \<times> u128 \<times> u32) pa_result" where
  "read_v2_reserves H st =
     (if pa_pool st = 0 then Err ZeroPoolAddress
      else
        obind (pool_call H (pa_pool st) GET_RESERVES_SELECTOR) (\<lambda>data.
        if length data < 96 then Err InvalidV2ReturnData
        else
          obind (ok_or (read_uint112 data 0) InvalidV2ReturnData) (\<lambda>r0.
          obind (ok_or (read_uint112 data 32) InvalidV2ReturnData) (\<lambda>r1.
          obind (ok_or (read_uint32 data 64) InvalidV2ReturnData) (\<lambda>t. Ok (r0, r1, t))))))"

definition read_v3_state :: "pool_host \<Rightarrow> PoolAdapter \<Rightarrow> (u256 \<times> i32 \<times> u128) pa_result" where
  "read_v3_state H st =
     (if pa_pool st = 0 then Err ZeroPoolAddress
      else
        obind (pool_call H (pa_pool st) SLOT0_SELECTOR) (\<lambda>slot0_data.
        if length slot0_data < 224 then Err InvalidV3ReturnData
        else
          obind (pool_call H (pa_pool st) LIQUIDITY_SELECTOR) (\<lambda>liquidity_data.
          if length liquidity_data < 32 then Err InvalidV3ReturnData
          else
            obind (ok_or (read_uint160_as_u256 slot0_data 0) InvalidV3ReturnData) (\<lambda>p.
            obind (ok_or (read_int24 slot0_data 32) InvalidV3ReturnData) (\<lambda>t.
            obind (ok_or (read_uint128 liquidity_data 0) InvalidV3ReturnData) (\<lambda>l. Ok (p, t, l)))))))"

definition extsload_calldata :: "pool_host \<Rightarrow> u256 \<Rightarrow> u8 list" where
  "extsload_calldata H pool_id =
     (let state_slot = ph_keccak H (to_be_bytes pool_id @ replicate 28 0 @ to_be_bytes (6 :: u32))
      in [0x14, 0x0e, 0xd9, 0x7c] @ to_be_bytes state_slot @ replicate 31 0 @ [4])"

definition read_v4_state :: "pool_host \<Rightarrow> PoolAdapter \<Rightarrow> u256 \<Rightarrow> (u256 \<times> i32 \<times> u128) pa_result" where
  "read_v4_state H st pool_id =
     (if pa_pool st = 0 then Err ZeroPoolAddress
      else
        obind (pool_call H (pa_pool st) (extsload_calldata H pool_id)) (\<lambda>data.
        if length data < 160 then Err PoolStaticCallFailed
        else
          let slot0 = take 32 (drop 32 data)
          in obind (from_be_slice H (drop 12 slot0)) (\<lambda>sqrt_price_x96.
             let tick = read_int24_from_3bytes [slot0 ! 9, slot0 ! 10, slot0 ! 11];
                 liquidity_word = take 32 (drop 128 data);
                 liquidity = from_be (drop 16 liquidity_word)
             in Ok (sqrt_price_x96, tick, liquidity))))"

definition read_balance :: "pool_host \<Rightarrow> u160 \<Rightarrow> nat \<Rightarrow> u256 pa_result" where
  \<comment> \<open>one turn of the loop of \<open>read_curve_state\<close>\<close>
  "read_balance H pool i =
     obind (pool_call H pool ([0x4f, 0x03, 0xaa, 0x3d] @ replicate 31 0 @ [word_of_nat i])) (\<lambda>res.
     if length res < 32 then Err PoolStaticCallFailed else from_be_slice H res)"

definition read_curve_state :: "pool_host \<Rightarrow> PoolAdapter \<Rightarrow> u8 \<Rightarrow> (u256 list \<times> u256) pa_result" where
  "read_curve_state H st n_coins =
     (if pa_pool st = 0 then Err ZeroPoolAddress
      else
        obind (collect (read_balance H (pa_pool st)) [0 ..< unat n_coins]) (\<lambda>balances.
        obind (pool_call H (pa_pool st) [0xf4, 0x46, 0xc1, 0xd0]) (\<lambda>a_res.
        if length a_res < 32 then Err PoolStaticCallFailed
        else obind (from_be_slice H a_res) (\<lambda>a. Ok (balances, a)))))"

section \<open>Who chooses the pool\<close>

datatype pool_call_msg = Initialize u160 u160 | SetPool u160 u160 \<comment> \<open>sender, pool\<close>

primrec transact :: "pool_call_msg \<Rightarrow> PoolAdapter \<Rightarrow> PoolAdapter" where
  \<comment> \<open>a failing transaction is reverted\<close>
  "transact (Initialize s p) st = (case initialize s p st of Ok st' \<Rightarrow> st' | _ \<Rightarrow> st)"
| "transact (SetPool s p) st = (case set_pool s p st of Ok st' \<Rightarrow> st' | _ \<Rightarrow> st)"

definition deployed :: PoolAdapter where
  "deployed = \<lparr>pa_owner = 0, pa_pool = 0, pa_initialized = False\<rparr>"

primrec sender :: "pool_call_msg \<Rightarrow> u160" where
  "sender (Initialize s p) = s"
| "sender (SetPool s p) = s"

primrec takes_ownership :: "pool_call_msg \<Rightarrow> bool" where
  "takes_ownership (Initialize s p) \<longleftrightarrow> p \<noteq> 0"
| "takes_ownership (SetPool s p) \<longleftrightarrow> False"

primrec owner_choice :: "u160 \<Rightarrow> pool_call_msg \<Rightarrow> u160 list" where
  "owner_choice owner (Initialize s p) = []"
| "owner_choice owner (SetPool s p) = (if s = owner \<and> p \<noteq> 0 then [p] else [])"

fun adapter_after :: "pool_call_msg list \<Rightarrow> PoolAdapter" where
  \<comment> \<open>the first initialisation with a pool decides the owner, whose last choice is the pool\<close>
  "adapter_after [] = deployed"
| "adapter_after (Initialize s p # ms) =
     (if p \<noteq> 0 then \<lparr>pa_owner = s, pa_pool = last (p # concat (map (owner_choice s) ms)), pa_initialized = True\<rparr>
      else adapter_after ms)"
| "adapter_after (SetPool s p # ms) = adapter_after ms"

lemma transact_initialized:
  "fold transact ms \<lparr>pa_owner = s, pa_pool = p, pa_initialized = True\<rparr>
     = \<lparr>pa_owner = s, pa_pool = last (p # concat (map (owner_choice s) ms)), pa_initialized = True\<rparr>"
proof (induction ms arbitrary: p)
  case (Cons m ms)
  show ?case
  proof (cases m)
    case (Initialize t q)
    then show ?thesis using Cons [of p] by (simp add: initialize_def)
  next
    case (SetPool t q)
    then show ?thesis using Cons [of p] Cons [of q]
      by (auto simp: set_pool_def only_owner_def ensure_nonzero_pool_def)
  qed
qed simp

text \<open>
  C26. Whatever transactions reach a freshly deployed adapter, in whatever order: its state is decided by the
  first initialisation with a nonzero pool, whose sender owns it for ever, and the pool is the last nonzero
  one that owner has set. Nothing else changes the state. (The zero address sends no transactions.)
\<close>

theorem pool_adapter_owned:
  assumes "\<forall>m \<in> set ms. sender m \<noteq> 0"
  shows "fold transact ms deployed = adapter_after ms"
  using assms
proof (induction ms rule: adapter_after.induct)
  case (2 s p ms)
  then show ?case
    by (cases "p = 0")
      (simp_all add: initialize_def ensure_nonzero_pool_def transact_initialized deployed_def)
next
  case (3 s p ms)
  then have "transact (SetPool s p) deployed = deployed" by (simp add: set_pool_def only_owner_def deployed_def)
  then show ?case using 3 by simp
qed simp

theorem pool_adapter_owned_witness:
  "fold transact [SetPool 5 9, Initialize 1 7, Initialize 2 8, SetPool 2 8, SetPool 1 9] deployed
     = \<lparr>pa_owner = 1, pa_pool = 9, pa_initialized = True\<rparr>"
  using pool_adapter_owned [of "[SetPool 5 9, Initialize 1 7, Initialize 2 8, SetPool 2 8, SetPool 1 9]"] by simp

section \<open>Strict readers\<close>

lemma be_value_eq_0: "be_value bs = 0 \<longleftrightarrow> \<not> list_ex (\<lambda>b. b \<noteq> 0) bs"
  by (induction bs) (auto simp: unat_eq_0)

lemma be_value_all_ones: "be_value (replicate n 0xff) + 1 = 256 ^ n"
  by (induction n) (simp_all add: unat_numeral)

lemma be_value_eq_max:
  assumes "length bs = n"
  shows "be_value bs + 1 = 256 ^ n \<longleftrightarrow> \<not> list_ex (\<lambda>b. b \<noteq> 0xff) bs"
proof
  assume "be_value bs + 1 = 256 ^ n"
  then have "be_value bs = be_value (replicate n 0xff)" using be_value_all_ones [of n] by linarith
  then have "bs = replicate n 0xff" using be_value_inj assms by (metis length_replicate)
  then show "\<not> list_ex (\<lambda>b. b \<noteq> 0xff) bs" by (simp add: list_ex_iff)
next
  assume "\<not> list_ex (\<lambda>b. b \<noteq> 0xff) bs"
  then have "bs = replicate n 0xff" using assms by (simp add: list_ex_iff replicate_eqI)
  then show "be_value bs + 1 = 256 ^ n" using be_value_all_ones by blast
qed

lemma be_value_split: "be_value bs = be_value (take k bs) * 256 ^ (length bs - k) + be_value (drop k bs)"
  using be_value_append [of "take k bs" "drop k bs"] by simp

lemma zero_prefix:
  assumes "k \<le> length bs"
  shows "\<not> list_ex (\<lambda>b. b \<noteq> 0) (take k bs) \<longleftrightarrow> be_value bs < 256 ^ (length bs - k)"
proof -
  have b: "be_value (drop k bs) < 256 ^ (length bs - k)" using be_value_bound [of "drop k bs"] by simp
  show ?thesis
    unfolding be_value_eq_0 [symmetric] be_value_split [of bs k]
    using b by (cases "be_value (take k bs)") simp_all
qed

lemma zero_prefix_drop:
  assumes "\<not> list_ex (\<lambda>b. b \<noteq> 0) (take k bs)" "j \<le> k"
  shows "be_value (drop j bs) = be_value bs"
proof -
  have "\<not> list_ex (\<lambda>b. b \<noteq> 0) (take j bs)" using assms set_take_subset_set_take [of j k bs] by (auto simp: list_ex_iff)
  then show ?thesis using be_value_split [of bs j] by (simp flip: be_value_eq_0)
qed

lemma word_bytes_iff:
  assumes "length w = 32"
  shows "w = to_be_bytes (x :: u256) \<longleftrightarrow> be_value w = unat x"
proof
  assume "be_value w = unat x"
  then have "be_value w = be_value (to_be_bytes x)" by (simp add: be_value_to_be_bytes)
  then show "w = to_be_bytes x" by (intro be_value_inj) (simp_all add: assms)
qed (simp add: be_value_to_be_bytes)

lemma get_word_length: "get_word data offset = Some w \<Longrightarrow> length w = 32"
  by (auto simp: get_word_def get_range_def checked_end_def bind_eq_Some_conv split: if_splits)

lemma read_uint128_iff:
  assumes "16 \<le> z" "z \<le> 32"
  shows "read_uint128_with_max_prefix data offset z = Some v \<longleftrightarrow>
    get_word data offset = Some (to_be_bytes (ucast v :: u256)) \<and> unat v < 256 ^ (32 - z)"
proof (cases "get_word data offset")
  case (Some w)
  have l: "length w = 32" using Some by (rule get_word_length)
  have b: "(256 :: nat) ^ (32 - z) \<le> 256 ^ 16" using assms by (intro power_increasing) auto
  have u: "unat (ucast v :: u256) = unat v" by (rule unat_ucast_wider) simp
  have "\<not> list_ex (\<lambda>b. b \<noteq> 0) (take z w) \<Longrightarrow> unat (from_be (drop 16 w) :: u128) = be_value w"
    using zero_prefix [of z w] zero_prefix_drop [of z w 16] assms l b
    by (simp add: from_be_def unat_word_of_nat power_numeral)
  then show ?thesis
    using Some zero_prefix [of z w] assms l word_bytes_iff [OF l, of "ucast v"] u
    by (auto simp: read_uint128_with_max_prefix_def word_unat_eq_iff)
qed (simp add: read_uint128_with_max_prefix_def)

lemma read_uint160_iff:
  "read_uint160_as_u256 data offset = Some v \<longleftrightarrow> get_word data offset = Some (to_be_bytes v) \<and> unat v < 2 ^ 160"
proof (cases "get_word data offset")
  case (Some w)
  have l: "length w = 32" using Some by (rule get_word_length)
  have p: "(256 :: nat) ^ 20 = 2 ^ 160" by (simp add: power_numeral)
  have "to_be_bytes (from_be w :: u256) = w" by (rule to_be_bytes_from_be) (simp_all add: l)
  then show ?thesis
    using Some zero_prefix [of 12 w] l p word_bytes_iff [OF l, of v]
    by (auto simp: read_uint160_as_u256_def)
      (metis be256.injective word_bytes_iff)+
qed (simp add: read_uint160_as_u256_def)

lemma read_uint32_iff:
  "read_uint32 data offset = Some v \<longleftrightarrow> get_word data offset = Some (to_be_bytes (ucast v :: u256))"
proof (cases "get_word data offset")
  case (Some w)
  have l: "length w = 32" using Some by (rule get_word_length)
  have u: "unat (ucast v :: u256) = unat v" by (rule unat_ucast_wider) simp
  have "unat v < 256 ^ 4" using unat_bound [of v] by (simp add: power_numeral)
  moreover have "\<not> list_ex (\<lambda>b. b \<noteq> 0) (take 28 w) \<Longrightarrow> unat (from_be (drop 28 w) :: u32) = be_value w"
    using zero_prefix [of 28 w] zero_prefix_drop [of 28 w 28] l
    by (simp add: from_be_def unat_word_of_nat power_numeral)
  ultimately show ?thesis
    using Some zero_prefix [of 28 w] l word_bytes_iff [OF l, of "ucast v"] u
    by (auto simp: read_uint32_def word_unat_eq_iff)
qed (simp add: read_uint32_def)

lemma bit_odd_unat: "bit (w :: 'a::len word) n \<longleftrightarrow> odd (unat w div 2 ^ n)"
  by (simp only: bit_iff_odd [symmetric]) (simp add: bit_unsigned_iff)

lemma even_top: "x < 2 * m \<Longrightarrow> even (x div m) \<longleftrightarrow> x < (m :: nat)"
  by (cases "x < m") (auto simp: le_div_geq not_less)

lemma byte_sign: "(b :: u8) AND 0x80 = 0 \<longleftrightarrow> unat b < 2 ^ 7"
proof -
  have "b AND 0x80 = 0 \<longleftrightarrow> \<not> bit b 7" using and_exp_eq_0_iff_not_bit [of b 7] by (simp add: power_numeral)
  also have "\<dots> \<longleftrightarrow> even (unat b div 2 ^ 7)" by (simp add: bit_odd_unat)
  also have "\<dots> \<longleftrightarrow> unat b < 2 ^ 7" using unat_bound [of b] by (intro even_top) (simp add: power_numeral)
  finally show ?thesis .
qed

lemma raw_sign:
  assumes "v < 2 ^ 24"
  shows "(word_of_nat v :: u32) AND 0x00800000 = 0 \<longleftrightarrow> v < 2 ^ 23"
proof -
  let ?r = "word_of_nat v :: u32"
  have u: "unat ?r = v" using assms by (simp add: unat_word_of_nat power_numeral)
  have "?r AND 0x00800000 = 0 \<longleftrightarrow> \<not> bit ?r 23" using and_exp_eq_0_iff_not_bit [of ?r 23] by (simp add: power_numeral)
  also have "\<dots> \<longleftrightarrow> even (unat ?r div 2 ^ 23)" by (simp add: bit_odd_unat)
  also have "\<dots> \<longleftrightarrow> v < 2 ^ 23" unfolding u using assms by (intro even_top) (simp add: power_numeral)
  finally show ?thesis .
qed

lemma raw_positive: "v < 2 ^ 24 \<Longrightarrow> sint (word_of_nat v :: u32) = int v"
  by (simp add: signed_of_nat signed_take_bit_int_eq_self power_numeral)

lemma raw_negative:
  assumes "v < 2 ^ 24"
  shows "sint ((word_of_nat v :: u32) OR NOT 0x00ffffff) = int v - 2 ^ 24"
proof -
  let ?r = "word_of_nat v :: u32" and ?m = "NOT 0x00ffffff :: u32"
  have "take_bit 24 (unat ?r) = unat ?r" using assms by (simp add: take_bit_nat_eq_self_iff unat_word_of_nat power_numeral)
  then have "take_bit 24 ?r = ?r" by (metis unsigned_take_bit_eq word_unat_eq_iff)
  then have r: "?r = ?r AND 0x00ffffff" by (simp add: take_bit_eq_mask mask_eq_exp_minus_1 power_numeral)
  have "?r AND ?m = 0" by (subst r) (simp add: and.assoc)
  then have "\<not> bit (?r AND ?m) i" for i by simp
  then have "\<not> bit ?r i \<or> \<not> bit ?m i" for i unfolding bit_and_iff by blast
  then have "?r OR ?m = ?r + ?m" by (rule disjunctive_add [symmetric])
  also have "\<dots> = word_of_int (int v - 2 ^ 24)" by (simp add: not_eq_complement power_numeral)
  finally have "sint (?r OR ?m) = sint (word_of_int (int v - 2 ^ 24) :: u32)" by (rule arg_cong)
  also have "\<dots> = int v - 2 ^ 24"
    unfolding signed_of_int of_int_eq_id id_apply
    by (rule signed_take_bit_int_eq_self) (use assms in \<open>simp_all add: power_numeral\<close>)
  finally show ?thesis .
qed


lemma signed_value:
  assumes "length w = 32" and v: "v = be_value (drop 29 w)"
  shows "v < 2 ^ 24" "(w ! 29) AND 0x80 = 0 \<longleftrightarrow> v < 2 ^ 23"
    "\<not> list_ex (\<lambda>b. b \<noteq> 0) (take 29 w) \<longleftrightarrow> be_value w = v"
    "\<not> list_ex (\<lambda>b. b \<noteq> 0xff) (take 29 w) \<longleftrightarrow> be_value w + 2 ^ 24 = 2 ^ 256 + v"
proof -
  show b: "v < 2 ^ 24" using be_value_bound [of "drop 29 w"] assms by (simp add: power_numeral)
  obtain b0 b1 b2 where d: "drop 29 w = [b0, b1, b2]"
  proof -
    have "length (drop 29 w) = Suc (Suc (Suc 0))" using assms by simp
    then obtain b0 b1 b2 where "drop 29 w = [b0, b1, b2]" unfolding length_Suc_conv by blast
    then show ?thesis by (rule that)
  qed
  then have "w ! 29 = b0" using nth_drop [of 29 w 0] assms by simp
  moreover have "v = unat b0 * 65536 + unat b1 * 256 + unat b2" using v d by simp
  moreover have "unat b1 < 256" "unat b2 < 256" using unat_bound [of b1] unat_bound [of b2] by (simp_all add: power_numeral)
  ultimately show "(w ! 29) AND 0x80 = 0 \<longleftrightarrow> v < 2 ^ 23" by (auto simp: byte_sign power_numeral)
  have s: "be_value w = be_value (take 29 w) * 2 ^ 24 + v"
    using be_value_split [of w 29] assms by (simp add: power_numeral)
  show "\<not> list_ex (\<lambda>b. b \<noteq> 0) (take 29 w) \<longleftrightarrow> be_value w = v"
    using s by (simp flip: be_value_eq_0)
  have "\<not> list_ex (\<lambda>b. b \<noteq> 0xff) (take 29 w) \<longleftrightarrow> be_value (take 29 w) + 1 = 256 ^ 29"
    using be_value_eq_max [of "take 29 w" 29] assms by simp
  also have "\<dots> \<longleftrightarrow> be_value w + 2 ^ 24 = 2 ^ 256 + v" unfolding s by (simp add: power_numeral)
  finally show "\<not> list_ex (\<lambda>b. b \<noteq> 0xff) (take 29 w) \<longleftrightarrow> be_value w + 2 ^ 24 = 2 ^ 256 + v" .
qed

lemma unat_tick:
  assumes "- (2 ^ 23) \<le> t" "t < 2 ^ 23"
  shows "int (unat (word_of_int t :: u256)) = (if 0 \<le> t then t else t + 2 ^ 256)"
proof -
  have "int (unat (word_of_int t :: u256)) = t mod 2 ^ 256" by (simp add: uint_word_of_int)
  also have "\<dots> = (if 0 \<le> t then t else t + 2 ^ 256)"
    using assms mod_pos_pos_trivial [of t "2 ^ 256"] mod_pos_pos_trivial [of "t + 2 ^ 256" "2 ^ 256"]
    by (auto simp: power_numeral)
  finally show ?thesis .
qed

lemma tick_arith:
  assumes "n = a * 2 ^ 24 + v" "v < 2 ^ 24"
  shows "v < 2 ^ 23 \<and> n = v \<and> t = int v \<or> \<not> v < 2 ^ 23 \<and> n + 2 ^ 24 = 2 ^ 256 + v \<and> t = int v - 2 ^ 24 \<longleftrightarrow>
    - (2 ^ 23) \<le> t \<and> t < 2 ^ 23 \<and> int n = (if 0 \<le> t then t else t + 2 ^ 256)"
proof -
  consider "a = 0" | "0 < a" "a + 1 < 2 ^ 232" | "a + 1 = 2 ^ 232" | "2 ^ 232 \<le> a" by linarith
  then show ?thesis
  proof cases
    case 3
    then have "n + 2 ^ 24 = 2 ^ 256 + v" using assms by (simp add: power_numeral)
    then show ?thesis using assms(2) by (auto simp: power_numeral)
  qed (use assms in \<open>auto simp: power_numeral\<close>)
qed

lemma read_int24_iff:
  "read_int24 data offset = Some t \<longleftrightarrow>
     get_word data offset = Some (to_be_bytes (word_of_int t :: u256)) \<and> - (2 ^ 23) \<le> t \<and> t < 2 ^ 23"
proof (cases "get_word data offset")
  case (Some w)
  have l: "length w = 32" using Some by (rule get_word_length)
  define v where "v = be_value (drop 29 w)"
  note S = signed_value [OF l v_def]
  have raw: "from_be (0 # drop 29 w) = (word_of_nat v :: u32)" by (simp add: from_be_def v_def)
  have "read_int24 data offset = Some t \<longleftrightarrow>
      v < 2 ^ 23 \<and> be_value w = v \<and> t = int v \<or> \<not> v < 2 ^ 23 \<and> be_value w + 2 ^ 24 = 2 ^ 256 + v \<and> t = int v - 2 ^ 24"
    using Some S raw_sign [OF S(1)] raw_positive [OF S(1)] raw_negative [OF S(1)]
    by (auto simp: read_int24_def Let_def raw)
  also have "\<dots> \<longleftrightarrow> - (2 ^ 23) \<le> t \<and> t < 2 ^ 23 \<and> int (be_value w) = (if 0 \<le> t then t else t + 2 ^ 256)"
    using be_value_split [of w 29] l S(1) by (intro tick_arith) (simp_all add: v_def power_numeral)
  also have "\<dots> \<longleftrightarrow> - (2 ^ 23) \<le> t \<and> t < 2 ^ 23 \<and> be_value w = unat (word_of_int t :: u256)"
    using unat_tick by (metis of_nat_eq_iff)
  finally show ?thesis using Some word_bytes_iff [OF l] by auto
qed (simp add: read_int24_def)


section \<open>Pool reads\<close>

lemma get_word_iff: "o' + 32 < 2 ^ 32 \<Longrightarrow> get_word data o' = Some w \<longleftrightarrow> o' + 32 \<le> length data \<and> w = take 32 (drop o' data)"
  by (auto simp: get_word_def checked_end_def get_range_def)

lemma two_words:
  "get_word data 0 = Some a \<and> get_word data 32 = Some b \<longleftrightarrow> length a = 32 \<and> length b = 32 \<and> (\<exists>r. data = a @ b @ r)"
proof
  assume "get_word data 0 = Some a \<and> get_word data 32 = Some b"
  then have w: "a = take 32 data" "b = take 32 (drop 32 data)" "64 \<le> length data"
    by (simp_all add: get_word_iff power_numeral)
  have "data = a @ b @ drop 32 (drop 32 data)" unfolding w by (simp only: append_take_drop_id)
  then show "length a = 32 \<and> length b = 32 \<and> (\<exists>r. data = a @ b @ r)" using w by auto
qed (auto simp: get_word_iff power_numeral)

lemma three_words:
  "96 \<le> length data \<and> get_word data 0 = Some a \<and> get_word data 32 = Some b \<and> get_word data 64 = Some c \<longleftrightarrow>
     length a = 32 \<and> length b = 32 \<and> length c = 32 \<and> (\<exists>r. data = a @ b @ c @ r)"
proof
  assume h: "96 \<le> length data \<and> get_word data 0 = Some a \<and> get_word data 32 = Some b \<and> get_word data 64 = Some c"
  then obtain r where r: "data = a @ b @ r" "length a = 32" "length b = 32" using two_words [of data a b] by blast
  then have c: "c = take 32 r" "32 \<le> length r" using h by (simp_all add: get_word_iff power_numeral)
  then have "data = a @ b @ c @ drop 32 r" using r by simp
  then show "length a = 32 \<and> length b = 32 \<and> length c = 32 \<and> (\<exists>r. data = a @ b @ c @ r)"
    using r(2,3) c by (metis length_take min.absorb2)
qed (auto simp: get_word_iff power_numeral)

lemma read_uint112_iff:
  "read_uint112 data offset = Some v \<longleftrightarrow> get_word data offset = Some (to_be_bytes (ucast v :: u256)) \<and> unat v < 2 ^ 112"
  using read_uint128_iff [of 18 data offset v] by (simp add: read_uint112_def power_numeral)

lemma read_uint128_full_iff:
  "read_uint128 data offset = Some v \<longleftrightarrow> get_word data offset = Some (to_be_bytes (ucast v :: u256))"
  using read_uint128_iff [of 16 data offset v] unat_bound [of v] by (simp add: read_uint128_def power_numeral)

lemmas reader_iffs = read_uint112_iff read_uint128_full_iff read_uint160_iff read_uint32_iff read_int24_iff

lemma read_v2_reserves_iff:
  "read_v2_reserves H st = Ok (r0, r1, t) \<longleftrightarrow>
     pa_pool st \<noteq> 0 \<and> unat r0 < 2 ^ 112 \<and> unat r1 < 2 ^ 112 \<and>
     (\<exists>rest. ph_static_call H (pa_pool st) GET_RESERVES_SELECTOR
        = Some (to_be_bytes (ucast r0 :: u256) @ to_be_bytes (ucast r1 :: u256) @ to_be_bytes (ucast t :: u256) @ rest))"
proof (cases "ph_static_call H (pa_pool st) GET_RESERVES_SELECTOR")
  case (Some data)
  have "read_v2_reserves H st = Ok (r0, r1, t) \<longleftrightarrow>
     pa_pool st \<noteq> 0 \<and> unat r0 < 2 ^ 112 \<and> unat r1 < 2 ^ 112 \<and>
     (96 \<le> length data \<and> get_word data 0 = Some (to_be_bytes (ucast r0 :: u256)) \<and>
      get_word data 32 = Some (to_be_bytes (ucast r1 :: u256)) \<and> get_word data 64 = Some (to_be_bytes (ucast t :: u256)))"
    using Some by (auto simp: read_v2_reserves_def pool_call_def obind_eq_Ok ok_or_eq_Ok reader_iffs)
  then show ?thesis using Some unfolding three_words by auto
qed (simp add: read_v2_reserves_def pool_call_def)

lemma read_v3_state_iff:
  "read_v3_state H st = Ok (p, t, l) \<longleftrightarrow>
     pa_pool st \<noteq> 0 \<and> unat p < 2 ^ 160 \<and> - (2 ^ 23) \<le> t \<and> t < 2 ^ 23 \<and>
     (\<exists>rest. ph_static_call H (pa_pool st) SLOT0_SELECTOR
        = Some (to_be_bytes p @ to_be_bytes (word_of_int t :: u256) @ rest) \<and> 160 \<le> length rest) \<and>
     (\<exists>rest. ph_static_call H (pa_pool st) LIQUIDITY_SELECTOR = Some (to_be_bytes (ucast l :: u256) @ rest))"
proof (cases "ph_static_call H (pa_pool st) SLOT0_SELECTOR"; cases "ph_static_call H (pa_pool st) LIQUIDITY_SELECTOR")
  fix s q assume sq: "ph_static_call H (pa_pool st) SLOT0_SELECTOR = Some s" "ph_static_call H (pa_pool st) LIQUIDITY_SELECTOR = Some q"
  have "read_v3_state H st = Ok (p, t, l) \<longleftrightarrow>
     pa_pool st \<noteq> 0 \<and> unat p < 2 ^ 160 \<and> - (2 ^ 23) \<le> t \<and> t < 2 ^ 23 \<and> 224 \<le> length s \<and> 32 \<le> length q \<and>
     (get_word s 0 = Some (to_be_bytes p) \<and> get_word s 32 = Some (to_be_bytes (word_of_int t :: u256))) \<and>
     get_word q 0 = Some (to_be_bytes (ucast l :: u256))"
    using sq by (auto simp: read_v3_state_def pool_call_def obind_eq_Ok ok_or_eq_Ok reader_iffs)
  also have "\<dots> \<longleftrightarrow> pa_pool st \<noteq> 0 \<and> unat p < 2 ^ 160 \<and> - (2 ^ 23) \<le> t \<and> t < 2 ^ 23 \<and>
     (\<exists>rest. s = to_be_bytes p @ to_be_bytes (word_of_int t :: u256) @ rest \<and> 160 \<le> length rest) \<and>
     (\<exists>rest. q = to_be_bytes (ucast l :: u256) @ rest)"
    unfolding two_words by (auto simp: get_word_iff power_numeral) (metis append_take_drop_id)
  finally show ?thesis using sq by simp
qed (simp_all add: read_v3_state_def pool_call_def obind_eq_Ok)

text \<open>
  C27. The readers of pool state accept exactly the canonical encodings: \<open>read_v2_reserves\<close> returns two reserves and a
  time exactly when the pool answers with those three words, both reserves below \<open>2^112\<close>, and \<open>read_v3_state\<close> returns a
  price, a tick and a liquidity exactly when the answers begin with the words of the price (below \<open>2^160\<close>), of the
  sign-extended 24-bit tick and of the liquidity. Every other answer is an error, none is misread.
\<close>

theorem pool_reads_strict:
  "(read_v2_reserves H st = Ok (r0, r1, ts) \<longleftrightarrow>
      pa_pool st \<noteq> 0 \<and> unat r0 < 2 ^ 112 \<and> unat r1 < 2 ^ 112 \<and>
      (\<exists>rest. ph_static_call H (pa_pool st) GET_RESERVES_SELECTOR
         = Some (to_be_bytes (ucast r0 :: u256) @ to_be_bytes (ucast r1 :: u256) @ to_be_bytes (ucast ts :: u256) @ rest)))
   \<and> (read_v3_state H st = Ok (p, t, l) \<longleftrightarrow>
      pa_pool st \<noteq> 0 \<and> unat p < 2 ^ 160 \<and> - (2 ^ 23) \<le> t \<and> t < 2 ^ 23 \<and>
      (\<exists>rest. ph_static_call H (pa_pool st) SLOT0_SELECTOR
         = Some (to_be_bytes p @ to_be_bytes (word_of_int t :: u256) @ rest) \<and> 160 \<le> length rest) \<and>
      (\<exists>rest. ph_static_call H (pa_pool st) LIQUIDITY_SELECTOR = Some (to_be_bytes (ucast l :: u256) @ rest)))"
  by (intro conjI read_v2_reserves_iff read_v3_state_iff)

section \<open>The V4 reader\<close>

definition abi_word_array :: "u256 list \<Rightarrow> u8 list" where
  \<comment> \<open>what a function that returns \<open>bytes32[]\<close> answers: the offset of the array, its length, its words\<close>
  "abi_word_array ws = to_be_bytes (32 :: u256) @ to_be_bytes (word_of_nat (length ws) :: u256) @ concat (map to_be_bytes ws)"

lemma four_word: "to_be_bytes (4 :: u256) = replicate 31 0 @ [4]"
proof -
  have "be_value (replicate 31 0) = 0" by (simp add: be_value_eq_0 list_ex_iff)
  then have "be_value (replicate 31 0 @ [4]) = unat (4 :: u256)" by (simp add: be_value_append)
  then show ?thesis using word_bytes_iff [of "replicate 31 0 @ [4]" 4] by simp
qed

lemma low_half: "(from_be (drop 16 (to_be_bytes (x :: u256))) :: u128) = ucast x"
proof -
  let ?d = "be_value (drop 16 (to_be_bytes x))"
  have "unat x = be_value (take 16 (to_be_bytes x)) * 2 ^ 128 + ?d"
    using be_value_split [of "to_be_bytes x" 16] by (simp add: be_value_to_be_bytes power_numeral)
  moreover have d: "?d < 2 ^ 128" using be_value_bound [of "drop 16 (to_be_bytes x)"] by (simp add: power_numeral)
  ultimately have "unat x mod 2 ^ 128 = ?d" by simp
  then show ?thesis using d
    by (simp add: word_unat_eq_iff from_be_def unat_word_of_nat unsigned_ucast_eq take_bit_eq_mod)
qed

lemma words_of_array:
  assumes "data = abi_word_array [a, b, c, d]"
  shows "length data = 192" "take 32 (drop 32 data) = replicate 31 0 @ [4]" "take 32 (drop 128 data) = to_be_bytes c"
  unfolding assms abi_word_array_def by (simp_all add: four_word)

text \<open>
  C40. The V4 reader takes the first returned word for the length of the array, where the ABI puts the offset of the
  array. From a pool manager that answers the batched storage read as the ABI says, it therefore reads the length of the array as the
  price word: whatever the state of the pool, it reports the price 4, the tick 0, and the low half of the second fee
  accumulator as the liquidity.
\<close>

theorem v4_reader_misreads:
  assumes "pa_pool st \<noteq> 0"
    and "ph_static_call H (pa_pool st) (extsload_calldata H pool_id) = Some (abi_word_array [slot0, fee0, fee1, liquidity])"
  shows "read_v4_state H st pool_id = Ok (4, 0, ucast fee1)"
proof -
  let ?data = "abi_word_array [slot0, fee0, fee1, liquidity]"
  note W = words_of_array [OF refl, of slot0 fee0 fee1 liquidity]
  have "from_be_slice H (replicate 19 0 @ [4]) = Ok 4"
    using four_word by (simp add: from_be_slice_def from_be_def be_value_append be_value_eq_0 list_ex_iff)
  moreover have "read_int24_from_3bytes [0, 0, 0] = 0" by (simp add: read_int24_from_3bytes_def from_be_def)
  moreover have "drop 12 (replicate 31 0 @ [4 :: u8]) = replicate 19 0 @ [4]" by simp
  moreover have "(replicate 31 0 @ [4 :: u8]) ! i = 0" if "i < 31" for i using that by (simp add: nth_append)
  ultimately show ?thesis
    using assms unfolding read_v4_state_def by (simp add: pool_call_def W low_half)
qed

theorem v4_reader_misreads_witness:
  "read_v4_state \<lparr>ph_static_call = (\<lambda>_ _. Some (abi_word_array [79228162514264337593543950336, 0, 5, 1000000])),
       ph_keccak = (\<lambda>_. 0), ph_from_long_slice = (\<lambda>_. None)\<rparr>
     \<lparr>pa_owner = 1, pa_pool = 7, pa_initialized = True\<rparr> 11 = Ok (4, 0, 5)"
  using v4_reader_misreads [of "\<lparr>pa_owner = 1, pa_pool = 7, pa_initialized = True\<rparr>"
      "\<lparr>ph_static_call = (\<lambda>_ _. Some (abi_word_array [79228162514264337593543950336, 0, 5, 1000000])),
        ph_keccak = (\<lambda>_. 0), ph_from_long_slice = (\<lambda>_. None)\<rparr>" 11 79228162514264337593543950336 0 5 1000000]
  by simp

end
