(* ===== verification/Token_Risk.thy ===== *)
theory Token_Risk
  imports Calldata
begin

text \<open>
  The token risk filter: \<open>src/stylus/core/src/token_risk_filter.rs\<close> (flags, reasons, the verdict on a probed token) and the
  contract around it, \<open>src/stylus/token_risk_adapter/src/lib.rs\<close> (the probe by static calls and the cache of
  verdicts). The host is a parameter: the code size of an address, the bounded static call, the contract's own address.
  The block time is an argument of the operations that read it.
\<close>

unbundle bit_operations_syntax

section \<open>Flags and reasons\<close>

definition MASK_OWNER_RENOUNCED :: u256 where "MASK_OWNER_RENOUNCED = 2 ^ 0"
definition MASK_MINT_DISABLED :: u256 where "MASK_MINT_DISABLED = 2 ^ 1"
definition MASK_TRANSFER_TAX :: u256 where "MASK_TRANSFER_TAX = 2 ^ 2"
definition MASK_SELL_TAX_HIGHER :: u256 where "MASK_SELL_TAX_HIGHER = 2 ^ 3"
definition MASK_CONCENTRATED_HOLDERS :: u256 where "MASK_CONCENTRATED_HOLDERS = 2 ^ 4"
definition MASK_BLACKLIST_FUNC :: u256 where "MASK_BLACKLIST_FUNC = 2 ^ 5"
definition MASK_PAUSABLE_TRANSFERS :: u256 where "MASK_PAUSABLE_TRANSFERS = 2 ^ 6"
definition MASK_PROXY_MINT :: u256 where "MASK_PROXY_MINT = 2 ^ 7"
definition MASK_NO_CODE :: u256 where "MASK_NO_CODE = 2 ^ 8"

lemmas risk_masks = MASK_OWNER_RENOUNCED_def MASK_MINT_DISABLED_def MASK_TRANSFER_TAX_def MASK_SELL_TAX_HIGHER_def
  MASK_CONCENTRATED_HOLDERS_def MASK_BLACKLIST_FUNC_def MASK_PAUSABLE_TRANSFERS_def MASK_PROXY_MINT_def MASK_NO_CODE_def

definition CACHE_TTL_SECONDS :: u64 where "CACHE_TTL_SECONDS = 300"
definition RISK_STATICCALL_GAS :: u64 where "RISK_STATICCALL_GAS = 30000"

definition ARBITRUM_USDC :: u160 where "ARBITRUM_USDC = 0xaf88d065e77c8cC2239327C5EDb3A432268e5831"
definition ARBITRUM_USDT :: u160 where "ARBITRUM_USDT = 0xFd086bC7CD5C481DCC9C85ebE478A1C0b69FCbb9"
definition ARBITRUM_DAI :: u160 where "ARBITRUM_DAI = 0xDA10009cBd5D07dd0CeCc66161FC93D7c9000da1"
definition ARBITRUM_WETH :: u160 where "ARBITRUM_WETH = 0x82aF49447D8a07e3bd95BD0d56f35241523fBab1"
definition ARBITRUM_WBTC :: u160 where "ARBITRUM_WBTC = 0x2f2a2543B76A4166549F7aaB2e75Bef0aefC5B0f"
definition ARBITRUM_ARB :: u160 where "ARBITRUM_ARB = 0x912CE59144191C1204E64559FE8253a0e49E6548"
definition ARBITRUM_WSTETH :: u160 where "ARBITRUM_WSTETH = 0x5979D7b546E38E414F7E9822514be443A4800529"
definition ARBITRUM_CBETH :: u160 where "ARBITRUM_CBETH = 0x1DEBd73E752bEaF79865Fd6446b0c970EaE7732f"
definition ARBITRUM_RETH :: u160 where "ARBITRUM_RETH = 0xEC70Dcb4A1EFa46b8F2D97C310C9c4790ba5ffA8"

definition ARBITRUM_MAJOR_TOKENS :: "u160 list" where
  "ARBITRUM_MAJOR_TOKENS = [ARBITRUM_USDC, ARBITRUM_USDT, ARBITRUM_DAI, ARBITRUM_WETH, ARBITRUM_WBTC, ARBITRUM_ARB,
     ARBITRUM_WSTETH, ARBITRUM_CBETH, ARBITRUM_RETH]"

datatype RiskReason =
  TokenHasNoCode | TransferSimulationUnavailable | TransferFailedOrTax | TransferReturnMalformed
| HasBlacklistFunction | TransfersArePaused

primrec reason_as_str :: "RiskReason \<Rightarrow> string" where
  "reason_as_str TokenHasNoCode = ''token_has_no_code''"
| "reason_as_str TransferSimulationUnavailable = ''transfer_simulation_unavailable''"
| "reason_as_str TransferFailedOrTax = ''transfer_failed_or_tax''"
| "reason_as_str TransferReturnMalformed = ''transfer_return_malformed''"
| "reason_as_str HasBlacklistFunction = ''has_blacklist_function''"
| "reason_as_str TransfersArePaused = ''transfers_are_paused''"

datatype TransferProbe = Unavailable | ReturnedBool bool | EmptyReturn | MalformedReturn

record ProbeVerdict =
  pv_has_code :: bool
  pv_owner_renounced :: "bool option"
  pv_transfer_result :: TransferProbe
  pv_has_blacklist :: bool
  pv_paused :: "bool option"

definition no_code :: ProbeVerdict where
  "no_code = \<lparr>pv_has_code = False, pv_owner_renounced = None, pv_transfer_result = Unavailable, pv_has_blacklist = False, pv_paused = None\<rparr>"

record RiskVerdict =
  rv_flags :: u256
  rv_is_safe :: bool
  rv_reasons :: "RiskReason list"

definition is_major :: "u160 \<Rightarrow> bool" where
  "is_major token \<longleftrightarrow> token \<in> set ARBITRUM_MAJOR_TOKENS"

definition known_risk_mask :: u256 where
  "known_risk_mask = MASK_OWNER_RENOUNCED OR MASK_MINT_DISABLED OR MASK_TRANSFER_TAX OR MASK_SELL_TAX_HIGHER
     OR MASK_CONCENTRATED_HOLDERS OR MASK_BLACKLIST_FUNC OR MASK_PAUSABLE_TRANSFERS OR MASK_PROXY_MINT OR MASK_NO_CODE"

definition is_safe_flags :: "u256 \<Rightarrow> bool" where
  "is_safe_flags flags \<longleftrightarrow> flags AND (MASK_TRANSFER_TAX OR MASK_BLACKLIST_FUNC OR MASK_PROXY_MINT) = 0"

definition assess_probe :: "u160 \<Rightarrow> ProbeVerdict \<Rightarrow> RiskVerdict" where
  "assess_probe token probe =
     (if is_major token then \<lparr>rv_flags = 0, rv_is_safe = True, rv_reasons = []\<rparr>
      else if \<not> pv_has_code probe then \<lparr>rv_flags = MASK_NO_CODE, rv_is_safe = False, rv_reasons = [TokenHasNoCode]\<rparr>
      else
        let (flags, reasons) = (0, []);
            flags = (if pv_owner_renounced probe = Some True then flags OR MASK_OWNER_RENOUNCED else flags);
            (flags, reasons) =
              (case pv_transfer_result probe of
                 Unavailable \<Rightarrow> (flags OR MASK_TRANSFER_TAX, reasons @ [TransferSimulationUnavailable])
               | ReturnedBool b \<Rightarrow>
                   if b then (flags, reasons) else (flags OR MASK_TRANSFER_TAX, reasons @ [TransferFailedOrTax])
               | MalformedReturn \<Rightarrow> (flags OR MASK_TRANSFER_TAX, reasons @ [TransferReturnMalformed])
               | EmptyReturn \<Rightarrow> (flags, reasons));
            (flags, reasons) =
              (if pv_has_blacklist probe then (flags OR MASK_BLACKLIST_FUNC, reasons @ [HasBlacklistFunction]) else (flags, reasons));
            (flags, reasons) =
              (if pv_paused probe = Some True then (flags OR MASK_PAUSABLE_TRANSFERS, reasons @ [TransfersArePaused]) else (flags, reasons))
        in \<lparr>rv_flags = flags, rv_is_safe = is_safe_flags flags, rv_reasons = reasons\<rparr>)"

section \<open>The probing contract\<close>

definition OWNER_SELECTOR :: "u8 list" where "OWNER_SELECTOR = [0x8d, 0xa5, 0xcb, 0x5b]"
definition TRANSFER_SELECTOR :: "u8 list" where "TRANSFER_SELECTOR = [0xa9, 0x05, 0x9c, 0xbb]"
definition BLACKLIST_SELECTOR :: "u8 list" where "BLACKLIST_SELECTOR = [0x8e, 0xcf, 0xd9, 0xa7]"
definition PAUSED_SELECTOR :: "u8 list" where "PAUSED_SELECTOR = [0x5c, 0x97, 0x5a, 0xbb]"
definition TRANSFER_PROBE_AMOUNT :: u128 where "TRANSFER_PROBE_AMOUNT = 1000000000000000000"

record risk_host =
  rh_code_size :: "u160 \<Rightarrow> nat"
  rh_static_call :: "u64 \<Rightarrow> u160 \<Rightarrow> u8 list \<Rightarrow> u8 list option"
    \<comment> \<open>\<open>RawCall::new_static(..).gas(g).limit_return_data(0, 32).call(token, calldata)\<close>; \<open>None\<close>: the call failed\<close>
  rh_contract_address :: u160

record TokenRiskAdapter =
  cached_risk :: "u160 \<Rightarrow> u256"
  cache_timestamp :: "u160 \<Rightarrow> u256"

definition bounded_static_call :: "risk_host \<Rightarrow> u160 \<Rightarrow> u8 list \<Rightarrow> u8 list option" where
  "bounded_static_call H token calldata = rh_static_call H RISK_STATICCALL_GAS token calldata"

definition encode_transfer_probe :: "u160 \<Rightarrow> u8 list" where
  "encode_transfer_probe recipient =
     TRANSFER_SELECTOR @ push_address_word recipient @ push_u256_word (ucast TRANSFER_PROBE_AMOUNT)"

definition decode_abi_address :: "u8 list \<Rightarrow> u160 option" where
  "decode_abi_address data =
     (if length data \<noteq> 32 \<or> list_ex (\<lambda>b. b \<noteq> 0) (take 12 data) then None else Some (from_be (drop 12 data)))"

definition decode_abi_bool :: "u8 list \<Rightarrow> bool option" where
  "decode_abi_bool data =
     (if length data \<noteq> 32 \<or> list_ex (\<lambda>b. b \<noteq> 0) (take 31 data) then None
      else if data ! 31 = 0 then Some False
      else if data ! 31 = 1 then Some True
      else None)"

definition transfer_probe_result :: "u8 list option \<Rightarrow> TransferProbe" where
  "transfer_probe_result r =
     (case r of
        Some data \<Rightarrow>
          if data = [] then EmptyReturn
          else if length data = 32 then (case decode_abi_bool data of Some b \<Rightarrow> ReturnedBool b | None \<Rightarrow> MalformedReturn)
          else MalformedReturn
      | None \<Rightarrow> Unavailable)"

definition assess :: "risk_host \<Rightarrow> u160 \<Rightarrow> RiskVerdict" where
  "assess H token =
     (if is_major token then
        assess_probe token
          \<lparr>pv_has_code = True, pv_owner_renounced = None, pv_transfer_result = EmptyReturn, pv_has_blacklist = False, pv_paused = Some False\<rparr>
      else if rh_code_size H token = 0 then assess_probe token no_code
      else
        let owner_renounced =
              map_option (\<lambda>owner. owner = 0) (Option.bind (bounded_static_call H token OWNER_SELECTOR) decode_abi_address);
            transfer_result = transfer_probe_result (bounded_static_call H token (encode_transfer_probe (rh_contract_address H)));
            has_blacklist = (bounded_static_call H token BLACKLIST_SELECTOR \<noteq> None);
            paused = Option.bind (bounded_static_call H token PAUSED_SELECTOR) decode_abi_bool
        in assess_probe token
             \<lparr>pv_has_code = True, pv_owner_renounced = owner_renounced, pv_transfer_result = transfer_result,
              pv_has_blacklist = has_blacklist, pv_paused = paused\<rparr>)"

definition reason_strings :: "RiskReason list \<Rightarrow> string list" where
  "reason_strings reasons = map reason_as_str reasons"

definition assess_batch_flags :: "risk_host \<Rightarrow> u160 list \<Rightarrow> u256 list \<times> bool list" where
  "assess_batch_flags H tokens = (map (\<lambda>t. rv_flags (assess H t)) tokens, map (\<lambda>t. rv_is_safe (assess H t)) tokens)"

definition assess_batch_with_reasons :: "risk_host \<Rightarrow> u160 list \<Rightarrow> u256 list \<times> bool list \<times> string list list" where
  "assess_batch_with_reasons H tokens =
     (map (\<lambda>t. rv_flags (assess H t)) tokens, map (\<lambda>t. rv_is_safe (assess H t)) tokens,
      map (\<lambda>t. reason_strings (rv_reasons (assess H t))) tokens)"

definition update_cache_flags :: "risk_host \<Rightarrow> u64 \<Rightarrow> u160 \<Rightarrow> TokenRiskAdapter \<Rightarrow> (u256 \<times> bool) \<times> TokenRiskAdapter" where
  \<comment> \<open>the second argument is \<open>block_timestamp\<close>\<close>
  "update_cache_flags H block_timestamp token st =
     (let verdict = assess H token
      in ((rv_flags verdict, rv_is_safe verdict),
          st\<lparr>cached_risk := (cached_risk st)(token := rv_flags verdict),
             cache_timestamp := (cache_timestamp st)(token := ucast block_timestamp)\<rparr>))"

definition get_cached_verdict :: "u64 \<Rightarrow> u160 \<Rightarrow> TokenRiskAdapter \<Rightarrow> u256 \<times> bool" where
  "get_cached_verdict block_timestamp token st =
     (let timestamp = cache_timestamp st token;
          now = ucast block_timestamp;
          is_fresh = (timestamp \<noteq> 0 \<and> timestamp \<le> now \<and> now - timestamp < ucast CACHE_TTL_SECONDS)
      in if is_fresh then (cached_risk st token, True) else (0, False))"

section \<open>The verdict\<close>

definition transfer_works :: "TransferProbe \<Rightarrow> bool" where
  "transfer_works p \<longleftrightarrow> p = ReturnedBool True \<or> p = EmptyReturn"

text \<open>The flags of a probed token, one bit per observation.\<close>

lemma bit_mask: "bit (2 ^ k :: u256) i \<longleftrightarrow> i = k \<and> k < 256"
  by (auto simp: bit_exp_iff)

lemma and_masks_0: "f AND (2 ^ a OR 2 ^ b OR 2 ^ c) = 0 \<longleftrightarrow> \<not> bit (f :: u256) a \<and> \<not> bit f b \<and> \<not> bit f c"
  if "a < 256" "b < 256" "c < 256"
  using that by (auto simp: bit_eq_iff [where ?'a = u256] bit_and_iff bit_or_iff bit_mask)

lemma safe_flags_iff: "is_safe_flags f \<longleftrightarrow> \<not> bit f 2 \<and> \<not> bit f 5 \<and> \<not> bit f 7"
  unfolding is_safe_flags_def risk_masks by (rule and_masks_0) simp_all

lemma probe_flags:
  assumes "\<not> is_major token" "pv_has_code probe" "i < 256"
  shows "bit (rv_flags (assess_probe token probe)) i \<longleftrightarrow>
    i = 0 \<and> pv_owner_renounced probe = Some True \<or> i = 2 \<and> \<not> transfer_works (pv_transfer_result probe) \<or>
    i = 5 \<and> pv_has_blacklist probe \<or> i = 6 \<and> pv_paused probe = Some True"
  using assms
  by (simp add: assess_probe_def Let_def transfer_works_def split: TransferProbe.split)
    (auto simp: bit_or_iff risk_masks bit_mask bit_1_iff simp del: power_numeral)


lemma decode_bool_iff: "decode_abi_bool data = Some b \<longleftrightarrow> data = push_bool_word b"
proof (cases "length data = 32")
  case True
  define a c where "a = take 31 data" "c = data ! 31"
  have d: "data = a @ [c]" "length a = 31" using True id_take_nth_drop [of 31 data] by (simp_all add: a_c_def)
  have z: "\<not> list_ex (\<lambda>b. b \<noteq> 0) a \<longleftrightarrow> a = replicate 31 0" using d(2) by (auto simp: list_ex_iff intro: replicate_eqI)
  show ?thesis unfolding decode_abi_bool_def push_bool_word_def bool_byte_def using d z by (auto simp: nth_append)
next
  case False
  then show ?thesis by (auto simp: decode_abi_bool_def)
qed

lemma probe_safe_iff:
  "rv_is_safe (assess_probe token probe) \<longleftrightarrow>
     is_major token \<or> pv_has_code probe \<and> transfer_works (pv_transfer_result probe) \<and> \<not> pv_has_blacklist probe"
proof (cases "is_major token \<or> \<not> pv_has_code probe")
  case False
  then have "rv_is_safe (assess_probe token probe) = is_safe_flags (rv_flags (assess_probe token probe))"
    by (simp add: assess_probe_def Let_def split: prod.split)
  then show ?thesis using False by (simp add: safe_flags_iff probe_flags)
qed (auto simp: assess_probe_def)

lemma probe_reasons_empty_iff:
  "rv_reasons (assess_probe token probe) = [] \<longleftrightarrow>
     rv_is_safe (assess_probe token probe) \<and> (is_major token \<or> pv_paused probe \<noteq> Some True)"
  unfolding probe_safe_iff
  by (auto simp: assess_probe_def Let_def transfer_works_def split: TransferProbe.split)

text \<open>
  What the filter calls safe: a token of the list of major tokens, and otherwise exactly a token with code whose
  transfer probe answers \<open>true\<close> or nothing and which has no answering blacklist function. A pause does not count: the
  verdict comes without a reason exactly when the token is safe and not reported as paused, so a paused token is safe
  although a reason is listed.
\<close>

theorem risk_verdict_exact:
  "(rv_is_safe (assess H token) \<longleftrightarrow>
      is_major token \<or> rh_code_size H token \<noteq> 0
        \<and> bounded_static_call H token (encode_transfer_probe (rh_contract_address H)) \<in> {Some [], Some (push_bool_word True)}
        \<and> bounded_static_call H token BLACKLIST_SELECTOR = None)
   \<and> (rv_reasons (assess H token) = [] \<longleftrightarrow>
      rv_is_safe (assess H token)
        \<and> (is_major token \<or> bounded_static_call H token PAUSED_SELECTOR \<noteq> Some (push_bool_word True)))"
proof -
  have works: "transfer_works (transfer_probe_result r) \<longleftrightarrow> r \<in> {Some [], Some (push_bool_word True)}" for r
  proof -
    have d: "decode_abi_bool (push_bool_word b) = Some b" for b by (simp add: decode_bool_iff)
    have "transfer_works (transfer_probe_result r) \<longleftrightarrow> r = Some [] \<or> (\<exists>data. r = Some data \<and> decode_abi_bool data = Some True)"
      by (auto simp: transfer_works_def transfer_probe_result_def decode_bool_iff [of _ True] d split: option.splits)
    then show ?thesis by (auto simp: decode_bool_iff)
  qed
  show ?thesis
    by (simp add: assess_def Let_def probe_safe_iff probe_reasons_empty_iff works no_code_def bind_eq_Some_conv decode_bool_iff)
qed

section \<open>The cache\<close>

primrec last_update :: "u160 \<Rightarrow> (risk_host \<times> u64 \<times> u160) list \<Rightarrow> (risk_host \<times> u64) option" where
  "last_update token [] = None"
| "last_update token (u # us) =
     (case last_update token us of
        Some r \<Rightarrow> Some r
      | None \<Rightarrow> (case u of (H, t, k) \<Rightarrow> if k = token then Some (H, t) else None))"


abbreviation run_updates :: "(risk_host \<times> u64 \<times> u160) list \<Rightarrow> TokenRiskAdapter \<Rightarrow> TokenRiskAdapter" where
  "run_updates us st \<equiv> fold (\<lambda>(H, t, k) s. snd (update_cache_flags H t k s)) us st"

lemma cache_after:
  "cached_risk (run_updates us st) token = (case last_update token us of None \<Rightarrow> cached_risk st token | Some (H, t) \<Rightarrow> rv_flags (assess H token))
   \<and> cache_timestamp (run_updates us st) token = (case last_update token us of None \<Rightarrow> cache_timestamp st token | Some (H, t) \<Rightarrow> ucast t)"
  by (induction us arbitrary: st)
    (auto simp: update_cache_flags_def Let_def split: option.split prod.split if_split)

text \<open>
  Whatever updates the cache has seen, for this and for other tokens: it answers for a token exactly when the last
  update of that token was at a nonzero block time not after now and less than 300 seconds ago, and then with the
  flags of that update; otherwise it answers zero and \<open>false\<close>.
\<close>

theorem cached_verdict_fresh:
  "get_cached_verdict now token (run_updates us \<lparr>cached_risk = (\<lambda>_. 0), cache_timestamp = (\<lambda>_. 0)\<rparr>)
   = (case last_update token us of
        None \<Rightarrow> (0, False)
      | Some (H, t) \<Rightarrow>
          if t \<noteq> 0 \<and> t \<le> now \<and> unat now < unat t + 300 then (rv_flags (assess H token), True) else (0, False))"
proof -
  have u: "unat (ucast x :: u256) = unat x" for x :: u64 using unat_bound [of x]
    by (simp add: unsigned_ucast_eq take_bit_nat_eq_self_iff power_numeral)
  have "(ucast now - ucast t :: u256) < ucast CACHE_TTL_SECONDS \<longleftrightarrow> unat now < unat t + 300"
    if "t \<le> now" for t :: u64
    using that by (auto simp: word_less_nat_alt unat_sub word_le_nat_alt u CACHE_TTL_SECONDS_def)
  moreover have "(ucast t :: u256) = 0 \<longleftrightarrow> t = 0" for t :: u64 by (metis u unat_eq_0)
  moreover have "(ucast t :: u256) \<le> ucast now \<longleftrightarrow> t \<le> now" for t :: u64 by (simp add: word_le_nat_alt u)
  ultimately show ?thesis
    using cache_after [of us _ token] by (auto simp: get_cached_verdict_def Let_def split: option.split)
qed

end
