(* ===== verification/Gas_Oracle.thy ===== *)
theory Gas_Oracle
  imports Executor
begin

text \<open>
  The arithmetic of the live backend: the Arbitrum gas oracle of \<open>executor/gas.rs\<close>, the transaction builder
  of \<open>executor/tx_builder.rs\<close> and the inclusion watcher of \<open>executor/inclusion.rs\<close>. The answers of the
  provider are arguments: a query is the value it returns or the text of its error, and the watcher takes the
  sequence of what it observes in each turn of its loop (clock, receipt, account nonce, which timer fired).
\<close>

section \<open>The oracle\<close>

record ArbitrumGasOracle =
  l1_calldata_price :: u256
  per_l2_tx :: u256
  l2_gas_price :: u256
  l1_base_fee :: u256
  gas_backlog :: u64
  go_block_number :: u64

definition estimate_cost_wei :: "ArbitrumGasOracle \<Rightarrow> u64 \<Rightarrow> u64 \<Rightarrow> u256" where
  "estimate_cost_wei g calldata_bytes gas_limit =
     (let l1_data_cost = l1_calldata_price g * ucast calldata_bytes;
          l2_exec_cost = l2_gas_price g * ucast gas_limit
      in per_l2_tx g + l1_data_cost + l2_exec_cost)"

definition min_profit_wei :: "ArbitrumGasOracle \<Rightarrow> u64 \<Rightarrow> u64 \<Rightarrow> u32 \<Rightarrow> u256" where
  "min_profit_wei g calldata_bytes gas_limit safety_bps =
     (let cost = estimate_cost_wei g calldata_bytes gas_limit
      in cost * ucast (10000 + ucast safety_bps :: u64) div 10000)"

definition is_congested :: "ArbitrumGasOracle \<Rightarrow> bool" where
  "is_congested g \<longleftrightarrow> 10000000 < gas_backlog g"

definition suggested_priority_fee :: "ArbitrumGasOracle \<Rightarrow> u256" where
  "suggested_priority_fee g = (if is_congested g then l2_gas_price g div 10 else 0)"

definition max_fee_per_gas :: "ArbitrumGasOracle \<Rightarrow> u256" where
  "max_fee_per_gas g = l2_gas_price g * 2 + suggested_priority_fee g"

definition is_profitable :: "ArbitrumGasOracle \<Rightarrow> u256 \<Rightarrow> u64 \<Rightarrow> u64 \<Rightarrow> u32 \<Rightarrow> bool" where
  "is_profitable g gross_profit_wei calldata_bytes gas_limit safety_bps \<longleftrightarrow>
     min_profit_wei g calldata_bytes gas_limit safety_bps \<le> gross_profit_wei"

record prices_in_wei =
  perL2Tx :: u256
  perL1CalldataUnit :: u256
  perStorageAlloc :: u256
  perArbGasBase :: u256
  perArbGasCongestion :: u256
  perArbGasTotal :: u256

record oracle_rpc =
  rpc_prices :: "string + prices_in_wei"
  rpc_backlog :: "string + u64"
  rpc_l1_base :: "string + u256"
  rpc_block :: "string + u64"
  rpc_l1_component :: "string + u64" \<comment> \<open>\<open>gasEstimateForL1\<close>\<close>
  rpc_estimate_gas :: "string + u64"

definition fetch_gas_oracle :: "oracle_rpc \<Rightarrow> SubmitError + ArbitrumGasOracle" where
  "fetch_gas_oracle R =
     (case rpc_prices R of
        Inl e \<Rightarrow> Inl (SE_Gas (''ArbGasInfo.getPricesInWei: '' @ e))
      | Inr prices \<Rightarrow>
     (case rpc_backlog R of
        Inl e \<Rightarrow> Inl (SE_Gas (''ArbGasInfo.getGasBacklog: '' @ e))
      | Inr backlog \<Rightarrow>
     (case rpc_l1_base R of
        Inl e \<Rightarrow> Inl (SE_Gas (''ArbGasInfo.getL1BaseFeeEstimate: '' @ e))
      | Inr l1_base \<Rightarrow>
     (case rpc_block R of
        Inl e \<Rightarrow> Inl (SE_Gas (''get_block_number: '' @ e))
      | Inr block \<Rightarrow>
          Inr \<lparr>l1_calldata_price = perL1CalldataUnit prices, per_l2_tx = perL2Tx prices,
               l2_gas_price = perArbGasTotal prices, l1_base_fee = l1_base,
               gas_backlog = backlog, go_block_number = block\<rparr>))))"

definition tighten :: "GasEnvelope \<Rightarrow> ArbitrumGasOracle \<Rightarrow> GasEnvelope" where
  "tighten envelope g =
     (let suggested = suggested_priority_fee g
      in \<lparr>max_fee_per_gas_wei = max_fee_per_gas_wei envelope,
          max_priority_fee_per_gas_wei = min (max_priority_fee_per_gas_wei envelope) suggested\<rparr>)"

record PerTxGasEstimate =
  l2_gas_units :: u64
  l1_gas_units :: u64
  pe_gas_limit :: u64
  l2_cost_wei :: u256
  l1_cost_wei :: u256
  total_cost_wei :: u256

definition estimate_total_gas :: "oracle_rpc \<Rightarrow> u32 \<Rightarrow> SubmitError + PerTxGasEstimate" where
  \<comment> \<open>the three queries run together: of several failures the first in the order of the source is taken\<close>
  "estimate_total_gas R safety_bps =
     (case rpc_prices R of
        Inl e \<Rightarrow> Inl (SE_Gas (''ArbGasInfo.getPricesInWei: '' @ e))
      | Inr prices \<Rightarrow>
     (case rpc_l1_component R of
        Inl e \<Rightarrow> Inl (SE_Gas (''NodeInterface.gasEstimateL1Component: '' @ e))
      | Inr l1_units \<Rightarrow>
     (case rpc_estimate_gas R of
        Inl e \<Rightarrow> Inl (SE_Gas (''eth_estimateGas: '' @ e))
      | Inr l2_gas_raw \<Rightarrow>
          let l2_gas_with_buffer = l2_gas_raw * ucast (10000 + safety_bps :: u32) div 10000;
              total_gas = l2_gas_with_buffer + l1_units;
              l2_cost = perArbGasTotal prices * ucast l2_gas_with_buffer;
              l1_cost = perArbGasTotal prices * ucast l1_units;
              total_cost = perL2Tx prices + l2_cost + l1_cost
          in Inr \<lparr>l2_gas_units = l2_gas_with_buffer, l1_gas_units = l1_units, pe_gas_limit = total_gas,
                  l2_cost_wei = l2_cost, l1_cost_wei = l1_cost, total_cost_wei = total_cost\<rparr>)))"

section \<open>The transaction request\<close>

record TransactionRequest =
  tr_to :: u160
  tr_input :: "u8 list"
  tr_value :: u256
  tr_gas_limit :: u64
  tr_max_fee_per_gas :: u128
  tr_max_priority_fee_per_gas :: u128

definition uint_to_u128 :: "u256 \<Rightarrow> (u128, 'e) outcome" where
  \<comment> \<open>\<open>Uint::to::<u128>()\<close>, which panics on overflow\<close>
  "uint_to_u128 v = (if unat v < 2 ^ 128 then Ok (ucast v) else Panic)"

definition build_tx_request :: "Plan \<Rightarrow> (TransactionRequest, 'e) outcome" where
  "build_tx_request plan =
     obind (uint_to_u128 (max_fee_per_gas_wei (ep_gas_envelope plan))) (\<lambda>max_fee.
     obind (uint_to_u128 (max_priority_fee_per_gas_wei (ep_gas_envelope plan))) (\<lambda>max_priority.
       Ok \<lparr>tr_to = ep_target plan, tr_input = ep_calldata plan, tr_value = ep_value plan,
           tr_gas_limit = ep_gas_limit plan, tr_max_fee_per_gas = max_fee,
           tr_max_priority_fee_per_gas = max_priority\<rparr>))"

section \<open>The inclusion watcher\<close>

record TransactionReceipt =
  rc_block_number :: "u64 option"
  rc_gas_used :: u64
  rc_effective_gas_price :: u128
  rc_status :: bool

definition decode_receipt :: "TransactionReceipt \<Rightarrow> InclusionReceipt" where
  "decode_receipt receipt =
     \<lparr>ir_block_number = (case rc_block_number receipt of Some b \<Rightarrow> b | None \<Rightarrow> 0),
      ir_gas_used = rc_gas_used receipt,
      ir_effective_gas_price_wei = ucast (rc_effective_gas_price receipt),
      ir_realized_balance_delta = 0,
      ir_status = rc_status receipt,
      ir_revert_reason =
        (if rc_status receipt then None else Some ''reverted; receipt did not expose revert data'')\<rparr>"

datatype wake = NewHead | PollTick | DeadlineTick

record turn =
  clock_ms :: u64
  receipt_rpc :: "string + TransactionReceipt option"
  nonce_rpc :: "string + u64"
  woken_by :: wake

type_synonym watch_result = "InclusionError + InclusionOutcome"

definition deadline_passed :: "u64 \<Rightarrow> turn \<Rightarrow> bool" where
  "deadline_passed deadline_ms t \<longleftrightarrow> deadline_ms \<le> clock_ms t"

definition check_receipt :: "turn \<Rightarrow> InclusionError + InclusionOutcome option" where
  "check_receipt t =
     (case receipt_rpc t of
        Inr (Some receipt) \<Rightarrow> Inr (Some (IO_Mined (decode_receipt receipt)))
      | Inr None \<Rightarrow> Inr None
      | Inl e \<Rightarrow> Inl (IE_Rpc (''get_receipt: '' @ e)))"

definition check_replacement :: "u64 option \<Rightarrow> turn \<Rightarrow> InclusionError + InclusionOutcome option" where
  \<comment> \<open>the probe is the nonce of the watched transaction, absent in \<open>watch\<close>\<close>
  "check_replacement probe t =
     (case probe of
        None \<Rightarrow> Inr None
      | Some nonce \<Rightarrow>
          (case nonce_rpc t of
             Inr mined_nonce \<Rightarrow> Inr (if nonce < mined_nonce then Some IO_Replaced else None)
           | Inl e \<Rightarrow> Inl (IE_Rpc (''get_transaction_count: '' @ e))))"

fun watch_internal :: "bool \<Rightarrow> u64 option \<Rightarrow> u64 \<Rightarrow> turn list \<Rightarrow> watch_result option" where
  \<comment> \<open>\<open>subscribed\<close>: the head stream was attached; \<open>None\<close> when the turns given are used up\<close>
  "watch_internal subscribed probe deadline_ms [] = None"
| "watch_internal subscribed probe deadline_ms (t # ts) =
     (if deadline_passed deadline_ms t then Some (Inr IO_Dropped)
      else
        (case check_receipt t of
           Inl e \<Rightarrow> Some (Inl e)
         | Inr (Some oc) \<Rightarrow> Some (Inr oc)
         | Inr None \<Rightarrow>
             (case check_replacement probe t of
                Inl e \<Rightarrow> Some (Inl e)
              | Inr (Some oc) \<Rightarrow> Some (Inr oc)
              | Inr None \<Rightarrow>
                  if subscribed \<and> woken_by t = DeadlineTick then Some (Inr IO_Dropped)
                  else watch_internal subscribed probe deadline_ms ts)))"

section \<open>Exactness of the estimates\<close>

definition exact_cost :: "ArbitrumGasOracle \<Rightarrow> u64 \<Rightarrow> u64 \<Rightarrow> nat" where
  \<comment> \<open>the cost in unbounded arithmetic\<close>
  "exact_cost g calldata_bytes gas_limit =
     unat (per_l2_tx g) + unat (l1_calldata_price g) * unat calldata_bytes + unat (l2_gas_price g) * unat gas_limit"

lemma unat_ucast_64: "unat (ucast (x :: u64) :: u256) = unat x"
  by (rule unat_ucast_wider) simp

lemma estimate_exact:
  assumes "exact_cost g b l < 2 ^ 256"
  shows "unat (estimate_cost_wei g b l) = exact_cost g b l"
proof -
  have m: "unat (l1_calldata_price g * ucast b) = unat (l1_calldata_price g) * unat b"
    "unat (l2_gas_price g * ucast l) = unat (l2_gas_price g) * unat l"
    using assms by (simp_all add: exact_cost_def unat_word_ariths unat_ucast_64)
  then show ?thesis using assms by (simp add: estimate_cost_wei_def Let_def exact_cost_def unat_word_ariths m)
qed

lemma bps_factor: "unat (ucast (10000 + ucast (bps :: u32) :: u64) :: u256) = 10000 + unat bps"
proof -
  have "unat (ucast bps :: u64) = unat bps" by (rule unat_ucast_wider) simp
  then have "unat (10000 + ucast bps :: u64) = 10000 + unat bps"
    using unat_bound [of bps] by (simp add: unat_word_ariths power_numeral)
  then show ?thesis by (simp add: unat_ucast_64)
qed

text \<open>
  The gas gate decides on the exact cost: as long as the buffered cost fits 256 bits, a gross profit passes iff it
  reaches the exact cost times \<open>10000 + safety_bps\<close> over ten thousand, rounded down; with a buffer of at least
  0 it never passes a profit below the exact cost.\<close>

theorem profit_gate_exact:
  "exact_cost g b l * (10000 + unat bps) < 2 ^ 256 \<Longrightarrow>
    is_profitable g profit b l bps \<longleftrightarrow> exact_cost g b l * (10000 + unat bps) div 10000 \<le> unat profit"
proof -
  assume a: "exact_cost g b l * (10000 + unat bps) < 2 ^ 256"
  then have c: "exact_cost g b l < 2 ^ 256"
    by (rule le_less_trans [rotated]) (simp add: algebra_simps)
  have "unat (estimate_cost_wei g b l * ucast (10000 + ucast bps :: u64)) = exact_cost g b l * (10000 + unat bps)"
    using a by (simp add: unat_word_ariths bps_factor estimate_exact [OF c])
  then show ?thesis
    by (simp add: is_profitable_def min_profit_wei_def Let_def word_le_nat_alt unat_div)
qed

theorem profit_gate_exact_witness:
  "is_profitable \<lparr>l1_calldata_price = 843000000, per_l2_tx = 0, l2_gas_price = 20000000, l1_base_fee = 0,
      gas_backlog = 0, go_block_number = 1\<rparr> 23161250000000 3000 800000 2500 \<and>
   \<not> is_profitable \<lparr>l1_calldata_price = 843000000, per_l2_tx = 0, l2_gas_price = 20000000, l1_base_fee = 0,
      gas_backlog = 0, go_block_number = 1\<rparr> 23161249999999 3000 800000 2500"
proof -
  let ?g = "\<lparr>l1_calldata_price = 843000000, per_l2_tx = 0, l2_gas_price = 20000000, l1_base_fee = 0,
      gas_backlog = 0, go_block_number = 1 :: u64\<rparr>"
  have "exact_cost ?g 3000 800000 = 18529000000000" "unat (2500 :: u32) = 2500"
    "unat (23161250000000 :: u256) = 23161250000000" "unat (23161249999999 :: u256) = 23161249999999"
    by (simp_all add: exact_cost_def power_numeral)
  then show ?thesis
    using profit_gate_exact [of ?g 3000 800000 2500 23161250000000]
      profit_gate_exact [of ?g 3000 800000 2500 23161249999999]
    by (simp add: power_numeral)
qed

section \<open>The caps of the strategist\<close>

text \<open>The builder narrows both caps to 128 bits with a conversion that panics: it fails exactly on a plan with a cap of
  \<open>2 ^ 128\<close> or more.\<close>

lemma build_panics_iff:
  "build_tx_request plan = Panic \<longleftrightarrow>
     2 ^ 128 \<le> unat (max_fee_per_gas_wei (ep_gas_envelope plan)) \<or>
     2 ^ 128 \<le> unat (max_priority_fee_per_gas_wei (ep_gas_envelope plan))"
  by (auto simp: build_tx_request_def uint_to_u128_def not_less)

section \<open>The watcher\<close>

definition justified :: "u64 option \<Rightarrow> u64 \<Rightarrow> turn list \<Rightarrow> watch_result \<Rightarrow> bool" where
  \<comment> \<open>the last turn taken explains the result\<close>
  "justified probe deadline_ms ts r \<longleftrightarrow>
     (case r of
        Inr (IO_Mined m) \<Rightarrow> \<exists>t rc. t \<in> set ts \<and> clock_ms t < deadline_ms \<and> receipt_rpc t = Inr (Some rc) \<and> m = decode_receipt rc
      | Inr IO_Replaced \<Rightarrow>
          \<exists>t n k. t \<in> set ts \<and> clock_ms t < deadline_ms \<and> receipt_rpc t = Inr None \<and>
            probe = Some n \<and> nonce_rpc t = Inr k \<and> n < k
      | Inr IO_Dropped \<Rightarrow> \<exists>t \<in> set ts. deadline_ms \<le> clock_ms t \<or> woken_by t = DeadlineTick
      | Inl e \<Rightarrow> \<exists>t \<in> set ts. clock_ms t < deadline_ms \<and> (\<exists>m. receipt_rpc t = Inl m \<or> nonce_rpc t = Inl m))"

definition turn_result :: "bool \<Rightarrow> u64 option \<Rightarrow> u64 \<Rightarrow> turn \<Rightarrow> watch_result option" where
  \<comment> \<open>what one turn of the loop settles\<close>
  "turn_result sub probe d t = watch_internal sub probe d [t]"

lemma watch_Cons:
  "watch_internal sub probe d (t # ts) =
     (case turn_result sub probe d t of Some r \<Rightarrow> Some r | None \<Rightarrow> watch_internal sub probe d ts)"
  by (auto simp: turn_result_def split: sum.split option.split)

lemma turn_justified: "turn_result sub probe d t = Some r \<Longrightarrow> justified probe d [t] r"
  by (cases "receipt_rpc t"; cases "nonce_rpc t"; cases probe)
    (auto simp: turn_result_def deadline_passed_def check_receipt_def check_replacement_def justified_def not_le
      split: if_splits option.splits)

lemma justified_subset: "justified probe d xs r \<Longrightarrow> set xs \<subseteq> set ts \<Longrightarrow> justified probe d ts r"
  unfolding justified_def by (cases r) (fastforce split: InclusionOutcome.splits)+

lemma watch_justified: "watch_internal sub probe d ts = Some r \<Longrightarrow> justified probe d ts r"
proof (induction ts)
  case (Cons t ts)
  show ?case
  proof (cases "turn_result sub probe d t")
    case None
    with Cons have "justified probe d ts r" by (simp only: watch_Cons option.case)
    then show ?thesis by (rule justified_subset) auto
  next
    case (Some q)
    with Cons.prems have "justified probe d [t] r" using turn_justified by (simp add: watch_Cons del: watch_internal.simps)
    then show ?thesis by (rule justified_subset) auto
  qed
qed simp

lemma watch_ends: "list_ex (deadline_passed d) ts \<Longrightarrow> watch_internal sub probe d ts \<noteq> None"
proof (induction ts)
  case (Cons t ts)
  show ?case
  proof (cases "turn_result sub probe d t")
    case None
    then have "\<not> deadline_passed d t" by (auto simp: turn_result_def)
    with Cons None show ?thesis by (simp only: watch_Cons option.case) simp
  qed (simp only: watch_Cons option.case, simp)
qed simp



end
