(* ===== verification/Live_Backend.thy ===== *)
theory Live_Backend
  imports Gas_Oracle
begin

text \<open>
  \<open>LiveBackend\<close> of \<open>executor/mod.rs\<close>: lane providers, the nonce source in front of the pending-nonce
  cache, submission, and the inclusion watch with the realised balance change. The network is the record
  \<open>rpc\<close> of functions over a state of its own; a provider is a value of the type variable \<open>'p\<close>. The
  nonces of the transactions that a provider accepted are kept beside the fields of the struct, so that the
  theorems can speak about them.
\<close>

section \<open>The network and the backend\<close>

record ('p, 'w) rpc =
  now_ms :: "'w \<Rightarrow> u64 \<times> 'w" \<comment> \<open>\<open>ts_now_ms\<close>\<close>
  get_balance :: "'p \<Rightarrow> u160 \<Rightarrow> 'w \<Rightarrow> (string + u256) \<times> 'w"
  balance_of :: "'p \<Rightarrow> u160 \<Rightarrow> u160 \<Rightarrow> 'w \<Rightarrow> (string + (string + u256)) \<times> 'w"
    \<comment> \<open>the call of \<open>balanceOf\<close>: a failed call, or the decoded answer\<close>
  pending_count :: "'p \<Rightarrow> u160 \<Rightarrow> 'w \<Rightarrow> (string + u64) \<times> 'w"
  send_transaction :: "'p \<Rightarrow> TransactionRequest \<Rightarrow> u64 \<Rightarrow> 'w \<Rightarrow> (string + u256) \<times> 'w"
  watch_turns :: "'p \<Rightarrow> u256 \<Rightarrow> 'w \<Rightarrow> (bool \<times> turn list) \<times> 'w" \<comment> \<open>what the watch observes\<close>
  show_address :: "u160 \<Rightarrow> string"

record SubmittedTxContext =
  ctx_from :: u160
  ctx_nonce :: u64
  ctx_profit_token :: u160
  ctx_lane :: Lane
  ctx_pre_submit_balance :: u256

record 'p LiveBackend =
  lb_signer :: u160
  lb_providers :: "'p LaneProviderSet"
  lb_nonce :: PendingNonceCache
  lb_submitted :: "u256 \<rightharpoonup> SubmittedTxContext"
  lb_accepted :: "u64 list" \<comment> \<open>nonces of accepted transactions, the latest last\<close>

definition with_signer :: "u160 \<Rightarrow> 'p LaneProviderSet \<Rightarrow> 'p LiveBackend" where
  "with_signer signer providers =
     \<lparr>lb_signer = signer, lb_providers = providers, lb_nonce = pc_new, lb_submitted = Map.empty, lb_accepted = []\<rparr>"

section \<open>Operations\<close>

definition NONCE_CACHE_TTL_MS :: u64 where
  "NONCE_CACHE_TTL_MS = 1000"

definition take_fresh ::
    "('p, 'w) rpc \<Rightarrow> 'p LiveBackend \<Rightarrow> 'w \<Rightarrow> u64 option \<times> 'p LiveBackend \<times> 'w" where
  \<comment> \<open>\<open>self.nonce.take_and_increment_if_fresh(ts_now_ms(), NONCE_CACHE_TTL_MS)\<close>\<close>
  "take_fresh X b w =
     (let (t, w) = now_ms X w;
          (r, c) = take_and_increment_if_fresh (lb_nonce b) t NONCE_CACHE_TTL_MS
      in (r, b\<lparr>lb_nonce := c\<rparr>, w))"

definition next_nonce ::
    "('p, 'w) rpc \<Rightarrow> 'p \<Rightarrow> 'p LiveBackend \<Rightarrow> 'w \<Rightarrow> (SubmitError + u64) \<times> 'p LiveBackend \<times> 'w" where
  "next_nonce X provider b w =
     (case take_fresh X b w of
        (Some n, b, w) \<Rightarrow> (Inr n, b, w)
      | (None, b, w) \<Rightarrow>
     (case take_fresh X b w of
        (Some n, b, w) \<Rightarrow> (Inr n, b, w)
      | (None, b, w) \<Rightarrow>
          let (refreshed_at, w) = now_ms X w;
              (r, w) = pending_count X provider (lb_signer b) w
          in case r of
               Inl e \<Rightarrow> (Inl (SE_Nonce (''get pending nonce: '' @ e)), b, w)
             | Inr pending \<Rightarrow>
                 (case take_fresh X (b\<lparr>lb_nonce := prime (lb_nonce b) pending refreshed_at\<rparr>) w of
                    (Some n, b, w) \<Rightarrow> (Inr n, b, w)
                  | (None, b, w) \<Rightarrow> (Inl (SE_Nonce ''pending nonce cache did not prime''), b, w))))"

definition read_profit_balance ::
    "('p, 'w) rpc \<Rightarrow> 'p \<Rightarrow> u160 \<Rightarrow> u160 \<Rightarrow> 'w \<Rightarrow> (string + u256) \<times> 'w" where
  "read_profit_balance X provider token owner w =
     (if token = 0 then
        (case get_balance X provider owner w of
           (Inr v, w) \<Rightarrow> (Inr v, w)
         | (Inl e, w) \<Rightarrow> (Inl (''native balance '' @ show_address X owner @ '': '' @ e), w))
      else
        (case balance_of X provider token owner w of
           (Inl e, w) \<Rightarrow>
             (Inl (''balanceOf '' @ show_address X token @ '' owner '' @ show_address X owner @ '': '' @ e), w)
         | (Inr (Inl e), w) \<Rightarrow>
             (Inl (''balanceOf decode '' @ show_address X token @ '' owner '' @ show_address X owner @ '': '' @ e), w)
         | (Inr (Inr v), w) \<Rightarrow> (Inr v, w)))"

definition i256_max :: i256 where
  "i256_max = push_bit 255 1 - 1"

definition try_or_max :: "u256 \<Rightarrow> i256" where
  \<comment> \<open>\<open>I256::try_from(v).unwrap_or(I256::MAX)\<close>\<close>
  "try_or_max v = (case i_try_from v of Some i \<Rightarrow> i | None \<Rightarrow> i256_max)"

definition u256_diff_to_i256 :: "u256 \<Rightarrow> u256 \<Rightarrow> i256" where
  \<comment> \<open>negating a value that is not the least integer never fails\<close>
  "u256_diff_to_i256 post pre =
     (if pre \<le> post then try_or_max (post - pre)
      else
        let signed = try_or_max (pre - post)
        in if signed = push_bit 255 1 then push_bit 255 1 + 1 else - signed)"

definition sign_and_submit ::
    "('p, 'w) rpc \<Rightarrow> 'p LiveBackend \<Rightarrow> Plan \<Rightarrow> 'w \<Rightarrow> (u256, SubmitError) outcome \<times> 'p LiveBackend \<times> 'w" where
  "sign_and_submit X b plan w =
     (let provider = provider_for (lb_providers b) (ep_submission_lane plan)
      in case read_profit_balance X provider (ep_profit_token plan) (lb_signer b) w of
           (Inl e, w) \<Rightarrow> (Err (SE_Rpc (''pre-submit balance: '' @ e)), b, w)
         | (Inr pre_submit_balance, w) \<Rightarrow>
         (case next_nonce X provider b w of
            (Inl e, b, w) \<Rightarrow> (Err e, b, w)
          | (Inr nonce, b, w) \<Rightarrow>
          (case build_tx_request plan of
             Panic \<Rightarrow> (Panic, b, w)
           | Err e \<Rightarrow> (Err e, b, w)
           | Ok tx \<Rightarrow>
             (case send_transaction X provider tx nonce w of
                (Inl e, w) \<Rightarrow>
                  (Err (SE_Rpc (''send_transaction: '' @ e)), b\<lparr>lb_nonce := pc_clear (lb_nonce b)\<rparr>, w)
              | (Inr tx_hash, w) \<Rightarrow>
                  (Ok tx_hash,
                   b\<lparr>lb_submitted := (lb_submitted b)(tx_hash \<mapsto>
                       \<lparr>ctx_from = lb_signer b, ctx_nonce = nonce, ctx_profit_token = ep_profit_token plan,
                        ctx_lane = ep_submission_lane plan, ctx_pre_submit_balance = pre_submit_balance\<rparr>),
                     lb_accepted := lb_accepted b @ [nonce]\<rparr>, w)))))"

definition await_inclusion ::
    "('p, 'w) rpc \<Rightarrow> 'p LiveBackend \<Rightarrow> u256 \<Rightarrow> u64 \<Rightarrow> 'w \<Rightarrow> watch_result option \<times> 'p LiveBackend \<times> 'w" where
  \<comment> \<open>\<open>None\<close> while the watch has not returned\<close>
  "await_inclusion X b tx_hash deadline_ms w =
     (let context = lb_submitted b tx_hash;
          provider = (case context of
            Some ctx \<Rightarrow> provider_for (lb_providers b) (ctx_lane ctx)
          | None \<Rightarrow> provider_for (lb_providers b) LDefault);
          ((subscribed, turns), w) = watch_turns X provider tx_hash w;
          probe = (case context of Some ctx \<Rightarrow> Some (ctx_nonce ctx) | None \<Rightarrow> None);
          forget = b\<lparr>lb_submitted := (lb_submitted b)(tx_hash := None)\<rparr>
      in case watch_internal subscribed probe deadline_ms turns of
           None \<Rightarrow> (None, b, w)
         | Some (Inl e) \<Rightarrow> (Some (Inl e), b, w)
         | Some (Inr (IO_Mined receipt)) \<Rightarrow>
             (case context of
                None \<Rightarrow> (Some (Inr (IO_Mined receipt)), forget, w)
              | Some ctx \<Rightarrow>
                  (case read_profit_balance X provider (ctx_profit_token ctx) (ctx_from ctx) w of
                     (Inl e, w) \<Rightarrow> (Some (Inl (IE_Rpc (''post-inclusion balance: '' @ e))), b, w)
                   | (Inr post_balance, w) \<Rightarrow>
                       (Some (Inr (IO_Mined (receipt\<lparr>ir_realized_balance_delta :=
                            u256_diff_to_i256 post_balance (ctx_pre_submit_balance ctx)\<rparr>))), forget, w)))
         | Some (Inr oc) \<Rightarrow> (Some (Inr oc), forget, w))"

section \<open>The balance change\<close>

lemma unat_i256_max: "unat i256_max = 2 ^ 255 - 1" "unat (push_bit 255 1 :: u256) = 2 ^ 255"
  by (simp_all add: i256_max_def push_bit_eq_mult power_numeral)

lemma try_or_max_sint: "sint (try_or_max v) = int (min (unat v) (2 ^ 255 - 1))"
proof (cases "unat v < 2 ^ 255")
  case True
  then have "i_try_from v = Some v" by (simp add: i_try_from_def sint_small)
  moreover have "min (unat v) (2 ^ 255 - 1) = unat v" using True by linarith
  ultimately show ?thesis using True by (simp add: try_or_max_def sint_small)
next
  case False
  then have "i_try_from v = None" by (simp add: i_try_from_def)
  moreover have "sint i256_max = int (unat i256_max)" by (rule sint_small) (simp add: unat_i256_max)
  moreover have "min (unat v) (2 ^ 255 - 1) = 2 ^ 255 - 1" using False by linarith
  ultimately show ?thesis by (simp only: try_or_max_def option.case unat_i256_max)
qed

lemma try_or_max_unat: "unat (try_or_max v) \<le> 2 ^ 255 - 1"
proof -
  have "0 \<le> sint (try_or_max v)" by (simp add: try_or_max_sint)
  from sint_pos_unat [OF this] show ?thesis using try_or_max_sint [of v] by linarith
qed

lemma balance_change_exact:
  "sint (u256_diff_to_i256 post pre) =
     max (- (2 ^ 255 - 1)) (min (2 ^ 255 - 1) (int (unat post) - int (unat pre)))"
proof -
  have "int (2 ^ 255 - 1) = 2 ^ 255 - 1" by (simp add: of_nat_diff)
  then have clamp: "int (min n (2 ^ 255 - 1)) = min (2 ^ 255 - 1) (int n)" for n
    by (simp only: of_nat_min min.commute)
  have pos: "(0 :: int) \<le> 2 ^ 255 - 1" by simp
  show ?thesis
  proof (cases "pre \<le> post")
    case True
    then have d: "int (unat (post - pre)) = int (unat post) - int (unat pre)"
      by (simp add: unat_sub word_le_nat_alt of_nat_diff)
    have "0 \<le> int (unat post) - int (unat pre)" using True by (simp add: word_le_def)
    then show ?thesis
      using True pos by (simp only: u256_diff_to_i256_def if_True try_or_max_sint clamp d)
  next
    case False
    then have d: "int (unat (pre - post)) = int (unat pre) - int (unat post)"
      by (simp add: unat_sub word_le_nat_alt of_nat_diff)
    have "0 < int (unat pre) - int (unat post)" using False by (simp add: word_le_def)
    have small: "unat (try_or_max (pre - post)) < 2 ^ 255" 
      using try_or_max_unat [of "pre - post"] by (rule le_less_trans) simp
    then have "try_or_max (pre - post) \<noteq> push_bit 255 1" using unat_i256_max(2) by auto
    then have "u256_diff_to_i256 post pre = - try_or_max (pre - post)"
      using False by (simp add: u256_diff_to_i256_def Let_def)
    moreover have "sint (- try_or_max (pre - post)) = - sint (try_or_max (pre - post))"
      using small by (simp only: sint_neg_small sint_small less_imp_le)
    ultimately show ?thesis
      using \<open>0 < _\<close> pos by (simp only: try_or_max_sint clamp d)
  qed
qed

section \<open>Nonces\<close>

datatype 'p nonce_event = Asked 'p u64 | Sent 'p u64 bool
  \<comment> \<open>a pending count that a provider reported; a transaction passed to a provider, and whether it was accepted\<close>

definition carry :: "('w \<Rightarrow> 'a \<times> 'w) \<Rightarrow> 'w \<times> 'e \<Rightarrow> 'a \<times> 'w \<times> 'e" where
  "carry f s = (case s of (w, es) \<Rightarrow> case f w of (r, w') \<Rightarrow> (r, w', es))"

definition logged :: "('p, 'w) rpc \<Rightarrow> ('p, 'w \<times> 'p nonce_event list) rpc" where
  \<comment> \<open>the same network, which also keeps the list of what concerns nonces, the latest event last\<close>
  "logged X =
     \<lparr>now_ms = carry (now_ms X), get_balance = \<lambda>p a. carry (get_balance X p a),
      balance_of = \<lambda>p t a. carry (balance_of X p t a),
      pending_count = \<lambda>p a (w, es). (case pending_count X p a w of
         (Inl e, w') \<Rightarrow> (Inl e, w', es)
       | (Inr k, w') \<Rightarrow> (Inr k, w', es @ [Asked p k])),
      send_transaction = \<lambda>p tx n (w, es). (case send_transaction X p tx n w of
         (Inl e, w') \<Rightarrow> (Inl e, w', es @ [Sent p n False])
       | (Inr h, w') \<Rightarrow> (Inr h, w', es @ [Sent p n True])),
      watch_turns = \<lambda>p h. carry (watch_turns X p h), show_address = show_address X\<rparr>"

fun submit_all :: "('p, 'w) rpc \<Rightarrow> 'p LiveBackend \<Rightarrow> Plan list \<Rightarrow> 'w \<Rightarrow> 'p LiveBackend \<times> 'w" where
  \<comment> \<open>plans submitted one after the other; a panic ends the actor\<close>
  "submit_all X b [] w = (b, w)"
| "submit_all X b (plan # plans) w =
     (case sign_and_submit X b plan w of
        (Panic, b', w') \<Rightarrow> (b', w')
      | (_, b', w') \<Rightarrow> submit_all X b' plans w')"

definition justifies :: "'p nonce_event list \<Rightarrow> 'p \<Rightarrow> u64 \<Rightarrow> bool" where
  \<comment> \<open>what happened last explains a transaction sent to \<open>p\<close> with the nonce \<open>n\<close>: \<open>p\<close> has just reported
    this pending count, or the last transaction, on whatever lane, was accepted with the nonce before it\<close>
  "justifies es p n \<longleftrightarrow>
     es \<noteq> [] \<and> (last es = Asked p n \<or> (\<exists>q m. last es = Sent q m True \<and> n = m + 1))"

definition lawful :: "'p nonce_event list \<Rightarrow> bool" where
  "lawful es \<longleftrightarrow> (\<forall>xs p n ok ys. es = xs @ Sent p n ok # ys \<longrightarrow> justifies xs p n)"

definition follows_last :: "'p LiveBackend \<Rightarrow> 'p nonce_event list \<Rightarrow> bool" where
  \<comment> \<open>between two plans the cached nonce is the successor of the one accepted last\<close>
  "follows_last b es \<longleftrightarrow>
     (\<forall>m. pc_pending (lb_nonce b) = Some m \<longrightarrow> es \<noteq> [] \<and> (\<exists>q k. last es = Sent q k True \<and> m = k + 1))"

fun accepted_nonce :: "'p nonce_event \<Rightarrow> u64 option" where
  "accepted_nonce (Sent p n True) = Some n"
| "accepted_nonce _ = None"

lemma carry_simps [simp]: "fst (snd (carry f (w, es))) = snd (f w)" "fst (carry f (w, es)) = fst (f w)"
    "snd (snd (carry f (w, es))) = es"
  by (simp_all add: carry_def split: prod.split)

lemma lawful_Nil: "lawful []"
  by (simp add: lawful_def)

lemma lawful_Asked: "lawful es \<Longrightarrow> lawful (es @ [Asked p k])"
  unfolding lawful_def by (metis butlast.simps(2) butlast_append butlast_snoc last_ConsL last_ConsR last_appendR
      list.distinct(1) nonce_event.distinct(1))

lemma lawful_Sent: "lawful es \<Longrightarrow> justifies es p n \<Longrightarrow> lawful (es @ [Sent p n ok])"
  unfolding lawful_def
proof (intro allI impI)
  fix xs q k ok' ys
  assume es: "\<forall>xs p n ok ys. es = xs @ Sent p n ok # ys \<longrightarrow> justifies xs p n" and j: "justifies es p n"
    and e: "es @ [Sent p n ok] = xs @ Sent q k ok' # ys"
  show "justifies xs q k"
  proof (cases ys rule: rev_cases)
    case Nil
    with e j show ?thesis by simp
  next
    case (snoc zs z)
    with e have "es = xs @ Sent q k ok' # zs" by simp
    with es show ?thesis by blast
  qed
qed

lemma take_fresh_log:
  assumes "take_fresh (logged X) b (w, es) = (r, b', w', es')"
  shows "es' = es \<and> lb_accepted b' = lb_accepted b \<and>
    (case r of
       None \<Rightarrow> pc_pending (lb_nonce b') = None
     | Some n \<Rightarrow> pc_pending (lb_nonce b) = Some n \<and> pc_pending (lb_nonce b') = Some (n + 1))"
  using assms
  by (auto simp: take_fresh_def logged_def carry_def take_and_increment_if_fresh_def
      split: prod.splits option.splits if_splits)

lemma next_nonce_log:
  assumes r: "next_nonce (logged X) p b (w, es) = (r, b', w', es')"
    and es: "lawful es" "follows_last b es"
  shows "lawful es' \<and> lb_accepted b' = lb_accepted b \<and> List.map_filter accepted_nonce es' = List.map_filter accepted_nonce es \<and>
    (case r of Inl e \<Rightarrow> pc_pending (lb_nonce b') = None
     | Inr n \<Rightarrow> justifies es' p n \<and> pc_pending (lb_nonce b') = Some (n + 1))"
proof -
  obtain r1 b1 w1 es1 where t1: "take_fresh (logged X) b (w, es) = (r1, b1, w1, es1)" by (metis prod_cases4)
  obtain r2 b2 w2 es2 where t2: "take_fresh (logged X) b1 (w1, es1) = (r2, b2, w2, es2)" by (metis prod_cases4)
  obtain t w3 where n3: "now_ms X w2 = (t, w3)" by force
  obtain q w4 where p4: "pending_count X p (lb_signer b2) w3 = (q, w4)" by force
  note f1 = take_fresh_log [OF t1] and f2 = take_fresh_log [OF t2]
  show ?thesis
  proof (cases r1)
    case (Some n)
    then show ?thesis
      using r t1 f1 es by (auto simp: next_nonce_def follows_last_def justifies_def)
  next
    case None
    note r1 = this
    then have r2: "r2 = None" using f1 f2 by (cases r2) auto
    show ?thesis
    proof (cases q)
      case (Inl e)
      then show ?thesis
        using r t1 t2 n3 p4 r1 r2 f1 f2 es by (auto simp: next_nonce_def logged_def carry_def)
    next
      case (Inr k)
      let ?b = "b2\<lparr>lb_nonce := prime (lb_nonce b2) k t\<rparr>"
      obtain r5 b5 w5 es5 where t5: "take_fresh (logged X) ?b (w4, es @ [Asked p k]) = (r5, b5, w5, es5)"
        by (metis prod_cases4)
      have "next_nonce (logged X) p b (w, es)
          = (case r5 of Some n \<Rightarrow> Inr n | None \<Rightarrow> Inl (SE_Nonce ''pending nonce cache did not prime''), b5, w5, es5)"
        using t1 t2 n3 p4 r1 r2 f1 f2 Inr t5
        by (simp add: next_nonce_def) (simp add: logged_def carry_def split: option.splits)
      with r take_fresh_log [OF t5] f1 f2 lawful_Asked [OF es(1), of p k] show ?thesis
        by (auto simp: prime_def justifies_def map_filter_def split: option.splits)
    qed
  qed
qed

lemma balance_log:
  "read_profit_balance (logged X) p t a (w, es) = (r, w', es') \<Longrightarrow> es' = es"
  by (auto simp: read_profit_balance_def logged_def carry_def split: if_splits prod.splits sum.splits)

lemma build_never_Err: "build_tx_request plan \<noteq> Err e"
  by (simp add: build_tx_request_def uint_to_u128_def)

lemma submit_log:
  assumes r: "sign_and_submit (logged X) b plan (w, es) = (r, b', w', es')"
    and es: "lawful es" "follows_last b es" "lb_accepted b = List.map_filter accepted_nonce es"
  shows "lawful es' \<and> lb_accepted b' = List.map_filter accepted_nonce es' \<and> (r \<noteq> Panic \<longrightarrow> follows_last b' es')"
proof -
  let ?p = "provider_for (lb_providers b) (ep_submission_lane plan)"
  obtain q1 w1 es1 where t1: "read_profit_balance (logged X) ?p (ep_profit_token plan) (lb_signer b) (w, es) = (q1, w1, es1)"
    by (metis prod_cases3)
  then have es1: "es1 = es" by (rule balance_log)
  show ?thesis
  proof (cases q1)
    case (Inl e)
    then show ?thesis using r t1 es1 es by (auto simp: sign_and_submit_def)
  next
    case (Inr pre)
    note pre = this
    obtain q2 b2 w2 es2 where t2: "next_nonce (logged X) ?p b (w1, es) = (q2, b2, w2, es2)" by (metis prod_cases4)
    note n2 = next_nonce_log [OF t2 es(1,2)]
    show ?thesis
    proof (cases q2)
      case (Inl e)
      then show ?thesis using r t1 t2 es1 pre n2 es by (auto simp: sign_and_submit_def follows_last_def)
    next
      case (Inr n)
      then have n: "justifies es2 ?p n" "pc_pending (lb_nonce b2) = Some (n + 1)" using n2 by auto
      show ?thesis
      proof (cases "build_tx_request plan :: (TransactionRequest, SubmitError) outcome")
        case (Ok tx)
        obtain q3 w3 where t3: "send_transaction X ?p tx n w2 = (q3, w3)" by force
        have "send_transaction (logged X) ?p tx n (w2, es2)
            = (q3, w3, es2 @ [Sent ?p n (case q3 of Inl e \<Rightarrow> False | Inr h \<Rightarrow> True)])"
          using t3 by (simp add: logged_def split: sum.split)
        then show ?thesis
          using r t1 t2 es1 pre Inr Ok n n2 es lawful_Sent [of es2 ?p n]
          by (cases q3) (auto simp: sign_and_submit_def follows_last_def pc_clear_def map_filter_def)
      qed (use r t1 t2 es1 pre Inr n2 es in \<open>auto simp: sign_and_submit_def build_never_Err\<close>)
    qed
  qed
qed

lemma submit_all_log:
  "submit_all (logged X) b plans (w, es) = (b', w', es') \<Longrightarrow> lawful es \<Longrightarrow> follows_last b es \<Longrightarrow>
    lb_accepted b = List.map_filter accepted_nonce es \<Longrightarrow>
    lawful es' \<and> lb_accepted b' = List.map_filter accepted_nonce es'"
proof (induction plans arbitrary: b w es)
  case (Cons plan plans)
  obtain r b1 w1 es1 where s: "sign_and_submit (logged X) b plan (w, es) = (r, b1, w1, es1)" by (metis prod_cases4)
  from submit_log [OF s Cons.prems(2-4)] Cons.prems(1) Cons.IH [of b1 w1 es1] show ?case
    by (cases r) (auto simp: s)
qed simp

lemma take_fresh_same:
  "take_fresh (logged X) b (w, es) = (case take_fresh X b w of (r, b', w') \<Rightarrow> (r, b', w', es))"
  by (simp add: take_fresh_def logged_def carry_def split: prod.splits)

lemma ask_same:
  "pending_count (logged X) p a (w, es) = (case pending_count X p a w of (r, w') \<Rightarrow>
     (r, w', case r of Inl e \<Rightarrow> es | Inr k \<Rightarrow> es @ [Asked p k]))"
  by (simp add: logged_def split: prod.splits sum.splits)

lemma next_nonce_same:
  "\<exists>es'. next_nonce (logged X) p b (w, es) = (case next_nonce X p b w of (r, b', w') \<Rightarrow> (r, b', w', es'))"
proof -
  have now: "now_ms (logged X) (w, es) = (case now_ms X w of (t, w') \<Rightarrow> (t, w', es))" for w es
    by (simp add: logged_def carry_def)
  show ?thesis
    by (auto simp: next_nonce_def take_fresh_same now ask_same split: prod.splits option.splits sum.splits)
qed

lemma balance_same:
  "read_profit_balance (logged X) p t a (w, es) = (case read_profit_balance X p t a w of (r, w') \<Rightarrow> (r, w', es))"
  by (simp add: read_profit_balance_def logged_def carry_def split: prod.splits sum.splits)

lemma sign_and_submit_same:
  "\<exists>es'. sign_and_submit (logged X) b plan (w, es) = (case sign_and_submit X b plan w of (r, b', w') \<Rightarrow> (r, b', w', es'))"
proof -
  let ?p = "provider_for (lb_providers b) (ep_submission_lane plan)"
  obtain r1 w1 where t1: "read_profit_balance X ?p (ep_profit_token plan) (lb_signer b) w = (r1, w1)" by force
  obtain r2 b2 w2 where t2: "next_nonce X ?p b w1 = (r2, b2, w2)" by (metis prod_cases3)
  obtain es2 where l2: "next_nonce (logged X) ?p b (w1, es) = (r2, b2, w2, es2)"
    using next_nonce_same [of X ?p b w1 es] t2 by auto
  have send: "send_transaction (logged X) p tx n (w2, es2) = (case send_transaction X p tx n w2 of (r, w') \<Rightarrow>
      (r, w', es2 @ [Sent p n (case r of Inl e \<Rightarrow> False | Inr h \<Rightarrow> True)]))" for p tx n
    by (simp add: logged_def split: prod.splits sum.splits)
  show ?thesis
    by (simp add: sign_and_submit_def Let_def balance_same t1 l2 t2 send split: sum.splits outcome.splits prod.splits)
qed

lemma submit_all_same:
  "\<exists>es'. submit_all (logged X) b plans (w, es) = (case submit_all X b plans w of (b', w') \<Rightarrow> (b', w', es'))"
proof (induction plans arbitrary: b w es)
  case (Cons plan plans)
  obtain r b1 w1 where s: "sign_and_submit X b plan w = (r, b1, w1)" by (metis prod_cases3)
  obtain es1 where l: "sign_and_submit (logged X) b plan (w, es) = (r, b1, w1, es1)"
    using sign_and_submit_same [of X b plan w es] s by auto
  show ?case using Cons.IH [of b1 w1 es1] by (cases r) (simp_all add: s l)
qed simp

section \<open>Properties\<close>

text \<open>
  C8. Every nonce is accounted for: whatever the network answers, however the clock moves and whichever lanes the
  plans take, a transaction is sent either with the pending count that the provider of its own lane has just
  reported, or with the successor of the nonce of the previous transaction, and then only when that one was
  accepted. So a nonce is never skipped or repeated between two queries, a refused nonce is never built upon
  without asking again, and the nonces recorded as accepted are those of the transactions that were.\<close>

theorem live_nonces_lawful:
  "case submit_all (logged X) (with_signer signer providers) plans (w, []) of
     (b, w', events) \<Rightarrow>
       submit_all X (with_signer signer providers) plans w = (b, w') \<and> lawful events \<and>
       lb_accepted b = List.map_filter accepted_nonce events"
proof -
  obtain b w' es where r: "submit_all (logged X) (with_signer signer providers) plans (w, []) = (b, w', es)"
    by (metis prod_cases3)
  have "lawful es \<and> lb_accepted b = List.map_filter accepted_nonce es"
    by (rule submit_all_log [OF r])
      (simp_all add: lawful_Nil follows_last_def with_signer_def pc_new_def map_filter_def)
  moreover have "submit_all X (with_signer signer providers) plans w = (b, w')"
    using submit_all_same [of X "with_signer signer providers" plans w "[]"] r
    by (cases "submit_all X (with_signer signer providers) plans w") auto
  ultimately show ?thesis by (simp add: r)
qed

definition sample_rpc :: "(unit, u64) rpc" where
  \<comment> \<open>a chain whose state is the next nonce of the account, and which accepts no other\<close>
  "sample_rpc =
     \<lparr>now_ms = \<lambda>w. (0, w), get_balance = \<lambda>_ _ w. (Inr 0, w), balance_of = \<lambda>_ _ _ w. (Inr (Inr 0), w),
      pending_count = \<lambda>_ _ w. (Inr w, w),
      send_transaction = \<lambda>_ _ n w. if n = w \<and> n < u_max then (Inr (ucast n), n + 1) else (Inl ''nonce'', w),
      watch_turns = \<lambda>_ _ w. ((False, []), w), show_address = \<lambda>_. []\<rparr>"

definition sample_plan :: Plan where
  "sample_plan =
     \<lparr>ep_trace_id = [], ep_opportunity_id = [], ep_admission_hash = None, ep_kind = PK_NativeArb, ep_target = 1,
      ep_calldata = [], ep_value = 0, ep_gas_limit = 21000,
      ep_gas_envelope = \<lparr>max_fee_per_gas_wei = 2, max_priority_fee_per_gas_wei = 1\<rparr>, ep_deadline_ms = 0,
      ep_require_preflight = False, ep_expected_balance_delta_floor = 0, ep_profit_token = 0,
      ep_submission_lane = LKairos, ep_timeboost_bid_wei = None, ep_dry_run = False, ep_eip7702 = None\<rparr>"

text \<open>The pending count is asked of the lane of the plan at hand. A relay keeps its transactions to itself, so when the
  cache has expired between two plans the second lane can report, and accept, the nonce that the first has
  accepted already.\<close>

definition two_lanes :: "(bool, u64 \<times> u64 \<times> u64) rpc" where
  \<comment> \<open>a relay and a public node, each with a next nonce of its own; the clock moves by 600 ms a reading\<close>
  "two_lanes =
     \<lparr>now_ms = \<lambda>(t, w). (t, t + 600, w), get_balance = \<lambda>_ _ w. (Inr 0, w), balance_of = \<lambda>_ _ _ w. (Inr (Inr 0), w),
      pending_count = \<lambda>p _ (t, r, n). (Inr (if p then r else n), t, r, n),
      send_transaction = \<lambda>p _ k (t, r, n).
        if k = (if p then r else n) then (Inr (ucast k), t, if p then (k + 1, n) else (r, k + 1)) else (Inl ''nonce'', t, r, n),
      watch_turns = \<lambda>_ _ w. ((False, []), w), show_address = \<lambda>_. []\<rparr>"

lemma lanes_share_nonce:
  "lb_accepted (fst (submit_all two_lanes (with_signer 7
      \<lparr>ps_default = False, ps_private_relay = None, ps_kairos = Some True, ps_timeboost = None\<rparr>)
      [sample_plan, sample_plan\<lparr>ep_submission_lane := LDefault\<rparr>] (0, 5, 5))) = [5, 5]"
  by (simp add: sign_and_submit_def next_nonce_def take_fresh_def read_profit_balance_def two_lanes_def
      sample_plan_def with_signer_def pc_new_def take_and_increment_if_fresh_def prime_def NONCE_CACHE_TTL_MS_def
      saturating_sub_def build_tx_request_def uint_to_u128_def or_default_def power_numeral)

lemma take_fresh_frame:
  "take_fresh X b w = (r, b', w') \<Longrightarrow>
    lb_submitted b' = lb_submitted b \<and> lb_signer b' = lb_signer b \<and> lb_providers b' = lb_providers b"
  by (auto simp: take_fresh_def split: prod.splits)

lemma next_nonce_frame:
  assumes "next_nonce X p b w = (r, b', w')"
  shows "lb_submitted b' = lb_submitted b \<and> lb_signer b' = lb_signer b \<and> lb_providers b' = lb_providers b"
proof -
  obtain r1 b1 w1 where t1: "take_fresh X b w = (r1, b1, w1)" by (metis prod_cases3)
  obtain r2 b2 w2 where t2: "take_fresh X b1 w1 = (r2, b2, w2)" by (metis prod_cases3)
  show ?thesis
    using assms t1 t2 take_fresh_frame [OF t1] take_fresh_frame [OF t2]
    by (auto simp: next_nonce_def split: option.splits sum.splits prod.splits dest!: take_fresh_frame)
qed

lemma submit_records:
  assumes "sign_and_submit X b plan w = (Ok tx_hash, b', w')"
  shows "\<exists>pre n w1. read_profit_balance X (provider_for (lb_providers b) (ep_submission_lane plan))
      (ep_profit_token plan) (lb_signer b) w = (Inr pre, w1) \<and> lb_providers b' = lb_providers b \<and>
    lb_submitted b' = (lb_submitted b)(tx_hash \<mapsto>
      \<lparr>ctx_from = lb_signer b, ctx_nonce = n, ctx_profit_token = ep_profit_token plan,
       ctx_lane = ep_submission_lane plan, ctx_pre_submit_balance = pre\<rparr>)"
proof -
  let ?p = "provider_for (lb_providers b) (ep_submission_lane plan)"
  obtain pre w1 where t1: "read_profit_balance X ?p (ep_profit_token plan) (lb_signer b) w = (Inr pre, w1)"
    using assms by (auto simp: sign_and_submit_def Let_def split: prod.splits sum.splits)
  obtain n b2 w2 where t2: "next_nonce X ?p b w1 = (Inr n, b2, w2)"
    using assms t1 by (auto simp: sign_and_submit_def Let_def split: prod.splits sum.splits)
  note f = next_nonce_frame [OF t2]
  show ?thesis
    using assms t1 t2 f by (auto simp: sign_and_submit_def Let_def split: outcome.splits prod.splits sum.splits)
qed

text \<open>
  C9. The settled balance change is the measured one: when a submitted transaction is reported mined, the change in its
  receipt is the exact difference, clamped to the signed range, of the signer's profit-token balance read on the
  plan's lane before the submission and after the inclusion, and the record of the transaction is dropped.\<close>

theorem settled_change_is_measured:
  "sign_and_submit X b plan w = (Ok h, b1, w1) \<Longrightarrow>
    await_inclusion X b1 h deadline_ms w2 = (Some (Inr (IO_Mined m)), b3, w3) \<Longrightarrow>
    \<exists>pre post u v.
      read_profit_balance X (provider_for (lb_providers b) (ep_submission_lane plan)) (ep_profit_token plan)
        (lb_signer b) w = (Inr pre, u) \<and>
      read_profit_balance X (provider_for (lb_providers b) (ep_submission_lane plan)) (ep_profit_token plan)
        (lb_signer b) v = (Inr post, w3) \<and>
      sint (ir_realized_balance_delta m) = max (- (2 ^ 255 - 1)) (min (2 ^ 255 - 1) (int (unat post) - int (unat pre))) \<and>
      lb_submitted b3 = (lb_submitted b)(h := None)"
proof -
  assume s: "sign_and_submit X b plan w = (Ok h, b1, w1)"
    and a: "await_inclusion X b1 h deadline_ms w2 = (Some (Inr (IO_Mined m)), b3, w3)"
  let ?p = "provider_for (lb_providers b) (ep_submission_lane plan)"
  obtain pre n u where pre: "read_profit_balance X ?p (ep_profit_token plan) (lb_signer b) w = (Inr pre, u)"
    and b1: "lb_providers b1 = lb_providers b" "lb_submitted b1 = (lb_submitted b)(h \<mapsto>
      \<lparr>ctx_from = lb_signer b, ctx_nonce = n, ctx_profit_token = ep_profit_token plan,
       ctx_lane = ep_submission_lane plan, ctx_pre_submit_balance = pre\<rparr>)"
    using submit_records [OF s] by blast
  obtain sub turns v where t: "watch_turns X ?p h w2 = ((sub, turns), v)" by (metis prod_cases3 surj_pair)
  obtain post where "read_profit_balance X ?p (ep_profit_token plan) (lb_signer b) v = (Inr post, w3)"
    "ir_realized_balance_delta m = u256_diff_to_i256 post pre" "lb_submitted b3 = (lb_submitted b)(h := None)"
    using a t b1 by (auto simp: await_inclusion_def Let_def split: option.splits sum.splits InclusionOutcome.splits prod.splits)
  with pre show ?thesis using balance_change_exact by metis
qed

definition sample_chain :: "(unit, u64) rpc" where
  \<comment> \<open>every accepted transaction earns 10 and is mined at once\<close>
  "sample_chain = sample_rpc\<lparr>get_balance := \<lambda>_ _ w. (Inr (10 * ucast w), w),
     watch_turns := \<lambda>_ _ w. ((False, [\<lparr>clock_ms = 0, receipt_rpc = Inr (Some \<lparr>rc_block_number = Some 1,
       rc_gas_used = 21000, rc_effective_gas_price = 1, rc_status = True\<rparr>), nonce_rpc = Inr 0, woken_by = PollTick\<rparr>]), w)\<rparr>"

theorem settled_change_is_measured_witness:
  "\<exists>b1 w1 b3 w3 m.
     sign_and_submit sample_chain (with_signer 7
       \<lparr>ps_default = (), ps_private_relay = None, ps_kairos = None, ps_timeboost = None\<rparr>) sample_plan 5
       = (Ok 5, b1, w1) \<and>
     await_inclusion sample_chain b1 5 1000 w1 = (Some (Inr (IO_Mined m)), b3, w3) \<and>
     sint (ir_realized_balance_delta m) = 10 \<and> lb_submitted b3 = Map.empty"
proof -
  let ?b = "with_signer 7 \<lparr>ps_default = (), ps_private_relay = None, ps_kairos = None, ps_timeboost = None\<rparr>"
  obtain b1 w1 where s: "sign_and_submit sample_chain ?b sample_plan 5 = (Ok 5, b1, w1)"
    and w1: "w1 = 6" and b1: "lb_providers b1 = lb_providers ?b" "lb_submitted b1 5 = Some
      \<lparr>ctx_from = 7, ctx_nonce = 5, ctx_profit_token = 0, ctx_lane = LKairos, ctx_pre_submit_balance = 50\<rparr>"
    by (simp add: sign_and_submit_def next_nonce_def take_fresh_def read_profit_balance_def sample_rpc_def sample_chain_def
        sample_plan_def with_signer_def pc_new_def take_and_increment_if_fresh_def prime_def NONCE_CACHE_TTL_MS_def
        saturating_sub_def build_tx_request_def uint_to_u128_def u_max_def power_numeral)
  obtain b3 w3 m where a: "await_inclusion sample_chain b1 5 1000 w1 = (Some (Inr (IO_Mined m)), b3, w3)" "w3 = 6"
    by (simp add: await_inclusion_def Let_def b1 w1 sample_chain_def sample_rpc_def deadline_passed_def check_receipt_def
        read_profit_balance_def with_signer_def split: prod.splits)
  show ?thesis
    using settled_change_is_measured [OF s a(1)] s a
    by (auto simp: read_profit_balance_def sample_chain_def sample_rpc_def sample_plan_def with_signer_def power_numeral)
qed

lemma mined_but_unread:
  assumes "lb_submitted b h = Some ctx" "p = provider_for (lb_providers b) (ctx_lane ctx)"
    and "watch_turns X p h w = ((sub, turns), w1)"
    and "watch_internal sub (Some (ctx_nonce ctx)) deadline_ms turns = Some (Inr (IO_Mined receipt))"
    and "read_profit_balance X p (ctx_profit_token ctx) (ctx_from ctx) w1 = (Inl e, w2)"
  shows "await_inclusion X b h deadline_ms w = (Some (Inl (IE_Rpc (''post-inclusion balance: '' @ e))), b, w2)"
  using assms by (simp add: await_inclusion_def Let_def)

end
