(* ===== verification/Sandoo_Ideas.thy ===== *)
theory Sandoo_Ideas
  imports Rust_Prelude
begin

text \<open>
  The candidate score of \<open>decision/sandoo_ideas.rs\<close> over the opportunity and quote types of
  \<open>monitor/types.rs\<close>. The operators of \<open>U256\<close> wrap; divisions by a value that the code has tested are the
  division of words, the others panic on zero.
\<close>

section \<open>Opportunities and quotes\<close>

datatype MonitorDexKind =
    UniswapV2 | UniswapV3 | UniswapV4 | UniswapUniversalRouter | PancakeSwapV2 | PancakeSwapV3 | SushiSwapV2
  | SushiSwapV3 | CamelotV2 | CamelotV3 | CamelotAlgebraV4 | FraxSwap | BalancerV2 | BalancerV3 | CurveDex | CurveNG
  | Aerodrome | Solidly | RamsesV2 | Algebra | KyberElastic | MaverickV2 | DodoPmm | FluidDex | LFJLiquidityBook
  | GMXV2 | Wombat | Bebop | Hashflow | WooFi | OKXDex | Enso | Squid | LiFi | Rango | Rubic | Native | OneInchV6
  | ZeroX | ParaSwap | Odos | KyberSwap | OpenOcean | AggregatorV6 | MorphoBlue

record MorphoMarketParams =
  loan_token :: u160
  collateral_token :: u160
  mm_oracle :: u160
  irm :: u160
  lltv :: u256

datatype MorphoBadDebtMode = NoBadDebt | AllowProfitable | RealizeAnyway

record MorphoLiquidationOpportunityPayload =
  market_id :: u256
  market_params :: MorphoMarketParams
  borrower :: u160
  repaid_shares :: u256
  expected_seized_assets :: u256
  ranking_score_bps :: u256
  risk_cost_wei :: u256
  bad_debt_mode :: MorphoBadDebtMode

datatype OpportunityKind =
    OK_NativeArb
  | OK_CoWIntentFillable u256
  | OK_UniswapXFillable u256
  | OK_AcrossFillable u256
  | OK_MorphoLiquidation MorphoLiquidationOpportunityPayload

record V4PoolKey =
  currency0 :: u160
  currency1 :: u160
  pk_fee :: u32
  pk_tick_spacing :: i32
  hooks :: u160

record MonitorSwapStep =
  ss_pool :: u160
  ss_token_in :: u160
  ss_token_out :: u160
  ss_amount_in :: u256
  ss_amount_out_min :: u256
  ss_zero_for_one :: bool
  ss_dex :: MonitorDexKind
  ss_fee :: "u32 option"
  ss_pool_key :: "V4PoolKey option"
  ss_hook_data :: "u8 list option"
  ss_deadline :: "u64 option"
  ss_token_in_idx :: "u32 option"
  ss_token_out_idx :: "u32 option"
  ss_is_legacy :: "bool option"

record Opportunity =
  op_id :: string
  op_detected_at_ns :: u64
  op_kind :: OpportunityKind
  op_token_in :: u160
  op_token_out :: u160
  op_amount_in :: u256
  op_expected_amount_out :: u256
  op_estimated_profit_wei :: u256
  op_flash_token :: u160
  op_flash_amount :: u256
  op_path :: "MonitorSwapStep list"
  op_pool_addresses :: "u160 list"

record AggregatorQuote =
  aq_source :: string
  aq_amount_out :: u256
  aq_router :: u160
  aq_calldata :: "u8 list"
  aq_estimated_gas :: u64
  aq_fee_bps :: u32
  aq_timestamp_ms :: u64
  aq_expires_at :: u64
  aq_provider :: "string option"

section \<open>The signal\<close>

definition SANDOOSCORE_SCALE :: u256 where "SANDOOSCORE_SCALE = 1000000"

definition GWEI_IN_WEI :: u256 where "GWEI_IN_WEI = 1000000000"

definition HUNDRED_PERCENT_BPS :: u256 where "HUNDRED_PERCENT_BPS = 10000"

record SandooIdeaComponents =
  sc_estimated_profit_wei :: u256
  sc_safe_size_wei :: u256
  sc_quote_amount_out :: u256
  sc_quote_amount_net_out :: u256
  sc_route_gas_wei :: u256
  sc_quote_fee_wei :: u256
  sc_flash_loan_fee_wei :: u256
  sc_net_profit_after_cost_wei :: u256
  sc_size_vs_flash_ratio_bps :: u256
  sc_quote_profit_gap_wei :: u256
  sc_score_scale :: u256

record SandooIdeaSignal =
  eligible :: bool
  score :: u256
  reasons :: "string list"
  components :: SandooIdeaComponents

definition monus :: "u256 \<Rightarrow> u256 \<Rightarrow> u256" where
  \<comment> \<open>\<open>if a > b { a - b } else { 0 }\<close>\<close>
  "monus a b = (if b < a then a - b else 0)"

definition route_gas :: "AggregatorQuote option \<Rightarrow> u64 \<Rightarrow> u256" where
  "route_gas best_quote max_gas_price_gwei =
     (let max_gas_fee_wei = ucast max_gas_price_gwei * GWEI_IN_WEI
      in case best_quote of Some q \<Rightarrow> ucast (aq_estimated_gas q) * max_gas_fee_wei | None \<Rightarrow> 0)"

definition quote_fee :: "Opportunity \<Rightarrow> AggregatorQuote option \<Rightarrow> u256" where
  "quote_fee opp best_quote =
     (case best_quote of
        Some q \<Rightarrow> op_amount_in opp * ucast (aq_fee_bps q) div HUNDRED_PERCENT_BPS
      | None \<Rightarrow> 0)"

definition quote_out :: "AggregatorQuote option \<Rightarrow> u256" where
  "quote_out best_quote = (case best_quote of Some q \<Rightarrow> aq_amount_out q | None \<Rightarrow> 0)"

definition size_ratio :: "Opportunity \<Rightarrow> u256 \<Rightarrow> u256" where
  "size_ratio opp safe_size_wei =
     (if 0 < op_amount_in opp then safe_size_wei * HUNDRED_PERCENT_BPS div op_amount_in opp else 0)"

definition build_negative_signal ::
    "Opportunity \<Rightarrow> AggregatorQuote option \<Rightarrow> u256 \<Rightarrow> string \<Rightarrow> u64 \<Rightarrow> u256 \<Rightarrow> u256 \<Rightarrow> SandooIdeaSignal" where
  "build_negative_signal opp best_quote safe_size_wei reason max_gas_price_gwei flash_loan_fee_wei
       net_profit_after_cost_wei =
     \<lparr>eligible = False, score = 0, reasons = [reason],
      components =
        \<lparr>sc_estimated_profit_wei = op_estimated_profit_wei opp,
         sc_safe_size_wei = safe_size_wei,
         sc_quote_amount_out = quote_out best_quote,
         sc_quote_amount_net_out = monus (quote_out best_quote) (op_amount_in opp),
         sc_route_gas_wei = route_gas best_quote max_gas_price_gwei,
         sc_quote_fee_wei = quote_fee opp best_quote,
         sc_flash_loan_fee_wei = flash_loan_fee_wei,
         sc_net_profit_after_cost_wei = net_profit_after_cost_wei,
         sc_size_vs_flash_ratio_bps = size_ratio opp safe_size_wei,
         sc_quote_profit_gap_wei = 0,
         sc_score_scale = SANDOOSCORE_SCALE\<rparr>\<rparr>"

definition evaluate_sandoo_idea ::
    "Opportunity \<Rightarrow> AggregatorQuote option \<Rightarrow> u64 \<Rightarrow> u256 \<Rightarrow> (SandooIdeaSignal, 'e) outcome" where
  "evaluate_sandoo_idea opp best_quote max_gas_price_gwei flash_loan_fee_wei =
     (if op_flash_amount opp = 0 then
        Ok (build_negative_signal opp best_quote 0 ''zero_flash_amount'' max_gas_price_gwei flash_loan_fee_wei 0)
      else
        let safe_size_wei = min (op_amount_in opp) (op_flash_amount opp) in
        if safe_size_wei = 0 then
          Ok (build_negative_signal opp best_quote safe_size_wei ''safe_size_zero'' max_gas_price_gwei
            flash_loan_fee_wei 0)
        else if op_estimated_profit_wei opp = 0 then
          Ok (build_negative_signal opp best_quote safe_size_wei ''non_positive_estimated_profit''
            max_gas_price_gwei flash_loan_fee_wei 0)
        else
          let quote_amount_net_out = monus (quote_out best_quote) (op_amount_in opp);
              route_gas_wei = route_gas best_quote max_gas_price_gwei;
              quote_fee_wei = quote_fee opp best_quote;
              total_cost = route_gas_wei + quote_fee_wei + flash_loan_fee_wei;
              net_profit_after_cost_wei = monus (op_estimated_profit_wei opp) total_cost
          in
          if net_profit_after_cost_wei = 0 then
            Ok (build_negative_signal opp best_quote safe_size_wei ''cost_after_profit_not_positive''
              max_gas_price_gwei flash_loan_fee_wei net_profit_after_cost_wei)
          else
            let size_vs_flash_ratio_bps = size_ratio opp safe_size_wei;
                reasons1 = (if size_vs_flash_ratio_bps < HUNDRED_PERCENT_BPS
                  then [''flash_amount_caps_execution_size''] else []);
                quote_profit_gap_wei =
                  (if best_quote \<noteq> None \<and> op_token_in opp = op_token_out opp
                   then monus quote_amount_net_out (op_estimated_profit_wei opp) else 0);
                reasons2 = (if quote_profit_gap_wei \<noteq> 0 then [''quote_outperforms_candidate_profit''] else [])
            in
            obind (u_div (net_profit_after_cost_wei * SANDOOSCORE_SCALE) safe_size_wei) (\<lambda>sc.
              let reasons3 =
                    (if size_vs_flash_ratio_bps \<noteq> 0 \<and> sc = 0 then [''positive_profit_lost_to_size_rounding'']
                     else if sc \<noteq> 0 then [''candidate_has_positive_adj_profit''] else [])
              in Ok \<lparr>eligible = True, score = sc, reasons = reasons1 @ reasons2 @ reasons3,
                     components =
                       \<lparr>sc_estimated_profit_wei = op_estimated_profit_wei opp,
                        sc_safe_size_wei = safe_size_wei,
                        sc_quote_amount_out = quote_out best_quote,
                        sc_quote_amount_net_out = quote_amount_net_out,
                        sc_route_gas_wei = route_gas_wei,
                        sc_quote_fee_wei = quote_fee_wei,
                        sc_flash_loan_fee_wei = flash_loan_fee_wei,
                        sc_net_profit_after_cost_wei = net_profit_after_cost_wei,
                        sc_size_vs_flash_ratio_bps = size_vs_flash_ratio_bps,
                        sc_quote_profit_gap_wei = quote_profit_gap_wei,
                        sc_score_scale = SANDOOSCORE_SCALE\<rparr>\<rparr>))"

section \<open>Exactness\<close>

definition exact_costs :: "Opportunity \<Rightarrow> AggregatorQuote option \<Rightarrow> u64 \<Rightarrow> u256 \<Rightarrow> nat" where
  \<comment> \<open>gas, venue fee and flash loan fee in unbounded arithmetic\<close>
  "exact_costs opp best_quote gwei flash_fee =
     (case best_quote of
        Some q \<Rightarrow>
          unat (aq_estimated_gas q) * (unat gwei * 1000000000) + unat (op_amount_in opp) * unat (aq_fee_bps q) div 10000
      | None \<Rightarrow> 0) + unat flash_fee"

lemma unat_monus: "unat (monus a b) = unat a - unat b"
  by (auto simp: monus_def word_less_nat_alt unat_sub word_le_nat_alt)

lemma monus_eq_0: "monus a b = 0 \<longleftrightarrow> unat a \<le> unat b"
  using unat_monus [of a b] by (metis diff_is_0_eq unat_eq_0)

lemma gas_bound: "unat (x :: u64) * (unat (y :: u64) * 1000000000) \<le> 2 ^ 158"
proof -
  have "unat y * 1000000000 \<le> 2 ^ 64 * 2 ^ 30"
    using unat_bound [of y] by (intro mult_le_mono) (simp_all add: power_numeral)
  then have "unat x * (unat y * 1000000000) \<le> 2 ^ 64 * (2 ^ 64 * 2 ^ 30)"
    using unat_bound [of x] by (intro mult_le_mono [of "unat x" "2 ^ 64"]) simp_all
  then show ?thesis by (simp flip: power_add)
qed

lemma unat_route_gas:
  "unat (route_gas best_quote gwei) =
    (case best_quote of Some q \<Rightarrow> unat (aq_estimated_gas q) * (unat gwei * 1000000000) | None \<Rightarrow> 0)"
proof (cases best_quote)
  case (Some q)
  have u: "unat (ucast x :: u256) = unat x" for x :: u64 by (rule unat_ucast_wider) simp
  have p: "unat (aq_estimated_gas q) * (unat gwei * 1000000000) < 2 ^ 256"
    using gas_bound [of "aq_estimated_gas q" gwei] by (rule le_less_trans) simp
  have "unat gwei * 1000000000 < 2 ^ 256"
    using gas_bound [of 1 gwei] by (simp add: power_numeral)
  then have "unat (ucast gwei * GWEI_IN_WEI) = unat gwei * 1000000000"
    by (simp add: unat_word_ariths u GWEI_IN_WEI_def)
  then show ?thesis using p Some by (simp add: route_gas_def Let_def unat_word_ariths u)
qed (simp add: route_gas_def)

lemma unat_quote_fee:
  assumes "unat (op_amount_in opp) < 2 ^ 224"
  shows "unat (quote_fee opp best_quote) =
    (case best_quote of Some q \<Rightarrow> unat (op_amount_in opp) * unat (aq_fee_bps q) div 10000 | None \<Rightarrow> 0)"
proof (cases best_quote)
  case (Some q)
  have u: "unat (ucast x :: u256) = unat x" for x :: u32 by (rule unat_ucast_wider) simp
  have "unat (op_amount_in opp) * unat (aq_fee_bps q) < 2 ^ 224 * 2 ^ 32"
    using assms unat_bound [of "aq_fee_bps q"] by (intro mult_strict_mono) simp_all
  also have "(2 :: nat) ^ 224 * 2 ^ 32 = 2 ^ 256" by (simp flip: power_add)
  finally have "unat (op_amount_in opp * ucast (aq_fee_bps q)) = unat (op_amount_in opp) * unat (aq_fee_bps q)"
    by (simp add: unat_word_ariths u)
  then show ?thesis using Some by (simp add: quote_fee_def HUNDRED_PERCENT_BPS_def unat_div)
qed (simp add: quote_fee_def)

lemma unat_total_cost:
  assumes "unat (op_amount_in opp) < 2 ^ 224" "unat flash_fee < 2 ^ 255"
  shows "unat (route_gas best_quote gwei + quote_fee opp best_quote + flash_fee) = exact_costs opp best_quote gwei flash_fee"
proof -
  have "unat (route_gas best_quote gwei) \<le> 2 ^ 158"
    using gas_bound by (simp add: unat_route_gas split: option.split)
  moreover have "unat (quote_fee opp best_quote) < 2 ^ 243"
  proof (cases best_quote)
    case (Some q)
    have "unat (op_amount_in opp) * unat (aq_fee_bps q) < 2 ^ 224 * 2 ^ 32"
      using assms unat_bound [of "aq_fee_bps q"] by (intro mult_strict_mono) simp_all
    then show ?thesis using Some by (simp add: unat_quote_fee [OF assms(1)] power_numeral div_less_iff_less_mult)
  qed (simp add: unat_quote_fee [OF assms(1)])
  ultimately have "unat (route_gas best_quote gwei) + unat (quote_fee opp best_quote) + unat flash_fee < 2 ^ 256"
    using assms(2) by (simp add: power_numeral)
  then show ?thesis
    by (simp add: unat_word_ariths exact_costs_def unat_route_gas unat_quote_fee [OF assms(1)] split: option.split)
qed

lemma unat_score:
  assumes "unat p < 2 ^ 236"
  shows "unat (p * SANDOOSCORE_SCALE) = unat p * 1000000"
proof -
  have "unat p * 1000000 < 2 ^ 236 * 2 ^ 20" using assms by (intro mult_strict_mono) (simp_all add: power_numeral)
  also have "(2 :: nat) ^ 236 * 2 ^ 20 = 2 ^ 256" by (simp flip: power_add)
  finally show ?thesis by (simp add: unat_word_ariths SANDOOSCORE_SCALE_def)
qed

text \<open>The score is exact and the evaluation never panics: for amounts in range a candidate is eligible iff its size is
  not zero and its estimated profit exceeds the exact sum of gas, venue fee and flash loan fee, and its score is then
  the exact net profit in millionths of the executable size, rounded down; a candidate that is not eligible has
  score 0.\<close>

theorem sandoo_score_exact:
  "unat (op_amount_in opp) < 2 ^ 224 \<Longrightarrow> unat flash_fee < 2 ^ 255 \<Longrightarrow>
    unat (op_estimated_profit_wei opp) < 2 ^ 236 \<Longrightarrow>
    (case (evaluate_sandoo_idea opp best_quote gwei flash_fee :: (SandooIdeaSignal, unit) outcome) of
       Ok signal \<Rightarrow>
         let costs = exact_costs opp best_quote gwei flash_fee;
             profit = unat (op_estimated_profit_wei opp);
             size = min (unat (op_amount_in opp)) (unat (op_flash_amount opp))
         in (eligible signal \<longleftrightarrow> 0 < size \<and> costs < profit) \<and>
            unat (score signal) = (if eligible signal then (profit - costs) * 1000000 div size else 0)
     | Err _ \<Rightarrow> False
     | Panic \<Rightarrow> False)"
proof -
  assume a: "unat (op_amount_in opp) < 2 ^ 224" and f: "unat flash_fee < 2 ^ 255"
    and p: "unat (op_estimated_profit_wei opp) < 2 ^ 236"
  let ?safe = "min (op_amount_in opp) (op_flash_amount opp)"
  let ?costs = "exact_costs opp best_quote gwei flash_fee"
  let ?net = "monus (op_estimated_profit_wei opp) (route_gas best_quote gwei + quote_fee opp best_quote + flash_fee)"
  have safe: "unat ?safe = min (unat (op_amount_in opp)) (unat (op_flash_amount opp))"
    by (simp add: min_def word_le_nat_alt)
  have net: "unat ?net = unat (op_estimated_profit_wei opp) - ?costs"
    by (simp add: unat_monus unat_total_cost [OF a f])
  have net0: "?net = 0 \<longleftrightarrow> unat (op_estimated_profit_wei opp) \<le> ?costs"
    by (simp add: monus_eq_0 unat_total_cost [OF a f])
  have sc: "unat (?net * SANDOOSCORE_SCALE) = (unat (op_estimated_profit_wei opp) - ?costs) * 1000000"
    using p by (subst unat_score) (simp_all add: net)
  have zero: "?safe = 0 \<longleftrightarrow> min (unat (op_amount_in opp)) (unat (op_flash_amount opp)) = 0"
    unfolding safe [symmetric] by (simp add: unat_eq_zero)
  show ?thesis
    using net0 zero sc safe
    by (simp add: evaluate_sandoo_idea_def Let_def u_div_def build_negative_signal_def unat_div unat_eq_0) auto
qed

definition sample_opportunity :: Opportunity where
  "sample_opportunity =
     \<lparr>op_id = [], op_detected_at_ns = 0, op_kind = OK_NativeArb, op_token_in = 1, op_token_out = 2, op_amount_in = 4000000,
      op_expected_amount_out = 0, op_estimated_profit_wei = 1000000000009, op_flash_token = 1, op_flash_amount = 2000000,
      op_path = [], op_pool_addresses = []\<rparr>"

theorem sandoo_score_exact_witness:
  "case (evaluate_sandoo_idea sample_opportunity (Some \<lparr>aq_source = [], aq_amount_out = 0, aq_router = 0, aq_calldata = [],
      aq_estimated_gas = 500, aq_fee_bps = 0, aq_timestamp_ms = 0, aq_expires_at = 0, aq_provider = None\<rparr>) 2 5
      :: (SandooIdeaSignal, unit) outcome) of
     Ok signal \<Rightarrow> eligible signal \<and> unat (score signal) = 2
   | _ \<Rightarrow> False"
proof -
  let ?q = "Some \<lparr>aq_source = [], aq_amount_out = 0, aq_router = 0, aq_calldata = [],
      aq_estimated_gas = 500, aq_fee_bps = 0, aq_timestamp_ms = 0, aq_expires_at = 0, aq_provider = None\<rparr>"
  have "exact_costs sample_opportunity ?q 2 5 = 1000000000005"
    by (simp add: exact_costs_def sample_opportunity_def power_numeral)
  then show ?thesis
    using sandoo_score_exact [of sample_opportunity 5 ?q 2]
    by (simp add: sample_opportunity_def power_numeral Let_def split: outcome.splits)
qed

end
