(* ===== verification/Abi_Types.thy ===== *)
theory Abi_Types
  imports Json_Input
begin

text \<open>
  ABI types and their text, from \<open>src/rust/src/abi_types/type_.rs\<close>: the type datatype, its printer
  \<open>type_str\<close> and the recursive parser behind \<open>AbiType::parse\<close>, with every error it returns. \<open>usize\<close> is
  a natural number below \<open>U\<close>, an argument of the parser; text is ASCII. The closing lemmas say that the
  parser yields exactly the types whose widths and sizes the ABI allows, and that it reads back what the
  printer writes.
\<close>

section \<open>Text of the standard library\<close>

definition is_whitespace :: "char \<Rightarrow> bool" where
  \<comment> \<open>\<open>char::is_whitespace\<close> on ASCII\<close>
  "is_whitespace c \<longleftrightarrow> of_char c = (32 :: nat) \<or> (9 \<le> (of_char c :: nat) \<and> (of_char c :: nat) \<le> 13)"

definition trim :: "string \<Rightarrow> string" where
  "trim s = rev (dropWhile is_whitespace (rev (dropWhile is_whitespace s)))"

fun rfind :: "char \<Rightarrow> string \<Rightarrow> nat option" where
  "rfind c [] = None"
| "rfind c (x # xs) =
     (case rfind c xs of Some i \<Rightarrow> Some (Suc i) | None \<Rightarrow> if x = c then Some 0 else None)"

fun strip_prefix :: "string \<Rightarrow> string \<Rightarrow> string option" where
  "strip_prefix [] s = Some s"
| "strip_prefix (p # ps) [] = None"
| "strip_prefix (p # ps) (c # cs) = (if p = c then strip_prefix ps cs else None)"

fun join :: "string \<Rightarrow> string list \<Rightarrow> string" where
  "join sep [] = []"
| "join sep [s] = s"
| "join sep (s # t # ss) = s @ sep @ join sep (t # ss)"

lemma rfind_None: "rfind c s = None \<longleftrightarrow> c \<notin> set s"
  by (induction s) (auto split: option.splits)

lemma rfind_less: "rfind c s = Some i \<Longrightarrow> i < length s"
  by (induction s arbitrary: i) (auto split: option.splits if_splits)

lemma rfind_append: "c \<notin> set t \<Longrightarrow> rfind c (s @ c # t) = Some (length s)"
  by (induction s) (simp_all add: rfind_None [THEN iffD2])

lemma strip_prefix_append [simp]: "strip_prefix p (p @ s) = Some s"
  by (induction p) simp_all

lemma dropWhile_none: "list_all (\<lambda>x. \<not> P x) s \<Longrightarrow> dropWhile P s = s"
  by (cases s) simp_all

lemma trim_id: "list_all (\<lambda>c. \<not> is_whitespace c) s \<Longrightarrow> trim s = s"
  by (simp add: trim_def dropWhile_none)

section \<open>Types and errors\<close>

datatype AbiType =
    Address
  | Bool
  | Uint nat
  | Int_t nat
  | FixedBytes nat
  | Bytes
  | String
  | Array AbiType
  | FixedArray AbiType nat

datatype AbiTypeError =
    UnknownType string
  | InvalidArraySize string
  | InvalidBitWidth string nat
  | InvalidByteSize string nat

type_synonym type_result = "(AbiType, AbiTypeError) outcome"

fun is_dynamic :: "AbiType \<Rightarrow> bool" where
  "is_dynamic Bytes = True"
| "is_dynamic String = True"
| "is_dynamic (Array t) = True"
| "is_dynamic (FixedArray inner n) = is_dynamic inner"
| "is_dynamic _ = False"

fun size_bits :: "nat \<Rightarrow> AbiType \<Rightarrow> nat option" where
  "size_bits U (Uint bits) = Some bits"
| "size_bits U (Int_t bits) = Some bits"
| "size_bits U (FixedBytes n) = Some (n * 8 mod U)"
| "size_bits U _ = None"

primrec type_str :: "AbiType \<Rightarrow> string" where
  "type_str Address = ''address''"
| "type_str Bool = ''bool''"
| "type_str Bytes = ''bytes''"
| "type_str String = ''string''"
| "type_str (Uint bits) = ''uint'' @ decimal bits"
| "type_str (Int_t bits) = ''int'' @ decimal bits"
| "type_str (FixedBytes n) = ''bytes'' @ decimal n"
| "type_str (Array inner) = type_str inner @ ''[]''"
| "type_str (FixedArray inner n) = type_str inner @ ''['' @ decimal n @ '']''"

datatype DynSolType =
    \<comment> \<open>the constructors of \<open>alloy::dyn_abi::DynSolType\<close> that the source builds\<close>
    T_Address
  | T_Bool
  | T_Uint nat
  | T_Int nat
  | T_FixedBytes nat
  | T_Bytes
  | T_String
  | T_Array DynSolType
  | T_FixedArray DynSolType nat
  | T_Tuple "DynSolType list"

datatype AbiDecodeError =
    EmptyTypesList
  | EmptyData
  | DecodeInvalidArraySize string
  | InsufficientData nat nat nat
  | InvalidOffset string
  | InvalidLength string
  | UnsupportedType string
  | FixedPointNotImplemented
  | NonStrictNotImplemented

fun to_alloy_type :: "AbiType \<Rightarrow> (DynSolType, AbiDecodeError) outcome" where
  "to_alloy_type Address = Ok T_Address"
| "to_alloy_type Bool = Ok T_Bool"
| "to_alloy_type (Uint bits) = Ok (T_Uint bits)"
| "to_alloy_type (Int_t bits) = Ok (T_Int bits)"
| "to_alloy_type (FixedBytes n) = Ok (T_FixedBytes n)"
| "to_alloy_type Bytes = Ok T_Bytes"
| "to_alloy_type String = Ok T_String"
| "to_alloy_type (Array inner) = obind (to_alloy_type inner) (\<lambda>t. Ok (T_Array t))"
| "to_alloy_type (FixedArray inner n) = obind (to_alloy_type inner) (\<lambda>t. Ok (T_FixedArray t n))"

section \<open>The parser\<close>

definition normalize_type :: "string \<Rightarrow> string" where
  "normalize_type abi_type =
     (if abi_type = ''uint'' then ''uint256''
      else if abi_type = ''int'' then ''int256''
      else if abi_type = ''function'' then ''bytes24''
      else abi_type)"

definition parse_byte_size :: "nat \<Rightarrow> string \<Rightarrow> string \<Rightarrow> type_result" where
  "parse_byte_size U type_name n_str =
     (case parse_uint U n_str of
        Ok n \<Rightarrow> if 0 < n \<and> n \<le> 32 then Ok (FixedBytes n) else Err (InvalidByteSize type_name n)
      | Err _ \<Rightarrow> Err (InvalidByteSize type_name 0)
      | Panic \<Rightarrow> Panic)"

definition parse_uint_bits :: "nat \<Rightarrow> string \<Rightarrow> string \<Rightarrow> type_result" where
  "parse_uint_bits U type_name n_str =
     (case parse_uint U n_str of
        Ok bits \<Rightarrow>
          if 0 < bits \<and> bits \<le> 256 \<and> bits mod 8 = 0 then Ok (Uint bits)
          else Err (InvalidBitWidth type_name bits)
      | Err _ \<Rightarrow> Err (InvalidBitWidth type_name 0)
      | Panic \<Rightarrow> Panic)"

definition parse_int_bits :: "nat \<Rightarrow> string \<Rightarrow> string \<Rightarrow> type_result" where
  "parse_int_bits U type_name n_str =
     (case parse_uint U n_str of
        Ok bits \<Rightarrow>
          if 0 < bits \<and> bits \<le> 256 \<and> bits mod 8 = 0 then Ok (Int_t bits)
          else Err (InvalidBitWidth type_name bits)
      | Err _ \<Rightarrow> Err (InvalidBitWidth type_name 0)
      | Panic \<Rightarrow> Panic)"

definition parse_sized_type :: "nat \<Rightarrow> string \<Rightarrow> type_result" where
  "parse_sized_type U t =
     (case strip_prefix ''bytes'' t of
        Some n_str \<Rightarrow> parse_byte_size U t n_str
      | None \<Rightarrow>
          (case strip_prefix ''uint'' t of
             Some n_str \<Rightarrow> parse_uint_bits U t n_str
           | None \<Rightarrow>
               (case strip_prefix ''int'' t of
                  Some n_str \<Rightarrow> parse_int_bits U t n_str
                | None \<Rightarrow> Err (UnknownType t))))"

definition parse_base_type :: "nat \<Rightarrow> string \<Rightarrow> type_result" where
  "parse_base_type U normalized =
     (if normalized = ''address'' then Ok Address
      else if normalized = ''bool'' then Ok Bool
      else if normalized = ''bytes'' then Ok Bytes
      else if normalized = ''string'' then Ok String
      else parse_sized_type U normalized)"

function parse_abi_type :: "nat \<Rightarrow> string \<Rightarrow> type_result" where
  "parse_abi_type U s =
     (case rfind CHR ''['' s of
        None \<Rightarrow> parse_base_type U (normalize_type s)
      | Some bracket_idx \<Rightarrow>
          let base = take bracket_idx s; rest = drop bracket_idx s
          in if rest = ''[]'' then obind (parse_abi_type U base) (\<lambda>inner. Ok (Array inner))
             else if last rest = CHR '']'' \<and> hd rest = CHR ''['' then
               obind (map_err (\<lambda>_. InvalidArraySize s) (parse_uint U (butlast (tl rest)))) (\<lambda>n.
                 if n = 0 then
                   Err (InvalidArraySize
                     ''Fixed array size must be >= 1 (uint256[0] is not supported by Solidity)'')
                 else obind (parse_abi_type U base) (\<lambda>inner. Ok (FixedArray inner n)))
             else parse_base_type U (normalize_type s))"
  by pat_completeness auto

termination
  by (relation "measure (\<lambda>(U, s). length s)") (auto dest!: rfind_less)

declare parse_abi_type.simps [simp del]

definition parse :: "nat \<Rightarrow> string \<Rightarrow> type_result" where
  "parse U s = parse_abi_type U (trim s)"

fun parse_type_list_from :: "nat \<Rightarrow> i32 \<Rightarrow> string \<Rightarrow> string \<Rightarrow> (AbiType list, AbiTypeError) outcome" where
  \<comment> \<open>the loop: the depth, the characters from \<open>start\<close> on, and those still to come\<close>
  "parse_type_list_from U depth part [] = obind (parse_abi_type U part) (\<lambda>t. Ok [t])"
| "parse_type_list_from U depth part (c # cs) =
     (if c = CHR ''('' \<or> c = CHR ''['' then parse_type_list_from U (wrap_i32 (depth + 1)) (part @ [c]) cs
      else if c = CHR '')'' \<or> c = CHR '']'' then
        parse_type_list_from U (wrap_i32 (depth - 1)) (part @ [c]) cs
      else if c = CHR '','' \<and> depth = 0 then
        obind (parse_abi_type U part) (\<lambda>t. obind (parse_type_list_from U depth [] cs) (\<lambda>ts. Ok (t # ts)))
      else parse_type_list_from U depth (part @ [c]) cs)"

definition parse_type_list :: "nat \<Rightarrow> string \<Rightarrow> (AbiType list, AbiTypeError) outcome" where
  "parse_type_list U types_str = (if types_str = [] then Ok [] else parse_type_list_from U 0 [] types_str)"

section \<open>Well-formed types\<close>

primrec valid_type :: "nat \<Rightarrow> AbiType \<Rightarrow> bool" where
  \<comment> \<open>the widths and sizes that the documentation of the datatype allows\<close>
  "valid_type U Address = True"
| "valid_type U Bool = True"
| "valid_type U (Uint bits) = (0 < bits \<and> bits \<le> 256 \<and> bits mod 8 = 0)"
| "valid_type U (Int_t bits) = (0 < bits \<and> bits \<le> 256 \<and> bits mod 8 = 0)"
| "valid_type U (FixedBytes n) = (0 < n \<and> n \<le> 32)"
| "valid_type U Bytes = True"
| "valid_type U String = True"
| "valid_type U (Array t) = valid_type U t"
| "valid_type U (FixedArray t n) = (valid_type U t \<and> 0 < n \<and> n < U)"

lemma parse_digits_total: "parse_digits U v s \<noteq> Panic"
  by (induction U v s rule: parse_digits.induct) (auto simp: Let_def)

lemma parse_digits_bound: "parse_digits U v s = Ok n \<Longrightarrow> v < U \<Longrightarrow> n < U"
  by (induction U v s rule: parse_digits.induct) (auto simp: Let_def split: if_splits)

lemma parse_uint_total [simp]: "parse_uint U s \<noteq> Panic"
  by (simp add: parse_uint_def parse_digits_total)

lemma parse_uint_bound: "parse_uint U s = Ok n \<Longrightarrow> 0 < U \<Longrightarrow> n < U"
  using parse_digits_bound [of U 0] by (auto simp: parse_uint_def split: if_splits)

lemma parse_base_valid:
  "case parse_base_type U s of Ok t \<Rightarrow> valid_type U t | Err _ \<Rightarrow> True | Panic \<Rightarrow> False"
  by (auto simp: parse_base_type_def parse_sized_type_def parse_byte_size_def parse_uint_bits_def
      parse_int_bits_def split: outcome.splits option.splits)

lemma parse_abi_type_valid:
  "0 < U \<Longrightarrow>
    (case parse_abi_type U s of Ok t \<Rightarrow> valid_type U t | Err _ \<Rightarrow> True | Panic \<Rightarrow> False)"
proof (induction U s rule: parse_abi_type.induct)
  case (1 U s)
  show ?case
  proof (cases "rfind CHR ''['' s")
    case None
    then show ?thesis using parse_base_valid by (subst parse_abi_type.simps) simp
  next
    case (Some i)
    let ?rest = "drop i s"
    consider (array) "?rest = ''[]''"
      | (fixed) "?rest \<noteq> ''[]''" "last ?rest = CHR '']'' \<and> hd ?rest = CHR ''[''"
      | (base) "?rest \<noteq> ''[]''" "\<not> (last ?rest = CHR '']'' \<and> hd ?rest = CHR ''['')"
      by blast
    then show ?thesis
    proof cases
      case array
      from "1.IH"(1) [OF Some refl refl array "1.prems"] show ?thesis
        by (subst parse_abi_type.simps) (simp add: Some array split: outcome.splits)
    next
      case fixed
      show ?thesis
      proof (cases "parse_uint U (butlast (tl ?rest))")
        case (Ok n)
        show ?thesis
        proof (cases "n = 0")
          case False
          from "1.IH"(2) [OF Some refl refl fixed _ False "1.prems"] Ok parse_uint_bound [OF Ok "1.prems"]
          show ?thesis using False fixed
            by (subst parse_abi_type.simps) (simp add: Some split: outcome.splits)
        qed (subst parse_abi_type.simps, use fixed Ok in \<open>simp add: Some\<close>)
      qed (subst parse_abi_type.simps, use fixed in \<open>simp add: Some\<close>)+
    next
      case base
      then show ?thesis using parse_base_valid [of U "normalize_type s"]
        by (subst parse_abi_type.simps) (auto simp: Some Let_def)
    qed
  qed
qed

section \<open>Reading back what is printed\<close>

definition plain :: "char \<Rightarrow> bool" where
  \<comment> \<open>letters and digits: neither white space nor a separator of a type or a signature\<close>
  "plain c \<longleftrightarrow> \<not> is_whitespace c \<and> c \<notin> {CHR ''('', CHR '')'', CHR ''['', CHR '']'', CHR '',''}"

lemma plain_digit: "is_digit c \<Longrightarrow> plain c"
  by (auto simp: plain_def is_digit_def is_whitespace_def)

lemma plain_decimal: "list_all plain (decimal n)"
  using decimal_digits [of n] by (auto simp: list_all_iff plain_digit)

lemma bracket_notin_plain: "list_all plain s \<Longrightarrow> CHR ''['' \<notin> set s"
  by (auto simp: list_all_iff plain_def)

lemma parse_base_plain:
  "list_all plain s \<Longrightarrow> parse_abi_type U s = parse_base_type U (normalize_type s)"
  by (subst parse_abi_type.simps) (simp add: rfind_None [THEN iffD2] bracket_notin_plain)

lemma parse_array: "parse_abi_type U (s @ ''[]'') = obind (parse_abi_type U s) (\<lambda>t. Ok (Array t))"
  by (subst parse_abi_type.simps) (simp add: rfind_append)

lemma parse_fixed_array:
  assumes "0 < n" "n < U"
  shows "parse_abi_type U (s @ ''['' @ decimal n @ '']'') = obind (parse_abi_type U s) (\<lambda>t. Ok (FixedArray t n))"
proof -
  have "rfind CHR ''['' (s @ CHR ''['' # (decimal n @ '']'')) = Some (length s)"
    by (rule rfind_append) (simp add: bracket_notin_plain plain_decimal)
  with assms show ?thesis
    by (subst parse_abi_type.simps) (simp add: decimal_nonempty parse_uint_decimal)
qed

lemma decimal_head: "\<exists>c cs. decimal n = c # cs \<and> is_digit c"
  using decimal_nonempty [of n] decimal_digits [of n] by (cases "decimal n") auto

lemma decimal_ne: "\<not> is_digit c \<Longrightarrow> decimal n \<noteq> c # cs"
  using decimal_head [of n] by auto

lemma parse_sized:
  assumes "256 < U"
  shows "0 < n \<Longrightarrow> n \<le> 32 \<Longrightarrow> parse_abi_type U (''bytes'' @ decimal n) = Ok (FixedBytes n)"
    and "0 < n \<Longrightarrow> n \<le> 256 \<Longrightarrow> n mod 8 = 0 \<Longrightarrow> parse_abi_type U (''uint'' @ decimal n) = Ok (Uint n)"
    and "0 < n \<Longrightarrow> n \<le> 256 \<Longrightarrow> n mod 8 = 0 \<Longrightarrow> parse_abi_type U (''int'' @ decimal n) = Ok (Int_t n)"
proof -
  have p: "list_all plain (''bytes'' @ decimal n)" "list_all plain (''uint'' @ decimal n)"
    "list_all plain (''int'' @ decimal n)"
    by (simp_all add: plain_decimal) (simp_all add: plain_def is_whitespace_def)
  note defs = normalize_type_def parse_base_type_def parse_sized_type_def
    parse_byte_size_def parse_uint_bits_def parse_int_bits_def
  show "0 < n \<Longrightarrow> n \<le> 32 \<Longrightarrow> parse_abi_type U (''bytes'' @ decimal n) = Ok (FixedBytes n)"
    unfolding parse_base_plain [OF p(1)] using assms by (simp add: defs decimal_nonempty parse_uint_decimal)
  show "0 < n \<Longrightarrow> n \<le> 256 \<Longrightarrow> n mod 8 = 0 \<Longrightarrow> parse_abi_type U (''uint'' @ decimal n) = Ok (Uint n)"
    unfolding parse_base_plain [OF p(2)] using assms by (simp add: defs decimal_nonempty parse_uint_decimal)
  show "0 < n \<Longrightarrow> n \<le> 256 \<Longrightarrow> n mod 8 = 0 \<Longrightarrow> parse_abi_type U (''int'' @ decimal n) = Ok (Int_t n)"
    unfolding parse_base_plain [OF p(3)] using assms by (simp add: defs decimal_nonempty parse_uint_decimal)
qed

lemma parse_type_str:
  assumes "256 < U"
  shows "valid_type U t \<Longrightarrow> parse_abi_type U (type_str t) = Ok t"
proof (induction t)
  case (Array t)
  then show ?case using parse_array [of U "type_str t"] by simp
next
  case (FixedArray t n)
  then show ?case using parse_fixed_array [of n U "type_str t"] by simp
qed (use parse_sized [OF assms] in \<open>simp_all add: parse_base_plain plain_def is_whitespace_def
    normalize_type_def parse_base_type_def\<close>)

lemma type_str_no_space: "list_all (\<lambda>c. \<not> is_whitespace c) (type_str t)"
  using plain_decimal by (induction t) (auto simp: list_all_iff plain_def is_whitespace_def)

lemma type_str_nonempty: "type_str t \<noteq> []"
  by (cases t) simp_all

lemma trim_type_str [simp]: "trim (type_str t) = type_str t"
  by (rule trim_id) (rule type_str_no_space)

lemma wrap_depth [simp]: "wrap_i32 1 = 1" "wrap_i32 0 = 0"
  by (simp_all add: wrap_i32_def)

lemma type_list_plain:
  "list_all plain s \<Longrightarrow>
    parse_type_list_from U d part (s @ rest) = parse_type_list_from U d (part @ s) rest"
  by (induction s arbitrary: part) (simp_all add: plain_def)

lemma type_list_type_str:
  "parse_type_list_from U 0 part (type_str t @ rest) = parse_type_list_from U 0 (part @ type_str t) rest"
proof (induction t arbitrary: part rest)
  case (FixedArray t n)
  then show ?case using type_list_plain [OF plain_decimal, of U 1 _ n "CHR '']'' # rest"] by simp
next
  case (Array t)
  then show ?case by simp
qed (simp_all add: type_list_plain [OF plain_decimal] plain_def)

lemma type_list_roundtrip:
  assumes U: "256 < U"
  shows "list_all (valid_type U) ts \<Longrightarrow> parse_type_list U (join '','' (map type_str ts)) = Ok ts"
proof -
  have "list_all (valid_type U) ts \<Longrightarrow> ts \<noteq> [] \<Longrightarrow>
      parse_type_list_from U 0 [] (join '','' (map type_str ts)) = Ok ts"
  proof (induction ts rule: induct_list012)
    case (2 t)
    then show ?case using type_list_type_str [of U "[]" t "[]"] by (simp add: parse_type_str [OF U])
  next
    case (3 t t' ts)
    then show ?case by (simp add: type_list_type_str parse_type_str [OF U])
  qed simp
  moreover have "join '','' (map type_str ts) = [] \<longleftrightarrow> ts = []"
    by (cases ts rule: remdups_adj.cases) (simp_all add: type_str_nonempty)
  ultimately show "list_all (valid_type U) ts \<Longrightarrow> ?thesis" by (auto simp: parse_type_list_def)
qed

lemmas type_eval = parse_def trim_def is_whitespace_def parse_abi_type.simps normalize_type_def
  parse_base_type_def parse_sized_type_def parse_byte_size_def parse_uint_bits_def parse_int_bits_def
  parse_uint_def is_digit_def digit_value_def power_numeral

text \<open>
  C21. Parsed types are well formed: whatever the text, \<open>AbiType::parse\<close> either returns an error or a type
  whose bit widths are multiples of 8 from 8 to 256, whose byte sizes lie in 1 to 32 and whose fixed arrays are
  not empty; such a type is printed to a canonical text that parses back to it. The aliases, the surrounding
  white space and the redundant zeros of the input are gone from that text.\<close>

theorem parsed_types_valid:
  "256 < U \<Longrightarrow>
    (case parse U s of
       Ok t \<Rightarrow> valid_type U t \<and> parse U (type_str t) = Ok t
     | Err _ \<Rightarrow> True
     | Panic \<Rightarrow> False) \<and>
    (parse U (type_str t) = Ok t \<longleftrightarrow> valid_type U t)"
  using parse_abi_type_valid [of U "trim s"] parse_abi_type_valid [of U "type_str t"]
  by (auto simp: parse_def parse_type_str split: outcome.splits)

theorem parsed_types_valid_witness:
  "parse (2 ^ 64) '' function[][03] '' = Ok (FixedArray (Array (FixedBytes 24)) 3) \<and>
   parse (2 ^ 64) ''bytes24[][3]'' = Ok (FixedArray (Array (FixedBytes 24)) 3) \<and>
   parse (2 ^ 64) ''uint12'' = Err (InvalidBitWidth ''uint12'' 12)"
proof -
  have "parse (2 ^ 64) '' function[][03] '' = Ok (FixedArray (Array (FixedBytes 24)) 3)" by (simp add: type_eval)
  moreover have "parse (2 ^ 64) ''uint12'' = Err (InvalidBitWidth ''uint12'' 12)" by (simp add: type_eval)
  moreover have "type_str (FixedArray (Array (FixedBytes 24)) 3) = ''bytes24[][3]''"
    by code_simp
  ultimately show ?thesis
    using parsed_types_valid [of "2 ^ 64" "'' function[][03] ''"]
    by (simp add: power_numeral del: type_str.simps)
qed

end
