(* ===== verification/Signature_Parser.thy ===== *)
theory Signature_Parser
  imports Abi_Types
begin

text \<open>
  The function signature parser of \<open>src/rust/src/signature_parser.rs\<close> and its client
  \<open>FunctionSignature::parse\<close> of \<open>contract.rs\<close>. The parser's state is the characters still to read and the
  byte position; every operation takes and returns it, and an error ends the parse as \<open>?\<close> does. Text is
  ASCII, so that a character is one byte. The hash function behind the selector is an argument.
\<close>

section \<open>Errors and parser state\<close>

datatype ParseError =
    UnexpectedChar nat string char
  | UnexpectedEnd nat string
  | InvalidIdentifier nat string
  | InvalidType nat AbiTypeError
  | EmptyFunctionName
  | UnmatchedBracket nat

record SignatureParser =
  chars :: string
  pos :: nat

record ParsedSignature =
  name :: string
  inputs :: "AbiType list"
  outputs :: "AbiType list"

type_synonym 'a parse_result = "('a \<times> SignatureParser, ParseError) outcome"

definition new :: "string \<Rightarrow> SignatureParser" where
  "new input = \<lparr>chars = input, pos = 0\<rparr>"

section \<open>Helper methods\<close>

definition peek_next :: "SignatureParser \<Rightarrow> char option" where
  "peek_next p = (case chars p of [] \<Rightarrow> None | c # _ \<Rightarrow> Some c)"

definition advance :: "SignatureParser \<Rightarrow> SignatureParser" where
  "advance p = (case chars p of [] \<Rightarrow> p | _ # cs \<Rightarrow> p\<lparr>chars := cs, pos := pos p + 1\<rparr>)"

text \<open>The character classes of the source on ASCII text.\<close>

definition is_alphabetic :: "char \<Rightarrow> bool" where
  "is_alphabetic c \<longleftrightarrow>
     (65 \<le> (of_char c :: nat) \<and> (of_char c :: nat) \<le> 90) \<or> (97 \<le> (of_char c :: nat) \<and> (of_char c :: nat) \<le> 122)"

definition is_alphanumeric :: "char \<Rightarrow> bool" where
  "is_alphanumeric c \<longleftrightarrow> is_alphabetic c \<or> is_digit c"

definition to_ascii_lower :: "char \<Rightarrow> char" where
  "to_ascii_lower c =
     (if 65 \<le> (of_char c :: nat) \<and> (of_char c :: nat) \<le> 90 then char_of (of_char c + 32 :: nat) else c)"

fun skip_from :: "string \<Rightarrow> nat \<Rightarrow> SignatureParser" where
  "skip_from [] n = \<lparr>chars = [], pos = n\<rparr>"
| "skip_from (c # cs) n = (if is_whitespace c then skip_from cs (n + 1) else \<lparr>chars = c # cs, pos = n\<rparr>)"

definition skip_whitespace :: "SignatureParser \<Rightarrow> SignatureParser" where
  "skip_whitespace p = skip_from (chars p) (pos p)"

definition peek_char :: "SignatureParser \<Rightarrow> char \<Rightarrow> bool" where
  "peek_char p expected \<longleftrightarrow> peek_next p = Some expected"

definition quoted :: "char \<Rightarrow> string" where
  "quoted c = [CHR 0x27, c, CHR 0x27]"

definition expect_char :: "SignatureParser \<Rightarrow> char \<Rightarrow> (SignatureParser, ParseError) outcome" where
  "expect_char p expected =
     (case peek_next p of
        Some c \<Rightarrow> if c = expected then Ok (advance p) else Err (UnexpectedChar (pos p) (quoted expected) c)
      | None \<Rightarrow> Err (UnexpectedEnd (pos p) (quoted expected)))"

definition consume_char :: "SignatureParser \<Rightarrow> char \<Rightarrow> char option \<times> SignatureParser" where
  "consume_char p expected = (if peek_char p expected then (Some expected, advance p) else (None, p))"

definition peek_keyword :: "SignatureParser \<Rightarrow> string \<Rightarrow> bool" where
  "peek_keyword p keyword \<longleftrightarrow>
     map to_ascii_lower (take (length keyword) (chars p)) = map to_ascii_lower keyword"

fun consume_keyword :: "SignatureParser \<Rightarrow> string \<Rightarrow> (SignatureParser, ParseError) outcome" where
  "consume_keyword p [] = Ok p"
| "consume_keyword p (expected # ks) =
     (case peek_next p of
        Some c \<Rightarrow>
          if to_ascii_lower c = to_ascii_lower expected then consume_keyword (advance p) ks
          else Err (UnexpectedChar (pos p) (quoted expected) c)
      | None \<Rightarrow> Err (UnexpectedEnd (pos p) (quoted expected)))"

section \<open>Identifiers and types\<close>

fun identifier_rest :: "string \<Rightarrow> string \<Rightarrow> nat \<Rightarrow> string \<times> SignatureParser" where
  "identifier_rest result [] n = (result, \<lparr>chars = [], pos = n\<rparr>)"
| "identifier_rest result (c # cs) n =
     (if is_alphanumeric c \<or> c = CHR ''_'' then identifier_rest (result @ [c]) cs (n + 1)
      else (result, \<lparr>chars = c # cs, pos = n\<rparr>))"

definition parse_identifier :: "SignatureParser \<Rightarrow> string parse_result" where
  "parse_identifier p =
     (case peek_next p of
        Some c \<Rightarrow>
          if is_alphabetic c \<or> c = CHR ''_'' then
            let p' = advance p in Ok (identifier_rest [c] (chars p') (pos p'))
          else Err (UnexpectedChar (pos p) (''letter or '' @ quoted CHR ''_'') c)
      | None \<Rightarrow> Err (UnexpectedEnd (pos p) ''function name''))"

fun collect_from :: "i32 \<Rightarrow> string \<Rightarrow> string \<Rightarrow> nat \<Rightarrow> string parse_result" where
  "collect_from depth result [] n =
     (if 0 < depth then Err (UnmatchedBracket n) else Ok (result, \<lparr>chars = [], pos = n\<rparr>))"
| "collect_from depth result (c # cs) n =
     (if (c = CHR '')'' \<or> c = CHR '','') \<and> depth = 0 then Ok (result, \<lparr>chars = c # cs, pos = n\<rparr>)
      else if c = CHR ''['' then collect_from (wrap_i32 (depth + 1)) (result @ [c]) cs (n + 1)
      else if c = CHR '']'' then
        if depth = 0 then Ok (result, \<lparr>chars = c # cs, pos = n\<rparr>)
        else collect_from (wrap_i32 (depth - 1)) (result @ [c]) cs (n + 1)
      else if is_whitespace c \<and> depth = 0 then Ok (result, \<lparr>chars = c # cs, pos = n\<rparr>)
      else collect_from depth (result @ [c]) cs (n + 1))"

definition collect_type_string :: "SignatureParser \<Rightarrow> string parse_result" where
  "collect_type_string p = collect_from 0 [] (chars p) (pos p)"

definition found :: "SignatureParser \<Rightarrow> char" where
  "found p = (case peek_next p of Some c \<Rightarrow> c | None \<Rightarrow> CHR 0x00)"

lemma skip_from_length: "length (chars (skip_from cs n)) \<le> length cs"
  by (induction cs n rule: skip_from.induct) auto

lemma skip_length: "length (chars (skip_whitespace p)) \<le> length (chars p)"
  by (simp add: skip_whitespace_def skip_from_length)

lemma collect_length:
  "collect_from d r cs n = Ok (s, p) \<Longrightarrow> length s + length (chars p) = length r + length cs"
  by (induction d r cs n rule: collect_from.induct) (auto split: if_splits)

lemma collect_shorter:
  "collect_type_string p = Ok (s, q) \<Longrightarrow> s \<noteq> [] \<Longrightarrow> length (chars q) < length (chars p)"
  unfolding collect_type_string_def by (drule collect_length) (cases s; simp)

lemma advance_shorter: "length (chars (advance p)) \<le> length (chars p)"
  by (simp add: advance_def split: list.split)

function type_list_loop :: "nat \<Rightarrow> AbiType list \<Rightarrow> SignatureParser \<Rightarrow> AbiType list parse_result" where
  "type_list_loop U types p0 =
     (let p = skip_whitespace p0 in
      obind (collect_type_string p) (\<lambda>(type_string, p1).
        if type_string = [] then Err (UnexpectedChar (pos p1) ''type name'' (found p1))
        else
          obind (map_err (InvalidType (pos p)) (parse U type_string)) (\<lambda>abi_type.
            let types' = types @ [abi_type]; p2 = skip_whitespace p1 in
            if peek_char p2 CHR '','' then type_list_loop U types' (snd (consume_char p2 CHR '',''))
            else if peek_char p2 CHR '')'' then Ok (types', p2)
            else Err (UnexpectedChar (pos p2) (quoted CHR '','' @ '' or '' @ quoted CHR '')'') (found p2)))))"
  by pat_completeness auto

termination
proof (relation "measure (\<lambda>(U, types, p). length (chars p))", simp, clarsimp)
  fix p0 s p1
  assume c: "collect_type_string (skip_whitespace p0) = Ok (s, p1)" and s: "s \<noteq> []"
  have "length (chars (snd (consume_char (skip_whitespace p1) CHR '',''))) \<le> length (chars p1)"
    using advance_shorter [of "skip_whitespace p1"] skip_length [of p1] by (simp add: consume_char_def)
  also have "\<dots> < length (chars (skip_whitespace p0))" by (rule collect_shorter [OF c s])
  also have "\<dots> \<le> length (chars p0)" by (rule skip_length)
  finally show "length (chars (snd (consume_char (skip_whitespace p1) CHR '',''))) < length (chars p0)" .
qed

declare type_list_loop.simps [simp del]

definition sig_type_list :: "nat \<Rightarrow> SignatureParser \<Rightarrow> AbiType list parse_result" where
  \<comment> \<open>the method \<open>parse_type_list\<close>\<close>
  "sig_type_list U p0 =
     (let p = skip_whitespace p0 in if peek_char p CHR '')'' then Ok ([], p) else type_list_loop U [] p)"

definition parse_returns_clause :: "nat \<Rightarrow> SignatureParser \<Rightarrow> AbiType list parse_result" where
  "parse_returns_clause U p0 =
     (let p = skip_whitespace p0 in
      if \<not> peek_keyword p ''returns'' then Ok ([], p)
      else
        obind (consume_keyword p ''returns'') (\<lambda>p1.
        obind (expect_char (skip_whitespace p1) CHR ''('') (\<lambda>p2.
        obind (sig_type_list U p2) (\<lambda>(outs, p3).
        obind (expect_char p3 CHR '')'') (\<lambda>p4. Ok (outs, p4))))))"

definition sig_parse :: "nat \<Rightarrow> SignatureParser \<Rightarrow> (ParsedSignature, ParseError) outcome" where
  \<comment> \<open>the method \<open>parse\<close>\<close>
  "sig_parse U p0 =
     obind (parse_identifier (skip_whitespace p0)) (\<lambda>(nm, p1).
       if nm = [] then Err EmptyFunctionName
       else
         obind (expect_char (skip_whitespace p1) CHR ''('') (\<lambda>p2.
         obind (sig_type_list U p2) (\<lambda>(ins, p3).
         obind (expect_char p3 CHR '')'') (\<lambda>p4.
         obind (parse_returns_clause U p4) (\<lambda>(outs, p5).
           let p6 = skip_whitespace p5 in
           if peek_next p6 \<noteq> None then Err (UnexpectedChar (pos p6) ''end of input'' (found p6))
           else Ok \<lparr>name = nm, inputs = ins, outputs = outs\<rparr>)))))"

definition parse_signature :: "nat \<Rightarrow> string \<Rightarrow> (ParsedSignature, ParseError) outcome" where
  "parse_signature U input = sig_parse U (new input)"

section \<open>Printing\<close>

definition to_signature_string :: "ParsedSignature \<Rightarrow> string" where
  "to_signature_string sig = name sig @ ''('' @ join '','' (map type_str (inputs sig)) @ '')''"

definition to_full_signature_string :: "ParsedSignature \<Rightarrow> string" where
  "to_full_signature_string sig =
     (if outputs sig = [] then name sig @ ''('' @ join '','' (map type_str (inputs sig)) @ '')''
      else name sig @ ''('' @ join '','' (map type_str (inputs sig)) @ '') returns (''
        @ join '','' (map type_str (outputs sig)) @ '')'')"

section \<open>Error texts\<close>

fun show_type_error :: "AbiTypeError \<Rightarrow> string" where
  "show_type_error (UnknownType t) = ''Unknown ABI type: '' @ t"
| "show_type_error (InvalidArraySize t) = ''Invalid array size: '' @ t"
| "show_type_error (InvalidBitWidth type_name bits) =
     ''Invalid bit width for '' @ type_name @ '': '' @
       (if bits = 0 then ''expected number after '' @ [CHR 0x27] @ ''int'' @ [CHR 0x27] @ ''/'' @ [CHR 0x27]
          @ ''uint'' @ [CHR 0x27]
        else decimal bits @ '' (must be 8-256, multiple of 8)'')"
| "show_type_error (InvalidByteSize type_name n) =
     ''Invalid byte size for '' @ type_name @ '': '' @
       (if n = 0 then ''expected number after '' @ [CHR 0x27] @ ''bytes'' @ [CHR 0x27]
        else decimal n @ '' (must be 1-32)'')"

fun show_parse_error :: "ParseError \<Rightarrow> string" where
  "show_parse_error (UnexpectedChar n expected c) =
     ''at position '' @ decimal n @ '': expected '' @ expected @ '', found '' @ quoted c"
| "show_parse_error (UnexpectedEnd n expected) =
     ''at position '' @ decimal n @ '': unexpected end of input, expected '' @ expected"
| "show_parse_error (InvalidIdentifier n msg) = ''at position '' @ decimal n @ '': '' @ msg"
| "show_parse_error (InvalidType n e) = ''at position '' @ decimal n @ '': invalid type - '' @ show_type_error e"
| "show_parse_error EmptyFunctionName = ''function name cannot be empty''"
| "show_parse_error (UnmatchedBracket n) =
     ''at position '' @ decimal n @ '': unmatched '' @ quoted CHR ''['' @ '' in type string''"

section \<open>Function signatures of contracts\<close>

datatype ContractError =
    InvalidAbi string
  | InvalidAddress string string
  | EncodingError string
  | DecodingError string

fun show_contract_error :: "ContractError \<Rightarrow> string" where
  "show_contract_error (InvalidAbi message) = ''Invalid ABI: '' @ message"
| "show_contract_error (InvalidAddress address reason) = ''Invalid address: '' @ address @ '' - '' @ reason"
| "show_contract_error (EncodingError message) = ''Encoding error: '' @ message"
| "show_contract_error (DecodingError message) = ''Decoding error: '' @ message"

record FunctionSignature =
  fn_name :: string
  fn_inputs :: "AbiType list"
  fn_outputs :: "AbiType list"
  selector :: "u8 list"

fun types_to_string_from :: "nat \<Rightarrow> string \<Rightarrow> AbiType list \<Rightarrow> string" where
  "types_to_string_from i result [] = result"
| "types_to_string_from i result (ty # tys) =
     types_to_string_from (i + 1) ((if 0 < i then result @ '','' else result) @ type_str ty) tys"

definition types_to_string :: "AbiType list \<Rightarrow> string" where
  "types_to_string types = types_to_string_from 0 [] types"

definition calculate_selector :: "(u8 list \<Rightarrow> u256) \<Rightarrow> string \<Rightarrow> u8 list" where
  "calculate_selector keccak input = take 4 (to_be_bytes (keccak (as_bytes input)))"

definition function_signature_parse ::
    "(u8 list \<Rightarrow> u256) \<Rightarrow> nat \<Rightarrow> string \<Rightarrow> (FunctionSignature, ContractError) outcome" where
  "function_signature_parse keccak U signature =
     obind (map_err (\<lambda>e. InvalidAbi (''Invalid signature '' @ [CHR 0x27] @ signature @ [CHR 0x27] @ '': ''
         @ show_parse_error e)) (parse_signature U signature)) (\<lambda>parsed.
       let selector_input = name parsed @ ''('' @ types_to_string (inputs parsed) @ '')''
       in Ok \<lparr>fn_name = name parsed, fn_inputs = inputs parsed, fn_outputs = outputs parsed,
              selector = calculate_selector keccak selector_input\<rparr>)"

datatype ProviderError =
    Timeout u64 string
  | RateLimited string
  | ConnectionFailed string
  | InvalidResponse string
  | RpcError int string
  | InvalidBlockRange u64 u64
  | ProviderInvalidAddress string string
  | InvalidTopic string string
  | InvalidParams string
  | AnvilError string
  | ProviderInvalidAbi string
  | ProviderDecodingError string
  | SerializationError string
  | Other string

definition provider_error :: "ContractError \<Rightarrow> ProviderError" where
  \<comment> \<open>\<open>From<ContractError> for ProviderError\<close>\<close>
  "provider_error e = Other (show_contract_error e)"

type_synonym signature_cache = "string \<rightharpoonup> FunctionSignature"

definition parse_function_signature ::
    "(u8 list \<Rightarrow> u256) \<Rightarrow> nat \<Rightarrow> signature_cache \<Rightarrow> string \<Rightarrow>
      (FunctionSignature, ProviderError) outcome \<times> signature_cache" where
  "parse_function_signature keccak U cache signature =
     (case cache signature of
        Some func \<Rightarrow> (Ok func, cache)
      | None \<Rightarrow>
          (case function_signature_parse keccak U signature of
             Ok func \<Rightarrow> (Ok func, cache(signature \<mapsto> func))
           | Err e \<Rightarrow> (Err (provider_error e), cache)
           | Panic \<Rightarrow> (Panic, cache)))"

section \<open>What the parser accepts\<close>

definition identifier_char :: "char \<Rightarrow> bool" where
  "identifier_char c \<longleftrightarrow> is_alphanumeric c \<or> c = CHR ''_''"

definition valid_name :: "string \<Rightarrow> bool" where
  "valid_name s \<longleftrightarrow> s \<noteq> [] \<and> list_all identifier_char s \<and> \<not> is_digit (hd s)"

definition valid_signature :: "nat \<Rightarrow> ParsedSignature \<Rightarrow> bool" where
  "valid_signature U sig \<longleftrightarrow>
     valid_name (name sig) \<and> list_all (valid_type U) (inputs sig) \<and> list_all (valid_type U) (outputs sig)"

definition yields :: "('a \<Rightarrow> bool) \<Rightarrow> ('a, 'e) outcome \<Rightarrow> bool" where
  \<comment> \<open>the postcondition of a computation that may fail but does not panic\<close>
  "yields P r \<longleftrightarrow> (case r of Ok x \<Rightarrow> P x | Err e \<Rightarrow> True | Panic \<Rightarrow> False)"

abbreviation types_ok :: "nat \<Rightarrow> AbiType list \<times> SignatureParser \<Rightarrow> bool" where
  "types_ok U r \<equiv> list_all (valid_type U) (fst r)"

lemma yields_simps [simp]: "yields P (Ok x) \<longleftrightarrow> P x" "yields P (Err e)" "\<not> yields P Panic"
  by (simp_all add: yields_def)

lemma yields_bind: "yields Q m \<Longrightarrow> (\<And>x. m = Ok x \<Longrightarrow> Q x \<Longrightarrow> yields P (f x)) \<Longrightarrow> yields P (obind m f)"
  by (cases m) simp_all

lemma yields_map_err: "yields P m \<Longrightarrow> yields P (map_err f m)"
  by (cases m) simp_all

lemma yields_collect: "yields (\<lambda>_. True) (collect_type_string p)"
proof -
  have "yields (\<lambda>_. True) (collect_from d r cs n)" for d r cs n
    by (induction d r cs n rule: collect_from.induct) auto
  then show ?thesis by (simp add: collect_type_string_def)
qed

lemma yields_parse: "0 < U \<Longrightarrow> yields (valid_type U) (parse U s)"
  using parse_abi_type_valid [of U "trim s"] by (simp add: parse_def yields_def)

lemma yields_expect: "yields (\<lambda>_. True) (expect_char p c)"
  by (simp add: expect_char_def split: option.split)

lemma yields_keyword: "yields (\<lambda>_. True) (consume_keyword p k)"
  by (induction p k rule: consume_keyword.induct) (simp_all split: option.split)

lemma yields_type_list_loop:
  "0 < U \<Longrightarrow> list_all (valid_type U) types \<Longrightarrow> yields (types_ok U) (type_list_loop U types p)"
proof (induction U types p rule: type_list_loop.induct)
  case (1 U types p0)
  have step: "yields (types_ok U)
      (if peek_char (skip_whitespace q) CHR '','' then
         type_list_loop U (types @ [t]) (snd (consume_char (skip_whitespace q) CHR '',''))
       else if peek_char (skip_whitespace q) CHR '')'' then Ok (types @ [t], skip_whitespace q)
       else Err e)"
    if "collect_type_string (skip_whitespace p0) = Ok (s, q)" "s \<noteq> []" "parse U s = Ok t" "valid_type U t"
    for s q t e
    using "1.IH" [OF refl that(1) refl that(2), of t "types @ [t]" "skip_whitespace q"] that "1.prems"
    by (simp add: map_err_eq_Ok)
  show ?case
    by (subst type_list_loop.simps)
      (auto simp: Let_def map_err_eq_Ok
        intro!: yields_bind [OF yields_collect] yields_bind [OF yields_map_err [OF yields_parse]] step "1.prems")
qed

lemma yields_type_list: "0 < U \<Longrightarrow> yields (types_ok U) (sig_type_list U p)"
  by (simp add: sig_type_list_def Let_def yields_type_list_loop)

lemma yields_returns: "0 < U \<Longrightarrow> yields (types_ok U) (parse_returns_clause U p)"
  unfolding parse_returns_clause_def Let_def
  by (auto intro!: yields_bind [OF yields_keyword] yields_bind [OF yields_expect] yields_bind [OF yields_type_list]
      simp del: consume_keyword.simps)

lemma identifier_rest_valid:
  "list_all identifier_char r \<Longrightarrow> list_all identifier_char (fst (identifier_rest r cs n))"
  by (induction r cs n rule: identifier_rest.induct) (auto simp: identifier_char_def)

lemma identifier_rest_prefix: "r \<noteq> [] \<Longrightarrow> fst (identifier_rest r cs n) \<noteq> [] \<and> hd (fst (identifier_rest r cs n)) = hd r"
  by (induction r cs n rule: identifier_rest.induct) auto

lemma alphabetic_not_digit: "is_alphabetic c \<Longrightarrow> \<not> is_digit c"
  by (auto simp: is_alphabetic_def is_digit_def)

lemma underscore_not_digit: "\<not> is_digit CHR ''_''"
  by (simp add: is_digit_def)

lemma yields_identifier: "yields (\<lambda>(nm, q). valid_name nm) (parse_identifier p)"
proof -
  have "valid_name (fst (identifier_rest [c] cs n))" if "is_alphabetic c \<or> c = CHR ''_''" for c cs n
    using that identifier_rest_valid [of "[c]" cs n] identifier_rest_prefix [of "[c]" cs n]
      alphabetic_not_digit [of c] underscore_not_digit
    by (auto simp: valid_name_def identifier_char_def is_alphanumeric_def)
  then show ?thesis
    by (auto simp: parse_identifier_def Let_def split: option.split prod.split) (metis fst_conv)+
qed

lemma yields_signature: "0 < U \<Longrightarrow> yields (valid_signature U) (parse_signature U s)"
  unfolding parse_signature_def sig_parse_def Let_def
  by (auto intro!: yields_bind [OF yields_identifier] yields_bind [OF yields_expect]
      yields_bind [OF yields_type_list] yields_bind [OF yields_returns] simp: valid_signature_def)

section \<open>Reading a printed signature\<close>

lemma skip_id: "cs = [] \<or> \<not> is_whitespace (hd cs) \<Longrightarrow>
    skip_whitespace \<lparr>chars = cs, pos = n\<rparr> = \<lparr>chars = cs, pos = n\<rparr>"
  by (cases cs) (simp_all add: skip_whitespace_def)

lemma collect_plain:
  "list_all plain s \<Longrightarrow> collect_from d r (s @ rest) n = collect_from d (r @ s) rest (n + length s)"
  by (induction s arbitrary: r n) (simp_all add: plain_def)

lemma collect_type_str:
  "collect_from 0 r (type_str t @ rest) n = collect_from 0 (r @ type_str t) rest (n + length (type_str t))"
proof (induction t arbitrary: r rest n)
  case (FixedArray t k)
  then show ?case using collect_plain [OF plain_decimal, of 1 _ k "CHR '']'' # rest"] by (simp add: add.assoc)
next
  case (Array t)
  then show ?case by simp
qed (simp_all add: collect_plain [OF plain_decimal] plain_def is_whitespace_def numeral_eq_Suc)

lemma type_str_head: "\<not> is_whitespace (hd (type_str t @ rest))"
  using type_str_no_space [of t] type_str_nonempty [of t] by (cases "type_str t") simp_all

lemma skip_type_str: "skip_whitespace \<lparr>chars = type_str t @ rest, pos = n\<rparr> = \<lparr>chars = type_str t @ rest, pos = n\<rparr>"
  by (rule skip_id) (simp add: type_str_head del: hd_append2)

lemma type_list_loop_print:
  assumes U: "256 < U"
  shows "list_all (valid_type U) ts \<Longrightarrow> ts \<noteq> [] \<Longrightarrow>
    \<exists>m. type_list_loop U acc \<lparr>chars = join '','' (map type_str ts) @ CHR '')'' # rest, pos = n\<rparr>
      = Ok (acc @ ts, \<lparr>chars = CHR '')'' # rest, pos = m\<rparr>)"
proof (induction ts arbitrary: acc n rule: induct_list012)
  case (2 t)
  then show ?case
    by (subst type_list_loop.simps)
      (simp add: Let_def skip_type_str skip_id collect_type_string_def collect_type_str type_str_nonempty
        parse_def parse_type_str [OF U] peek_char_def peek_next_def is_whitespace_def)
next
  case (3 t t' ts)
  with "3.IH"(2) [of "acc @ [t]"] show ?case
    by (subst type_list_loop.simps)
      (simp add: Let_def skip_type_str skip_id collect_type_string_def collect_type_str type_str_nonempty
        parse_def parse_type_str [OF U] peek_char_def peek_next_def is_whitespace_def consume_char_def advance_def)
qed simp

lemma join_head: "ts \<noteq> [] \<Longrightarrow> hd (join '','' (map type_str ts) @ rest) = hd (type_str (hd ts))"
  by (cases ts rule: remdups_adj.cases) (simp_all add: type_str_nonempty)

lemma type_str_letter: "is_alphabetic (hd (type_str t))"
  by (induction t) (simp_all add: is_alphabetic_def type_str_nonempty)

lemma sig_type_list_print:
  assumes U: "256 < U" and ts: "list_all (valid_type U) ts"
  shows "\<exists>m. sig_type_list U \<lparr>chars = join '','' (map type_str ts) @ CHR '')'' # rest, pos = n\<rparr>
      = Ok (ts, \<lparr>chars = CHR '')'' # rest, pos = m\<rparr>)"
proof (cases "ts = []")
  case True
  then show ?thesis by (simp add: sig_type_list_def Let_def skip_id is_whitespace_def peek_char_def peek_next_def)
next
  case False
  let ?cs = "join '','' (map type_str ts) @ CHR '')'' # rest"
  have h: "is_alphabetic (hd ?cs)" using join_head [OF False, of "CHR '')'' # rest"] type_str_letter by simp
  then have "\<not> is_whitespace (hd ?cs)" "hd ?cs \<noteq> CHR '')''"
    by (auto simp: is_alphabetic_def is_whitespace_def)
  moreover obtain c cs where "?cs = c # cs" by (cases ?cs) simp_all
  ultimately have "sig_type_list U \<lparr>chars = ?cs, pos = n\<rparr> = type_list_loop U [] \<lparr>chars = ?cs, pos = n\<rparr>"
    by (simp add: sig_type_list_def Let_def skip_id peek_char_def peek_next_def)
  then show ?thesis using type_list_loop_print [OF U ts False, of "[]"] by simp
qed

lemma identifier_rest_print:
  "list_all identifier_char s \<Longrightarrow> \<not> identifier_char d \<Longrightarrow>
    identifier_rest r (s @ d # rest) n = (r @ s, \<lparr>chars = d # rest, pos = n + length s\<rparr>)"
  by (induction s arbitrary: r n) (simp_all add: identifier_char_def)

lemma parse_identifier_print:
  assumes "valid_name s"
  shows "\<exists>m. parse_identifier (skip_whitespace (new (s @ CHR ''('' # rest)))
      = Ok (s, \<lparr>chars = CHR ''('' # rest, pos = m\<rparr>)"
proof -
  obtain c cs where s: "s = c # cs" "list_all identifier_char cs" "is_alphabetic c \<or> c = CHR ''_''"
    using assms by (cases s) (auto simp: valid_name_def identifier_char_def is_alphanumeric_def)
  then have "\<not> is_whitespace c" by (auto simp: is_alphabetic_def is_whitespace_def)
  moreover have "\<not> identifier_char CHR ''(''"
    by (simp add: identifier_char_def is_alphanumeric_def is_alphabetic_def is_digit_def)
  ultimately show ?thesis using s
    by (simp add: new_def skip_id parse_identifier_def peek_next_def advance_def Let_def identifier_rest_print)
qed

lemma identifier_first:
  assumes "valid_name s"
  shows "\<not> is_whitespace (hd (s @ rest))"
  using assms by (cases s) (auto simp: valid_name_def identifier_char_def is_alphanumeric_def is_alphabetic_def
      is_digit_def is_whitespace_def)

lemma expect_hit: "expect_char \<lparr>chars = c # cs, pos = n\<rparr> c = Ok \<lparr>chars = cs, pos = n + 1\<rparr>"
  by (simp add: expect_char_def peek_next_def advance_def)

lemma returns_absent: "parse_returns_clause U \<lparr>chars = [], pos = n\<rparr> = Ok ([], \<lparr>chars = [], pos = n\<rparr>)"
  by (simp add: parse_returns_clause_def Let_def skip_id peek_keyword_def)

lemma returns_print:
  assumes U: "256 < U" and ts: "list_all (valid_type U) ts"
  shows "\<exists>m. parse_returns_clause U \<lparr>chars = '' returns ('' @ join '','' (map type_str ts) @ '')'', pos = n\<rparr>
      = Ok (ts, \<lparr>chars = [], pos = m\<rparr>)"
proof -
  let ?cs = "CHR ''('' # join '','' (map type_str ts) @ '')''"
  have skip: "skip_whitespace \<lparr>chars = '' returns '' @ ?cs, pos = n\<rparr> = \<lparr>chars = ''returns '' @ ?cs, pos = n + 1\<rparr>"
    by (simp add: skip_whitespace_def is_whitespace_def)
  have key: "peek_keyword \<lparr>chars = ''returns '' @ ?cs, pos = n + 1\<rparr> ''returns''"
    by (simp add: peek_keyword_def)
  have eat: "consume_keyword \<lparr>chars = ''returns '' @ ?cs, pos = n + 1\<rparr> ''returns''
      = Ok \<lparr>chars = CHR '' '' # ?cs, pos = n + 8\<rparr>"
    by (simp add: peek_next_def advance_def)
  have skip2: "skip_whitespace \<lparr>chars = CHR '' '' # ?cs, pos = n + 8\<rparr> = \<lparr>chars = ?cs, pos = n + 9\<rparr>"
    by (simp add: skip_whitespace_def is_whitespace_def)
  obtain m where list: "sig_type_list U \<lparr>chars = join '','' (map type_str ts) @ '')'', pos = n + 9 + 1\<rparr>
      = Ok (ts, \<lparr>chars = '')'', pos = m\<rparr>)"
    using sig_type_list_print [OF U ts, of "[]"] by blast
  have "parse_returns_clause U \<lparr>chars = '' returns '' @ ?cs, pos = n\<rparr> = Ok (ts, \<lparr>chars = [], pos = m + 1\<rparr>)"
    unfolding parse_returns_clause_def skip Let_def
    by (simp only: key eat skip2 expect_hit list obind.simps prod.case if_False not_True_eq_False)
  then show ?thesis by auto
qed

lemma sig_parse_print:
  assumes U: "256 < U" and nm: "valid_name nm" and ins: "list_all (valid_type U) ins"
    and tail: "\<And>n. \<exists>m. parse_returns_clause U \<lparr>chars = rest, pos = n\<rparr> = Ok (outs, \<lparr>chars = [], pos = m\<rparr>)"
  shows "parse_signature U (nm @ ''('' @ join '','' (map type_str ins) @ CHR '')'' # rest)
      = Ok \<lparr>name = nm, inputs = ins, outputs = outs\<rparr>"
proof -
  let ?cs = "join '','' (map type_str ins) @ CHR '')'' # rest"
  obtain k where id: "parse_identifier (skip_whitespace (new (nm @ CHR ''('' # ?cs)))
      = Ok (nm, \<lparr>chars = CHR ''('' # ?cs, pos = k\<rparr>)"
    using parse_identifier_print [OF nm] by blast
  have skip: "skip_whitespace \<lparr>chars = CHR ''('' # ?cs, pos = k\<rparr> = \<lparr>chars = CHR ''('' # ?cs, pos = k\<rparr>"
    by (simp add: skip_id is_whitespace_def)
  obtain l where list: "sig_type_list U \<lparr>chars = ?cs, pos = k + 1\<rparr> = Ok (ins, \<lparr>chars = CHR '')'' # rest, pos = l\<rparr>)"
    using sig_type_list_print [OF U ins] by blast
  obtain m where outs: "parse_returns_clause U \<lparr>chars = rest, pos = l + 1\<rparr> = Ok (outs, \<lparr>chars = [], pos = m\<rparr>)"
    using tail by blast
  have "nm \<noteq> []" using nm by (simp add: valid_name_def)
  then show ?thesis
    by (simp add: parse_signature_def sig_parse_def id skip expect_hit list outs skip_id peek_next_def
        del: One_nat_def)
qed

lemma signature_reparses:
  assumes U: "256 < U" and v: "valid_signature U sig"
  shows "parse_signature U (to_full_signature_string sig) = Ok sig"
    and "parse_signature U (to_signature_string sig) = Ok (sig\<lparr>outputs := []\<rparr>)"
proof -
  from v have sig: "valid_name (name sig)" "list_all (valid_type U) (inputs sig)" "list_all (valid_type U) (outputs sig)"
    by (simp_all add: valid_signature_def)
  have bare: "parse_signature U (to_signature_string sig) = Ok (sig\<lparr>outputs := []\<rparr>)"
    using sig_parse_print [OF U sig(1,2), of "[]" "[]"] returns_absent by (simp add: to_signature_string_def)
  then show "parse_signature U (to_signature_string sig) = Ok (sig\<lparr>outputs := []\<rparr>)" .
  have "parse_signature U (name sig @ ''('' @ join '','' (map type_str (inputs sig)) @ CHR '')'' #
      '' returns ('' @ join '','' (map type_str (outputs sig)) @ '')'') = Ok sig"
    using sig_parse_print [OF U sig(1,2) returns_print [OF U sig(3)]] by simp
  with bare show "parse_signature U (to_full_signature_string sig) = Ok sig"
    by (auto simp: to_full_signature_string_def to_signature_string_def)
qed

lemma types_to_string_from: "0 < i \<Longrightarrow>
    types_to_string_from i r ts = r @ concat (map (\<lambda>t. '','' @ type_str t) ts)"
  by (induction i r ts rule: types_to_string_from.induct) auto

lemma join_cons: "join '','' (s # map type_str ts) = s @ concat (map (\<lambda>t. '','' @ type_str t) ts)"
  by (induction ts arbitrary: s) auto

lemma types_to_string_join: "types_to_string ts = join '','' (map type_str ts)"
  by (cases ts) (simp_all add: types_to_string_def types_to_string_from join_cons)

lemma selector_input: "name sig @ ''('' @ types_to_string (inputs sig) @ '')'' = to_signature_string sig"
  by (simp add: to_signature_string_def types_to_string_join)

lemma function_signature_Ok:
  "function_signature_parse keccak U s = Ok func \<Longrightarrow>
    selector func = calculate_selector keccak (to_signature_string
      \<lparr>name = fn_name func, inputs = fn_inputs func, outputs = fn_outputs func\<rparr>)"
  unfolding function_signature_parse_def selector_input Let_def
  by (auto simp: obind_eq_Ok to_signature_string_def)

lemma function_signature_total: "0 < U \<Longrightarrow> function_signature_parse keccak U s \<noteq> Panic"
  using yields_signature [of U s]
  by (cases "parse_signature U s") (simp_all add: function_signature_parse_def Let_def)

lemma obind_weak_cong: "m = n \<Longrightarrow> obind m f = obind n f"
  by simp

lemmas sig_eval = parse_signature_def new_def sig_parse_def sig_type_list_def type_list_loop.simps
  parse_returns_clause_def skip_whitespace_def peek_next_def advance_def peek_char_def expect_char_def
  consume_char_def peek_keyword_def parse_identifier_def collect_type_string_def is_alphabetic_def
  is_alphanumeric_def to_ascii_lower_def wrap_i32_def Let_def

section \<open>Properties\<close>

text \<open>
  C20. Signatures have one canonical text: whatever the input, the parser ends with an error or with a signature
  whose name is an identifier and whose types are well formed, and printing that signature in full and
  parsing it again gives the same signature; without the returns clause it gives the signature with no outputs.
  In particular white space, aliases and the case of the keyword never matter.\<close>

theorem signature_canonical:
  "256 < U \<Longrightarrow>
    (case parse_signature U s of
       Ok sig \<Rightarrow>
         valid_signature U sig \<and>
         parse_signature U (to_full_signature_string sig) = Ok sig \<and>
         parse_signature U (to_signature_string sig) = Ok (sig\<lparr>outputs := []\<rparr>)
     | Err _ \<Rightarrow> True
     | Panic \<Rightarrow> False)"
  using yields_signature [of U s] signature_reparses [of U]
  by (auto simp: yields_def split: outcome.splits)

theorem signature_canonical_witness:
  "parse_signature (2 ^ 64) '' f( uint ,bool[2] )RETURNS(int8) ''
     = Ok \<lparr>name = ''f'', inputs = [Uint 256, FixedArray Bool 2], outputs = [Int_t 8]\<rparr> \<and>
   parse_signature (2 ^ 64) ''f(uint256,bool[2]) returns (int8)''
     = Ok \<lparr>name = ''f'', inputs = [Uint 256, FixedArray Bool 2], outputs = [Int_t 8]\<rparr>"
proof -
  let ?sig = "\<lparr>name = ''f'', inputs = [Uint 256, FixedArray Bool 2], outputs = [Int_t 8]\<rparr>"
  have "parse_signature (2 ^ 64) '' f( uint ,bool[2] )RETURNS(int8) '' = Ok ?sig"
    by (simp add: sig_eval type_eval cong: obind_weak_cong) code_simp
  moreover have "to_full_signature_string ?sig = ''f(uint256,bool[2]) returns (int8)''" by code_simp
  ultimately show ?thesis
    using signature_canonical [of "2 ^ 64" "'' f( uint ,bool[2] )RETURNS(int8) ''"]
    by (simp add: power_numeral)
qed

definition cache_sound :: "(u8 list \<Rightarrow> u256) \<Rightarrow> nat \<Rightarrow> signature_cache \<Rightarrow> bool" where
  "cache_sound keccak U cache \<longleftrightarrow>
     (\<forall>s func. cache s = Some func \<longrightarrow> function_signature_parse keccak U s = Ok func)"

text \<open>The selector depends on the canonical signature alone and the signature cache is transparent: under the
  invariant that every entry is the parse of its key, a lookup returns what parsing afresh returns (an error as
  the provider's error with the same message), the invariant is kept, and the selector of a returned signature
  is the hash prefix of the canonical text of its name and input types.\<close>

theorem signature_cache_transparent:
  "0 < U \<Longrightarrow> cache_sound keccak U cache \<Longrightarrow>
    (case parse_function_signature keccak U cache s of
       (r, cache') \<Rightarrow>
         r = map_err provider_error (function_signature_parse keccak U s) \<and>
         cache_sound keccak U cache' \<and>
         (case r of
            Ok func \<Rightarrow>
              selector func = calculate_selector keccak (to_signature_string
                \<lparr>name = fn_name func, inputs = fn_inputs func, outputs = fn_outputs func\<rparr>)
          | Err _ \<Rightarrow> True
          | Panic \<Rightarrow> False))"
  using function_signature_Ok [of keccak U s] function_signature_total [of U keccak s]
  by (auto simp: parse_function_signature_def cache_sound_def split: option.splits outcome.splits)

theorem signature_cache_transparent_witness:
  "cache_sound (\<lambda>_. 0) (2 ^ 64) (snd (parse_function_signature (\<lambda>_. 0) (2 ^ 64) Map.empty ''f()''))"
  using signature_cache_transparent [of "2 ^ 64" "\<lambda>_. 0" Map.empty "''f()''"]
  by (simp add: cache_sound_def split: prod.splits)

end
