(* ===== verification/Abi_Values.thy ===== *)
theory Abi_Values
  imports Signature_Parser
begin

text \<open>
  ABI values: \<open>abi_types/value.rs\<close> and \<open>abi_types/cached.rs\<close>, the encoders and decoders of
  \<open>abi_encoder.rs\<close> and \<open>abi_decoder.rs\<close> over them, \<open>hex_utils.rs\<close>, and the argument and return value
  handling of \<open>contract.rs\<close>. The dynamic values and types of \<open>alloy\<close> are datatypes with the constructors the
  source matches on; what \<open>alloy\<close> computes (type matching, the wire codec, its number, address and
  hexadecimal parsers) is the record \<open>alloy\<close>, an argument of the definitions, and the type cache is an
  argument too.
\<close>

section \<open>Values\<close>

datatype AbiValue =
    V_Address u160
  | V_Bool bool
  | V_FixedBytes "u8 list"
  | V_Bytes "u8 list"
  | V_Uint u256 nat
  | V_Int i256 nat
  | V_String string
  | V_Array "AbiValue list"

datatype DynSolValue =
    S_Address u160
  | S_Bool bool
  | S_Uint u256 nat
  | S_Int i256 nat
  | S_FixedBytes "u8 list" nat
  | S_Bytes "u8 list"
  | S_String string
  | S_Array "DynSolValue list"
  | S_FixedArray "DynSolValue list"
  | S_Tuple "DynSolValue list"
  | S_CustomStruct "DynSolValue list"
  | S_Function "u8 list" \<comment> \<open>an address and a selector\<close>

record alloy =
  a_matches :: "DynSolType \<Rightarrow> DynSolValue \<Rightarrow> bool" \<comment> \<open>\<open>DynSolType::matches\<close>\<close>
  a_describe :: "DynSolType \<Rightarrow> AbiValue \<Rightarrow> string" \<comment> \<open>the text of a mismatch\<close>
  a_encode :: "DynSolValue \<Rightarrow> u8 list" \<comment> \<open>\<open>abi_encode_params\<close>\<close>
  a_decode :: "DynSolType \<Rightarrow> u8 list \<Rightarrow> (DynSolValue, string) outcome" \<comment> \<open>\<open>abi_decode_params\<close>\<close>
  a_address :: "string \<Rightarrow> (u160, string) outcome" \<comment> \<open>\<open>Address::from_str\<close>\<close>
  a_u256 :: "string \<Rightarrow> nat \<Rightarrow> (u256, string) outcome" \<comment> \<open>\<open>U256::from_str_radix\<close>\<close>
  a_i256 :: "string \<Rightarrow> (i256, string) outcome" \<comment> \<open>\<open>I256::from_str\<close>\<close>
  a_hex_decode :: "string \<Rightarrow> (u8 list, string) outcome" \<comment> \<open>\<open>alloy::hex::decode\<close>\<close>
  a_hex_encode :: "u8 list \<Rightarrow> string" \<comment> \<open>\<open>alloy::hex::encode\<close>\<close>

fun collect_results :: "('a, 'e) outcome list \<Rightarrow> ('a list, 'e) outcome" where
  \<comment> \<open>\<open>Iterator::collect\<close> into a \<open>Result\<close>: the first error wins\<close>
  "collect_results [] = Ok []"
| "collect_results (m # ms) = obind m (\<lambda>x. obind (collect_results ms) (\<lambda>xs. Ok (x # xs)))"

definition pad32 :: "u8 list \<Rightarrow> u8 list" where
  "pad32 bytes = bytes @ replicate (32 - length bytes) 0"

fun to_alloy :: "AbiValue \<Rightarrow> (DynSolValue, AbiDecodeError) outcome" where
  "to_alloy (V_Address addr) = Ok (S_Address addr)"
| "to_alloy (V_Bool b) = Ok (S_Bool b)"
| "to_alloy (V_FixedBytes bytes) =
     (if 32 < length bytes then
        Err (UnsupportedType (''bytes'' @ decimal (length bytes) @ '' requires at most 32 bytes, got ''
          @ decimal (length bytes)))
      else Ok (S_FixedBytes (pad32 bytes) (length bytes)))"
| "to_alloy (V_Bytes bytes) = Ok (S_Bytes bytes)"
| "to_alloy (V_String s) = Ok (S_String s)"
| "to_alloy (V_Uint n bits) = Ok (S_Uint n bits)"
| "to_alloy (V_Int n bits) = Ok (S_Int n bits)"
| "to_alloy (V_Array vs) = obind (collect_results (map to_alloy vs)) (\<lambda>xs. Ok (S_Array xs))"

fun from_alloy :: "DynSolValue \<Rightarrow> (AbiValue, AbiDecodeError) outcome" where
  "from_alloy (S_Address addr) = Ok (V_Address addr)"
| "from_alloy (S_Bool b) = Ok (V_Bool b)"
| "from_alloy (S_Uint u bits) = Ok (V_Uint u bits)"
| "from_alloy (S_Int i bits) = Ok (V_Int i bits)"
| "from_alloy (S_FixedBytes fb n) = (if n \<le> length fb then Ok (V_FixedBytes (take n fb)) else Panic)"
| "from_alloy (S_Bytes b) = Ok (V_Bytes b)"
| "from_alloy (S_String s) = Ok (V_String s)"
| "from_alloy (S_Array vs) = obind (collect_results (map from_alloy vs)) (\<lambda>xs. Ok (V_Array xs))"
| "from_alloy (S_FixedArray vs) = obind (collect_results (map from_alloy vs)) (\<lambda>xs. Ok (V_Array xs))"
| "from_alloy (S_Tuple vs) = obind (collect_results (map from_alloy vs)) (\<lambda>xs. Ok (V_Array xs))"
| "from_alloy (S_CustomStruct vs) = obind (collect_results (map from_alloy vs)) (\<lambda>xs. Ok (V_Array xs))"
| "from_alloy (S_Function f) = Err (UnsupportedType ''function type not supported'')"

definition to_alloy_matching :: "alloy \<Rightarrow> DynSolType \<Rightarrow> AbiValue \<Rightarrow> (DynSolValue, AbiDecodeError) outcome" where
  \<comment> \<open>the last arm of \<open>value_to_alloy_for_type\<close>\<close>
  "to_alloy_matching A ty v =
     obind (to_alloy v) (\<lambda>x.
       if \<not> a_matches A ty x then Err (UnsupportedType (a_describe A ty v)) else Ok x)"

fun value_to_alloy_for_type ::
    "alloy \<Rightarrow> DynSolType \<Rightarrow> AbiValue \<Rightarrow> (DynSolValue, AbiDecodeError) outcome" where
  "value_to_alloy_for_type A (T_FixedBytes n) (V_Bytes bytes) =
     (if length bytes \<noteq> n then
        Err (UnsupportedType (''bytes'' @ decimal n @ '' requires exactly '' @ decimal n @ '' bytes, got ''
          @ decimal (length bytes)))
      else if 32 < n then Panic
      else Ok (S_FixedBytes (pad32 bytes) n))"
| "value_to_alloy_for_type A (T_Uint bits) (V_Uint n val_bits) =
     Ok (S_Uint n (if 0 < bits then bits else val_bits))"
| "value_to_alloy_for_type A (T_Int bits) (V_Int n val_bits) =
     Ok (S_Int n (if 0 < bits then bits else val_bits))"
| "value_to_alloy_for_type A (T_FixedArray inner_ty n) (V_Array vs) =
     (if length vs \<noteq> n then
        Err (UnsupportedType (''Fixed array of size '' @ decimal n @ '' requires exactly '' @ decimal n
          @ '' elements, got '' @ decimal (length vs)))
      else
        obind (collect_results (map (value_to_alloy_for_type A inner_ty) vs)) (\<lambda>xs. Ok (S_FixedArray xs)))"
| "value_to_alloy_for_type A ty v = to_alloy_matching A ty v"

section \<open>Cached type sets\<close>

record CachedAbiTypes =
  cached_types :: "AbiType list"
  alloy_types :: "DynSolType list"
  tuple_type :: DynSolType
  type_strings :: "string list"

fun parse_all :: "nat \<Rightarrow> string list \<Rightarrow> ((AbiType \<times> DynSolType) list, AbiDecodeError) outcome" where
  \<comment> \<open>the loop of \<open>CachedAbiTypes::new\<close>\<close>
  "parse_all U [] = Ok []"
| "parse_all U (ty # tys) =
     obind (map_err (\<lambda>e. UnsupportedType (''Invalid type '' @ ([CHR 0x27] @ ty @ [CHR 0x27]) @ '': '' @ show_type_error e))
       (parse U ty)) (\<lambda>abi_type.
     obind (to_alloy_type abi_type) (\<lambda>alloy_type.
     obind (parse_all U tys) (\<lambda>rest. Ok ((abi_type, alloy_type) # rest))))"

definition cached_new :: "nat \<Rightarrow> string list \<Rightarrow> (CachedAbiTypes, AbiDecodeError) outcome" where
  "cached_new U types =
     (if types = [] then Err EmptyTypesList
      else
        obind (parse_all U types) (\<lambda>parsed.
          Ok \<lparr>cached_types = map fst parsed, alloy_types = map snd parsed,
              tuple_type = T_Tuple (map snd parsed), type_strings = types\<rparr>))"

definition from_abi_types :: "AbiType list \<Rightarrow> (CachedAbiTypes, AbiDecodeError) outcome" where
  "from_abi_types types =
     (if types = [] then Err EmptyTypesList
      else
        obind (collect_results (map to_alloy_type types)) (\<lambda>alloys.
          Ok \<lparr>cached_types = types, alloy_types = alloys, tuple_type = T_Tuple alloys,
              type_strings = map type_str types\<rparr>))"

definition cached_decode :: "alloy \<Rightarrow> CachedAbiTypes \<Rightarrow> u8 list \<Rightarrow> (AbiValue list, AbiDecodeError) outcome" where
  "cached_decode A c data =
     (if data = [] then Err EmptyData
      else
        obind (map_err (\<lambda>e. InvalidOffset (''Decoding failed: '' @ e)) (a_decode A (tuple_type c) data)) (\<lambda>decoded.
          collect_results (map from_alloy (case decoded of S_Tuple vals \<Rightarrow> vals | other \<Rightarrow> [other]))))"

definition cached_decode_batch ::
    "alloy \<Rightarrow> CachedAbiTypes \<Rightarrow> u8 list list \<Rightarrow> (AbiValue list list, AbiDecodeError) outcome" where
  "cached_decode_batch A c data_items = collect_results (map (cached_decode A c) data_items)"

definition count_mismatch :: "nat \<Rightarrow> nat \<Rightarrow> AbiDecodeError" where
  "count_mismatch types values =
     InvalidLength (''Type count '' @ decimal types @ '' does not match value count '' @ decimal values)"

definition cached_encode :: "alloy \<Rightarrow> CachedAbiTypes \<Rightarrow> AbiValue list \<Rightarrow> (u8 list, AbiDecodeError) outcome" where
  "cached_encode A c vs =
     (if length vs \<noteq> length (cached_types c) then Err (count_mismatch (length (cached_types c)) (length vs))
      else
        obind (collect_results (map (\<lambda>(t, v). value_to_alloy_for_type A t v) (zip (alloy_types c) vs))) (\<lambda>xs.
          Ok (a_encode A (S_Tuple xs))))"

definition cached_encode_batch ::
    "alloy \<Rightarrow> CachedAbiTypes \<Rightarrow> AbiValue list list \<Rightarrow> (u8 list list, AbiDecodeError) outcome" where
  "cached_encode_batch A c values_batch = collect_results (map (cached_encode A c) values_batch)"

section \<open>The type cache and the entry points\<close>

record 'c type_cache =
  lru_get :: "string list \<Rightarrow> 'c \<Rightarrow> CachedAbiTypes option \<times> 'c" \<comment> \<open>\<open>LruCache::get\<close>, which reorders\<close>
  lru_put :: "string list \<Rightarrow> CachedAbiTypes \<Rightarrow> 'c \<Rightarrow> 'c" \<comment> \<open>\<open>LruCache::put\<close>, which may evict\<close>

definition get_cached_types ::
    "'c type_cache \<Rightarrow> nat \<Rightarrow> string list \<Rightarrow> 'c \<Rightarrow> (CachedAbiTypes, AbiDecodeError) outcome \<times> 'c" where
  "get_cached_types L U types c =
     (case lru_get L types c of
        (Some cached, c') \<Rightarrow> (Ok cached, c')
      | (None, c') \<Rightarrow>
          (case cached_new U types of
             Ok cached \<Rightarrow> (Ok cached, lru_put L types cached c')
           | Err e \<Rightarrow> (Err e, c')
           | Panic \<Rightarrow> (Panic, c')))"

definition encode_single_rust ::
    "alloy \<Rightarrow> 'c type_cache \<Rightarrow> nat \<Rightarrow> string \<Rightarrow> AbiValue \<Rightarrow> 'c \<Rightarrow> (u8 list, AbiDecodeError) outcome \<times> 'c" where
  "encode_single_rust A L U abi_type v c =
     (case get_cached_types L U [abi_type] c of
        (r, c') \<Rightarrow> (obind r (\<lambda>cached. cached_encode A cached [v]), c'))"

definition encode_rust ::
    "alloy \<Rightarrow> 'c type_cache \<Rightarrow> nat \<Rightarrow> string list \<Rightarrow> AbiValue list \<Rightarrow> 'c \<Rightarrow>
      (u8 list, AbiDecodeError) outcome \<times> 'c" where
  "encode_rust A L U types vs c =
     (if length types \<noteq> length vs then (Err (count_mismatch (length types) (length vs)), c)
      else if types = [] then (Ok [], c)
      else
        (case get_cached_types L U types c of
           (r, c') \<Rightarrow> (obind r (\<lambda>cached. cached_encode A cached vs), c')))"

definition encode_for_types :: "alloy \<Rightarrow> AbiType list \<Rightarrow> AbiValue list \<Rightarrow> (u8 list, AbiDecodeError) outcome" where
  "encode_for_types A types vs =
     (if length types \<noteq> length vs then Err (count_mismatch (length types) (length vs))
      else if types = [] then Ok []
      else obind (from_abi_types types) (\<lambda>cached. cached_encode A cached vs))"

fun contains :: "string \<Rightarrow> string \<Rightarrow> bool" where
  "contains [] pat = (pat = [])"
| "contains (c # cs) pat = (take (length pat) (c # cs) = pat \<or> contains cs pat)"

definition decode_rust ::
    "alloy \<Rightarrow> 'c type_cache \<Rightarrow> nat \<Rightarrow> string list \<Rightarrow> u8 list \<Rightarrow> 'c \<Rightarrow>
      (AbiValue list, AbiDecodeError) outcome \<times> 'c" where
  "decode_rust A L U types data c =
     (if types = [] then (Err EmptyTypesList, c)
      else if list_ex (\<lambda>ty. contains ty ''fixed'' \<or> contains ty ''ufixed'') types then
        (Err FixedPointNotImplemented, c)
      else if data = [] then (Err EmptyData, c)
      else
        (case get_cached_types L U types c of
           (r, c') \<Rightarrow> (obind r (\<lambda>cached. cached_decode A cached data), c')))"

definition decode_single_rust ::
    "alloy \<Rightarrow> 'c type_cache \<Rightarrow> nat \<Rightarrow> string \<Rightarrow> u8 list \<Rightarrow> 'c \<Rightarrow> (AbiValue, AbiDecodeError) outcome \<times> 'c" where
  "decode_single_rust A L U abi_type data c =
     (if contains abi_type ''fixed'' \<or> contains abi_type ''ufixed'' then (Err FixedPointNotImplemented, c)
      else if data = [] then (Err EmptyData, c)
      else
        (case get_cached_types L U [abi_type] c of
           (r, c') \<Rightarrow>
             (obind (obind r (\<lambda>cached. cached_decode A cached data)) (\<lambda>vs.
                if vs = [] then Err EmptyData else Ok (last vs)), c')))"

definition decode_for_types :: "alloy \<Rightarrow> AbiType list \<Rightarrow> u8 list \<Rightarrow> (AbiValue list, AbiDecodeError) outcome" where
  "decode_for_types A types data =
     (if types = [] then Ok []
      else if data = [] then Err EmptyData
      else obind (from_abi_types types) (\<lambda>cached. cached_decode A cached data))"

section \<open>Well-typed values\<close>

primrec wire_type :: "AbiType \<Rightarrow> DynSolType" where
  "wire_type Address = T_Address"
| "wire_type Bool = T_Bool"
| "wire_type (Uint bits) = T_Uint bits"
| "wire_type (Int_t bits) = T_Int bits"
| "wire_type (FixedBytes n) = T_FixedBytes n"
| "wire_type Bytes = T_Bytes"
| "wire_type String = T_String"
| "wire_type (Array t) = T_Array (wire_type t)"
| "wire_type (FixedArray t n) = T_FixedArray (wire_type t) n"

primrec dyn_matches :: "AbiType \<Rightarrow> DynSolValue \<Rightarrow> bool" where
  \<comment> \<open>a dynamic value of a type\<close>
  "dyn_matches Address x = (case x of S_Address a \<Rightarrow> True | _ \<Rightarrow> False)"
| "dyn_matches Bool x = (case x of S_Bool b \<Rightarrow> True | _ \<Rightarrow> False)"
| "dyn_matches (Uint bits) x = (case x of S_Uint n k \<Rightarrow> k = bits | _ \<Rightarrow> False)"
| "dyn_matches (Int_t bits) x = (case x of S_Int n k \<Rightarrow> k = bits | _ \<Rightarrow> False)"
| "dyn_matches (FixedBytes n) x = (case x of S_FixedBytes fb k \<Rightarrow> k = n | _ \<Rightarrow> False)"
| "dyn_matches Bytes x = (case x of S_Bytes b \<Rightarrow> True | _ \<Rightarrow> False)"
| "dyn_matches String x = (case x of S_String s \<Rightarrow> True | _ \<Rightarrow> False)"
| "dyn_matches (Array t) x = (case x of S_Array xs \<Rightarrow> list_all (dyn_matches t) xs | _ \<Rightarrow> False)"
| "dyn_matches (FixedArray t n) x =
     (case x of S_FixedArray xs \<Rightarrow> length xs = n \<and> list_all (dyn_matches t) xs | _ \<Rightarrow> False)"

definition in_uint :: "nat \<Rightarrow> u256 \<Rightarrow> bool" where
  "in_uint bits n \<longleftrightarrow> unat n < 2 ^ bits"

definition in_int :: "nat \<Rightarrow> i256 \<Rightarrow> bool" where
  "in_int bits n \<longleftrightarrow> - (2 ^ (bits - 1)) \<le> sint n \<and> sint n < 2 ^ (bits - 1)"

primrec dyn_in :: "AbiType \<Rightarrow> DynSolValue \<Rightarrow> bool" where
  \<comment> \<open>a dynamic value of a type whose numbers fit the width and whose fixed bytes are padded with zeros\<close>
  "dyn_in Address x = (case x of S_Address a \<Rightarrow> True | _ \<Rightarrow> False)"
| "dyn_in Bool x = (case x of S_Bool b \<Rightarrow> True | _ \<Rightarrow> False)"
| "dyn_in (Uint bits) x = (case x of S_Uint n k \<Rightarrow> k = bits \<and> in_uint bits n | _ \<Rightarrow> False)"
| "dyn_in (Int_t bits) x = (case x of S_Int n k \<Rightarrow> k = bits \<and> in_int bits n | _ \<Rightarrow> False)"
| "dyn_in (FixedBytes n) x = (case x of S_FixedBytes fb k \<Rightarrow> k = n \<and> fb = pad32 (take n fb) | _ \<Rightarrow> False)"
| "dyn_in Bytes x = (case x of S_Bytes b \<Rightarrow> True | _ \<Rightarrow> False)"
| "dyn_in String x = (case x of S_String s \<Rightarrow> True | _ \<Rightarrow> False)"
| "dyn_in (Array t) x = (case x of S_Array xs \<Rightarrow> list_all (dyn_in t) xs | _ \<Rightarrow> False)"
| "dyn_in (FixedArray t n) x =
     (case x of S_FixedArray xs \<Rightarrow> length xs = n \<and> list_all (dyn_in t) xs | _ \<Rightarrow> False)"

primrec value_in :: "AbiType \<Rightarrow> AbiValue \<Rightarrow> bool" where
  \<comment> \<open>a value of a type, in the form the decoder gives it\<close>
  "value_in Address v = (case v of V_Address a \<Rightarrow> True | _ \<Rightarrow> False)"
| "value_in Bool v = (case v of V_Bool b \<Rightarrow> True | _ \<Rightarrow> False)"
| "value_in (Uint bits) v = (case v of V_Uint n k \<Rightarrow> k = bits \<and> in_uint bits n | _ \<Rightarrow> False)"
| "value_in (Int_t bits) v = (case v of V_Int n k \<Rightarrow> k = bits \<and> in_int bits n | _ \<Rightarrow> False)"
| "value_in (FixedBytes n) v = (case v of V_FixedBytes b \<Rightarrow> length b = n | _ \<Rightarrow> False)"
| "value_in Bytes v = (case v of V_Bytes b \<Rightarrow> True | _ \<Rightarrow> False)"
| "value_in String v = (case v of V_String s \<Rightarrow> True | _ \<Rightarrow> False)"
| "value_in (Array t) v = (case v of V_Array vs \<Rightarrow> list_all (value_in t) vs | _ \<Rightarrow> False)"
| "value_in (FixedArray t n) v =
     (case v of V_Array vs \<Rightarrow> length vs = n \<and> list_all (value_in t) vs | _ \<Rightarrow> False)"

definition matches_faithful :: "alloy \<Rightarrow> bool" where
  \<comment> \<open>what the documentation of \<open>DynSolType::matches\<close> promises\<close>
  "matches_faithful A \<longleftrightarrow> (\<forall>t x. a_matches A (wire_type t) x = dyn_matches t x)"

definition codec_faithful :: "alloy \<Rightarrow> AbiType list \<Rightarrow> bool" where
  \<comment> \<open>what \<open>alloy\<close> promises of its wire codec: parameters in range are encoded, not to nothing, and read back\<close>
  "codec_faithful A ts \<longleftrightarrow>
     (\<forall>xs. list_all2 dyn_in ts xs \<longrightarrow>
        a_encode A (S_Tuple xs) \<noteq> [] \<and>
        a_decode A (T_Tuple (map wire_type ts)) (a_encode A (S_Tuple xs)) = Ok (S_Tuple xs))"

fun fixed_free :: "AbiType \<Rightarrow> bool" where
  \<comment> \<open>no fixed array anywhere\<close>
  "fixed_free (Array t) = fixed_free t"
| "fixed_free (FixedArray t n) = False"
| "fixed_free _ = True"

fun encodable :: "AbiType \<Rightarrow> bool" where
  \<comment> \<open>no fixed array inside a dynamic one\<close>
  "encodable (Array t) = fixed_free t"
| "encodable (FixedArray t n) = encodable t"
| "encodable _ = True"

lemma to_alloy_type_wire: "to_alloy_type t = Ok (wire_type t)"
  by (induction t) simp_all

lemma collect_ex_Ok:
  "(\<And>x. x \<in> set xs \<Longrightarrow> \<exists>y. g x = Ok y \<and> P x y) \<Longrightarrow> \<exists>ys. collect_results (map g xs) = Ok ys \<and> list_all2 P xs ys"
  by (induction xs) fastforce+

lemma collect_inverse: "list_all2 (\<lambda>x y. f y = Ok x) xs ys \<Longrightarrow> collect_results (map f ys) = Ok xs"
  by (induction rule: list_all2_induct) simp_all

lemma collect_types: "collect_results (map to_alloy_type ts) = Ok (map wire_type ts)"
  by (induction ts) (simp_all add: to_alloy_type_wire)

lemma collect_eq_Ok: "collect_results (map g xs) = Ok ys \<longleftrightarrow> list_all2 (\<lambda>x y. g x = Ok y) xs ys"
  by (induction xs arbitrary: ys) (auto simp: obind_eq_Ok list_all2_Cons1)

lemma dyn_in_matches: "dyn_in t x \<Longrightarrow> dyn_matches t x"
  by (induction t arbitrary: x) (auto split: DynSolValue.splits simp: list_all_iff)

definition represents :: "AbiType \<Rightarrow> AbiValue \<Rightarrow> DynSolValue \<Rightarrow> bool" where
  "represents t v x \<longleftrightarrow> dyn_in t x \<and> from_alloy x = Ok v"

lemma represents_array:
  "list_all2 (represents t) vs xs \<Longrightarrow>
    represents (Array t) (V_Array vs) (S_Array xs) \<and>
    represents (FixedArray t (length vs)) (V_Array vs) (S_FixedArray xs)"
proof -
  assume a: "list_all2 (represents t) vs xs"
  then have "collect_results (map from_alloy xs) = Ok vs"
    by (intro collect_inverse) (auto simp: represents_def elim: list_all2_mono)
  moreover have "list_all (dyn_in t) xs" "length xs = length vs"
    using a by (induction rule: list_all2_induct) (auto simp: represents_def)
  ultimately show ?thesis by (simp add: represents_def)
qed

lemma to_alloy_represents:
  "value_in t v \<Longrightarrow> valid_type U t \<Longrightarrow> fixed_free t \<Longrightarrow> \<exists>x. to_alloy v = Ok x \<and> represents t v x"
proof (induction t arbitrary: v)
  case (Array t)
  then obtain vs where v: "v = V_Array vs" "list_all (value_in t) vs" by (auto split: AbiValue.splits)
  with Array have "\<exists>xs. collect_results (map to_alloy vs) = Ok xs \<and> list_all2 (represents t) vs xs"
    by (intro collect_ex_Ok) (auto simp: list_all_iff)
  then show ?case using v represents_array by fastforce
qed (auto simp: represents_def pad32_def split: AbiValue.splits)

lemma matches_wire:
  assumes "matches_faithful A"
  shows "a_matches A T_Address = dyn_matches Address" "a_matches A T_Bool = dyn_matches Bool"
    "a_matches A (T_Uint bits) = dyn_matches (Uint bits)" "a_matches A (T_Int bits) = dyn_matches (Int_t bits)"
    "a_matches A (T_FixedBytes n) = dyn_matches (FixedBytes n)" "a_matches A T_Bytes = dyn_matches Bytes"
    "a_matches A T_String = dyn_matches String" "a_matches A (T_Array (wire_type t)) = dyn_matches (Array t)"
  using assms [unfolded matches_faithful_def, rule_format, of Address]
    assms [unfolded matches_faithful_def, rule_format, of Bool]
    assms [unfolded matches_faithful_def, rule_format, of "Uint bits"]
    assms [unfolded matches_faithful_def, rule_format, of "Int_t bits"]
    assms [unfolded matches_faithful_def, rule_format, of "FixedBytes n"]
    assms [unfolded matches_faithful_def, rule_format, of Bytes]
    assms [unfolded matches_faithful_def, rule_format, of String]
    assms [unfolded matches_faithful_def, rule_format, of "Array t"]
  by (auto simp: fun_eq_iff)

lemma for_type_represents:
  assumes M: "matches_faithful A"
  shows "value_in t v \<Longrightarrow> valid_type U t \<Longrightarrow> encodable t \<Longrightarrow>
    \<exists>x. value_to_alloy_for_type A (wire_type t) v = Ok x \<and> represents t v x"
proof (induction t arbitrary: v)
  case (FixedArray t n)
  then obtain vs where v: "v = V_Array vs" "length vs = n" "list_all (value_in t) vs"
    by (auto split: AbiValue.splits)
  with FixedArray have "\<exists>xs. collect_results (map (value_to_alloy_for_type A (wire_type t)) vs) = Ok xs
      \<and> list_all2 (represents t) vs xs"
    by (intro collect_ex_Ok) (auto simp: list_all_iff)
  then show ?case using v represents_array by fastforce
next
  case (Array t)
  then obtain x where x: "to_alloy v = Ok x" "represents (Array t) v x"
    using to_alloy_represents [of "Array t" v U] by auto
  then have "a_matches A (T_Array (wire_type t)) x"
    using dyn_in_matches [of "Array t" x] by (simp add: matches_wire [OF M] represents_def del: dyn_in.simps dyn_matches.simps)
  with x show ?case by (auto simp: to_alloy_matching_def split: AbiValue.splits)
qed (auto simp: matches_wire [OF M] represents_def pad32_def to_alloy_matching_def split: AbiValue.splits)

lemma encode_params:
  assumes M: "matches_faithful A" and e: "list_all (\<lambda>t. valid_type U t \<and> encodable t) ts"
    and v: "list_all2 value_in ts vs"
  shows "\<exists>xs. collect_results (map (\<lambda>(t, v). value_to_alloy_for_type A t v) (zip (map wire_type ts) vs)) = Ok xs \<and>
    list_all2 dyn_in ts xs \<and> collect_results (map from_alloy xs) = Ok vs"
  using v e
proof (induction rule: list_all2_induct)
  case (Cons t ts v vs)
  then obtain xs where xs: "collect_results (map (\<lambda>(t, v). value_to_alloy_for_type A t v) (zip (map wire_type ts) vs)) = Ok xs"
    "list_all2 dyn_in ts xs" "collect_results (map from_alloy xs) = Ok vs" by auto
  obtain x where "value_to_alloy_for_type A (wire_type t) v = Ok x" "represents t v x"
    using for_type_represents [OF M] Cons by fastforce
  with xs show ?case by (intro exI [of _ "x # xs"]) (simp add: represents_def)
qed simp

lemma encode_decode:
  assumes M: "matches_faithful A" and c: "codec_faithful A ts"
    and e: "list_all (\<lambda>t. valid_type U t \<and> encodable t) ts" and v: "list_all2 value_in ts vs"
  shows "\<exists>data. encode_for_types A ts vs = Ok data \<and> decode_for_types A ts data = Ok vs \<and> (data = [] \<longrightarrow> ts = [])"
proof -
  obtain xs where xs: "collect_results (map (\<lambda>(t, v). value_to_alloy_for_type A t v) (zip (map wire_type ts) vs)) = Ok xs"
    "list_all2 dyn_in ts xs" "collect_results (map from_alloy xs) = Ok vs"
    using encode_params [OF M e v] by blast
  with c have "a_encode A (S_Tuple xs) \<noteq> []"
    "a_decode A (T_Tuple (map wire_type ts)) (a_encode A (S_Tuple xs)) = Ok (S_Tuple xs)"
    by (simp_all add: codec_faithful_def)
  with xs show ?thesis
    using list_all2_lengthD [OF v]
    by (auto simp: encode_for_types_def decode_for_types_def from_abi_types_def cached_encode_def cached_decode_def
        collect_types)
qed

section \<open>Properties\<close>

text \<open>The encoder and the decoder agree: values that fit their types, with no fixed array inside a dynamic one,
  are always encoded, and decoding the bytes with the same types gives the values back. What it relies on of
  the third-party codec is that it reads back the well-formed parameters it writes.\<close>

theorem abi_codec_roundtrip:
  "matches_faithful A \<Longrightarrow> codec_faithful A ts \<Longrightarrow>
    list_all (\<lambda>t. valid_type U t \<and> encodable t) ts \<Longrightarrow> list_all2 value_in ts vs \<Longrightarrow>
    obind (encode_for_types A ts vs) (decode_for_types A ts) = Ok vs"
  using encode_decode [of A ts U vs] by auto

fun sample_matches :: "DynSolType \<Rightarrow> DynSolValue \<Rightarrow> bool" where
  "sample_matches T_Address x = dyn_matches Address x"
| "sample_matches T_Bool x = dyn_matches Bool x"
| "sample_matches (T_Uint bits) x = dyn_matches (Uint bits) x"
| "sample_matches (T_Int bits) x = dyn_matches (Int_t bits) x"
| "sample_matches (T_FixedBytes n) x = dyn_matches (FixedBytes n) x"
| "sample_matches T_Bytes x = dyn_matches Bytes x"
| "sample_matches T_String x = dyn_matches String x"
| "sample_matches (T_Array t) x = (case x of S_Array xs \<Rightarrow> list_all (sample_matches t) xs | _ \<Rightarrow> False)"
| "sample_matches (T_FixedArray t n) x =
     (case x of S_FixedArray xs \<Rightarrow> length xs = n \<and> list_all (sample_matches t) xs | _ \<Rightarrow> False)"
| "sample_matches (T_Tuple ts) x = False"

definition sample_alloy :: alloy where
  "sample_alloy = \<lparr>
     a_matches = sample_matches,
     a_describe = (\<lambda>_ _. ''mismatch''),
     a_encode = (\<lambda>x. case x of S_Tuple [S_Bool b] \<Rightarrow> replicate 31 0 @ [if b then 1 else 0] | _ \<Rightarrow> []),
     a_decode = (\<lambda>_ d. Ok (S_Tuple [S_Bool (last d = 1)])),
     a_address = (\<lambda>_. Err []), a_u256 = (\<lambda>_ _. Err []), a_i256 = (\<lambda>_. Err []),
     a_hex_decode = (\<lambda>_. Err []), a_hex_encode = (\<lambda>_. [])\<rparr>"

lemma sample_matches_faithful: "matches_faithful sample_alloy"
proof -
  have "sample_matches (wire_type t) x = dyn_matches t x" for t x
    by (induction t arbitrary: x) (auto split: DynSolValue.splits simp: list_all_iff)
  then show ?thesis by (simp add: matches_faithful_def sample_alloy_def)
qed

lemma sample_codec_faithful: "codec_faithful sample_alloy [Bool]"
proof -
  have "\<exists>b. xs = [S_Bool b]" if "list_all2 dyn_in [Bool] xs" for xs
    using that by (cases xs) (auto split: DynSolValue.splits)
  moreover have "a_encode sample_alloy (S_Tuple [S_Bool b]) \<noteq> []"
    "a_decode sample_alloy ty (a_encode sample_alloy (S_Tuple [S_Bool b])) = Ok (S_Tuple [S_Bool b])" for b ty
    by (simp_all add: sample_alloy_def)
  ultimately show ?thesis unfolding codec_faithful_def by metis
qed

theorem abi_codec_roundtrip_witness:
  "encode_for_types sample_alloy [Bool] [V_Bool True] = Ok (replicate 31 0 @ [1]) \<and>
   decode_for_types sample_alloy [Bool] (replicate 31 0 @ [1]) = Ok [V_Bool True]"
proof -
  have "encode_for_types sample_alloy [Bool] [V_Bool True] = Ok (replicate 31 0 @ [1])"
    by (simp add: encode_for_types_def from_abi_types_def cached_encode_def to_alloy_matching_def sample_alloy_def)
  then show ?thesis
    using abi_codec_roundtrip [OF sample_matches_faithful sample_codec_faithful, of 300 "[V_Bool True]"] by simp
qed

text \<open>
  Inside a dynamic array the encoder is stricter than outside: a nonempty array of fixed arrays is never
  encoded, whatever its elements; an integer whose recorded width is not the width of the element type is
  rejected there although the same integer is accepted as a scalar; and an unsigned value is rejected where a
  signed type is expected.\<close>

theorem dynamic_arrays_reject:
  "matches_faithful A \<Longrightarrow>
    (vs \<noteq> [] \<longrightarrow> \<not> is_ok (value_to_alloy_for_type A (wire_type (Array (FixedArray t k))) (V_Array vs))) \<and>
    (0 < bits \<and> w \<noteq> bits \<longrightarrow>
       is_ok (value_to_alloy_for_type A (wire_type (Uint bits)) (V_Uint n w)) \<and>
       \<not> is_ok (value_to_alloy_for_type A (wire_type (Array (Uint bits))) (V_Array [V_Uint n w]))) \<and>
    \<not> is_ok (value_to_alloy_for_type A (wire_type (Int_t bits)) (V_Uint n w))"
proof -
  assume M: "matches_faithful A"
  have no_fixed: "to_alloy v = Ok x \<Longrightarrow> \<not> dyn_matches (FixedArray t k) x" for v x
    by (cases v) (auto simp: obind_eq_Ok split: if_splits)
  have "\<not> dyn_matches (Array (FixedArray t k)) x" if "to_alloy (V_Array vs) = Ok x" "vs \<noteq> []" for x
    using that no_fixed by (cases vs) (auto simp: obind_eq_Ok simp del: dyn_matches.simps(9))
  then have "vs \<noteq> [] \<longrightarrow> \<not> is_ok (value_to_alloy_for_type A (wire_type (Array (FixedArray t k))) (V_Array vs))"
    using matches_wire(8) [OF M, of "FixedArray t k"]
    by (auto simp: to_alloy_matching_def is_ok_iff obind_eq_Ok simp del: dyn_matches.simps)
  then show ?thesis
    using matches_wire(8) [OF M, of "Uint bits"] by (simp add: to_alloy_matching_def matches_wire [OF M])
qed

theorem dynamic_arrays_reject_witness:
  "\<not> is_ok (value_to_alloy_for_type sample_alloy (T_Array (T_Uint 8)) (V_Array [V_Uint 1 256])) \<and>
   is_ok (value_to_alloy_for_type sample_alloy (T_Uint 8) (V_Uint 1 256)) \<and>
   \<not> is_ok (value_to_alloy_for_type sample_alloy (T_Array (T_FixedArray T_Bool 1)) (V_Array [V_Array [V_Bool True]]))"
  using dynamic_arrays_reject [OF sample_matches_faithful, of "[V_Array [V_Bool True]]" Bool 1 8 256 1] by simp

definition lru_faithful :: "'c type_cache \<Rightarrow> ('c \<Rightarrow> string list \<Rightarrow> CachedAbiTypes \<Rightarrow> bool) \<Rightarrow> bool" where
  \<comment> \<open>what the cache promises, over a relation saying what it holds: it invents nothing\<close>
  "lru_faithful L holds \<longleftrightarrow>
     (\<forall>c k. case lru_get L k c of (r, c') \<Rightarrow>
        (\<forall>v. r = Some v \<longrightarrow> holds c k v) \<and> (\<forall>k' v. holds c' k' v \<longrightarrow> holds c k' v)) \<and>
     (\<forall>c k v k' v'. holds (lru_put L k v c) k' v' \<longrightarrow> k' = k \<and> v' = v \<or> holds c k' v')"

definition cached_sound :: "nat \<Rightarrow> ('c \<Rightarrow> string list \<Rightarrow> CachedAbiTypes \<Rightarrow> bool) \<Rightarrow> 'c \<Rightarrow> bool" where
  "cached_sound U holds c \<longleftrightarrow> (\<forall>k v. holds c k v \<longrightarrow> cached_new U k = Ok v)"

text \<open>The type cache is transparent: as long as it holds only what parsing its keys yields, looking types up
  returns what parsing them afresh returns, errors included, and keeps that invariant, whatever is evicted.\<close>

theorem type_cache_transparent:
  "lru_faithful L holds \<Longrightarrow> cached_sound U holds c \<Longrightarrow>
    (case get_cached_types L U types c of
       (r, c') \<Rightarrow> r = cached_new U types \<and> cached_sound U holds c')"
proof -
  assume L: "lru_faithful L holds" and c: "cached_sound U holds c"
  obtain r c' where g: "lru_get L types c = (r, c')" by force
  with L have r: "\<And>v. r = Some v \<Longrightarrow> holds c types v" and c': "\<And>k v. holds c' k v \<Longrightarrow> holds c k v"
    unfolding lru_faithful_def by (metis (mono_tags, lifting) prod.case)+
  have put: "holds (lru_put L types v c') k v' \<Longrightarrow> k = types \<and> v' = v \<or> holds c' k v'" for k v v'
    using L unfolding lru_faithful_def by blast
  have sound: "cached_sound U holds c'" using c c' unfolding cached_sound_def by blast
  have sound_put: "cached_sound U holds (lru_put L types v c')" if "cached_new U types = Ok v" for v
    using that sound put unfolding cached_sound_def by blast
  show ?thesis
  proof (cases r)
    case None
    then show ?thesis
      by (cases "cached_new U types") (simp_all add: get_cached_types_def g sound sound_put)
  next
    case (Some v)
    then have "cached_new U types = Ok v" using c r unfolding cached_sound_def by blast
    then show ?thesis by (simp add: get_cached_types_def g sound Some)
  qed
qed

definition sample_lru :: "(string list \<times> CachedAbiTypes) list type_cache" where
  "sample_lru = \<lparr>lru_get = \<lambda>k c. (map_of c k, c), lru_put = \<lambda>k v c. take 10000 ((k, v) # c)\<rparr>"

lemma sample_lru_faithful: "lru_faithful sample_lru (\<lambda>c k v. (k, v) \<in> set c)"
  by (auto simp: lru_faithful_def sample_lru_def dest: map_of_SomeD in_set_takeD)

theorem type_cache_transparent_witness:
  "get_cached_types sample_lru 300 [''bool''] [] = (cached_new 300 [''bool''],
     snd (get_cached_types sample_lru 300 [''bool''] [])) \<and>
   cached_sound 300 (\<lambda>c k v. (k, v) \<in> set c) (snd (get_cached_types sample_lru 300 [''bool''] []))"
  using type_cache_transparent [OF sample_lru_faithful, of 300 "[]" "[''bool'']"]
  by (auto simp: cached_sound_def split: prod.splits)

end
