(* ===== verification/Abi_Text.thy ===== *)
theory Abi_Text
  imports Calldata Abi_Values
begin

text \<open>
  ABI values as text and contract calls: the string arguments and results of \<open>abi_types/value.rs\<close>
  (\<open>from_str_arg\<close>, \<open>to_contract_string\<close>, the 256-bit integer parsers and the array splitter), the hexadecimal
  helpers of \<open>hex_utils.rs\<close> and the call path of \<open>contract.rs\<close>, over the third-party operations of the
  record \<open>alloy\<close>.
\<close>

unbundle bit_operations_syntax

definition quote :: "string \<Rightarrow> string" where
  "quote s = [CHR 0x27] @ s @ [CHR 0x27]"

section \<open>Hexadecimal helpers\<close>

datatype HexError = HexInvalid string

definition strip_or :: "string \<Rightarrow> string \<Rightarrow> string" where
  \<comment> \<open>\<open>strip_prefix(p).unwrap_or(s)\<close>\<close>
  "strip_or p s = (case strip_prefix p s of Some r \<Rightarrow> r | None \<Rightarrow> s)"

definition decode_hex :: "alloy \<Rightarrow> string \<Rightarrow> (u8 list, HexError) outcome" where
  "decode_hex A hex_str =
     (let stripped = strip_or ''0X'' (strip_or ''0x'' hex_str)
      in if length stripped mod 2 = 1 then map_err HexInvalid (a_hex_decode A (CHR ''0'' # stripped))
         else map_err HexInvalid (a_hex_decode A stripped))"

definition nibble :: "nat \<Rightarrow> char" where
  "nibble d = ''0123456789abcdef'' ! d"

definition encode_hex :: "u8 list \<Rightarrow> string" where
  "encode_hex bytes =
     ''0x'' @ concat (map (\<lambda>b. [nibble (unat (drop_bit 4 b)), nibble (unat (b AND 0x0F))]) bytes)"

section \<open>Integers\<close>

datatype ParseIntError = InvalidHex | InvalidDecimal

definition show_int_error :: "ParseIntError \<Rightarrow> string" where
  "show_int_error e = (case e of InvalidHex \<Rightarrow> ''invalid hex format'' | InvalidDecimal \<Rightarrow> ''invalid decimal format'')"

definition hex_part :: "string \<Rightarrow> string option" where
  \<comment> \<open>\<open>s.strip_prefix("0x").or_else(|| s.strip_prefix("0X"))\<close>\<close>
  "hex_part s = (case strip_prefix ''0x'' s of Some h \<Rightarrow> Some h | None \<Rightarrow> strip_prefix ''0X'' s)"

definition parse_uint256_with_hex_prefix :: "alloy \<Rightarrow> string \<Rightarrow> (u256, ParseIntError) outcome" where
  "parse_uint256_with_hex_prefix A s0 =
     (let s = trim s0
      in case hex_part s of
           None \<Rightarrow> map_err (\<lambda>_. InvalidDecimal) (a_u256 A s 10)
         | Some hex_str \<Rightarrow> map_err (\<lambda>_. InvalidHex) (a_u256 A hex_str 16))"

definition max_positive :: u256 where
  "max_positive = push_bit 255 1 - 1"

definition parse_int256_with_hex_prefix :: "alloy \<Rightarrow> string \<Rightarrow> (i256, ParseIntError) outcome" where
  "parse_int256_with_hex_prefix A s0 =
     (let s = trim s0
      in case strip_prefix ''-'' s of
           Some abs_str \<Rightarrow>
             (case hex_part abs_str of
                Some hex_str \<Rightarrow>
                  obind (map_err (\<lambda>_. InvalidHex) (a_u256 A hex_str 16)) (\<lambda>abs_val.
                    let min_abs = push_bit 255 1
                    in if abs_val = min_abs then Ok (push_bit 255 1)
                       else if max_positive + 1 < abs_val then Err InvalidHex
                       else Ok (- abs_val))
              | None \<Rightarrow> map_err (\<lambda>_. InvalidDecimal) (a_i256 A s))
         | None \<Rightarrow>
             (case hex_part s of
                Some hex_str \<Rightarrow>
                  obind (map_err (\<lambda>_. InvalidHex) (a_u256 A hex_str 16)) (\<lambda>uval.
                    if max_positive < uval then Err InvalidHex else Ok uval)
              | None \<Rightarrow> map_err (\<lambda>_. InvalidDecimal) (a_i256 A s)))"

section \<open>Arrays\<close>

fun split_elements :: "i32 \<Rightarrow> string \<Rightarrow> string \<Rightarrow> string list" where
  \<comment> \<open>the loop of \<open>parse_json_array\<close>: the depth, the characters from \<open>start\<close> on, those still to come\<close>
  "split_elements depth part [] = (if trim part \<noteq> [] \<or> part \<noteq> [] then [trim part] else [])"
| "split_elements depth part (c # cs) =
     (if c = CHR ''['' then split_elements (wrap_i32 (depth + 1)) (part @ [c]) cs
      else if c = CHR '']'' then split_elements (wrap_i32 (depth - 1)) (part @ [c]) cs
      else if c = CHR '','' \<and> depth = 0 then
        (if trim part \<noteq> [] \<or> part \<noteq> [] then [trim part] else []) @ split_elements depth [] cs
      else split_elements depth (part @ [c]) cs)"

definition parse_json_array :: "string \<Rightarrow> (string list, ContractError) outcome" where
  "parse_json_array input =
     (let trimmed = trim input
      in if trimmed = [] \<or> hd trimmed \<noteq> CHR ''['' \<or> last trimmed \<noteq> CHR '']'' then
           Err (InvalidAbi (''Array value must be enclosed in square brackets, got: '' @ [CHR 0x27] @ input @ [CHR 0x27]))
         else
           let content = trim (butlast (tl trimmed))
           in if content = [] then Ok [] else Ok (split_elements 0 [] content))"

section \<open>Arguments and results\<close>

primrec from_str_arg :: "alloy \<Rightarrow> AbiType \<Rightarrow> string \<Rightarrow> (AbiValue, ContractError) outcome" where
  "from_str_arg A Address arg =
     obind (map_err (\<lambda>_. InvalidAddress (trim arg) ''Invalid address format'') (a_address A (trim arg))) (\<lambda>addr.
       Ok (V_Address addr))"
| "from_str_arg A Bool arg =
     (let low = map to_ascii_lower (trim arg)
      in if low = ''true'' \<or> low = ''1'' then Ok (V_Bool True)
         else if low = ''false'' \<or> low = ''0'' then Ok (V_Bool False)
         else Err (InvalidAbi (''Invalid bool value '' @ quote arg @ '': expected '' @ quote ''true'' @ '', ''
           @ quote ''false'' @ '', '' @ quote ''1'' @ '', or '' @ quote ''0'')))"
| "from_str_arg A (Uint bits) arg =
     obind (map_err (\<lambda>e. InvalidAbi (''Invalid uint value '' @ quote arg @ '': '' @ show_int_error e))
       (parse_uint256_with_hex_prefix A (trim arg))) (\<lambda>n. Ok (V_Uint n bits))"
| "from_str_arg A (Int_t bits) arg =
     obind (map_err (\<lambda>e. InvalidAbi (''Invalid int value '' @ quote arg @ '': '' @ show_int_error e))
       (parse_int256_with_hex_prefix A (trim arg))) (\<lambda>n. Ok (V_Int n bits))"
| "from_str_arg A (FixedBytes n) arg =
     obind (map_err (\<lambda>_. InvalidAbi (''Invalid hex value for bytes'' @ decimal n @ '': '' @ arg))
       (decode_hex A (trim arg))) (\<lambda>bytes.
         if length bytes \<noteq> n then
           Err (InvalidAbi (''bytes'' @ decimal n @ '' requires exactly '' @ decimal n @ '' bytes, got ''
             @ decimal (length bytes)))
         else Ok (V_FixedBytes bytes))"
| "from_str_arg A Bytes arg =
     obind (map_err (\<lambda>_. InvalidAbi (''Invalid hex value for bytes: '' @ arg)) (decode_hex A (trim arg))) (\<lambda>bytes.
       Ok (V_Bytes bytes))"
| "from_str_arg A String arg = Ok (V_String (trim arg))"
| "from_str_arg A (Array t) arg =
     obind (parse_json_array (trim arg)) (\<lambda>elements.
       obind (collect_results (map (from_str_arg A t) elements)) (\<lambda>vs. Ok (V_Array vs)))"
| "from_str_arg A (FixedArray t n) arg =
     obind (parse_json_array (trim arg)) (\<lambda>elements.
       if length elements \<noteq> n then
         Err (InvalidAbi (''Fixed array of size '' @ decimal n @ '' requires exactly '' @ decimal n
           @ '' elements, got '' @ decimal (length elements)))
       else obind (collect_results (map (from_str_arg A t) elements)) (\<lambda>vs. Ok (V_Array vs)))"

definition show_i256 :: "i256 \<Rightarrow> string" where
  "show_i256 n = (if sint n < 0 then CHR ''-'' # decimal (nat (- sint n)) else decimal (nat (sint n)))"

fun to_contract_string :: "alloy \<Rightarrow> AbiValue \<Rightarrow> string" where
  "to_contract_string A (V_Address addr) = ''0x'' @ a_hex_encode A (to_be_bytes addr)"
| "to_contract_string A (V_Bool b) = (if b then ''true'' else ''false'')"
| "to_contract_string A (V_FixedBytes bytes) = ''0x'' @ a_hex_encode A bytes"
| "to_contract_string A (V_Bytes bytes) = ''0x'' @ a_hex_encode A bytes"
| "to_contract_string A (V_Uint n bits) = decimal (unat n)"
| "to_contract_string A (V_Int n bits) = show_i256 n"
| "to_contract_string A (V_String s) = s"
| "to_contract_string A (V_Array vs) = ''['' @ join '', '' (map (to_contract_string A) vs) @ '']''"

section \<open>Contract calls\<close>

fun show_decode_error :: "AbiDecodeError \<Rightarrow> string" where
  "show_decode_error EmptyTypesList = ''Types list cannot be empty''"
| "show_decode_error EmptyData = ''Data cannot be empty''"
| "show_decode_error (DecodeInvalidArraySize t) = ''Invalid array size in type: '' @ t"
| "show_decode_error (InsufficientData needed have_bytes offset) =
     ''Insufficient data: need '' @ decimal needed @ '' bytes at offset '' @ decimal offset @ '', have ''
       @ decimal have_bytes @ '' bytes''"
| "show_decode_error (InvalidOffset t) = ''Invalid offset: '' @ t"
| "show_decode_error (InvalidLength t) = ''Invalid length: '' @ t"
| "show_decode_error (UnsupportedType t) = ''Unsupported type: '' @ t"
| "show_decode_error FixedPointNotImplemented = ''Fixed-point types are not yet implemented''"
| "show_decode_error NonStrictNotImplemented = ''Non-strict decoding mode is not yet implemented''"

definition contract_error :: "AbiDecodeError \<Rightarrow> ContractError" where
  \<comment> \<open>\<open>From<AbiDecodeError> for ContractError\<close>\<close>
  "contract_error e =
     (case e of
        UnsupportedType msg \<Rightarrow> InvalidAbi msg
      | InvalidLength msg \<Rightarrow> DecodingError msg
      | InvalidOffset msg \<Rightarrow> DecodingError msg
      | _ \<Rightarrow> DecodingError (show_decode_error e))"

definition encode_arguments :: "alloy \<Rightarrow> AbiType list \<Rightarrow> string list \<Rightarrow> (u8 list, ContractError) outcome" where
  "encode_arguments A types args =
     (if length types \<noteq> length args then
        Err (InvalidAbi (''Argument count mismatch: expected '' @ decimal (length types) @ '', got ''
          @ decimal (length args)))
      else
        obind (collect_results (map (\<lambda>(ty, arg). from_str_arg A ty arg) (zip types args))) (\<lambda>vs.
          map_err contract_error (encode_for_types A types vs)))"

definition decode_return_data :: "alloy \<Rightarrow> u8 list \<Rightarrow> AbiType list \<Rightarrow> (string list, ContractError) outcome" where
  "decode_return_data A data types =
     (if data = [] then Ok []
      else
        obind (map_err contract_error (decode_for_types A types data)) (\<lambda>decoded.
          Ok (map (to_contract_string A) decoded)))"

record Contract =
  contract_address :: u160
  sig_cache :: signature_cache

definition contract_new :: "alloy \<Rightarrow> string \<Rightarrow> (Contract, string) outcome" where
  \<comment> \<open>\<open>Contract::new\<close>; the error is that of \<open>parse_address\<close>\<close>
  "contract_new A addr =
     obind (a_address A addr) (\<lambda>a. Ok \<lparr>contract_address = a, sig_cache = Map.empty\<rparr>)"

definition contract_call ::
    "alloy \<Rightarrow> (u8 list \<Rightarrow> u256) \<Rightarrow> nat \<Rightarrow> (u160 \<Rightarrow> u8 list \<Rightarrow> u64 option \<Rightarrow> (u8 list, ProviderError) outcome) \<Rightarrow>
      Contract \<Rightarrow> string \<Rightarrow> string list \<Rightarrow> u64 option \<Rightarrow> (string list, ProviderError) outcome \<times> Contract" where
  \<comment> \<open>\<open>Contract::call\<close>, with \<open>eth_call\<close> of the provider as an argument\<close>
  "contract_call A keccak U eth_call k function_signature args block_number =
     (case parse_function_signature keccak U (sig_cache k) function_signature of
        (r, cache') \<Rightarrow>
          (obind r (\<lambda>func.
             obind (map_err provider_error (encode_arguments A (fn_inputs func) args)) (\<lambda>encoded_args.
             obind (eth_call (contract_address k) (selector func @ encoded_args) block_number) (\<lambda>result.
               map_err provider_error (decode_return_data A result (fn_outputs func))))),
           k\<lparr>sig_cache := cache'\<rparr>))"

section \<open>Signed integers\<close>

lemma unat_max_positive: "unat max_positive = 2 ^ 255 - 1" "unat (max_positive + 1) = 2 ^ 255"
    "unat (push_bit 255 1 :: u256) = 2 ^ 255"
  by (simp_all add: max_positive_def push_bit_eq_mult power_numeral)

lemma max_positive_less: "max_positive < u \<longleftrightarrow> \<not> unat u < 2 ^ 255"
proof -
  have "(0 :: nat) < 2 ^ 255" by simp
  then show ?thesis unfolding word_less_nat_alt unat_max_positive by linarith
qed

lemma hex_part_0x [simp]: "hex_part (''0x'' @ h) = Some h"
  by (simp add: hex_part_def)

lemma trim_hex: "list_all (\<lambda>c. \<not> is_whitespace c) h \<Longrightarrow>
    trim (''0x'' @ h) = ''0x'' @ h \<and> trim (''-0x'' @ h) = ''-0x'' @ h"
  by (intro conjI; rule trim_id) (simp_all add: is_whitespace_def)

text \<open>
  C34. Hexadecimal signed integers are read exactly or refused: with \<open>u\<close> the magnitude behind the prefix, a text
  without sign gives the integer whose signed value is \<open>u\<close> or is refused, and then only because \<open>u\<close> is
  \<open>2 ^ 255\<close> or more; a text with a minus sign gives the integer whose signed value is \<open>- u\<close> or is refused, and
  then only because \<open>u\<close> exceeds \<open>2 ^ 255\<close>. No magnitude wraps around.\<close>

theorem parse_int256_exact:
  "a_u256 A h 16 = Ok u \<Longrightarrow> list_all (\<lambda>c. \<not> is_whitespace c) h \<Longrightarrow>
    (case parse_int256_with_hex_prefix A (''0x'' @ h) of
       Ok w \<Rightarrow> sint w = int (unat u)
     | Err e \<Rightarrow> e = InvalidHex \<and> 2 ^ 255 \<le> unat u
     | Panic \<Rightarrow> False) \<and>
    (case parse_int256_with_hex_prefix A (''-0x'' @ h) of
       Ok w \<Rightarrow> sint w = - int (unat u)
     | Err e \<Rightarrow> e = InvalidHex \<and> 2 ^ 255 < unat u
     | Panic \<Rightarrow> False)"
proof -
  assume u: "a_u256 A h 16 = Ok u" and h: "list_all (\<lambda>c. \<not> is_whitespace c) h"
  have pos: "parse_int256_with_hex_prefix A (''0x'' @ h) = (if unat u < 2 ^ 255 then Ok u else Err InvalidHex)"
    using max_positive_less [of u] trim_hex [OF h] hex_part_0x [of h]
    by (simp add: parse_int256_with_hex_prefix_def u)
  have neg: "parse_int256_with_hex_prefix A (''-0x'' @ h)
      = (if u = push_bit 255 1 then Ok (push_bit 255 1) else if max_positive + 1 < u then Err InvalidHex else Ok (- u))"
    using trim_hex [OF h] hex_part_0x [of h] by (simp add: parse_int256_with_hex_prefix_def u Let_def)
  have "push_bit 255 1 = - (push_bit 255 1 :: u256)" by (simp add: push_bit_eq_mult power_numeral)
  with neg have neg': "parse_int256_with_hex_prefix A (''-0x'' @ h)
      = (if unat u \<le> 2 ^ 255 then Ok (- u) else Err InvalidHex)"
    using unat_max_positive by (auto simp: word_less_nat_alt)
  show ?thesis
    unfolding pos neg' using sint_small [of u] sint_neg_small [of u] by (auto simp: not_less not_le)
qed

section \<open>Printed values\<close>

definition hex_char :: "char \<Rightarrow> bool" where
  "hex_char c \<longleftrightarrow> is_digit c \<or> (97 \<le> (of_char c :: nat) \<and> (of_char c :: nat) \<le> 102)"

definition text_faithful :: "alloy \<Rightarrow> bool" where
  \<comment> \<open>the parsers of \<open>alloy\<close> read what its printers write; hexadecimal text has two lower-case digits a byte\<close>
  "text_faithful A \<longleftrightarrow>
     (\<forall>a :: u160. a_address A (''0x'' @ a_hex_encode A (to_be_bytes a)) = Ok a) \<and>
     (\<forall>n. a_u256 A (decimal (unat n)) 10 = Ok n) \<and>
     (\<forall>n. a_i256 A (show_i256 n) = Ok n) \<and>
     (\<forall>bs. a_hex_decode A (a_hex_encode A bs) = Ok bs \<and> length (a_hex_encode A bs) = 2 * length bs \<and>
        list_all hex_char (a_hex_encode A bs))"

primrec nest :: "AbiType \<Rightarrow> nat" where
  "nest Address = 0"
| "nest Bool = 0"
| "nest (Uint bits) = 0"
| "nest (Int_t bits) = 0"
| "nest (FixedBytes n) = 0"
| "nest Bytes = 0"
| "nest String = 0"
| "nest (Array t) = Suc (nest t)"
| "nest (FixedArray t n) = Suc (nest t)"

primrec text_in :: "AbiType \<Rightarrow> AbiValue \<Rightarrow> bool" where
  \<comment> \<open>a value of a type, whose strings are not empty and have neither white space nor brackets nor commas\<close>
  "text_in Address v = (case v of V_Address a \<Rightarrow> True | _ \<Rightarrow> False)"
| "text_in Bool v = (case v of V_Bool b \<Rightarrow> True | _ \<Rightarrow> False)"
| "text_in (Uint bits) v = (case v of V_Uint n k \<Rightarrow> k = bits | _ \<Rightarrow> False)"
| "text_in (Int_t bits) v = (case v of V_Int n k \<Rightarrow> k = bits | _ \<Rightarrow> False)"
| "text_in (FixedBytes n) v = (case v of V_FixedBytes b \<Rightarrow> length b = n | _ \<Rightarrow> False)"
| "text_in Bytes v = (case v of V_Bytes b \<Rightarrow> True | _ \<Rightarrow> False)"
| "text_in String v = (case v of V_String s \<Rightarrow> s \<noteq> [] \<and> list_all plain s | _ \<Rightarrow> False)"
| "text_in (Array t) v = (case v of V_Array vs \<Rightarrow> list_all (text_in t) vs | _ \<Rightarrow> False)"
| "text_in (FixedArray t n) v =
     (case v of V_Array vs \<Rightarrow> length vs = n \<and> list_all (text_in t) vs | _ \<Rightarrow> False)"

lemma text_array:
  "text_in (Array t) v \<longleftrightarrow> (\<exists>vs. v = V_Array vs \<and> list_all (text_in t) vs)"
  "text_in (FixedArray t n) v \<longleftrightarrow> (\<exists>vs. v = V_Array vs \<and> length vs = n \<and> list_all (text_in t) vs)"
  by (auto split: AbiValue.splits)

lemma plain_hex: "hex_char c \<Longrightarrow> plain c"
  by (auto simp: hex_char_def plain_def is_digit_def is_whitespace_def)

lemma leaf_plain:
  assumes A: "text_faithful A" and v: "text_in t v" and t: "nest t = 0"
  shows "to_contract_string A v \<noteq> [] \<and> list_all plain (to_contract_string A v)"
proof -
  have hex: "list_all plain (a_hex_encode A bs)" for bs
    using A plain_hex unfolding text_faithful_def by (metis (no_types, lifting) list_all_iff)
  have lit: "plain CHR ''0''" "plain CHR ''x''" "plain CHR ''-''" "list_all plain ''true''" "list_all plain ''false''"
    by (simp_all add: plain_def is_whitespace_def)
  show ?thesis
    using v t hex lit plain_decimal decimal_nonempty
    by (cases t) (auto simp: show_i256_def split: AbiValue.splits)
qed

lemma split_plain:
  "list_all plain s \<Longrightarrow> split_elements d part (s @ rest) = split_elements d (part @ s) rest"
  by (induction s arbitrary: part) (simp_all add: plain_def)

lemma split_comma: "0 < d \<Longrightarrow> split_elements d part ('', '' @ rest) = split_elements d (part @ '', '') rest"
  by simp

lemma split_join_deep:
  assumes "\<And>v part rest. v \<in> set vs \<Longrightarrow> split_elements d part (f v @ rest) = split_elements d (part @ f v) rest"
    and "0 < d"
  shows "split_elements d part (join '', '' (map f vs) @ rest) = split_elements d (part @ join '', '' (map f vs)) rest"
  using assms
proof (induction vs arbitrary: part rule: induct_list012)
  case (3 x y zs)
  have "split_elements d part (join '', '' (map f (x # y # zs)) @ rest)
      = split_elements d (part @ f x) ('', '' @ join '', '' (map f (y # zs)) @ rest)"
    by (simp add: 3(3))
  also have "\<dots> = split_elements d ((part @ f x) @ '', '') (join '', '' (map f (y # zs)) @ rest)"
    by (rule split_comma [OF 3(4)])
  also have "\<dots> = split_elements d (((part @ f x) @ '', '') @ join '', '' (map f (y # zs))) rest"
    by (rule "3.IH"(2)) (use 3 in auto)
  finally show ?case by simp
qed auto

lemma split_brackets:
  assumes "\<And>v part rest. v \<in> set vs \<Longrightarrow> split_elements (d + 1) part (f v @ rest) = split_elements (d + 1) (part @ f v) rest"
    and d: "0 \<le> d" "d + 1 < 2 ^ 31"
  shows "split_elements d part ((''['' @ join '', '' (map f vs) @ '']'') @ rest)
    = split_elements d (part @ ''['' @ join '', '' (map f vs) @ '']'') rest"
proof -
  have w: "wrap_i32 (d + 1) = d + 1" "wrap_i32 d = d" using d by (simp_all add: is_i32_def)
  have "split_elements d part ((''['' @ join '', '' (map f vs) @ '']'') @ rest)
      = split_elements (d + 1) (part @ ''['') (join '', '' (map f vs) @ CHR '']'' # rest)"
    by (simp add: w)
  also have "\<dots> = split_elements (d + 1) ((part @ ''['') @ join '', '' (map f vs)) (CHR '']'' # rest)"
    by (rule split_join_deep) (use assms in auto)
  finally show ?thesis by (simp add: w)
qed

lemma split_value:
  assumes A: "text_faithful A"
  shows "text_in t v \<Longrightarrow> 0 \<le> d \<Longrightarrow> d + int (nest t) < 2 ^ 31 \<Longrightarrow>
    split_elements d part (to_contract_string A v @ rest) = split_elements d (part @ to_contract_string A v) rest"
proof (induction t arbitrary: v d part rest)
  case (Array t)
  then obtain vs where "v = V_Array vs" "list_all (text_in t) vs" by (auto simp only: text_array)
  with Array show ?case
    using split_brackets [of vs d "to_contract_string A" part rest] by (auto simp: list_all_iff)
next
  case (FixedArray t n)
  then obtain vs where "v = V_Array vs" "list_all (text_in t) vs" by (auto simp only: text_array)
  with FixedArray show ?case
    using split_brackets [of vs d "to_contract_string A" part rest] by (auto simp: list_all_iff)
qed (use leaf_plain [OF A] in \<open>auto intro!: split_plain simp del: text_in.simps\<close>)

definition trimmed :: "string \<Rightarrow> bool" where
  "trimmed s \<longleftrightarrow> s \<noteq> [] \<and> \<not> is_whitespace (hd s) \<and> \<not> is_whitespace (last s)"

lemma trim_spaces: "trimmed s \<Longrightarrow> list_all is_whitespace p \<Longrightarrow> trim (p @ s) = s"
proof -
  assume s: "trimmed s" and p: "list_all is_whitespace p"
  have "dropWhile is_whitespace (p @ s) = s"
    using s p by (induction p) (cases s; simp add: trimmed_def)+
  moreover have "dropWhile is_whitespace (rev s) = rev s"
    using s by (cases s rule: rev_cases) (simp_all add: trimmed_def)
  ultimately show ?thesis by (simp add: trim_def)
qed

lemma trim_trimmed: "trimmed s \<Longrightarrow> trim s = s"
  using trim_spaces [of s "[]"] by simp

lemma trimmed_plain: "s \<noteq> [] \<Longrightarrow> list_all plain s \<Longrightarrow> trimmed s"
  by (simp add: trimmed_def plain_def list_all_iff)

lemma trimmed_value: "text_faithful A \<Longrightarrow> text_in t v \<Longrightarrow> trimmed (to_contract_string A v)"
proof (cases "nest t = 0")
  case False
  then obtain t' n where "t = Array t' \<or> t = FixedArray t' n" by (cases t) auto
  moreover assume "text_in t v"
  ultimately obtain vs where "v = V_Array vs" by (auto simp only: text_array)
  then show ?thesis by (simp add: trimmed_def is_whitespace_def)
qed (use leaf_plain trimmed_plain in blast)

lemma trimmed_join:
  "(\<And>v. v \<in> set vs \<Longrightarrow> trimmed (f v)) \<Longrightarrow> vs \<noteq> [] \<Longrightarrow> trimmed (join '', '' (map f vs))"
proof (induction vs rule: induct_list012)
  case (3 x y zs)
  then have "trimmed (f x)" "trimmed (join '', '' (map f (y # zs)))" by auto
  then show ?case by (simp add: trimmed_def)
qed auto

lemma split_join_top:
  assumes A: "text_faithful A" and t: "nest t < 2 ^ 31"
  shows "list_all (text_in t) vs \<Longrightarrow> vs \<noteq> [] \<Longrightarrow> list_all is_whitespace part \<Longrightarrow>
    split_elements 0 part (join '', '' (map (to_contract_string A) vs)) = map (to_contract_string A) vs"
proof (induction vs arbitrary: part rule: induct_list012)
  case (2 v)
  then show ?case
    using split_value [OF A, of t v 0 part "[]"] t trimmed_value [OF A] trim_spaces
    by (auto simp: trimmed_def)
next
  case (3 x y zs)
  have x: "trimmed (to_contract_string A x)" "trim (part @ to_contract_string A x) = to_contract_string A x"
    using 3 trimmed_value [OF A] trim_spaces by auto
  have "list_all is_whitespace '' ''" by (simp add: is_whitespace_def)
  with 3 have "split_elements 0 '' '' (join '', '' (map (to_contract_string A) (y # zs)))
      = map (to_contract_string A) (y # zs)" by auto
  then show ?case
    using split_value [OF A, of t x 0 part] t 3(3) x by (simp add: trimmed_def)
qed simp

lemma parse_json_array_print:
  assumes A: "text_faithful A" and t: "nest t < 2 ^ 31" and vs: "list_all (text_in t) vs"
  shows "parse_json_array (to_contract_string A (V_Array vs)) = Ok (map (to_contract_string A) vs)"
proof -
  let ?c = "join '', '' (map (to_contract_string A) vs)"
  have "trimmed (''['' @ ?c @ '']'')" by (simp add: trimmed_def is_whitespace_def)
  from trim_trimmed [OF this] have outer: "trim (''['' @ ?c @ '']'') = ''['' @ ?c @ '']''" .
  show ?thesis
  proof (cases "vs = []")
    case True
    then show ?thesis by (simp add: parse_json_array_def Let_def trim_def is_whitespace_def)
  next
    case False
    have c: "trimmed ?c" using trimmed_join [of vs] vs trimmed_value [OF A] False by (auto simp: list_all_iff)
    then show ?thesis
      using outer split_join_top [OF A t vs False, of "[]"] trim_trimmed [OF c]
      by (simp add: parse_json_array_def Let_def trimmed_def)
  qed
qed

lemma hex_part_digits: "list_all is_digit s \<Longrightarrow> hex_part s = None"
  by (cases s; cases "tl s") (auto simp: hex_part_def is_digit_def split: list.splits)

lemma decode_hex_print:
  assumes A: "text_faithful A"
  shows "decode_hex A (''0x'' @ a_hex_encode A bs) = Ok bs"
proof -
  let ?h = "a_hex_encode A bs"
  have h: "list_all hex_char ?h" "length ?h = 2 * length bs" "a_hex_decode A ?h = Ok bs"
    using A by (simp_all add: text_faithful_def)
  then have "strip_prefix ''0X'' ?h = None"
    by (cases ?h; cases "tl ?h") (auto simp: hex_char_def is_digit_def)
  then show ?thesis using h strip_prefix_append [of "''0x''" ?h] by (simp add: decode_hex_def strip_or_def)
qed

lemma parse_uint_print: "text_faithful A \<Longrightarrow> parse_uint256_with_hex_prefix A (decimal (unat n)) = Ok n"
  using trim_trimmed [OF trimmed_plain [OF decimal_nonempty plain_decimal]] hex_part_digits [OF decimal_digits]
  by (simp add: parse_uint256_with_hex_prefix_def text_faithful_def)

lemma trimmed_i256: "trimmed (show_i256 n)"
  using trimmed_plain [OF decimal_nonempty plain_decimal]
  by (simp add: show_i256_def) (simp add: trimmed_def is_whitespace_def)

lemma parse_int_print: "text_faithful A \<Longrightarrow> parse_int256_with_hex_prefix A (show_i256 n) = Ok n"
proof -
  assume A: "text_faithful A"
  have "strip_prefix ''-'' (decimal k) = None" for k
    using decimal_head [of k] by (auto simp: is_digit_def)
  then show ?thesis
    using A trim_trimmed [OF trimmed_i256, of n] hex_part_digits [OF decimal_digits]
    by (auto simp: parse_int256_with_hex_prefix_def Let_def text_faithful_def show_i256_def split: if_splits)
qed

lemma collect_results_inverse:
  "(\<And>v. v \<in> set vs \<Longrightarrow> g (f v) = Ok v) \<Longrightarrow> collect_results (map g (map f vs)) = Ok vs"
  by (induction vs) simp_all

lemma from_str_arg_print:
  assumes A: "text_faithful A"
  shows "text_in t v \<Longrightarrow> nest t < 2 ^ 31 \<Longrightarrow> from_str_arg A t (to_contract_string A v) = Ok v"
proof (induction t arbitrary: v)
  case (Array t)
  then obtain vs where vs: "v = V_Array vs" "list_all (text_in t) vs" by (auto simp only: text_array)
  then have "collect_results (map (from_str_arg A t) (map (to_contract_string A) vs)) = Ok vs"
    using Array by (intro collect_results_inverse) (simp add: list_all_iff)
  then show ?case
    using parse_json_array_print [OF A _ vs(2)] trim_trimmed [OF trimmed_value [OF A Array.prems(1)]] Array.prems vs
    by (simp del: to_contract_string.simps)
next
  case (FixedArray t n)
  then obtain vs where vs: "v = V_Array vs" "length vs = n" "list_all (text_in t) vs" by (auto simp only: text_array)
  then have "collect_results (map (from_str_arg A t) (map (to_contract_string A) vs)) = Ok vs"
    using FixedArray by (intro collect_results_inverse) (simp add: list_all_iff)
  then show ?case
    using parse_json_array_print [OF A _ vs(3)] trim_trimmed [OF trimmed_value [OF A FixedArray.prems(1)]]
      FixedArray.prems vs
    by (simp del: to_contract_string.simps)
next
  case Bool
  then obtain b where v: "v = V_Bool b" by (auto split: AbiValue.splits)
  have "map to_ascii_lower ''true'' = ''true''" "map to_ascii_lower ''false'' = ''false''" by code_simp+
  then show ?case using trim_trimmed [OF trimmed_value [OF A Bool.prems(1)]] by (cases b) (simp_all add: v Let_def)
next
  case Address
  then show ?case
    using trim_trimmed [OF trimmed_value [OF A Address.prems(1)]] A
    by (auto simp: text_faithful_def split: AbiValue.splits)
next
  case (FixedBytes n)
  then obtain b where v: "v = V_FixedBytes b" "length b = n" by (auto split: AbiValue.splits)
  then show ?case
    using trim_trimmed [OF trimmed_value [OF A FixedBytes.prems(1)]] decode_hex_print [OF A, of b] by simp
next
  case Bytes
  then obtain b where v: "v = V_Bytes b" by (auto split: AbiValue.splits)
  then show ?case
    using trim_trimmed [OF trimmed_value [OF A Bytes.prems(1)]] decode_hex_print [OF A, of b] by simp
next
  case (Uint bits)
  then show ?case
    using trim_trimmed [OF trimmed_value [OF A Uint.prems(1)]] parse_uint_print [OF A]
    by (auto split: AbiValue.splits)
next
  case (Int_t bits)
  then show ?case
    using trim_trimmed [OF trimmed_i256] parse_int_print [OF A] by (auto split: AbiValue.splits)
next
  case String
  then show ?case
    using trim_trimmed [OF trimmed_value [OF A String.prems(1)]] by (auto split: AbiValue.splits)
qed

lemma from_str_args_print:
  assumes A: "text_faithful A"
  shows "list_all2 (\<lambda>t v. text_in t v \<and> nest t < 2 ^ 31) ts vs \<Longrightarrow>
    collect_results (map (\<lambda>(t, s). from_str_arg A t s) (zip ts (map (to_contract_string A) vs))) = Ok vs"
  by (induction rule: list_all2_induct) (simp_all add: from_str_arg_print [OF A])

section \<open>Properties of the text forms\<close>

text \<open>Contract values survive their text form: the string that a decoded value is returned as, passed back as an
  argument of the same type, is parsed to that value. This holds for nested arrays (below the depth the
  splitter's 32-bit counter can hold) and needs of strings that they contain no separator.\<close>

theorem argument_text_roundtrip:
  "text_faithful A \<Longrightarrow> text_in t v \<Longrightarrow> nest t < 2 ^ 31 \<Longrightarrow>
    from_str_arg A t (to_contract_string A v) = Ok v"
  by (rule from_str_arg_print)

definition hex_value :: "char \<Rightarrow> nat" where
  "hex_value c = (if is_digit c then digit_value c else of_char c - 87)"

fun sample_hex_decode :: "string \<Rightarrow> (u8 list, string) outcome" where
  "sample_hex_decode (c # d # cs) =
     obind (sample_hex_decode cs) (\<lambda>bs. Ok (word_of_nat (hex_value c * 16 + hex_value d) # bs))"
| "sample_hex_decode [] = Ok []"
| "sample_hex_decode [c] = Err ''odd length''"

definition sample_text :: alloy where
  "sample_text = sample_alloy\<lparr>
     a_address := (\<lambda>s. obind (sample_hex_decode (drop 2 s)) (\<lambda>bs. Ok (from_be bs))),
     a_u256 := (\<lambda>s r. Ok (word_of_nat (foldl (\<lambda>v c. v * r + hex_value c) 0 s))),
     a_i256 := (\<lambda>s. case s of
         CHR ''-'' # ds \<Rightarrow> Ok (- word_of_nat (decimal_value ds))
       | ds \<Rightarrow> Ok (word_of_nat (decimal_value ds))),
     a_hex_decode := sample_hex_decode,
     a_hex_encode := (\<lambda>bs. drop 2 (encode_hex bs))\<rparr>"

lemma nibbles: "d < 16 \<Longrightarrow> hex_value (nibble d) = d \<and> hex_char (nibble d)"
proof -
  have "list_all (\<lambda>d. hex_value (nibble d) = d \<and> hex_char (nibble d)) [0..<16]" by code_simp
  then show "d < 16 \<Longrightarrow> ?thesis" by (simp add: list_all_iff)
qed

lemma nibble_parts:
  "unat (drop_bit 4 (b :: u8)) = unat b div 16" "unat (b AND 0x0F) = unat b mod 16"
proof -
  show "unat (drop_bit 4 b) = unat b div 16"
    unfolding unat_drop_bit_eq by (simp add: drop_bit_eq_div power_numeral)
  have "(0x0F :: u8) = mask 4" by (simp add: mask_eq_exp_minus_1 power_numeral)
  then have "b AND 0x0F = take_bit 4 b" by (simp only: take_bit_eq_mask)
  then show "unat (b AND 0x0F) = unat b mod 16" by (simp add: take_bit_eq_mod power_numeral unat_mod)
qed

lemma sample_hex: "sample_hex_decode (drop 2 (encode_hex bs)) = Ok bs \<and>
    length (drop 2 (encode_hex bs)) = 2 * length bs \<and> list_all hex_char (drop 2 (encode_hex bs))"
proof (induction bs)
  case (Cons b bs)
  have "unat b div 16 < 16" "unat b mod 16 < 16" using unat_bound [of b] by (simp_all add: power_numeral)
  with Cons show ?case by (simp add: encode_hex_def nibble_parts nibbles)
qed (simp add: encode_hex_def)

lemma sample_text_faithful: "text_faithful sample_text"
proof -
  have addr: "a_address sample_text (''0x'' @ a_hex_encode sample_text (to_be_bytes (a :: u160))) = Ok a" for a
    using sample_hex [of "to_be_bytes a"] by (simp add: sample_text_def)
  have digits: "foldl (\<lambda>v c. v * 10 + hex_value c) k s = foldl (\<lambda>v c. v * 10 + digit_value c) k s"
    if "list_all is_digit s" for k s
    using that by (induction s arbitrary: k) (simp_all add: hex_value_def)
  have num: "a_u256 sample_text (decimal (unat n)) 10 = Ok n" for n
    using decimal_value_decimal [of "unat n"]
    by (simp add: sample_text_def digits [OF decimal_digits] decimal_value_def del: decimal_value_decimal)
  have sgn: "a_i256 sample_text (show_i256 n) = Ok n" for n
  proof (cases "sint n < 0")
    case True
    then have "(word_of_nat (nat (- sint n)) :: i256) = - n" by (simp add: of_nat_nat)
    with True show ?thesis by (simp add: sample_text_def show_i256_def)
  next
    case False
    obtain c cs where "decimal (nat (sint n)) = c # cs" "is_digit c" using decimal_head by blast
    moreover have "decimal_value (decimal (nat (sint n))) = nat (sint n)" by simp
    moreover have "(word_of_nat (nat (sint n)) :: i256) = n" using False by (simp add: of_nat_nat)
    ultimately show ?thesis using False by (auto simp: sample_text_def show_i256_def is_digit_def split: char.splits bool.splits)
  qed
  show ?thesis
    unfolding text_faithful_def using addr num sgn sample_hex by (simp add: sample_text_def)
qed

theorem argument_text_roundtrip_witness:
  "to_contract_string sample_text (V_Array [V_Array [V_Int (- 1) 8, V_Int 2 8], V_Array []]) = ''[[-1, 2], []]'' \<and>
   from_str_arg sample_text (Array (Array (Int_t 8))) ''[[-1, 2], []]''
     = Ok (V_Array [V_Array [V_Int (- 1) 8, V_Int 2 8], V_Array []])"
proof -
  have "decimal 1 = ''1''" "decimal 2 = ''2''" by code_simp+
  then have "to_contract_string sample_text (V_Array [V_Array [V_Int (- 1) 8, V_Int 2 8], V_Array []]) = ''[[-1, 2], []]''"
    by (simp add: show_i256_def)
  then show ?thesis
    using argument_text_roundtrip [OF sample_text_faithful, of "Array (Array (Int_t 8))"
        "V_Array [V_Array [V_Int (- 1) 8, V_Int 2 8], V_Array []]"]
    by (simp add: power_numeral del: from_str_arg.simps to_contract_string.simps)
qed

theorem parse_int256_exact_witness:
  "\<exists>w. parse_int256_with_hex_prefix sample_text ''-0xff'' = Ok w \<and> sint w = - 255"
proof -
  have "a_u256 sample_text ''ff'' 16 = Ok 255"
    by (simp add: sample_text_def hex_value_def is_digit_def)
  moreover have "unat (255 :: u256) = 255" "(255 :: nat) < 2 ^ 255" by (simp_all add: power_numeral)
  ultimately show ?thesis
    using parse_int256_exact [of sample_text "''ff''" 255]
    by (auto simp: is_whitespace_def power_numeral split: outcome.splits)
qed

definition echo :: "alloy \<Rightarrow> AbiType list \<Rightarrow> string list \<Rightarrow> (string list, ContractError) outcome" where
  \<comment> \<open>the result of a call to a contract that returns its arguments\<close>
  "echo A ts args = obind (encode_arguments A ts args) (\<lambda>data. decode_return_data A data ts)"

lemma echo_parsed:
  assumes "matches_faithful A" "codec_faithful A ts" "list_all (\<lambda>t. valid_type U t \<and> encodable t) ts"
    and "length args = length ts" "list_all2 (\<lambda>(t, s) v. from_str_arg A t s = Ok v \<and> value_in t v) (zip ts args) vs"
  shows "echo A ts args = Ok (map (to_contract_string A) vs)"
proof -
  have vs: "list_all2 value_in ts vs"
    using assms(4,5) by (auto simp: list_all2_conv_all_nth)
  obtain data where data: "encode_for_types A ts vs = Ok data" "decode_for_types A ts data = Ok vs"
    "data = [] \<longrightarrow> ts = []"
    using encode_decode [OF assms(1-3) vs] by blast
  have "collect_results (map (\<lambda>(t, s). from_str_arg A t s) (zip ts args)) = Ok vs"
    unfolding collect_eq_Ok using assms(5) by (auto elim!: list_all2_mono)
  then have "encode_arguments A ts args = Ok data"
    using data(1) assms(4) by (simp add: encode_arguments_def)
  then show ?thesis using data list_all2_lengthD [OF vs] by (auto simp: echo_def decode_return_data_def)
qed

text \<open>
  C33. Arguments come back in canonical form: when a contract returns its arguments, every argument text that the parser
  accepts for a value within the range of its type comes back as the printed form of that value (so \<open>0x10\<close> as an
  unsigned integer comes back as \<open>16\<close>), for all types without a fixed array inside a dynamic one. Where the
  strings among the values have no separators, the texts that came back are a fixed point: passed again, they come
  back unchanged.\<close>

theorem contract_echo_canonical:
  "text_faithful A \<Longrightarrow> matches_faithful A \<Longrightarrow> codec_faithful A ts \<Longrightarrow>
    list_all (\<lambda>t. valid_type U t \<and> encodable t) ts \<Longrightarrow> length args = length ts \<Longrightarrow>
    list_all2 (\<lambda>(t, s) v. from_str_arg A t s = Ok v \<and> value_in t v) (zip ts args) vs \<Longrightarrow>
    echo A ts args = Ok (map (to_contract_string A) vs) \<and>
    (list_all2 (\<lambda>t v. text_in t v \<and> nest t < 2 ^ 31) ts vs \<longrightarrow>
       echo A ts (map (to_contract_string A) vs) = Ok (map (to_contract_string A) vs))"
proof (intro conjI impI)
  assume A: "text_faithful A" "matches_faithful A" "codec_faithful A ts"
    and ts: "list_all (\<lambda>t. valid_type U t \<and> encodable t) ts" and l: "length args = length ts"
    and vs: "list_all2 (\<lambda>(t, s) v. from_str_arg A t s = Ok v \<and> value_in t v) (zip ts args) vs"
  show "echo A ts args = Ok (map (to_contract_string A) vs)" by (rule echo_parsed [OF A(2,3) ts l vs])
  assume "list_all2 (\<lambda>t v. text_in t v \<and> nest t < 2 ^ 31) ts vs"
  then have "list_all2 (\<lambda>(t, s) v. from_str_arg A t s = Ok v \<and> value_in t v) (zip ts (map (to_contract_string A) vs)) vs"
    using vs l by (auto simp: list_all2_conv_all_nth from_str_arg_print [OF A(1)])
  then show "echo A ts (map (to_contract_string A) vs) = Ok (map (to_contract_string A) vs)"
    using vs l list_all2_lengthD [OF vs] by (intro echo_parsed [OF A(2,3) ts]) simp_all
qed

fun wire_words :: "u8 list \<Rightarrow> u8 list list" where
  "wire_words [] = []"
| "wire_words (b # bs) = take 32 (b # bs) # wire_words (drop 32 (b # bs))"

fun wire_uint :: "DynSolValue \<Rightarrow> u8 list" where
  "wire_uint (S_Uint n k) = push_u256_word n"
| "wire_uint _ = []"

definition sample_wire :: alloy where
  \<comment> \<open>a codec for an unsigned integer, a boolean and an array of unsigned integers\<close>
  "sample_wire = sample_text\<lparr>
     a_encode := (\<lambda>x. case x of
         S_Tuple [n, S_Bool b, S_Array xs] \<Rightarrow> wire_uint n @ (if b then 1 else 0) # concat (map wire_uint xs)
       | _ \<Rightarrow> []),
     a_decode := (\<lambda>_ d. Ok (S_Tuple [S_Uint (from_be (take 32 d)) 256, S_Bool (d ! 32 = 1),
         S_Array (map (\<lambda>w. S_Uint (from_be w) 256) (wire_words (drop 33 d)))]))\<rparr>"

lemma wire_words_step: "length w = 32 \<Longrightarrow> wire_words (w @ d) = w # wire_words d"
  by (cases w) simp_all

lemma wire_words_uints:
  "list_all (dyn_in (Uint 256)) xs \<Longrightarrow>
    map (\<lambda>w. S_Uint (from_be w) 256) (wire_words (concat (map wire_uint xs))) = xs"
proof (induction xs)
  case (Cons x xs)
  then obtain n where "x = S_Uint n 256" by (auto split: DynSolValue.splits)
  with Cons show ?case by (simp add: wire_words_step)
qed simp

lemma sample_wire_faithful:
  "text_faithful sample_wire" "matches_faithful sample_wire"
  "codec_faithful sample_wire [Uint 256, Bool, Array (Uint 256)]"
proof -
  show "text_faithful sample_wire" using sample_text_faithful by (simp add: text_faithful_def sample_wire_def)
  show "matches_faithful sample_wire"
    using sample_matches_faithful by (simp add: matches_faithful_def sample_wire_def sample_text_def)
  have "\<exists>n b xs. ys = [S_Uint n 256, S_Bool b, S_Array xs] \<and> list_all (dyn_in (Uint 256)) xs"
    if ys: "list_all2 dyn_in [Uint 256, Bool, Array (Uint 256)] ys" for ys
  proof -
    obtain x y z where "ys = [x, y, z]" and x: "dyn_in (Uint 256) x" and y: "dyn_in Bool y" and z: "dyn_in (Array (Uint 256)) z"
      using ys unfolding list_all2_Cons1 list_all2_Nil by blast
    moreover obtain n where "x = S_Uint n 256" using x by (auto split: DynSolValue.splits)
    moreover obtain b where "y = S_Bool b" using y by (auto split: DynSolValue.splits)
    moreover obtain xs where "z = S_Array xs" "list_all (dyn_in (Uint 256)) xs" using z by (auto split: DynSolValue.splits)
    ultimately show ?thesis by simp
  qed
  moreover have "a_encode sample_wire (S_Tuple [S_Uint n 256, S_Bool b, S_Array xs]) \<noteq> []"
    "list_all (dyn_in (Uint 256)) xs \<Longrightarrow>
      a_decode sample_wire t (a_encode sample_wire (S_Tuple [S_Uint n 256, S_Bool b, S_Array xs]))
        = Ok (S_Tuple [S_Uint n 256, S_Bool b, S_Array xs])" for t n b xs
    using wire_words_uints [of xs] by (simp_all add: sample_wire_def nth_append)
  ultimately show "codec_faithful sample_wire [Uint 256, Bool, Array (Uint 256)]"
    unfolding codec_faithful_def by blast
qed

theorem contract_echo_canonical_witness:
  "echo sample_wire [Uint 256, Bool, Array (Uint 256)] [''0x10'', ''TRUE'', ''[1,2]''] = Ok [''16'', ''true'', ''[1, 2]''] \<and>
   echo sample_wire [Uint 256, Bool, Array (Uint 256)] [''16'', ''true'', ''[1, 2]''] = Ok [''16'', ''true'', ''[1, 2]'']"
proof -
  let ?ts = "[Uint 256, Bool, Array (Uint 256)]" and ?args = "[''0x10'', ''TRUE'', ''[1,2]'']"
  let ?vs = "[V_Uint 16 256, V_Bool True, V_Array [V_Uint 1 256, V_Uint 2 256]]"
  have p: "from_str_arg sample_wire (Uint 256) ''0x10'' = Ok (V_Uint 16 256)"
    "from_str_arg sample_wire Bool ''TRUE'' = Ok (V_Bool True)"
    "from_str_arg sample_wire (Array (Uint 256)) ''[1,2]'' = Ok (V_Array [V_Uint 1 256, V_Uint 2 256])"
    by code_simp+
  have t: "map (to_contract_string sample_wire) ?vs = [''16'', ''true'', ''[1, 2]'']" by code_simp
  have "list_all2 (\<lambda>(t, s) v. from_str_arg sample_wire t s = Ok v \<and> value_in t v) (zip ?ts ?args) ?vs"
    using p by (simp add: in_uint_def power_numeral del: from_str_arg.simps)
  from contract_echo_canonical [OF sample_wire_faithful _ _ this, of 300] show ?thesis
    unfolding t by (simp add: power_numeral)
qed

text \<open>Quotation marks are not removed from array elements: the array text \<open>["true"]\<close>, in the format the
  splitter is documented to accept, is refused as an array of booleans, and as an array of strings it yields an
  element that still has its quotation marks.\<close>

theorem quoted_elements_kept:
  "from_str_arg A (Array String) (''['' @ [CHR 0x22] @ ''true'' @ [CHR 0x22] @ '']'')
     = Ok (V_Array [V_String ([CHR 0x22] @ ''true'' @ [CHR 0x22])]) \<and>
   \<not> is_ok (from_str_arg A (Array Bool) (''['' @ [CHR 0x22] @ ''true'' @ [CHR 0x22] @ '']''))"
proof -
  have "to_ascii_lower CHR 0x22 = CHR 0x22" by code_simp
  moreover have "parse_json_array (trim (''['' @ [CHR 0x22] @ ''true'' @ [CHR 0x22] @ '']''))
      = Ok [[CHR 0x22] @ ''true'' @ [CHR 0x22]]" by code_simp
  moreover have "trim ([CHR 0x22] @ ''true'' @ [CHR 0x22]) = [CHR 0x22] @ ''true'' @ [CHR 0x22]" by code_simp
  ultimately show ?thesis by (simp add: Let_def)
qed

end
