(* ===== verification/Backoff.thy ===== *)
theory Backoff
  imports Rust_Prelude
begin

text \<open>
  Exponential backoff, the contract that the RPC provider (\<open>provider.rs\<close>) and the two feed subscribers (\<open>monitor/ws.rs\<close>,
  \<open>monitor/sequencer_subscriber.rs\<close>) share: after every failure the delay is doubled, up to a ceiling. The locale is stated over the
  representation of a delay; the components interpret it with their own.
\<close>

locale doubling_backoff =
  fixes ms :: "'d \<Rightarrow> nat" and initial :: 'd and next_delay :: "'d \<Rightarrow> 'd" and ceiling :: nat
  assumes initial_le: "ms initial \<le> ceiling"
    and next_ms: "ms d \<le> ceiling \<Longrightarrow> ms (next_delay d) = min (2 * ms d) ceiling"
begin

lemma nth_ms: "ms ((next_delay ^^ k) initial) = min (ms initial * 2 ^ k) ceiling"
proof (induction k)
  case 0
  then show ?case using initial_le by simp
next
  case (Suc k)
  then show ?case using next_ms [of "(next_delay ^^ k) initial"] by (auto simp: min_def)
qed

lemma nth_bounds: "ms initial \<le> ms ((next_delay ^^ k) initial)" "ms ((next_delay ^^ k) initial) \<le> ceiling"
  using initial_le by (simp_all add: nth_ms)

lemma nth_mono: "j \<le> k \<Longrightarrow> ms ((next_delay ^^ j) initial) \<le> ms ((next_delay ^^ k) initial)"
  unfolding nth_ms by (intro min.mono mult_le_mono2 power_increasing) simp_all

end

end
