(* ===== verification/Rpc_Provider.thy ===== *)
theory Rpc_Provider
  imports Abi_Text Backoff
begin

text \<open>
  The RPC provider: \<open>src/rust/src/provider.rs\<close> with \<open>address_utils.rs\<close>. Every operation of the provider is one call of the
  third-party node client, its error classified and the call retried with exponential backoff; the log fetcher cuts a
  block range into chunks. The node client, the clock and the random numbers are parameters over a world state; the loop of
  the fetcher is a partial function, because it may run for ever. The theory characterises the retries completely, shows that
  the chunks cover the block range exactly, and shows where the arithmetic on block numbers breaks that.
\<close>

section \<open>Addresses\<close>

datatype AddressError = AddressInvalid string | InvalidByteLength nat

definition show_address_error :: "AddressError \<Rightarrow> string" where
  "show_address_error e =
     (case e of
        AddressInvalid t \<Rightarrow> ''Invalid address string: '' @ t
      | InvalidByteLength n \<Rightarrow> ''Address must be exactly 20 bytes, got '' @ decimal n @ '' bytes'')"

definition address_parse :: "(string \<Rightarrow> (u160, string) outcome) \<Rightarrow> string \<Rightarrow> (u160, AddressError) outcome" where
  \<comment> \<open>\<open>parse_address\<close> over \<open>Address::from_str\<close>\<close>
  "address_parse from_str s = map_err AddressInvalid (from_str s)"

definition to_checksum_address_str ::
    "(string \<Rightarrow> (u160, string) outcome) \<Rightarrow> (u160 \<Rightarrow> string) \<Rightarrow> string \<Rightarrow> (string, AddressError) outcome" where
  "to_checksum_address_str from_str to_checksum s = obind (address_parse from_str s) (\<lambda>addr. Ok (to_checksum addr))"

definition to_checksum_address_bytes :: "(u160 \<Rightarrow> string) \<Rightarrow> u8 list \<Rightarrow> (string, AddressError) outcome" where
  "to_checksum_address_bytes to_checksum bytes =
     (if length bytes \<noteq> 20 then Err (InvalidByteLength (length bytes))
      else Ok (to_checksum (from_be bytes)))"

section \<open>Classification of errors\<close>

record transport_view =
  \<comment> \<open>what the code asks of a \<open>TransportErrorKind\<close>\<close>
  http_status :: "nat option"
  backend_gone :: bool
  pubsub_unavailable :: bool
  retry_err :: bool

record rpc_error_view =
  \<comment> \<open>what the code asks of an \<open>RpcError<TransportErrorKind>\<close>\<close>
  transport_err :: "transport_view option"
  error_resp :: "int option"
  local_usage_error :: bool
  ser_error :: bool
  deser_error :: bool
  re_text :: string

definition alloy_error_to_provider_error :: "rpc_error_view \<Rightarrow> string \<Rightarrow> ProviderError" where
  "alloy_error_to_provider_error e ctx =
     (let message = ctx @ '': '' @ re_text e
      in case transport_err e of
           Some t \<Rightarrow>
             if http_status t = Some 429 then RateLimited message
             else if (case http_status t of Some status \<Rightarrow> 500 \<le> status \<and> status < 600 | None \<Rightarrow> False)
               then ConnectionFailed message
             else if backend_gone t \<or> pubsub_unavailable t then ConnectionFailed message
             else if retry_err t then Timeout 30 message
             else RpcError (-1) message
         | None \<Rightarrow>
             (case error_resp e of
                Some code \<Rightarrow> RpcError code message
              | None \<Rightarrow>
                  if local_usage_error e then Other message
                  else if ser_error e \<or> deser_error e then SerializationError message
                  else RpcError (-1) message))"

section \<open>Filters\<close>

record LogFilter =
  lf_from_block :: "u64 option"
  lf_to_block :: "u64 option"
  lf_addresses :: "string list"
  lf_topics :: "string list list"

definition log_filter_new ::
    "u64 \<Rightarrow> u64 \<Rightarrow> string list option \<Rightarrow> string list list option \<Rightarrow> (LogFilter, ProviderError) outcome" where
  "log_filter_new from_block to_block addresses topics =
     (if to_block < from_block then Err (InvalidBlockRange from_block to_block)
      else Ok \<lparr>lf_from_block = Some from_block, lf_to_block = Some to_block,
               lf_addresses = (case addresses of Some a \<Rightarrow> a | None \<Rightarrow> []),
               lf_topics = (case topics of Some t \<Rightarrow> t | None \<Rightarrow> [])\<rparr>)"

record 'f filter_api =
  \<comment> \<open>the builder of the third-party \<open>Filter\<close> and the two parsers\<close>
  fa_new :: 'f
  fa_from_block :: "u64 \<Rightarrow> 'f \<Rightarrow> 'f"
  fa_to_block :: "u64 \<Rightarrow> 'f \<Rightarrow> 'f"
  fa_address :: "u160 list \<Rightarrow> 'f \<Rightarrow> 'f"
  fa_event_signature :: "u256 list \<Rightarrow> 'f \<Rightarrow> 'f"
  fa_topic1 :: "u256 list \<Rightarrow> 'f \<Rightarrow> 'f"
  fa_topic2 :: "u256 list \<Rightarrow> 'f \<Rightarrow> 'f"
  fa_topic3 :: "u256 list \<Rightarrow> 'f \<Rightarrow> 'f"
  fa_parse_address :: "string \<Rightarrow> (u160, string) outcome"
  fa_parse_topic :: "string \<Rightarrow> (u256, string) outcome"

fun add_topics :: "'f filter_api \<Rightarrow> nat \<Rightarrow> string list list \<Rightarrow> 'f \<Rightarrow> ('f, ProviderError) outcome" where
  \<comment> \<open>the loop over the topic positions, from position \<open>i\<close> on\<close>
  "add_topics F i [] flt = Ok flt"
| "add_topics F i (topic_list # rest) flt =
     (if topic_list = [] then add_topics F (i + 1) rest flt
      else
        obind (collect_results (map (\<lambda>t. map_err (InvalidTopic t) (fa_parse_topic F t)) topic_list)) (\<lambda>topics.
        if i = 0 then add_topics F (i + 1) rest (fa_event_signature F topics flt)
        else if i = 1 then add_topics F (i + 1) rest (fa_topic1 F topics flt)
        else if i = 2 then add_topics F (i + 1) rest (fa_topic2 F topics flt)
        else if i = 3 then add_topics F (i + 1) rest (fa_topic3 F topics flt)
        else Err (InvalidTopic [] (''topic position '' @ decimal i @ '' is out of range (max 3)''))))"

definition to_alloy_filter :: "'f filter_api \<Rightarrow> LogFilter \<Rightarrow> ('f, ProviderError) outcome" where
  "to_alloy_filter F lf =
     (let flt = fa_new F;
          flt = (case lf_from_block lf of Some b \<Rightarrow> fa_from_block F b flt | None \<Rightarrow> flt);
          flt = (case lf_to_block lf of Some b \<Rightarrow> fa_to_block F b flt | None \<Rightarrow> flt)
      in obind
           (if lf_addresses lf = [] then Ok flt
            else
              obind (collect_results (map (\<lambda>addr.
                       map_err (\<lambda>e. ProviderInvalidAddress addr (show_address_error e)) (address_parse (fa_parse_address F) addr))
                     (lf_addresses lf))) (\<lambda>addresses. Ok (fa_address F addresses flt)))
           (\<lambda>flt. if lf_topics lf = [] then Ok flt else add_topics F 0 (lf_topics lf) flt))"

section \<open>Networks and connections\<close>

datatype ProviderNetwork = NetEthereum | NetAny

definition network_parse :: "string \<Rightarrow> (ProviderNetwork, ProviderError) outcome" where
  "network_parse network =
     (let other = map to_ascii_lower network
      in if other = ''ethereum'' \<or> other = ''eth'' then Ok NetEthereum
         else if other = ''any'' then Ok NetAny
         else Err (InvalidParams (''unsupported Alloy provider network '' @ [CHR 0x27] @ other @ [CHR 0x27])))"

primrec network_as_str :: "ProviderNetwork \<Rightarrow> string" where
  "network_as_str NetEthereum = ''ethereum''"
| "network_as_str NetAny = ''any''"

datatype 'h ProviderInner = InnerEthereum 'h | InnerAny 'h

record 'h AlloyProvider =
  ap_inner :: "'h ProviderInner"
  ap_network :: ProviderNetwork
  ap_rpc_url :: string
  ap_max_retries :: u32

record ('h, 'w) connector =
  \<comment> \<open>URL parser and transports of the client; their errors are texts\<close>
  c_parse_url :: "string \<Rightarrow> string option"
  c_http :: "ProviderNetwork \<Rightarrow> string \<Rightarrow> 'h"
  c_ws :: "ProviderNetwork \<Rightarrow> string \<Rightarrow> 'w \<Rightarrow> (string + 'h) \<times> 'w"
  c_ipc :: "ProviderNetwork \<Rightarrow> string \<Rightarrow> 'w \<Rightarrow> (string + 'h) \<times> 'w"

definition starts_with :: "string \<Rightarrow> string \<Rightarrow> bool" where
  "starts_with s p \<longleftrightarrow> strip_prefix p s \<noteq> None"

definition connect_network ::
    "('h, 'w) connector \<Rightarrow> ProviderNetwork \<Rightarrow> string \<Rightarrow> 'w \<Rightarrow> ('h, ProviderError) outcome \<times> 'w" where
  \<comment> \<open>\<open>connect_ethereum\<close> and \<open>connect_any\<close>; \<open>c_parse_url\<close> is the text of the parse error, if any\<close>
  "connect_network C network rpc_url w =
     (if starts_with rpc_url ''http://'' \<or> starts_with rpc_url ''https://'' then
        (case c_parse_url C rpc_url of
           Some e \<Rightarrow> (Err (ConnectionFailed (''Invalid RPC URL: '' @ e)), w)
         | None \<Rightarrow> (Ok (c_http C network rpc_url), w))
      else if starts_with rpc_url ''ws://'' \<or> starts_with rpc_url ''wss://'' then
        (case c_ws C network rpc_url w of
           (Inl e, w) \<Rightarrow> (Err (ConnectionFailed (''Failed to connect to WebSocket endpoint: '' @ e)), w)
         | (Inr h, w) \<Rightarrow> (Ok h, w))
      else
        (case c_ipc C network rpc_url w of
           (Inl e, w) \<Rightarrow> (Err (ConnectionFailed (''Failed to connect to IPC endpoint: '' @ e)), w)
         | (Inr h, w) \<Rightarrow> (Ok h, w)))"

definition new_with_network ::
    "('h, 'w) connector \<Rightarrow> string \<Rightarrow> u32 \<Rightarrow> ProviderNetwork \<Rightarrow> 'w \<Rightarrow> ('h AlloyProvider, ProviderError) outcome \<times> 'w" where
  "new_with_network C rpc_url max_retries network w =
     (case connect_network C network rpc_url w of
        (r, w) \<Rightarrow>
          (obind r (\<lambda>h.
             Ok \<lparr>ap_inner = (case network of NetEthereum \<Rightarrow> InnerEthereum h | NetAny \<Rightarrow> InnerAny h),
                 ap_network = network, ap_rpc_url = rpc_url, ap_max_retries = max_retries\<rparr>), w))"

definition provider_new ::
    "('h, 'w) connector \<Rightarrow> string \<Rightarrow> u32 \<Rightarrow> 'w \<Rightarrow> ('h AlloyProvider, ProviderError) outcome \<times> 'w" where
  "provider_new C rpc_url max_retries w = new_with_network C rpc_url max_retries NetAny w"

section \<open>Retries\<close>

definition INITIAL_RETRY_DELAY_MS :: u64 where "INITIAL_RETRY_DELAY_MS = 100"
definition MAX_RETRY_DELAY_MS :: u64 where "MAX_RETRY_DELAY_MS = 30000"
definition BACKOFF_MULTIPLIER :: u64 where "BACKOFF_MULTIPLIER = 2"
definition MAX_JITTER_MS :: u64 where "MAX_JITTER_MS = 100"
definition DEFAULT_MAX_RETRIES :: u32 where "DEFAULT_MAX_RETRIES = 10"

record 'w timer =
  random_range :: "u64 \<Rightarrow> 'w \<Rightarrow> u64 \<times> 'w" \<comment> \<open>uniform below the bound\<close>
  sleep_ms :: "u64 \<Rightarrow> 'w \<Rightarrow> 'w"

definition is_retryable :: "ProviderError \<Rightarrow> bool" where
  "is_retryable e \<longleftrightarrow>
     (case e of RateLimited _ \<Rightarrow> True | Timeout _ _ \<Rightarrow> True | ConnectionFailed _ \<Rightarrow> True | _ \<Rightarrow> False)"

definition back_off :: "'w timer \<Rightarrow> u64 \<Rightarrow> 'w \<Rightarrow> 'w" where
  "back_off K delay_ms w =
     (let (jitter, w) = random_range K MAX_JITTER_MS w
      in sleep_ms K (delay_ms + jitter) w)"

definition next_retry_delay :: "u64 \<Rightarrow> u64" where
  "next_retry_delay delay_ms = min (delay_ms * BACKOFF_MULTIPLIER) MAX_RETRY_DELAY_MS"

lemma attempts_decrease:
  "\<not> m \<le> (a :: u32) + 1 \<Longrightarrow>
    2 ^ 32 - unat (a + 1 + 1) < 2 ^ 32 - unat (a + 1)"
proof -
  assume "\<not> m \<le> a + 1"
  then have "a + 1 < m" by simp
  then have l: "unat (a + 1) < unat m" by (simp only: word_less_nat_alt)
  moreover have b: "unat (a + 1) < 2 ^ 32" "unat m < 2 ^ 32" using unat_bound [of "a + 1"] unat_bound [of m] by simp_all
  ultimately have a: "a + 1 \<noteq> u_max" using unat_u_max [where 'a = 32] by auto
  from unat_plus_one [OF a] b show ?thesis by simp
qed

function retry_loop ::
    "'w timer \<Rightarrow> u32 \<Rightarrow> ('w \<Rightarrow> ('t, ProviderError) outcome \<times> 'w) \<Rightarrow> u32 \<Rightarrow> u64 \<Rightarrow> 'w \<Rightarrow> ('t, ProviderError) outcome \<times> 'w" where
  "retry_loop K max_retries operation attempt delay_ms w =
     (case operation w of
        (Ok result, w) \<Rightarrow> (Ok result, w)
      | (Panic, w) \<Rightarrow> (Panic, w)
      | (Err e, w) \<Rightarrow>
          if max_retries \<le> attempt + 1 then (Err e, w)
          else if \<not> is_retryable e then (Err e, w)
          else
            retry_loop K max_retries operation (attempt + 1) (next_retry_delay delay_ms) (back_off K delay_ms w))"
  by pat_completeness auto

termination
  by (relation "measure (\<lambda>(K, m, f, a, d, w). 2 ^ 32 - unat (a + 1))") (auto dest: attempts_decrease)

declare retry_loop.simps [simp del]

definition retry_with_backoff ::
    "'w timer \<Rightarrow> 'h AlloyProvider \<Rightarrow> ('w \<Rightarrow> ('t, ProviderError) outcome \<times> 'w) \<Rightarrow> 'w \<Rightarrow> ('t, ProviderError) outcome \<times> 'w" where
  "retry_with_backoff K p operation w = retry_loop K (ap_max_retries p) operation 0 INITIAL_RETRY_DELAY_MS w"

section \<open>The operations\<close>

record ('f, 'h, 'w, 'blk, 'js) node =
  \<comment> \<open>the methods of the third-party client; both network types have the same ones\<close>
  n_block_number :: "'h ProviderInner \<Rightarrow> 'w \<Rightarrow> (rpc_error_view + u64) \<times> 'w"
  n_chain_id :: "'h ProviderInner \<Rightarrow> 'w \<Rightarrow> (rpc_error_view + u64) \<times> 'w"
  n_logs :: "'h ProviderInner \<Rightarrow> 'f \<Rightarrow> 'w \<Rightarrow> (rpc_error_view + 'js list) \<times> 'w"
  n_code :: "'h ProviderInner \<Rightarrow> u160 \<Rightarrow> u64 option \<Rightarrow> 'w \<Rightarrow> (rpc_error_view + u8 list) \<times> 'w"
  n_block :: "'h ProviderInner \<Rightarrow> u64 \<Rightarrow> 'w \<Rightarrow> (rpc_error_view + 'blk option) \<times> 'w"
  n_call :: "'h ProviderInner \<Rightarrow> u160 \<Rightarrow> u8 list \<Rightarrow> u64 option \<Rightarrow> 'w \<Rightarrow> (rpc_error_view + u8 list) \<times> 'w"
  n_gas_price :: "'h ProviderInner \<Rightarrow> 'w \<Rightarrow> (rpc_error_view + u128) \<times> 'w"
  n_estimate_gas :: "'h ProviderInner \<Rightarrow> u160 \<Rightarrow> u8 list \<Rightarrow> u160 option \<Rightarrow> u256 option \<Rightarrow> u64 option \<Rightarrow> 'w \<Rightarrow>
    (rpc_error_view + u64) \<times> 'w"
  n_transaction :: "'h ProviderInner \<Rightarrow> u256 \<Rightarrow> 'w \<Rightarrow> (rpc_error_view + 'js option) \<times> 'w"
  n_receipt :: "'h ProviderInner \<Rightarrow> u256 \<Rightarrow> 'w \<Rightarrow> (rpc_error_view + 'js option) \<times> 'w"
  n_storage :: "'h ProviderInner \<Rightarrow> u160 \<Rightarrow> u256 \<Rightarrow> u64 option \<Rightarrow> 'w \<Rightarrow> (rpc_error_view + u256) \<times> 'w"
  n_balance :: "'h ProviderInner \<Rightarrow> u160 \<Rightarrow> u64 option \<Rightarrow> 'w \<Rightarrow> (rpc_error_view + u256) \<times> 'w"
  n_nonce :: "'h ProviderInner \<Rightarrow> u160 \<Rightarrow> u64 option \<Rightarrow> 'w \<Rightarrow> (rpc_error_view + u64) \<times> 'w"
  n_parse_hash :: "string \<Rightarrow> (u256, string) outcome" \<comment> \<open>\<open>FixedBytes::from_str\<close>\<close>
  n_to_json :: "'js \<Rightarrow> ('js, string) outcome" \<comment> \<open>\<open>serde_json::to_value\<close>\<close>

definition classified :: "string \<Rightarrow> (rpc_error_view + 'a) \<times> 'w \<Rightarrow> ('a, ProviderError) outcome \<times> 'w" where
  \<comment> \<open>\<open>map_err\<close> with \<open>alloy_error_to_provider_error\<close>, and \<open>?\<close>\<close>
  "classified ctx r =
     (case r of
        (Inl e, w) \<Rightarrow> (Err (alloy_error_to_provider_error e ctx), w)
      | (Inr v, w) \<Rightarrow> (Ok v, w))"

definition get_block_number :: "('f, 'h, 'w, 'blk, 'js) node \<Rightarrow> 'w timer \<Rightarrow> 'h AlloyProvider \<Rightarrow> 'w \<Rightarrow> (u64, ProviderError) outcome \<times> 'w" where
  "get_block_number N K p =
     retry_with_backoff K p (\<lambda>w. classified ''Failed to get block number'' (n_block_number N (ap_inner p) w))"

definition get_chain_id :: "('f, 'h, 'w, 'blk, 'js) node \<Rightarrow> 'w timer \<Rightarrow> 'h AlloyProvider \<Rightarrow> 'w \<Rightarrow> (u64, ProviderError) outcome \<times> 'w" where
  "get_chain_id N K p =
     retry_with_backoff K p (\<lambda>w. classified ''Failed to get chain ID'' (n_chain_id N (ap_inner p) w))"

definition get_logs ::
    "'f filter_api \<Rightarrow> ('f, 'h, 'w, 'blk, 'js) node \<Rightarrow> 'w timer \<Rightarrow> 'h AlloyProvider \<Rightarrow> LogFilter \<Rightarrow> 'w \<Rightarrow>
      ('js list, ProviderError) outcome \<times> 'w" where
  "get_logs F N K p lf w =
     (case to_alloy_filter F lf of
        Err e \<Rightarrow> (Err e, w)
      | Panic \<Rightarrow> (Panic, w)
      | Ok alloy_filter \<Rightarrow>
          retry_with_backoff K p (\<lambda>w. classified ''Failed to get logs'' (n_logs N (ap_inner p) alloy_filter w)) w)"

definition get_code ::
    "('f, 'h, 'w, 'blk, 'js) node \<Rightarrow> 'w timer \<Rightarrow> 'h AlloyProvider \<Rightarrow> u160 \<Rightarrow> u64 option \<Rightarrow> 'w \<Rightarrow>
      (u8 list, ProviderError) outcome \<times> 'w" where
  "get_code N K p address block_number =
     retry_with_backoff K p (\<lambda>w. classified ''Failed to get code'' (n_code N (ap_inner p) address block_number w))"

datatype 'blk ProviderBlock = BlockEthereum 'blk | BlockAny 'blk

definition get_block ::
    "('f, 'h, 'w, 'blk, 'js) node \<Rightarrow> 'w timer \<Rightarrow> 'h AlloyProvider \<Rightarrow> u64 \<Rightarrow> 'w \<Rightarrow>
      ('blk ProviderBlock option, ProviderError) outcome \<times> 'w" where
  "get_block N K p block_number =
     retry_with_backoff K p (\<lambda>w.
       classified ''Failed to get block''
         (case n_block N (ap_inner p) block_number w of
            (Inl e, w) \<Rightarrow> (Inl e, w)
          | (Inr b, w) \<Rightarrow>
              (Inr (map_option (case ap_inner p of InnerEthereum _ \<Rightarrow> BlockEthereum | InnerAny _ \<Rightarrow> BlockAny) b), w)))"

definition eth_call ::
    "('f, 'h, 'w, 'blk, 'js) node \<Rightarrow> 'w timer \<Rightarrow> 'h AlloyProvider \<Rightarrow> u160 \<Rightarrow> u8 list \<Rightarrow> u64 option \<Rightarrow> 'w \<Rightarrow>
      (u8 list, ProviderError) outcome \<times> 'w" where
  "eth_call N K p to data block_number =
     retry_with_backoff K p (\<lambda>w. classified ''eth_call failed'' (n_call N (ap_inner p) to data block_number w))"

definition get_gas_price :: "('f, 'h, 'w, 'blk, 'js) node \<Rightarrow> 'w timer \<Rightarrow> 'h AlloyProvider \<Rightarrow> 'w \<Rightarrow> (u128, ProviderError) outcome \<times> 'w" where
  "get_gas_price N K p =
     retry_with_backoff K p (\<lambda>w. classified ''Failed to get gas price'' (n_gas_price N (ap_inner p) w))"

definition estimate_gas ::
    "('f, 'h, 'w, 'blk, 'js) node \<Rightarrow> 'w timer \<Rightarrow> 'h AlloyProvider \<Rightarrow> u160 \<Rightarrow> u8 list \<Rightarrow> u160 option \<Rightarrow> u128 option \<Rightarrow>
      u64 option \<Rightarrow> 'w \<Rightarrow> (u64, ProviderError) outcome \<times> 'w" where
  "estimate_gas N K p to data sender val block_number =
     retry_with_backoff K p (\<lambda>w.
       classified ''Failed to estimate gas''
         (n_estimate_gas N (ap_inner p) to data sender (map_option ucast val) block_number w))"

definition with_json ::
    "('f, 'h, 'w, 'blk, 'js) node \<Rightarrow> string \<Rightarrow> ('js option, ProviderError) outcome \<times> 'w \<Rightarrow> ('js option, ProviderError) outcome \<times> 'w" where
  \<comment> \<open>the conversion to JSON, inside the retried operation\<close>
  "with_json N what r =
     (case r of
        (Ok (Some tx), w) \<Rightarrow>
          (obind (map_err (\<lambda>e. SerializationError (''Failed to serialize '' @ what @ '': '' @ e)) (n_to_json N tx))
             (\<lambda>j. Ok (Some j)), w)
      | (r, w) \<Rightarrow> (r, w))"

definition get_transaction ::
    "('f, 'h, 'w, 'blk, 'js) node \<Rightarrow> 'w timer \<Rightarrow> 'h AlloyProvider \<Rightarrow> string \<Rightarrow> 'w \<Rightarrow> ('js option, ProviderError) outcome \<times> 'w" where
  "get_transaction N K p tx_hash w =
     (case n_parse_hash N tx_hash of
        Err e \<Rightarrow> (Err (InvalidParams (''Invalid transaction hash: '' @ e)), w)
      | Panic \<Rightarrow> (Panic, w)
      | Ok hash \<Rightarrow>
          retry_with_backoff K p (\<lambda>w.
            with_json N ''transaction'' (classified ''Failed to get transaction'' (n_transaction N (ap_inner p) hash w))) w)"

definition get_transaction_receipt ::
    "('f, 'h, 'w, 'blk, 'js) node \<Rightarrow> 'w timer \<Rightarrow> 'h AlloyProvider \<Rightarrow> string \<Rightarrow> 'w \<Rightarrow> ('js option, ProviderError) outcome \<times> 'w" where
  "get_transaction_receipt N K p tx_hash w =
     (case n_parse_hash N tx_hash of
        Err e \<Rightarrow> (Err (InvalidParams (''Invalid transaction hash: '' @ e)), w)
      | Panic \<Rightarrow> (Panic, w)
      | Ok hash \<Rightarrow>
          retry_with_backoff K p (\<lambda>w.
            with_json N ''transaction receipt''
              (classified ''Failed to get transaction receipt'' (n_receipt N (ap_inner p) hash w))) w)"

definition get_storage_at ::
    "('f, 'h, 'w, 'blk, 'js) node \<Rightarrow> 'w timer \<Rightarrow> 'h AlloyProvider \<Rightarrow> u160 \<Rightarrow> u256 \<Rightarrow> u64 option \<Rightarrow> 'w \<Rightarrow>
      (u256, ProviderError) outcome \<times> 'w" where
  "get_storage_at N K p address position block_number =
     retry_with_backoff K p (\<lambda>w.
       classified ''Failed to get storage'' (n_storage N (ap_inner p) address position block_number w))"

definition provider_get_balance ::
    "('f, 'h, 'w, 'blk, 'js) node \<Rightarrow> 'w timer \<Rightarrow> 'h AlloyProvider \<Rightarrow> u160 \<Rightarrow> u64 option \<Rightarrow> 'w \<Rightarrow>
      (u256, ProviderError) outcome \<times> 'w" where
  "provider_get_balance N K p address block_number =
     retry_with_backoff K p (\<lambda>w. classified ''Failed to get balance'' (n_balance N (ap_inner p) address block_number w))"

definition get_transaction_count ::
    "('f, 'h, 'w, 'blk, 'js) node \<Rightarrow> 'w timer \<Rightarrow> 'h AlloyProvider \<Rightarrow> u160 \<Rightarrow> u64 option \<Rightarrow> 'w \<Rightarrow>
      (u64, ProviderError) outcome \<times> 'w" where
  "get_transaction_count N K p address block_number =
     retry_with_backoff K p (\<lambda>w.
       classified ''Failed to get transaction count'' (n_nonce N (ap_inner p) address block_number w))"

section \<open>The log fetcher\<close>

partial_function (option) chunk_loop ::
    "(LogFilter \<Rightarrow> 'w \<Rightarrow> ('l list, ProviderError) outcome \<times> 'w) \<Rightarrow> u64 \<Rightarrow> string list option \<Rightarrow> string list list option \<Rightarrow>
      u64 \<Rightarrow> u64 \<Rightarrow> 'l list \<Rightarrow> 'w \<Rightarrow> (('l list, ProviderError) outcome \<times> 'w) option" where
  "chunk_loop logs_of max_blocks_per_request addresses topics to_block current_block all_logs w =
     (if current_block \<le> to_block then
        let chunk_end = min (current_block + max_blocks_per_request - 1) to_block
        in case log_filter_new current_block chunk_end addresses topics of
             Err e \<Rightarrow> Some (Err e, w)
           | Panic \<Rightarrow> Some (Panic, w)
           | Ok flt \<Rightarrow>
               (case logs_of flt w of
                  (Err e, w) \<Rightarrow> Some (Err e, w)
                | (Panic, w) \<Rightarrow> Some (Panic, w)
                | (Ok logs, w) \<Rightarrow>
                    chunk_loop logs_of max_blocks_per_request addresses topics to_block (chunk_end + 1) (all_logs @ logs) w)
      else Some (Ok all_logs, w))"

definition fetch_logs_chunked ::
    "(LogFilter \<Rightarrow> 'w \<Rightarrow> ('l list, ProviderError) outcome \<times> 'w) \<Rightarrow> u64 \<Rightarrow> u64 \<Rightarrow> u64 \<Rightarrow> string list option \<Rightarrow>
      string list list option \<Rightarrow> 'w \<Rightarrow> (('l list, ProviderError) outcome \<times> 'w) option" where
  \<comment> \<open>over \<open>get_logs\<close> of the provider of the fetcher\<close>
  "fetch_logs_chunked logs_of max_blocks_per_request from_block to_block addresses topics w =
     (if to_block < from_block then Some (Err (InvalidBlockRange from_block to_block), w)
      else chunk_loop logs_of max_blocks_per_request addresses topics to_block from_block [] w)"

section \<open>What the retries do\<close>

definition nth_delay :: "nat \<Rightarrow> u64" where
  \<comment> \<open>the wait after attempt \<open>k\<close>, before the jitter\<close>
  "nth_delay k = word_of_nat (min (100 * 2 ^ k) 30000)"

primrec before_attempt :: "'w timer \<Rightarrow> ('w \<Rightarrow> ('t, ProviderError) outcome \<times> 'w) \<Rightarrow> nat \<Rightarrow> 'w \<Rightarrow> 'w" where
  \<comment> \<open>the world in which attempt \<open>k\<close> starts, counted from 0\<close>
  "before_attempt K operation 0 w = w"
| "before_attempt K operation (Suc k) w = back_off K (nth_delay k) (snd (operation (before_attempt K operation k w)))"

definition failed_retryably :: "'w timer \<Rightarrow> ('w \<Rightarrow> ('t, ProviderError) outcome \<times> 'w) \<Rightarrow> 'w \<Rightarrow> nat \<Rightarrow> bool" where
  "failed_retryably K operation w k \<longleftrightarrow>
     (case fst (operation (before_attempt K operation k w)) of Err e \<Rightarrow> is_retryable e | _ \<Rightarrow> False)"

interpretation retry_backoff: doubling_backoff unat INITIAL_RETRY_DELAY_MS next_retry_delay 30000
proof
  show "unat INITIAL_RETRY_DELAY_MS \<le> 30000" by (simp add: INITIAL_RETRY_DELAY_MS_def)
  fix d :: u64
  assume "unat d \<le> 30000"
  then have "unat (d * BACKOFF_MULTIPLIER) = 2 * unat d"
    by (simp add: unat_word_ariths BACKOFF_MULTIPLIER_def power_numeral)
  then show "unat (next_retry_delay d) = min (2 * unat d) 30000"
    by (auto simp: next_retry_delay_def min_def word_le_nat_alt MAX_RETRY_DELAY_MS_def)
qed

lemma nth_delay_funpow: "nth_delay k = (next_retry_delay ^^ k) INITIAL_RETRY_DELAY_MS"
  using retry_backoff.nth_ms [of k]
  by (intro word_unat_eq_iff [THEN iffD2])
    (simp add: nth_delay_def unat_word_of_nat INITIAL_RETRY_DELAY_MS_def power_numeral min_def)

lemma nth_delay_Suc: "next_retry_delay (nth_delay k) = nth_delay (Suc k)"
  by (simp add: nth_delay_funpow)

lemma retry_loop_runs:
  "n < max 1 (unat m) \<Longrightarrow> \<forall>j<n. failed_retryably K operation w j \<Longrightarrow>
    \<exists>k < max 1 (unat m).
      (\<forall>j<k. failed_retryably K operation w j) \<and>
      (failed_retryably K operation w k \<longrightarrow> unat m \<le> k + 1) \<and>
      retry_loop K m operation (word_of_nat n) (nth_delay n) (before_attempt K operation n w)
        = operation (before_attempt K operation k w)"
proof (induction "max 1 (unat m) - n" arbitrary: n rule: less_induct)
  case less
  obtain r w1 where o: "operation (before_attempt K operation n w) = (r, w1)" by force
  have n: "n + 1 < 2 ^ 32" using less.prems(1) unat_bound [of m] by (auto simp: max_def power_numeral split: if_splits)
  have succ: "(word_of_nat n :: u32) + 1 = word_of_nat (n + 1)" by simp
  from n have last: "m \<le> word_of_nat n + 1 \<longleftrightarrow> unat m \<le> n + 1"
    using unat_word_of_nat [of "n + 1", where 'a = 32] by (simp only: word_le_nat_alt succ) simp
  let ?f = "failed_retryably K operation w n"
  show ?case
  proof (cases "?f \<and> n + 1 < unat m")
    case False
    then have "retry_loop K m operation (word_of_nat n) (nth_delay n) (before_attempt K operation n w) = (r, w1)"
      using o last by (auto simp: retry_loop.simps failed_retryably_def split: outcome.splits)
    then show ?thesis using False o less.prems by (intro exI [of _ n]) auto
  next
    case True
    then obtain e where e: "r = Err e" "is_retryable e" using o by (auto simp: failed_retryably_def split: outcome.splits)
    have step: "retry_loop K m operation (word_of_nat n) (nth_delay n) (before_attempt K operation n w)
        = retry_loop K m operation (word_of_nat (Suc n)) (nth_delay (Suc n)) (before_attempt K operation (Suc n) w)"
      using True o last e by (subst retry_loop.simps) (simp add: nth_delay_Suc succ del: of_nat_Suc of_nat_add)
    have "\<forall>j<Suc n. failed_retryably K operation w j" using True less.prems(2) less_Suc_eq by auto
    then show ?thesis unfolding step using True by (intro less.hyps) auto
  qed
qed

text \<open>
  C11. The retries are exactly these: the operation is run at least once and at most \<open>max_retries\<close> times; every run but the
  last failed with a rate limit, a timeout or a lost connection, and was followed by a wait of 100 ms doubled for every
  earlier run, at most 30 s, plus the jitter; the result is that of the last run; and the loop stops at an error that may be
  retried only because the attempts are used up.\<close>

theorem retries_exact:
  "\<exists>k < max 1 (unat (ap_max_retries p)).
     (\<forall>j<k. failed_retryably K operation w j) \<and>
     (failed_retryably K operation w k \<longrightarrow> unat (ap_max_retries p) \<le> k + 1) \<and>
     retry_with_backoff K p operation w = operation (before_attempt K operation k w)"
proof -
  have "nth_delay 0 = INITIAL_RETRY_DELAY_MS" by (simp add: nth_delay_def INITIAL_RETRY_DELAY_MS_def)
  then show ?thesis
    using retry_loop_runs [of 0 "ap_max_retries p" K operation w] by (simp add: retry_with_backoff_def)
qed

definition sample_timer :: "nat timer" where
  "sample_timer = \<lparr>random_range = \<lambda>_ w. (0, w), sleep_ms = \<lambda>_ w. w\<rparr>"

definition third_time :: "nat \<Rightarrow> (nat, ProviderError) outcome \<times> nat" where
  "third_time w = (if w < 2 then Err (RateLimited []) else Ok w, w + 1)"

theorem retries_exact_witness:
  "retry_with_backoff sample_timer
     \<lparr>ap_inner = InnerAny (), ap_network = NetAny, ap_rpc_url = [], ap_max_retries = 3\<rparr> third_time 0 = (Ok 2, 3)"
proof -
  let ?p = "\<lparr>ap_inner = InnerAny (), ap_network = NetAny, ap_rpc_url = [], ap_max_retries = 3\<rparr>"
  have w: "before_attempt sample_timer third_time k 0 = k" for k
    by (induction k) (simp_all add: back_off_def sample_timer_def third_time_def)
  then have f: "failed_retryably sample_timer third_time 0 k \<longleftrightarrow> k < 2" for k
    by (simp add: failed_retryably_def third_time_def is_retryable_def)
  obtain k where "k < 3" "k < 2 \<longrightarrow> 3 \<le> k + 1" "retry_with_backoff sample_timer ?p third_time 0 = third_time k"
    using retries_exact [of ?p sample_timer third_time 0] by (auto simp: w f)
  then show ?thesis by (cases "k = 2") (auto simp: third_time_def)
qed

section \<open>What the log fetcher fetches\<close>

definition logs_between :: "(nat \<Rightarrow> 'l list) \<Rightarrow> u64 \<Rightarrow> u64 \<Rightarrow> 'l list" where
  "logs_between L a b = concat (map L [unat a ..< unat b + 1])"

definition permitted :: "u64 \<Rightarrow> u64 \<Rightarrow> u64 \<Rightarrow> string list option \<Rightarrow> string list list option \<Rightarrow> LogFilter \<Rightarrow> bool" where
  \<comment> \<open>a filter with the addresses and topics asked for, over at most \<open>m\<close> blocks of the range\<close>
  "permitted m from_block to_block addresses topics flt \<longleftrightarrow>
     (case (lf_from_block flt, lf_to_block flt) of
        (Some a, Some b) \<Rightarrow>
          from_block \<le> a \<and> a \<le> b \<and> b \<le> to_block \<and> unat b - unat a < unat m \<and>
          log_filter_new a b addresses topics = Ok flt
      | _ \<Rightarrow> False)"

definition answers :: "(nat \<Rightarrow> 'l list) \<Rightarrow> LogFilter \<Rightarrow> ('l list, ProviderError) outcome \<Rightarrow> bool" where
  \<comment> \<open>a successful answer consists of the logs of the blocks of the filter\<close>
  "answers L flt r \<longleftrightarrow>
     (case (r, lf_from_block flt, lf_to_block flt) of
        (Ok logs, Some a, Some b) \<Rightarrow> logs = logs_between L a b
      | _ \<Rightarrow> True)"

lemma logs_between_split:
  "a \<le> c \<Longrightarrow> c < b \<Longrightarrow> logs_between L a c @ logs_between L (c + 1) b = logs_between L a b"
proof -
  assume a: "a \<le> c" and c: "c < b"
  then have "c \<noteq> u_max" using unat_bound [of b] by (auto simp: word_less_nat_alt unat_u_max)
  then have "unat (c + 1) = unat c + 1" by (rule unat_plus_one)
  moreover have "[unat a ..< unat c + 1] @ [unat c + 1 ..< unat b + 1] = [unat a ..< unat b + 1]"
    using a c upt_add_eq_append [of "unat a" "unat c + 1" "unat b - unat c"] by (simp add: word_le_nat_alt word_less_nat_alt)
  ultimately show ?thesis unfolding logs_between_def by (metis concat_append map_append)
qed

lemma chunk_end_bounds:
  assumes c: "c \<le> t" and m: "0 < m" and fit: "unat t + unat m < 2 ^ 64"
  defines "e \<equiv> min (c + m - 1) (t :: u64)"
  shows "c \<le> e" "e \<le> t" "unat e - unat c < unat m" "unat (e + 1) = unat e + 1"
proof -
  have le: "unat c \<le> unat t" "0 < unat m" using c m by (simp_all add: word_le_nat_alt unat_pos_iff word_neq_0_conv)
  then have s: "unat (c + m) = unat c + unat m" using fit by (simp add: unat_word_ariths)
  then have "c + m \<noteq> 0" using le by (metis add_is_0 unat_0 less_numeral_extra(3))
  then have "unat (c + m - 1) = unat c + unat m - 1" using s by (simp add: unat_minus_one)
  then have e: "unat e = min (unat c + unat m - 1) (unat t)" by (simp add: e_def min_def word_le_nat_alt)
  then show "c \<le> e" "e \<le> t" "unat e - unat c < unat m" using le by (auto simp: word_le_nat_alt)
  have "e \<noteq> u_max" using e fit le unat_u_max [where 'a = 64] by (auto simp: power_numeral)
  then show "unat (e + 1) = unat e + 1" by (rule unat_plus_one)
qed

lemma chunk_loop_covers:
  assumes m: "0 < m" "unat t + unat m < 2 ^ 64" and f: "f0 \<le> c" "c \<le> t"
    and node: "\<And>flt w. permitted m f0 t addresses topics flt \<Longrightarrow> answers L flt (fst (logs_of flt w))"
  shows "\<exists>r w'. chunk_loop logs_of m addresses topics t c acc w = Some (r, w') \<and>
    (case r of
       Ok logs \<Rightarrow> logs = acc @ logs_between L c t
     | _ \<Rightarrow> \<exists>flt w1. permitted m f0 t addresses topics flt \<and> logs_of flt w1 = (r, w'))"
  using f
proof (induction "unat t - unat c" arbitrary: c acc w rule: less_induct)
  case less
  define e where "e = min (c + m - 1) t"
  note b = chunk_end_bounds [OF less.prems(2) m, folded e_def]
  define flt where "flt = \<lparr>lf_from_block = Some c, lf_to_block = Some e,
    lf_addresses = (case addresses of Some a \<Rightarrow> a | None \<Rightarrow> []), lf_topics = (case topics of Some t \<Rightarrow> t | None \<Rightarrow> [])\<rparr>"
  have new: "log_filter_new c e addresses topics = Ok flt" using b(1) by (simp add: log_filter_new_def flt_def)
  then have ok: "permitted m f0 t addresses topics flt" using b less.prems by (simp add: permitted_def flt_def)
  obtain r w1 where q: "logs_of flt w = (r, w1)" by force
  note unfolded = chunk_loop.simps [of logs_of m addresses topics t c acc w]
  show ?case
  proof (cases r)
    case (Ok logs)
    then have logs: "logs = logs_between L c e" using node [OF ok, of w] q by (simp add: answers_def flt_def)
    have step: "chunk_loop logs_of m addresses topics t c acc w
        = chunk_loop logs_of m addresses topics t (e + 1) (acc @ logs) w1"
      using less.prems new q Ok by (simp add: unfolded e_def [symmetric] Let_def)
    show ?thesis
    proof (cases "e = t")
      case True
      then have "\<not> t + 1 \<le> t" using b(4) by (simp add: word_le_nat_alt)
      then show ?thesis using True logs unfolding step by (simp add: chunk_loop.simps)
    next
      case False
      then have lt: "e < t" using b(2) by simp
      have "unat t - unat (e + 1) < unat t - unat c" "f0 \<le> e + 1" "e + 1 \<le> t"
        using lt b(1,4) less.prems by (simp_all add: word_le_nat_alt word_less_nat_alt)
      note IH = less.hyps [OF this, of "acc @ logs" w1]
      have "acc @ logs_between L c t = (acc @ logs) @ logs_between L (e + 1) t"
        using logs_between_split [OF b(1) lt, of L] logs by simp
      then show ?thesis using IH by (simp only: step)
    qed
  qed (use less.prems new q ok in \<open>auto simp: unfolded e_def [symmetric] Let_def\<close>)
qed

text \<open>
  C12. The chunks cover the block range exactly: with a chunk size that is not zero and block numbers that leave room for one
  chunk below \<open>2 ^ 64\<close>, the fetcher always returns; it asks only for subranges of at most \<open>max_blocks_per_request\<close> blocks with
  the addresses and topics given; a successful result holds the logs of all blocks of the range, each once and in
  order; and a failure is the failure of one of these requests.\<close>

theorem log_chunks_cover_range:
  assumes "0 < m" "unat to_block + unat m < 2 ^ 64" "from_block \<le> to_block"
    and "\<And>flt w. permitted m from_block to_block addresses topics flt \<Longrightarrow> answers L flt (fst (logs_of flt w))"
  shows "\<exists>r w'. fetch_logs_chunked logs_of m from_block to_block addresses topics w = Some (r, w') \<and>
    (case r of
       Ok logs \<Rightarrow> logs = logs_between L from_block to_block
     | _ \<Rightarrow> \<exists>flt w1. permitted m from_block to_block addresses topics flt \<and> logs_of flt w1 = (r, w'))"
  using chunk_loop_covers [OF assms(1,2) order_refl assms(3), of addresses topics L logs_of "[]" w, unfolded append_Nil] assms(4)
    leD [OF assms(3)]
  by (simp add: fetch_logs_chunked_def)

definition block_numbers :: "LogFilter \<Rightarrow> unit \<Rightarrow> (nat list, ProviderError) outcome \<times> unit" where
  \<comment> \<open>a chain on which every block has its number as its only log\<close>
  "block_numbers flt w = (Ok (logs_between (\<lambda>n. [n]) (the (lf_from_block flt)) (the (lf_to_block flt))), w)"

theorem log_chunks_cover_range_witness:
  "fetch_logs_chunked block_numbers 2 3 7 None None () = Some (Ok [3, 4, 5, 6, 7], ())"
proof -
  have "answers (\<lambda>n. [n]) flt (fst (block_numbers flt w))" for flt w
    by (simp add: answers_def block_numbers_def split: option.splits)
  then obtain r w' where "fetch_logs_chunked block_numbers 2 3 7 None None () = Some (r, w')"
    "case r of Ok logs \<Rightarrow> logs = logs_between (\<lambda>n. [n]) 3 7
     | _ \<Rightarrow> \<exists>flt w1. permitted 2 3 7 None None flt \<and> block_numbers flt w1 = (r, w')"
    using log_chunks_cover_range [of 2 7 3 None None "\<lambda>n. [n]" block_numbers "()"] by (auto simp: power_numeral)
  moreover have "logs_between (\<lambda>n. [n]) 3 7 = [3, 4, 5, 6, 7 :: nat]" by (simp add: logs_between_def upt_rec)
  ultimately show ?thesis by (cases r) (auto simp: block_numbers_def)
qed

lemma le_u_max: "(c :: 'a::len word) \<le> u_max"
  by (simp add: u_max_def)

lemma chunk_loop_diverges:
  fixes logs_of :: "LogFilter \<Rightarrow> 'w \<Rightarrow> ('l list, ProviderError) outcome \<times> 'w"
  assumes "\<And>flt w. \<exists>logs w'. logs_of flt w = (Ok logs, w')"
  shows "chunk_loop logs_of 1 addresses topics u_max c acc w = None"
proof -
  have "chunk_loop lo m a tp t c acc w = Some y \<Longrightarrow>
      m = 1 \<longrightarrow> t = u_max \<longrightarrow> (\<forall>flt w. \<exists>logs w'. lo flt w = (Ok logs, w')) \<longrightarrow> False"
    for lo :: "LogFilter \<Rightarrow> 'w \<Rightarrow> ('l list, ProviderError) outcome \<times> 'w" and m a tp t c acc w y
    by (erule chunk_loop.raw_induct [rotated],
        auto simp: le_u_max log_filter_new_def min_absorb1 split: prod.splits outcome.splits)
      (metis Pair_inject outcome.distinct)+
  from this [of logs_of 1 addresses topics u_max c acc w] show ?thesis
    using assms by (cases "chunk_loop logs_of 1 addresses topics u_max c acc w") blast+
qed

text \<open>Outside that room the arithmetic on block numbers breaks the fetcher: with the largest block number as the end of the
  range and chunks of one block it never returns, however the node answers as long as it does; and with the largest chunk
  size every range that starts at block 2 or later is refused as invalid without a request.\<close>

theorem log_chunks_break:
  "((\<forall>flt w. \<exists>logs w'. logs_of flt w = (Ok logs, w')) \<longrightarrow>
      fetch_logs_chunked logs_of 1 from_block u_max addresses topics w = None) \<and>
   (2 \<le> from_block \<and> from_block \<le> to_block \<longrightarrow>
      fetch_logs_chunked logs_of u_max from_block to_block addresses topics w
        = Some (Err (InvalidBlockRange from_block (from_block - 2)), w))"
proof (intro conjI impI)
  assume "\<forall>flt w. \<exists>logs w'. logs_of flt w = (Ok logs, w')"
  moreover have "\<not> u_max < from_block" using le_u_max [of from_block] by (simp add: not_less)
  ultimately show "fetch_logs_chunked logs_of 1 from_block u_max addresses topics w = None"
    using chunk_loop_diverges [of logs_of] by (simp add: fetch_logs_chunked_def)
next
  assume b: "2 \<le> from_block \<and> from_block \<le> to_block"
  then have "from_block - 2 < from_block" by (simp add: word_less_nat_alt word_le_nat_alt unat_sub)
  moreover from this have "from_block - 2 \<le> to_block" using b by (blast intro: order_trans less_imp_le)
  ultimately show "fetch_logs_chunked logs_of u_max from_block to_block addresses topics w
      = Some (Err (InvalidBlockRange from_block (from_block - 2)), w)"
    using b leD [of from_block to_block]
    by (simp add: fetch_logs_chunked_def chunk_loop.simps [of logs_of] log_filter_new_def u_max_def min_absorb1)
qed

theorem log_chunks_break_witness:
  "fetch_logs_chunked block_numbers 1 0 u_max None None () = None \<and>
   fetch_logs_chunked block_numbers u_max 2 5 None None () = Some (Err (InvalidBlockRange 2 0), ())"
  using log_chunks_break [of block_numbers 0 None None "()" 0] log_chunks_break [of block_numbers 2 None None "()" 5]
  by (simp add: block_numbers_def)

end
