(* ===== verification/Execution_Calldata.thy ===== *)
theory Execution_Calldata
  imports Strategy_Gates Abi_Values
begin

text \<open>
  The calldata builder of the main crate: \<open>src/rust/src/execution.rs\<close>. It validates typed plans, turns them into values of the
  third-party ABI library and has that library encode them; the library is the parameter \<open>A\<close> and the hash function the
  parameter \<open>keccak\<close>. The theory states the ABI encoding of the contracts as a specification over those values, shows that the
  hand-written encoders of the Stylus crate (\<open>Executor_Abi\<close>) implement it for every entry point, and that the builder of
  the main crate, for the same plan, leaves out the offset that stands before a dynamic tuple.
\<close>

section \<open>Data\<close>

datatype FlashProtocol = FpAave | FpMorpho | FpERC3156 | FpUniV3

primrec flash_as_u8 :: "FlashProtocol \<Rightarrow> u8" where
  "flash_as_u8 FpAave = 0"
| "flash_as_u8 FpMorpho = 1"
| "flash_as_u8 FpERC3156 = 2"
| "flash_as_u8 FpUniV3 = 3"

text \<open>Names are compared after lower-casing; text is ASCII, where the Unicode folding of the source is the one below.\<close>

definition flash_from_str :: "string \<Rightarrow> (FlashProtocol, string) outcome" where
  "flash_from_str s =
     (let t = map to_ascii_lower s
      in if t = ''aave'' \<or> t = ''aavev3'' then Ok FpAave
         else if t = ''morpho'' \<or> t = ''morphoblue'' then Ok FpMorpho
         else if t = ''erc3156'' then Ok FpERC3156
         else if t = ''univ3'' \<or> t = ''uniswapv3'' then Ok FpUniV3
         else Err (''unknown flash protocol: '' @ s))"

datatype ExecDexKind =
    ExUniV2 | ExUniV3 | ExUniV4 | ExCurve | ExReserved | ExAggregatorV6
  | ExMorphoBlue | ExAlgebra | ExSolidly | ExCurveNG | ExBalancerV2 | ExMaverickV2
  | ExDodoPmm | ExFluidDex | ExBalancerV3 | ExKyberElastic | ExLFJLiquidityBook | ExGMXV2
  | ExWombat | ExBebop | ExHashflow | ExWooFi | ExOKXDex | ExEnso
  | ExSquid | ExLIFI | ExRango | ExRubic | ExNative

primrec exec_dex_as_u8 :: "ExecDexKind \<Rightarrow> u8" where
  "exec_dex_as_u8 ExUniV2 = 0"
| "exec_dex_as_u8 ExUniV3 = 1"
| "exec_dex_as_u8 ExUniV4 = 2"
| "exec_dex_as_u8 ExCurve = 3"
| "exec_dex_as_u8 ExReserved = 4"
| "exec_dex_as_u8 ExAggregatorV6 = 5"
| "exec_dex_as_u8 ExMorphoBlue = 6"
| "exec_dex_as_u8 ExAlgebra = 7"
| "exec_dex_as_u8 ExSolidly = 8"
| "exec_dex_as_u8 ExCurveNG = 9"
| "exec_dex_as_u8 ExBalancerV2 = 10"
| "exec_dex_as_u8 ExMaverickV2 = 11"
| "exec_dex_as_u8 ExDodoPmm = 12"
| "exec_dex_as_u8 ExFluidDex = 13"
| "exec_dex_as_u8 ExBalancerV3 = 14"
| "exec_dex_as_u8 ExKyberElastic = 15"
| "exec_dex_as_u8 ExLFJLiquidityBook = 16"
| "exec_dex_as_u8 ExGMXV2 = 17"
| "exec_dex_as_u8 ExWombat = 18"
| "exec_dex_as_u8 ExBebop = 19"
| "exec_dex_as_u8 ExHashflow = 20"
| "exec_dex_as_u8 ExWooFi = 21"
| "exec_dex_as_u8 ExOKXDex = 22"
| "exec_dex_as_u8 ExEnso = 23"
| "exec_dex_as_u8 ExSquid = 24"
| "exec_dex_as_u8 ExLIFI = 25"
| "exec_dex_as_u8 ExRango = 26"
| "exec_dex_as_u8 ExRubic = 27"
| "exec_dex_as_u8 ExNative = 28"

definition exec_dex_from_str :: "string \<Rightarrow> (ExecDexKind, string) outcome" where
  "exec_dex_from_str s =
     (let t = map to_ascii_lower s
      in if t = ''univ2'' \<or> t = ''uniswapv2'' then Ok ExUniV2
         else if t = ''univ3'' \<or> t = ''uniswapv3'' then Ok ExUniV3
         else if t = ''univ4'' \<or> t = ''uniswapv4'' then Ok ExUniV4
         else if t = ''curve'' then Ok ExCurve
         else if t = ''curveng'' then Ok ExCurveNG
         else if t = ''solidly'' \<or> t = ''aerodrome'' then Ok ExSolidly
         else if t = ''algebra'' then Ok ExAlgebra
         else if t = ''maverick'' \<or> t = ''maverickv2'' then Ok ExMaverickV2
         else if t = ''dodo'' \<or> t = ''dodopmm'' then Ok ExDodoPmm
         else if t = ''fluid'' \<or> t = ''fluiddex'' then Ok ExFluidDex
         else if t = ''kyber'' \<or> t = ''kyberelastic'' then Ok ExKyberElastic
         else if t = ''lfj'' \<or> t = ''lfjliquiditybook'' then Ok ExLFJLiquidityBook
         else if t = ''gmx'' \<or> t = ''gmxv2'' then Ok ExGMXV2
         else if t = ''native'' then Ok ExNative
         else if t = ''reserved'' then Ok ExReserved
         else if t = ''aggregatorv6'' then Ok ExAggregatorV6
         else if t = ''morpho'' \<or> t = ''morphoblue'' then Ok ExMorphoBlue
         else if t = ''balancerv2'' then Ok ExBalancerV2
         else if t = ''balancerv3'' then Ok ExBalancerV3
         else if t = ''wombat'' then Ok ExWombat
         else if t = ''bebop'' then Ok ExBebop
         else if t = ''hashflow'' then Ok ExHashflow
         else if t = ''woofi'' then Ok ExWooFi
         else if t = ''okxdex'' then Ok ExOKXDex
         else if t = ''enso'' then Ok ExEnso
         else if t = ''squid'' then Ok ExSquid
         else if t = ''lifi'' then Ok ExLIFI
         else if t = ''rango'' then Ok ExRango
         else if t = ''rubic'' then Ok ExRubic
         else Err (''unknown dex kind: '' @ s))"

record ExecSwapStep =
  xs_dex_kind :: ExecDexKind
  xs_router :: u160
  xs_call_data :: "u8 list"
  xs_step_token_in :: u160
  xs_step_token_out :: u160
  xs_step_amount_in :: u256
  xs_step_amount_out_min :: u256

record ExecNativeArbParams =
  xn_flash_lender :: u160
  xn_flash_protocol :: FlashProtocol
  xn_flash_token :: u160
  xn_flash_amount :: u256
  xn_swaps :: "ExecSwapStep list"
  xn_min_profit :: u256
  xn_deadline :: u256

record ExecMatchParams =
  xm_cow_settlement_calldata :: "u8 list"
  xm_uniswapx_batch_calldata :: "u8 list"
  xm_expected_token_inflows :: "u160 list"
  xm_expected_token_inflow_min :: "u256 list"
  xm_flash_lender :: u160
  xm_flash_protocol :: FlashProtocol
  xm_flash_token :: u160
  xm_flash_amount :: u256
  xm_min_profit :: u256
  xm_deadline :: u256
  xm_settlement_funding_token :: u160
  xm_settlement_funding_max :: u256

record ExecComposeParams =
  xc_across_fill_calldata :: "u8 list"
  xc_arb_swaps :: "ExecSwapStep list"
  xc_cow_fill_calldata :: "u8 list"
  xc_uniswapx_rebalance_calldata :: "u8 list"
  xc_flash_lender :: u160
  xc_flash_protocol :: FlashProtocol
  xc_flash_token :: u160
  xc_flash_amount :: u256
  xc_min_profit :: u256
  xc_deadline :: u256
  xc_settlement_funding_token :: u160
  xc_settlement_funding_max :: u256

datatype ExecutionError = EmptySwapChain string | LengthMismatch string nat string nat

section \<open>Validation and values\<close>

definition step_to_alloy :: "ExecSwapStep \<Rightarrow> DynSolValue" where
  "step_to_alloy step = S_Tuple
     [S_Uint (ucast (exec_dex_as_u8 (xs_dex_kind step))) 8, S_Address (xs_router step), S_Bytes (xs_call_data step),
      S_Address (xs_step_token_in step), S_Address (xs_step_token_out step), S_Uint (xs_step_amount_in step) 256,
      S_Uint (xs_step_amount_out_min step) 256]"

definition native_arb_validate :: "ExecNativeArbParams \<Rightarrow> (unit, ExecutionError) outcome" where
  "native_arb_validate p = (if xn_swaps p = [] then Err (EmptySwapChain ''native arb'') else Ok ())"

definition native_arb_to_alloy :: "ExecNativeArbParams \<Rightarrow> DynSolValue" where
  "native_arb_to_alloy p = S_Tuple
     [S_Address (xn_flash_lender p), S_Uint (ucast (flash_as_u8 (xn_flash_protocol p))) 8, S_Address (xn_flash_token p),
      S_Uint (xn_flash_amount p) 256, S_Array (map step_to_alloy (xn_swaps p)), S_Uint (xn_min_profit p) 256,
      S_Uint (xn_deadline p) 256]"

definition match_validate :: "ExecMatchParams \<Rightarrow> (unit, ExecutionError) outcome" where
  "match_validate p =
     (if length (xm_expected_token_inflows p) \<noteq> length (xm_expected_token_inflow_min p) then
        Err (LengthMismatch ''expected_token_inflows'' (length (xm_expected_token_inflows p))
          ''expected_token_inflow_min'' (length (xm_expected_token_inflow_min p)))
      else Ok ())"

definition match_to_alloy :: "ExecMatchParams \<Rightarrow> DynSolValue" where
  "match_to_alloy p = S_Tuple
     [S_Bytes (xm_cow_settlement_calldata p), S_Bytes (xm_uniswapx_batch_calldata p),
      S_Array (map S_Address (xm_expected_token_inflows p)),
      S_Array (map (\<lambda>amount. S_Uint amount 256) (xm_expected_token_inflow_min p)),
      S_Address (xm_flash_lender p), S_Uint (ucast (flash_as_u8 (xm_flash_protocol p))) 8, S_Address (xm_flash_token p),
      S_Uint (xm_flash_amount p) 256, S_Uint (xm_min_profit p) 256, S_Uint (xm_deadline p) 256,
      S_Address (xm_settlement_funding_token p), S_Uint (xm_settlement_funding_max p) 256]"

definition compose_validate :: "ExecComposeParams \<Rightarrow> (unit, ExecutionError) outcome" where
  "compose_validate p = (if xc_arb_swaps p = [] then Err (EmptySwapChain ''four-leg composition'') else Ok ())"

definition compose_to_alloy :: "ExecComposeParams \<Rightarrow> DynSolValue" where
  "compose_to_alloy p = S_Tuple
     [S_Bytes (xc_across_fill_calldata p), S_Array (map step_to_alloy (xc_arb_swaps p)), S_Bytes (xc_cow_fill_calldata p),
      S_Bytes (xc_uniswapx_rebalance_calldata p), S_Address (xc_flash_lender p),
      S_Uint (ucast (flash_as_u8 (xc_flash_protocol p))) 8, S_Address (xc_flash_token p), S_Uint (xc_flash_amount p) 256,
      S_Uint (xc_min_profit p) 256, S_Uint (xc_deadline p) 256, S_Address (xc_settlement_funding_token p),
      S_Uint (xc_settlement_funding_max p) 256]"

section \<open>Calldata\<close>

definition EXECUTE_NATIVE_ARB_SIGNATURE :: string where
  "EXECUTE_NATIVE_ARB_SIGNATURE =
     ''executeNativeArb((address,uint8,address,uint256,(uint8,address,bytes,address,address,uint256,uint256)[],uint256,uint256))''"

definition MATCH_INTERNAL_SIGNATURE :: string where
  "MATCH_INTERNAL_SIGNATURE =
     ''matchInternal((bytes,bytes,address[],uint256[],address,uint8,address,uint256,uint256,uint256,address,uint256))''"

definition COMPOSE_FOUR_LEG_SIGNATURE :: string where
  "COMPOSE_FOUR_LEG_SIGNATURE =
     ''composeFourLeg((bytes,(uint8,address,bytes,address,address,uint256,uint256)[],bytes,bytes,address,uint8,address,uint256,uint256,uint256,address,uint256))''"

definition function_selector :: "(u8 list \<Rightarrow> u256) \<Rightarrow> string \<Rightarrow> u8 list" where
  "function_selector keccak signature = take 4 (to_be_bytes (keccak (map of_char signature)))"

definition encode_calldata :: "alloy \<Rightarrow> (u8 list \<Rightarrow> u256) \<Rightarrow> string \<Rightarrow> DynSolValue \<Rightarrow> u8 list" where
  "encode_calldata A keccak signature v = function_selector keccak signature @ a_encode A v"

definition encode_native_arb_calldata ::
    "alloy \<Rightarrow> (u8 list \<Rightarrow> u256) \<Rightarrow> ExecNativeArbParams \<Rightarrow> (u8 list, ExecutionError) outcome" where
  "encode_native_arb_calldata A keccak p =
     obind (native_arb_validate p) (\<lambda>_. Ok (encode_calldata A keccak EXECUTE_NATIVE_ARB_SIGNATURE (native_arb_to_alloy p)))"

definition exec_match_internal_calldata ::
    "alloy \<Rightarrow> (u8 list \<Rightarrow> u256) \<Rightarrow> ExecMatchParams \<Rightarrow> (u8 list, ExecutionError) outcome" where
  "exec_match_internal_calldata A keccak p =
     obind (match_validate p) (\<lambda>_. Ok (encode_calldata A keccak MATCH_INTERNAL_SIGNATURE (match_to_alloy p)))"

definition exec_compose_four_leg_calldata ::
    "alloy \<Rightarrow> (u8 list \<Rightarrow> u256) \<Rightarrow> ExecComposeParams \<Rightarrow> (u8 list, ExecutionError) outcome" where
  "exec_compose_four_leg_calldata A keccak p =
     obind (compose_validate p) (\<lambda>_. Ok (encode_calldata A keccak COMPOSE_FOUR_LEG_SIGNATURE (compose_to_alloy p)))"

section \<open>The ABI encoding, as a specification\<close>

fun dynamic_value :: "DynSolValue \<Rightarrow> bool" where
  "dynamic_value (S_Bytes bs) \<longleftrightarrow> True"
| "dynamic_value (S_String s) \<longleftrightarrow> True"
| "dynamic_value (S_Array vs) \<longleftrightarrow> True"
| "dynamic_value (S_FixedArray vs) \<longleftrightarrow> list_ex dynamic_value vs"
| "dynamic_value (S_Tuple vs) \<longleftrightarrow> list_ex dynamic_value vs"
| "dynamic_value (S_CustomStruct vs) \<longleftrightarrow> list_ex dynamic_value vs"
| "dynamic_value v \<longleftrightarrow> False"

fun seq_heads :: "(bool \<times> u8 list) list \<Rightarrow> nat \<Rightarrow> u8 list" where
  \<comment> \<open>a static member stands in the head itself, a dynamic one is represented by the offset of its tail\<close>
  "seq_heads [] offset = []"
| "seq_heads ((dyn, body) # rest) offset =
     (if dyn then push_usize_word offset @ seq_heads rest (offset + length body) else body @ seq_heads rest offset)"

fun head_size :: "(bool \<times> u8 list) list \<Rightarrow> nat" where
  "head_size [] = 0"
| "head_size ((dyn, body) # rest) = (if dyn then 32 else length body) + head_size rest"

definition seq_encoding :: "(bool \<times> u8 list) list \<Rightarrow> u8 list" where
  "seq_encoding ms = seq_heads ms (head_size ms) @ concat (map snd (filter fst ms))"

fun value_encoding :: "DynSolValue \<Rightarrow> u8 list" where
  "value_encoding (S_Address a) = push_address_word a"
| "value_encoding (S_Bool b) = push_bool_word b"
| "value_encoding (S_Uint n bits) = push_u256_word n"
| "value_encoding (S_Int n bits) = push_u256_word n"
| "value_encoding (S_FixedBytes bs n) = pad32 (take n bs)"
| "value_encoding (S_Bytes bs) = push_bytes_tail bs"
| "value_encoding (S_String s) = push_bytes_tail (map of_char s)"
| "value_encoding (S_Array vs) =
     push_usize_word (length vs) @ seq_encoding (map (\<lambda>v. (dynamic_value v, value_encoding v)) vs)"
| "value_encoding (S_FixedArray vs) = seq_encoding (map (\<lambda>v. (dynamic_value v, value_encoding v)) vs)"
| "value_encoding (S_Tuple vs) = seq_encoding (map (\<lambda>v. (dynamic_value v, value_encoding v)) vs)"
| "value_encoding (S_CustomStruct vs) = seq_encoding (map (\<lambda>v. (dynamic_value v, value_encoding v)) vs)"
| "value_encoding (S_Function f) = pad32 f"

definition params_encoding :: "DynSolValue list \<Rightarrow> u8 list" where
  \<comment> \<open>the parameters of a function\<close>
  "params_encoding vs = seq_encoding (map (\<lambda>v. (dynamic_value v, value_encoding v)) vs)"

section \<open>The parameters of the executor contract\<close>

definition step_value :: "SwapStep \<Rightarrow> DynSolValue" where
  "step_value step = S_Tuple
     [S_Uint (ucast (ss_dex_kind step)) 8, S_Address (ss_router step), S_Bytes (ss_call_data step),
      S_Address (ss_token_in step), S_Address (ss_token_out step), S_Uint (ss_amount_in step) 256,
      S_Uint (ss_amount_out_min step) 256]"

primrec call_selector :: "executor_call \<Rightarrow> u8 list" where
  "call_selector (NativeArb p) = EXECUTE_NATIVE_ARB"
| "call_selector (OwnedSwaps p) = EXECUTE_OWNED_SWAPS"
| "call_selector (MatchInternal p) = MATCH_INTERNAL"
| "call_selector (ComposeFourLeg p) = COMPOSE_FOUR_LEG"
| "call_selector (UniswapXFill reactor execute_calldata callback_data) = EXECUTE_UNISWAPX_FILL"
| "call_selector (CowRouterStart p) = TRIGGER_COW_FLASH_LOAN_ROUTER"

primrec call_params :: "executor_call \<Rightarrow> DynSolValue list" where
  "call_params (NativeArb p) = [S_Tuple
     [S_Address (na_flash_lender p), S_Uint (ucast (na_flash_protocol p)) 8, S_Address (na_flash_token p),
      S_Uint (na_flash_amount p) 256, S_Array (map step_value (na_swaps p)), S_Uint (na_min_profit p) 256,
      S_Uint (na_deadline p) 256]]"
| "call_params (OwnedSwaps p) = [S_Tuple
     [S_Array (map step_value (os_swaps p)), S_Address (os_profit_token p), S_Uint (os_min_profit p) 256,
      S_Uint (os_deadline p) 256]]"
| "call_params (MatchInternal p) = [S_Tuple
     [S_Bytes (mp_cow_settlement_calldata p), S_Bytes (mp_uniswapx_batch_calldata p),
      S_Array (map S_Address (mp_expected_token_inflows p)),
      S_Array (map (\<lambda>v. S_Uint v 256) (mp_expected_token_inflow_min p)),
      S_Address (mp_flash_lender p), S_Uint (ucast (mp_flash_protocol p)) 8, S_Address (mp_flash_token p),
      S_Uint (mp_flash_amount p) 256, S_Uint (mp_min_profit p) 256, S_Uint (mp_deadline p) 256]]"
| "call_params (ComposeFourLeg p) = [S_Tuple
     [S_Bytes (co_across_fill_calldata p), S_Array (map step_value (co_arb_swaps p)), S_Bytes (co_cow_fill_calldata p),
      S_Bytes (co_uniswapx_rebalance_calldata p), S_Address (co_flash_lender p), S_Uint (ucast (co_flash_protocol p)) 8,
      S_Address (co_flash_token p), S_Uint (co_flash_amount p) 256, S_Uint (co_min_profit p) 256,
      S_Uint (co_deadline p) 256]]"
| "call_params (UniswapXFill reactor execute_calldata callback_data) =
     [S_Address reactor, S_Bytes execute_calldata, S_Bytes callback_data]"
| "call_params (CowRouterStart p) = [S_Tuple
     [S_FixedBytes (to_be_bytes (cw_expected_root p)) 32, S_Uint (cw_total_rounds p) 256,
      S_Bytes (cw_initial_loan_calldata p), S_Uint (cw_deadline p) 256]]"

section \<open>Both encoders against the specification\<close>

lemma seq_all_dynamic:
  "seq_heads (map (\<lambda>v. (True, f v)) vs) offset = step_offsets (map f vs) offset"
  "head_size (map (\<lambda>v. (True, f v)) vs) = 32 * length vs"
  "filter fst (map (\<lambda>v. (True, f v)) vs) = map (\<lambda>v. (True, f v)) vs"
  by (induction vs arbitrary: offset) simp_all

lemma seq_all_static:
  "seq_encoding (map (\<lambda>v. (False, f v)) vs) = concat (map f vs)"
proof -
  have "seq_heads (map (\<lambda>v. (False, f v)) vs) k = concat (map f vs)" for k by (induction vs) simp_all
  moreover have "filter fst (map (\<lambda>v. (False, f v)) vs) = []" by (induction vs) simp_all
  ultimately show ?thesis by (simp add: seq_encoding_def)
qed

lemma steps_encoding:
  assumes "\<And>v. dynamic_value (g v)"
  shows "value_encoding (S_Array (map g vs)) =
    push_usize_word (length vs) @ step_offsets (map (\<lambda>v. value_encoding (g v)) vs) (length vs * 32)
      @ concat (map (\<lambda>v. value_encoding (g v)) vs)"
  using assms by (simp add: seq_encoding_def comp_def seq_all_dynamic mult.commute)

lemma words_encoding:
  assumes "\<And>v. \<not> dynamic_value (g v)"
  shows "value_encoding (S_Array (map g vs)) = push_usize_word (length vs) @ concat (map (\<lambda>v. value_encoding (g v)) vs)"
  using assms by (simp add: comp_def seq_all_static)

lemma step_encoding: "encode_swap_step_tuple step = value_encoding (step_value step)"
  by (simp add: encode_swap_step_tuple_def step_value_def seq_encoding_def push_u8_word_u256 encode_bytes_tail_def)

lemma swap_steps_encoding: "encode_swap_steps_array swaps = value_encoding (S_Array (map step_value swaps))"
proof -
  have "dynamic_value (step_value v)" for v by (simp add: step_value_def)
  then show ?thesis by (simp add: encode_swap_steps_array_def Let_def step_encoding [abs_def] steps_encoding
      del: value_encoding.simps)
qed

lemma address_array_encoding: "encode_address_array vs = value_encoding (S_Array (map S_Address vs))"
  by (subst words_encoding) (simp_all add: encode_address_array_def)

lemma u256_array_encoding: "encode_u256_array vs = value_encoding (S_Array (map (\<lambda>v. S_Uint v 256) vs))"
  by (subst words_encoding) (simp_all add: encode_u256_array_def)

lemmas array_encodings = swap_steps_encoding address_array_encoding u256_array_encoding

lemma one_tuple: "list_ex dynamic_value vs \<Longrightarrow>
    params_encoding [S_Tuple vs] = push_usize_word 32 @ params_encoding vs"
  by (simp add: params_encoding_def seq_encoding_def)

lemma tail_size: "length (push_bytes_tail bs) = xa_encoded_bytes_len (length bs)"
  by (simp add: push_bytes_tail_def xa_encoded_bytes_len_def)

lemma executor_abi_standard: "calldata_of call = call_selector call @ params_encoding (call_params call)"
proof (cases call)
  case (NativeArb p)
  then show ?thesis
    by (simp add: call_defs encode_native_arb_tuple_def one_tuple)
      (simp add: params_encoding_def seq_encoding_def push_u8_word_u256 array_encodings del: value_encoding.simps(8))
next
  case (OwnedSwaps p)
  then show ?thesis
    by (simp add: call_defs encode_owned_swaps_tuple_def one_tuple)
      (simp add: params_encoding_def seq_encoding_def array_encodings del: value_encoding.simps(8))
next
  case (MatchInternal p)
  then show ?thesis
    by (simp add: call_defs encode_match_tuple_def Let_def one_tuple)
      (simp add: params_encoding_def seq_encoding_def push_u8_word_u256 array_encodings encode_bytes_tail_def add.assoc
        del: value_encoding.simps(8))
next
  case (ComposeFourLeg p)
  then show ?thesis
    by (simp add: call_defs encode_compose_tuple_def Let_def one_tuple)
      (simp add: params_encoding_def seq_encoding_def push_u8_word_u256 array_encodings encode_bytes_tail_def add.assoc
        del: value_encoding.simps(8))
next
  case (UniswapXFill reactor execute_calldata callback_data)
  then show ?thesis
    by (simp add: call_defs Let_def params_encoding_def seq_encoding_def tail_size [symmetric])
next
  case (CowRouterStart p)
  then show ?thesis
    by (simp add: call_defs encode_cow_flash_loan_router_start_tuple_def one_tuple)
      (simp add: params_encoding_def seq_encoding_def push_bytes32_word_def encode_bytes_tail_def pad32_def)
qed

text \<open>
  C18. The hand-written encoders implement the ABI: for every entry point of the executor contract, whatever the
  parameters, the calldata is the selector followed by the ABI encoding of the parameters of that entry point, with all
  offsets, lengths and paddings.\<close>

theorem executor_abi_is_standard: "calldata_of call = call_selector call @ params_encoding (call_params call)"
  by (rule executor_abi_standard)

section \<open>The builder of the main crate\<close>

definition encodes_params :: "alloy \<Rightarrow> bool" where
  \<comment> \<open>what the third-party library documents: a tuple is encoded as the parameters it holds\<close>
  "encodes_params A \<longleftrightarrow> (\<forall>vs. a_encode A (S_Tuple vs) = params_encoding vs)"

definition stylus_step :: "ExecSwapStep \<Rightarrow> SwapStep" where
  \<comment> \<open>the same step as data of the Stylus crate\<close>
  "stylus_step step =
     \<lparr>ss_dex_kind = exec_dex_as_u8 (xs_dex_kind step), ss_router = xs_router step, ss_call_data = xs_call_data step,
      ss_token_in = xs_step_token_in step, ss_token_out = xs_step_token_out step, ss_amount_in = xs_step_amount_in step,
      ss_amount_out_min = xs_step_amount_out_min step\<rparr>"

definition stylus_native_arb :: "ExecNativeArbParams \<Rightarrow> NativeArbParams" where
  "stylus_native_arb p =
     \<lparr>na_flash_lender = xn_flash_lender p, na_flash_protocol = flash_as_u8 (xn_flash_protocol p),
      na_flash_token = xn_flash_token p, na_flash_amount = xn_flash_amount p, na_swaps = map stylus_step (xn_swaps p),
      na_min_profit = xn_min_profit p, na_deadline = xn_deadline p\<rparr>"

lemma step_values_agree: "step_value (stylus_step step) = step_to_alloy step"
  by (simp add: step_value_def stylus_step_def step_to_alloy_def)

lemma native_arb_values_agree: "call_params (NativeArb (stylus_native_arb p)) = [native_arb_to_alloy p]"
  by (simp add: stylus_native_arb_def native_arb_to_alloy_def step_values_agree)

lemma native_arb_offset:
  "params_encoding [native_arb_to_alloy p] = push_usize_word 32 @ value_encoding (native_arb_to_alloy p)"
  unfolding native_arb_to_alloy_def by (subst one_tuple) (simp_all add: params_encoding_def)

text \<open>
  C38. The two crates disagree on the calldata of a native arbitrage: for the same plan with at least one swap, and the same
  selector, the calldata of the Stylus crate has after the selector the offset of the parameter tuple, which the entry
  point's signature demands because the tuple is dynamic; the calldata of the main crate is the same bytes without that
  word. A plan without swaps is refused.\<close>

theorem native_arb_offset_missing:
  assumes "encodes_params A" "function_selector keccak EXECUTE_NATIVE_ARB_SIGNATURE = EXECUTE_NATIVE_ARB"
  shows "if xn_swaps p = [] then encode_native_arb_calldata A keccak p = Err (EmptySwapChain ''native arb'')
    else \<exists>body. encode_native_arb_calldata A keccak p = Ok (EXECUTE_NATIVE_ARB @ body) \<and>
      encode_execute_native_arb_calldata (stylus_native_arb p) = EXECUTE_NATIVE_ARB @ push_usize_word 32 @ body"
proof -
  have "a_encode A (native_arb_to_alloy p) = value_encoding (native_arb_to_alloy p)"
    using assms(1) by (simp add: encodes_params_def native_arb_to_alloy_def params_encoding_def)
  moreover have "encode_execute_native_arb_calldata (stylus_native_arb p)
      = EXECUTE_NATIVE_ARB @ push_usize_word 32 @ value_encoding (native_arb_to_alloy p)"
    using executor_abi_standard [of "NativeArb (stylus_native_arb p)", unfolded native_arb_values_agree] native_arb_offset
    by simp
  ultimately show ?thesis
    by (simp add: encode_native_arb_calldata_def native_arb_validate_def encode_calldata_def assms(2))
qed

definition standard_alloy :: alloy where
  "standard_alloy = sample_alloy\<lparr>a_encode := \<lambda>v. case v of S_Tuple vs \<Rightarrow> params_encoding vs | _ \<Rightarrow> params_encoding [v]\<rparr>"

definition sample_keccak :: "u8 list \<Rightarrow> u256" where
  "sample_keccak bytes = push_bit 224 0xf6f6add1"

definition sample_arb :: ExecNativeArbParams where
  "sample_arb = \<lparr>xn_flash_lender = 1, xn_flash_protocol = FpMorpho, xn_flash_token = 2, xn_flash_amount = 1000,
     xn_swaps = [\<lparr>xs_dex_kind = ExUniV3, xs_router = 3, xs_call_data = [0xaa], xs_step_token_in = 4,
       xs_step_token_out = 5, xs_step_amount_in = 6, xs_step_amount_out_min = 7\<rparr>], xn_min_profit = 8, xn_deadline = 9\<rparr>"

theorem native_arb_offset_missing_witness:
  "\<exists>body. encode_native_arb_calldata standard_alloy sample_keccak sample_arb = Ok (EXECUTE_NATIVE_ARB @ body) \<and>
     encode_execute_native_arb_calldata (stylus_native_arb sample_arb) = EXECUTE_NATIVE_ARB @ push_usize_word 32 @ body"
proof -
  have "encodes_params standard_alloy" by (simp add: encodes_params_def standard_alloy_def)
  moreover have "take 4 (to_be_bytes (push_bit 224 0xf6f6add1 :: u256)) = [0xf6, 0xf6, 0xad, 0xd1]" by code_simp
  then have "function_selector sample_keccak EXECUTE_NATIVE_ARB_SIGNATURE = EXECUTE_NATIVE_ARB"
    by (simp add: function_selector_def sample_keccak_def EXECUTE_NATIVE_ARB_def)
  ultimately show ?thesis
    using native_arb_offset_missing [of standard_alloy sample_keccak sample_arb] by (simp add: sample_arb_def)
qed

end
