(* ===== verification/Stylus_Adapters.thy ===== *)
theory Stylus_Adapters
  imports Execution_Calldata Stylus_Ids Runtime_Adapter
begin

text \<open>
  Three contracts without storage: \<open>src/stylus/executor_abi_adapter\<close> (calldata from flat arrays), \<open>src/stylus/lp_transfer_adapter\<close>
  (moves liquidity positions and reports a code) and \<open>src/stylus/runtime_adapter\<close> (codes of the runtime proofs). The EVM host is a
  parameter: the size of the code at an address and one raw call, which returns at most 32 bytes or the revert data. The theory
  shows that the flat arrays lose nothing, that a move reports success exactly when the position was moved, and that every
  call it makes is the ABI encoding of its arguments.
\<close>

section \<open>Calldata from flat arrays\<close>

record SwapArrays =
  sa_dex_kinds :: "u8 list"
  sa_routers :: "u160 list"
  sa_call_datas :: "u8 list list"
  sa_token_ins :: "u160 list"
  sa_token_outs :: "u160 list"
  sa_amounts_in :: "u256 list"
  sa_amount_out_mins :: "u256 list"

datatype AdapterBuildError = SwapArrayLengthMismatch | TokenInflowArrayLengthMismatch

definition collect_swap_steps :: "SwapArrays \<Rightarrow> (SwapStep list, AdapterBuildError) outcome" where
  "collect_swap_steps inp =
     (let len = length (sa_dex_kinds inp)
      in if length (sa_routers inp) \<noteq> len \<or> length (sa_call_datas inp) \<noteq> len \<or> length (sa_token_ins inp) \<noteq> len
            \<or> length (sa_token_outs inp) \<noteq> len \<or> length (sa_amounts_in inp) \<noteq> len \<or> length (sa_amount_out_mins inp) \<noteq> len
         then Err SwapArrayLengthMismatch
         else Ok (map (\<lambda>index.
           \<lparr>ss_dex_kind = sa_dex_kinds inp ! index, ss_router = sa_routers inp ! index,
            ss_call_data = sa_call_datas inp ! index, ss_token_in = sa_token_ins inp ! index,
            ss_token_out = sa_token_outs inp ! index, ss_amount_in = sa_amounts_in inp ! index,
            ss_amount_out_min = sa_amount_out_mins inp ! index\<rparr>) [0 ..< len]))"

definition encode_execute_native_arb ::
    "u160 \<Rightarrow> u8 \<Rightarrow> u160 \<Rightarrow> u256 \<Rightarrow> SwapArrays \<Rightarrow> u256 \<Rightarrow> u256 \<Rightarrow> (u8 list, AdapterBuildError) outcome" where
  "encode_execute_native_arb flash_lender flash_protocol flash_token flash_amount arrays min_profit deadline =
     obind (collect_swap_steps arrays) (\<lambda>swaps.
       Ok (encode_execute_native_arb_calldata
         \<lparr>na_flash_lender = flash_lender, na_flash_protocol = flash_protocol, na_flash_token = flash_token,
          na_flash_amount = flash_amount, na_swaps = swaps, na_min_profit = min_profit, na_deadline = deadline\<rparr>))"

definition encode_execute_owned_swaps ::
    "SwapArrays \<Rightarrow> u160 \<Rightarrow> u256 \<Rightarrow> u256 \<Rightarrow> (u8 list, AdapterBuildError) outcome" where
  "encode_execute_owned_swaps arrays profit_token min_profit deadline =
     obind (collect_swap_steps arrays) (\<lambda>swaps.
       Ok (encode_execute_owned_swaps_calldata
         \<lparr>os_swaps = swaps, os_profit_token = profit_token, os_min_profit = min_profit, os_deadline = deadline\<rparr>))"

definition encode_match_internal :: "MatchParams \<Rightarrow> (u8 list, AdapterBuildError) outcome" where
  \<comment> \<open>the ten arguments are the fields of the record\<close>
  "encode_match_internal p =
     (if length (mp_expected_token_inflows p) \<noteq> length (mp_expected_token_inflow_min p)
      then Err TokenInflowArrayLengthMismatch
      else Ok (encode_match_internal_calldata p))"

definition encode_compose_four_leg ::
    "u8 list \<Rightarrow> SwapArrays \<Rightarrow> u8 list \<Rightarrow> u8 list \<Rightarrow> u160 \<Rightarrow> u8 \<Rightarrow> u160 \<Rightarrow> u256 \<Rightarrow> u256 \<Rightarrow> u256 \<Rightarrow>
      (u8 list, AdapterBuildError) outcome" where
  "encode_compose_four_leg across_fill_calldata arrays cow_fill_calldata uniswapx_rebalance_calldata flash_lender
      flash_protocol flash_token flash_amount min_profit deadline =
     obind (collect_swap_steps arrays) (\<lambda>arb_swaps.
       Ok (encode_compose_four_leg_calldata
         \<lparr>co_across_fill_calldata = across_fill_calldata, co_arb_swaps = arb_swaps, co_cow_fill_calldata = cow_fill_calldata,
          co_uniswapx_rebalance_calldata = uniswapx_rebalance_calldata, co_flash_lender = flash_lender,
          co_flash_protocol = flash_protocol, co_flash_token = flash_token, co_flash_amount = flash_amount,
          co_min_profit = min_profit, co_deadline = deadline\<rparr>))"

definition encode_execute_uniswapx_fill :: "u160 \<Rightarrow> u8 list \<Rightarrow> u8 list \<Rightarrow> u8 list" where
  "encode_execute_uniswapx_fill reactor execute_calldata callback_data =
     encode_execute_uniswapx_fill_calldata reactor execute_calldata callback_data"

definition encode_trigger_cow_flash_loan_router :: "u256 \<Rightarrow> u256 \<Rightarrow> u8 list \<Rightarrow> u256 \<Rightarrow> u8 list" where
  "encode_trigger_cow_flash_loan_router expected_root total_rounds initial_loan_calldata deadline =
     encode_trigger_cow_flash_loan_router_calldata
       \<lparr>cw_expected_root = expected_root, cw_total_rounds = total_rounds,
        cw_initial_loan_calldata = initial_loan_calldata, cw_deadline = deadline\<rparr>"

definition adapter_uniswapx_callback_data ::
    "SwapArrays \<Rightarrow> u160 \<Rightarrow> u256 \<Rightarrow> (u8 list, AdapterBuildError) outcome" where
  "adapter_uniswapx_callback_data arrays callback_recipient callback_deadline =
     obind (collect_swap_steps arrays) (\<lambda>swaps.
       Ok (encode_uniswapx_callback_data swaps callback_recipient callback_deadline))"

section \<open>Moving liquidity positions\<close>

definition LP_OK :: u8 where "LP_OK = 0"
definition LP_INVALID_PARAMS :: u8 where "LP_INVALID_PARAMS = 1"
definition LP_TARGET_HAS_NO_CODE :: u8 where "LP_TARGET_HAS_NO_CODE = 2"
definition LP_CALL_REVERTED :: u8 where "LP_CALL_REVERTED = 3"
definition LP_RETURN_FALSE :: u8 where "LP_RETURN_FALSE = 4"
definition LP_RETURN_MALFORMED :: u8 where "LP_RETURN_MALFORMED = 5"

lemmas lp_codes = LP_OK_def LP_INVALID_PARAMS_def LP_TARGET_HAS_NO_CODE_def LP_CALL_REVERTED_def LP_RETURN_FALSE_def
  LP_RETURN_MALFORMED_def

record 'w lp_host =
  h_contract_address :: u160
  h_code_size :: "u160 \<Rightarrow> 'w \<Rightarrow> nat"
  h_call :: "u160 \<Rightarrow> u8 list \<Rightarrow> 'w \<Rightarrow> (u8 list + u8 list) \<times> 'w"
    \<comment> \<open>the whole answer: the data of a revert, or that of a success\<close>

definition raw_mutating_call :: "'w lp_host \<Rightarrow> u160 \<Rightarrow> u8 list \<Rightarrow> 'w \<Rightarrow> (u8 list + u8 list) \<times> 'w" where
  \<comment> \<open>\<open>limit_return_data(0, 32)\<close> keeps the first 32 bytes of the answer\<close>
  "raw_mutating_call H target calldata w =
     (case h_call H target calldata w of
        (Inr data, w') \<Rightarrow> (Inr (take 32 data), w')
      | (Inl data, w') \<Rightarrow> (Inl (take 32 data), w'))"

definition code_from_error :: "LpTransferError \<Rightarrow> u8" where
  "code_from_error e =
     (case e of
        LP_InvalidParams \<Rightarrow> LP_INVALID_PARAMS
      | V4TransferFailed \<Rightarrow> LP_RETURN_FALSE
      | V4SetOperatorFailed \<Rightarrow> LP_RETURN_FALSE)"

definition code_from_validation :: "(unit, LpTransferError) outcome \<Rightarrow> (u8, 'e) outcome" where
  "code_from_validation r = (case r of Ok _ \<Rightarrow> Ok LP_OK | Err e \<Rightarrow> Ok (code_from_error e) | Panic \<Rightarrow> Panic)"

definition validate_move_code :: "u160 \<Rightarrow> u160 \<Rightarrow> (u8, 'e) outcome" where
  "validate_move_code lp_contract to = code_from_validation (validate_move lp_contract to)"

definition validate_set_operator_code :: "u160 \<Rightarrow> u160 \<Rightarrow> (u8, 'e) outcome" where
  "validate_set_operator_code pool_manager operator = code_from_validation (validate_set_operator pool_manager operator)"

definition lp_decode_abi_bool :: "u8 list \<Rightarrow> bool option" where
  "lp_decode_abi_bool data =
     (if length data \<noteq> 32 \<or> list_ex (\<lambda>b. b \<noteq> 0) (take 31 data) then None
      else if data ! 31 = 0 then Some False
      else if data ! 31 = 1 then Some True
      else None)"

definition normalize_void_call :: "u8 list + u8 list \<Rightarrow> u8" where
  "normalize_void_call r = (case r of Inr _ \<Rightarrow> LP_OK | Inl _ \<Rightarrow> LP_CALL_REVERTED)"

definition bool_verdict :: "u8 list \<Rightarrow> u8" where
  \<comment> \<open>the inner \<open>match\<close> of the two functions below\<close>
  "bool_verdict data =
     (case lp_decode_abi_bool data of Some True \<Rightarrow> LP_OK | Some False \<Rightarrow> LP_RETURN_FALSE | None \<Rightarrow> LP_RETURN_MALFORMED)"

definition normalize_erc20_call :: "u8 list + u8 list \<Rightarrow> u8" where
  "normalize_erc20_call r =
     (case r of Inr data \<Rightarrow> if data = [] then LP_OK else bool_verdict data | Inl _ \<Rightarrow> LP_CALL_REVERTED)"

definition normalize_strict_bool_call :: "u8 list + u8 list \<Rightarrow> u8" where
  "normalize_strict_bool_call r = (case r of Inr data \<Rightarrow> bool_verdict data | Inl _ \<Rightarrow> LP_CALL_REVERTED)"

definition guarded_call ::
    "'w lp_host \<Rightarrow> (unit, LpTransferError) outcome \<Rightarrow> u160 \<Rightarrow> u8 list \<Rightarrow> (u8 list + u8 list \<Rightarrow> u8) \<Rightarrow> 'w \<Rightarrow> u8 \<times> 'w" where
  \<comment> \<open>the shape the four operations share: validation, code check, \<open>raw_mutating_call\<close>, normalisation\<close>
  "guarded_call H validation target calldata norm_code w =
     (case validation of
        Ok _ \<Rightarrow>
          if h_code_size H target w = 0 then (LP_TARGET_HAS_NO_CODE, w)
          else (case raw_mutating_call H target calldata w of (r, w') \<Rightarrow> (norm_code r, w'))
      | Err e \<Rightarrow> (code_from_error e, w)
      | Panic \<Rightarrow> (LP_INVALID_PARAMS, w)) \<comment> \<open>no validation panics\<close>"

definition move_v2_code :: "'w lp_host \<Rightarrow> u160 \<Rightarrow> u256 \<Rightarrow> u160 \<Rightarrow> 'w \<Rightarrow> u8 \<times> 'w" where
  "move_v2_code H pool amount to =
     guarded_call H (validate_move pool to) pool (encode_v2_transfer to amount) normalize_erc20_call"

definition move_v3_code :: "'w lp_host \<Rightarrow> u160 \<Rightarrow> u256 \<Rightarrow> u160 \<Rightarrow> 'w \<Rightarrow> u8 \<times> 'w" where
  "move_v3_code H position_manager nft to =
     guarded_call H (validate_move position_manager to) position_manager
       (encode_v3_safe_transfer_from (h_contract_address H) to nft) normalize_void_call"

definition move_v4_code :: "'w lp_host \<Rightarrow> u160 \<Rightarrow> u256 \<Rightarrow> u256 \<Rightarrow> u160 \<Rightarrow> 'w \<Rightarrow> u8 \<times> 'w" where
  "move_v4_code H pool_manager token amount to =
     guarded_call H (validate_move pool_manager to) pool_manager (encode_v4_transfer to token amount)
       normalize_strict_bool_call"

definition set_v4_operator_code :: "'w lp_host \<Rightarrow> u160 \<Rightarrow> u160 \<Rightarrow> bool \<Rightarrow> 'w \<Rightarrow> u8 \<times> 'w" where
  "set_v4_operator_code H pool_manager operator approved =
     guarded_call H (validate_set_operator pool_manager operator) pool_manager
       (encode_v4_set_operator operator approved) normalize_strict_bool_call"

section \<open>Codes of the runtime proofs\<close>

definition runtime_lane_count :: u8 where "runtime_lane_count = 9"

definition runtime_callback_auth_code :: "CallbackAuthProof \<Rightarrow> (u8, 'e) outcome" where
  "runtime_callback_auth_code p = ra_error_code (validate_callback_auth p)"

definition runtime_flash_settlement_code :: "FlashSettlementProof \<Rightarrow> (u8, 'e) outcome" where
  "runtime_flash_settlement_code p =
     (case validate_flash_settlement p of Ok _ \<Rightarrow> Ok 0 | Err e \<Rightarrow> Ok (error_as_u8 e) | Panic \<Rightarrow> Panic)"

definition runtime_flash_settlement_profit_or_zero :: "FlashSettlementProof \<Rightarrow> u256" where
  "runtime_flash_settlement_profit_or_zero p = settlement_profit_or_zero p"

definition runtime_approval_code :: "RuntimeApprovalProof \<Rightarrow> (u8, 'e) outcome" where
  "runtime_approval_code p = ra_error_code (validate_runtime_approval p)"

definition runtime_call_code :: "RuntimeCallProof \<Rightarrow> (u8, 'e) outcome" where
  "runtime_call_code p = ra_error_code (validate_runtime_call p)"

definition runtime_execution_receipt_digest :: "(u8 list \<Rightarrow> u256) \<Rightarrow> ExecutionReceiptProof \<Rightarrow> u256" where
  "runtime_execution_receipt_digest keccak p = execution_receipt_digest keccak p"

section \<open>Flat arrays\<close>

definition flatten_steps :: "SwapStep list \<Rightarrow> SwapArrays" where
  "flatten_steps steps =
     \<lparr>sa_dex_kinds = map ss_dex_kind steps, sa_routers = map ss_router steps, sa_call_datas = map ss_call_data steps,
      sa_token_ins = map ss_token_in steps, sa_token_outs = map ss_token_out steps, sa_amounts_in = map ss_amount_in steps,
      sa_amount_out_mins = map ss_amount_out_min steps\<rparr>"

lemma collect_Ok_iff: "collect_swap_steps arrays = Ok steps \<longleftrightarrow> arrays = flatten_steps steps"
proof
  assume "collect_swap_steps arrays = Ok steps"
  then show "arrays = flatten_steps steps"
    by (auto simp: collect_swap_steps_def flatten_steps_def Let_def split: if_splits
        intro!: SwapArrays.equality nth_equalityI)
next
  assume "arrays = flatten_steps steps"
  then show "collect_swap_steps arrays = Ok steps"
    by (auto simp: collect_swap_steps_def flatten_steps_def Let_def intro!: nth_equalityI)
qed

lemma collect_flatten [simp]: "collect_swap_steps (flatten_steps steps) = Ok steps"
  by (simp add: collect_Ok_iff)

lemma callback_data_encoding:
  "encode_uniswapx_callback_data steps recipient deadline =
     params_encoding [S_Array (map step_value steps), S_Address recipient, S_Uint deadline 256]"
  by (simp add: encode_uniswapx_callback_data_def params_encoding_def seq_encoding_def array_encodings
      del: value_encoding.simps(8))

text \<open>Flat arrays describe swap steps exactly: the adapter builds the steps whose columns the seven arrays are, refuses
  arrays of different lengths, and every list of steps is described by its columns; the calldata of the three calls with
  swaps is then the ABI encoding of those steps and the other arguments.\<close>

theorem flat_arrays_exact:
  "(case collect_swap_steps arrays of
      Ok steps \<Rightarrow>
        arrays = flatten_steps steps \<and>
        encode_execute_native_arb lender protocol token amount arrays min_profit deadline =
          Ok (EXECUTE_NATIVE_ARB @ params_encoding [S_Tuple
            [S_Address lender, S_Uint (ucast protocol) 8, S_Address token, S_Uint amount 256,
             S_Array (map step_value steps), S_Uint min_profit 256, S_Uint deadline 256]]) \<and>
        encode_execute_owned_swaps arrays token min_profit deadline =
          Ok (EXECUTE_OWNED_SWAPS @ params_encoding [S_Tuple
            [S_Array (map step_value steps), S_Address token, S_Uint min_profit 256, S_Uint deadline 256]]) \<and>
        adapter_uniswapx_callback_data arrays token deadline =
          Ok (params_encoding [S_Array (map step_value steps), S_Address token, S_Uint deadline 256])
    | Err e \<Rightarrow>
        e = SwapArrayLengthMismatch \<and> \<not> (\<exists>steps. arrays = flatten_steps steps) \<and>
        encode_execute_native_arb lender protocol token amount arrays min_profit deadline = Err e
    | Panic \<Rightarrow> False) \<and>
   collect_swap_steps (flatten_steps any_steps) = Ok any_steps"
proof -
  have err: "collect_swap_steps arrays = Err e \<Longrightarrow> e = SwapArrayLengthMismatch" "collect_swap_steps arrays \<noteq> Panic" for e
    by (auto simp: collect_swap_steps_def Let_def split: if_splits)
  have none: "collect_swap_steps arrays = Err e \<Longrightarrow> arrays \<noteq> flatten_steps steps" for e steps
    using collect_Ok_iff [of arrays steps] by auto
  show ?thesis
    using err none
      executor_abi_standard [of "NativeArb _"] executor_abi_standard [of "OwnedSwaps _"]
    by (auto simp: collect_Ok_iff encode_execute_native_arb_def encode_execute_owned_swaps_def
        adapter_uniswapx_callback_data_def callback_data_encoding split: outcome.splits)
qed

section \<open>Moves\<close>

datatype lp_move =
    MoveV2 u160 u256 u160 \<comment> \<open>pool, amount, recipient\<close>
  | MoveV3 u160 u256 u160 \<comment> \<open>position manager, token, recipient\<close>
  | MoveV4 u160 u256 u256 u160 \<comment> \<open>pool manager, token, amount, recipient\<close>
  | SetOperator u160 u160 bool

primrec run_move :: "'w lp_host \<Rightarrow> lp_move \<Rightarrow> 'w \<Rightarrow> u8 \<times> 'w" where
  "run_move H (MoveV2 pool amount to) = move_v2_code H pool amount to"
| "run_move H (MoveV3 manager token to) = move_v3_code H manager token to"
| "run_move H (MoveV4 manager token amount to) = move_v4_code H manager token amount to"
| "run_move H (SetOperator manager operator approved) = set_v4_operator_code H manager operator approved"

primrec move_parties :: "lp_move \<Rightarrow> u160 \<times> u160" where
  "move_parties (MoveV2 pool amount to) = (pool, to)"
| "move_parties (MoveV3 manager token to) = (manager, to)"
| "move_parties (MoveV4 manager token amount to) = (manager, to)"
| "move_parties (SetOperator manager operator approved) = (manager, operator)"

primrec move_calldata :: "u160 \<Rightarrow> lp_move \<Rightarrow> u8 list" where
  "move_calldata self (MoveV2 pool amount to) = LP_ERC20_TRANSFER @ params_encoding [S_Address to, S_Uint amount 256]"
| "move_calldata self (MoveV3 manager token to) =
     ERC721_SAFE_TRANSFER_FROM @ params_encoding [S_Address self, S_Address to, S_Uint token 256]"
| "move_calldata self (MoveV4 manager token amount to) =
     ERC6909_TRANSFER @ params_encoding [S_Address to, S_Uint token 256, S_Uint amount 256]"
| "move_calldata self (SetOperator manager operator approved) =
     ERC6909_SET_OPERATOR @ params_encoding [S_Address operator, S_Bool approved]"

primrec move_confirmed :: "lp_move \<Rightarrow> u8 list \<Rightarrow> bool" where
  \<comment> \<open>what the called contract has to return\<close>
  "move_confirmed (MoveV2 pool amount to) data \<longleftrightarrow> data = [] \<or> data = push_bool_word True"
| "move_confirmed (MoveV3 manager token to) data \<longleftrightarrow> True"
| "move_confirmed (MoveV4 manager token amount to) data \<longleftrightarrow> data = push_bool_word True"
| "move_confirmed (SetOperator manager operator approved) data \<longleftrightarrow> data = push_bool_word True"

lemma list_32_split: "length data = 32 \<Longrightarrow> data = take 31 data @ [data ! 31]"
  using take_Suc_conv_app_nth [of 31 data] by simp

lemma lp_decode_abi_bool_iff: "lp_decode_abi_bool data = Some b \<longleftrightarrow> data = push_bool_word b"
proof
  assume a: "lp_decode_abi_bool data = Some b"
  then have "length data = 32" and z: "\<forall>x \<in> set (take 31 data). x = 0" and "data ! 31 = (if b then 1 else 0)"
    by (auto simp: lp_decode_abi_bool_def list_ex_iff split: if_splits)
  moreover from this have "take 31 data = replicate 31 0" by (intro replicate_eqI) auto
  ultimately show "data = push_bool_word b" using list_32_split [of data] by (simp add: push_bool_word_def bool_byte_def)
next
  assume "data = push_bool_word b"
  then show "lp_decode_abi_bool data = Some b"
    by (simp add: lp_decode_abi_bool_def push_bool_word_def bool_byte_def nth_append list_ex_iff)
qed

lemma bool_verdict_OK: "bool_verdict data = LP_OK \<longleftrightarrow> data = push_bool_word True"
  using lp_decode_abi_bool_iff [of data True]
  by (auto simp: bool_verdict_def lp_codes split: option.splits bool.splits)

text \<open>
  C28. A reported move took place: an operation on a liquidity position reports success exactly when neither address is zero, the
  contract exists, the one call made to it is the ABI encoding of the arguments and it succeeded with the answer its
  standard prescribes (nothing or true for a token without strict return, anything for a position token, true for a
  multi-token; of a longer answer only the first 32 bytes count). Nothing else is called: without that call the world stays as it was, with it it is what the call left.\<close>

theorem lp_moves_exact:
  "case move_parties mv of
     (target, recipient) \<Rightarrow>
       (case run_move H mv w of
          (code, w') \<Rightarrow>
            (if target = 0 \<or> recipient = 0 \<or> h_code_size H target w = 0 then code \<noteq> LP_OK \<and> w' = w
             else (case h_call H target (move_calldata (h_contract_address H) mv) w of
                     (Inr data, w1) \<Rightarrow> w' = w1 \<and> (code = LP_OK \<longleftrightarrow> move_confirmed mv (take 32 data))
                   | (Inl _, w1) \<Rightarrow> w' = w1 \<and> code = LP_CALL_REVERTED)))"
proof -
  note defs = move_v2_code_def move_v3_code_def move_v4_code_def set_v4_operator_code_def guarded_call_def
    raw_mutating_call_def
    validate_move_def validate_set_operator_def code_from_error_def
  note encodings = encode_v2_transfer_def encode_selector_address_u256_def encode_v3_safe_transfer_from_def
    encode_v4_transfer_def encode_v4_set_operator_def params_encoding_def seq_encoding_def
  show ?thesis
    by (cases mv)
      (auto simp: defs encodings normalize_erc20_call_def normalize_void_call_def normalize_strict_bool_call_def
        bool_verdict_OK [unfolded LP_OK_def] lp_codes split: prod.splits sum.splits)
qed

end
