(* ===== verification/Monitor_Feed.thy ===== *)
theory Monitor_Feed
  imports Backoff Sequencer_Feed Mega_Bits "HOL-Library.Sublist"
begin

text \<open>
  The monitor between the node and the strategies: the log decoder (\<open>src/rust/src/monitor/sync_event.rs\<close>), the event batcher
  (\<open>feed.rs\<close>), the log subscriber (\<open>ws.rs\<close>) and the subscriber of the sequencer feed (\<open>sequencer_subscriber.rs\<close>). The decoders generated
  for the events and the sockets are parameters. A task that waits on several sources is a function of the list of what it
  observes, one element per turn of its \<open>select!\<close>: the theorems hold for every such list, that is for every interleaving, and the end
  of the list means that the task is still waiting. They show that nothing is lost, duplicated or reordered on the way, and what
  can end each task.
\<close>

section \<open>Pool states\<close>

datatype Reserves =
    ReservesV2 u256 u256
  | ReservesV3 u256 u128 i32
  | ReservesV4 u256 u256 u128 i32
  | ReservesCurve "u256 list" u256 u32

record PoolState =
  ps_address :: u160
  ps_block_number :: u64
  ps_reserves :: Reserves

datatype DecodedEvent = State PoolState | Tip u64

record eth_log =
  lg_topics :: "u256 list"
  lg_address :: u160
  lg_block_number :: "u64 option"
  lg_data :: "u8 list"

record event_api =
  \<comment> \<open>generated from the event declarations: the topic of each event and its decoder\<close>
  SYNC_HASH :: u256
  V3_SWAP_HASH :: u256
  V4_SWAP_HASH :: u256
  decode_sync :: "u256 list \<Rightarrow> u8 list \<Rightarrow> string + 112 word \<times> 112 word"
  decode_v3_swap :: "u256 list \<Rightarrow> u8 list \<Rightarrow> string + u160 \<times> u128 \<times> 24 word"
  decode_v4_swap :: "u256 list \<Rightarrow> u8 list \<Rightarrow> string + u256 \<times> u160 \<times> u128 \<times> 24 word"

definition WATCHED_EVENT_SIGNATURES :: "event_api \<Rightarrow> u256 list" where
  "WATCHED_EVENT_SIGNATURES E = [SYNC_HASH E, V3_SWAP_HASH E, V4_SWAP_HASH E]"

definition u256_from_limbs :: "u64 \<Rightarrow> u64 \<Rightarrow> u64 \<Rightarrow> u64 \<Rightarrow> u256" where
  "u256_from_limbs a b c d = ucast a + push_bit 64 (ucast b) + push_bit 128 (ucast c) + push_bit 192 (ucast d)"

definition u112_to_u256 :: "112 word \<Rightarrow> u256" where
  "u112_to_u256 x = u256_from_limbs (ucast x) (ucast (drop_bit 64 x)) 0 0"

definition u160_to_u256 :: "u160 \<Rightarrow> u256" where
  "u160_to_u256 x = u256_from_limbs (ucast x) (ucast (drop_bit 64 x)) (ucast (drop_bit 128 x)) 0"

definition i32_of_i24 :: "24 word \<Rightarrow> i32" where
  \<comment> \<open>\<open>i32::try_from(tick).unwrap_or_default()\<close>\<close>
  "i32_of_i24 t = (if is_i32 (sint t) then sint t else 0)"

definition decode_log :: "event_api \<Rightarrow> eth_log \<Rightarrow> (DecodedEvent option, string) outcome" where
  "decode_log E log =
     (case lg_topics log of
        [] \<Rightarrow> Ok None
      | topic0 # _ \<Rightarrow>
          let block_number = (case lg_block_number log of Some b \<Rightarrow> b | None \<Rightarrow> 0);
              state = (\<lambda>r. Ok (Some (State \<lparr>ps_address = lg_address log, ps_block_number = block_number, ps_reserves = r\<rparr>)))
          in if topic0 = SYNC_HASH E then
               (case decode_sync E (lg_topics log) (lg_data log) of
                  Inl e \<Rightarrow> Err e
                | Inr (r0, r1) \<Rightarrow> state (ReservesV2 (u112_to_u256 r0) (u112_to_u256 r1)))
             else if topic0 = V3_SWAP_HASH E then
               (case decode_v3_swap E (lg_topics log) (lg_data log) of
                  Inl e \<Rightarrow> Err e
                | Inr (price, liquidity, tick) \<Rightarrow> state (ReservesV3 (u160_to_u256 price) liquidity (i32_of_i24 tick)))
             else if topic0 = V4_SWAP_HASH E then
               (case decode_v4_swap E (lg_topics log) (lg_data log) of
                  Inl e \<Rightarrow> Err e
                | Inr (key, price, liquidity, tick) \<Rightarrow>
                    state (ReservesV4 key (u160_to_u256 price) liquidity (i32_of_i24 tick)))
             else Ok None)"

section \<open>The batcher\<close>

record 'e EventBatch =
  eb_events :: "'e list"
  eb_flushed_at_ns :: u64

datatype 'e batch_input =
    Received 'e
  | UpstreamClosed
  | WindowTick

record 'e batch_turn =
  bt_input :: "'e batch_input"
  bt_downstream_open :: bool
  bt_now_ns :: u64

datatype task_state = Running | Finished

definition flush :: "u64 \<Rightarrow> 'e list \<Rightarrow> 'e EventBatch" where
  "flush now buffer = \<lparr>eb_events = buffer, eb_flushed_at_ns = now\<rparr>"

fun batcher_run :: "'e batch_turn list \<Rightarrow> 'e list \<Rightarrow> 'e EventBatch list \<Rightarrow> task_state \<times> 'e list \<times> 'e EventBatch list" where
  \<comment> \<open>\<open>Batcher::run\<close>: the turns to come, the buffer, the batches delivered so far\<close>
  "batcher_run [] buffer sent = (Running, buffer, sent)"
| "batcher_run (t # ts) buffer sent =
     (case bt_input t of
        Received event \<Rightarrow> batcher_run ts (buffer @ [event]) sent
      | UpstreamClosed \<Rightarrow>
          (Finished, [],
           if buffer \<noteq> [] \<and> bt_downstream_open t then sent @ [flush (bt_now_ns t) buffer] else sent)
      | WindowTick \<Rightarrow>
          if buffer = [] then batcher_run ts buffer sent
          else if bt_downstream_open t then batcher_run ts [] (sent @ [flush (bt_now_ns t) buffer])
          else (Finished, [], sent))"

section \<open>The log subscriber\<close>

definition INITIAL_BACKOFF :: nat where "INITIAL_BACKOFF = 500"
definition MAX_BACKOFF :: nat where "MAX_BACKOFF = 30000"

definition next_backoff :: "nat \<Rightarrow> nat" where
  "next_backoff backoff = min (backoff * 2) MAX_BACKOFF"

datatype 'l log_turn =
    LogArrives 'l bool \<comment> \<open>and whether the consumer is still there to take it\<close>
  | StreamEnds

record 'l log_session =
  ls_connect_error :: "string option"
  ls_subscribe_error :: "string option"
  ls_turns :: "'l log_turn list"

fun forward_logs :: "'l log_turn list \<Rightarrow> 'l list \<Rightarrow> (unit, string) outcome option \<times> 'l list" where
  "forward_logs [] sent = (None, sent)"
| "forward_logs (LogArrives l consumer # ts) sent =
     (if consumer then forward_logs ts (sent @ [l]) else (Some (Ok ()), sent))"
| "forward_logs (StreamEnds # ts) sent = (Some (Err ''WS log stream ended''), sent)"

text \<open>A report is the text of its messages, the outermost first.\<close>

definition subscribe_once :: "'l log_session \<Rightarrow> 'l list \<Rightarrow> (unit, string) outcome option \<times> 'l list" where
  "subscribe_once s sent =
     (case ls_connect_error s of
        Some e \<Rightarrow> (Some (Err (''WS provider connect failed: '' @ e)), sent)
      | None \<Rightarrow>
          (case ls_subscribe_error s of
             Some e \<Rightarrow> (Some (Err (''eth_subscribe(logs) failed: '' @ e)), sent)
           | None \<Rightarrow> forward_logs (ls_turns s) sent))"

fun subscriber_run :: "'l log_session list \<Rightarrow> nat \<Rightarrow> 'l list \<Rightarrow> nat list \<Rightarrow> task_state \<times> 'l list \<times> nat list" where
  \<comment> \<open>\<open>Subscriber::run\<close>: the sessions to come, the backoff, the logs forwarded and the waits so far\<close>
  "subscriber_run [] backoff sent waits = (Running, sent, waits)"
| "subscriber_run (s # ss) backoff sent waits =
     (case subscribe_once s sent of
        (None, sent) \<Rightarrow> (Running, sent, waits)
      | (Some (Err _), sent) \<Rightarrow> subscriber_run ss (next_backoff backoff) sent (waits @ [backoff])
      | (Some _, sent) \<Rightarrow> (Finished, sent, waits))"

section \<open>The subscriber of the sequencer feed\<close>

record 'v feed_sinks =
  \<comment> \<open>what the consumers have been given\<close>
  fs_messages :: "'v BroadcastFeedMessage list"
  fs_confirmations :: "ConfirmedSequenceNumberMessage list"
  fs_errors :: "string list"
  fs_waits :: "nat list"

datatype feed_input =
    Cancelled
  | FrameData "u8 list" \<comment> \<open>a text or a binary frame\<close>
  | FramePing bool \<comment> \<open>and whether the answer can be sent\<close>
  | FrameIgnored \<comment> \<open>a pong or a raw frame\<close>
  | FrameClosed \<comment> \<open>a close frame, or the end of the stream\<close>
  | FrameError string

record feed_turn =
  ft_input :: feed_input
  ft_accepted :: nat \<comment> \<open>how many messages the consumer takes before it is found gone\<close>
  ft_confirmation_room :: bool
  ft_error_room :: bool

record feed_session =
  fn_request_error :: "string option"
  fn_connect_error :: "string option"
  fn_turns :: "feed_turn list"

definition dispatch_envelope ::
    "(u8 list \<Rightarrow> string + 'v BroadcastMessage) \<Rightarrow> (BroadcastError \<Rightarrow> string) \<Rightarrow> feed_turn \<Rightarrow> u8 list \<Rightarrow> 'v feed_sinks \<Rightarrow>
      (unit, string) outcome \<times> 'v feed_sinks" where
  "dispatch_envelope from_slice show_error t raw sinks =
     (case parse_envelope from_slice raw of
        Err e \<Rightarrow>
          (Ok (), if ft_error_room t then sinks\<lparr>fs_errors := fs_errors sinks @ [''parse: '' @ show_error e]\<rparr> else sinks)
      | Panic \<Rightarrow> (Panic, sinks)
      | Ok env \<Rightarrow>
          let msgs = (case bm_messages env of Some ms \<Rightarrow> ms | None \<Rightarrow> []);
              sinks = sinks\<lparr>fs_messages := fs_messages sinks @ take (ft_accepted t) msgs\<rparr>
          in if ft_accepted t < length msgs then (Err ''messages receiver dropped'', sinks)
             else
               (Ok (), case bm_confirmed env of
                  Some conf \<Rightarrow>
                    if ft_confirmation_room t then sinks\<lparr>fs_confirmations := fs_confirmations sinks @ [conf]\<rparr> else sinks
                | None \<Rightarrow> sinks))"

fun feed_session_loop ::
    "(u8 list \<Rightarrow> string + 'v BroadcastMessage) \<Rightarrow> (BroadcastError \<Rightarrow> string) \<Rightarrow> feed_turn list \<Rightarrow> 'v feed_sinks \<Rightarrow>
      (unit, string) outcome option \<times> 'v feed_sinks" where
  \<comment> \<open>the loop of \<open>connect_once\<close>\<close>
  "feed_session_loop from_slice show_error [] sinks = (None, sinks)"
| "feed_session_loop from_slice show_error (t # ts) sinks =
     (case ft_input t of
        Cancelled \<Rightarrow> (Some (Ok ()), sinks)
      | FrameData bytes \<Rightarrow>
          (case dispatch_envelope from_slice show_error t bytes sinks of
             (Ok _, sinks) \<Rightarrow> feed_session_loop from_slice show_error ts sinks
           | (r, sinks) \<Rightarrow> (Some r, sinks))
      | FramePing pong \<Rightarrow>
          if pong then feed_session_loop from_slice show_error ts sinks else (Some (Err ''pong send failed''), sinks)
      | FrameIgnored \<Rightarrow> feed_session_loop from_slice show_error ts sinks
      | FrameClosed \<Rightarrow> (Some (Ok ()), sinks)
      | FrameError e \<Rightarrow> (Some (Err (''ws read error: '' @ e)), sinks))"

definition connect_once ::
    "(u8 list \<Rightarrow> string + 'v BroadcastMessage) \<Rightarrow> (BroadcastError \<Rightarrow> string) \<Rightarrow> feed_session \<Rightarrow> 'v feed_sinks \<Rightarrow>
      (unit, string) outcome option \<times> 'v feed_sinks" where
  "connect_once from_slice show_error s sinks =
     (case fn_request_error s of
        Some e \<Rightarrow> (Some (Err (''invalid WS URL: '' @ e)), sinks)
      | None \<Rightarrow>
          (case fn_connect_error s of
             Some e \<Rightarrow> (Some (Err (''WS connect failed: '' @ e)), sinks)
           | None \<Rightarrow> feed_session_loop from_slice show_error (fn_turns s) sinks))"

record feed_attempt =
  fa_cancelled :: bool \<comment> \<open>\<open>is_cancelled\<close> at the head of the loop\<close>
  fa_session :: feed_session
  fa_error_room :: bool
  fa_cancelled_waiting :: bool \<comment> \<open>the cancellation wins against the sleep\<close>

fun feed_run_loop ::
    "(u8 list \<Rightarrow> string + 'v BroadcastMessage) \<Rightarrow> (BroadcastError \<Rightarrow> string) \<Rightarrow> feed_attempt list \<Rightarrow> nat \<Rightarrow> 'v feed_sinks \<Rightarrow>
      task_state \<times> 'v feed_sinks" where
  \<comment> \<open>\<open>run_loop\<close>\<close>
  "feed_run_loop from_slice show_error [] backoff sinks = (Running, sinks)"
| "feed_run_loop from_slice show_error (a # as) backoff sinks =
     (if fa_cancelled a then (Finished, sinks)
      else
        (case connect_once from_slice show_error (fa_session a) sinks of
           (None, sinks) \<Rightarrow> (Running, sinks)
         | (Some (Err err), sinks) \<Rightarrow>
             let sinks = (if fa_error_room a then sinks\<lparr>fs_errors := fs_errors sinks @ [err]\<rparr> else sinks);
                 sinks = sinks\<lparr>fs_waits := fs_waits sinks @ [backoff]\<rparr>
             in if fa_cancelled_waiting a then (Finished, sinks)
                else feed_run_loop from_slice show_error as (next_backoff backoff) sinks
         | (Some _, sinks) \<Rightarrow> feed_run_loop from_slice show_error as INITIAL_BACKOFF sinks))"

section \<open>The decoder is exact\<close>

lemma u256_from_limbs_value:
  assumes "n = unat a + unat b * 2 ^ 64 + unat c * 2 ^ 128" "n < 2 ^ 256"
  shows "unat (u256_from_limbs a b c 0) = n"
proof -
  have w: "unat (ucast v :: u256) = unat v" for v :: u64 by (rule unat_ucast_wider) simp
  have "u256_from_limbs a b c 0 = word_of_nat n"
    unfolding assms(1) by (simp add: u256_from_limbs_def push_bit_eq_mult w [symmetric] del: w)
  then show ?thesis using unat_word_of_nat [of n, where 'a = 256] assms(2) by simp
qed

lemma limb_split: "(n :: nat) = n mod m + n div m mod m * m + n div (m * m) * (m * m)"
proof -
  have "(n div m div m * m + n div m mod m) * m + n mod m = n" by simp
  then have "n mod m + n div m mod m * m + n div m div m * (m * m) = n" by (simp only: algebra_simps)
  then show ?thesis by (simp only: div_mult2_eq)
qed

lemma unat_limb: "unat (ucast (drop_bit k (x :: 'a::len word)) :: u64) = unat x div 2 ^ k mod 2 ^ 64"
proof -
  have "unat (drop_bit k x) = drop_bit k (unat x)"
    using unat_bound [of x] by (simp add: unsigned_drop_bit_eq take_bit_nat_eq_self)
  then show ?thesis by (simp add: unsigned_ucast_eq take_bit_eq_mod drop_bit_eq_div [of k "unat x"])
qed

lemma limbs_of_word:
  assumes "unat x < 2 ^ 192"
  shows "unat x = unat (ucast x :: u64) + unat (ucast (drop_bit 64 x) :: u64) * 2 ^ 64
    + unat (ucast (drop_bit 128 (x :: 'a::len word)) :: u64) * 2 ^ 128"
proof -
  have "unat x div 2 ^ 128 < 2 ^ 64" using assms by (simp add: less_mult_imp_div_less)
  moreover have "(2 :: nat) ^ 64 * 2 ^ 64 = 2 ^ 128" by simp
  ultimately show ?thesis
    using limb_split [of "unat x" "2 ^ 64"] unat_limb [of 0 x] unat_limb [of 64 x] unat_limb [of 128 x]
    by (simp only: drop_bit_0 id_apply div_by_1 power_0 mod_less)
qed

lemma u160_to_u256_exact: "unat (u160_to_u256 x) = unat x"
proof -
  have "unat x < 2 ^ 160" using unat_bound [of x] by simp
  then have b: "unat x < 2 ^ 192" "unat x < 2 ^ 256" by (simp_all add: power_numeral)
  show ?thesis unfolding u160_to_u256_def by (rule u256_from_limbs_value [OF limbs_of_word [OF b(1)] b(2)])
qed

lemma u112_to_u256_exact: "unat (u112_to_u256 x) = unat x"
proof -
  have "unat x < 2 ^ 112" using unat_bound [of x] by simp
  then have b: "unat x < 2 ^ 192" "unat x < 2 ^ 256" "unat x < 2 ^ 128" by (simp_all add: power_numeral)
  have "unat (ucast (drop_bit 128 x) :: u64) = 0" using b(3) unat_limb [of 128 x] by simp
  then have "unat x = unat (ucast x :: u64) + unat (ucast (drop_bit 64 x) :: u64) * 2 ^ 64 + unat (0 :: u64) * 2 ^ 128"
    using limbs_of_word [OF b(1)] by simp
  then show ?thesis unfolding u112_to_u256_def by (rule u256_from_limbs_value [OF _ b(2)])
qed

lemma i32_of_i24_exact: "i32_of_i24 t = sint t"
  using sint_ge [of t] sint_lt [of t] by (simp add: i32_of_i24_def is_i32_def)

text \<open>A decoded pool state carries exactly the numbers of the event: reserves, price and tick keep their values through the
  conversions, the pool and the block are those of the log, and a log whose first topic is not watched yields nothing.\<close>

theorem decoded_state_exact:
  "(case decode_log E log of
      Ok (Some (State ps)) \<Rightarrow>
        ps_address ps = lg_address log \<and>
        (case ps_reserves ps of
           ReservesV2 a b \<Rightarrow>
             (\<exists>r0 r1. decode_sync E (lg_topics log) (lg_data log) = Inr (r0, r1) \<and> unat a = unat r0 \<and> unat b = unat r1)
         | ReservesV3 p l t \<Rightarrow>
             (\<exists>price tick. decode_v3_swap E (lg_topics log) (lg_data log) = Inr (price, l, tick) \<and>
                unat p = unat price \<and> t = sint tick)
         | ReservesV4 key p l t \<Rightarrow>
             (\<exists>price tick. decode_v4_swap E (lg_topics log) (lg_data log) = Inr (key, price, l, tick) \<and>
                unat p = unat price \<and> t = sint tick)
         | ReservesCurve bs amp fee \<Rightarrow> False)
    | Ok (Some (Tip b)) \<Rightarrow> False
    | Ok None \<Rightarrow> (case lg_topics log of [] \<Rightarrow> True | topic0 # _ \<Rightarrow> topic0 \<notin> set (WATCHED_EVENT_SIGNATURES E))
    | Err e \<Rightarrow> (case lg_topics log of [] \<Rightarrow> False | topic0 # _ \<Rightarrow> topic0 \<in> set (WATCHED_EVENT_SIGNATURES E))
    | Panic \<Rightarrow> False)"
  by (auto simp: decode_log_def Let_def WATCHED_EVENT_SIGNATURES_def u112_to_u256_exact u160_to_u256_exact
      i32_of_i24_exact split: list.splits sum.splits prod.splits)

section \<open>The batcher loses nothing\<close>

fun arrivals :: "'e batch_turn list \<Rightarrow> 'e list" where
  \<comment> \<open>what arrives before upstream is gone\<close>
  "arrivals [] = []"
| "arrivals (t # ts) =
     (case bt_input t of Received event \<Rightarrow> event # arrivals ts | UpstreamClosed \<Rightarrow> [] | WindowTick \<Rightarrow> arrivals ts)"

lemma batcher_conserves:
  "batcher_run ts buffer sent = (st, rest, sent') \<Longrightarrow>
    \<exists>new. sent' = sent @ new \<and> list_all (\<lambda>b. eb_events b \<noteq> []) new \<and>
      prefix (concat (map eb_events new)) (buffer @ arrivals ts) \<and>
      (list_all bt_downstream_open ts \<longrightarrow>
         concat (map eb_events new) @ rest = buffer @ arrivals ts \<and> (st = Finished \<longrightarrow> rest = []))"
proof (induction ts buffer sent rule: batcher_run.induct)
  case (1 buffer sent)
  then show ?case by auto
next
  case (2 t ts buffer sent)
  show ?case
  proof (cases "bt_input t")
    case (Received event)
    then show ?thesis using "2.IH"(1) [OF Received] "2.prems" by (auto simp: Received)
  next
    case UpstreamClosed
    then show ?thesis using "2.prems" by (auto simp: flush_def split: if_splits)
  next
    case WindowTick
    show ?thesis
    proof (cases "buffer \<noteq> [] \<and> bt_downstream_open t")
      case True
      with "2.IH"(3) [OF WindowTick] "2.prems" WindowTick obtain new where
        new: "sent' = (sent @ [flush (bt_now_ns t) buffer]) @ new" "list_all (\<lambda>b. eb_events b \<noteq> []) new"
        "prefix (concat (map eb_events new)) (arrivals ts)"
        "list_all bt_downstream_open ts \<longrightarrow>
           concat (map eb_events new) @ rest = arrivals ts \<and> (st = Finished \<longrightarrow> rest = [])"
        by auto
      then show ?thesis
        using True WindowTick by (intro exI [of _ "flush (bt_now_ns t) buffer # new"]) (simp add: flush_def)
    next
      case False
      then show ?thesis using "2.IH"(2) [OF WindowTick] "2.prems" WindowTick by (auto split: if_splits)
    qed
  qed
qed

text \<open>The batcher keeps every event and its order, for every interleaving of arrivals, window ticks and closings: the batches
  delivered are never empty, their events are the first ones that arrived, in order and each once; and as long as the
  consumer is there, what has not been delivered is in the buffer, which is empty once the batcher has finished.\<close>

theorem batches_keep_events:
  "case batcher_run ts [] [] of
     (st, rest, sent) \<Rightarrow>
       list_all (\<lambda>b. eb_events b \<noteq> []) sent \<and>
       prefix (concat (map eb_events sent)) (arrivals ts) \<and>
       (list_all bt_downstream_open ts \<longrightarrow>
          concat (map eb_events sent) @ rest = arrivals ts \<and> (st = Finished \<longrightarrow> rest = []))"
  using batcher_conserves [of ts "[]" "[]"] by (auto split: prod.splits)

theorem batches_keep_events_witness:
  "batcher_run
     [\<lparr>bt_input = Received (1 :: nat), bt_downstream_open = True, bt_now_ns = 5\<rparr>,
      \<lparr>bt_input = WindowTick, bt_downstream_open = True, bt_now_ns = 6\<rparr>,
      \<lparr>bt_input = Received 2, bt_downstream_open = True, bt_now_ns = 7\<rparr>,
      \<lparr>bt_input = UpstreamClosed, bt_downstream_open = True, bt_now_ns = 8\<rparr>] [] []
   = (Finished, [], [\<lparr>eb_events = [1], eb_flushed_at_ns = 6\<rparr>, \<lparr>eb_events = [2], eb_flushed_at_ns = 8\<rparr>]) \<and>
   arrivals
     [\<lparr>bt_input = Received (1 :: nat), bt_downstream_open = True, bt_now_ns = 5\<rparr>,
      \<lparr>bt_input = WindowTick, bt_downstream_open = True, bt_now_ns = 6\<rparr>,
      \<lparr>bt_input = Received 2, bt_downstream_open = True, bt_now_ns = 7\<rparr>,
      \<lparr>bt_input = UpstreamClosed, bt_downstream_open = True, bt_now_ns = 8\<rparr>] = [1, 2]"
  using batches_keep_events [of
     "[\<lparr>bt_input = Received (1 :: nat), bt_downstream_open = True, bt_now_ns = 5\<rparr>,
      \<lparr>bt_input = WindowTick, bt_downstream_open = True, bt_now_ns = 6\<rparr>,
      \<lparr>bt_input = Received 2, bt_downstream_open = True, bt_now_ns = 7\<rparr>,
      \<lparr>bt_input = UpstreamClosed, bt_downstream_open = True, bt_now_ns = 8\<rparr>]"]
  by (simp add: flush_def)

section \<open>The subscribers\<close>

interpretation feed_backoff: doubling_backoff "\<lambda>d. d" INITIAL_BACKOFF next_backoff MAX_BACKOFF
  by unfold_locales (simp_all add: INITIAL_BACKOFF_def MAX_BACKOFF_def next_backoff_def)

definition nth_backoff :: "nat \<Rightarrow> nat" where
  "nth_backoff k = min (500 * 2 ^ k) 30000"

lemma nth_backoff_0: "INITIAL_BACKOFF = nth_backoff 0"
  by (simp add: INITIAL_BACKOFF_def nth_backoff_def)

lemma nth_backoff_Suc: "next_backoff (nth_backoff k) = nth_backoff (Suc k)"
  using feed_backoff.nth_ms [of k] feed_backoff.nth_ms [of "Suc k"]
  by (simp add: nth_backoff_def INITIAL_BACKOFF_def MAX_BACKOFF_def mult.commute)

lemma nth_backoff_bounds: "500 \<le> nth_backoff k" "nth_backoff k \<le> 30000"
  by (simp_all add: nth_backoff_def)

lemma subseq_left: "subseq a c \<Longrightarrow> subseq a (c @ d)"
  using list_emb_append_mono [of "(=)" a c "[]" d] by simp

lemma subseq_step: "prefix a c \<Longrightarrow> subseq b d \<Longrightarrow> subseq (a @ b) (c @ d)"
  by (rule list_emb_append_mono) (auto simp: prefix_def intro: subseq_left)

fun turn_logs :: "'l log_turn list \<Rightarrow> 'l list" where
  "turn_logs [] = []"
| "turn_logs (LogArrives l consumer # ts) = l # turn_logs ts"
| "turn_logs (StreamEnds # ts) = turn_logs ts"

definition consumer_left :: "'l log_session \<Rightarrow> bool" where
  "consumer_left s \<longleftrightarrow> list_ex (\<lambda>t. case t of LogArrives l consumer \<Rightarrow> \<not> consumer | StreamEnds \<Rightarrow> False) (ls_turns s)"

lemma forward_logs_result:
  "forward_logs ts sent = (r, sent') \<Longrightarrow>
    \<exists>new. sent' = sent @ new \<and> prefix new (turn_logs ts) \<and> r \<noteq> Some Panic \<and>
      (r = Some (Ok ()) \<longrightarrow> list_ex (\<lambda>t. case t of LogArrives l consumer \<Rightarrow> \<not> consumer | StreamEnds \<Rightarrow> False) ts)"
proof (induction ts sent rule: forward_logs.induct)
  case (2 l consumer ts sent)
  then show ?case by (cases consumer) fastforce+
qed auto

lemma subscribe_once_result:
  assumes "subscribe_once s sent = (r, sent')"
  shows "\<exists>new. sent' = sent @ new \<and> prefix new (turn_logs (ls_turns s)) \<and> (r = Some (Ok ()) \<longrightarrow> consumer_left s) \<and>
    r \<noteq> Some Panic"
  using assms forward_logs_result [of "ls_turns s" sent r sent']
  by (auto simp: subscribe_once_def consumer_left_def split: option.splits)

lemma subscriber_run_result:
  "subscriber_run ss (nth_backoff k) sent waits = (st, sent', waits') \<Longrightarrow>
    \<exists>new n. sent' = sent @ new \<and> subseq new (concat (map (\<lambda>s. turn_logs (ls_turns s)) ss)) \<and>
      waits' = waits @ map nth_backoff [k ..< k + n] \<and> (st = Finished \<longrightarrow> list_ex consumer_left ss)"
proof (induction ss arbitrary: k sent waits)
  case (Cons s ss)
  obtain r sent1 where o: "subscribe_once s sent = (r, sent1)" by force
  from subscribe_once_result [OF o] obtain new1 where
    new1: "sent1 = sent @ new1" "prefix new1 (turn_logs (ls_turns s))" "r = Some (Ok ()) \<longrightarrow> consumer_left s" "r \<noteq> Some Panic"
    by blast
  have sub1: "subseq new1 (concat (map (\<lambda>s. turn_logs (ls_turns s)) (s # ss)))"
    using new1(2) by (auto simp: prefix_def)
  show ?case
  proof (cases "\<exists>e. r = Some (Err e)")
    case True
    with Cons.prems o have "subscriber_run ss (nth_backoff (Suc k)) sent1 (waits @ [nth_backoff k]) = (st, sent', waits')"
      by (auto simp: nth_backoff_Suc)
    from Cons.IH [OF this] obtain new n where n: "sent' = sent1 @ new"
      "subseq new (concat (map (\<lambda>s. turn_logs (ls_turns s)) ss))"
      "waits' = (waits @ [nth_backoff k]) @ map nth_backoff [Suc k ..< Suc k + n]" "st = Finished \<longrightarrow> list_ex consumer_left ss"
      by blast
    have "subseq (new1 @ new) (concat (map (\<lambda>s. turn_logs (ls_turns s)) (s # ss)))"
      using subseq_step [OF new1(2) n(2)] by simp
    moreover have "map nth_backoff [k ..< k + Suc n] = nth_backoff k # map nth_backoff [Suc k ..< Suc k + n]"
      by (simp add: upt_conv_Cons del: upt_Suc)
    ultimately show ?thesis
      using n new1(1) by (intro exI [of _ "new1 @ new"] exI [of _ "Suc n"]) (simp del: upt_Suc)
  next
    case False
    with new1(4) have "r = None \<or> r = Some (Ok ())" by (cases r) (auto, metis outcome.exhaust old.unit.exhaust)
    then show ?thesis
      using Cons.prems o new1 sub1 by (intro exI [of _ new1] exI [of _ 0]) auto
  qed
qed (auto intro: exI [of _ 0])

text \<open>The log subscriber forwards logs in the order of their arrival, over all its connections, each at most once; it stops only
  when its consumer has gone; and its waits are half a second doubled after every failure, at most 30 seconds: they are
  never shortened again, however long a connection has lasted.\<close>

theorem log_subscriber_relays:
  "case subscriber_run ss INITIAL_BACKOFF [] [] of
     (st, sent, waits) \<Rightarrow>
       subseq sent (concat (map (\<lambda>s. turn_logs (ls_turns s)) ss)) \<and>
       waits = map nth_backoff [0 ..< length waits] \<and>
       (st = Finished \<longrightarrow> list_ex consumer_left ss)"
proof -
  obtain st sent waits where r: "subscriber_run ss (nth_backoff 0) [] [] = (st, sent, waits)" by (metis prod_cases3)
  from subscriber_run_result [OF this] show ?thesis unfolding nth_backoff_0 r by auto
qed

section \<open>The sequencer feed\<close>

definition frame_messages :: "(u8 list \<Rightarrow> string + 'v BroadcastMessage) \<Rightarrow> feed_turn \<Rightarrow> 'v BroadcastFeedMessage list" where
  "frame_messages from_slice t =
     (case ft_input t of
        FrameData bytes \<Rightarrow>
          (case parse_envelope from_slice bytes of
             Ok env \<Rightarrow> (case bm_messages env of Some ms \<Rightarrow> ms | None \<Rightarrow> [])
           | _ \<Rightarrow> [])
      | _ \<Rightarrow> [])"

definition session_messages :: "(u8 list \<Rightarrow> string + 'v BroadcastMessage) \<Rightarrow> feed_session \<Rightarrow> 'v BroadcastFeedMessage list" where
  "session_messages from_slice s = concat (map (frame_messages from_slice) (fn_turns s))"

lemma dispatch_result:
  assumes "dispatch_envelope from_slice show_error t raw sinks = (r, sinks')"
  shows "fs_waits sinks' = fs_waits sinks \<and>
    (\<exists>new. fs_messages sinks' = fs_messages sinks @ new \<and>
       (ft_input t = FrameData raw \<longrightarrow> prefix new (frame_messages from_slice t)))"
  using assms
  by (auto simp: dispatch_envelope_def frame_messages_def Let_def take_is_prefix split: outcome.splits option.splits if_splits)

lemma session_loop_result:
  "feed_session_loop from_slice show_error ts sinks = (r, sinks') \<Longrightarrow>
    fs_waits sinks' = fs_waits sinks \<and>
    (\<exists>new. fs_messages sinks' = fs_messages sinks @ new \<and>
       subseq new (concat (map (frame_messages from_slice) ts)))"
proof (induction ts arbitrary: sinks)
  case (Cons t ts)
  show ?case
  proof (cases "ft_input t")
    case (FrameData bytes)
    obtain q s1 where d: "dispatch_envelope from_slice show_error t bytes sinks = (q, s1)" by force
    from dispatch_result [OF d] FrameData obtain new1 where
      new1: "fs_waits s1 = fs_waits sinks" "fs_messages s1 = fs_messages sinks @ new1" "prefix new1 (frame_messages from_slice t)"
      by blast
    show ?thesis
    proof (cases q)
      case (Ok u)
      then have "feed_session_loop from_slice show_error ts s1 = (r, sinks')" using Cons.prems FrameData d by simp
      from Cons.IH [OF this] new1 show ?thesis by (auto intro!: subseq_step)
    qed (use Cons.prems FrameData d new1 subseq_step [OF new1(3), of "[]"] in \<open>auto\<close>)
  qed (use Cons in \<open>auto simp: frame_messages_def split: if_splits\<close>)
qed simp

lemma connect_once_result:
  assumes "connect_once from_slice show_error s sinks = (r, sinks')"
  shows "fs_waits sinks' = fs_waits sinks \<and>
    (\<exists>new. fs_messages sinks' = fs_messages sinks @ new \<and> subseq new (session_messages from_slice s))"
  using assms session_loop_result [of from_slice show_error "fn_turns s" sinks r sinks']
  by (auto simp: connect_once_def session_messages_def split: option.splits)

definition bounded_waits :: "nat list \<Rightarrow> bool" where
  "bounded_waits ws \<longleftrightarrow> list_all (\<lambda>d. \<exists>k. d = nth_backoff k) ws"

lemma feed_run_result:
  "feed_run_loop from_slice show_error as (nth_backoff k) sinks = (st, sinks') \<Longrightarrow>
    \<exists>new. fs_messages sinks' = fs_messages sinks @ new \<and>
      subseq new (concat (map (\<lambda>a. session_messages from_slice (fa_session a)) as)) \<and>
      (bounded_waits (fs_waits sinks) \<longrightarrow> bounded_waits (fs_waits sinks')) \<and>
      (st = Finished \<longrightarrow> list_ex (\<lambda>a. fa_cancelled a \<or> fa_cancelled_waiting a) as)"
proof (induction as arbitrary: k sinks)
  case (Cons a as)
  show ?case
  proof (cases "fa_cancelled a")
    case False
    obtain r s1 where c: "connect_once from_slice show_error (fa_session a) sinks = (r, s1)" by force
    from connect_once_result [OF c] obtain new1 where
      new1: "fs_waits s1 = fs_waits sinks" "fs_messages s1 = fs_messages sinks @ new1"
        "subseq new1 (session_messages from_slice (fa_session a))" by blast
    have go: ?thesis if "feed_run_loop from_slice show_error as (nth_backoff j) s2 = (st, sinks')"
      "fs_messages s2 = fs_messages s1" "bounded_waits (fs_waits s1) \<longrightarrow> bounded_waits (fs_waits s2)" for j s2
      using Cons.IH [OF that(1)] that(2,3) new1 by (auto intro!: list_emb_append_mono)
    have stop: ?thesis if "sinks' = s2" "fs_messages s2 = fs_messages s1"
      "bounded_waits (fs_waits s1) \<longrightarrow> bounded_waits (fs_waits s2)" "st = Finished \<longrightarrow> fa_cancelled_waiting a" for s2
      using that new1 subseq_left [OF new1(3)] by (intro exI [of _ new1]) auto
    show ?thesis
    proof (cases "\<exists>e. r = Some (Err e)")
      case True
      then obtain e where r: "r = Some (Err e)" by blast
      define s2 where "s2 = (if fa_error_room a then s1\<lparr>fs_errors := fs_errors s1 @ [e]\<rparr> else s1)
        \<lparr>fs_waits := fs_waits s1 @ [nth_backoff k]\<rparr>"
      have s2: "fs_messages s2 = fs_messages s1" "bounded_waits (fs_waits s1) \<longrightarrow> bounded_waits (fs_waits s2)"
        by (auto simp: s2_def bounded_waits_def)
      have w: "fs_waits (if fa_error_room a then s1\<lparr>fs_errors := fs_errors s1 @ [e]\<rparr> else s1) = fs_waits s1" by simp
      from Cons.prems False c r w have run: "(if fa_cancelled_waiting a then (Finished, s2)
          else feed_run_loop from_slice show_error as (nth_backoff (Suc k)) s2) = (st, sinks')"
        by (auto simp: Let_def s2_def nth_backoff_Suc split: if_splits)
      show ?thesis
      proof (cases "fa_cancelled_waiting a")
        case True
        then show ?thesis using run by (intro stop [OF _ s2]) auto
      next
        case False
        then show ?thesis using run by (intro go [OF _ s2]) auto
      qed
    next
      case other: False
      show ?thesis
      proof (cases r)
        case None
        then show ?thesis using Cons.prems False c by (intro stop [of s1]) auto
      next
        case (Some o1)
        then have "feed_run_loop from_slice show_error as (nth_backoff 0) s1 = (st, sinks')"
          using Cons.prems False c other by (cases o1) (auto simp: nth_backoff_0)
        then show ?thesis by (rule go) simp_all
      qed
    qed
  qed (use Cons.prems in auto)
qed simp

text \<open>
  C14. The subscriber of the sequencer feed relays messages in order: over all connections, whatever frames arrive and whenever a
  consumer is slow or gone, the messages handed on are messages of the frames in their order, each at most once; every wait
  between two attempts is half a second doubled some number of times, at most 30 seconds; and only a cancellation ends
  the subscriber: it never stops because its consumers are gone.\<close>

theorem feed_relay_in_order:
  "case feed_run_loop from_slice show_error as INITIAL_BACKOFF
       \<lparr>fs_messages = [], fs_confirmations = [], fs_errors = [], fs_waits = []\<rparr> of
     (st, sinks) \<Rightarrow>
       subseq (fs_messages sinks) (concat (map (\<lambda>a. session_messages from_slice (fa_session a)) as)) \<and>
       bounded_waits (fs_waits sinks) \<and>
       (st = Finished \<longrightarrow> list_ex (\<lambda>a. fa_cancelled a \<or> fa_cancelled_waiting a) as)"
proof -
  let ?s = "\<lparr>fs_messages = [], fs_confirmations = [], fs_errors = [], fs_waits = []\<rparr>"
  obtain st sinks where r: "feed_run_loop from_slice show_error as (nth_backoff 0) ?s = (st, sinks)" by force
  from feed_run_result [OF this] show ?thesis unfolding nth_backoff_0 r by (auto simp: bounded_waits_def)
qed

definition sample_message :: "u64 \<Rightarrow> unit BroadcastFeedMessage" where
  "sample_message n = \<lparr>bf_sequence_number = n, bf_message = (), bf_block_hash = None, bf_signature = [], bf_block_metadata = None\<rparr>"

definition sample_envelope :: "u8 list \<Rightarrow> string + unit BroadcastMessage" where
  \<comment> \<open>a parser that takes the first byte for the number of the only message\<close>
  "sample_envelope bytes =
     (case bytes of
        [] \<Rightarrow> Inl ''empty''
      | b # _ \<Rightarrow> Inr \<lparr>bm_version = 1, bm_messages = Some [sample_message (ucast b)], bm_confirmed = None\<rparr>)"

definition sample_attempt :: "(u8 \<times> nat) list \<Rightarrow> feed_attempt" where
  "sample_attempt frames =
     \<lparr>fa_cancelled = False,
      fa_session = \<lparr>fn_request_error = None, fn_connect_error = None,
        fn_turns = map (\<lambda>(b, n). \<lparr>ft_input = FrameData [b], ft_accepted = n, ft_confirmation_room = True,
          ft_error_room = True\<rparr>) frames\<rparr>,
      fa_error_room = False, fa_cancelled_waiting = False\<rparr>"

theorem feed_relay_in_order_witness:
  "feed_run_loop sample_envelope (\<lambda>_. []) [sample_attempt [(1, 1), (2, 0)], sample_attempt [(3, 0)]] INITIAL_BACKOFF
       \<lparr>fs_messages = [], fs_confirmations = [], fs_errors = [], fs_waits = []\<rparr>
     = (Running, \<lparr>fs_messages = [sample_message 1], fs_confirmations = [], fs_errors = [], fs_waits = [500, 1000]\<rparr>) \<and>
   bounded_waits [500, 1000]"
proof -
  have run: "feed_run_loop sample_envelope (\<lambda>_. []) [sample_attempt [(1, 1), (2, 0)], sample_attempt [(3, 0)]]
      INITIAL_BACKOFF \<lparr>fs_messages = [], fs_confirmations = [], fs_errors = [], fs_waits = []\<rparr>
    = (Running, \<lparr>fs_messages = [sample_message 1], fs_confirmations = [], fs_errors = [], fs_waits = [500, 1000]\<rparr>)"
    by (simp add: sample_attempt_def connect_once_def dispatch_envelope_def parse_envelope_def sample_envelope_def
        lift_err_def INITIAL_BACKOFF_def next_backoff_def MAX_BACKOFF_def Let_def)
  then show ?thesis
    using feed_relay_in_order [where from_slice = sample_envelope and show_error = "\<lambda>_. []"
        and as = "[sample_attempt [(1, 1), (2, 0)], sample_attempt [(3, 0)]]"]
    by simp
qed

end
