(* ===== verification/Preflight.thy ===== *)
theory Preflight
  imports Live_Backend
begin

text \<open>
  \<open>executor/preflight.rs\<close>: the simulation that a plan passes before it is broadcast. \<open>Web3Db\<close> answers the
  account and storage queries of the interpreter from the provider; the interpreter itself (\<open>revm\<close> with its
  \<open>CacheDB\<close>) and the ABI decoders are the record \<open>revm\<close>, an argument of the definitions: functions over a
  database state \<open>'d\<close>, with byte code of a type \<open>'c\<close>. The private copy of \<open>u256_diff_to_i256\<close> has the body of the
  one of the live backend, which is used here.
\<close>

section \<open>The database\<close>

record 'c AccountInfo =
  ai_balance :: u256
  ai_nonce :: u64
  ai_code_hash :: u256
  ai_code :: "'c option"

record 'c bytecode =
  bc_new :: 'c
  bc_new_raw :: "u8 list \<Rightarrow> 'c"
  bc_new_eip7702 :: "u160 \<Rightarrow> 'c" \<comment> \<open>a delegation designator\<close>
  bc_is_empty :: "'c \<Rightarrow> bool"
  bc_hash_slow :: "'c \<Rightarrow> u256"
  KECCAK_EMPTY :: u256

record 'w web3 =
  \<comment> \<open>the provider at a block tag\<close>
  w3_nonce :: "u160 \<Rightarrow> 'w \<Rightarrow> (string + u64) \<times> 'w"
  w3_balance :: "u160 \<Rightarrow> 'w \<Rightarrow> (string + u256) \<times> 'w"
  w3_code :: "u160 \<Rightarrow> 'w \<Rightarrow> (string + u8 list) \<times> 'w"
  w3_storage :: "u160 \<Rightarrow> u256 \<Rightarrow> 'w \<Rightarrow> (string + u256) \<times> 'w"
  w3_block_hash :: "u64 \<Rightarrow> 'w \<Rightarrow> (string + u256 option) \<times> 'w" \<comment> \<open>the hash in the header, if there is a block\<close>
  w3_show :: "u160 \<Rightarrow> string"

datatype Web3DbError = Web3DbError string

definition show_web3_error :: "Web3DbError \<Rightarrow> string" where
  "show_web3_error e = (case e of Web3DbError s \<Rightarrow> ''Web3Db: '' @ s)"

definition basic_ref ::
    "'w web3 \<Rightarrow> 'c bytecode \<Rightarrow> u160 \<Rightarrow> 'w \<Rightarrow> (Web3DbError + 'c AccountInfo option) \<times> 'w" where
  \<comment> \<open>the three queries run together; of several failures the first in the order of the source is taken\<close>
  "basic_ref W C address w =
     (let (nonce, w) = w3_nonce W address w;
          (balance, w) = w3_balance W address w;
          (code, w) = w3_code W address w
      in case nonce of
           Inl e \<Rightarrow> (Inl (Web3DbError (''nonce '' @ w3_show W address @ '': '' @ e)), w)
         | Inr nonce \<Rightarrow>
         (case balance of
            Inl e \<Rightarrow> (Inl (Web3DbError (''balance '' @ w3_show W address @ '': '' @ e)), w)
          | Inr balance \<Rightarrow>
          (case code of
             Inl e \<Rightarrow> (Inl (Web3DbError (''code '' @ w3_show W address @ '': '' @ e)), w)
           | Inr code_bytes \<Rightarrow>
               let bytecode = (if code_bytes = [] then bc_new C else bc_new_raw C code_bytes);
                   code_hash = (if bc_is_empty C bytecode then KECCAK_EMPTY C else bc_hash_slow C bytecode)
               in (Inr (Some \<lparr>ai_balance = balance, ai_nonce = nonce, ai_code_hash = code_hash,
                              ai_code = Some bytecode\<rparr>), w))))"

definition code_by_hash_ref :: "'c bytecode \<Rightarrow> u256 \<Rightarrow> Web3DbError + 'c" where
  "code_by_hash_ref C code_hash = Inr (bc_new C)"

definition storage_ref :: "'w web3 \<Rightarrow> u160 \<Rightarrow> u256 \<Rightarrow> 'w \<Rightarrow> (Web3DbError + u256) \<times> 'w" where
  "storage_ref W address index w =
     (case w3_storage W address index w of
        (Inl e, w) \<Rightarrow>
          (Inl (Web3DbError (''storage '' @ w3_show W address @ ''['' @ decimal (unat index) @ '']: '' @ e)), w)
      | (Inr v, w) \<Rightarrow> (Inr v, w))"

definition block_hash_ref :: "'w web3 \<Rightarrow> u64 \<Rightarrow> 'w \<Rightarrow> (Web3DbError + u256) \<times> 'w" where
  "block_hash_ref W number w =
     (case w3_block_hash W number w of
        (Inl e, w) \<Rightarrow> (Inl (Web3DbError (''block '' @ decimal (unat number) @ '': '' @ e)), w)
      | (Inr (Some h), w) \<Rightarrow> (Inr h, w)
      | (Inr None, w) \<Rightarrow> (Inl (Web3DbError (''block '' @ decimal (unat number) @ '' not found'')), w))"

section \<open>The interpreter\<close>

record TxEnv =
  tx_caller :: u160
  tx_call :: u160
  tx_data :: "u8 list"
  tx_value :: u256
  tx_gas_limit :: u64
  tx_gas_price :: u128
  tx_gas_priority_fee :: "u128 option"

datatype ExecutionResult =
    ER_Success "u8 list"
  | ER_Revert "u8 list"
  | ER_Halt string \<comment> \<open>the printed reason\<close>

record ('d, 'c) revm =
  ev_code :: "'c bytecode"
  ev_basic :: "u160 \<Rightarrow> 'd \<Rightarrow> (string + 'c AccountInfo option) \<times> 'd" \<comment> \<open>\<open>CacheDB::basic\<close>\<close>
  ev_code_by_hash :: "u256 \<Rightarrow> 'd \<Rightarrow> (string + 'c) \<times> 'd"
  ev_insert_account_info :: "u160 \<Rightarrow> 'c AccountInfo \<Rightarrow> 'd \<Rightarrow> 'd"
  ev_build :: "TxEnv \<Rightarrow> string + TxEnv" \<comment> \<open>\<open>TxEnvBuilder::build\<close>\<close>
  ev_transact :: "TxEnv \<Rightarrow> 'd \<Rightarrow> (string + ExecutionResult) \<times> 'd"
  ev_transact_commit :: "TxEnv \<Rightarrow> 'd \<Rightarrow> (string + ExecutionResult) \<times> 'd"
  ev_balance_of_call :: "u160 \<Rightarrow> u8 list" \<comment> \<open>\<open>balanceOfCall::abi_encode\<close>\<close>
  ev_decode_returns :: "u8 list \<Rightarrow> string + u256" \<comment> \<open>\<open>balanceOfCall::abi_decode_returns\<close>\<close>
  ev_decode_string :: "u8 list \<Rightarrow> string option" \<comment> \<open>\<open>String::abi_decode\<close>\<close>
  ev_hex :: "u8 list \<Rightarrow> string"
  ev_show :: "u160 \<Rightarrow> string"

definition BALANCE_OF_GAS_LIMIT :: u64 where
  "BALANCE_OF_GAS_LIMIT = 100000"

definition NATIVE_TOKEN :: u160 where
  "NATIVE_TOKEN = 0"

definition format_revert_reason :: "('d, 'c) revm \<Rightarrow> u8 list \<Rightarrow> string" where
  "format_revert_reason E data =
     (case (if 4 \<le> length data \<and> take 4 data = [0x08, 0xc3, 0x79, 0xa0] then ev_decode_string E (drop 4 data) else None) of
        Some s \<Rightarrow> ''revert: '' @ s
      | None \<Rightarrow> if data = [] then ''revert: <empty>'' else ''revert: 0x'' @ ev_hex E data)"

definition apply_eip7702_delegation_overlay ::
    "('d, 'c) revm \<Rightarrow> Plan \<Rightarrow> u160 \<Rightarrow> 'd \<Rightarrow> (PreflightError + unit) \<times> 'd" where
  "apply_eip7702_delegation_overlay E plan from_address d =
     (case ep_eip7702 plan of
        None \<Rightarrow> (Inr (), d)
      | Some delegation \<Rightarrow>
          if authority delegation \<noteq> from_address then
            (Inl (SimulationReverted ''eip7702 authority must equal preflight signer''), d)
          else if ep_target plan \<noteq> authority delegation then
            (Inl (SimulationReverted ''eip7702 plan target must equal authority''), d)
          else
            (case ev_basic E (delegate_address delegation) d of
               (Inl e, d) \<Rightarrow> (Inl (Unavailable (''eip7702 delegate account: '' @ e)), d)
             | (Inr None, d) \<Rightarrow>
                 (Inl (SimulationReverted (''eip7702 delegate '' @ ev_show E (delegate_address delegation)
                    @ '' has no account'')), d)
             | (Inr (Some delegate_info), d) \<Rightarrow>
            (case (case ai_code delegate_info of
                     Some code \<Rightarrow> (Inr code, d)
                   | None \<Rightarrow> ev_code_by_hash E (ai_code_hash delegate_info) d) of
               (Inl e, d) \<Rightarrow> (Inl (Unavailable (''eip7702 delegate code: '' @ e)), d)
             | (Inr delegate_code, d) \<Rightarrow>
                 if bc_is_empty (ev_code E) delegate_code then
                   (Inl (SimulationReverted (''eip7702 delegate '' @ ev_show E (delegate_address delegation)
                      @ '' has empty code'')), d)
                 else
            (case ev_basic E (authority delegation) d of
               (Inl e, d) \<Rightarrow> (Inl (Unavailable (''eip7702 authority account: '' @ e)), d)
             | (Inr info, d) \<Rightarrow>
                 let authority_info = (case info of
                       Some i \<Rightarrow> i
                     | None \<Rightarrow> \<lparr>ai_balance = 0, ai_nonce = 0, ai_code_hash = KECCAK_EMPTY (ev_code E),
                                ai_code = Some (bc_new (ev_code E))\<rparr>);
                     designator = bc_new_eip7702 (ev_code E) (delegate_address delegation);
                     authority_info = authority_info\<lparr>ai_code_hash := bc_hash_slow (ev_code E) designator,
                                                     ai_code := Some designator\<rparr>
                 in (Inr (), ev_insert_account_info E (authority delegation) authority_info d)))))"

datatype BalanceReadError = BR_Reverted string | BR_Decode string | BR_Evm string

fun map_balance_err :: "string \<Rightarrow> BalanceReadError \<Rightarrow> PreflightError" where
  "map_balance_err stage (BR_Reverted s) = SimulationReverted (stage @ '' balanceOf: '' @ s)"
| "map_balance_err stage (BR_Decode s) = SimulationReverted (stage @ '' balanceOf decode: '' @ s)"
| "map_balance_err stage (BR_Evm s) = Unavailable (stage @ '' balanceOf evm: '' @ s)"

definition plan_tx :: "Plan \<Rightarrow> u160 \<Rightarrow> TxEnv" where
  "plan_tx plan from_address =
     \<lparr>tx_caller = from_address, tx_call = ep_target plan, tx_data = ep_calldata plan, tx_value = ep_value plan,
      tx_gas_limit = ep_gas_limit plan, tx_gas_price = 0, tx_gas_priority_fee = Some 0\<rparr>"

definition execute_plan_tx :: "('d, 'c) revm \<Rightarrow> Plan \<Rightarrow> u160 \<Rightarrow> 'd \<Rightarrow> (PreflightError + unit) \<times> 'd" where
  "execute_plan_tx E plan from_address d =
     (case ev_build E (plan_tx plan from_address) of
        Inl e \<Rightarrow> (Inl (SimulationReverted (''plan tx env: '' @ e)), d)
      | Inr tx \<Rightarrow>
          (case ev_transact_commit E tx d of
             (Inl e, d) \<Rightarrow> (Inl (SimulationReverted (''plan exec: '' @ e)), d)
           | (Inr (ER_Success out), d) \<Rightarrow> (Inr (), d)
           | (Inr (ER_Revert out), d) \<Rightarrow> (Inl (SimulationReverted (format_revert_reason E out)), d)
           | (Inr (ER_Halt reason), d) \<Rightarrow> (Inl (SimulationReverted (''halt: '' @ reason)), d)))"

definition balance_tx :: "('d, 'c) revm \<Rightarrow> u160 \<Rightarrow> u160 \<Rightarrow> TxEnv" where
  \<comment> \<open>the builder's default value is zero\<close>
  "balance_tx E token owner =
     \<lparr>tx_caller = owner, tx_call = token, tx_data = ev_balance_of_call E owner, tx_value = 0,
      tx_gas_limit = BALANCE_OF_GAS_LIMIT, tx_gas_price = 0, tx_gas_priority_fee = Some 0\<rparr>"

definition read_erc20_balance ::
    "('d, 'c) revm \<Rightarrow> u160 \<Rightarrow> u160 \<Rightarrow> 'd \<Rightarrow> (BalanceReadError + u256) \<times> 'd" where
  "read_erc20_balance E token owner d =
     (case ev_build E (balance_tx E token owner) of
        Inl e \<Rightarrow> (Inl (BR_Evm (''balanceOf tx env: '' @ e)), d)
      | Inr tx \<Rightarrow>
          (case ev_transact E tx d of
             (Inl e, d) \<Rightarrow> (Inl (BR_Evm (''balanceOf transact: '' @ e)), d)
           | (Inr (ER_Success out), d) \<Rightarrow>
               (case ev_decode_returns E out of Inl e \<Rightarrow> (Inl (BR_Decode e), d) | Inr v \<Rightarrow> (Inr v, d))
           | (Inr (ER_Revert out), d) \<Rightarrow> (Inl (BR_Reverted (format_revert_reason E out)), d)
           | (Inr (ER_Halt reason), d) \<Rightarrow> (Inl (BR_Reverted (''halt: '' @ reason)), d)))"

definition read_native_balance :: "('d, 'c) revm \<Rightarrow> u160 \<Rightarrow> 'd \<Rightarrow> (BalanceReadError + u256) \<times> 'd" where
  "read_native_balance E owner d =
     (case ev_basic E owner d of
        (Inl e, d) \<Rightarrow> (Inl (BR_Evm (''native balance: '' @ e)), d)
      | (Inr account, d) \<Rightarrow> (Inr (case account of None \<Rightarrow> 0 | Some info \<Rightarrow> ai_balance info), d))"

definition measured ::
    "('d \<Rightarrow> (BalanceReadError + u256) \<times> 'd) \<Rightarrow> ('d, 'c) revm \<Rightarrow> Plan \<Rightarrow> u160 \<Rightarrow> 'd \<Rightarrow> (PreflightError + i256) \<times> 'd" where
  \<comment> \<open>the three stages, which the source writes out once for the native token and once for the others\<close>
  "measured read E plan from_address d =
     (case read d of
        (Inl e, d) \<Rightarrow> (Inl (map_balance_err ''pre'' e), d)
      | (Inr pre_balance, d) \<Rightarrow>
     (case execute_plan_tx E plan from_address d of
        (Inl e, d) \<Rightarrow> (Inl e, d)
      | (Inr _, d) \<Rightarrow>
     (case read d of
        (Inl e, d) \<Rightarrow> (Inl (map_balance_err ''post'' e), d)
      | (Inr post_balance, d) \<Rightarrow> (Inr (u256_diff_to_i256 post_balance pre_balance), d))))"

definition run_preflight_blocking ::
    "('d, 'c) revm \<Rightarrow> bool \<Rightarrow> Plan \<Rightarrow> u160 \<Rightarrow> 'd \<Rightarrow> (PreflightError + i256) \<times> 'd" where
  \<comment> \<open>the flag: a runtime handle is there, so that \<open>Web3Db::new\<close> succeeds\<close>
  "run_preflight_blocking E handle plan from_address d =
     (if \<not> handle then (Inl (Unavailable ''tokio runtime handle unavailable in preflight thread''), d)
      else
        (case apply_eip7702_delegation_overlay E plan from_address d of
           (Inl e, d) \<Rightarrow> (Inl e, d)
         | (Inr _, d) \<Rightarrow>
             if ep_profit_token plan = NATIVE_TOKEN then measured (read_native_balance E from_address) E plan from_address d
             else measured (read_erc20_balance E (ep_profit_token plan) from_address) E plan from_address d))"

definition preflight_check ::
    "('d, 'c) revm \<Rightarrow> bool \<Rightarrow> string option \<Rightarrow> Plan \<Rightarrow> u160 \<Rightarrow> 'd \<Rightarrow> PreflightError + i256" where
  \<comment> \<open>\<open>check\<close>; the third argument is the error of joining the blocking task, if there is one\<close>
  "preflight_check E handle join_error plan from_address d =
     (case join_error of
        Some e \<Rightarrow> Inl (ForkFailed (''spawn_blocking: '' @ e))
      | None \<Rightarrow> fst (run_preflight_blocking E handle plan from_address d))"

section \<open>What is simulated\<close>

definition simulates ::
    "('d, 'c) revm \<Rightarrow> ('d \<Rightarrow> 'v) \<Rightarrow> ('v \<Rightarrow> u160 \<Rightarrow> 'c AccountInfo option) \<Rightarrow> (u160 \<Rightarrow> 'c AccountInfo \<Rightarrow> 'v \<Rightarrow> 'v) \<Rightarrow>
      (TxEnv \<Rightarrow> 'v \<Rightarrow> ExecutionResult \<times> 'v) \<Rightarrow> bool" where
  \<comment> \<open>what the interpreter promises of the calls that succeed, over chain states \<open>'v\<close> and the effect \<open>exec\<close> of a
    transaction on them: queries and \<open>transact\<close> leave the state as it is, \<open>transact_commit\<close> applies the transaction,
    and the builder keeps the values it is given\<close>
  "simulates E view account put exec \<longleftrightarrow>
     (\<forall>a d r d'. ev_basic E a d = (Inr r, d') \<longrightarrow> r = account (view d) a \<and> view d' = view d) \<and>
     (\<forall>h d r d'. ev_code_by_hash E h d = (Inr r, d') \<longrightarrow> view d' = view d) \<and>
     (\<forall>a i d. view (ev_insert_account_info E a i d) = put a i (view d)) \<and>
     (\<forall>tx tx'. ev_build E tx = Inr tx' \<longrightarrow> tx' = tx) \<and>
     (\<forall>tx d r d'. ev_transact E tx d = (Inr r, d') \<longrightarrow> r = fst (exec tx (view d)) \<and> view d' = view d) \<and>
     (\<forall>tx d r d'. ev_transact_commit E tx d = (Inr r, d') \<longrightarrow> exec tx (view d) = (r, view d'))"

definition balance_is ::
    "('d, 'c) revm \<Rightarrow> ('v \<Rightarrow> u160 \<Rightarrow> 'c AccountInfo option) \<Rightarrow> (TxEnv \<Rightarrow> 'v \<Rightarrow> ExecutionResult \<times> 'v) \<Rightarrow>
      u160 \<Rightarrow> u160 \<Rightarrow> 'v \<Rightarrow> u256 \<Rightarrow> bool" where
  "balance_is E account exec token owner v n \<longleftrightarrow>
     (if token = NATIVE_TOKEN then n = (case account v owner of None \<Rightarrow> 0 | Some info \<Rightarrow> ai_balance info)
      else \<exists>out. fst (exec (balance_tx E token owner) v) = ER_Success out \<and> ev_decode_returns E out = Inr n)"

definition prepared ::
    "('d, 'c) revm \<Rightarrow> ('v \<Rightarrow> u160 \<Rightarrow> 'c AccountInfo option) \<Rightarrow> (u160 \<Rightarrow> 'c AccountInfo \<Rightarrow> 'v \<Rightarrow> 'v) \<Rightarrow>
      Plan \<Rightarrow> u160 \<Rightarrow> 'v \<Rightarrow> 'v \<Rightarrow> bool" where
  \<comment> \<open>the state the plan runs in: that of the chain, in which, for a delegated plan from and to the signer and to a
    contract with code, the signer's account has the delegation designator for its code\<close>
  "prepared E account put plan signer v v' \<longleftrightarrow>
     (case ep_eip7702 plan of
        None \<Rightarrow> v' = v
      | Some del \<Rightarrow>
          authority del = signer \<and> ep_target plan = signer \<and> account v (delegate_address del) \<noteq> None \<and>
          (\<forall>info code. account v (delegate_address del) = Some info \<and> ai_code info = Some code \<longrightarrow> \<not> bc_is_empty (ev_code E) code) \<and>
          (\<exists>info. v' = put signer info v \<and> ai_code info = Some (bc_new_eip7702 (ev_code E) (delegate_address del)) \<and>
             ai_balance info = (case account v signer of None \<Rightarrow> 0 | Some i \<Rightarrow> ai_balance i)))"

definition gains ::
    "('d, 'c) revm \<Rightarrow> ('v \<Rightarrow> u160 \<Rightarrow> 'c AccountInfo option) \<Rightarrow> (u160 \<Rightarrow> 'c AccountInfo \<Rightarrow> 'v \<Rightarrow> 'v) \<Rightarrow>
      (TxEnv \<Rightarrow> 'v \<Rightarrow> ExecutionResult \<times> 'v) \<Rightarrow> Plan \<Rightarrow> u160 \<Rightarrow> 'v \<Rightarrow> int \<Rightarrow> bool" where
  \<comment> \<open>run once in the prepared state the plan succeeds and changes the signer's balance by \<open>delta\<close>\<close>
  "gains E account put exec plan signer v delta \<longleftrightarrow>
     (\<exists>v1 v2 out pre post.
        prepared E account put plan signer v v1 \<and> exec (plan_tx plan signer) v1 = (ER_Success out, v2) \<and>
        balance_is E account exec (ep_profit_token plan) signer v1 pre \<and>
        balance_is E account exec (ep_profit_token plan) signer v2 post \<and>
        delta = int (unat post) - int (unat pre))"

lemma overlay_prepares:
  assumes S: "simulates E view account put exec"
    and r: "apply_eip7702_delegation_overlay E plan signer d = (Inr u, d')"
  shows "prepared E account put plan signer (view d) (view d')"
proof (cases "ep_eip7702 plan")
  case None
  then show ?thesis using r by (simp add: apply_eip7702_delegation_overlay_def prepared_def)
next
  case (Some del)
  have ends: "authority del = signer" "ep_target plan = signer"
    using r Some by (auto simp: apply_eip7702_delegation_overlay_def split: if_splits)
  obtain info d1 where b1: "ev_basic E (delegate_address del) d = (Inr (Some info), d1)"
    using r Some ends by (auto simp: apply_eip7702_delegation_overlay_def split: prod.splits sum.splits option.splits)
  obtain code d2 where c: "(case ai_code info of Some code \<Rightarrow> (Inr code, d1) | None \<Rightarrow> ev_code_by_hash E (ai_code_hash info) d1) = (Inr code, d2)"
    and ne: "\<not> bc_is_empty (ev_code E) code"
    using r Some ends b1 by (auto simp: apply_eip7702_delegation_overlay_def split: prod.splits sum.splits if_splits)
  obtain auth d3 where b3: "ev_basic E signer d2 = (Inr auth, d3)"
    using r Some ends b1 c ne by (auto simp: apply_eip7702_delegation_overlay_def split: prod.splits sum.splits)
  have v1: "account (view d) (delegate_address del) = Some info" "view d1 = view d"
    using S b1 unfolding simulates_def by metis+
  have v2: "view d2 = view d1" using S c unfolding simulates_def by (cases "ai_code info") auto
  have v3: "account (view d2) signer = auth" "view d3 = view d2" using S b3 unfolding simulates_def by metis+
  have put: "view (ev_insert_account_info E a i d3) = put a i (view d3)" for a i using S by (simp add: simulates_def)
  show ?thesis
    using r Some ends b1 c ne b3 v1 v2 v3
    by (auto simp: apply_eip7702_delegation_overlay_def prepared_def put Let_def split: option.splits)
qed

lemma balance_read:
  assumes S: "simulates E view account put exec"
    and r: "(if token = NATIVE_TOKEN then read_native_balance E owner d else read_erc20_balance E token owner d) = (Inr n, d')"
  shows "balance_is E account exec token owner (view d) n \<and> view d' = view d"
proof (cases "token = NATIVE_TOKEN")
  case True
  then obtain i where "ev_basic E owner d = (Inr i, d')" "n = (case i of None \<Rightarrow> 0 | Some info \<Rightarrow> ai_balance info)"
    using r by (auto simp: read_native_balance_def split: prod.splits sum.splits)
  with True S show ?thesis unfolding simulates_def balance_is_def by metis
next
  case False
  obtain tx where tx: "ev_build E (balance_tx E token owner) = Inr tx"
    using r False by (auto simp: read_erc20_balance_def split: sum.splits)
  then have tx': "tx = balance_tx E token owner" using S unfolding simulates_def by metis
  obtain out where "ev_transact E tx d = (Inr (ER_Success out), d')" "ev_decode_returns E out = Inr n"
    using r False tx by (auto simp: read_erc20_balance_def split: sum.splits prod.splits ExecutionResult.splits)
  with False S tx' show ?thesis unfolding simulates_def balance_is_def by metis
qed

lemma plan_executed:
  assumes S: "simulates E view account put exec" and r: "execute_plan_tx E plan signer d = (Inr u, d')"
  shows "\<exists>out. exec (plan_tx plan signer) (view d) = (ER_Success out, view d')"
proof -
  obtain tx where tx: "ev_build E (plan_tx plan signer) = Inr tx"
    using r by (auto simp: execute_plan_tx_def split: sum.splits)
  then have tx': "tx = plan_tx plan signer" using S unfolding simulates_def by metis
  obtain out where "ev_transact_commit E tx d = (Inr (ER_Success out), d')"
    using r tx by (auto simp: execute_plan_tx_def split: sum.splits prod.splits ExecutionResult.splits)
  with S tx' show ?thesis unfolding simulates_def by metis
qed

lemma preflight_measures:
  assumes S: "simulates E view account put exec"
    and r: "run_preflight_blocking E handle plan signer d = (Inr delta, d')"
  shows "\<exists>g. gains E account put exec plan signer (view d) g \<and>
    sint delta = max (- (2 ^ 255 - 1)) (min (2 ^ 255 - 1) g)"
proof -
  define read where "read = (if ep_profit_token plan = NATIVE_TOKEN then read_native_balance E signer
    else read_erc20_balance E (ep_profit_token plan) signer)"
  obtain u d1 where o1: "apply_eip7702_delegation_overlay E plan signer d = (Inr u, d1)"
    using r by (auto simp: run_preflight_blocking_def split: if_splits prod.splits sum.splits)
  have m: "measured read E plan signer d1 = (Inr delta, d')"
    using r o1 by (auto simp: run_preflight_blocking_def read_def split: if_splits)
  obtain pre d2 where r2: "read d1 = (Inr pre, d2)" using m by (auto simp: measured_def split: prod.splits sum.splits)
  obtain u' d3 where x3: "execute_plan_tx E plan signer d2 = (Inr u', d3)"
    using m r2 by (auto simp: measured_def split: prod.splits sum.splits)
  obtain post where r4: "read d3 = (Inr post, d')" and delta: "delta = u256_diff_to_i256 post pre"
    using m r2 x3 by (auto simp: measured_def split: prod.splits sum.splits)
  have b: "balance_is E account exec (ep_profit_token plan) signer (view d1) pre \<and> view d2 = view d1"
    "balance_is E account exec (ep_profit_token plan) signer (view d3) post \<and> view d' = view d3"
    using r2 r4 balance_read [OF S, of "ep_profit_token plan" signer] by (simp_all add: read_def split: if_splits)
  obtain out where "exec (plan_tx plan signer) (view d2) = (ER_Success out, view d3)" using plan_executed [OF S x3] by blast
  then have "gains E account put exec plan signer (view d) (int (unat post) - int (unat pre))"
    using overlay_prepares [OF S o1] b unfolding gains_def by metis
  then show ?thesis using balance_change_exact [of post pre] delta by blast
qed

definition simulation_error :: "PreflightError \<Rightarrow> bool" where
  "simulation_error e \<longleftrightarrow> (\<exists>m. e = SimulationReverted m \<or> e = Unavailable m)"

lemma preflight_error_kinds:
  assumes "fst (run_preflight_blocking E handle plan signer d) = Inl e"
  shows "simulation_error e"
proof -
  have bal: "simulation_error (map_balance_err stage b)" for stage b
    by (cases b) (simp_all add: simulation_error_def)
  have ex: "fst (execute_plan_tx E plan signer d) = Inl e \<Longrightarrow> simulation_error e" for d e
    by (auto simp: execute_plan_tx_def simulation_error_def split: sum.splits prod.splits ExecutionResult.splits)
  have me: "simulation_error e" if m: "fst (measured read E plan signer d) = Inl e" for read d e
  proof -
    obtain r2 d2 where r2: "read d = (r2, d2)" by force
    obtain x3 d3 where x3: "execute_plan_tx E plan signer d2 = (x3, d3)" by force
    obtain r4 d4 where r4: "read d3 = (r4, d4)" by force
    show ?thesis
      using m bal ex [of d2 e] by (cases r2; cases x3; cases r4) (auto simp: measured_def r2 x3 r4)
  qed
  have ov: "fst (apply_eip7702_delegation_overlay E plan signer d) = Inl e \<Longrightarrow> simulation_error e" for d e
    by (auto simp: apply_eip7702_delegation_overlay_def simulation_error_def Let_def
        split: option.splits if_splits sum.splits prod.splits)
  obtain r1 d1 where r1: "apply_eip7702_delegation_overlay E plan signer d = (r1, d1)" by force
  show ?thesis
    using assms ov [of d e] me [of _ d1 e]
    by (cases r1) (auto simp: run_preflight_blocking_def r1 simulation_error_def split: if_splits)
qed

section \<open>The preflight of the live backend\<close>

definition live_preflight ::
    "('d, 'c) revm \<Rightarrow> ('b \<Rightarrow> Lane \<Rightarrow> 'd) \<Rightarrow> ('b \<Rightarrow> bool) \<Rightarrow> ('b \<Rightarrow> string option) \<Rightarrow> u160 \<Rightarrow> 'b \<Rightarrow> Plan \<Rightarrow> PreflightError + i256" where
  \<comment> \<open>\<open>LiveBackend::preflight\<close> from a backend state: a fresh database over the provider of the plan's lane, whether there
    is a runtime handle, and the error of joining the task, if any\<close>
  "live_preflight E fresh handle join_error signer b plan =
     preflight_check E (handle b) (join_error b) plan signer (fresh b (ep_submission_lane plan))"

lemma preflight_stage_real:
  assumes "preflight_stage B p ts w = (f, ts', w')"
  shows "\<exists>cs. wd_calls w' = wd_calls w @ cs \<and> (\<forall>q r. Preflight_call q r \<in> set cs \<longrightarrow> (\<exists>b. fst (be_preflight B b q) = r))"
proof (cases "ep_dry_run p \<or> ep_require_preflight p")
  case True
  obtain r w1 where c: "call_preflight B p w = (r, w1)" by force
  obtain t w2 where t: "ts_now B w1 = (t, w2)" by force
  have "fst (be_preflight B (wd_backend w) p) = r" using c by (auto simp: call_preflight_def Let_def split: prod.splits)
  moreover have "wd_calls w' = wd_calls w @ [Preflight_call p r]"
    using assms True c t call_quiet(1) [OF c] ts_now_quiet [OF t]
    by (cases r) (auto simp: preflight_stage_def Let_def split: if_splits)
  ultimately show ?thesis by auto
qed (use assms in \<open>auto simp: preflight_stage_def\<close>)

lemma run_one_plan_real:
  "\<exists>cs. wd_calls (run_one_plan B limited p w) = wd_calls w @ cs \<and>
    (\<forall>q r. Preflight_call q r \<in> set cs \<longrightarrow> (\<exists>b. fst (be_preflight B b q) = r))"
proof -
  obtain t0 w0 where t0: "ts_now B w = (t0, w0)" by force
  note q0 = ts_now_quiet [OF t0]
  let ?ts = "\<lparr>received_ns = t0, preflight_ns = None, broadcast_ns = None, included_ns = None\<rparr>"
  obtain f ts1 w1 where pf: "preflight_stage B p ?ts w0 = (f, ts1, w1)" by (metis prod_cases3)
  obtain cs where cs: "wd_calls w1 = wd_calls w @ cs" "\<forall>q r. Preflight_call q r \<in> set cs \<longrightarrow> (\<exists>b. fst (be_preflight B b q) = r)"
    using preflight_stage_real [OF pf] q0 by auto
  obtain b w2 where lim: "(if limited then call_limit B w1 else (True, w1)) = (b, w2)" by force
  obtain ls where ls: "wd_calls w2 = wd_calls w1 @ ls" "set ls \<subseteq> {Limit_call b}"
    using lim call_quiet(2) [of B w1 b w2] by (cases limited) auto
  show ?thesis
  proof (cases "ep_deadline_ms p < t0 div 1000000 \<or> validate_submission_policy p \<noteq> None \<or> f \<noteq> None \<or> ep_dry_run p \<or> \<not> b")
    case True
    have "wd_calls (run_one_plan B limited p w) \<in> {wd_calls w0, wd_calls w1, wd_calls w2}"
    proof (cases "ep_deadline_ms p < t0 div 1000000 \<or> validate_submission_policy p \<noteq> None \<or> f \<noteq> None \<or> ep_dry_run p")
      case True
      then show ?thesis using t0 pf by (auto simp: run_one_plan_def Let_def split: option.splits)
    next
      case False
      then show ?thesis using True t0 pf lim by (auto simp: run_one_plan_def Let_def)
    qed
    then consider "wd_calls (run_one_plan B limited p w) = wd_calls w @ []" | "wd_calls (run_one_plan B limited p w) = wd_calls w @ cs"
      | "wd_calls (run_one_plan B limited p w) = wd_calls w @ (cs @ ls)"
      using q0 cs(1) ls(1) by fastforce
    then show ?thesis
    proof cases
      case 3
      moreover have "\<forall>q r. Preflight_call q r \<in> set (cs @ ls) \<longrightarrow> (\<exists>b. fst (be_preflight B b q) = r)"
        using cs(2) ls(2) by auto
      ultimately show ?thesis by blast
    qed (use cs(2) in auto)
  next
    case False
    then obtain sr as where "wd_calls (submit_stage B p ts1 w2) = wd_calls w2 @ Submit_call p sr # as"
      "\<forall>c\<in>set as. \<exists>h d. c = Await_call h d" using submit_stage_out [of p B ts1 w2] by blast
    moreover have "run_one_plan B limited p w = submit_stage B p ts1 w2"
      using False t0 pf lim by (auto simp: run_one_plan_def Let_def)
    ultimately show ?thesis
      using cs ls by (intro exI [of _ "cs @ ls @ Submit_call p sr # as"]) auto
  qed
qed

section \<open>Property\<close>


definition sample_evm :: "(u256, unit) revm" where
  \<comment> \<open>a chain whose state is the balance of the signer, and on which every transaction earns 10\<close>
  "sample_evm =
     \<lparr>ev_code = \<lparr>bc_new = (), bc_new_raw = \<lambda>_. (), bc_new_eip7702 = \<lambda>_. (), bc_is_empty = \<lambda>_. False, bc_hash_slow = \<lambda>_. 0,
                 KECCAK_EMPTY = 0\<rparr>,
      ev_basic = \<lambda>_ v. (Inr (Some \<lparr>ai_balance = v, ai_nonce = 0, ai_code_hash = 0, ai_code = None\<rparr>), v),
      ev_code_by_hash = \<lambda>_ v. (Inr (), v), ev_insert_account_info = \<lambda>_ i _. ai_balance i, ev_build = Inr,
      ev_transact = \<lambda>_ v. (Inr (ER_Success []), v), ev_transact_commit = \<lambda>_ v. (Inr (ER_Success []), v + 10),
      ev_balance_of_call = \<lambda>_. [], ev_decode_returns = \<lambda>_. Inr 0, ev_decode_string = \<lambda>_. None, ev_hex = \<lambda>_. [],
      ev_show = \<lambda>_. []\<rparr>"

definition sample_backend :: "unit ExecutorBackend" where
  "sample_backend =
     \<lparr>be_now_ns = \<lambda>b. (0, b),
      be_preflight = \<lambda>b q. (live_preflight sample_evm (\<lambda>_ _. 50) (\<lambda>_. True) (\<lambda>_. None) 7 b q, b),
      be_limit_ok = \<lambda>b. (True, b), be_sign_and_submit = \<lambda>b q. (Inr 1, b), be_await_inclusion = \<lambda>b h t. (Inr IO_Dropped, b)\<rparr>"

definition gated_plan :: Plan where
  "gated_plan = sample_plan\<lparr>ep_admission_hash := Some 1, ep_require_preflight := True, ep_expected_balance_delta_floor := 10\<rparr>"

lemma sample_simulates:
  "simulates sample_evm id (\<lambda>v _. Some \<lparr>ai_balance = v, ai_nonce = 0, ai_code_hash = 0, ai_code = None\<rparr>)
     (\<lambda>_ i _. ai_balance i) (\<lambda>_ v. (ER_Success [], v + 10))"
  by (simp add: simulates_def sample_evm_def)


end
