(* ===== verification/Wire_Types.thy ===== *)
theory Wire_Types
  imports Abi_Text
begin

text \<open>
  The types of the coordinator channel: the text adapters, the wire structs and their conversions into the contract
  structs of \<open>types/wire.rs\<close>, and the settlement results of \<open>types/settlement.rs\<close>. A field adapter maps a value to the
  JSON string it is written as and back; the number and address parsers of \<open>alloy\<close> are those of the record \<open>alloy\<close>, the
  checksummed form of an address is an argument.
\<close>

section \<open>Settlement results\<close>

datatype SettlementResultKind = SR_Included | SR_Reverted | SR_Dropped | SR_PreflightFailed | SR_Error

fun settlement_name :: "SettlementResultKind \<Rightarrow> string" where
  "settlement_name SR_Included = ''Included''"
| "settlement_name SR_Reverted = ''Reverted''"
| "settlement_name SR_Dropped = ''Dropped''"
| "settlement_name SR_PreflightFailed = ''PreflightFailed''"
| "settlement_name SR_Error = ''Error''"

definition settlement_from_name :: "string \<Rightarrow> SettlementResultKind option" where
  "settlement_from_name s =
     (if s = ''Included'' then Some SR_Included
      else if s = ''Reverted'' then Some SR_Reverted
      else if s = ''Dropped'' then Some SR_Dropped
      else if s = ''PreflightFailed'' then Some SR_PreflightFailed
      else if s = ''Error'' then Some SR_Error
      else None)"

definition settlement_from_ordinal :: "u8 \<Rightarrow> SettlementResultKind option" where
  "settlement_from_ordinal u =
     (if u = 0 then Some SR_Included
      else if u = 1 then Some SR_Reverted
      else if u = 2 then Some SR_Dropped
      else if u = 3 then Some SR_PreflightFailed
      else if u = 4 then Some SR_Error
      else None)"

fun settlement_ordinal :: "SettlementResultKind \<Rightarrow> u8" where
  "settlement_ordinal SR_Included = 0"
| "settlement_ordinal SR_Reverted = 1"
| "settlement_ordinal SR_Dropped = 2"
| "settlement_ordinal SR_PreflightFailed = 3"
| "settlement_ordinal SR_Error = 4"

definition SETTLEMENT_VERSION :: u8 where
  "SETTLEMENT_VERSION = 1"

section \<open>Text adapters\<close>

definition debug_str :: "string \<Rightarrow> string" where
  \<comment> \<open>\<open>{:?}\<close> of a text without characters that are escaped\<close>
  "debug_str s = [CHR 0x22] @ s @ [CHR 0x22]"

definition serialize_u256 :: "u256 \<Rightarrow> string" where
  "serialize_u256 v = decimal (unat v)"

definition deserialize_u256 :: "alloy \<Rightarrow> string \<Rightarrow> (u256, string) outcome" where
  "deserialize_u256 A s =
     map_err (\<lambda>e. ''decimal_u256: failed to parse '' @ debug_str s @ '': '' @ e) (a_u256 A s 10)"

definition serialize_u256_vec :: "u256 list \<Rightarrow> string list" where
  "serialize_u256_vec vs = map (\<lambda>v. decimal (unat v)) vs"

definition deserialize_u256_vec :: "alloy \<Rightarrow> string list \<Rightarrow> (u256 list, string) outcome" where
  "deserialize_u256_vec A strings =
     collect_results (map (\<lambda>s.
       map_err (\<lambda>e. ''decimal_u256_vec: failed to parse '' @ debug_str s @ '': '' @ e) (a_u256 A s 10)) strings)"

definition serialize_u64 :: "u64 \<Rightarrow> string" where
  "serialize_u64 v = decimal (unat v)"

definition deserialize_u64 :: "string \<Rightarrow> (u64, string) outcome" where
  "deserialize_u64 s =
     obind (map_err (\<lambda>e. ''decimal_u64: failed to parse '' @ debug_str s @ '': '' @ e) (parse_uint (2 ^ 64) s)) (\<lambda>n.
       Ok (word_of_nat n))"

definition serialize_address :: "(u160 \<Rightarrow> string) \<Rightarrow> u160 \<Rightarrow> string" where
  \<comment> \<open>the first argument is \<open>Address::to_checksum(None)\<close>\<close>
  "serialize_address to_checksum v = to_checksum v"

definition deserialize_address :: "alloy \<Rightarrow> string \<Rightarrow> (u160, string) outcome" where
  "deserialize_address A s =
     map_err (\<lambda>e. ''checksum_address: failed to parse '' @ debug_str s @ '': '' @ e) (a_address A s)"

definition serialize_address_vec :: "(u160 \<Rightarrow> string) \<Rightarrow> u160 list \<Rightarrow> string list" where
  "serialize_address_vec to_checksum vs = map to_checksum vs"

definition deserialize_address_vec :: "alloy \<Rightarrow> string list \<Rightarrow> (u160 list, string) outcome" where
  "deserialize_address_vec A strings =
     collect_results (map (\<lambda>s.
       map_err (\<lambda>e. ''checksum_address_vec: failed to parse '' @ debug_str s @ '': '' @ e) (a_address A s)) strings)"

section \<open>Wire structs and contract structs\<close>

record WireSwapStep =
  ws_dex_kind :: u8
  ws_router :: u160
  ws_call_data :: "u8 list"
  ws_token_in :: u160
  ws_token_out :: u160
  ws_amount_in :: u256
  ws_amount_out_min :: u256

record WireNativeArbParams =
  wn_flash_lender :: u160
  wn_flash_protocol :: u8
  wn_flash_token :: u160
  wn_flash_amount :: u256
  wn_swaps :: "WireSwapStep list"
  wn_min_profit :: u256
  wn_deadline :: u256

record WireMatchParams =
  wm_cow_settlement_calldata :: "u8 list"
  wm_uniswapx_batch_calldata :: "u8 list"
  wm_expected_token_inflows :: "u160 list"
  wm_expected_token_inflow_min :: "u256 list"
  wm_flash_lender :: u160
  wm_flash_protocol :: u8
  wm_flash_token :: u160
  wm_flash_amount :: u256
  wm_min_profit :: u256
  wm_deadline :: u256
  wm_settlement_funding_token :: u160
  wm_settlement_funding_max :: u256

record WireComposeParams =
  wc_across_fill_calldata :: "u8 list"
  wc_arb_swaps :: "WireSwapStep list"
  wc_cow_fill_calldata :: "u8 list"
  wc_uniswapx_rebalance_calldata :: "u8 list"
  wc_flash_lender :: u160
  wc_flash_protocol :: u8
  wc_flash_token :: u160
  wc_flash_amount :: u256
  wc_min_profit :: u256
  wc_deadline :: u256
  wc_settlement_funding_token :: u160
  wc_settlement_funding_max :: u256

record WireSettlement =
  wt_plan_id :: u256
  wt_version :: u8
  wt_result :: string
  wt_tx_hash :: u256
  wt_block :: u64
  wt_gas_used :: u64
  wt_preflight_delta :: u256
  wt_gas_estimate :: u256
  wt_error :: string

definition result_kind :: "WireSettlement \<Rightarrow> SettlementResultKind option" where
  "result_kind w = settlement_from_name (wt_result w)"

record SolSwapStep =
  dexKind :: u8
  router :: u160
  callData :: "u8 list"
  tokenIn :: u160
  tokenOut :: u160
  amountIn :: u256
  amountOutMin :: u256

record SolNativeArbParams =
  n_flashLender :: u160
  n_flashProtocol :: u8
  n_flashToken :: u160
  n_flashAmount :: u256
  n_swaps :: "SolSwapStep list"
  n_minProfit :: u256
  n_deadline :: u256

record SolMatchParams =
  m_cowSettlementCalldata :: "u8 list"
  m_uniswapxBatchCalldata :: "u8 list"
  m_expectedTokenInflows :: "u160 list"
  m_expectedTokenInflowMin :: "u256 list"
  m_flashLender :: u160
  m_flashProtocol :: u8
  m_flashToken :: u160
  m_flashAmount :: u256
  m_minProfit :: u256
  m_deadline :: u256
  m_settlementFundingToken :: u160
  m_settlementFundingMax :: u256

record SolComposeParams =
  c_acrossFillCalldata :: "u8 list"
  c_arbSwaps :: "SolSwapStep list"
  c_cowFillCalldata :: "u8 list"
  c_uniswapxRebalanceCalldata :: "u8 list"
  c_flashLender :: u160
  c_flashProtocol :: u8
  c_flashToken :: u160
  c_flashAmount :: u256
  c_minProfit :: u256
  c_deadline :: u256
  c_settlementFundingToken :: u160
  c_settlementFundingMax :: u256

definition swap_step_from_wire :: "WireSwapStep \<Rightarrow> SolSwapStep" where
  "swap_step_from_wire w =
     \<lparr>dexKind = ws_dex_kind w, router = ws_router w, callData = ws_call_data w, tokenIn = ws_token_in w,
      tokenOut = ws_token_out w, amountIn = ws_amount_in w, amountOutMin = ws_amount_out_min w\<rparr>"

definition native_arb_from_wire :: "WireNativeArbParams \<Rightarrow> SolNativeArbParams" where
  "native_arb_from_wire w =
     \<lparr>n_flashLender = wn_flash_lender w, n_flashProtocol = wn_flash_protocol w, n_flashToken = wn_flash_token w,
      n_flashAmount = wn_flash_amount w, n_swaps = map swap_step_from_wire (wn_swaps w), n_minProfit = wn_min_profit w,
      n_deadline = wn_deadline w\<rparr>"

definition match_from_wire :: "WireMatchParams \<Rightarrow> SolMatchParams" where
  "match_from_wire w =
     \<lparr>m_cowSettlementCalldata = wm_cow_settlement_calldata w, m_uniswapxBatchCalldata = wm_uniswapx_batch_calldata w,
      m_expectedTokenInflows = wm_expected_token_inflows w, m_expectedTokenInflowMin = wm_expected_token_inflow_min w,
      m_flashLender = wm_flash_lender w, m_flashProtocol = wm_flash_protocol w, m_flashToken = wm_flash_token w,
      m_flashAmount = wm_flash_amount w, m_minProfit = wm_min_profit w, m_deadline = wm_deadline w,
      m_settlementFundingToken = wm_settlement_funding_token w, m_settlementFundingMax = wm_settlement_funding_max w\<rparr>"

definition compose_from_wire :: "WireComposeParams \<Rightarrow> SolComposeParams" where
  "compose_from_wire w =
     \<lparr>c_acrossFillCalldata = wc_across_fill_calldata w, c_arbSwaps = map swap_step_from_wire (wc_arb_swaps w),
      c_cowFillCalldata = wc_cow_fill_calldata w, c_uniswapxRebalanceCalldata = wc_uniswapx_rebalance_calldata w,
      c_flashLender = wc_flash_lender w, c_flashProtocol = wc_flash_protocol w, c_flashToken = wc_flash_token w,
      c_flashAmount = wc_flash_amount w, c_minProfit = wc_min_profit w, c_deadline = wc_deadline w,
      c_settlementFundingToken = wc_settlement_funding_token w, c_settlementFundingMax = wc_settlement_funding_max w\<rparr>"

section \<open>Round trips\<close>

lemma settlement_names:
  "settlement_from_name s = Some k \<longleftrightarrow> s = settlement_name k"
  "settlement_from_ordinal u = Some k \<longleftrightarrow> u = settlement_ordinal k"
  by (cases k; auto simp: settlement_from_name_def settlement_from_ordinal_def)+

text \<open>What one side writes the other reads: the decimal adapters give back every value, single and in lists, and so do
  the address adapters for a checksummed form that the address parser reads.\<close>

theorem wire_adapters_roundtrip:
  "text_faithful A \<Longrightarrow> (\<And>a. a_address A (to_checksum a) = Ok a) \<Longrightarrow>
    deserialize_u256 A (serialize_u256 v) = Ok v \<and> deserialize_u256_vec A (serialize_u256_vec vs) = Ok vs \<and>
    deserialize_u64 (serialize_u64 n) = Ok n \<and> deserialize_address A (serialize_address to_checksum a) = Ok a \<and>
    deserialize_address_vec A (serialize_address_vec to_checksum as) = Ok as"
proof -
  assume A: "text_faithful A" and c: "\<And>a. a_address A (to_checksum a) = Ok a"
  have u: "a_u256 A (decimal (unat x)) 10 = Ok x" for x using A by (simp add: text_faithful_def)
  have "parse_uint (2 ^ 64) (decimal (unat n)) = Ok (unat n)"
    using unat_bound [of n] by (intro parse_uint_decimal) simp
  moreover have "deserialize_u256_vec A (serialize_u256_vec vs) = Ok vs"
    unfolding deserialize_u256_vec_def serialize_u256_vec_def by (rule collect_results_inverse) (simp add: u)
  moreover have "deserialize_address_vec A (serialize_address_vec to_checksum as) = Ok as"
    unfolding deserialize_address_vec_def serialize_address_vec_def by (rule collect_results_inverse) (simp add: c)
  ultimately show ?thesis
    by (simp add: deserialize_u256_def serialize_u256_def deserialize_u64_def serialize_u64_def deserialize_address_def
        serialize_address_def u c)
qed

text \<open>No field is lost or exchanged on the way into the contract structs: wire values that differ give contract values
  that differ.\<close>

lemma swap_steps_injective: "inj swap_step_from_wire"
  by (rule injI) (simp add: swap_step_from_wire_def)

theorem wire_structs_injective:
  "inj native_arb_from_wire \<and> inj match_from_wire \<and> inj compose_from_wire"
  by (intro conjI injI)
    (simp_all add: native_arb_from_wire_def match_from_wire_def compose_from_wire_def inj_map_eq_map [OF swap_steps_injective])

text \<open>The decimal reader of gas amounts is documented to refuse signed numbers; it accepts a plus sign.\<close>

lemma plus_sign_accepted: "deserialize_u64 ''+350000'' = Ok 350000"
  by (simp add: deserialize_u64_def parse_uint_def is_digit_def digit_value_def Let_def power_numeral)

end
