(* ===== verification/Spec2Isabelle.thy ===== *)
theory Spec2Isabelle
  imports Tick_Math_Internal V4_Pool V3_Optimize Curve Signed_Order_Admission Execution_Engine Matching Nonces Window Executor
    Calldata Frontrun_Math Step_Merging Sequencer_Feed Mobius_Int Runtime_Adapter Account_Guards
    Executor_Guards Strategy_Gates Pool_Adapter Token_Risk Live_Backend Sandoo_Ideas Rpc_Provider Stylus_Adapters Monitor_Feed
    Preflight Wire_Types
begin

text \<open>
  \<^bold>\<open>Verification of degenbot.\<close> degenbot simulates decentralised exchanges, searches them for profitable trades, checks
  the trades it finds and hands them to an executor. Its Rust code has two parts: the crate under \<open>src/rust/src\<close>
  (simulation, optimisation, order admission, feeds, RPC, ABI codec, execution) and the contracts under \<open>src/stylus\<close>, ports of
  the on-chain side. This development models both and proves what makes them correct; the theory graph follows the calls of the code.

  \<^bold>\<open>Conventions.\<close> \<open>Rust_Prelude\<close> holds the machine layer. \<open>U256\<close>, \<open>U512\<close>, \<open>u64\<close>, addresses and hashes are words of
  their width and wrap as the release build does; signed native integers (\<open>i16\<close>, \<open>i32\<close>, \<open>i128\<close>) are integers with the wrap-around
  written out. A fallible function returns an \<^typ>\<open>('a, 'e) outcome\<close>: a value, an error of the source's enum, or \<open>Panic\<close> where
  the source would panic (division by zero, a slice or index out of range). Text is ASCII, one character per byte, and
  so are case folding and the character classes, where the source has the Unicode tables. Lengths are
  natural numbers; where the width of \<open>usize\<close> matters (\<open>Calldata\<close>, the ABI theories) it is a parameter. A loop that may run for ever is a partial function
  into an option type, with \<open>None\<close> for divergence; every other recursion has a termination proof. Third-party code is a parameter: \<open>keccak256\<close>,
  the JSON, base64 and transaction decoders, the ABI library and the node client, the EVM host of the contracts, clock, limiter and chain
  of the executor, the EVM interpreter of the simulator and the machine's floating-point operations. What a theorem needs of such a parameter is a named predicate
  that states its documented behaviour, and its witness instantiates the parameter with a function that has it.

  \<^bold>\<open>Pools\<close> (\<open>src/rust/src/simulation\<close>).
  \<^item> \<open>V3_Common\<close>, \<open>Full_Math\<close>, \<open>U256_Utils\<close>: error enum, bit scans, the 512-bit multiply-divide with its Newton inverse, integer
    roots. The routines are exact: floor of the true quotient or the right error.
  \<^item> \<open>Sqrt_Price_Math\<close>, \<open>Liquidity_Math\<close>, \<open>Swap_Math\<close>, \<open>Tick_Bitmap\<close>, \<open>Tick_Math\<close> (\<open>uniswap_v3_math/\<close>) and \<open>Tick_Math_Internal\<close>
    (\<open>tick_math.rs\<close>): price moves, one swap step, the tick search, ticks to prices in two
    implementations that agree on every tick in range and reject every other one, each in its own way.
  \<^item> \<open>V3_Pool\<close> (\<open>v3.rs\<close>), \<open>V4_Pool\<close> (\<open>v4.rs\<close>), \<open>V2_Pool\<close> (\<open>v2.rs\<close>), \<open>Curve\<close> (\<open>curve.rs\<close>, \<open>curve_optimize.rs\<close>): the quotes. The V3 swap loop is a \<open>while\<close> loop over a
    record of its variables; an invariant carries direction, limit and liquidity through it, a measure on ticks gives
    termination for spacings up to \<open>2^20\<close>, and beyond them every pool whose
    position wraps round without meeting liquidity makes it run for ever.
  \<^item> \<open>Search\<close>, \<open>V2_Optimize\<close>, \<open>V3_Optimize\<close>: ternary, golden-section, doubling and bisection searches, proved once over a profit
    function, then used for the optimisers.

  \<^bold>\<open>Admission and execution\<close> (\<open>src/rust/src\<close>).
  \<^item> \<open>Byte_Codec\<close> states prefix codes and fixed-width codes as locales and interprets them for the byte encodings of the
    sources; injectivity of the hashed bytes follows from them everywhere. \<open>Json_Input\<close> is the JSON front end over a parameter for the parser.
  \<^item> \<open>Signed_Order_Admission\<close>, \<open>Execution_Engine\<close>, \<open>Matching\<close>, \<open>Nonces\<close>, \<open>Window\<close>: each guard list is compared with a specification of
    what is admissible; the hashes bind their inputs, with the exception that is proved, and the size of a fill is shown to
    ignore the budget of the counter order.
  \<^item> \<open>Executor\<close> (\<open>executor/mod.rs\<close>, \<open>executor/lane.rs\<close>): the actor over an abstract backend; the stream of settlements is a word of a
    lifecycle grammar, and nothing is signed that policy and preflight have not passed.
  \<^item> \<open>Gas_Oracle\<close> (\<open>executor/gas.rs\<close>, \<open>tx_builder.rs\<close>, \<open>inclusion.rs\<close>) and \<open>Live_Backend\<close> (the live backend of \<open>executor/mod.rs\<close>): the gas
    gate is exact, the inclusion watch ends with a verdict it has seen, every accepted nonce is a reported one or follows the accepted nonce
    before it, and the settled balance change is the measured one.
  \<^item> \<open>Preflight\<close> (\<open>executor/preflight.rs\<close> and its call in the live backend): the simulation of a plan over an interpreter that is a
    parameter; with it plugged into the executor, no plan that asks for a preflight is broadcast unless its simulated
    gain reaches the floor of the plan.
  \<^item> \<open>Wire_Types\<close> (\<open>types/wire.rs\<close>, \<open>types/settlement.rs\<close>): text adapters and conversions of the structs that cross the wire; they lose nothing.
  \<^item> \<open>Sequencer_Feed\<close> (\<open>monitor/sequencer_feed.rs\<close>, \<open>sequencer_broadcast.rs\<close>): the nested L2 message decoder is equivalent to an inductive
    grammar; recursion is bounded by the depth limit of 16 batches and by the length of the bytes.
  \<^item> \<open>Constant_Product\<close> is the shared real-valued specification of constant-product cycles; \<open>Mobius_Int\<close> (\<open>optimizers/mobius_int.rs\<close>) and
    \<open>Mega_Math\<close> are measured against it. The starting point of the integer solver is computed in \<open>f64\<close>, over a record of machine operations
    of which nothing is assumed.

  \<^item> \<open>Sandoo_Ideas\<close> (\<open>decision/sandoo_ideas.rs\<close>): the score of a candidate is the exact net profit per size, and its evaluation never panics.

  \<^bold>\<open>Chain access\<close> (\<open>src/rust/src\<close>).
  \<^item> \<open>Backoff\<close> states exponential backoff as a locale; \<open>Rpc_Provider\<close> (\<open>provider.rs\<close>) and \<open>Monitor_Feed\<close> interpret it with their own delays.
    The provider's retries are characterised completely, and the chunks of the log fetcher cover a block range exactly, where the
    arithmetic on block numbers does not wrap.
  \<^item> \<open>Monitor_Feed\<close> (\<open>monitor/sync_event.rs\<close>, \<open>feed.rs\<close>, \<open>ws.rs\<close>, \<open>sequencer_subscriber.rs\<close>): the tasks between node and strategies are functions of the
    list of what they observe, so a theorem over all lists is one over all interleavings. Nothing is lost, duplicated or reordered.
  \<^item> \<open>Abi_Types\<close> (\<open>abi_types/type_.rs\<close>), \<open>Signature_Parser\<close> (\<open>signature_parser.rs\<close>, signatures of \<open>contract.rs\<close>), \<open>Abi_Values\<close> (\<open>abi_types/value.rs\<close>,
    \<open>cached.rs\<close>, \<open>abi_encoder.rs\<close>, \<open>abi_decoder.rs\<close>) and \<open>Abi_Text\<close> (text arguments, \<open>hex_utils.rs\<close>, calls of \<open>contract.rs\<close>): parsed types and signatures are
    well formed and printed back exactly, encoding and text forms are inverted, an argument echoed by a contract comes back in
    canonical form, caches are transparent.
  \<^item> \<open>Execution_Calldata\<close> (\<open>execution.rs\<close>) states the ABI encoding of the contracts as a specification; the Stylus encoders implement it and the
    calldata builder of the main crate misses one offset of it.

  \<^bold>\<open>Contracts\<close> (\<open>src/stylus\<close>).
  \<^item> \<open>Mega_Bits\<close>, \<open>Mega_Math\<close>, \<open>Frontrun_Math\<close>, \<open>Step_Merging\<close>: limb scans, fixed-point arithmetic, optimal cycle inputs, front-run sizes,
    merging of routes.
  \<^item> \<open>Calldata\<close> (\<open>frontrun_calldata.rs\<close>) and \<open>Executor_Abi\<close> (\<open>executor_abi.rs\<close>): decoders that never panic, round trips, injective calldata,
    and one shifted array offset.
  \<^item> \<open>Runtime_Adapter\<close>, \<open>Stylus_Ids\<close>, \<open>Account_Guards\<close>, \<open>Executor_Guards\<close>, \<open>Strategy_Gates\<close>: callback authentication, settlement, derived
    identifiers, and the static guards, each characterised by what it accepts; guards that exist twice in the repository
    (hook permissions, and the swap path of the atomic Aave liquidation, which its check parses while the plain entries look at
    its length only) are compared.
  \<^item> \<open>Stylus_Adapters\<close> (\<open>executor_abi_adapter\<close>, \<open>lp_transfer_adapter\<close>, \<open>runtime_adapter\<close>): contracts without storage; flat arrays describe swap steps
    exactly, and a move of a position reports success exactly when it took place, on the 32 bytes of return data the adapter reads.
  \<^item> \<open>Pool_Adapter\<close>, \<open>Token_Risk\<close>: two contracts with storage. Transactions are state transformers that leave the storage alone when they
    revert; the theorems speak about every sequence of them.

  \<^bold>\<open>Bounds.\<close> Newton and search loops run for the numbers of turns the source fixes; where the source loops until a
  condition holds, termination is proved from the condition. The two loops that need not end, the V3 swap and the log fetcher, are
  partial functions; that they return is proved under stated bounds, and that they diverge on classes of inputs outside them. Encoders are injective for byte strings shorter than \<open>2^256\<close>, decoders total for every \<open>usize\<close>.

  \<^bold>\<open>Not modelled.\<close> Generated bindings and the Python glue (\<open>*_py.rs\<close>, \<open>py_converters.rs\<close>, the futures of \<open>async_provider.rs\<close>), which hold no logic of their own;
  the EVM interpreter and the signing key, which are third-party code; the floating-point optimisers
  (\<open>optimizers/mobius*.rs\<close> but \<open>mobius_int.rs\<close>, \<open>utils/averager.rs\<close>), since nothing here models \<open>f64\<close> rounding; the derived JSON code of the wire types; the entry points of \<open>src/stylus/core/src/lib.rs\<close>,
  which forward to the modelled functions; vendored code.
\<close>

end
